(* ===== verification/Prelude.thy ===== *)
theory Prelude
  imports Main "HOL-Library.Word" "HOL-Library.List_Lexorder" "HOL-Library.Char_ord"
    "HOL-Library.Code_Target_Numeral"
begin

text \<open>
  Shared vocabulary of the development: the machine integers and byte strings of the Rust
  sources, Rust's \<^verbatim>\<open>Result\<close> with the ways a call can fail to return at all, the standard
  library's saturating arithmetic, big-endian byte conversions and UTF-8 validation, and the
  generic lemmas about them that the component theories use.
\<close>

unbundle bit_operations_syntax

section \<open>Types\<close>

text \<open>
  Unsigned integers are words. A signed \<^verbatim>\<open>i64\<close> is the same 64 bits, read with
  \<open>sint\<close> where the code compares it. The arrays \<^verbatim>\<open>[u8; 32]\<close> and
  \<^verbatim>\<open>[u8; 64]\<close> are words of 256 and 512 bits whose big-endian bytes are the array, so
  their length is part of the type as it is in Rust.
\<close>

type_synonym u8 = "8 word"
type_synonym u32 = "32 word"
type_synonym u64 = "64 word"
type_synonym i64 = "64 word"
type_synonym arr32 = "256 word"
type_synonym arr64 = "512 word"
type_synonym bytes = "8 word list"

text \<open>Facts the wire formats share, and facts about well-formedness that operations keep.\<close>

named_theorems wire_simps
named_theorems wf_intros

section \<open>Results\<close>

text \<open>
  \<open>Ok\<close> and \<open>Err\<close> are Rust's. \<open>Abort Panicked\<close> is a panic: an assertion, an
  overflow check or a slice out of range. \<open>Abort OutOfFuel\<close> marks a run cut short by the
  fuel of a model function, and every use comes with a lemma that it is not reached.
\<close>

datatype abort = Panicked | OutOfFuel

datatype ('a, 'e) result = Ok 'a | Err 'e | Abort abort

fun and_then :: "('a, 'e) result \<Rightarrow> ('a \<Rightarrow> ('b, 'e) result) \<Rightarrow> ('b, 'e) result" where
  "and_then (Ok a) f = f a"
| "and_then (Err e) f = Err e"
| "and_then (Abort x) f = Abort x"

fun map_err :: "('e \<Rightarrow> 'f) \<Rightarrow> ('a, 'e) result \<Rightarrow> ('a, 'f) result" where
  "map_err f (Ok a) = Ok a"
| "map_err f (Err e) = Err (f e)"
| "map_err f (Abort x) = Abort x"

fun ok_or :: "'e \<Rightarrow> 'a option \<Rightarrow> ('a, 'e) result" where
  "ok_or e None = Err e"
| "ok_or e (Some a) = Ok a"

fun is_ok :: "('a, 'e) result \<Rightarrow> bool" where
  "is_ok (Ok _) = True"
| "is_ok _ = False"

text \<open>\<^verbatim>\<open>Result::ok\<close>: an error becomes \<^verbatim>\<open>None\<close>, a panic stays one.\<close>

fun result_ok :: "('a, 'e) result \<Rightarrow> ('a option, 'f) result" where
  "result_ok (Ok a) = Ok (Some a)"
| "result_ok (Err e) = Ok None"
| "result_ok (Abort x) = Abort x"

text \<open>The state that a run of a fallible operation leaves, if it succeeds.\<close>

definition state_or_err :: "'s \<times> (unit, 'e) result \<Rightarrow> ('s, 'e) result" where
  "state_or_err p = and_then (snd p) (\<lambda>_. Ok (fst p))"

lemma and_then_cong [fundef_cong]:
  "r = r' \<Longrightarrow> (\<And>a. r' = Ok a \<Longrightarrow> f a = g a) \<Longrightarrow> and_then r f = and_then r' g"
  by (cases r') auto

lemma and_then_Ok_iff [simp]:
  "and_then r f = Ok b \<longleftrightarrow> (\<exists>a. r = Ok a \<and> f a = Ok b)"
  by (cases r) auto

lemma and_then_Abort_iff:
  "and_then r f = Abort x \<longleftrightarrow> r = Abort x \<or> (\<exists>a. r = Ok a \<and> f a = Abort x)"
  by (cases r) auto

lemma and_then_Err_iff:
  "and_then r f = Err e \<longleftrightarrow> r = Err e \<or> (\<exists>a. r = Ok a \<and> f a = Err e)"
  by (cases r) auto

lemma map_err_Ok_iff [simp]: "map_err f r = Ok a \<longleftrightarrow> r = Ok a"
  by (cases r) auto

lemma map_err_Abort_iff [simp]: "map_err f r = Abort x \<longleftrightarrow> r = Abort x"
  by (cases r) auto

lemma ok_or_Ok_iff [simp]: "ok_or e x = Ok a \<longleftrightarrow> x = Some a"
  by (cases x) auto

lemma ok_or_Err_iff [simp]: "ok_or e x = Err e' \<longleftrightarrow> x = None \<and> e' = e"
  by (cases x) auto

lemma ok_or_not_Abort [simp]: "ok_or e x \<noteq> Abort a"
  by (cases x) auto

text \<open>
  A run that has enough fuel and whose result, if it is \<open>Ok\<close>, satisfies \<open>Q\<close>, with the rules
  that follow the structure of a function body.
\<close>

definition ensures :: "('a, 'e) result \<Rightarrow> ('a \<Rightarrow> bool) \<Rightarrow> bool" where
  "ensures r Q \<longleftrightarrow> r \<noteq> Abort OutOfFuel \<and> (\<forall>a. r = Ok a \<longrightarrow> Q a)"

lemma ensures_Ok: "Q a \<Longrightarrow> ensures (Ok a) Q"
  by (simp add: ensures_def)

lemma ensures_Err: "ensures (Err e) Q"
  by (simp add: ensures_def)

lemma ensures_Panicked: "ensures (Abort Panicked) Q"
  by (simp add: ensures_def)

lemma ensures_if:
  "(b \<Longrightarrow> ensures x Q) \<Longrightarrow> (\<not> b \<Longrightarrow> ensures y Q) \<Longrightarrow> ensures (if b then x else y) Q"
  by simp

lemma ensures_pair:
  "(\<And>a b. p = (a, b) \<Longrightarrow> ensures (f a b) Q) \<Longrightarrow> ensures (case p of (a, b) \<Rightarrow> f a b) Q"
  by (cases p) simp

lemma ensures_and_then:
  "ensures r P \<Longrightarrow> (\<And>a. P a \<Longrightarrow> ensures (f a) Q) \<Longrightarrow> ensures (and_then r f) Q"
  by (auto simp: ensures_def and_then_Abort_iff)

lemma ensures_mono: "ensures r P \<Longrightarrow> (\<And>a. P a \<Longrightarrow> Q a) \<Longrightarrow> ensures r Q"
  by (simp add: ensures_def)

lemma ensuresD: "ensures r Q \<Longrightarrow> r = Ok a \<Longrightarrow> Q a"
  by (simp add: ensures_def)

lemmas ensures_intros = ensures_if ensures_Err ensures_Panicked ensures_pair

section \<open>Standard-library arithmetic\<close>

text \<open>\<^verbatim>\<open>saturating_sub\<close> and \<^verbatim>\<open>saturating_add\<close> on unsigned words.\<close>

definition sat_sub :: "'a::len word \<Rightarrow> 'a word \<Rightarrow> 'a word" where
  "sat_sub a b = (if b \<le> a then a - b else 0)"

definition sat_add :: "'a::len word \<Rightarrow> 'a word \<Rightarrow> 'a word" where
  "sat_add a b = (if unat a + unat b < 2 ^ LENGTH('a) then a + b else - 1)"

lemma unat_sat_sub: "unat (sat_sub a b) = unat a - unat b"
  by (auto simp: sat_sub_def unat_sub word_le_nat_alt)

lemma unat_sat_add: "unat (sat_add a b) = min (unat a + unat b) (2 ^ LENGTH('a) - 1)"
  for a b :: "'a::len word"
  by (auto simp: sat_add_def unat_word_ariths unsigned_minus_1_eq_mask mask_eq_exp_minus_1)

text \<open>The same on \<^verbatim>\<open>i64\<close>.\<close>

definition i64_clamp :: "int \<Rightarrow> i64" where
  "i64_clamp x = word_of_int (max (- (2 ^ 63)) (min (2 ^ 63 - 1) x))"

definition ssat_sub :: "i64 \<Rightarrow> i64 \<Rightarrow> i64" where
  "ssat_sub a b = i64_clamp (sint a - sint b)"

definition ssat_add :: "i64 \<Rightarrow> i64 \<Rightarrow> i64" where
  "ssat_add a b = i64_clamp (sint a + sint b)"

lemma sint_i64_clamp: "sint (i64_clamp x) = max (- (2 ^ 63)) (min (2 ^ 63 - 1) x)"
  unfolding i64_clamp_def by (simp add: signed_of_int signed_take_bit_int_eq_self)

lemma sint_i64_bounds: "- (2 ^ 63) \<le> sint a \<and> sint a < 2 ^ 63" for a :: i64
  using sint_ge [of a] sint_lt [of a] by simp

section \<open>Big-endian bytes\<close>

primrec be_bytes :: "nat \<Rightarrow> nat \<Rightarrow> bytes" where
  "be_bytes 0 x = []"
| "be_bytes (Suc n) x = be_bytes n (x div 256) @ [word_of_nat x]"

definition be_nat :: "bytes \<Rightarrow> nat" where
  "be_nat bs = foldl (\<lambda>a b. a * 256 + unat b) 0 bs"

definition u64_bytes :: "u64 \<Rightarrow> bytes" where
  "u64_bytes w = be_bytes 8 (unat w)"

definition u32_bytes :: "u32 \<Rightarrow> bytes" where
  "u32_bytes w = be_bytes 4 (unat w)"

definition arr32_bytes :: "arr32 \<Rightarrow> bytes" where
  "arr32_bytes h = be_bytes 32 (unat h)"

definition arr64_bytes :: "arr64 \<Rightarrow> bytes" where
  "arr64_bytes h = be_bytes 64 (unat h)"

definition word_of_be :: "bytes \<Rightarrow> 'a::len word" where
  "word_of_be bs = word_of_nat (be_nat bs)"

lemma unat_bound: "unat w < 2 ^ LENGTH('a)"
  for w :: "'a::len word"
  by (fact unsigned_less)

lemma u64_of_length_inject:
  assumes "m < 2 ^ 64" and "n < 2 ^ 64"
  shows "(word_of_nat m :: u64) = word_of_nat n \<longleftrightarrow> m = n"
proof -
  have "unat (word_of_nat m :: u64) = m" "unat (word_of_nat n :: u64) = n"
    using assms by (simp_all add: unat_of_nat)
  then show ?thesis
    by metis
qed

lemma length_be_bytes [simp]: "length (be_bytes n x) = n"
  by (induction n arbitrary: x) auto

lemma be_nat_Nil [simp]: "be_nat [] = 0"
  by (simp add: be_nat_def)

lemma be_nat_snoc [simp]: "be_nat (bs @ [b]) = be_nat bs * 256 + unat b"
  by (simp add: be_nat_def)

lemma be_nat_be_bytes: "be_nat (be_bytes n x) = x mod 256 ^ n"
proof (induction n arbitrary: x)
  case 0
  then show ?case by simp
next
  case (Suc n)
  have "be_nat (be_bytes (Suc n) x) = (x div 256 mod 256 ^ n) * 256 + x mod 256"
    by (simp add: Suc.IH unat_of_nat)
  also have "\<dots> = x mod (256 * 256 ^ n)"
    by (simp add: mod_mult2_eq mult.commute)
  finally show ?case by simp
qed

lemma length_u64_bytes [simp]: "length (u64_bytes w) = 8"
  by (simp add: u64_bytes_def)

lemma length_u32_bytes [simp]: "length (u32_bytes w) = 4"
  by (simp add: u32_bytes_def)

lemma length_arr32_bytes [simp]: "length (arr32_bytes w) = 32"
  by (simp add: arr32_bytes_def)

lemma length_arr64_bytes [simp]: "length (arr64_bytes w) = 64"
  by (simp add: arr64_bytes_def)

lemma arr32_bytes_not_Nil [simp]: "arr32_bytes w \<noteq> []"
  using length_arr32_bytes [of w] by (metis list.size(3) zero_neq_numeral)

lemma word_of_be_u64 [simp]: "word_of_be (u64_bytes w) = w"
  using unat_bound [of w] by (simp add: word_of_be_def u64_bytes_def be_nat_be_bytes)

lemma word_of_be_u32 [simp]: "word_of_be (u32_bytes w) = w"
  using unat_bound [of w] by (simp add: word_of_be_def u32_bytes_def be_nat_be_bytes)

lemma word_of_be_arr32 [simp]: "word_of_be (arr32_bytes w) = w"
  using unat_bound [of w] by (simp add: word_of_be_def arr32_bytes_def be_nat_be_bytes)

lemma word_of_be_arr64 [simp]: "word_of_be (arr64_bytes w) = w"
  using unat_bound [of w] by (simp add: word_of_be_def arr64_bytes_def be_nat_be_bytes)

lemma u64_bytes_inject [simp]: "u64_bytes a = u64_bytes b \<longleftrightarrow> a = b"
  by (metis word_of_be_u64)

lemma arr32_bytes_inject [simp]: "arr32_bytes a = arr32_bytes b \<longleftrightarrow> a = b"
  by (metis word_of_be_arr32)

lemma arr64_bytes_inject [simp]: "arr64_bytes a = arr64_bytes b \<longleftrightarrow> a = b"
  by (metis word_of_be_arr64)

section \<open>Strings as UTF-8 bytes\<close>

text \<open>
  A Rust string is its UTF-8 bytes. A \<open>string\<close> of HOL is a list of 8-bit characters, so it
  holds exactly such bytes; \<open>str_ok\<close> says that they are valid UTF-8, which Rust's type
  guarantees.
\<close>

definition str_bytes :: "string \<Rightarrow> bytes" where
  "str_bytes s = map (\<lambda>c. word_of_nat (of_char c)) s"

definition bytes_str :: "bytes \<Rightarrow> string" where
  "bytes_str bs = map (\<lambda>b. char_of (unat b)) bs"

definition utf8_cont :: "u8 \<Rightarrow> bool" where
  "utf8_cont b \<longleftrightarrow> 0x80 \<le> b \<and> b \<le> 0xBF"

definition utf8_second3 :: "u8 \<Rightarrow> u8 \<Rightarrow> bool" where
  "utf8_second3 b0 b1 =
     (if b0 = 0xE0 then 0xA0 \<le> b1 \<and> b1 \<le> 0xBF
      else if b0 = 0xED then 0x80 \<le> b1 \<and> b1 \<le> 0x9F
      else utf8_cont b1)"

definition utf8_second4 :: "u8 \<Rightarrow> u8 \<Rightarrow> bool" where
  "utf8_second4 b0 b1 =
     (if b0 = 0xF0 then 0x90 \<le> b1 \<and> b1 \<le> 0xBF
      else if b0 = 0xF4 then 0x80 \<le> b1 \<and> b1 \<le> 0x8F
      else if 0xF1 \<le> b0 \<and> b0 \<le> 0xF3 then utf8_cont b1
      else False)"

fun utf8_valid :: "bytes \<Rightarrow> bool" where
  "utf8_valid [] = True"
| "utf8_valid (b0 # bs) =
     (if b0 < 0x80 then utf8_valid bs
      else case bs of [] \<Rightarrow> False
      | b1 # bs1 \<Rightarrow>
          if 0xC2 \<le> b0 \<and> b0 \<le> 0xDF then utf8_cont b1 \<and> utf8_valid bs1
          else (case bs1 of [] \<Rightarrow> False
          | b2 # bs2 \<Rightarrow>
              if 0xE0 \<le> b0 \<and> b0 \<le> 0xEF
              then utf8_second3 b0 b1 \<and> utf8_cont b2 \<and> utf8_valid bs2
              else (case bs2 of [] \<Rightarrow> False
              | b3 # bs3 \<Rightarrow>
                  utf8_second4 b0 b1 \<and> utf8_cont b2 \<and> utf8_cont b3 \<and> utf8_valid bs3)))"

definition str_ok :: "string \<Rightarrow> bool" where
  "str_ok s \<longleftrightarrow> utf8_valid (str_bytes s)"

definition ascii :: "string \<Rightarrow> bool" where
  "ascii s \<longleftrightarrow> list_all (\<lambda>c. of_char c < (128::nat)) s"

lemma length_str_bytes [simp]: "length (str_bytes s) = length s"
  by (simp add: str_bytes_def)

lemma str_bytes_append [simp]: "str_bytes (s @ t) = str_bytes s @ str_bytes t"
  by (simp add: str_bytes_def)

lemma bytes_str_str_bytes [simp]: "bytes_str (str_bytes s) = s"
proof -
  have "unat (word_of_nat (of_char c) :: u8) = of_char c" for c
    by (simp add: unat_of_nat)
  then show ?thesis
    by (simp add: bytes_str_def str_bytes_def map_idI)
qed

lemma str_bytes_bytes_str [simp]: "str_bytes (bytes_str bs) = bs"
proof -
  have "word_of_nat (of_char (char_of (unat b) :: char)) = b" for b :: u8
    using unat_bound [of b] by simp
  then show ?thesis
    by (simp add: bytes_str_def str_bytes_def map_idI)
qed

lemma str_bytes_inject [simp]: "str_bytes s = str_bytes t \<longleftrightarrow> s = t"
  by (metis bytes_str_str_bytes)

declare utf8_valid.simps(2) [simp del]

lemma utf8_valid_append:
  "utf8_valid xs \<Longrightarrow> utf8_valid ys \<Longrightarrow> utf8_valid (xs @ ys)"
proof (induction xs rule: utf8_valid.induct)
  case 1
  then show ?case by simp
next
  case (2 b0 bs)
  note unfold = utf8_valid.simps(2) [of b0]
  show ?case
  proof (cases "b0 < 0x80")
    case True
    with 2 show ?thesis by (simp add: unfold)
  next
    case F: False
    with 2 obtain b1 bs1 where bs: "bs = b1 # bs1"
      by (auto simp: unfold split: list.splits)
    show ?thesis
    proof (cases "0xC2 \<le> b0 \<and> b0 \<le> 0xDF")
      case True
      with 2 F bs show ?thesis by (simp add: unfold)
    next
      case F2: False
      with 2 F bs obtain b2 bs2 where bs1: "bs1 = b2 # bs2"
        by (auto simp: unfold split: list.splits)
      show ?thesis
      proof (cases "0xE0 \<le> b0 \<and> b0 \<le> 0xEF")
        case True
        with 2 F F2 bs bs1 show ?thesis by (auto simp: unfold)
      next
        case F3: False
        with 2 F F2 bs bs1 obtain b3 bs3 where "bs2 = b3 # bs3"
          by (auto simp: unfold split: list.splits)
        with 2 F F2 F3 bs bs1 show ?thesis by (auto simp: unfold)
      qed
    qed
  qed
qed

lemma utf8_valid_ascii: "list_all (\<lambda>b. b < 0x80) bs \<Longrightarrow> utf8_valid bs"
  by (induction bs) (auto simp: utf8_valid.simps(2))

lemma ascii_str_ok: "ascii s \<Longrightarrow> str_ok s"
proof -
  assume "ascii s"
  then have "list_all (\<lambda>b. b < 0x80) (str_bytes s)"
    by (auto simp: ascii_def str_bytes_def list_all_iff word_less_nat_alt unat_of_nat)
  then show ?thesis
    by (simp add: str_ok_def utf8_valid_ascii)
qed

lemma str_ok_Nil [simp]: "str_ok []"
  by (simp add: str_ok_def str_bytes_def)

lemma str_ok_Cons [simp]: "of_char c < (128 :: nat) \<Longrightarrow> str_ok (c # s) \<longleftrightarrow> str_ok s"
  by (simp add: str_ok_def str_bytes_def utf8_valid.simps(2) word_less_nat_alt unat_of_nat)

lemma str_ok_append [wf_intros]: "str_ok s \<Longrightarrow> str_ok t \<Longrightarrow> str_ok (s @ t)"
  by (simp add: str_ok_def utf8_valid_append)

text \<open>Rust's \<^verbatim>\<open>str::starts_with\<close>.\<close>

definition starts_with :: "string \<Rightarrow> string \<Rightarrow> bool" where
  "starts_with s p \<longleftrightarrow> take (length p) s = p"

lemma starts_with_append [simp]: "starts_with (p @ s) p"
  by (simp add: starts_with_def)

text \<open>Two prefixes of one string agree as far as both go.\<close>

lemma prefixes_agree:
  "starts_with s p \<Longrightarrow> starts_with s q \<Longrightarrow> take (length q) p = take (length p) q"
  unfolding starts_with_def by (metis min.commute take_take)

text \<open>An unsigned integer as \<^verbatim>\<open>format!\<close> prints it.\<close>

fun decimal :: "nat \<Rightarrow> string" where
  "decimal n = (if n < 10 then [char_of (48 + n)] else decimal (n div 10) @ [char_of (48 + n mod 10)])"

declare decimal.simps [simp del]

section \<open>Lists\<close>

text \<open>\<^verbatim>\<open>Iterator::position\<close> and a loop that stops at the first failing element.\<close>

primrec position :: "('a \<Rightarrow> bool) \<Rightarrow> 'a list \<Rightarrow> nat option" where
  "position P [] = None"
| "position P (x # xs) = (if P x then Some 0 else map_option Suc (position P xs))"

primrec try_each :: "('a \<Rightarrow> (unit, 'e) result) \<Rightarrow> 'a list \<Rightarrow> (unit, 'e) result" where
  "try_each f [] = Ok ()"
| "try_each f (x # xs) = and_then (f x) (\<lambda>_. try_each f xs)"

text \<open>A loop that pushes the result of a fallible function on each element.\<close>

primrec traverse :: "('a \<Rightarrow> ('b, 'e) result) \<Rightarrow> 'a list \<Rightarrow> ('b list, 'e) result" where
  "traverse f [] = Ok []"
| "traverse f (x # xs) = and_then (f x) (\<lambda>y. and_then (traverse f xs) (\<lambda>ys. Ok (y # ys)))"

lemma traverse_map_Ok: "(\<And>x. x \<in> set xs \<Longrightarrow> f (g x) = Ok x) \<Longrightarrow> traverse f (map g xs) = Ok xs"
  by (induction xs) auto

lemma traverse_all_Ok: "(\<And>x. x \<in> set xs \<Longrightarrow> f x = Ok (g x)) \<Longrightarrow> traverse f xs = Ok (map g xs)"
  by (induction xs) auto

lemma position_Some:
  "position P xs = Some i \<Longrightarrow> i < length xs \<and> P (xs ! i) \<and> (\<forall>j<i. \<not> P (xs ! j))"
proof (induction xs arbitrary: i)
  case (Cons x xs)
  then show ?case
    by (cases i) (auto split: if_splits simp: nth_Cons split: nat.splits)
qed simp

lemma position_None: "position P xs = None \<longleftrightarrow> (\<forall>x \<in> set xs. \<not> P x)"
  by (induction xs) auto

lemma position_append_first:
  "(\<forall>x \<in> set xs. \<not> P x) \<Longrightarrow> P y \<Longrightarrow> position P (xs @ y # ys) = Some (length xs)"
  by (induction xs) auto

lemma try_each_Ok_iff: "try_each f xs = Ok () \<longleftrightarrow> (\<forall>x \<in> set xs. f x = Ok ())"
  by (induction xs) auto

lemma try_each_Err_first:
  "\<forall>x \<in> set xs. f x = Ok () \<Longrightarrow> f y = Err e \<Longrightarrow> try_each f (xs @ y # ys) = Err e"
  by (induction xs) auto

section \<open>Guarded state machines\<close>

text \<open>
  The contract of the stateful components: an operation takes the state to the next one and
  returns a result, every operation keeps the invariant, and one that fails changes nothing. From
  it follow the invariant of every run and that failed operations can be left out of a run.
\<close>

definition run_ops :: "('s \<Rightarrow> 'op \<Rightarrow> 's \<times> 'r) \<Rightarrow> 's \<Rightarrow> 'op list \<Rightarrow> 's" where
  "run_ops step s ops = foldl (\<lambda>s op. fst (step s op)) s ops"

lemma run_ops_simps [simp]:
  "run_ops step s [] = s"
  "run_ops step s (op # ops) = run_ops step (fst (step s op)) ops"
  "run_ops step s (ops @ ops') = run_ops step (run_ops step s ops) ops'"
  by (simp_all add: run_ops_def)

locale guarded_machine =
  fixes init :: "'s"
    and step :: "'s \<Rightarrow> 'op \<Rightarrow> 's \<times> ('o, 'e) result"
    and inv :: "'s \<Rightarrow> bool"
  assumes inv_init: "inv init"
    and inv_step: "inv s \<Longrightarrow> inv (fst (step s op))"
    and failure_keeps: "\<not> is_ok (snd (step s op)) \<Longrightarrow> fst (step s op) = s"
begin

lemma inv_from: "inv s \<Longrightarrow> inv (run_ops step s ops)"
  by (induction ops arbitrary: s) (auto intro: inv_step)

lemma inv_run: "inv (run_ops step init ops)"
  by (rule inv_from) (rule inv_init)

text \<open>The operations of a run that succeed, and the run of those alone.\<close>

primrec successes :: "'s \<Rightarrow> 'op list \<Rightarrow> 'op list" where
  "successes s [] = []"
| "successes s (op # ops) =
     (if is_ok (snd (step s op)) then op # successes (fst (step s op)) ops else successes s ops)"

lemma run_successes: "run_ops step s (successes s ops) = run_ops step s ops"
  by (induction ops arbitrary: s) (auto simp: failure_keeps)

end

text \<open>A machine with final states that no operation leaves.\<close>

locale terminating_machine = guarded_machine init step inv
  for init :: "'s" and step :: "'s \<Rightarrow> 'op \<Rightarrow> 's \<times> ('o, 'e) result" and inv :: "'s \<Rightarrow> bool" +
  fixes final :: "'s \<Rightarrow> bool"
  assumes final_step: "final s \<Longrightarrow> final (fst (step s op))"
begin

lemma final_run: "final s \<Longrightarrow> final (run_ops step s ops)"
  by (induction ops arbitrary: s) (auto intro: final_step)

lemma final_forever:
  "final (run_ops step init ops) \<Longrightarrow> final (run_ops step init (ops @ ops'))"
  by (simp add: final_run)

end

section \<open>Codecs\<close>

text \<open>
  What every persisted or transmitted record relies on: reading back what was written gives the
  same record, for records within the bounds \<open>ok\<close>. Hence the bytes determine the record, and a
  hash that does not collide on the bytes of two records tells them apart.
\<close>

locale codec =
  fixes enc :: "'a \<Rightarrow> bytes"
    and dec :: "bytes \<Rightarrow> ('b, 'e) result"
    and wrap :: "'a \<Rightarrow> 'b"
    and ok :: "'a \<Rightarrow> bool"
  assumes round_trip: "ok x \<Longrightarrow> dec (enc x) = Ok (wrap x)"
    and wrap_inject: "wrap x = wrap y \<Longrightarrow> x = y"
begin

lemma enc_inject:
  assumes "ok x" and "ok y"
  shows "enc x = enc y \<longleftrightarrow> x = y"
proof
  assume "enc x = enc y"
  then have "dec (enc x) = dec (enc y)"
    by (rule arg_cong)
  then show "x = y"
    by (simp only: round_trip [OF assms(1)] round_trip [OF assms(2)] result.inject wrap_inject)
qed simp

lemma hash_inject:
  assumes "ok x" and "ok y" and "inj_on h {enc x, enc y}"
  shows "h (enc x) = h (enc y) \<longleftrightarrow> x = y"
proof
  assume "h (enc x) = h (enc y)"
  then have "enc x = enc y"
    by (rule inj_onD [OF assms(3)]) simp_all
  then show "x = y"
    using enc_inject [OF assms(1,2)] by simp
qed simp

end

end
