(* ===== verification/Active_Prefix.thy ===== *)
theory Active_Prefix
  imports Prelude
begin

text \<open>
  The bounded active prefix, \<^verbatim>\<open>kernel/shared/src/active_prefix.rs\<close>: the \<open>k\<close> newest entries,
  the older ones that are still valid, and the archive. The trait \<^verbatim>\<open>PrefixEntry\<close> is the pair
  of functions \<open>ts\<close> (its timestamp, an \<open>i64\<close>) and \<open>valid\<close>. A failed assertion is a panic.
\<close>

section \<open>State and operations\<close>

record 'a active_prefix =
  active :: "'a list"
  active_extra_valid :: "'a list"
  archived :: "'a list"
  cap :: nat

definition ap_new :: "nat \<Rightarrow> ('a active_prefix, unit) result" where
  "ap_new k =
     (if 0 < k then Ok \<lparr>active = [], active_extra_valid = [], archived = [], cap = k\<rparr>
      else Abort Panicked)"

definition ap_insert ::
    "('a \<Rightarrow> i64) \<Rightarrow> ('a \<Rightarrow> bool) \<Rightarrow> 'a \<Rightarrow> 'a active_prefix \<Rightarrow> ('a active_prefix, unit) result" where
  "ap_insert ts valid entry p =
     (if active p \<noteq> [] \<and> sint (ts entry) < sint (ts (last (active p))) then Abort Panicked
      else let act = active p @ [entry] in
        if cap p < length act then
          (let evicted = hd act; p' = p\<lparr>active := tl act\<rparr> in
           if valid evicted
           then Ok (p'\<lparr>active_extra_valid := active_extra_valid p' @ [evicted]\<rparr>)
           else Ok (p'\<lparr>archived := archived p' @ [evicted]\<rparr>))
        else Ok (p\<lparr>active := act\<rparr>))"

definition iter_active :: "'a active_prefix \<Rightarrow> 'a list" where
  "iter_active p = active p @ active_extra_valid p"

definition iter_archived :: "'a active_prefix \<Rightarrow> 'a list" where
  "iter_archived p = archived p"

definition total_count :: "'a active_prefix \<Rightarrow> nat" where
  "total_count p = length (active p) + length (active_extra_valid p) + length (archived p)"

definition active_count :: "'a active_prefix \<Rightarrow> nat" where
  "active_count p = length (active p) + length (active_extra_valid p)"

definition re_archive_invalidated :: "('a \<Rightarrow> bool) \<Rightarrow> 'a active_prefix \<Rightarrow> 'a active_prefix" where
  "re_archive_invalidated valid p =
     p\<lparr>active_extra_valid := filter valid (active_extra_valid p),
       archived := archived p @ filter (\<lambda>e. \<not> valid e) (active_extra_valid p)\<rparr>"

text \<open>A sequence of insertions.\<close>

primrec ap_insert_all ::
    "('a \<Rightarrow> i64) \<Rightarrow> ('a \<Rightarrow> bool) \<Rightarrow> 'a list \<Rightarrow> 'a active_prefix \<Rightarrow> ('a active_prefix, unit) result" where
  "ap_insert_all ts valid [] p = Ok p"
| "ap_insert_all ts valid (x # xs) p = and_then (ap_insert ts valid x p) (ap_insert_all ts valid xs)"

section \<open>Lemmas\<close>

text \<open>What the container holds after the insertions \<open>xs\<close>.\<close>

definition prefix_of :: "('a \<Rightarrow> bool) \<Rightarrow> nat \<Rightarrow> 'a list \<Rightarrow> 'a active_prefix" where
  "prefix_of valid k xs =
     \<lparr>active = drop (length xs - k) xs,
      active_extra_valid = filter valid (take (length xs - k) xs),
      archived = filter (\<lambda>e. \<not> valid e) (take (length xs - k) xs),
      cap = k\<rparr>"

definition chronological :: "('a \<Rightarrow> i64) \<Rightarrow> 'a list \<Rightarrow> bool" where
  "chronological ts xs \<longleftrightarrow> sorted (map (sint \<circ> ts) xs)"

lemma ap_insert_prefix_of:
  assumes "0 < k" and "xs \<noteq> [] \<Longrightarrow> sint (ts (last xs)) \<le> sint (ts x)"
  shows "ap_insert ts valid x (prefix_of valid k xs) = Ok (prefix_of valid k (xs @ [x]))"
proof -
  have last: "drop (length xs - k) xs \<noteq> [] \<Longrightarrow> last (drop (length xs - k) xs) = last xs"
    using assms(1) by (simp add: last_drop)
  show ?thesis
  proof (cases "length xs < k")
    case True
    then show ?thesis
      using assms by (auto simp: ap_insert_def prefix_of_def Let_def)
  next
    case False
    let ?n = "length xs - k"
    have drop: "drop ?n xs = xs ! ?n # drop (Suc ?n) xs"
      using assms(1) False by (intro Cons_nth_drop_Suc [symmetric]) simp
    have take: "take (Suc ?n) xs = take ?n xs @ [xs ! ?n]"
      using assms(1) False by (intro take_Suc_conv_app_nth) simp
    have "\<not> sint (ts x) < sint (ts (last (drop ?n xs)))"
      using assms last drop False by fastforce
    then show ?thesis
      using assms(1) False
      by (auto simp: ap_insert_def prefix_of_def Let_def drop take Suc_diff_le)
  qed
qed

lemma ap_insert_all_prefix_of:
  assumes "0 < k" and "chronological ts (ys @ xs)"
  shows "ap_insert_all ts valid xs (prefix_of valid k ys) = Ok (prefix_of valid k (ys @ xs))"
  using assms(2)
proof (induction xs arbitrary: ys)
  case (Cons x xs)
  have "ys \<noteq> [] \<Longrightarrow> sint (ts (last ys)) \<le> sint (ts x)"
    using Cons.prems by (auto simp: chronological_def sorted_append)
  then have "ap_insert ts valid x (prefix_of valid k ys) = Ok (prefix_of valid k (ys @ [x]))"
    by (rule ap_insert_prefix_of [OF assms(1)])
  then show ?case
    using Cons.IH [of "ys @ [x]"] Cons.prems by simp
qed simp

section \<open>Properties\<close>

text \<open>
  After any chronological sequence of insertions the active part is exactly the \<open>k\<close> newest
  entries in order; each older one is kept as still-valid or archived, in order, by its validity;
  and invalidation later moves entries to the archive without losing or duplicating any.
\<close>

lemma active_prefix_contents:
  assumes "0 < k" and "chronological ts xs"
  shows "\<exists>p. and_then (ap_new k) (ap_insert_all ts valid xs) = (Ok p :: ('a active_prefix, unit) result) \<and>
    active p = drop (length xs - k) xs \<and>
    iter_active p = drop (length xs - k) xs @ filter valid (take (length xs - k) xs) \<and>
    iter_archived p = filter (\<lambda>e. \<not> valid e) (take (length xs - k) xs) \<and>
    total_count p = length xs \<and>
    total_count (re_archive_invalidated valid' p) = length xs \<and>
    (\<forall>e \<in> set (active_extra_valid (re_archive_invalidated valid' p)). valid' e)"
proof -
  have new: "ap_new k = (Ok (prefix_of valid k []) :: ('a active_prefix, unit) result)"
    using assms(1) by (simp add: ap_new_def prefix_of_def)
  let ?p = "prefix_of valid k xs"
  have run: "and_then (ap_new k) (ap_insert_all ts valid xs) = (Ok ?p :: ('a active_prefix, unit) result)"
    using ap_insert_all_prefix_of [OF assms(1), of ts "[]" xs valid] assms(2) by (simp add: new)
  have split: "length (filter P ys) + length (filter (\<lambda>e. \<not> P e) ys) = length ys" for P and ys :: "'a list"
    by (rule sum_length_filter_compl)
  have total: "total_count ?p = length xs"
    using split [of valid "take (length xs - k) xs"] by (simp add: total_count_def prefix_of_def)
  moreover have "total_count (re_archive_invalidated valid' ?p) = total_count ?p"
    using split [of valid' "active_extra_valid ?p"]
    by (simp add: total_count_def re_archive_invalidated_def)
  ultimately show ?thesis
    by (intro exI [of _ ?p] conjI run) (simp_all add: iter_active_def iter_archived_def
        re_archive_invalidated_def prefix_of_def)
qed

text \<open>
  An insertion out of order panics and changes nothing; any other insertion keeps the cap and
  adds exactly one entry to the container.
\<close>

lemma ap_insert_step:
  assumes "length (active p) \<le> cap p" and "0 < cap p"
  shows "case ap_insert ts valid e p of
      Ok p' \<Rightarrow> length (active p') \<le> cap p' \<and> cap p' = cap p \<and>
        total_count p' = Suc (total_count p) \<and> last (active p') = e
    | Err _ \<Rightarrow> False
    | Abort a \<Rightarrow> a = Panicked \<and> active p \<noteq> [] \<and> sint (ts e) < sint (ts (last (active p)))"
  using assms by (cases "active p") (auto simp: ap_insert_def Let_def total_count_def)

end
