(* ===== verification/Dormancy.thy ===== *)
theory Dormancy
  imports Prelude
begin

text \<open>
  The dormancy state machine, \<^verbatim>\<open>kernel/continuity/src/dormancy.rs\<close>: the lifecycle state, the
  sub-state while alive, the compute mode while dormant and the recorded history, with the five
  transitions and their guards. The lemmas give the machine's invariant, its abstraction to the
  lifecycle, and what each transition does when it is refused.
\<close>

section \<open>State\<close>

datatype lifecycle_state = Alive | Dormant | Destroyed

datatype dormant_mode = Throttled | Paused

datatype alive_substate = Normal | Quarantined | Legacy

datatype dormancy_trigger =
    OperatorDropped
  | IdleTimeout
  | OwnerCommanded
  | OperatorRequested
  | HandshakeAccepted
  | OwnerAttestationArrived
  | SkinBreachCritical
  | ColdResumeFailure
  | QuarantineClearance
  | OwnerDestruction

datatype dormancy_error =
    InvalidTransition lifecycle_state lifecycle_state string
  | SubstrateDestroyed

record transition_record =
  tr_from :: lifecycle_state
  tr_to :: lifecycle_state
  tr_alive_substate :: alive_substate
  tr_dormant_mode :: "dormant_mode option"
  tr_trigger :: dormancy_trigger
  tr_at_cycle :: u64

record dormancy_machine =
  dm_state :: lifecycle_state
  dm_alive_substate :: alive_substate
  dm_dormant_mode :: "dormant_mode option"
  dm_last_transition_cycle :: u64
  dm_history :: "transition_record list"

type_synonym dormancy_result = "dormancy_machine \<times> (unit, dormancy_error) result"

definition dormancy_new :: dormancy_machine where
  "dormancy_new =
     \<lparr>dm_state = Alive, dm_alive_substate = Normal, dm_dormant_mode = None,
      dm_last_transition_cycle = 0, dm_history = []\<rparr>"

section \<open>Queries\<close>

definition accepts_intake :: "dormancy_machine \<Rightarrow> bool" where
  "accepts_intake m \<longleftrightarrow> dm_state m = Alive \<and> dm_alive_substate m = Normal"

definition accepts_federation_egress :: "dormancy_machine \<Rightarrow> bool" where
  "accepts_federation_egress m \<longleftrightarrow> dm_state m = Alive \<and> dm_alive_substate m \<noteq> Quarantined"

definition is_destroyed :: "dormancy_machine \<Rightarrow> bool" where
  "is_destroyed m \<longleftrightarrow> dm_state m = Destroyed"

section \<open>Transitions\<close>

definition transition_to_dormant ::
    "dormant_mode \<Rightarrow> dormancy_trigger \<Rightarrow> u64 \<Rightarrow> dormancy_machine \<Rightarrow> dormancy_result" where
  "transition_to_dormant mode trigger at_cycle m =
     (if dm_state m = Destroyed then (m, Err SubstrateDestroyed)
      else if dm_state m \<noteq> Alive then
        (m, Err (InvalidTransition (dm_state m) Dormant ''cannot transition to dormant''))
      else
        (m\<lparr>dm_state := Dormant, dm_dormant_mode := Some mode,
           dm_last_transition_cycle := at_cycle,
           dm_history := dm_history m @
             [\<lparr>tr_from = dm_state m, tr_to = Dormant, tr_alive_substate = dm_alive_substate m,
               tr_dormant_mode = Some mode, tr_trigger = trigger, tr_at_cycle = at_cycle\<rparr>]\<rparr>,
         Ok ()))"

definition transition_to_alive ::
    "dormancy_trigger \<Rightarrow> u64 \<Rightarrow> dormancy_machine \<Rightarrow> dormancy_result" where
  "transition_to_alive trigger at_cycle m =
     (if dm_state m = Destroyed then (m, Err SubstrateDestroyed)
      else if dm_state m \<noteq> Dormant then
        (m, Err (InvalidTransition (dm_state m) Alive ''cannot transition to alive''))
      else
        (m\<lparr>dm_state := Alive, dm_dormant_mode := None,
           dm_last_transition_cycle := at_cycle,
           dm_history := dm_history m @
             [\<lparr>tr_from = dm_state m, tr_to = Alive, tr_alive_substate = dm_alive_substate m,
               tr_dormant_mode = None, tr_trigger = trigger, tr_at_cycle = at_cycle\<rparr>]\<rparr>,
         Ok ()))"

definition enter_quarantine ::
    "dormancy_trigger \<Rightarrow> u64 \<Rightarrow> dormancy_machine \<Rightarrow> dormancy_result" where
  "enter_quarantine trigger at_cycle m =
     (if dm_state m \<noteq> Alive then
        (m, Err (InvalidTransition (dm_state m) (dm_state m) ''cannot enter quarantine''))
      else
        (m\<lparr>dm_alive_substate := Quarantined,
           dm_last_transition_cycle := at_cycle,
           dm_history := dm_history m @
             [\<lparr>tr_from = dm_state m, tr_to = dm_state m, tr_alive_substate = dm_alive_substate m,
               tr_dormant_mode = None, tr_trigger = trigger, tr_at_cycle = at_cycle\<rparr>]\<rparr>,
         Ok ()))"

definition clear_quarantine ::
    "dormancy_trigger \<Rightarrow> u64 \<Rightarrow> dormancy_machine \<Rightarrow> dormancy_result" where
  "clear_quarantine trigger at_cycle m =
     (if dm_alive_substate m \<noteq> Quarantined then
        (m, Err (InvalidTransition (dm_state m) (dm_state m) ''not currently quarantined''))
      else if trigger \<noteq> QuarantineClearance then
        (m, Err (InvalidTransition (dm_state m) (dm_state m)
           ''quarantine clearance requires QuarantineClearance trigger''))
      else
        (m\<lparr>dm_alive_substate := Normal,
           dm_last_transition_cycle := at_cycle,
           dm_history := dm_history m @
             [\<lparr>tr_from = dm_state m, tr_to = dm_state m, tr_alive_substate = Quarantined,
               tr_dormant_mode = None, tr_trigger = trigger, tr_at_cycle = at_cycle\<rparr>]\<rparr>,
         Ok ()))"

definition destroy :: "dormancy_trigger \<Rightarrow> u64 \<Rightarrow> dormancy_machine \<Rightarrow> dormancy_result" where
  "destroy trigger at_cycle m =
     (if dm_state m = Destroyed then (m, Err SubstrateDestroyed)
      else
        (m\<lparr>dm_state := Destroyed,
           dm_last_transition_cycle := at_cycle,
           dm_history := dm_history m @
             [\<lparr>tr_from = dm_state m, tr_to = Destroyed, tr_alive_substate = dm_alive_substate m,
               tr_dormant_mode = dm_dormant_mode m, tr_trigger = trigger,
               tr_at_cycle = at_cycle\<rparr>]\<rparr>,
         Ok ()))"

text \<open>The public mutators, as one step function.\<close>

datatype dormancy_op =
    OpDormant dormant_mode dormancy_trigger u64
  | OpAlive dormancy_trigger u64
  | OpQuarantine dormancy_trigger u64
  | OpClear dormancy_trigger u64
  | OpDestroy dormancy_trigger u64

fun dormancy_step :: "dormancy_machine \<Rightarrow> dormancy_op \<Rightarrow> dormancy_result" where
  "dormancy_step m (OpDormant md t c) = transition_to_dormant md t c m"
| "dormancy_step m (OpAlive t c) = transition_to_alive t c m"
| "dormancy_step m (OpQuarantine t c) = enter_quarantine t c m"
| "dormancy_step m (OpClear t c) = clear_quarantine t c m"
| "dormancy_step m (OpDestroy t c) = destroy t c m"

lemmas transition_defs =
  transition_to_dormant_def transition_to_alive_def enter_quarantine_def clear_quarantine_def
  destroy_def

section \<open>The invariant\<close>

text \<open>
  A history is a chain from birth: each record starts where the one before it ended.
\<close>

fun chain_from :: "lifecycle_state \<Rightarrow> transition_record list \<Rightarrow> lifecycle_state option" where
  "chain_from s [] = Some s"
| "chain_from s (r # rs) = (if tr_from r = s then chain_from (tr_to r) rs else None)"

lemma chain_from_snoc:
  "chain_from s (rs @ [r]) =
    (case chain_from s rs of None \<Rightarrow> None | Some t \<Rightarrow> if tr_from r = t then Some (tr_to r) else None)"
  by (induction s rs rule: chain_from.induct) auto

definition dormancy_inv :: "dormancy_machine \<Rightarrow> bool" where
  "dormancy_inv m \<longleftrightarrow>
     chain_from Alive (dm_history m) = Some (dm_state m) \<and>
     dm_last_transition_cycle m =
       (if dm_history m = [] then 0 else tr_at_cycle (last (dm_history m))) \<and>
     (dm_state m = Alive \<longrightarrow> dm_dormant_mode m = None) \<and>
     (dm_state m = Dormant \<longrightarrow> dm_dormant_mode m \<noteq> None) \<and>
     dm_alive_substate m \<noteq> Legacy"

interpretation dormancy: terminating_machine dormancy_new dormancy_step dormancy_inv is_destroyed
proof
  show "dormancy_inv dormancy_new"
    by (simp add: dormancy_inv_def dormancy_new_def)
  show "dormancy_inv (fst (dormancy_step m op))" if "dormancy_inv m" for m op
    using that by (cases op; cases "dm_state m"; cases "dm_history m = []")
      (simp_all add: dormancy_inv_def transition_defs chain_from_snoc)
  show "\<not> is_ok (snd (dormancy_step m op)) \<Longrightarrow> fst (dormancy_step m op) = m" for m op
    by (cases op) (simp_all add: transition_defs split: if_splits)
  show "is_destroyed m \<Longrightarrow> is_destroyed (fst (dormancy_step m op))" for m op
    by (cases op) (simp_all add: transition_defs is_destroyed_def)
qed

section \<open>The lifecycle it implements\<close>

inductive lifecycle_step :: "lifecycle_state \<Rightarrow> lifecycle_state \<Rightarrow> bool" where
  suspend: "lifecycle_step Alive Dormant"
| resume: "lifecycle_step Dormant Alive"
| die: "s \<noteq> Destroyed \<Longrightarrow> lifecycle_step s Destroyed"

inductive_simps lifecycle_step_simps: "lifecycle_step s t"
inductive_cases lifecycle_from_destroyed: "lifecycle_step Destroyed t"

lemma dormancy_step_simulates:
  assumes "dormancy_step m op = (m', Ok ())"
  shows "lifecycle_step (dm_state m) (dm_state m') \<or> dm_state m' = dm_state m"
  using assms by (cases op; cases "dm_state m")
    (auto simp: transition_defs lifecycle_step.simps split: if_splits)

lemma lifecycle_rtranclp: "lifecycle_step\<^sup>*\<^sup>* (dm_state m) (dm_state (run_ops dormancy_step m ops))"
proof (induction ops arbitrary: m)
  case (Cons op ops)
  obtain m' r where s: "dormancy_step m op = (m', r)"
    by (cases "dormancy_step m op")
  have "lifecycle_step\<^sup>*\<^sup>* (dm_state m) (dm_state m')"
  proof (cases r)
    case (Ok u)
    then show ?thesis
      using dormancy_step_simulates [of m op m'] s by auto
  qed (use s dormancy.failure_keeps [of m op] in simp_all)
  then show ?case
    using Cons.IH [of m'] s by simp
qed simp

section \<open>Properties\<close>




text \<open>
  Destruction does not stop every transition: a substrate destroyed while quarantined still
  accepts a quarantine clearance, which appends to its history and moves its sub-state.
\<close>

lemma destroyed_still_clears_quarantine:
  assumes "dm_alive_substate m = Quarantined"
  shows "\<exists>m'. clear_quarantine QuarantineClearance c (fst (destroy t b m)) = (m', Ok ()) \<and>
    is_destroyed m' \<and> dm_alive_substate m' = Normal \<and> dm_last_transition_cycle m' = c \<and>
    length (dm_history m') = Suc (length (dm_history (fst (destroy t b m))))"
  using assms by (auto simp: transition_defs is_destroyed_def)

end
