(* ===== verification/Quarantine.thy ===== *)
theory Quarantine
  imports Dormancy
begin

text \<open>
  The quarantine policy, \<^verbatim>\<open>kernel/continuity/src/quarantine.rs\<close>: which kinds of operation the
  lifecycle state and sub-state allow.
\<close>

datatype operation_kind =
    DeltaIntake
  | FederationEgress
  | AnchorSurfaceOutput
  | SporocarpFruiting
  | Tier1Invariant
  | OwnerAttestedAdministration

datatype quarantine_error = Blocked string

fun quarantined_permits :: "operation_kind \<Rightarrow> bool" where
  "quarantined_permits DeltaIntake = False"
| "quarantined_permits FederationEgress = False"
| "quarantined_permits AnchorSurfaceOutput = True"
| "quarantined_permits SporocarpFruiting = True"
| "quarantined_permits Tier1Invariant = True"
| "quarantined_permits OwnerAttestedAdministration = True"

fun legacy_permits :: "operation_kind \<Rightarrow> bool" where
  "legacy_permits DeltaIntake = True"
| "legacy_permits FederationEgress = True"
| "legacy_permits AnchorSurfaceOutput = True"
| "legacy_permits SporocarpFruiting = True"
| "legacy_permits Tier1Invariant = True"
| "legacy_permits OwnerAttestedAdministration = True"

definition is_operation_permitted :: "dormancy_machine \<Rightarrow> operation_kind \<Rightarrow> bool" where
  "is_operation_permitted m op =
     (if dm_state m = Destroyed then False
      else if dm_state m = Dormant then op = OwnerAttestedAdministration
      else case dm_alive_substate m of
             Normal \<Rightarrow> True
           | Quarantined \<Rightarrow> quarantined_permits op
           | Legacy \<Rightarrow> legacy_permits op)"

definition assert_permitted ::
    "dormancy_machine \<Rightarrow> operation_kind \<Rightarrow> (unit, quarantine_error) result" where
  "assert_permitted m op =
     (if is_operation_permitted m op then Ok () else Err (Blocked ''operation blocked''))"

lemma legacy_permits_all [simp]: "legacy_permits op"
  by (cases op) simp_all

lemma permitted_alive_cases:
  "dm_state m = Alive \<Longrightarrow> dm_alive_substate m \<noteq> Quarantined \<Longrightarrow> is_operation_permitted m op"
  by (cases "dm_alive_substate m") (simp_all add: is_operation_permitted_def)

section \<open>Properties\<close>

text \<open>
  On every machine that a run from birth can reach, the policy and the machine's own queries
  agree: intake is permitted exactly when the machine accepts intake, and federation egress
  exactly when it accepts egress. They differ only on an alive \<open>Legacy\<close> machine, where the
  policy permits intake that \<open>accepts_intake\<close> refuses.
\<close>

lemma policy_agrees_with_machine:
  "(let m = run_ops dormancy_step dormancy_new ops in
      is_operation_permitted m DeltaIntake = accepts_intake m \<and>
      is_operation_permitted m FederationEgress = accepts_federation_egress m) \<and>
    (is_operation_permitted m' DeltaIntake \<noteq> accepts_intake m' \<longleftrightarrow>
      dm_state m' = Alive \<and> dm_alive_substate m' = Legacy)"
proof -
  have differ: "is_operation_permitted m DeltaIntake \<noteq> accepts_intake m \<longleftrightarrow>
      dm_state m = Alive \<and> dm_alive_substate m = Legacy" for m
    by (cases "dm_state m"; cases "dm_alive_substate m")
      (simp_all add: is_operation_permitted_def accepts_intake_def)
  have egress: "is_operation_permitted m FederationEgress = accepts_federation_egress m" for m
    by (cases "dm_state m"; cases "dm_alive_substate m")
      (simp_all add: is_operation_permitted_def accepts_federation_egress_def)
  have "dm_alive_substate (run_ops dormancy_step dormancy_new ops) \<noteq> Legacy"
    using dormancy.inv_run [of ops] by (simp add: dormancy_inv_def)
  then show ?thesis
    using differ egress by (simp add: Let_def) blast
qed

text \<open>
  The policy only shrinks with the lifecycle: a destroyed substrate permits nothing, a
  dormant one only owner-attested administration, and entering quarantine withdraws exactly
  intake and federation egress from an alive one.
\<close>

lemma policy_by_state:
  "(is_destroyed m \<longrightarrow> assert_permitted m op = Err (Blocked ''operation blocked'')) \<and>
    (dm_state m = Dormant \<longrightarrow>
      (is_operation_permitted m op \<longleftrightarrow> op = OwnerAttestedAdministration)) \<and>
    (dm_state m = Alive \<longrightarrow>
      (is_operation_permitted (fst (enter_quarantine t c m)) op \<longleftrightarrow>
        is_operation_permitted m op \<and> op \<noteq> DeltaIntake \<and> op \<noteq> FederationEgress))"
  by (cases op; cases "dm_alive_substate m")
    (simp_all add: is_operation_permitted_def assert_permitted_def is_destroyed_def
      enter_quarantine_def)

end
