(* ===== verification/Cold_Resume.thy ===== *)
theory Cold_Resume
  imports Quarantine
begin

text \<open>
  The cold-resume protocol, \<^verbatim>\<open>kernel/continuity/src/cold_resume.rs\<close>: the five checks, which
  are trait objects of the caller (functions on the caller's state), the witnesses they return
  and the report over them.
\<close>

datatype check_id =
    I1IdentityIntegrity
  | I3SsotConsistency
  | I4DagSelfConsistency
  | I5Reachability
  | I8SkinDeclaration

datatype cold_resume_error =
    InvariantFailure "check_id list"
  | WitnessComputationFailed string

fun check_name :: "check_id \<Rightarrow> string" where
  "check_name I1IdentityIntegrity = ''i1_identity_integrity''"
| "check_name I3SsotConsistency = ''i3_ssot_consistency''"
| "check_name I4DagSelfConsistency = ''i4_dag_self_consistency''"
| "check_name I5Reachability = ''i5_reachability''"
| "check_name I8SkinDeclaration = ''i8_skin_declaration''"

record check_witness =
  cw_check_id :: check_id
  cw_passed :: bool
  cw_witness_bytes :: bytes
  cw_witness_hash :: arr32

record cold_resume_report =
  crr_witnesses :: "check_witness list"
  crr_all_passed :: bool
  crr_at_cycle :: u64

definition failed_checks :: "cold_resume_report \<Rightarrow> check_id list" where
  "failed_checks r = map cw_check_id (filter (\<lambda>w. \<not> cw_passed w) (crr_witnesses r))"

type_synonym 'w checker = "'w \<Rightarrow> 'w \<times> (check_witness, cold_resume_error) result"

record 'w cold_resume_checkers =
  check_i1 :: "'w checker"
  check_i3 :: "'w checker"
  check_i4 :: "'w checker"
  check_i5 :: "'w checker"
  check_i8 :: "'w checker"

text \<open>
  The array literal evaluates its elements in order, each with \<^verbatim>\<open>?\<close>: the first error ends
  the evaluation, and the caller's state stays as the checks run so far left it.
\<close>

primrec run_checks ::
    "'w checker list \<Rightarrow> 'w \<Rightarrow> 'w \<times> (check_witness list, cold_resume_error) result" where
  "run_checks [] w = (w, Ok [])"
| "run_checks (c # cs) w =
     (case c w of (w', r) \<Rightarrow>
        (case r of
           Ok x \<Rightarrow> (case run_checks cs w' of (w'', rs) \<Rightarrow> (w'', and_then rs (\<lambda>xs. Ok (x # xs))))
         | Err e \<Rightarrow> (w', Err e)
         | Abort a \<Rightarrow> (w', Abort a)))"

definition run_cold_resume ::
    "'w cold_resume_checkers \<Rightarrow> u64 \<Rightarrow> 'w \<Rightarrow> 'w \<times> (cold_resume_report, cold_resume_error) result" where
  "run_cold_resume ch at_cycle w =
     (case run_checks [check_i1 ch, check_i3 ch, check_i4 ch, check_i5 ch, check_i8 ch] w of
        (w', r) \<Rightarrow>
          (w', and_then r (\<lambda>ws. Ok
             \<lparr>crr_witnesses = ws, crr_all_passed = list_all cw_passed ws, crr_at_cycle = at_cycle\<rparr>)))"

lemma run_checks_length:
  "run_checks cs w = (w', Ok xs) \<Longrightarrow> length xs = length cs"
  by (induction cs arbitrary: w w' xs) (auto split: prod.splits result.splits)

lemma all_passed_iff_no_failed:
  "list_all cw_passed ws \<longleftrightarrow> filter (\<lambda>w. \<not> cw_passed w) ws = []"
  by (induction ws) auto

section \<open>Properties\<close>

text \<open>
  A completed cold resume carries one witness per check in the fixed order, a failed check
  included, and reports success exactly when its list of failed checks is empty; but a check that
  returns an error ends the protocol, and the later checks are not run.
\<close>

lemma cold_resume_report_complete:
  "(\<forall>w' rep. run_cold_resume ch c w = (w', Ok rep) \<longrightarrow>
      length (crr_witnesses rep) = 5 \<and> crr_at_cycle rep = c \<and>
      (crr_all_passed rep \<longleftrightarrow> failed_checks rep = [])) \<and>
    (\<forall>w1 x w2 e. check_i1 ch w = (w1, Ok x) \<longrightarrow> check_i3 ch w1 = (w2, Err e) \<longrightarrow>
      run_cold_resume ch c w = (w2, Err e))"
proof (intro conjI allI impI)
  fix w' rep
  assume "run_cold_resume ch c w = (w', Ok rep)"
  then obtain ws where run: "run_checks [check_i1 ch, check_i3 ch, check_i4 ch, check_i5 ch, check_i8 ch] w =
      (w', Ok ws)"
    and rep: "rep = \<lparr>crr_witnesses = ws, crr_all_passed = list_all cw_passed ws, crr_at_cycle = c\<rparr>"
    by (auto simp: run_cold_resume_def simp del: run_checks.simps split: prod.splits)
  show "length (crr_witnesses rep) = 5"
    using run_checks_length [OF run] by (simp add: rep)
  show "crr_at_cycle rep = c" "crr_all_passed rep \<longleftrightarrow> failed_checks rep = []"
    by (simp_all add: rep failed_checks_def all_passed_iff_no_failed)
qed (simp add: run_cold_resume_def)

end
