(* ===== verification/Ordered_Map.thy ===== *)
theory Ordered_Map
  imports Prelude
begin

text \<open>
  Rust's \<^verbatim>\<open>BTreeMap<String, V>\<close>: an association list sorted by key, in the byte order in
  which the map iterates. The locale \<open>dictionary\<close> states what its clients (the canonical
  encoder and decoder and every record that is stored as a map) rely on, and proves from it how
  a map built by a sequence of insertions looks.
\<close>

type_synonym 'v bmap = "(string \<times> 'v) list"

fun bt_insert :: "string \<Rightarrow> 'v \<Rightarrow> 'v bmap \<Rightarrow> 'v bmap" where
  "bt_insert k v [] = [(k, v)]"
| "bt_insert k v ((k', v') # m) =
     (if k < k' then (k, v) # (k', v') # m
      else if k = k' then (k, v) # m
      else (k', v') # bt_insert k v m)"

definition bt_get :: "'v bmap \<Rightarrow> string \<Rightarrow> 'v option" where
  "bt_get m k = map_of m k"

definition bt_wf :: "'v bmap \<Rightarrow> bool" where
  "bt_wf m \<longleftrightarrow> sorted_wrt (<) (map fst m)"

text \<open>A map built from empty by insertions in the order given, as the encoders write them.\<close>

definition bt_of :: "(string \<times> 'v) list \<Rightarrow> 'v bmap" where
  "bt_of kvs = fold (\<lambda>(k, v). bt_insert k v) kvs []"

section \<open>The interface\<close>

locale dictionary =
  fixes empty :: "'m"
    and insert :: "'k \<Rightarrow> 'v \<Rightarrow> 'm \<Rightarrow> 'm"
    and get :: "'m \<Rightarrow> 'k \<Rightarrow> 'v option"
    and wf :: "'m \<Rightarrow> bool"
  assumes get_empty: "get empty k = None"
    and get_insert: "get (insert k v m) k' = (if k' = k then Some v else get m k')"
    and wf_empty: "wf empty"
    and wf_insert: "wf m \<Longrightarrow> wf (insert k v m)"
    and extensional: "wf m \<Longrightarrow> wf m' \<Longrightarrow> (\<And>k. get m k = get m' k) \<Longrightarrow> m = m'"
begin

lemma insert_again: "wf m \<Longrightarrow> insert k v (insert k w m) = insert k v m"
  by (rule extensional) (auto intro: wf_insert simp: get_insert)

lemma insert_swap: "wf m \<Longrightarrow> k \<noteq> l \<Longrightarrow> insert k v (insert l w m) = insert l w (insert k v m)"
  by (rule extensional) (auto intro: wf_insert simp: get_insert)

lemma wf_fold: "wf m \<Longrightarrow> wf (fold (\<lambda>(k, v). insert k v) kvs m)"
  by (induction kvs arbitrary: m) (auto intro: wf_insert)

lemma get_fold:
  "get (fold (\<lambda>(k, v). insert k v) kvs m) k =
     (case map_of (rev kvs) k of None \<Rightarrow> get m k | Some v \<Rightarrow> Some v)"
proof (induction kvs rule: rev_induct)
  case Nil
  then show ?case by simp
next
  case (snoc kv kvs)
  then show ?case
    by (cases kv) (auto simp: get_insert)
qed

lemma rebuild:
  assumes "wf m" and "distinct (map fst kvs)" and "\<And>k. map_of kvs k = get m k"
  shows "fold (\<lambda>(k, v). insert k v) kvs empty = m"
proof (rule extensional)
  show "wf (fold (\<lambda>(k, v). insert k v) kvs empty)"
    by (rule wf_fold) (rule wf_empty)
  show "wf m" by fact
  fix k
  have "map_of (rev kvs) = map_of kvs"
    using assms(2) by (intro map_of_inject_set [THEN iffD2]) (auto simp: rev_map [symmetric])
  then show "get (fold (\<lambda>(k, v). insert k v) kvs empty) k = get m k"
    using assms(3) [of k] by (simp add: get_fold get_empty split: option.splits)
qed

end

section \<open>The implementation\<close>

lemma bt_wf_Nil [simp, wf_intros]: "bt_wf []"
  by (simp add: bt_wf_def)

lemma bt_wf_Cons [simp]: "bt_wf ((k, v) # m) \<longleftrightarrow> (\<forall>k' \<in> fst ` set m. k < k') \<and> bt_wf m"
  by (auto simp: bt_wf_def)

lemma fst_bt_insert: "fst ` set (bt_insert k v m) = Set.insert k (fst ` set m)"
  by (induction k v m rule: bt_insert.induct) auto

lemma bt_wf_insert [wf_intros]: "bt_wf m \<Longrightarrow> bt_wf (bt_insert k v m)"
  by (induction k v m rule: bt_insert.induct) (auto simp: fst_bt_insert)

lemma bt_get_insert [simp]:
  "bt_get (bt_insert k v m) k' = (if k' = k then Some v else bt_get m k')"
  by (induction k v m rule: bt_insert.induct) (auto simp: bt_get_def)

lemma bt_wf_distinct: "bt_wf m \<Longrightarrow> distinct (map fst m)"
  by (simp add: bt_wf_def strict_sorted_iff)

lemma bt_wf_ext:
  assumes "bt_wf m" and "bt_wf m'" and "\<And>k. bt_get m k = bt_get m' k"
  shows "m = m'"
proof -
  have "map_of m = map_of m'"
    using assms(3) by (auto simp: bt_get_def)
  then have "set m = set m'"
    using assms(1,2) by (simp add: bt_wf_distinct map_of_inject_set)
  moreover have "sorted (map fst m)" "sorted (map fst m')"
    using assms(1,2) by (simp_all add: bt_wf_def strict_sorted_iff)
  moreover have "inj_on fst (set m \<union> set m')"
    using calculation(1) bt_wf_distinct [OF assms(2)] by (simp add: distinct_map)
  ultimately show ?thesis
    using assms(1,2) by (intro map_sorted_distinct_set_unique [of fst]) (auto simp: bt_wf_distinct)
qed

interpretation bt: dictionary "[]" bt_insert bt_get bt_wf
proof unfold_locales
  fix k k' :: string and v :: 'a and m m' :: "'a bmap"
  show "bt_get [] k = (None :: 'a option)" by (simp add: bt_get_def)
  show "bt_get (bt_insert k v m) k' = (if k' = k then Some v else bt_get m k')" by simp
  show "bt_wf ([] :: 'a bmap)" by simp
  show "bt_wf m \<Longrightarrow> bt_wf (bt_insert k v m)" by (rule bt_wf_insert)
  show "bt_wf m \<Longrightarrow> bt_wf m' \<Longrightarrow> (\<And>k. bt_get m k = bt_get m' k) \<Longrightarrow> m = m'"
    by (rule bt_wf_ext)
qed

lemmas bt_insert_swap = bt.insert_swap

lemma bt_get_Nil [simp]: "bt_get [] k = None"
  by (fact bt.get_empty)

lemma bt_wf_of [simp, wf_intros]: "bt_wf (bt_of kvs)"
  unfolding bt_of_def by (rule bt.wf_fold) simp

lemma bt_get_of: "bt_get (bt_of kvs) k = map_of (rev kvs) k"
  by (simp add: bt_of_def bt.get_fold split: option.splits)

lemma bt_of_rebuild:
  "bt_wf m \<Longrightarrow> distinct (map fst kvs) \<Longrightarrow> set kvs = set m \<Longrightarrow> bt_of kvs = m"
  unfolding bt_of_def
  by (rule bt.rebuild)
    (auto simp: bt_get_def bt_wf_distinct intro!: map_of_inject_set [THEN iffD2, THEN fun_cong])

lemma set_bt_insert: "set (bt_insert k v m) \<subseteq> Set.insert (k, v) (set m)"
  by (induction k v m rule: bt_insert.induct) auto

lemma set_bt_of: "set (bt_of kvs) \<subseteq> set kvs"
proof -
  have "set (fold (\<lambda>(k, v). bt_insert k v) kvs m) \<subseteq> set m \<union> set kvs" for m :: "'a bmap"
  proof (induction kvs arbitrary: m)
    case (Cons kv kvs)
    obtain k v where kv: "kv = (k, v)" by (cases kv)
    have "set (fold (\<lambda>(k, v). bt_insert k v) kvs (bt_insert k v m)) \<subseteq>
        set (bt_insert k v m) \<union> set kvs"
      by (rule Cons.IH)
    then show ?case
      using set_bt_insert [of k v m] by (auto simp: kv)
  qed simp
  from this [of "[]"] show ?thesis
    by (simp add: bt_of_def)
qed

lemma bt_get_in_set: "bt_get m k = Some v \<Longrightarrow> (k, v) \<in> set m"
  by (simp add: bt_get_def map_of_SomeD)

lemma bt_get_Some_iff: "bt_wf m \<Longrightarrow> bt_get m k = Some v \<longleftrightarrow> (k, v) \<in> set m"
  by (simp add: bt_get_def bt_wf_distinct)

end
