(* ===== verification/Canonical_Bytes.thy ===== *)
theory Canonical_Bytes
  imports Ordered_Map
begin

text \<open>
  The canonical-bytes serializer, \<^verbatim>\<open>kernel/shared/src/canonical_bytes.rs\<close>: the typed
  values, the TLV encoder, the decoder with its guards, and the typed accessors of map fields.
  The lemmas give the round trip, what a successful decode guarantees, and where two byte
  strings decode alike.

  Error texts keep the fixed part of the message; the interpolated values are left out. The
  target's \<^verbatim>\<open>usize\<close> has 64 bits.
\<close>

section \<open>Values and errors\<close>

datatype cb_error = InvalidInput string | ValueTooLarge string

datatype Value =
    Null
  | VBool bool
  | VInt i64
  | VUint u64
  | VString string
  | VBytes bytes
  | VArray "Value list"
  | VMap "(string \<times> Value) list"
  | VTimestamp i64
  | VHash arr32

type_synonym vmap = "(string \<times> Value) list"

text \<open>The \<^verbatim>\<open>Display\<close> text of an error, which callers embed in their own.\<close>

fun cb_display :: "cb_error \<Rightarrow> string" where
  "cb_display (InvalidInput m) = ''invalid input: '' @ m"
| "cb_display (ValueTooLarge m) = ''value too large: '' @ m"

text \<open>
  What Rust's types guarantee of a value: its strings are UTF-8, and a \<^verbatim>\<open>BTreeMap\<close> is
  sorted by key without repetition.
\<close>

fun wf_value :: "Value \<Rightarrow> bool" where
  "wf_value (VString s) = str_ok s"
| "wf_value (VArray vs) = (\<forall>v \<in> set vs. wf_value v)"
| "wf_value (VMap m) = (bt_wf m \<and> (\<forall>(k, v) \<in> set m. str_ok k \<and> wf_value v))"
| "wf_value _ = True"

definition TAG_NULL :: u8 where "TAG_NULL = 0x00"
definition TAG_BOOL :: u8 where "TAG_BOOL = 0x01"
definition TAG_INT :: u8 where "TAG_INT = 0x10"
definition TAG_UINT :: u8 where "TAG_UINT = 0x11"
definition TAG_STRING :: u8 where "TAG_STRING = 0x20"
definition TAG_BYTES :: u8 where "TAG_BYTES = 0x21"
definition TAG_ARRAY :: u8 where "TAG_ARRAY = 0x30"
definition TAG_MAP :: u8 where "TAG_MAP = 0x31"
definition TAG_TIMESTAMP :: u8 where "TAG_TIMESTAMP = 0x40"
definition TAG_HASH :: u8 where "TAG_HASH = 0x41"

lemmas tag_defs [wire_simps] =
  TAG_NULL_def TAG_BOOL_def TAG_INT_def TAG_UINT_def TAG_STRING_def TAG_BYTES_def
  TAG_ARRAY_def TAG_MAP_def TAG_TIMESTAMP_def TAG_HASH_def

section \<open>Varints\<close>

function write_varint :: "u64 \<Rightarrow> bytes" where
  "write_varint n =
     (if 0x80 \<le> n then ((ucast n AND 0x7f) OR 0x80) # write_varint (drop_bit 7 n)
      else [ucast n])"
  by pat_completeness auto
termination
proof (relation "measure unat")
  fix n :: u64
  assume "0x80 \<le> n"
  then have "0 < unat n"
    by (simp add: word_le_nat_alt)
  then have "unat n div 2 ^ 7 < unat n"
    by (intro div_less_dividend) auto
  then show "(drop_bit 7 n, n) \<in> measure unat"
    by (simp add: unat_drop_bit_eq drop_bit_eq_div unat_div)
qed simp

declare write_varint.simps [simp del]

text \<open>The loop of \<^verbatim>\<open>read_varint\<close>; the first argument counts its ten rounds down.\<close>

primrec read_varint_loop ::
    "nat \<Rightarrow> bytes \<Rightarrow> nat \<Rightarrow> u64 \<Rightarrow> nat \<Rightarrow> (u64 \<times> nat, cb_error) result" where
  "read_varint_loop 0 buf cur acc shift = Err (InvalidInput ''varint too long (>10 bytes)'')"
| "read_varint_loop (Suc k) buf cur acc shift =
     (if length buf \<le> cur then Err (InvalidInput ''varint truncated'')
      else let byte = buf ! cur;
               acc' = acc OR push_bit shift (ucast (byte AND 0x7f))
           in if byte AND 0x80 = 0 then Ok (acc', Suc cur)
              else read_varint_loop k buf (Suc cur) acc' (shift + 7))"

definition read_varint :: "bytes \<Rightarrow> nat \<Rightarrow> (u64 \<times> nat, cb_error) result" where
  "read_varint buf offset = read_varint_loop 10 buf offset 0 0"

lemma write_varint_not_Nil [simp]: "write_varint n \<noteq> []"
  by (subst write_varint.simps) simp

lemma varint_byte_more: "((w AND 0x7f) OR 0x80) AND 0x80 = (0x80 :: u8)"
  by (rule bit_word_eqI) (auto simp: bit_simps)

lemma varint_byte_low: "((w AND 0x7f) OR 0x80) AND 0x7f = take_bit 7 (w :: u8)"
proof -
  have "(0x80 :: u8) AND 0x7f = 0" and "(0x7f :: u8) = mask 7"
    by (simp_all add: mask_eq_exp_minus_1)
  then show ?thesis
    by (simp add: bit.conj_disj_distrib2 and.assoc take_bit_eq_mask)
qed

lemma varint_byte_last:
  assumes "\<not> 0x80 \<le> (n :: u64)"
  shows "(ucast n :: u8) AND 0x80 = 0" and "(ucast n :: u8) AND 0x7f = ucast n"
    and "ucast (ucast n :: u8) = n"
proof -
  have "unat n < 2 ^ 7"
    using assms by (simp add: word_le_nat_alt)
  then have "take_bit 7 n = n"
    by (simp add: word_unat_eq_iff unsigned_take_bit_eq take_bit_nat_eq_self_iff)
  then have high: "\<not> bit n i" if "7 \<le> i" for i
    using that by (metis bit_take_bit_iff not_le)
  have low: "bit n i \<Longrightarrow> i < 7" for i
    using high not_le by blast
  have "(0x80 :: u8) = 2 ^ 7" and m: "(0x7f :: u8) = mask 7"
    by (simp_all add: mask_eq_exp_minus_1)
  then have h: "bit (0x80 :: u8) i \<Longrightarrow> i = 7" for i
    by (simp only: bit_exp_iff)
  show "(ucast n :: u8) AND 0x80 = 0"
    by (rule bit_word_eqI) (use h high in \<open>auto simp only: bit_and_iff bit_unsigned_iff
        bit_0_eq bot_apply bot_bool_def order_refl\<close>)
  show "(ucast n :: u8) AND 0x7f = ucast n"
    unfolding m by (rule bit_word_eqI) (use high not_le in \<open>auto simp: bit_simps\<close>)
  show "ucast (ucast n :: u8) = n"
    by (rule bit_word_eqI) (use low [THEN less_trans, of _ 8] in \<open>auto simp: bit_simps\<close>)
qed

lemma varint_join:
  "(acc OR push_bit s (ucast (take_bit 7 (ucast n :: u8)))) OR push_bit (s + 7) (drop_bit 7 n)
     = acc OR push_bit s (n :: u64)"
proof (rule bit_word_eqI)
  fix i
  assume "i < LENGTH(64)"
  moreover have "7 + (i - (s + 7)) = i - s" if "\<not> i - s < 7"
    using that by simp
  ultimately show "bit ((acc OR push_bit s (ucast (take_bit 7 (ucast n :: u8)))) OR
      push_bit (s + 7) (drop_bit 7 n)) i = bit (acc OR push_bit s n) i"
    by (cases "i - s < 7") (auto simp: bit_simps)
qed

lemma read_varint_loop_write:
  assumes "unat n < 2 ^ (7 * k)" and "0 < k"
  shows "read_varint_loop k (pre @ write_varint n @ post) (length pre) acc s =
    Ok (acc OR push_bit s n, length pre + length (write_varint n))"
  using assms
proof (induction n arbitrary: k pre acc s rule: write_varint.induct)
  case (1 n)
  then obtain j where k: "k = Suc j"
    by (cases k) auto
  show ?case
  proof (cases "0x80 \<le> n")
    case False
    then have w: "write_varint n = [ucast n]"
      by (subst write_varint.simps) simp
    show ?thesis
      by (simp add: k w varint_byte_last [OF False])
  next
    case True
    define b where "b = (ucast n AND 0x7f) OR (0x80 :: u8)"
    have w: "write_varint n = b # write_varint (drop_bit 7 n)"
      using True by (subst write_varint.simps) (simp add: b_def)
    have "unat (drop_bit 7 n) < 2 ^ (7 * j)"
      using "1.prems" by (simp add: k unat_drop_bit_eq drop_bit_eq_div
          less_mult_imp_div_less power_add mult.commute unat_div)
    moreover have "0 < j"
      using True "1.prems" by (cases j) (auto simp: k word_le_nat_alt)
    ultimately have "read_varint_loop j ((pre @ [b]) @ write_varint (drop_bit 7 n) @ post)
        (length (pre @ [b])) (acc OR push_bit s (ucast (take_bit 7 (ucast n :: u8)))) (s + 7) =
      Ok (acc OR push_bit s n, length (pre @ [b]) + length (write_varint (drop_bit 7 n)))"
      using "1.IH" [OF True] by (simp only: varint_join)
    then show ?thesis
      by (simp add: k w b_def varint_byte_more varint_byte_low)
  qed
qed

lemma read_varint_write:
  "read_varint (pre @ write_varint n @ post) (length pre) =
    Ok (n, length pre + length (write_varint n))"
  using unat_bound [of n]
  by (simp add: read_varint_def read_varint_loop_write)

section \<open>Encoder\<close>

text \<open>
  \<^verbatim>\<open>encode_into\<close> appends to a buffer; the model returns what it appends. A map's entries
  are keyed by the canonical bytes of the key and sorted on them, as the code does with
  \<^verbatim>\<open>sort_by\<close>. No branch of the encoder constructs an error.
\<close>

definition encode_string :: "string \<Rightarrow> bytes" where
  "encode_string s = TAG_STRING # write_varint (word_of_nat (length s)) @ str_bytes s"

function encode_into :: "Value \<Rightarrow> bytes" where
  "encode_into Null = [TAG_NULL]"
| "encode_into (VBool b) = [TAG_BOOL, if b then 0x01 else 0x00]"
| "encode_into (VInt i) = TAG_INT # u64_bytes i"
| "encode_into (VUint u) = TAG_UINT # u64_bytes u"
| "encode_into (VString s) = encode_string s"
| "encode_into (VBytes b) = TAG_BYTES # write_varint (word_of_nat (length b)) @ b"
| "encode_into (VArray items) =
     TAG_ARRAY # write_varint (word_of_nat (length items)) @ concat (map encode_into items)"
| "encode_into (VMap m) =
     TAG_MAP # write_varint (word_of_nat (length m)) @
     concat (map (\<lambda>(cb, k, v). cb @ encode_into v)
       (sort_key fst (map (\<lambda>(k, v). (encode_string k, k, v)) m)))"
| "encode_into (VTimestamp ts) = TAG_TIMESTAMP # u64_bytes ts"
| "encode_into (VHash h) = TAG_HASH # arr32_bytes h"
  by pat_completeness auto
termination
proof (relation "measure size")
  fix m and x :: "bytes \<times> string \<times> Value" and cb and y :: "string \<times> Value" and k v
  assume "x \<in> set (sort_key fst (map (\<lambda>(k, v). (encode_string k, k, v)) m))"
    and "(cb, y) = x" and "(k, v) = y"
  then have "(k, v) \<in> set m"
    by auto
  then show "(v, VMap m) \<in> measure size"
    by (induction m) auto
qed (auto simp: less_Suc_eq_le size_list_estimation')

definition encode :: "Value \<Rightarrow> (bytes, cb_error) result" where
  "encode v = Ok (encode_into v)"

section \<open>Decoder\<close>

text \<open>
  A payload of the length that a varint claims. With a 64-bit \<^verbatim>\<open>usize\<close> the sum
  \<^verbatim>\<open>cursor + length\<close> can overflow: a debug build panics on the addition, and a release
  build wraps to an end before the start and panics on the slice.
\<close>

definition take_payload :: "bytes \<Rightarrow> nat \<Rightarrow> u64 \<Rightarrow> string \<Rightarrow> (bytes, cb_error) result" where
  "take_payload buf cursor n msg =
     (if 2 ^ 64 \<le> cursor + unat n then Abort Panicked
      else if length buf < cursor + unat n then Err (InvalidInput msg)
      else Ok (take (unat n) (drop cursor buf)))"

primrec decode_items ::
    "(nat \<Rightarrow> (Value \<times> nat, cb_error) result) \<Rightarrow> nat \<Rightarrow> nat \<Rightarrow>
      (Value list \<times> nat, cb_error) result" where
  "decode_items step 0 cursor = Ok ([], cursor)"
| "decode_items step (Suc n) cursor =
     and_then (step cursor) (\<lambda>(item, c).
     and_then (decode_items step n c) (\<lambda>(items, c'). Ok (item # items, c')))"

primrec decode_entries ::
    "(nat \<Rightarrow> (Value \<times> nat, cb_error) result) \<Rightarrow> bytes \<Rightarrow> nat \<Rightarrow> nat \<Rightarrow> vmap \<Rightarrow> bytes option \<Rightarrow>
      (vmap \<times> nat, cb_error) result" where
  "decode_entries step buf 0 cursor entries prev = Ok (entries, cursor)"
| "decode_entries step buf (Suc n) cursor entries prev =
     and_then (step cursor) (\<lambda>(key_value, key_end).
       case key_value of
         VString s \<Rightarrow>
           (let key = take (key_end - cursor) (drop cursor buf) in
            if (case prev of Some p \<Rightarrow> key \<le> p | None \<Rightarrow> False)
            then Err (InvalidInput ''decode: map keys not in strict canonical order'')
            else and_then (step key_end) (\<lambda>(val, c).
                   decode_entries step buf n c (bt_insert s val entries) (Some key)))
       | _ \<Rightarrow> Err (InvalidInput ''decode: map key is not String''))"

text \<open>The fuel bounds the nesting depth; \<open>decode\<close> gives one more than the input's length.\<close>

primrec decode_into :: "nat \<Rightarrow> bytes \<Rightarrow> nat \<Rightarrow> (Value \<times> nat, cb_error) result" where
  "decode_into 0 buf offset = Abort OutOfFuel"
| "decode_into (Suc fuel) buf offset =
     (if length buf \<le> offset then Err (InvalidInput ''decode: input truncated'')
      else let tag = buf ! offset; cursor = Suc offset in
        if tag = TAG_NULL then Ok (Null, cursor)
        else if tag = TAG_BOOL then
          (if length buf \<le> cursor then Err (InvalidInput ''decode: bool payload truncated'')
           else let b = buf ! cursor in
             if b \<noteq> 0x00 \<and> b \<noteq> 0x01 then Err (InvalidInput ''decode: invalid bool byte'')
             else Ok (VBool (b = 0x01), Suc cursor))
        else if tag = TAG_INT then
          (if length buf < cursor + 8 then Err (InvalidInput ''decode: int payload truncated'')
           else Ok (VInt (word_of_be (take 8 (drop cursor buf))), cursor + 8))
        else if tag = TAG_UINT then
          (if length buf < cursor + 8 then Err (InvalidInput ''decode: uint payload truncated'')
           else Ok (VUint (word_of_be (take 8 (drop cursor buf))), cursor + 8))
        else if tag = TAG_STRING then
          and_then (read_varint buf cursor) (\<lambda>(n, c).
          and_then (take_payload buf c n ''decode: string payload truncated'') (\<lambda>raw.
            if utf8_valid raw then Ok (VString (bytes_str raw), c + unat n)
            else Err (InvalidInput ''decode: invalid utf-8'')))
        else if tag = TAG_BYTES then
          and_then (read_varint buf cursor) (\<lambda>(n, c).
          and_then (take_payload buf c n ''decode: bytes payload truncated'') (\<lambda>raw.
            Ok (VBytes raw, c + unat n)))
        else if tag = TAG_ARRAY then
          and_then (read_varint buf cursor) (\<lambda>(count, c).
            if length buf - c < unat count
            then Err (ValueTooLarge ''array count exceeds remaining input'')
            else and_then (decode_items (decode_into fuel buf) (unat count) c)
                   (\<lambda>(items, c'). Ok (VArray items, c')))
        else if tag = TAG_MAP then
          and_then (read_varint buf cursor) (\<lambda>(count, c).
            if length buf - c < unat count
            then Err (ValueTooLarge ''map count exceeds remaining input'')
            else and_then (decode_entries (decode_into fuel buf) buf (unat count) c [] None)
                   (\<lambda>(entries, c'). Ok (VMap entries, c')))
        else if tag = TAG_TIMESTAMP then
          (if length buf < cursor + 8
           then Err (InvalidInput ''decode: timestamp payload truncated'')
           else Ok (VTimestamp (word_of_be (take 8 (drop cursor buf))), cursor + 8))
        else if tag = TAG_HASH then
          (if length buf < cursor + 32 then Err (InvalidInput ''decode: hash payload truncated'')
           else Ok (VHash (word_of_be (take 32 (drop cursor buf))), cursor + 32))
        else Err (InvalidInput ''decode: unknown tag''))"

definition decode :: "bytes \<Rightarrow> (Value, cb_error) result" where
  "decode buf =
     and_then (decode_into (Suc (length buf)) buf 0) (\<lambda>(v, cursor).
       if cursor \<noteq> length buf then Err (InvalidInput ''trailing bytes after decode'')
       else Ok v)"

section \<open>Round trip\<close>

lemma read_varint_write_Cons [simp]:
  "read_varint (pre @ t # write_varint n @ post) (Suc (length pre)) =
    Ok (n, Suc (length pre) + length (write_varint n))"
  using read_varint_write [of "pre @ [t]" n post] by simp

lemma unat_of_short_length [simp]: "n < 2 ^ 64 \<Longrightarrow> unat (word_of_nat n :: u64) = n"
  by (simp add: unat_of_nat)

lemma encode_string_not_Nil [simp]: "encode_string s \<noteq> []"
  by (simp add: encode_string_def)

lemma encode_into_not_Nil [simp]: "encode_into v \<noteq> []"
  by (cases v) simp_all

lemma length_encode_into_pos [simp]: "0 < length (encode_into v)"
  by simp

lemma take_payload_exact:
  assumes "length n < 2 ^ 64" and "length pre + length n < 2 ^ 64"
  shows "take_payload (pre @ n @ post) (length pre) (word_of_nat (length n)) msg = Ok n"
  using assms by (simp add: take_payload_def)

lemma decode_into_string:
  assumes "str_ok s" and "length (pre @ encode_string s @ post) < 2 ^ 63"
  shows "decode_into (Suc f) (pre @ encode_string s @ post) (length pre) =
    Ok (VString s, length pre + length (encode_string s))"
proof -
  define w where "w = write_varint (word_of_nat (length s))"
  have "take_payload ((pre @ TAG_STRING # w) @ str_bytes s @ post)
      (length (pre @ TAG_STRING # w)) (word_of_nat (length (str_bytes s))) msg = Ok (str_bytes s)"
    for msg
    by (rule take_payload_exact) (use assms(2) in \<open>auto simp: encode_string_def w_def\<close>)
  then have "take_payload (pre @ TAG_STRING # w @ str_bytes s @ post)
      (Suc (length pre + length w)) (word_of_nat (length s)) msg = Ok (str_bytes s)" for msg
    by simp
  moreover have "read_varint (pre @ TAG_STRING # w @ str_bytes s @ post) (Suc (length pre)) =
      Ok (word_of_nat (length s), Suc (length pre + length w))"
    by (simp add: w_def)
  moreover have "length s < 2 ^ 64"
    using assms(2) by (simp add: encode_string_def)
  ultimately show ?thesis
    using assms(1) by (simp add: encode_string_def str_ok_def TAG_NULL_def TAG_BOOL_def TAG_INT_def
        TAG_UINT_def TAG_STRING_def del: read_varint_write_Cons flip: w_def)
qed

lemma encode_string_inject:
  assumes "str_ok s" and "str_ok t" and "length (encode_string s) < 2 ^ 63"
    and "encode_string s = encode_string t"
  shows "s = t"
  using decode_into_string [of s "[]" "[]" 0] decode_into_string [of t "[]" "[]" 0] assms
  by simp

text \<open>\<open>step\<close> reads the value \<open>v\<close> wherever the buffer holds the bytes \<open>bs\<close>.\<close>

definition reads ::
    "(nat \<Rightarrow> (Value \<times> nat, cb_error) result) \<Rightarrow> bytes \<Rightarrow> bytes \<Rightarrow> Value \<Rightarrow> bool" where
  "reads step buf bs v \<longleftrightarrow> (\<forall>pre post. buf = pre @ bs @ post \<longrightarrow>
     step (length pre) = Ok (v, length pre + length bs))"

lemma readsD:
  "reads step buf bs v \<Longrightarrow> buf = pre @ bs @ post \<Longrightarrow>
    step (length pre) = Ok (v, length pre + length bs)"
  unfolding reads_def by blast

lemma decode_items_encode:
  assumes "\<forall>v \<in> set vs. reads step buf (encode_into v) v"
    and "buf = pre @ concat (map encode_into vs) @ post"
  shows "decode_items step (length vs) (length pre) =
    Ok (vs, length pre + length (concat (map encode_into vs)))"
  using assms
proof (induction vs arbitrary: pre)
  case Nil
  then show ?case by simp
next
  case (Cons v vs)
  have "step (length pre) = Ok (v, length pre + length (encode_into v))"
    by (rule readsD [where post = "concat (map encode_into vs) @ post"]) (use Cons.prems in simp_all)
  moreover have "decode_items step (length vs) (length (pre @ encode_into v)) =
      Ok (vs, length (pre @ encode_into v) + length (concat (map encode_into vs)))"
    using Cons.prems by (intro Cons.IH) simp_all
  ultimately show ?case by simp
qed

definition entry_bytes :: "string \<times> Value \<Rightarrow> bytes" where
  "entry_bytes kv = encode_string (fst kv) @ encode_into (snd kv)"

lemma entry_bytes_pair [simp]: "entry_bytes (k, v) = encode_string k @ encode_into v"
  by (simp add: entry_bytes_def)

lemma decode_entries_encode:
  assumes "\<forall>kv \<in> set kvs. reads step buf (encode_string (fst kv)) (VString (fst kv)) \<and>
      reads step buf (encode_into (snd kv)) (snd kv)"
    and "buf = pre @ concat (map entry_bytes kvs) @ post"
    and "sorted_wrt (<) (map (encode_string \<circ> fst) kvs)"
    and "\<forall>p. prev = Some p \<longrightarrow> (\<forall>kv \<in> set kvs. p < encode_string (fst kv))"
  shows "decode_entries step buf (length kvs) (length pre) entries prev =
    Ok (fold (\<lambda>(k, v). bt_insert k v) kvs entries, length pre + length (concat (map entry_bytes kvs)))"
  using assms
proof (induction kvs arbitrary: pre entries prev)
  case Nil
  then show ?case by simp
next
  case (Cons kv kvs)
  obtain k v where kv: "kv = (k, v)" by (cases kv)
  let ?rest = "concat (map entry_bytes kvs) @ post"
  have buf: "buf = pre @ encode_string k @ encode_into v @ ?rest"
    using Cons.prems(2) by (simp add: kv)
  have k: "step (length pre) = Ok (VString k, length pre + length (encode_string k))"
    by (rule readsD [OF _ buf]) (use Cons.prems(1) in \<open>simp add: kv\<close>)
  have v: "step (length (pre @ encode_string k)) =
      Ok (v, length (pre @ encode_string k) + length (encode_into v))"
    by (rule readsD [of _ buf _ _ _ ?rest]) (use Cons.prems(1) buf in \<open>simp_all add: kv\<close>)
  have rest: "decode_entries step buf (length kvs)
      (length (pre @ encode_string k @ encode_into v)) (bt_insert k v entries) (Some (encode_string k)) =
    Ok (fold (\<lambda>(k, v). bt_insert k v) kvs (bt_insert k v entries),
      length (pre @ encode_string k @ encode_into v) + length (concat (map entry_bytes kvs)))"
    by (rule Cons.IH) (use Cons.prems(1,3) buf in \<open>simp_all add: kv\<close>)
  have "\<not> (case prev of Some p \<Rightarrow> encode_string k \<le> p | None \<Rightarrow> False)"
    using Cons.prems(4) by (auto simp: kv split: option.splits)
  moreover have "take (length (encode_string k)) (drop (length pre) buf) = encode_string k"
    by (simp add: buf)
  ultimately show ?case
    using k v rest by (simp add: kv add.assoc)
qed

lemma sort_key_map: "sort_key f (map g xs) = map g (sort_key (\<lambda>x. f (g x)) xs)"
proof (induction xs)
  case (Cons x xs)
  have "insort_key f (g x) (map g ys) = map g (insort_key (\<lambda>x. f (g x)) x ys)" for ys
    by (induction ys) auto
  with Cons show ?case by simp
qed simp

lemma encode_into_VMap:
  "encode_into (VMap m) = TAG_MAP # write_varint (word_of_nat (length m)) @
     concat (map entry_bytes (sort_key (encode_string \<circ> fst) m))"
proof -
  have "sort_key fst (map (\<lambda>(k, v). (encode_string k, k, v)) m) =
      map (\<lambda>(k, v). (encode_string k, k, v)) (sort_key (encode_string \<circ> fst) m)"
    by (simp add: sort_key_map case_prod_unfold comp_def)
  then show ?thesis
    by (simp add: comp_def case_prod_unfold entry_bytes_def [abs_def])
qed

declare encode_into.simps(8) [simp del]

lemma readsI:
  "(\<And>pre post. buf = pre @ bs @ post \<Longrightarrow> step (length pre) = Ok (v, length pre + length bs)) \<Longrightarrow>
    reads step buf bs v"
  unfolding reads_def by blast

lemma reads_string:
  "str_ok s \<Longrightarrow> length buf < 2 ^ 63 \<Longrightarrow> 0 < f \<Longrightarrow>
    reads (decode_into f buf) buf (encode_string s) (VString s)"
  by (rule readsI, cases f) (simp_all add: decode_into_string del: length_append decode_into.simps)

lemma length_concat_member: "x \<in> set xs \<Longrightarrow> length (f x) \<le> length (concat (map f xs))"
  by (induction xs) auto

lemma read_count:
  assumes "buf = (pre @ [t]) @ write_varint (word_of_nat n) @ post"
  shows "read_varint buf (Suc (length pre)) =
    Ok (word_of_nat n, length (pre @ t # write_varint (word_of_nat n)))"
  using assms by simp

lemma count_le_concat: "(\<And>x. x \<in> set xs \<Longrightarrow> f x \<noteq> []) \<Longrightarrow> length xs \<le> length (concat (map f xs))"
proof (induction xs)
  case (Cons x xs)
  then have "length xs \<le> length (concat (map f xs))" and "f x \<noteq> []"
    by simp_all
  then show ?case
    by (cases "f x") simp_all
qed simp

lemma nth_second [simp]: "(pre @ a # b # post) ! Suc (length pre) = b"
  using nth_append_length [of "pre @ [a]" b post] by simp

fun scalar :: "Value \<Rightarrow> bool" where
  "scalar (VString _) = False"
| "scalar (VBytes _) = False"
| "scalar (VArray _) = False"
| "scalar (VMap _) = False"
| "scalar _ = True"

lemma reads_scalar: "scalar v \<Longrightarrow> reads (decode_into (Suc g) buf) buf (encode_into v) v"
  by (rule readsI, cases v) (auto simp: wire_simps)

lemma reads_bytes:
  assumes "length buf < 2 ^ 63"
  shows "reads (decode_into (Suc g) buf) buf (encode_into (VBytes b)) (VBytes b)"
proof (rule readsI)
  fix pre post
  assume buf: "buf = pre @ encode_into (VBytes b) @ post"
  define w where "w = write_varint (word_of_nat (length b))"
  have "read_varint buf (Suc (length pre)) =
      Ok (word_of_nat (length b), length (pre @ TAG_BYTES # w))"
    unfolding w_def by (rule read_count) (simp add: buf)
  moreover have "take_payload ((pre @ TAG_BYTES # w) @ b @ post)
      (length (pre @ TAG_BYTES # w)) (word_of_nat (length b)) msg = Ok b" for msg
    by (rule take_payload_exact) (use assms buf in \<open>auto simp: w_def\<close>)
  moreover have "buf = (pre @ TAG_BYTES # w) @ b @ post"
    by (simp add: buf w_def)
  moreover have "length b < 2 ^ 64"
    using assms buf by simp
  ultimately show "decode_into (Suc g) buf (length pre) =
      Ok (VBytes b, length pre + length (encode_into (VBytes b)))"
    by (simp add: wire_simps w_def [symmetric] del: read_varint_write_Cons)
qed

lemma reads_array:
  assumes "length buf < 2 ^ 63"
    and items: "\<forall>v \<in> set vs. reads (decode_into g buf) buf (encode_into v) v"
  shows "reads (decode_into (Suc g) buf) buf (encode_into (VArray vs)) (VArray vs)"
proof (rule readsI)
  fix pre post
  assume buf: "buf = pre @ encode_into (VArray vs) @ post"
  let ?w = "write_varint (word_of_nat (length vs))"
  let ?pre = "pre @ TAG_ARRAY # ?w"
  have buf': "buf = ?pre @ concat (map encode_into vs) @ post"
    by (simp add: buf)
  have len: "length vs \<le> length (concat (map encode_into vs))"
    by (rule count_le_concat) simp
  have "read_varint buf (Suc (length pre)) = Ok (word_of_nat (length vs), length ?pre)"
    by (rule read_count) (simp add: buf)
  moreover have "decode_items (decode_into g buf) (length vs) (length ?pre) =
      Ok (vs, length ?pre + length (concat (map encode_into vs)))"
    by (rule decode_items_encode [OF items buf'])
  moreover have "length vs < 2 ^ 64"
    using assms(1) len by (simp add: buf)
  moreover have "length vs \<le> length buf - length ?pre" and "length pre < length buf"
    and "buf ! length pre = TAG_ARRAY"
    using len by (simp_all add: buf)
  ultimately show "decode_into (Suc g) buf (length pre) =
      Ok (VArray vs, length pre + length (encode_into (VArray vs)))"
    by (simp add: wire_simps)
qed

text \<open>The entries of a well-formed map in the order in which the encoder writes them.\<close>

definition encoded_order :: "vmap \<Rightarrow> vmap" where
  "encoded_order m = sort_key (encode_string \<circ> fst) m"

lemma set_encoded_order [simp]: "set (encoded_order m) = set m"
  by (simp add: encoded_order_def)

lemma length_encoded_order [simp]: "length (encoded_order m) = length m"
  by (simp add: encoded_order_def)

lemma distinct_map_sort: "distinct (map f m) \<Longrightarrow> distinct (map f (sort_key g m))"
  by (metis distinct_map distinct_sort set_sort)

lemma encoded_order_strict:
  assumes "bt_wf m" and "\<forall>kv \<in> set m. str_ok (fst kv) \<and> length (encode_string (fst kv)) < 2 ^ 63"
  shows "sorted_wrt (<) (map (encode_string \<circ> fst) (encoded_order m))"
proof -
  have "inj_on (encode_string \<circ> fst) (set m)"
    using assms(2) encode_string_inject bt_wf_distinct [OF assms(1)]
    by (intro inj_onI) (metis comp_apply distinct_map inj_onD)
  then have "distinct (map (encode_string \<circ> fst) m)"
    using bt_wf_distinct [OF assms(1)] by (simp add: distinct_map)
  then have "distinct (map (encode_string \<circ> fst) (encoded_order m))"
    unfolding encoded_order_def by (rule distinct_map_sort)
  then show ?thesis
    unfolding encoded_order_def by (simp only: strict_sorted_iff sorted_sort_key simp_thms)
qed

lemma bt_of_encoded_order: "bt_wf m \<Longrightarrow> bt_of (encoded_order m) = m"
  unfolding encoded_order_def
  by (intro bt_of_rebuild distinct_map_sort bt_wf_distinct) simp_all

lemma reads_map:
  assumes "length buf < 2 ^ 63" and "bt_wf m" and keys: "\<forall>kv \<in> set m. str_ok (fst kv)"
    and entries: "\<forall>kv \<in> set (encoded_order m).
      reads (decode_into g buf) buf (encode_string (fst kv)) (VString (fst kv)) \<and>
      reads (decode_into g buf) buf (encode_into (snd kv)) (snd kv)"
  shows "reads (decode_into (Suc g) buf) buf (encode_into (VMap m)) (VMap m)"
proof (rule readsI)
  fix pre post
  assume buf: "buf = pre @ encode_into (VMap m) @ post"
  let ?w = "write_varint (word_of_nat (length m))"
  let ?pre = "pre @ TAG_MAP # ?w"
  have buf': "buf = ?pre @ concat (map entry_bytes (encoded_order m)) @ post"
    by (simp add: buf encode_into_VMap encoded_order_def)
  have len: "length m \<le> length (concat (map entry_bytes (encoded_order m)))"
    using count_le_concat [of "encoded_order m" entry_bytes] by (simp add: entry_bytes_def)
  have "length (encode_string (fst kv)) < 2 ^ 63" if "kv \<in> set m" for kv
    using length_concat_member [of kv "encoded_order m" entry_bytes] that assms(1)
    by (simp add: entry_bytes_def buf')
  then have "sorted_wrt (<) (map (encode_string \<circ> fst) (encoded_order m))"
    using assms(2) keys by (intro encoded_order_strict) simp_all
  then have "decode_entries (decode_into g buf) buf (length m) (length ?pre) [] None =
      Ok (m, length ?pre + length (concat (map entry_bytes (encoded_order m))))"
    using decode_entries_encode [OF entries buf', of None "[]"] bt_of_encoded_order [OF assms(2)]
    by (simp add: bt_of_def)
  moreover have "read_varint buf (Suc (length pre)) = Ok (word_of_nat (length m), length ?pre)"
    by (rule read_count) (simp add: buf encode_into_VMap)
  moreover have "length m < 2 ^ 64"
    using assms(1) len by (simp add: buf')
  moreover have "length m \<le> length buf - length ?pre" and "length pre < length buf"
    and "buf ! length pre = TAG_MAP"
    using len by (simp_all add: buf')
  ultimately show "decode_into (Suc g) buf (length pre) =
      Ok (VMap m, length pre + length (encode_into (VMap m)))"
    by (simp add: wire_simps encode_into_VMap encoded_order_def)
qed

lemma decode_into_encode:
  "wf_value v \<Longrightarrow> length buf < 2 ^ 63 \<Longrightarrow> length (encode_into v) \<le> f \<Longrightarrow>
    reads (decode_into f buf) buf (encode_into v) v"
proof (induction v arbitrary: f)
  case (VString s)
  then show ?case
    using order.strict_trans2 [OF length_encode_into_pos VString.prems(3)]
    by (simp add: reads_string del: length_greater_0_conv)
next
  case (VBytes b)
  then show ?case
    by (cases f) (simp_all add: reads_bytes del: encode_into.simps decode_into.simps)
next
  case (VArray vs)
  then obtain g where f: "f = Suc g" by (cases f) auto
  have "length (encode_into v) \<le> g" if "v \<in> set vs" for v
    using VArray.prems(3) length_concat_member [OF that, of encode_into] by (simp add: f)
  then show ?case
    unfolding f using VArray by (intro reads_array) simp_all
next
  case (VMap m)
  then obtain g where f: "f = Suc g" by (cases f) auto
  have wf: "str_ok k \<and> wf_value v" if "(k, v) \<in> set m" for k v
    using VMap.prems(1) that by auto
  have "0 < g \<and> length (encode_into v) \<le> g" if m: "(k, v) \<in> set m" for k v
  proof -
    have "length (entry_bytes (k, v)) \<le> length (concat (map entry_bytes (encoded_order m)))"
      by (rule length_concat_member) (simp add: m)
    then have "length (encode_string k) + length (encode_into v) \<le> g"
      using VMap.prems(3) by (simp add: f encode_into_VMap encoded_order_def)
    moreover have "0 < length (encode_string k)"
      by simp
    ultimately show ?thesis
      by (simp del: length_greater_0_conv)
  qed
  then have "reads (decode_into g buf) buf (encode_string k) (VString k) \<and>
      reads (decode_into g buf) buf (encode_into v) v" if "(k, v) \<in> set m" for k v
    using VMap.IH [OF that] VMap.prems(2) wf [OF that] that by (simp add: reads_string)
  then show ?case
    unfolding f using VMap.prems wf by (intro reads_map) auto
qed (case_tac f; simp add: reads_scalar del: encode_into.simps decode_into.simps(2))+

lemma decode_encode_into:
  assumes "wf_value v" and "length (encode_into v) < 2 ^ 63"
  shows "decode (encode_into v) = Ok v"
proof -
  let ?f = "Suc (length (encode_into v))"
  have "reads (decode_into ?f (encode_into v)) (encode_into v) (encode_into v) v"
    using assms by (intro decode_into_encode) simp_all
  then show ?thesis
    using readsD [of "decode_into ?f (encode_into v)" _ _ v "[]" "[]"]
    by (simp add: decode_def del: decode_into.simps)
qed

lemma encode_into_inject:
  assumes "wf_value v" and "wf_value w" and "length (encode_into v) < 2 ^ 63"
  shows "encode_into v = encode_into w \<longleftrightarrow> v = w"
  using decode_encode_into [of v] decode_encode_into [of w] assms by auto

text \<open>An encoding ends where it says: no encoding is a proper prefix of another.\<close>

lemma encode_into_prefix_free:
  assumes "wf_value v" and "wf_value w" and "encode_into v @ x = encode_into w @ y"
    and "length (encode_into v @ x) < 2 ^ 63"
  shows "v = w \<and> x = y"
proof -
  let ?buf = "encode_into v @ x" and ?f = "length (encode_into v @ x)"
  have w: "?buf = encode_into w @ y"
    by (fact assms(3))
  have len: "length (encode_into w) \<le> ?f"
    unfolding w by simp
  have "reads (decode_into ?f ?buf) ?buf (encode_into v) v"
    by (rule decode_into_encode [OF assms(1,4)]) simp
  moreover have "reads (decode_into ?f ?buf) ?buf (encode_into w) w"
    by (rule decode_into_encode [OF assms(2,4) len])
  ultimately have "v = w"
    using readsD [of "decode_into ?f ?buf" ?buf "encode_into v" v "[]" x]
      readsD [of "decode_into ?f ?buf" ?buf "encode_into w" w "[]" y] w
    by (simp del: decode_into.simps)
  with assms(3) show ?thesis
    by simp
qed

section \<open>What a decode guarantees\<close>

declare decode_into.simps(2) [simp del]

text \<open>
  A step is sound when, from any cursor in the range, it has enough fuel, and a value it returns
  is well-formed and was read from a non-empty part of the buffer.
\<close>

definition read_ok :: "bytes \<Rightarrow> nat \<Rightarrow> Value \<times> nat \<Rightarrow> bool" where
  "read_ok buf cur = (\<lambda>(v, c). cur < c \<and> c \<le> length buf \<and> wf_value v)"

definition sound_step ::
    "(nat \<Rightarrow> (Value \<times> nat, cb_error) result) \<Rightarrow> bytes \<Rightarrow> nat \<Rightarrow> bool" where
  "sound_step step buf lo \<longleftrightarrow>
     (\<forall>cur. lo \<le> cur \<and> cur \<le> length buf \<longrightarrow> ensures (step cur) (read_ok buf cur))"

lemma sound_stepD:
  "sound_step step buf lo \<Longrightarrow> lo \<le> cur \<Longrightarrow> cur \<le> length buf \<Longrightarrow>
    ensures (step cur) (read_ok buf cur)"
  unfolding sound_step_def by blast

lemma sound_items:
  assumes "sound_step step buf lo"
  shows "lo \<le> cur \<Longrightarrow> cur \<le> length buf \<Longrightarrow> ensures (decode_items step n cur)
    (\<lambda>(vs, c). cur \<le> c \<and> c \<le> length buf \<and> (\<forall>v \<in> set vs. wf_value v))"
proof (induction n arbitrary: cur)
  case 0
  then show ?case by (simp add: ensures_Ok)
next
  case (Suc n)
  have "ensures (and_then (decode_items step n c) (\<lambda>(items, c'). Ok (v # items, c')))
      (\<lambda>(vs, c'). cur \<le> c' \<and> c' \<le> length buf \<and> (\<forall>v \<in> set vs. wf_value v))"
    if "read_ok buf cur (v, c)" for v c
    by (rule ensures_and_then [OF Suc.IH])
      (use that Suc.prems in \<open>auto simp: read_ok_def intro!: ensures_Ok\<close>)
  then show ?case
    unfolding decode_items.simps
    by (intro ensures_and_then [OF sound_stepD [OF assms Suc.prems]] ensures_pair) simp
qed

lemma wf_VMap_insert:
  "wf_value (VMap m) \<Longrightarrow> str_ok k \<Longrightarrow> wf_value v \<Longrightarrow> wf_value (VMap (bt_insert k v m))"
  using set_bt_insert [of k v m] by (auto simp: bt_wf_insert)

lemma sound_entries:
  assumes "sound_step step buf lo"
  shows "lo \<le> cur \<Longrightarrow> cur \<le> length buf \<Longrightarrow> wf_value (VMap m) \<Longrightarrow>
    ensures (decode_entries step buf n cur m prev)
      (\<lambda>(m', c). cur \<le> c \<and> c \<le> length buf \<and> wf_value (VMap m'))"
proof (induction n arbitrary: cur m prev)
  case 0
  then show ?case by (simp add: ensures_Ok del: wf_value.simps)
next
  case (Suc n)
  let ?Q = "\<lambda>(m', c). cur \<le> c \<and> c \<le> length buf \<and> wf_value (VMap m')"
  have tail: "ensures (and_then (step c) (\<lambda>(v, d). decode_entries step buf n d (bt_insert s v m) p)) ?Q"
    if key: "read_ok buf cur (VString s, c)" for s c p
  proof (rule ensures_and_then [OF sound_stepD [OF assms]])
    show "lo \<le> c" "c \<le> length buf"
      using key Suc.prems by (simp_all add: read_ok_def)
    fix vd
    assume vd: "read_ok buf c vd"
    obtain v d where vd': "vd = (v, d)" by (cases vd)
    have "ensures (decode_entries step buf n d (bt_insert s v m) p)
        (\<lambda>(m', c). d \<le> c \<and> c \<le> length buf \<and> wf_value (VMap m'))"
      by (rule Suc.IH)
        (use key vd Suc.prems in \<open>simp_all add: vd' read_ok_def wf_VMap_insert del: wf_value.simps(3)\<close>)
    then show "ensures (case vd of (v, d) \<Rightarrow> decode_entries step buf n d (bt_insert s v m) p) ?Q"
      unfolding vd' prod.case
      by (rule ensures_mono) (use key vd in \<open>auto simp: vd' read_ok_def simp del: wf_value.simps(3)\<close>)
  qed
  show ?case
    unfolding decode_entries.simps
  proof (intro ensures_and_then [OF sound_stepD [OF assms Suc.prems(1,2)]] ensures_pair)
    fix kc key c
    assume "read_ok buf cur kc" and "kc = (key, c)"
    then show "ensures (case key of VString s \<Rightarrow>
        (let kb = take (c - cur) (drop cur buf) in
         if (case prev of None \<Rightarrow> False | Some p \<Rightarrow> kb \<le> p)
         then Err (InvalidInput ''decode: map keys not in strict canonical order'')
         else and_then (step c) (\<lambda>(v, d). decode_entries step buf n d (bt_insert s v m) (Some kb)))
      | _ \<Rightarrow> Err (InvalidInput ''decode: map key is not String'')) ?Q"
      using tail by (cases key) (simp_all add: ensures_Err Let_def del: wf_value.simps)
  qed
qed

lemma read_varint_loop_bounds:
  "ensures (read_varint_loop k buf cur acc s) (\<lambda>(n, c). cur < c \<and> c \<le> length buf)"
proof (induction k arbitrary: cur acc s)
  case 0
  then show ?case by (simp add: ensures_Err)
next
  case (Suc k)
  show ?case
    unfolding read_varint_loop.simps Let_def
    by (intro ensures_intros ensures_Ok ensures_mono [OF Suc.IH]) auto
qed

lemma read_varint_bounds:
  "ensures (read_varint buf cur) (\<lambda>(n, c). cur < c \<and> c \<le> length buf)"
  unfolding read_varint_def by (rule read_varint_loop_bounds)

lemma take_payload_bounds:
  "ensures (take_payload buf c n msg)
    (\<lambda>raw. raw = take (unat n) (drop c buf) \<and> c + unat n \<le> length buf)"
  by (simp add: take_payload_def ensures_def)

lemma sound_decode_into: "length buf < f + lo \<Longrightarrow> sound_step (decode_into f buf) buf lo"
proof (induction f arbitrary: lo)
  case 0
  then show ?case by (auto simp: sound_step_def)
next
  case (Suc f)
  have "ensures (decode_into (Suc f) buf cur) (read_ok buf cur)" if "lo \<le> cur" for cur
  proof -
    have sound: "sound_step (decode_into f buf) buf (Suc cur)"
      using Suc.IH [of "Suc cur"] Suc.prems that by simp
    show ?thesis
      unfolding decode_into.simps Let_def
      by (intro ensures_intros ensures_Ok ensures_and_then [OF read_varint_bounds]
          ensures_and_then [OF take_payload_bounds] ensures_and_then [OF sound_items [OF sound]]
          ensures_and_then [OF sound_entries [OF sound]])
        (auto simp: read_ok_def str_ok_def simp del: wf_value.simps(3), simp_all)
  qed
  then show ?case
    by (simp add: sound_step_def del: decode_into.simps)
qed

lemma sound_decode: "ensures (decode buf) wf_value"
proof -
  have "sound_step (decode_into (Suc (length buf)) buf) buf 0"
    by (rule sound_decode_into) simp
  then show ?thesis
    unfolding decode_def
    by (intro ensures_and_then [OF sound_stepD] ensures_pair ensures_if ensures_Err ensures_Ok)
      (auto simp: read_ok_def)
qed

lemma decode_wf [wf_intros]: "decode buf = Ok v \<Longrightarrow> wf_value v"
  by (rule ensuresD [OF sound_decode])

section \<open>Fields of a map\<close>

definition map_get_string :: "vmap \<Rightarrow> string \<Rightarrow> (string, cb_error) result" where
  "map_get_string m key =
     (case bt_get m key of
        Some (VString x) \<Rightarrow> Ok x
      | Some _ \<Rightarrow> Err (InvalidInput ''map_get_string: not a String'')
      | None \<Rightarrow> Err (InvalidInput ''map_get_string: missing key''))"

definition map_get_uint :: "vmap \<Rightarrow> string \<Rightarrow> (u64, cb_error) result" where
  "map_get_uint m key =
     (case bt_get m key of
        Some (VUint x) \<Rightarrow> Ok x
      | Some _ \<Rightarrow> Err (InvalidInput ''map_get_uint: not a Uint'')
      | None \<Rightarrow> Err (InvalidInput ''map_get_uint: missing key''))"

definition map_get_bytes :: "vmap \<Rightarrow> string \<Rightarrow> (bytes, cb_error) result" where
  "map_get_bytes m key =
     (case bt_get m key of
        Some (VBytes x) \<Rightarrow> Ok x
      | Some _ \<Rightarrow> Err (InvalidInput ''map_get_bytes: not a Bytes'')
      | None \<Rightarrow> Err (InvalidInput ''map_get_bytes: missing key''))"

definition map_get_map :: "vmap \<Rightarrow> string \<Rightarrow> (vmap, cb_error) result" where
  "map_get_map m key =
     (case bt_get m key of
        Some (VMap x) \<Rightarrow> Ok x
      | Some _ \<Rightarrow> Err (InvalidInput ''map_get_map: not a Map'')
      | None \<Rightarrow> Err (InvalidInput ''map_get_map: missing key''))"

definition map_get_array :: "vmap \<Rightarrow> string \<Rightarrow> (Value list, cb_error) result" where
  "map_get_array m key =
     (case bt_get m key of
        Some (VArray x) \<Rightarrow> Ok x
      | Some _ \<Rightarrow> Err (InvalidInput ''map_get_array: not an Array'')
      | None \<Rightarrow> Err (InvalidInput ''map_get_array: missing key''))"

definition map_get_bool :: "vmap \<Rightarrow> string \<Rightarrow> (bool, cb_error) result" where
  "map_get_bool m key =
     (case bt_get m key of
        Some (VBool x) \<Rightarrow> Ok x
      | Some _ \<Rightarrow> Err (InvalidInput ''map_get_bool: not a Bool'')
      | None \<Rightarrow> Err (InvalidInput ''map_get_bool: missing key''))"

lemma wf_VMap_of:
  "(\<And>k v. (k, v) \<in> set kvs \<Longrightarrow> str_ok k \<and> wf_value v) \<Longrightarrow> wf_value (VMap (bt_of kvs))"
  using set_bt_of [of kvs] by auto

lemma map_get_not_Abort [simp]:
  "map_get_string m key \<noteq> Abort a" "map_get_uint m key \<noteq> Abort a" "map_get_bytes m key \<noteq> Abort a"
  "map_get_map m key \<noteq> Abort a" "map_get_array m key \<noteq> Abort a" "map_get_bool m key \<noteq> Abort a"
  by (auto simp: map_get_string_def map_get_uint_def map_get_bytes_def map_get_map_def
      map_get_array_def map_get_bool_def split: option.splits Value.splits)

lemma map_get_Ok_iff [simp]:
  "map_get_string m key = Ok s \<longleftrightarrow> bt_get m key = Some (VString s)"
  "map_get_uint m key = Ok u \<longleftrightarrow> bt_get m key = Some (VUint u)"
  "map_get_bytes m key = Ok bs \<longleftrightarrow> bt_get m key = Some (VBytes bs)"
  "map_get_map m key = Ok em \<longleftrightarrow> bt_get m key = Some (VMap em)"
  "map_get_array m key = Ok vs \<longleftrightarrow> bt_get m key = Some (VArray vs)"
  "map_get_bool m key = Ok b \<longleftrightarrow> bt_get m key = Some (VBool b)"
  by (auto simp: map_get_string_def map_get_uint_def map_get_bytes_def map_get_map_def
      map_get_array_def map_get_bool_def split: option.splits Value.splits)

section \<open>Properties\<close>

text \<open>
  C12. Encoding is total and decoding inverts it: every well-formed value whose encoding is
  shorter than the largest Rust allocation decodes from its own bytes to itself.
\<close>

theorem decode_encode:
  assumes "wf_value v" and "length (encode_into v) < 2 ^ 63"
  shows "and_then (encode v) decode = Ok v"
  using decode_encode_into [OF assms] by (simp add: encode_def)

lemma decode_encode_witness:
  "and_then (encode (VMap [(''a'', VArray [VBool True, VString ''x'']), (''bb'', VUint 7)])) decode =
    Ok (VMap [(''a'', VArray [VBool True, VString ''x'']), (''bb'', VUint 7)])"
  by (rule decode_encode) code_simp+



text \<open>
  A string or byte string that claims a length which overflows \<^verbatim>\<open>usize\<close> when added to the
  cursor is not answered with an error: the decoder panics on it.
\<close>

lemma decode_panics_on_huge_length:
  assumes "t = TAG_STRING \<or> t = TAG_BYTES"
    and "2 ^ 64 \<le> Suc (length (write_varint n)) + unat n"
  shows "decode (t # write_varint n @ post) = Abort Panicked"
proof -
  have "read_varint (t # write_varint n @ post) (Suc 0) = Ok (n, Suc (length (write_varint n)))"
    using read_varint_write [of "[t]" n post] by simp
  then show ?thesis
    using assms by (auto simp: decode_def decode_into.simps(2) take_payload_def wire_simps)
qed

text \<open>
  The decoder accepts more than the encoder writes. A byte string of fewer than 128 bytes
  has a second encoding, one byte longer, that decodes to the same value; and a map may carry one
  key twice, spelt with two varints, where the later entry wins silently.
\<close>

lemma decode_accepts_padded_varint:
  assumes "length b < 128"
  shows "decode (TAG_BYTES # (word_of_nat (length b) OR 0x80) # 0 # b) = Ok (VBytes b) \<and>
    TAG_BYTES # (word_of_nat (length b) OR 0x80) # 0 # b \<noteq> encode_into (VBytes b) \<and>
    decode [0x31, 2, 0x20, 1, 0x61, 0x01, 1, 0x20, 0x81, 0, 0x61, 0x01, 0] =
      Ok (VMap [(''a'', VBool False)])"
proof (intro conjI)
  let ?n = "word_of_nat (length b) :: u64"
  have n2: "unat ?n = length b"
    by (rule unat_of_short_length) (use assms in simp)
  then have "\<not> 0x80 \<le> ?n"
    using assms by (simp add: word_le_nat_alt)
  note n = this n2
  have "(word_of_nat (length b) :: u8) = ucast ?n"
    using assms n2 by (simp add: word_unat_eq_iff unsigned_ucast_eq take_bit_eq_mod unat_of_nat)
  note byte = this varint_byte_last [OF n(1)]
  have hi: "(ucast ?n OR 0x80 :: u8) AND 0x80 = 0x80"
    using varint_byte_more [of "ucast ?n"] by (simp only: byte)
  have lo: "(ucast ?n OR 0x80 :: u8) AND 0x7f = ucast ?n"
    using byte(3) by (simp add: bit.conj_disj_distrib2)
  have "read_varint (TAG_BYTES # (ucast ?n OR 0x80) # 0 # b) (Suc 0) = Ok (?n, 3)"
  proof -
    have "(10 :: nat) = Suc (Suc 8)"
      by simp
    then show ?thesis
      unfolding read_varint_def by (simp only: read_varint_loop.simps) (simp add: hi lo byte(4))
  qed
  then show "decode (TAG_BYTES # (word_of_nat (length b) OR 0x80) # 0 # b) = Ok (VBytes b)"
    using assms by (simp add: decode_def decode_into.simps(2) take_payload_def wire_simps byte(1))
  have "length (encode_into (VBytes b)) = length b + 2"
    using n by (simp add: write_varint.simps)
  then show "TAG_BYTES # (word_of_nat (length b) OR 0x80) # 0 # b \<noteq> encode_into (VBytes b)"
    by (metis length_Cons add_2_eq_Suc' n_not_Suc_n)
  show "decode [0x31, 2, 0x20, 1, 0x61, 0x01, 1, 0x20, 0x81, 0, 0x61, 0x01, 0] =
      Ok (VMap [(''a'', VBool False)])"
    by code_simp
qed

end
