(* ===== verification/Crypto.thy ===== *)
theory Crypto
  imports Prelude
begin

text \<open>
  The cryptographic wrappers, \<^verbatim>\<open>kernel/shared/src/crypto.rs\<close>, and the sealed derivation of
  operator tokens, \<^verbatim>\<open>kernel/shared/src/sealed_derive.rs\<close>. BLAKE3, HMAC-SHA256 and Ed25519
  come from third-party crates and are parameters: \<open>H\<close> hashes bytes, \<open>mac\<close> keys and hashes
  them, \<open>point_ok\<close> says whether 32 bytes are a compressed curve point, \<open>check_sig\<close> whether a
  signature verifies. What the code adds is how it builds their inputs and reports failures.
\<close>

section \<open>Errors and hashes\<close>

datatype crypto_error =
    HmacEmptyKey
  | HmacInvalid
  | SignatureInvalid
  | PublicKeyMalformed string
  | SignatureMalformed string
  | PrivateKeyMalformed string

type_synonym hash_fn = "bytes \<Rightarrow> arr32"
type_synonym mac_fn = "bytes \<Rightarrow> bytes \<Rightarrow> arr32"

definition hex_digit :: "nat \<Rightarrow> char" where
  "hex_digit n = (if n < 10 then char_of (48 + n) else char_of (87 + n))"

definition hex_byte :: "u8 \<Rightarrow> string" where
  "hex_byte b = [hex_digit (unat b div 16), hex_digit (unat b mod 16)]"

definition to_hex :: "arr32 \<Rightarrow> string" where
  "to_hex h = concat (map hex_byte (arr32_bytes h))"

text \<open>The bytes that \<^verbatim>\<open>merkle_hash\<close> feeds to the hasher, in order.\<close>

definition merkle_input :: "arr32 list \<Rightarrow> bytes \<Rightarrow> bytes" where
  "merkle_input parents content =
     u64_bytes (word_of_nat (length parents)) @ concat (map arr32_bytes parents) @ content"

definition merkle_hash :: "hash_fn \<Rightarrow> arr32 list \<Rightarrow> bytes \<Rightarrow> arr32" where
  "merkle_hash H parents content = H (merkle_input parents content)"

section \<open>HMAC and signatures\<close>

definition hmac_sign :: "mac_fn \<Rightarrow> bytes \<Rightarrow> bytes \<Rightarrow> (arr32, crypto_error) result" where
  "hmac_sign mac key msg = (if key = [] then Err HmacEmptyKey else Ok (mac key msg))"

definition hmac_verify :: "mac_fn \<Rightarrow> bytes \<Rightarrow> bytes \<Rightarrow> arr32 \<Rightarrow> (unit, crypto_error) result" where
  "hmac_verify mac key msg tag =
     (if key = [] then Err HmacEmptyKey
      else if mac key msg = tag then Ok () else Err HmacInvalid)"

definition public_key_from_slice ::
    "(arr32 \<Rightarrow> bool) \<Rightarrow> bytes \<Rightarrow> (arr32, crypto_error) result" where
  "public_key_from_slice point_ok bs =
     (if length bs \<noteq> 32 then Err (PublicKeyMalformed ''expected 32 bytes'')
      else if \<not> point_ok (word_of_be bs) then Err (PublicKeyMalformed ''invalid point'')
      else Ok (word_of_be bs))"

definition signature_from_slice :: "bytes \<Rightarrow> (arr64, crypto_error) result" where
  "signature_from_slice bs =
     (if length bs \<noteq> 64 then Err (SignatureMalformed ''expected 64 bytes'')
      else Ok (word_of_be bs))"

definition private_key_from_slice :: "bytes \<Rightarrow> (arr32, crypto_error) result" where
  "private_key_from_slice bs =
     (if length bs \<noteq> 32 then Err (PrivateKeyMalformed ''expected 32 bytes'')
      else Ok (word_of_be bs))"

definition verify_signature ::
    "(arr32 \<Rightarrow> bool) \<Rightarrow> (arr32 \<Rightarrow> bytes \<Rightarrow> arr64 \<Rightarrow> bool) \<Rightarrow> bytes \<Rightarrow> bytes \<Rightarrow> bytes \<Rightarrow>
      (unit, crypto_error) result" where
  "verify_signature point_ok check_sig public_key signature message =
     (if length public_key \<noteq> 32 then Err (PublicKeyMalformed ''expected 32 bytes'')
      else if length signature \<noteq> 64 then Err (SignatureMalformed ''expected 64 bytes'')
      else if \<not> point_ok (word_of_be public_key) then Err (PublicKeyMalformed ''invalid point'')
      else if check_sig (word_of_be public_key) message (word_of_be signature) then Ok ()
      else Err SignatureInvalid)"

section \<open>Sealed derivation\<close>

datatype sealed_derive_error =
    BackendUnavailable string
  | NotInitialized
  | BackendError string

text \<open>
  The trait's \<^verbatim>\<open>derive\<close> maps a nonce, a cycle and kernel randomness to a token; the
  software stub holds the secret in memory.
\<close>

type_synonym sealed_derive = "bytes \<Rightarrow> u64 \<Rightarrow> bytes \<Rightarrow> (arr32, sealed_derive_error) result"

record software_stub =
  substrate_secret :: arr32

definition new_for_test :: software_stub where
  "new_for_test = \<lparr>substrate_secret = word_of_be (replicate 32 0x42)\<rparr>"

definition derive_input :: "arr32 \<Rightarrow> bytes \<Rightarrow> u64 \<Rightarrow> bytes \<Rightarrow> bytes" where
  "derive_input secret nonce cycle random = arr32_bytes secret @ nonce @ u64_bytes cycle @ random"

definition stub_derive :: "hash_fn \<Rightarrow> software_stub \<Rightarrow> sealed_derive" where
  "stub_derive H stub nonce cycle random =
     Ok (H (derive_input (substrate_secret stub) nonce cycle random))"

section \<open>Lemmas\<close>

lemma append_eq_prefix: "length a = length b \<Longrightarrow> a @ x = b @ y \<longleftrightarrow> a = b \<and> x = y"
  by simp

lemma concat_arr32_inject:
  "length ps = length qs \<Longrightarrow>
    concat (map arr32_bytes ps) @ x = concat (map arr32_bytes qs) @ y \<longleftrightarrow> ps = qs \<and> x = y"
  by (induction ps qs rule: list_induct2) (auto simp: append_eq_prefix)

lemma merkle_input_inject:
  assumes "length ps < 2 ^ 64" and "length qs < 2 ^ 64"
  shows "merkle_input ps c = merkle_input qs d \<longleftrightarrow> ps = qs \<and> c = d"
  using assms concat_arr32_inject [of ps qs c d]
  by (auto simp: merkle_input_def append_eq_prefix u64_of_length_inject)

lemma merkle_hash_inj_on:
  assumes "inj_on H (merkle_input ps ` A)" and "length ps < 2 ^ 64"
  shows "inj_on (merkle_hash H ps) A"
proof (rule inj_onI)
  fix c d
  assume cd: "c \<in> A" "d \<in> A" "merkle_hash H ps c = merkle_hash H ps d"
  then have "merkle_input ps c = merkle_input ps d"
    by (intro inj_onD [OF assms(1)]) (simp_all add: merkle_hash_def)
  then show "c = d"
    using merkle_input_inject [OF assms(2,2)] by simp
qed

lemma of_char_hex_digit:
  "n < 16 \<Longrightarrow> of_char (hex_digit n) = (if n < 10 then 48 + n else 87 + n :: nat)"
  by (simp add: hex_digit_def)

lemma hex_digit_inject:
  assumes "m < 16" and "n < 16"
  shows "hex_digit m = hex_digit n \<longleftrightarrow> m = n"
proof
  assume "hex_digit m = hex_digit n"
  then have "(of_char (hex_digit m) :: nat) = of_char (hex_digit n)"
    by (rule arg_cong)
  then have "(if m < 10 then 48 + m else 87 + m) = (if n < 10 then 48 + n else 87 + n)"
    by (simp only: of_char_hex_digit [OF assms(1)] of_char_hex_digit [OF assms(2)])
  then show "m = n"
    by (simp split: if_splits)
qed simp

lemma hex_byte_inject: "hex_byte a = hex_byte b \<longleftrightarrow> a = b"
proof
  assume "hex_byte a = hex_byte b"
  moreover have "unat x div 16 < 16" "unat x mod 16 < 16" for x :: u8
    using unat_bound [of x] by simp_all
  ultimately have "unat a div 16 = unat b div 16" "unat a mod 16 = unat b mod 16"
    by (simp_all add: hex_byte_def hex_digit_inject)
  then have "unat a = unat b"
    by (metis div_mult_mod_eq)
  then show "a = b"
    by (simp add: word_unat_eq_iff)
qed simp

lemma length_hex_byte [simp]: "length (hex_byte b) = 2"
  by (simp add: hex_byte_def)

lemma concat_hex_inject:
  "length xs = length ys \<Longrightarrow> concat (map hex_byte xs) = concat (map hex_byte ys) \<longleftrightarrow> xs = ys"
  by (induction xs ys rule: list_induct2) (auto simp: append_eq_prefix hex_byte_inject)

lemma length_concat_hex [simp]: "length (concat (map hex_byte xs)) = 2 * length xs"
  by (induction xs) auto

lemma length_to_hex [simp]: "length (to_hex h) = 64"
  by (simp add: to_hex_def)

lemma to_hex_inject [simp]: "to_hex g = to_hex h \<longleftrightarrow> g = h"
  by (simp add: to_hex_def concat_hex_inject)

lemma hmac_verify_Ok_iff [simp]:
  "hmac_verify mac key msg tag = Ok () \<longleftrightarrow> key \<noteq> [] \<and> tag = mac key msg"
  by (auto simp: hmac_verify_def)

lemma hmac_sign_Ok_iff [simp]: "hmac_sign mac key msg = Ok tag \<longleftrightarrow> key \<noteq> [] \<and> tag = mac key msg"
  by (auto simp: hmac_sign_def)

section \<open>Properties\<close>

text \<open>
  The Merkle hash binds parents and content: where BLAKE3 does not collide on the two inputs,
  nodes with equal hashes have the same parents in the same order and the same content. The
  length prefix is what separates a parent's bytes from content.
\<close>

lemma merkle_hash_binding:
  assumes "inj_on H {merkle_input ps c, merkle_input qs d}"
    and "length ps < 2 ^ 64" and "length qs < 2 ^ 64"
    and "merkle_hash H ps c = merkle_hash H qs d"
  shows "ps = qs \<and> c = d"
proof -
  have "merkle_input ps c = merkle_input qs d"
    using assms(4) by (intro inj_onD [OF assms(1)]) (simp_all add: merkle_hash_def)
  then show ?thesis
    using merkle_input_inject [OF assms(2,3)] by blast
qed

end
