(* ===== verification/Dag.thy ===== *)
theory Dag
  imports Canonical_Bytes Crypto
begin

text \<open>
  The causal DAG, \<^verbatim>\<open>kernel/schema/src/dag.rs\<close>: content-addressed insertion with its guards,
  the enumeration since an earlier tip, the integrity checks, and the persisted form. The hash
  map is an association list without repeated keys; \<open>H\<close> is BLAKE3.
\<close>

section \<open>State\<close>

datatype dag_error =
    ParentNotFound arr32
  | HashCollision arr32
  | UnknownPrevTip arr32
  | NodeNotFound arr32
  | RetroEditDetected arr32 arr32
  | EmptyNodeType
  | PersistenceMalformed string

record dag_node =
  node_hash :: arr32
  parent_hashes :: "arr32 list"
  node_type :: string
  created_at_cycle :: u64
  content :: bytes

record dag =
  nodes :: "(arr32 \<times> dag_node) list"
  insertion_order :: "arr32 list"
  tip :: "arr32 option"

definition dag_new :: dag where
  "dag_new = \<lparr>nodes = [], insertion_order = [], tip = None\<rparr>"

definition dag_get :: "dag \<Rightarrow> arr32 \<Rightarrow> dag_node option" where
  "dag_get d h = map_of (nodes d) h"

definition node_count :: "dag \<Rightarrow> nat" where
  "node_count d = length (nodes d)"

section \<open>Operations\<close>

text \<open>The loop that looks each parent up and stops at the first that is missing.\<close>

definition check_parents :: "dag \<Rightarrow> arr32 list \<Rightarrow> (unit, dag_error) result" where
  "check_parents d ps =
     try_each (\<lambda>ph. if dag_get d ph = None then Err (ParentNotFound ph) else Ok ()) ps"

definition insert_node ::
    "hash_fn \<Rightarrow> arr32 list \<Rightarrow> string \<Rightarrow> u64 \<Rightarrow> bytes \<Rightarrow> dag \<Rightarrow> dag \<times> (arr32, dag_error) result" where
  "insert_node H parents ty cycle c d =
     (if ty = [] then (d, Err EmptyNodeType)
      else case check_parents d parents of
        Err e \<Rightarrow> (d, Err e)
      | Abort x \<Rightarrow> (d, Abort x)
      | Ok _ \<Rightarrow>
          (let h = merkle_hash H parents c in
           case dag_get d h of
             Some existing \<Rightarrow>
               if parent_hashes existing = parents \<and> content existing = c then (d, Ok h)
               else (d, Err (HashCollision h))
           | None \<Rightarrow>
               (d\<lparr>nodes := nodes d @
                    [(h, \<lparr>node_hash = h, parent_hashes = parents, node_type = ty,
                          created_at_cycle = cycle, content = c\<rparr>)],
                  insertion_order := insertion_order d @ [h],
                  tip := Some h\<rparr>,
                Ok h)))"

definition enumerate_since :: "dag \<Rightarrow> arr32 option \<Rightarrow> (arr32 list, dag_error) result" where
  "enumerate_since d prev_tip =
     (case prev_tip of
        None \<Rightarrow> Ok (insertion_order d)
      | Some t \<Rightarrow>
          (case position (\<lambda>h. h = t) (insertion_order d) of
             None \<Rightarrow> Err (UnknownPrevTip t)
           | Some pos \<Rightarrow> Ok (drop (pos + 1) (insertion_order d))))"

definition verify_node_hash :: "hash_fn \<Rightarrow> dag \<Rightarrow> arr32 \<Rightarrow> (unit, dag_error) result" where
  "verify_node_hash H d h =
     (case dag_get d h of
        None \<Rightarrow> Err (NodeNotFound h)
      | Some node \<Rightarrow>
          (let recomputed = merkle_hash H (parent_hashes node) (content node) in
           if recomputed \<noteq> node_hash node then Err (RetroEditDetected (node_hash node) recomputed)
           else Ok ()))"

definition verify_all :: "hash_fn \<Rightarrow> dag \<Rightarrow> (unit, dag_error) result" where
  "verify_all H d = try_each (verify_node_hash H d) (insertion_order d)"

definition iter_in_insertion_order :: "dag \<Rightarrow> dag_node list" where
  "iter_in_insertion_order d = List.map_filter (dag_get d) (insertion_order d)"

section \<open>The invariant\<close>

text \<open>
  Nodes are stored under their own Merkle hash, once each, in insertion order; every parent was
  inserted before its child; and the tip is the last node inserted.
\<close>

definition node_ok :: "hash_fn \<Rightarrow> arr32 list \<Rightarrow> arr32 \<times> dag_node \<Rightarrow> bool" where
  "node_ok H earlier hn \<longleftrightarrow>
     node_hash (snd hn) = fst hn \<and>
     fst hn = merkle_hash H (parent_hashes (snd hn)) (content (snd hn)) \<and>
     node_type (snd hn) \<noteq> [] \<and> set (parent_hashes (snd hn)) \<subseteq> set earlier"

definition dag_inv :: "hash_fn \<Rightarrow> dag \<Rightarrow> bool" where
  "dag_inv H d \<longleftrightarrow>
     insertion_order d = map fst (nodes d) \<and> distinct (map fst (nodes d)) \<and>
     (\<forall>i < length (nodes d). node_ok H (take i (map fst (nodes d))) (nodes d ! i)) \<and>
     tip d = (if nodes d = [] then None else Some (fst (last (nodes d))))"

lemma dag_get_None_iff: "dag_get d h = None \<longleftrightarrow> h \<notin> fst ` set (nodes d)"
  by (simp add: dag_get_def map_of_eq_None_iff)

lemma dag_get_append:
  "dag_get (d\<lparr>nodes := nodes d @ [(k, n)], insertion_order := order, tip := t\<rparr>) h =
    (case dag_get d h of None \<Rightarrow> if h = k then Some n else None | Some m \<Rightarrow> Some m)"
  by (simp add: dag_get_def map_add_def split: option.splits)

lemma check_parents_Ok_iff:
  "check_parents d ps = Ok () \<longleftrightarrow> set ps \<subseteq> fst ` set (nodes d)"
  by (auto simp: check_parents_def try_each_Ok_iff dag_get_None_iff)

lemma check_parents_not_Abort [simp]: "check_parents d ps \<noteq> Abort x"
  unfolding check_parents_def by (induction ps) (auto simp: and_then_Abort_iff)

text \<open>The four ways an insertion can go.\<close>

lemma insert_node_cases:
  obtains (empty) "ty = []" "insert_node H ps ty cyc c d = (d, Err EmptyNodeType)"
  | (parent) e where "ty \<noteq> []" "check_parents d ps = Err e" "insert_node H ps ty cyc c d = (d, Err e)"
  | (present) n where "ty \<noteq> []" "check_parents d ps = Ok ()"
      "dag_get d (merkle_hash H ps c) = Some n"
      "insert_node H ps ty cyc c d =
        (d, if parent_hashes n = ps \<and> content n = c then Ok (merkle_hash H ps c)
            else Err (HashCollision (merkle_hash H ps c)))"
  | (fresh) "ty \<noteq> []" "check_parents d ps = Ok ()" "dag_get d (merkle_hash H ps c) = None"
      "insert_node H ps ty cyc c d =
        (d\<lparr>nodes := nodes d @
             [(merkle_hash H ps c, \<lparr>node_hash = merkle_hash H ps c, parent_hashes = ps, node_type = ty,
               created_at_cycle = cyc, content = c\<rparr>)],
           insertion_order := insertion_order d @ [merkle_hash H ps c],
           tip := Some (merkle_hash H ps c)\<rparr>, Ok (merkle_hash H ps c))"
  by (cases "ty = []"; cases "check_parents d ps"; cases "dag_get d (merkle_hash H ps c)")
    (auto simp: insert_node_def Let_def)

lemma dag_inv_insert:
  assumes "dag_inv H d"
  shows "dag_inv H (fst (insert_node H ps ty cyc c d))"
proof (cases rule: insert_node_cases [of ty H ps cyc c d])
  case fresh
  have "node_ok H (take i (map fst (nodes d) @ [h])) ((nodes d @ [n]) ! i)"
    if "i < length (nodes d)" for i h n
    using that assms by (simp add: dag_inv_def nth_append)
  moreover have "set ps \<subseteq> fst ` set (nodes d)" "merkle_hash H ps c \<notin> fst ` set (nodes d)"
    using fresh by (simp_all add: check_parents_Ok_iff dag_get_None_iff)
  ultimately show ?thesis
    using fresh assms
    by (auto simp: dag_inv_def node_ok_def nth_append less_Suc_eq)
qed (use assms in simp_all)

type_synonym dag_op = "arr32 list \<times> string \<times> u64 \<times> bytes"

fun dag_step :: "hash_fn \<Rightarrow> dag \<Rightarrow> dag_op \<Rightarrow> dag \<times> (arr32, dag_error) result" where
  "dag_step H d (ps, ty, cyc, c) = insert_node H ps ty cyc c d"

interpretation dag: guarded_machine dag_new "dag_step H" "dag_inv H" for H
proof
  show "dag_inv H dag_new"
    by (simp add: dag_inv_def dag_new_def)
  show "dag_inv H (fst (dag_step H d op))" if "dag_inv H d" for d op
    using that by (cases op) (simp add: dag_inv_insert)
  show "fst (dag_step H d op) = d" if "\<not> is_ok (snd (dag_step H d op))" for d op
  proof (cases op)
    case (fields ps ty cyc c)
    show ?thesis
      using that unfolding fields by (cases rule: insert_node_cases [of ty H ps cyc c d]) simp_all
  qed
qed

section \<open>Integrity\<close>

lemma dag_get_Some_iff: "dag_inv H d \<Longrightarrow> dag_get d h = Some n \<longleftrightarrow> (h, n) \<in> set (nodes d)"
  by (simp add: dag_get_def dag_inv_def)

lemma dag_inv_node:
  assumes "dag_inv H d" and "dag_get d h = Some n"
  shows "node_hash n = h" and "h = merkle_hash H (parent_hashes n) (content n)" and "node_type n \<noteq> []"
proof -
  obtain i where "i < length (nodes d)" "nodes d ! i = (h, n)"
    using assms by (auto simp: dag_get_Some_iff in_set_conv_nth)
  then show "node_hash n = h" and "h = merkle_hash H (parent_hashes n) (content n)" and "node_type n \<noteq> []"
    using assms(1) by (auto simp: dag_inv_def node_ok_def)
qed

lemma verify_node_hash_Ok: "dag_inv H d \<Longrightarrow> dag_get d h \<noteq> None \<Longrightarrow> verify_node_hash H d h = Ok ()"
  using dag_inv_node [of H d h] by (auto simp: verify_node_hash_def)

lemma dag_inv_order:
  "dag_inv H d \<Longrightarrow> set (insertion_order d) = {h. dag_get d h \<noteq> None}"
  by (auto simp: dag_inv_def dag_get_None_iff)

lemma verify_all_Ok: "dag_inv H d \<Longrightarrow> verify_all H d = Ok ()"
  by (simp add: verify_all_def try_each_Ok_iff dag_inv_order verify_node_hash_Ok)

text \<open>The walk in insertion order visits the stored nodes.\<close>

lemma iter_nodes:
  assumes "dag_inv H d"
  shows "iter_in_insertion_order d = map snd (nodes d)"
proof -
  have "List.map_filter (dag_get d) (map fst kns) = map snd kns" if "set kns \<subseteq> set (nodes d)" for kns
    using that
  proof (induction kns)
    case (Cons kn kns)
    obtain k n where kn: "kn = (k, n)" by (cases kn)
    then have "dag_get d k = Some n"
      using Cons.prems dag_get_Some_iff [OF assms] by simp
    with Cons kn show ?case by (simp add: List.map_filter_simps)
  qed (simp add: List.map_filter_simps)
  then show ?thesis
    using assms by (simp add: iter_in_insertion_order_def dag_inv_def)
qed

lemma iter_hashes:
  assumes "dag_inv H d"
  shows "map node_hash (iter_in_insertion_order d) = map fst (nodes d)"
proof -
  have "node_hash n = k" if "(k, n) \<in> set (nodes d)" for k n
    using dag_inv_node(1) [OF assms] dag_get_Some_iff [OF assms] that by blast
  then show ?thesis
    by (auto simp: iter_nodes [OF assms])
qed

text \<open>No stored node names the tip as a parent, so a node that does is new.\<close>

lemma tip_has_no_child:
  assumes inv: "dag_inv H d" and n: "dag_get d h = Some n" and t: "tip d = Some t"
  shows "t \<notin> set (parent_hashes n)"
proof -
  let ?hs = "map fst (nodes d)"
  obtain i where i: "i < length (nodes d)" "nodes d ! i = (h, n)"
    using inv n by (auto simp: dag_get_Some_iff in_set_conv_nth)
  have "set (parent_hashes n) \<subseteq> set (take i ?hs)"
    using inv i by (force simp: dag_inv_def node_ok_def)
  moreover have last: "t = ?hs ! (length ?hs - 1)"
    using inv t i(1) by (auto simp: dag_inv_def last_conv_nth split: if_splits)
  have "?hs ! (length ?hs - 1) \<notin> set (take i ?hs)"
  proof
    assume "?hs ! (length ?hs - 1) \<in> set (take i ?hs)"
    then obtain j where "j < i" "?hs ! j = ?hs ! (length ?hs - 1)"
      by (auto simp: in_set_conv_nth)
    then show False
      using inv i(1) nth_eq_iff_index_eq [of ?hs j "length ?hs - 1"] by (simp add: dag_inv_def)
  qed
  ultimately show ?thesis
    by (auto simp: last)
qed

lemma tip_last_node:
  assumes "dag_inv H d" and "iter_in_insertion_order d \<noteq> []"
  shows "tip d = Some (node_hash (last (iter_in_insertion_order d)))"
proof -
  have "nodes d \<noteq> []"
    using assms iter_nodes [OF assms(1)] by simp
  moreover have "last (map node_hash (iter_in_insertion_order d)) = last (map fst (nodes d))"
    by (simp only: iter_hashes [OF assms(1)])
  ultimately show ?thesis
    using assms by (simp add: dag_inv_def last_map)
qed

lemma iter_distinct: "dag_inv H d \<Longrightarrow> distinct (map node_hash (iter_in_insertion_order d))"
  using iter_hashes by (metis dag_inv_def)

text \<open>A stored node whose content is overwritten while its key and recorded hash stay.\<close>

definition overwrite :: "arr32 \<Rightarrow> bytes \<Rightarrow> dag \<Rightarrow> dag" where
  "overwrite h c d =
     d\<lparr>nodes := map (\<lambda>(k, n). (k, if k = h then n\<lparr>content := c\<rparr> else n)) (nodes d)\<rparr>"

lemma dag_get_overwrite:
  "dag_get (overwrite h c d) k =
    map_option (\<lambda>n. if k = h then n\<lparr>content := c\<rparr> else n) (dag_get d k)"
proof -
  have "map_of (map (\<lambda>(k, n). (k, if k = h then n\<lparr>content := c\<rparr> else n)) kns) k =
      map_option (\<lambda>n. if k = h then n\<lparr>content := c\<rparr> else n) (map_of kns k)" for kns
    by (induction kns) auto
  then show ?thesis
    by (simp add: dag_get_def overwrite_def)
qed

section \<open>Growth\<close>

lemma insert_node_order:
  "\<exists>new. insertion_order (fst (insert_node H ps ty cyc c d)) = insertion_order d @ new"
  by (cases rule: insert_node_cases [of ty H ps cyc c d]) simp_all

lemma run_order:
  "\<exists>new. insertion_order (run_ops (dag_step H) d ops) = insertion_order d @ new"
proof (induction ops arbitrary: d)
  case (Cons op ops)
  obtain ps ty cyc c where op: "op = (ps, ty, cyc, c)" by (cases op)
  obtain new where "insertion_order (fst (dag_step H d op)) = insertion_order d @ new"
    using insert_node_order [of H ps ty cyc c d] by (auto simp: op)
  then show ?case
    using Cons.IH [of "fst (dag_step H d op)"] by auto
qed simp

lemma position_last: "distinct (xs @ ys) \<Longrightarrow> xs \<noteq> [] \<Longrightarrow>
  position (\<lambda>h. h = last xs) (xs @ ys) = Some (length xs - 1)"
proof -
  assume d: "distinct (xs @ ys)" and "xs \<noteq> []"
  then obtain zs z where xs: "xs = zs @ [z]"
    by (cases xs rule: rev_cases) auto
  have "position (\<lambda>h. h = z) (zs @ z # ys) = Some (length zs)"
    using d by (intro position_append_first) (auto simp: xs)
  then show ?thesis
    by (simp add: xs)
qed

section \<open>Properties\<close>

text \<open>
  C18. Every sequence of insertions keeps the DAG well-formed: each node is stored once under the
  Merkle hash of its parents and content, parents come before children (so there is no cycle), the
  tip is the last insertion, and the integrity check passes.
\<close>

theorem dag_run_invariant:
  "dag_inv H (run_ops (dag_step H) dag_new ops) \<and>
    verify_all H (run_ops (dag_step H) dag_new ops) = Ok ()"
  using dag.inv_run [of H ops] verify_all_Ok by blast

text \<open>
  Insertion answers with the Merkle hash of parents and content whenever it succeeds, and a
  second insertion of the same parents and content is a no-op that answers with the same hash,
  whatever node type and cycle it carries: those are not part of the node's identity.
\<close>

lemma insert_node_idempotent:
  assumes "dag_inv H d" and "insert_node H ps ty cyc c d = (d', Ok h)" and "ty' \<noteq> []"
  shows "h = merkle_hash H ps c \<and> dag_get d' h \<noteq> None \<and>
    insert_node H ps ty' cyc' c d' = (d', Ok h)"
proof -
  have inv: "dag_inv H d'"
    using dag_inv_insert [OF assms(1), of ps ty cyc c] assms(2) by simp
  have "h = merkle_hash H ps c \<and> check_parents d' ps = Ok () \<and>
      (\<exists>n. dag_get d' h = Some n \<and> parent_hashes n = ps \<and> content n = c)"
  proof (cases rule: insert_node_cases [of ty H ps cyc c d])
    case (present n)
    then show ?thesis
      using assms(2) by (auto split: if_splits)
  next
    case fresh
    then show ?thesis
      using assms(2) by (auto simp: check_parents_Ok_iff dag_get_append)
  qed (use assms(2) in simp_all)
  then show ?thesis
    using assms(3) by (auto simp: insert_node_def Let_def)
qed

text \<open>
  Retro-edits are detected: overwriting the content of any stored node makes both the node's
  own check and the check of the whole DAG fail, where BLAKE3 does not collide on the two contents.
\<close>

lemma retro_edit_detected:
  assumes "dag_inv H d" and "dag_get d h = Some n" and "c \<noteq> content n"
    and "length (parent_hashes n) < 2 ^ 64"
    and "inj_on H {merkle_input (parent_hashes n) (content n), merkle_input (parent_hashes n) c}"
  shows "verify_node_hash H (overwrite h c d) h =
      Err (RetroEditDetected h (merkle_hash H (parent_hashes n) c)) \<and>
    \<not> is_ok (verify_all H (overwrite h c d))"
proof -
  have "merkle_hash H (parent_hashes n) c \<noteq> merkle_hash H (parent_hashes n) (content n)"
    using assms(3,4,5) merkle_input_inject [of "parent_hashes n" "parent_hashes n" c "content n"]
    by (auto simp: merkle_hash_def dest: inj_onD)
  moreover have "dag_get (overwrite h c d) h = Some (n\<lparr>content := c\<rparr>)"
    by (simp add: dag_get_overwrite assms(2))
  ultimately have node: "verify_node_hash H (overwrite h c d) h =
      Err (RetroEditDetected h (merkle_hash H (parent_hashes n) c))"
    using dag_inv_node(1,2) [OF assms(1,2)] by (simp add: verify_node_hash_def Let_def)
  moreover have "h \<in> set (insertion_order (overwrite h c d))"
    using dag_inv_order [OF assms(1)] assms(2) by (simp add: overwrite_def)
  ultimately have "verify_all H (overwrite h c d) \<noteq> Ok ()"
    by (auto simp: verify_all_def try_each_Ok_iff intro!: bexI [of _ h])
  then show ?thesis
    using node by (cases "verify_all H (overwrite h c d)") simp_all
qed

text \<open>
  The enumeration since a tip is exactly what was inserted after it: for any two consecutive
  runs, enumerating from the tip between them gives the hashes the second one added, in order; from
  no tip, all of them.
\<close>

lemma enumerate_since_tip:
  "let d1 = run_ops (dag_step H) dag_new ops1; d2 = run_ops (dag_step H) d1 ops2 in
    enumerate_since d2 (tip d1) = Ok (drop (length (insertion_order d1)) (insertion_order d2)) \<and>
    take (length (insertion_order d1)) (insertion_order d2) = insertion_order d1"
proof -
  let ?d1 = "run_ops (dag_step H) dag_new ops1"
  let ?d2 = "run_ops (dag_step H) ?d1 ops2"
  obtain new where order: "insertion_order ?d2 = insertion_order ?d1 @ new"
    using run_order by blast
  have inv: "dag_inv H ?d1" "dag_inv H ?d2"
    by (rule dag.inv_run, rule dag.inv_from [OF dag.inv_run])
  have "distinct (insertion_order ?d1 @ new)"
    using inv(2) by (simp add: dag_inv_def flip: order)
  moreover have "tip ?d1 = (if insertion_order ?d1 = [] then None else Some (last (insertion_order ?d1)))"
    using inv(1) by (auto simp: dag_inv_def last_map)
  ultimately show ?thesis
    using position_last [of "insertion_order ?d1" new]
    by (simp add: Let_def enumerate_since_def order)
qed

end
