(* ===== verification/Dag_Codec.thy ===== *)
theory Dag_Codec
  imports Dag
begin

text \<open>
  The persisted form of the DAG, \<^verbatim>\<open>to_canonical_bytes\<close> and \<^verbatim>\<open>from_canonical_bytes\<close> of
  \<^verbatim>\<open>kernel/schema/src/dag.rs\<close>. Hashes are not stored: loading inserts the nodes again.
\<close>

section \<open>Writing\<close>

definition DAG_FORMAT_VERSION :: u64 where
  "DAG_FORMAT_VERSION = 1"

definition node_value :: "dag_node \<Rightarrow> Value" where
  "node_value n = VMap (bt_of
     [(''parent_hashes'', VArray (map (\<lambda>h. VBytes (arr32_bytes h)) (parent_hashes n))),
      (''node_type'', VString (node_type n)),
      (''created_at_cycle'', VUint (created_at_cycle n)),
      (''content_canonical_bytes'', VBytes (content n))])"

text \<open>A hash of the insertion order that has no node is a panic.\<close>

definition dag_to_value :: "dag \<Rightarrow> (Value, dag_error) result" where
  "dag_to_value d =
     and_then (traverse (\<lambda>h. case dag_get d h of None \<Rightarrow> Abort Panicked | Some n \<Rightarrow> Ok (node_value n))
       (insertion_order d))
     (\<lambda>vs. Ok (VMap (bt_of
       [(''format_version'', VUint DAG_FORMAT_VERSION), (''nodes'', VArray vs)])))"

definition dag_to_canonical_bytes :: "dag \<Rightarrow> (bytes, dag_error) result" where
  "dag_to_canonical_bytes d = and_then (dag_to_value d) (\<lambda>v. Ok (encode_into v))"

section \<open>Reading\<close>

definition malformed :: "(('a, cb_error) result) \<Rightarrow> ('a, dag_error) result" where
  "malformed r = map_err (\<lambda>e. PersistenceMalformed (cb_display e)) r"

fun read_parent :: "Value \<Rightarrow> (arr32, dag_error) result" where
  "read_parent (VBytes b) =
     (if length b = 32 then Ok (word_of_be b)
      else Err (PersistenceMalformed ''parent_hashes contains non-32-byte entry''))"
| "read_parent _ = Err (PersistenceMalformed ''parent_hashes contains non-32-byte entry'')"

definition read_node_fields :: "vmap \<Rightarrow> (arr32 list \<times> string \<times> u64 \<times> bytes, dag_error) result" where
  "read_node_fields m =
     and_then (malformed (map_get_array m ''parent_hashes'')) (\<lambda>parents.
     and_then (traverse read_parent parents) (\<lambda>ps.
     and_then (malformed (map_get_string m ''node_type'')) (\<lambda>ty.
     and_then (malformed (map_get_uint m ''created_at_cycle'')) (\<lambda>cyc.
     and_then (malformed (map_get_bytes m ''content_canonical_bytes'')) (\<lambda>c.
       Ok (ps, ty, cyc, c))))))"

primrec load_nodes :: "hash_fn \<Rightarrow> Value list \<Rightarrow> dag \<Rightarrow> (dag, dag_error) result" where
  "load_nodes H [] d = Ok d"
| "load_nodes H (v # vs) d =
     (case v of
        VMap m \<Rightarrow>
          and_then (read_node_fields m) (\<lambda>(ps, ty, cyc, c).
            case insert_node H ps ty cyc c d of (d', r) \<Rightarrow>
              and_then r (\<lambda>_. load_nodes H vs d'))
      | _ \<Rightarrow> Err (PersistenceMalformed ''DAG node is not a Map''))"

definition dag_of_map :: "hash_fn \<Rightarrow> vmap \<Rightarrow> (dag option, dag_error) result" where
  "dag_of_map H m =
     and_then (malformed (map_get_uint m ''format_version'')) (\<lambda>version.
       if version \<noteq> DAG_FORMAT_VERSION then Ok None
       else and_then (malformed (map_get_array m ''nodes'')) (\<lambda>vs.
            and_then (load_nodes H vs dag_new) (\<lambda>d. Ok (Some d))))"

definition dag_from_canonical_bytes :: "hash_fn \<Rightarrow> bytes \<Rightarrow> (dag option, dag_error) result" where
  "dag_from_canonical_bytes H bs =
     and_then (map_err (\<lambda>e. PersistenceMalformed (''decode: '' @ cb_display e)) (decode bs)) (\<lambda>v.
       case v of
         VMap m \<Rightarrow> dag_of_map H m
       | _ \<Rightarrow> Err (PersistenceMalformed ''DAG root is not a Map''))"

section \<open>Round trip\<close>

lemma malformed_Ok_iff [simp]: "malformed r = Ok a \<longleftrightarrow> r = Ok a"
  by (simp add: malformed_def)

lemma malformed_Ok [simp]: "malformed (Ok a) = Ok a"
  by simp

definition node_fields :: "dag_node \<Rightarrow> arr32 list \<times> string \<times> u64 \<times> bytes" where
  "node_fields n = (parent_hashes n, node_type n, created_at_cycle n, content n)"

lemma read_parent_bytes: "traverse read_parent (map (\<lambda>h. VBytes (arr32_bytes h)) hs) = Ok hs"
  by (rule traverse_map_Ok) simp

lemma read_node_value:
  "\<exists>m. node_value n = VMap m \<and> read_node_fields m = Ok (node_fields n)"
  by (auto simp: node_value_def read_node_fields_def node_fields_def bt_get_of read_parent_bytes)

lemma wf_node_value: "str_ok (node_type n) \<Longrightarrow> wf_value (node_value n)"
  unfolding node_value_def by (rule wf_VMap_of) auto

text \<open>The DAG after its first \<open>i\<close> insertions.\<close>

definition dag_prefix :: "dag \<Rightarrow> nat \<Rightarrow> dag" where
  "dag_prefix d i =
     \<lparr>nodes = take i (nodes d), insertion_order = take i (insertion_order d),
      tip = (if i = 0 then None else Some (insertion_order d ! (i - 1)))\<rparr>"

lemma insert_into_prefix:
  assumes "dag_inv H d" and "i < length (nodes d)" and "nodes d ! i = (h, n)"
  shows "insert_node H (parent_hashes n) (node_type n) (created_at_cycle n) (content n)
      (dag_prefix d i) = (dag_prefix d (Suc i), Ok h)"
proof -
  let ?p = "dag_prefix d i"
  have inv_node: "node_ok H (take i (map fst (nodes d))) (h, n)"
    using assms by (metis dag_inv_def)
  have ok: "node_hash n = h" "h = merkle_hash H (parent_hashes n) (content n)" "node_type n \<noteq> []"
      "set (parent_hashes n) \<subseteq> set (take i (map fst (nodes d)))"
    using inv_node by (simp_all add: node_ok_def)
  have order: "insertion_order d = map fst (nodes d)" "distinct (map fst (nodes d))"
    using assms(1) by (auto simp: dag_inv_def)
  have "distinct (take i (map fst (nodes d)) @ [h])"
    using order(2) assms(2,3) distinct_take [of "map fst (nodes d)" "Suc i"]
    by (simp add: take_Suc_conv_app_nth)
  then have "dag_get ?p h = None"
    by (simp add: dag_get_None_iff dag_prefix_def take_map image_iff)
  moreover have "check_parents ?p (parent_hashes n) = Ok ()"
    using ok(4) by (simp add: check_parents_Ok_iff dag_prefix_def take_map)
  moreover have "n = \<lparr>node_hash = h, parent_hashes = parent_hashes n, node_type = node_type n,
      created_at_cycle = created_at_cycle n, content = content n\<rparr>"
    using ok(1) by simp
  ultimately show ?thesis
    using assms(2,3) ok(2,3) order(1)
    by (simp add: insert_node_def Let_def dag_prefix_def take_Suc_conv_app_nth)
qed

lemma load_from_prefix:
  assumes "dag_inv H d" and "i \<le> length (nodes d)"
  shows "load_nodes H (map (node_value \<circ> snd) (drop i (nodes d))) (dag_prefix d i) =
    Ok (dag_prefix d (length (nodes d)))"
  using assms(2)
proof (induction i rule: inc_induct)
  case base
  then show ?case by simp
next
  case (step i)
  obtain h n where hn: "nodes d ! i = (h, n)"
    by (cases "nodes d ! i")
  obtain m where m: "node_value n = VMap m" "read_node_fields m = Ok (node_fields n)"
    using read_node_value by blast
  have "drop i (nodes d) = (h, n) # drop (Suc i) (nodes d)"
    using step.hyps(2) hn by (simp flip: Cons_nth_drop_Suc)
  then show ?case
    using step.IH insert_into_prefix [OF assms(1) step.hyps(2) hn]
    by (simp add: m node_fields_def comp_def)
qed

lemma dag_prefix_all: "dag_inv H d \<Longrightarrow> dag_prefix d (length (nodes d)) = d"
  by (auto simp: dag_prefix_def dag_inv_def last_conv_nth)

lemma dag_to_value_inv:
  assumes "dag_inv H d"
  shows "dag_to_value d = Ok (VMap (bt_of [(''format_version'', VUint DAG_FORMAT_VERSION),
    (''nodes'', VArray (map (node_value \<circ> snd) (nodes d)))]))"
proof -
  have "traverse (\<lambda>h. case dag_get d h of None \<Rightarrow> Abort Panicked | Some n \<Rightarrow> Ok (node_value n))
      (map fst kns) = (Ok (map (node_value \<circ> snd) kns) :: (Value list, dag_error) result)"
    if "set kns \<subseteq> set (nodes d)" for kns
    using that
  proof (induction kns)
    case (Cons kn kns)
    then show ?case
      using dag_get_Some_iff [OF assms, of "fst kn" "snd kn"] by (cases kn) simp
  qed simp
  from this [of "nodes d"] show ?thesis
    using assms by (simp add: dag_to_value_def dag_inv_def)
qed

text \<open>A DAG that fits the persisted form: UTF-8 node types and fewer than \<open>2 ^ 63\<close> bytes.\<close>

definition persistable :: "hash_fn \<Rightarrow> dag \<Rightarrow> bool" where
  "persistable H d \<longleftrightarrow> dag_inv H d \<and> (\<forall>hn \<in> set (nodes d). str_ok (node_type (snd hn))) \<and>
     (\<forall>bs. dag_to_canonical_bytes d = Ok bs \<longrightarrow> length bs < 2 ^ 63)"

definition dag_bytes :: "dag \<Rightarrow> bytes" where
  "dag_bytes d = (case dag_to_canonical_bytes d of Ok bs \<Rightarrow> bs | _ \<Rightarrow> [])"

lemma dag_to_canonical_bytes_Ok: "dag_inv H d \<Longrightarrow> dag_to_canonical_bytes d = Ok (dag_bytes d)"
  by (simp add: dag_bytes_def dag_to_canonical_bytes_def dag_to_value_inv)

lemma dag_load_bytes:
  assumes "persistable H d"
  shows "dag_from_canonical_bytes H (dag_bytes d) = Ok (Some d)"
proof -
  have inv: "dag_inv H d"
    using assms by (simp add: persistable_def)
  let ?v = "VMap (bt_of [(''format_version'', VUint DAG_FORMAT_VERSION),
    (''nodes'', VArray (map (node_value \<circ> snd) (nodes d)))])"
  have bytes: "dag_bytes d = encode_into ?v"
    using inv by (simp add: dag_bytes_def dag_to_canonical_bytes_def dag_to_value_inv)
  have "wf_value ?v"
    using assms by (intro wf_VMap_of) (auto simp: persistable_def intro!: wf_node_value)
  moreover have "length (encode_into ?v) < 2 ^ 63"
    using assms dag_to_canonical_bytes_Ok [OF inv] by (simp add: persistable_def bytes)
  ultimately have "decode (dag_bytes d) = Ok ?v"
    unfolding bytes by (rule decode_encode_into)
  moreover have "load_nodes H (map (node_value \<circ> snd) (nodes d)) dag_new = Ok d"
    using load_from_prefix [OF inv, of 0] dag_prefix_all [OF inv]
    by (simp add: dag_prefix_def dag_new_def)
  ultimately show ?thesis
    by (simp add: dag_from_canonical_bytes_def dag_of_map_def bt_get_of)
qed

interpretation dag_codec: codec dag_bytes "dag_from_canonical_bytes H" Some "persistable H" for H
  by unfold_locales (simp_all add: dag_load_bytes)

section \<open>What the bytes do not protect\<close>

text \<open>Node types and cycles rewritten throughout.\<close>

definition relabel :: "(string \<Rightarrow> string) \<Rightarrow> (u64 \<Rightarrow> u64) \<Rightarrow> dag \<Rightarrow> dag" where
  "relabel f g d = d\<lparr>nodes := map (\<lambda>(h, n).
     (h, n\<lparr>node_type := f (node_type n), created_at_cycle := g (created_at_cycle n)\<rparr>)) (nodes d)\<rparr>"

lemma dag_inv_relabel:
  assumes "dag_inv H d" and "\<And>t. f t \<noteq> []"
  shows "dag_inv H (relabel f g d)"
proof -
  have keys: "map fst (nodes (relabel f g d)) = map fst (nodes d)"
    by (simp add: relabel_def split_beta comp_def)
  have "node_ok H (take i (map fst (nodes d))) (nodes (relabel f g d) ! i)" if "i < length (nodes d)" for i
    using assms that by (auto simp: dag_inv_def relabel_def node_ok_def split_beta)
  moreover have "nodes (relabel f g d) = [] \<longleftrightarrow> nodes d = []"
    by (simp add: relabel_def)
  moreover have "nodes d \<noteq> [] \<Longrightarrow> fst (last (nodes (relabel f g d))) = fst (last (nodes d))"
    by (simp add: relabel_def last_map split_beta)
  moreover have "length (nodes (relabel f g d)) = length (nodes d)"
    "insertion_order (relabel f g d) = insertion_order d" "tip (relabel f g d) = tip d"
    by (simp_all add: relabel_def)
  ultimately show ?thesis
    using assms(1) by (simp add: dag_inv_def keys)
qed

section \<open>Properties\<close>

text \<open>
  C19. Persistence round-trips: a well-formed DAG, written and loaded again, is the same DAG in
  the same insertion order with the same tip, every hash recomputed on the way.
\<close>

theorem dag_persistence_round_trip:
  assumes "persistable H d"
  shows "and_then (dag_to_canonical_bytes d) (dag_from_canonical_bytes H) = Ok (Some d)"
  using dag_codec.round_trip [OF assms] dag_to_canonical_bytes_Ok [of H d] assms
  by (simp add: persistable_def)

lemma dag_persistence_round_trip_witness:
  "\<exists>d. nodes d \<noteq> [] \<and> and_then (dag_to_canonical_bytes d)
    (dag_from_canonical_bytes (\<lambda>b. word_of_nat (length b))) = Ok (Some d)"
proof -
  let ?H = "\<lambda>b. word_of_nat (length b) :: arr32"
  let ?d = "fst (insert_node ?H [] ''genesis'' 0 [1] dag_new)"
  have nodes: "nodes ?d = [(9, \<lparr>node_hash = 9, parent_hashes = [], node_type = ''genesis'',
      created_at_cycle = 0, content = [1]\<rparr>)]"
    by (simp add: insert_node_def check_parents_def dag_get_def dag_new_def Let_def
        merkle_hash_def merkle_input_def)
  have inv: "dag_inv ?H ?d"
    by (rule dag_inv_insert [OF dag.inv_init])
  have "length (dag_bytes ?d) < 2 ^ 63"
    unfolding dag_bytes_def dag_to_canonical_bytes_def dag_to_value_inv [OF inv] nodes
    by (simp add: node_value_def bt_of_def encode_into_VMap encode_string_def
        write_varint.simps DAG_FORMAT_VERSION_def tag_defs)
  then have "persistable ?H ?d"
    using inv nodes by (auto simp: persistable_def dag_to_canonical_bytes_Ok [OF inv])
  from dag_persistence_round_trip [OF this] nodes show ?thesis
    by (intro exI [of _ ?d]) simp
qed

text \<open>
  The bytes protect less than the loader's documentation says: node types and cycles can be
  rewritten throughout the persisted DAG, and the result loads without an error, with the same
  hashes and the same tip, and passes the integrity check.
\<close>

lemma persisted_labels_unprotected:
  assumes "dag_inv H d" and "\<And>t. f t \<noteq> [] \<and> str_ok (f t)"
    and "length (dag_bytes (relabel f g d)) < 2 ^ 63"
  shows "dag_from_canonical_bytes H (dag_bytes (relabel f g d)) = Ok (Some (relabel f g d)) \<and>
    verify_all H (relabel f g d) = Ok () \<and>
    insertion_order (relabel f g d) = insertion_order d \<and> tip (relabel f g d) = tip d"
proof -
  have inv: "dag_inv H (relabel f g d)"
    using assms by (intro dag_inv_relabel) simp_all
  moreover have "str_ok (node_type n)" if "(h, n) \<in> set (nodes (relabel f g d))" for h n
    using that assms(2) by (auto simp: relabel_def)
  ultimately have "persistable H (relabel f g d)"
    using assms(3) dag_to_canonical_bytes_Ok [OF inv] by (auto simp: persistable_def)
  then show ?thesis
    using verify_all_Ok [OF inv] by (simp add: dag_load_bytes) (simp add: relabel_def)
qed

end
