(* ===== verification/Ssot.thy ===== *)
theory Ssot
  imports Canonical_Bytes "HOL-Library.AList"
begin

text \<open>
  The single source of truth, \<^verbatim>\<open>kernel/schema/src/ssot.rs\<close>, and the tiered validation over
  it, \<^verbatim>\<open>kernel/schema/src/validation.rs\<close>. The \<^verbatim>\<open>HashMap\<close> of fields is an association
  list without repeated keys whose order stands for the map's unspecified iteration order, so the
  properties are stated independently of it.
\<close>

section \<open>State\<close>

datatype ssot_error =
    EmptyFieldName
  | FieldNotFound string
  | SsotCanonicalBytes cb_error

datatype tier = Tier1 | Tier2

record ssot_field =
  field_name :: string
  field_tier :: tier
  field_value :: Value

record ssot =
  ssot_fields :: "(string \<times> ssot_field) list"

definition ssot_new :: ssot where
  "ssot_new = \<lparr>ssot_fields = []\<rparr>"

section \<open>Operations\<close>

definition ssot_set ::
    "string \<Rightarrow> tier \<Rightarrow> Value \<Rightarrow> ssot \<Rightarrow> ssot \<times> (unit, ssot_error) result" where
  "ssot_set name t v s =
     (if name = [] then (s, Err EmptyFieldName)
      else (s\<lparr>ssot_fields := AList.update name
              \<lparr>field_name = name, field_tier = t, field_value = v\<rparr> (ssot_fields s)\<rparr>, Ok ()))"

definition ssot_set_default_tier ::
    "string \<Rightarrow> Value \<Rightarrow> ssot \<Rightarrow> ssot \<times> (unit, ssot_error) result" where
  "ssot_set_default_tier name v s = ssot_set name Tier1 v s"

definition ssot_get :: "ssot \<Rightarrow> string \<Rightarrow> ssot_field option" where
  "ssot_get s name = map_of (ssot_fields s) name"

definition ssot_get_tier :: "ssot \<Rightarrow> string \<Rightarrow> (tier, ssot_error) result" where
  "ssot_get_tier s name = ok_or (FieldNotFound name) (map_option field_tier (ssot_get s name))"

definition ssot_remove :: "string \<Rightarrow> ssot \<Rightarrow> ssot \<times> (ssot_field, ssot_error) result" where
  "ssot_remove name s =
     (case ssot_get s name of
        None \<Rightarrow> (s, Err (FieldNotFound name))
      | Some f \<Rightarrow> (s\<lparr>ssot_fields := AList.delete name (ssot_fields s)\<rparr>, Ok f))"

definition ssot_iter :: "ssot \<Rightarrow> ssot_field list" where
  "ssot_iter s = map snd (ssot_fields s)"

definition tier1_fields :: "ssot \<Rightarrow> ssot_field list" where
  "tier1_fields s = filter (\<lambda>f. field_tier f = Tier1) (ssot_iter s)"

definition tier2_fields :: "ssot \<Rightarrow> ssot_field list" where
  "tier2_fields s = filter (\<lambda>f. field_tier f = Tier2) (ssot_iter s)"

definition field_count :: "ssot \<Rightarrow> nat" where
  "field_count s = length (ssot_fields s)"

definition tier1_count :: "ssot \<Rightarrow> nat" where
  "tier1_count s = length (tier1_fields s)"

definition tier2_count :: "ssot \<Rightarrow> nat" where
  "tier2_count s = length (tier2_fields s)"

definition ssot_to_canonical_bytes :: "ssot \<Rightarrow> (bytes, ssot_error) result" where
  "ssot_to_canonical_bytes s =
     map_err SsotCanonicalBytes
       (encode (VMap (bt_of (map (\<lambda>(name, f). (name, field_value f)) (ssot_fields s)))))"

section \<open>Validation\<close>

datatype validation_error =
    FieldInvalid string string
  | RequiredFieldMissing string

datatype validation_scope = ScopeTier1 | ScopeTier2 | ScopeAll

text \<open>The trait \<^verbatim>\<open>FieldValidator\<close> is a function from a field to a result.\<close>

type_synonym field_validator = "ssot_field \<Rightarrow> (unit, validation_error) result"

definition composite_validate :: "field_validator list \<Rightarrow> field_validator" where
  "composite_validate vs f = try_each (\<lambda>v. v f) vs"

definition pass_validator :: field_validator where
  "pass_validator f = Ok ()"

fun in_scope :: "validation_scope \<Rightarrow> ssot_field \<Rightarrow> bool" where
  "in_scope ScopeTier1 f = (field_tier f = Tier1)"
| "in_scope ScopeTier2 f = (field_tier f = Tier2)"
| "in_scope ScopeAll f = True"

definition validate_ssot ::
    "ssot \<Rightarrow> validation_scope \<Rightarrow> field_validator \<Rightarrow> (unit, validation_error) result" where
  "validate_ssot s scope v = try_each (\<lambda>f. if in_scope scope f then v f else Ok ()) (ssot_iter s)"

definition validate_ssot_collect ::
    "ssot \<Rightarrow> validation_scope \<Rightarrow> field_validator \<Rightarrow> validation_error list" where
  "validate_ssot_collect s scope v =
     concat (map (\<lambda>f. if in_scope scope f then (case v f of Err e \<Rightarrow> [e] | _ \<Rightarrow> []) else [])
       (ssot_iter s))"

section \<open>The invariant\<close>

text \<open>Each field is stored once, under its own non-empty name.\<close>

definition ssot_inv :: "ssot \<Rightarrow> bool" where
  "ssot_inv s \<longleftrightarrow> distinct (map fst (ssot_fields s)) \<and>
     (\<forall>nf \<in> set (ssot_fields s). fst nf \<noteq> [] \<and> field_name (snd nf) = fst nf)"

datatype ssot_op = OpSet string tier Value | OpSetDefault string Value | OpRemove string

fun ssot_step :: "ssot \<Rightarrow> ssot_op \<Rightarrow> ssot \<times> (ssot_field option, ssot_error) result" where
  "ssot_step s (OpSet n t v) =
     (case ssot_set n t v s of (s', r) \<Rightarrow> (s', and_then r (\<lambda>_. Ok None)))"
| "ssot_step s (OpSetDefault n v) =
     (case ssot_set_default_tier n v s of (s', r) \<Rightarrow> (s', and_then r (\<lambda>_. Ok None)))"
| "ssot_step s (OpRemove n) =
     (case ssot_remove n s of (s', r) \<Rightarrow> (s', and_then r (\<lambda>f. Ok (Some f))))"

lemma set_AList_update: "set (AList.update k v xs) \<subseteq> insert (k, v) (set xs)"
  by (induction xs) auto

lemma set_AList_delete: "set (AList.delete k xs) = {kv \<in> set xs. fst kv \<noteq> k}"
  by (induction xs) auto

lemma ssot_inv_set: "ssot_inv s \<Longrightarrow> ssot_inv (fst (ssot_set n t v s))"
  using set_AList_update [of n "\<lparr>field_name = n, field_tier = t, field_value = v\<rparr>" "ssot_fields s"]
  by (auto simp: ssot_inv_def ssot_set_def distinct_update)

lemma ssot_inv_remove: "ssot_inv s \<Longrightarrow> ssot_inv (fst (ssot_remove n s))"
  by (auto simp: ssot_inv_def ssot_remove_def distinct_delete set_AList_delete split: option.splits)

interpretation ssot: guarded_machine ssot_new ssot_step ssot_inv
proof
  show "ssot_inv ssot_new"
    by (simp add: ssot_inv_def ssot_new_def)
  show "ssot_inv s \<Longrightarrow> ssot_inv (fst (ssot_step s op))" for s op
    by (cases op) (simp_all add: split_beta ssot_inv_set ssot_inv_remove ssot_set_default_tier_def)
  show "\<not> is_ok (snd (ssot_step s op)) \<Longrightarrow> fst (ssot_step s op) = s" for s op
    by (cases op) (auto simp: ssot_set_def ssot_set_default_tier_def ssot_remove_def
        split: option.splits)
qed

section \<open>Lemmas\<close>

lemma ssot_get_set [simp]:
  "n \<noteq> [] \<Longrightarrow> ssot_get (fst (ssot_set n t v s)) k =
    (if k = n then Some \<lparr>field_name = n, field_tier = t, field_value = v\<rparr> else ssot_get s k)"
  by (simp add: ssot_get_def ssot_set_def update_conv')

lemma ssot_get_remove [simp]:
  "ssot_get (fst (ssot_remove n s)) k = (if k = n then None else ssot_get s k)"
  by (auto simp: ssot_get_def ssot_remove_def delete_conv' split: option.splits)

text \<open>The value each name has, forgetting tiers.\<close>

definition ssot_values :: "ssot \<Rightarrow> string \<Rightarrow> Value option" where
  "ssot_values s name = map_option field_value (ssot_get s name)"

definition ssot_map :: "ssot \<Rightarrow> vmap" where
  "ssot_map s = bt_of (map (\<lambda>(name, f). (name, field_value f)) (ssot_fields s))"

lemma bt_get_ssot_map:
  assumes "ssot_inv s"
  shows "bt_get (ssot_map s) n = ssot_values s n"
proof -
  let ?kvs = "map (\<lambda>(name, f). (name, field_value f)) (ssot_fields s)"
  have "distinct (map fst ?kvs)"
    using assms by (simp add: ssot_inv_def comp_def split_beta)
  then have "map_of (rev ?kvs) = map_of ?kvs"
    by (intro map_of_inject_set [THEN iffD2]) (simp_all add: rev_map [symmetric])
  moreover have "map_of ?kvs n = ssot_values s n"
    by (simp add: ssot_values_def ssot_get_def map_of_map)
  ultimately show ?thesis
    by (simp add: ssot_map_def bt_get_of)
qed

lemma ssot_map_eq_iff:
  assumes "ssot_inv s" and "ssot_inv s'"
  shows "ssot_map s = ssot_map s' \<longleftrightarrow> ssot_values s = ssot_values s'"
proof
  assume "ssot_values s = ssot_values s'"
  then show "ssot_map s = ssot_map s'"
    using bt_get_ssot_map [OF assms(1)] bt_get_ssot_map [OF assms(2)]
    by (intro bt_wf_ext) (simp_all add: ssot_map_def)
qed (use bt_get_ssot_map [OF assms(1)] bt_get_ssot_map [OF assms(2)] in \<open>auto simp: fun_eq_iff\<close>)

lemma set_ssot_iter: "ssot_inv s \<Longrightarrow> set (ssot_iter s) = {f. \<exists>n. ssot_get s n = Some f}"
  by (force simp: ssot_iter_def ssot_get_def ssot_inv_def)

section \<open>Properties\<close>

text \<open>
  The canonical bytes are a snapshot of the field values alone: two well-formed SSoTs whose
  names have the same values serialize alike, in whatever order the map iterates and whatever the
  tiers; and where values are well-formed and small enough, only those do.
\<close>

lemma ssot_bytes_determined_by_values:
  assumes "ssot_inv s" and "ssot_inv s'" and "wf_value (VMap (ssot_map s))"
    and "wf_value (VMap (ssot_map s'))" and "length (encode_into (VMap (ssot_map s))) < 2 ^ 63"
  shows "ssot_to_canonical_bytes s = ssot_to_canonical_bytes s' \<longleftrightarrow> ssot_values s = ssot_values s'"
proof -
  have "ssot_to_canonical_bytes t = Ok (encode_into (VMap (ssot_map t)))" for t
    by (simp add: ssot_to_canonical_bytes_def encode_def ssot_map_def)
  then show ?thesis
    using encode_into_inject [OF assms(3,4,5)] ssot_map_eq_iff [OF assms(1,2)] by simp
qed

text \<open>
  Validation answers for exactly the fields of its scope: it succeeds when, and only when,
  every field of the scope passes, which is when the collecting variant returns no error; and the
  collected errors are those of the failing fields, as a set independent of the iteration order.
\<close>

lemma validation_covers_scope:
  assumes "ssot_inv s" and "\<And>f x. v f \<noteq> Abort x"
  shows "(validate_ssot s scope v = Ok () \<longleftrightarrow>
      (\<forall>n f. ssot_get s n = Some f \<and> in_scope scope f \<longrightarrow> v f = Ok ())) \<and>
    (validate_ssot s scope v = Ok () \<longleftrightarrow> validate_ssot_collect s scope v = []) \<and>
    set (validate_ssot_collect s scope v) =
      {e. \<exists>n f. ssot_get s n = Some f \<and> in_scope scope f \<and> v f = Err e}"
proof -
  have ok: "validate_ssot s scope v = Ok () \<longleftrightarrow>
      (\<forall>f \<in> set (ssot_iter s). in_scope scope f \<longrightarrow> v f = Ok ())"
    by (auto simp: validate_ssot_def try_each_Ok_iff)
  have "(case v f of Err e \<Rightarrow> [e] | _ \<Rightarrow> []) = [] \<longleftrightarrow> v f = Ok ()" for f
    using assms(2) [of f] by (cases "v f") auto
  then have "validate_ssot_collect s scope v = [] \<longleftrightarrow>
      (\<forall>f \<in> set (ssot_iter s). in_scope scope f \<longrightarrow> v f = Ok ())"
    by (auto simp: validate_ssot_collect_def)
  moreover have "set (validate_ssot_collect s scope v) =
      {e. \<exists>f \<in> set (ssot_iter s). in_scope scope f \<and> v f = Err e}"
    by (auto simp: validate_ssot_collect_def split: if_splits result.splits)
  ultimately show ?thesis
    using ok set_ssot_iter [OF assms(1)] by auto
qed

end
