(* ===== verification/Spore.thy ===== *)
theory Spore
  imports Canonical_Bytes Crypto
begin

text \<open>
  The spore schema, \<^verbatim>\<open>kernel/schema/src/spore.rs\<close>: its seven required fields, the shape
  check on the typed record, the canonical bytes and hash, and the shape check on bytes that the
  parent runs at spawn.
\<close>

datatype spore_error =
    MissingRequiredField string
  | SporeCanonicalBytes cb_error
  | MalformedSpore string

record spore_schema =
  schema_definitions :: Value
  canonical_bytes_serializer_spec :: Value
  sporocarp_type_tree :: Value
  classifier_dimension_table :: Value
  initial_appetite_axis_schema :: Value
  anchor_surface_config :: Value
  parent_immune_signal_summary :: Value

definition validate_shape :: "spore_schema \<Rightarrow> (unit, spore_error) result" where
  "validate_shape s =
     (if schema_definitions s = Null then Err (MissingRequiredField ''schema_definitions'')
      else if canonical_bytes_serializer_spec s = Null
      then Err (MissingRequiredField ''canonical_bytes_serializer_spec'')
      else if sporocarp_type_tree s = Null then Err (MissingRequiredField ''sporocarp_type_tree'')
      else if classifier_dimension_table s = Null
      then Err (MissingRequiredField ''classifier_dimension_table'')
      else if initial_appetite_axis_schema s = Null
      then Err (MissingRequiredField ''initial_appetite_axis_schema'')
      else if anchor_surface_config s = Null
      then Err (MissingRequiredField ''anchor_surface_config'')
      else if parent_immune_signal_summary s = Null
      then Err (MissingRequiredField ''parent_immune_signal_summary'')
      else Ok ())"

definition spore_entries :: "spore_schema \<Rightarrow> (string \<times> Value) list" where
  "spore_entries s =
     [(''schema_definitions'', schema_definitions s),
      (''canonical_bytes_serializer_spec'', canonical_bytes_serializer_spec s),
      (''sporocarp_type_tree'', sporocarp_type_tree s),
      (''classifier_dimension_table'', classifier_dimension_table s),
      (''initial_appetite_axis_schema'', initial_appetite_axis_schema s),
      (''anchor_surface_config'', anchor_surface_config s),
      (''parent_immune_signal_summary'', parent_immune_signal_summary s)]"

definition spore_to_canonical_bytes :: "spore_schema \<Rightarrow> (bytes, spore_error) result" where
  "spore_to_canonical_bytes s = map_err SporeCanonicalBytes (encode (VMap (bt_of (spore_entries s))))"

definition spore_hash :: "hash_fn \<Rightarrow> spore_schema \<Rightarrow> (arr32, spore_error) result" where
  "spore_hash H s = and_then (spore_to_canonical_bytes s) (\<lambda>bs. Ok (merkle_hash H [] bs))"

definition required_fields :: "string list" where
  "required_fields =
     [''schema_definitions'', ''canonical_bytes_serializer_spec'', ''sporocarp_type_tree'',
      ''classifier_dimension_table'', ''initial_appetite_axis_schema'', ''anchor_surface_config'',
      ''parent_immune_signal_summary'']"

definition check_required :: "vmap \<Rightarrow> string \<Rightarrow> (unit, spore_error) result" where
  "check_required m f =
     (case bt_get m f of
        None \<Rightarrow> Err (MissingRequiredField f)
      | Some Null \<Rightarrow> Err (MissingRequiredField f)
      | Some _ \<Rightarrow> Ok ())"

definition validate_canonical_bytes_shape :: "bytes \<Rightarrow> (unit, spore_error) result" where
  "validate_canonical_bytes_shape bs =
     and_then (map_err SporeCanonicalBytes (decode bs)) (\<lambda>v.
       case v of
         VMap m \<Rightarrow> try_each (check_required m) required_fields
       | _ \<Rightarrow> Err (MalformedSpore ''spore-schema is not a Map''))"

section \<open>Lemmas\<close>

lemma bt_get_spore [simp]:
  "bt_get (bt_of (spore_entries s)) ''schema_definitions'' = Some (schema_definitions s)"
  "bt_get (bt_of (spore_entries s)) ''canonical_bytes_serializer_spec'' =
    Some (canonical_bytes_serializer_spec s)"
  "bt_get (bt_of (spore_entries s)) ''sporocarp_type_tree'' = Some (sporocarp_type_tree s)"
  "bt_get (bt_of (spore_entries s)) ''classifier_dimension_table'' = Some (classifier_dimension_table s)"
  "bt_get (bt_of (spore_entries s)) ''initial_appetite_axis_schema'' =
    Some (initial_appetite_axis_schema s)"
  "bt_get (bt_of (spore_entries s)) ''anchor_surface_config'' = Some (anchor_surface_config s)"
  "bt_get (bt_of (spore_entries s)) ''parent_immune_signal_summary'' =
    Some (parent_immune_signal_summary s)"
  by (simp_all add: bt_get_of spore_entries_def)

lemma check_required_Some:
  "bt_get m f = Some v \<Longrightarrow>
    check_required m f = (if v = Null then Err (MissingRequiredField f) else Ok ())"
  by (cases v) (simp_all add: check_required_def)

definition wf_spore :: "spore_schema \<Rightarrow> bool" where
  "wf_spore s \<longleftrightarrow> (\<forall>v \<in> snd ` set (spore_entries s). wf_value v)"

definition spore_bytes :: "spore_schema \<Rightarrow> bytes" where
  "spore_bytes s = encode_into (VMap (bt_of (spore_entries s)))"

lemma wf_spore_map: "wf_spore s \<Longrightarrow> wf_value (VMap (bt_of (spore_entries s)))"
  by (rule wf_VMap_of) (auto simp: wf_spore_def spore_entries_def)

lemma spore_map_inject: "bt_of (spore_entries s) = bt_of (spore_entries t) \<longleftrightarrow> s = t"
proof
  assume eq: "bt_of (spore_entries s) = bt_of (spore_entries t)"
  show "s = t"
    using bt_get_spore [of s] bt_get_spore [of t] unfolding eq by (intro spore_schema.equality) simp_all
qed simp

text \<open>The decoder of a spore's bytes, up to the map the child's shape is read from.\<close>

definition decode_map :: "bytes \<Rightarrow> (vmap, cb_error) result" where
  "decode_map bs = and_then (decode bs)
     (\<lambda>v. case v of VMap m \<Rightarrow> Ok m | _ \<Rightarrow> Err (InvalidInput ''not a Map''))"

interpretation spore_codec: codec spore_bytes decode_map "\<lambda>s. bt_of (spore_entries s)"
  "\<lambda>s. wf_spore s \<and> length (spore_bytes s) < 2 ^ 63"
proof
  show "decode_map (spore_bytes s) = Ok (bt_of (spore_entries s))"
    if "wf_spore s \<and> length (spore_bytes s) < 2 ^ 63" for s
    using that decode_encode_into [OF wf_spore_map]
    by (simp add: decode_map_def spore_bytes_def del: encode_into.simps)
qed (simp add: spore_map_inject)

section \<open>Properties\<close>

text \<open>
  The two shape checks agree: checking the canonical bytes of a spore schema gives the
  verdict, and the first missing field, that checking the typed record gives.
\<close>

lemma spore_shape_checks_agree:
  assumes "wf_spore s" and "length (spore_bytes s) < 2 ^ 63"
  shows "and_then (spore_to_canonical_bytes s) validate_canonical_bytes_shape = validate_shape s"
proof -
  have "decode (spore_bytes s) = Ok (VMap (bt_of (spore_entries s)))"
    using assms decode_encode_into [OF wf_spore_map] by (simp add: spore_bytes_def)
  then show ?thesis
    by (simp add: spore_to_canonical_bytes_def encode_def validate_canonical_bytes_shape_def
        required_fields_def check_required_Some validate_shape_def flip: spore_bytes_def)
qed

text \<open>
  The spore hash binds the whole schema: where BLAKE3 does not collide on the two inputs,
  schemas with the same hash agree in all seven fields.
\<close>

lemma spore_hash_binding:
  assumes "wf_spore s" and "wf_spore t"
    and "length (spore_bytes s) < 2 ^ 63" and "length (spore_bytes t) < 2 ^ 63"
    and "inj_on H {merkle_input [] (spore_bytes s), merkle_input [] (spore_bytes t)}"
    and "spore_hash H s = spore_hash H t"
  shows "s = t"
proof -
  have "inj_on (merkle_hash H []) {spore_bytes s, spore_bytes t}"
    using assms(5) by (intro merkle_hash_inj_on) simp_all
  moreover have "merkle_hash H [] (spore_bytes s) = merkle_hash H [] (spore_bytes t)"
    using assms(6) by (simp add: spore_hash_def spore_to_canonical_bytes_def encode_def spore_bytes_def)
  ultimately show ?thesis
    using spore_codec.hash_inject [of s t "merkle_hash H []"] assms(1-4) by simp
qed

end
