(* ===== verification/Migration.thy ===== *)
theory Migration
  imports Canonical_Bytes
begin

text \<open>
  The multi-cycle schema migration, \<^verbatim>\<open>kernel/schema/src/migration.rs\<close>: the candidate, its
  dual-validation window, the per-cycle decision and the persisted form. The system clock is an
  argument: the nanoseconds since the epoch, or nothing when the clock is before it.
\<close>

section \<open>Types\<close>

datatype migration_phase = Apply | Validating | Commit | Rollback

definition DEFAULT_DUAL_VALIDATION_WINDOW_CYCLES :: u64 where
  "DEFAULT_DUAL_VALIDATION_WINDOW_CYCLES = 100"

definition DEFAULT_MIGRATION_GRACE_CYCLES :: u64 where
  "DEFAULT_MIGRATION_GRACE_CYCLES = 10"

record candidate_state =
  schema_diff_canonical_bytes :: bytes
  op_name :: string
  started_at_cycle :: u64
  dual_validation_window_cycles :: u64
  started_at_unix_ns :: i64
  phase :: migration_phase

datatype dual_validation_cycle = Equivalent | Diverged

datatype commit_decision = DecideCommit | DecideRollback string

section \<open>The window\<close>

definition candidate_new :: "nat option \<Rightarrow> bytes \<Rightarrow> string \<Rightarrow> u64 \<Rightarrow> u64 \<Rightarrow> candidate_state" where
  "candidate_new since_epoch diff op cycle window =
     \<lparr>schema_diff_canonical_bytes = diff, op_name = op, started_at_cycle = cycle,
      dual_validation_window_cycles = window,
      started_at_unix_ns =
        (case since_epoch of Some ns \<Rightarrow> if ns < 2 ^ 63 then word_of_nat ns else 0 | None \<Rightarrow> 0),
      phase = Apply\<rparr>"

definition window_complete :: "candidate_state \<Rightarrow> u64 \<Rightarrow> bool" where
  "window_complete c current =
     (dual_validation_window_cycles c \<le> sat_sub current (started_at_cycle c))"

definition enter_validating :: "u64 \<Rightarrow> candidate_state \<Rightarrow> candidate_state" where
  "enter_validating cycle c = c\<lparr>started_at_cycle := cycle, phase := Validating\<rparr>"

definition window_exceeded :: "candidate_state \<Rightarrow> u64 \<Rightarrow> u64 \<Rightarrow> bool" where
  "window_exceeded c current grace =
     (let elapsed = sat_sub current (started_at_cycle c) in
      sat_add (dual_validation_window_cycles c) grace < elapsed)"

definition decide_cycle ::
    "candidate_state \<Rightarrow> u64 \<Rightarrow> dual_validation_cycle \<Rightarrow> commit_decision option" where
  "decide_cycle c current outcome =
     (case outcome of
        Diverged \<Rightarrow> Some (DecideRollback ''candidate diverged from active'')
      | Equivalent \<Rightarrow> if window_complete c current then Some DecideCommit else None)"

section \<open>Persistence\<close>

fun migration_phase_to_str :: "migration_phase \<Rightarrow> string" where
  "migration_phase_to_str Apply = ''apply''"
| "migration_phase_to_str Validating = ''validating''"
| "migration_phase_to_str Commit = ''commit''"
| "migration_phase_to_str Rollback = ''rollback''"

definition migration_phase_from_str :: "string \<Rightarrow> migration_phase option" where
  "migration_phase_from_str s =
     (if s = ''apply'' then Some Apply
      else if s = ''validating'' then Some Validating
      else if s = ''commit'' then Some Commit
      else if s = ''rollback'' then Some Rollback
      else None)"

definition candidate_value :: "candidate_state \<Rightarrow> Value" where
  "candidate_value c = VMap (bt_of
     [(''op_name'', VString (op_name c)),
      (''schema_diff_canonical_bytes'', VBytes (schema_diff_canonical_bytes c)),
      (''started_at_cycle'', VUint (started_at_cycle c)),
      (''dual_validation_window_cycles'', VUint (dual_validation_window_cycles c)),
      (''started_at_unix_ns'', VTimestamp (started_at_unix_ns c)),
      (''phase'', VString (migration_phase_to_str (phase c)))])"

definition candidate_to_canonical_bytes :: "candidate_state \<Rightarrow> bytes" where
  "candidate_to_canonical_bytes c = encode_into (candidate_value c)"

text \<open>Every structural error is the same \<^verbatim>\<open>None\<close> of the code: \<open>Err ()\<close>.\<close>

definition candidate_from_canonical_bytes :: "bytes \<Rightarrow> (candidate_state, unit) result" where
  "candidate_from_canonical_bytes bs =
     and_then (map_err (\<lambda>_. ()) (decode bs)) (\<lambda>v.
     and_then (case v of VMap m \<Rightarrow> Ok m | _ \<Rightarrow> Err ()) (\<lambda>m.
     and_then (map_err (\<lambda>_. ()) (map_get_string m ''op_name'')) (\<lambda>op.
     and_then (case bt_get m ''schema_diff_canonical_bytes'' of
         Some (VBytes b) \<Rightarrow> Ok b | _ \<Rightarrow> Err ()) (\<lambda>diff.
     and_then (map_err (\<lambda>_. ()) (map_get_uint m ''started_at_cycle'')) (\<lambda>started.
     and_then (map_err (\<lambda>_. ()) (map_get_uint m ''dual_validation_window_cycles'')) (\<lambda>window.
     and_then (case bt_get m ''started_at_unix_ns'' of
         Some (VTimestamp t) \<Rightarrow> Ok t | _ \<Rightarrow> Err ()) (\<lambda>ns.
     and_then (case bt_get m ''phase'' of
         Some (VString s) \<Rightarrow> ok_or () (migration_phase_from_str s) | _ \<Rightarrow> Err ()) (\<lambda>ph.
       Ok \<lparr>schema_diff_canonical_bytes = diff, op_name = op, started_at_cycle = started,
           dual_validation_window_cycles = window, started_at_unix_ns = ns, phase = ph\<rparr>))))))))"

lemma phase_str_round_trip [simp]: "migration_phase_from_str (migration_phase_to_str p) = Some p"
  by (cases p) (simp_all add: migration_phase_from_str_def)

lemma phase_str_ok [simp]: "str_ok (migration_phase_to_str p)"
  by (cases p) simp_all

definition persistable_candidate :: "candidate_state \<Rightarrow> bool" where
  "persistable_candidate c \<longleftrightarrow>
     str_ok (op_name c) \<and> length (candidate_to_canonical_bytes c) < 2 ^ 63"

lemma wf_candidate_value: "str_ok (op_name c) \<Longrightarrow> wf_value (candidate_value c)"
  unfolding candidate_value_def by (rule wf_VMap_of) auto

interpretation candidate_codec:
  codec candidate_to_canonical_bytes candidate_from_canonical_bytes "\<lambda>c. c" persistable_candidate
proof
  fix c
  assume "persistable_candidate c"
  then have "decode (candidate_to_canonical_bytes c) = Ok (candidate_value c)"
    unfolding candidate_to_canonical_bytes_def
    by (intro decode_encode_into wf_candidate_value)
      (simp_all add: persistable_candidate_def candidate_to_canonical_bytes_def)
  then show "candidate_from_canonical_bytes (candidate_to_canonical_bytes c) = Ok c"
    by (simp add: candidate_from_canonical_bytes_def candidate_value_def bt_get_of)
qed

section \<open>The window in cycles\<close>

lemma window_complete_iff:
  "window_complete c current \<longleftrightarrow>
    unat (dual_validation_window_cycles c) \<le> unat current - unat (started_at_cycle c)"
  by (simp add: window_complete_def word_le_nat_alt unat_sat_sub)

lemma window_exceeded_complete: "window_exceeded c current grace \<Longrightarrow> window_complete c current"
  using unat_bound [of current]
  by (auto simp: window_exceeded_def window_complete_iff word_less_nat_alt unat_sat_sub
      unat_sat_add Let_def)

text \<open>
  The candidate is decided once per cycle, from the cycle it entered validation, until a decision
  is taken: the cycle and the decision of the first one.
\<close>

fun first_decision ::
    "candidate_state \<Rightarrow> u64 \<Rightarrow> dual_validation_cycle list \<Rightarrow> (u64 \<times> commit_decision) option" where
  "first_decision c cycle [] = None"
| "first_decision c cycle (out # outs) =
     (case decide_cycle c cycle out of
        Some d \<Rightarrow> Some (cycle, d)
      | None \<Rightarrow> first_decision c (cycle + 1) outs)"

lemma first_decision_equivalent:
  assumes "outs = replicate (unat w - k) Equivalent @ Equivalent # rest"
    and "started_at_cycle c = s" and "dual_validation_window_cycles c = w"
    and "unat s + unat w < 2 ^ 64" and "k \<le> unat w"
  shows "first_decision c (s + word_of_nat k) outs = Some (s + w, DecideCommit)"
  using assms(1,5)
proof (induction "unat w - k" arbitrary: k outs)
  case 0
  then have "k = unat w"
    by simp
  then have "word_of_nat k = w"
    by simp
  moreover have "unat (s + w) = unat s + unat w"
    using assms(4) by (simp add: unat_word_ariths)
  ultimately show ?case
    using 0 assms(2,3) by (simp add: decide_cycle_def window_complete_iff)
next
  case (Suc n)
  then have k: "k < unat w" "unat w - Suc k = n"
    by simp_all
  have "unat (s + word_of_nat k) = unat s + k"
    using assms(4) k(1) by (simp add: unat_word_ariths unat_of_nat)
  then have "decide_cycle c (s + word_of_nat k) Equivalent = None"
    using k(1) assms(2,3) by (simp add: decide_cycle_def window_complete_iff)
  moreover have "outs = Equivalent # replicate (unat w - Suc k) Equivalent @ Equivalent # rest"
    using Suc.prems(1) Suc.hyps(2) k(2) by (metis append_Cons replicate_Suc)
  moreover have "s + word_of_nat k + 1 = s + word_of_nat (Suc k)"
    by simp
  ultimately show ?case
    using Suc.hyps(1) [of "Suc k" "replicate (unat w - Suc k) Equivalent @ Equivalent # rest"] k
    by (simp add: ac_simps)
qed

section \<open>Properties\<close>

text \<open>
  A candidate that matches the active schema in every cycle of its window is committed at the
  first cycle that completes the window, no sooner and no later.
\<close>

lemma migration_commits_at_window_end:
  assumes "unat s + unat (dual_validation_window_cycles c) < 2 ^ 64"
  shows "first_decision (enter_validating s c) s
      (replicate (unat (dual_validation_window_cycles c)) Equivalent @ Equivalent # rest) =
    Some (s + dual_validation_window_cycles c, DecideCommit)"
  using assms first_decision_equivalent [of _ "dual_validation_window_cycles c" 0 rest
      "enter_validating s c" s]
  by (simp add: enter_validating_def)

text \<open>
  The per-cycle decision and the immune detector do not contradict each other: a cycle at
  which the decision keeps validating is never past the window plus grace, whatever the grace; a
  divergence always rolls back; and an elapsed time that went backwards never completes a
  non-empty window.
\<close>

lemma migration_decision_consistent:
  "(decide_cycle c cur out = None \<longrightarrow> out = Equivalent \<and> \<not> window_exceeded c cur grace) \<and>
    (decide_cycle c cur out = Some DecideCommit \<longleftrightarrow> out = Equivalent \<and>
      unat (dual_validation_window_cycles c) \<le> unat cur - unat (started_at_cycle c)) \<and>
    (cur \<le> started_at_cycle c \<and> dual_validation_window_cycles c \<noteq> 0 \<longrightarrow>
      \<not> window_complete c cur \<and> \<not> window_exceeded c cur grace)"
proof -
  have "\<not> window_complete c cur" if "cur \<le> started_at_cycle c" "dual_validation_window_cycles c \<noteq> 0"
    using that by (simp add: window_complete_iff word_le_nat_alt unat_eq_0)
  then show ?thesis
    using window_exceeded_complete [of c cur grace]
    by (cases out) (auto simp: decide_cycle_def window_complete_iff)
qed

text \<open>
  A candidate survives a restart: reading its bytes gives the same candidate, phase included.
\<close>

lemma candidate_round_trip:
  assumes "str_ok (op_name c)" and "length (candidate_to_canonical_bytes c) < 2 ^ 63"
  shows "candidate_from_canonical_bytes (candidate_to_canonical_bytes c) = Ok c"
  using candidate_codec.round_trip assms by (simp add: persistable_candidate_def)

end
