(* ===== verification/Envelope.thy ===== *)
theory Envelope
  imports Canonical_Bytes Crypto
begin

text \<open>
  The delta-intake envelope, \<^verbatim>\<open>kernel/skin/src/envelope.rs\<close>: the canonical fields, the HMAC
  digest over fields and payload, and the seven checks of validation. \<open>mac\<close> is HMAC-SHA256.
\<close>

section \<open>Types\<close>

datatype envelope_error =
    EnvMalformed string
  | SenderTokenMismatch
  | UnknownPayloadShape string
  | SizeTooLarge u64 u64
  | SizeMismatch u64 u64
  | DigestInvalid
  | StaleSubmittedCycle u64 u64
  | CausalChainViolation string
  | EnvCanonicalBytes cb_error
  | EnvCrypto crypto_error

datatype payload_shape = Text | FileRef | StructuredYaml | BinaryRef | OtherShape string

fun shape_as_str :: "payload_shape \<Rightarrow> string" where
  "shape_as_str Text = ''text''"
| "shape_as_str FileRef = ''file_ref''"
| "shape_as_str StructuredYaml = ''structured_yaml''"
| "shape_as_str BinaryRef = ''binary_ref''"
| "shape_as_str (OtherShape s) = s"

definition shape_parse :: "string \<Rightarrow> payload_shape" where
  "shape_parse s =
     (if s = ''text'' then Text
      else if s = ''file_ref'' then FileRef
      else if s = ''structured_yaml'' then StructuredYaml
      else if s = ''binary_ref'' then BinaryRef
      else OtherShape s)"

fun is_recognized :: "payload_shape \<Rightarrow> bool" where
  "is_recognized (OtherShape _) = False"
| "is_recognized _ = True"

record envelope =
  envelope_version :: u32
  sender_token :: arr32
  env_payload_shape :: payload_shape
  causal_parent_ref :: "bytes option"
  size_bytes :: u64
  content_type_hint :: "string option"
  submitted_at_cycle :: u64
  envelope_digest :: arr32
  env_payload :: bytes

record envelope_validation_config =
  accepted_versions :: "u32 list"
  max_size_bytes :: u64
  freshness_window_cycles :: u64

definition default_envelope_config :: envelope_validation_config where
  "default_envelope_config =
     \<lparr>accepted_versions = [1], max_size_bytes = 100 * 1024 * 1024, freshness_window_cycles = 60\<rparr>"

section \<open>Digest\<close>

definition envelope_fields_value :: "envelope \<Rightarrow> Value" where
  "envelope_fields_value env = VMap (bt_of
     [(''envelope_version'', VUint (ucast (envelope_version env))),
      (''sender_token'', VBytes (arr32_bytes (sender_token env))),
      (''payload_shape'', VString (shape_as_str (env_payload_shape env))),
      (''causal_parent_ref'', case causal_parent_ref env of Some b \<Rightarrow> VBytes b | None \<Rightarrow> Null),
      (''size_bytes'', VUint (size_bytes env)),
      (''content_type_hint'', case content_type_hint env of Some s \<Rightarrow> VString s | None \<Rightarrow> Null),
      (''submitted_at_cycle'', VUint (submitted_at_cycle env))])"

definition canonical_envelope_fields :: "envelope \<Rightarrow> (bytes, envelope_error) result" where
  "canonical_envelope_fields env = map_err EnvCanonicalBytes (encode (envelope_fields_value env))"

definition compute_envelope_digest ::
    "mac_fn \<Rightarrow> envelope \<Rightarrow> arr32 \<Rightarrow> (arr32, envelope_error) result" where
  "compute_envelope_digest mac env token =
     and_then (canonical_envelope_fields env) (\<lambda>fs.
       map_err EnvCrypto (hmac_sign mac (arr32_bytes token) (fs @ env_payload env)))"

section \<open>Validation\<close>

definition validate_envelope ::
    "mac_fn \<Rightarrow> envelope \<Rightarrow> arr32 \<Rightarrow> u64 \<Rightarrow> envelope_validation_config \<Rightarrow> (unit, envelope_error) result"
where
  "validate_envelope mac env token current cfg =
     (if envelope_version env \<notin> set (accepted_versions cfg)
      then Err (EnvMalformed ''unsupported envelope_version'')
      else if sender_token env \<noteq> token then Err SenderTokenMismatch
      else if \<not> is_recognized (env_payload_shape env)
      then Err (UnknownPayloadShape (shape_as_str (env_payload_shape env)))
      else if max_size_bytes cfg < size_bytes env
      then Err (SizeTooLarge (size_bytes env) (max_size_bytes cfg))
      else if size_bytes env \<noteq> word_of_nat (length (env_payload env))
      then Err (SizeMismatch (size_bytes env) (word_of_nat (length (env_payload env))))
      else if current < submitted_at_cycle env
      then Err (StaleSubmittedCycle (submitted_at_cycle env) current)
      else if freshness_window_cycles cfg < sat_sub current (submitted_at_cycle env)
      then Err (StaleSubmittedCycle (submitted_at_cycle env) current)
      else and_then (compute_envelope_digest mac env token) (\<lambda>recomputed.
             if recomputed \<noteq> envelope_digest env then Err DigestInvalid else Ok ()))"

section \<open>Lemmas\<close>

lemma shape_parse_as_str: "is_recognized sh \<Longrightarrow> shape_parse (shape_as_str sh) = sh"
  by (cases sh) (simp_all add: shape_parse_def)

lemma shape_as_str_inject:
  "is_recognized a \<Longrightarrow> is_recognized b \<Longrightarrow> shape_as_str a = shape_as_str b \<longleftrightarrow> a = b"
  by (metis shape_parse_as_str)

text \<open>The bytes under the HMAC.\<close>

definition digest_input :: "envelope \<Rightarrow> bytes" where
  "digest_input env = encode_into (envelope_fields_value env) @ env_payload env"

lemma compute_digest_Ok:
  "compute_envelope_digest mac env token = Ok (mac (arr32_bytes token) (digest_input env))"
  by (simp add: compute_envelope_digest_def canonical_envelope_fields_def encode_def digest_input_def
      hmac_sign_def)

definition wf_envelope :: "envelope \<Rightarrow> bool" where
  "wf_envelope env \<longleftrightarrow> str_ok (shape_as_str (env_payload_shape env)) \<and>
     (\<forall>s. content_type_hint env = Some s \<longrightarrow> str_ok s)"

lemma wf_envelope_fields: "wf_envelope env \<Longrightarrow> wf_value (envelope_fields_value env)"
  unfolding envelope_fields_value_def
  by (rule wf_VMap_of) (auto simp: wf_envelope_def split: option.splits)

lemma opt_bytes_inject:
  "(case a of Some b \<Rightarrow> VBytes b | None \<Rightarrow> Null) = (case c of Some b \<Rightarrow> VBytes b | None \<Rightarrow> Null) \<longleftrightarrow> a = c"
  by (auto split: option.splits)

lemma opt_string_inject:
  "(case a of Some b \<Rightarrow> VString b | None \<Rightarrow> Null) = (case c of Some b \<Rightarrow> VString b | None \<Rightarrow> Null) \<longleftrightarrow> a = c"
  by (auto split: option.splits)

lemma ucast_u32_inject: "(ucast (a :: u32) :: u64) = ucast b \<longleftrightarrow> a = b"
proof -
  have "ucast (ucast c :: u64) = c" for c :: u32
    by (rule bit_word_eqI) (simp add: bit_simps)
  then show ?thesis
    by metis
qed

lemma envelope_fields_value_inject:
  assumes "envelope_fields_value a = envelope_fields_value b"
  shows "envelope_version a = envelope_version b" and "sender_token a = sender_token b"
    and "shape_as_str (env_payload_shape a) = shape_as_str (env_payload_shape b)"
    and "causal_parent_ref a = causal_parent_ref b" and "size_bytes a = size_bytes b"
    and "content_type_hint a = content_type_hint b" and "submitted_at_cycle a = submitted_at_cycle b"
proof -
  let ?m = "\<lambda>env. case envelope_fields_value env of VMap m \<Rightarrow> m"
  have get: "bt_get (?m a) k = bt_get (?m b) k" for k
    using assms by simp
  show "envelope_version a = envelope_version b"
    using get [of "''envelope_version''"] by (simp add: envelope_fields_value_def bt_get_of ucast_u32_inject)
  show "sender_token a = sender_token b"
    using get [of "''sender_token''"] by (simp add: envelope_fields_value_def bt_get_of)
  show "shape_as_str (env_payload_shape a) = shape_as_str (env_payload_shape b)"
    using get [of "''payload_shape''"] by (simp add: envelope_fields_value_def bt_get_of)
  show "causal_parent_ref a = causal_parent_ref b"
    using get [of "''causal_parent_ref''"]
    by (simp add: envelope_fields_value_def bt_get_of opt_bytes_inject)
  show "size_bytes a = size_bytes b"
    using get [of "''size_bytes''"] by (simp add: envelope_fields_value_def bt_get_of)
  show "content_type_hint a = content_type_hint b"
    using get [of "''content_type_hint''"]
    by (simp add: envelope_fields_value_def bt_get_of opt_string_inject)
  show "submitted_at_cycle a = submitted_at_cycle b"
    using get [of "''submitted_at_cycle''"] by (simp add: envelope_fields_value_def bt_get_of)
qed

lemma validate_envelope_Ok_iff:
  "validate_envelope mac env token current cfg = Ok () \<longleftrightarrow>
    envelope_version env \<in> set (accepted_versions cfg) \<and>
    sender_token env = token \<and> is_recognized (env_payload_shape env) \<and>
    size_bytes env \<le> max_size_bytes cfg \<and>
    size_bytes env = word_of_nat (length (env_payload env)) \<and>
    submitted_at_cycle env \<le> current \<and>
    unat current \<le> unat (submitted_at_cycle env) + unat (freshness_window_cycles cfg) \<and>
    envelope_digest env = mac (arr32_bytes token) (digest_input env)"
  by (auto simp: validate_envelope_def compute_digest_Ok not_less word_less_nat_alt
      word_le_nat_alt unat_sat_sub)

section \<open>Properties\<close>

text \<open>
  Validation accepts exactly the envelopes that pass all seven checks: an accepted version,
  the active token, a recognised shape, the size within the limit and equal to the payload's
  length, a submission cycle not in the future and within the freshness window, and the digest
  that the token computes over fields and payload.
\<close>

lemma validate_envelope_exact:
  "validate_envelope mac env token current cfg = Ok () \<longleftrightarrow>
    envelope_version env \<in> set (accepted_versions cfg) \<and>
    sender_token env = token \<and> is_recognized (env_payload_shape env) \<and>
    size_bytes env \<le> max_size_bytes cfg \<and>
    size_bytes env = word_of_nat (length (env_payload env)) \<and>
    unat (submitted_at_cycle env) \<le> unat current \<and>
    unat current - unat (submitted_at_cycle env) \<le> unat (freshness_window_cycles cfg) \<and>
    compute_envelope_digest mac env token = Ok (envelope_digest env)"
  unfolding validate_envelope_Ok_iff compute_digest_Ok
  by (auto simp: word_le_nat_alt)

text \<open>
  The digest binds the whole envelope: two envelopes accepted under the same token with the
  same digest are the same envelope, where the HMAC does not collide on their two inputs. The
  fields cannot be traded against the payload, since their encoding delimits itself.
\<close>

lemma envelope_digest_binding:
  assumes "validate_envelope mac a token cur cfg = Ok ()"
    and "validate_envelope mac b token cur' cfg' = Ok ()"
    and "envelope_digest a = envelope_digest b"
    and "inj_on (mac (arr32_bytes token)) {digest_input a, digest_input b}"
    and "wf_envelope a" and "wf_envelope b" and "length (digest_input a) < 2 ^ 63"
  shows "a = b"
proof -
  have "digest_input a = digest_input b"
    using assms(1-3) by (intro inj_onD [OF assms(4)]) (simp_all add: validate_envelope_Ok_iff)
  then have fields: "envelope_fields_value a = envelope_fields_value b" and "env_payload a = env_payload b"
    using encode_into_prefix_free [OF wf_envelope_fields [OF assms(5)] wf_envelope_fields [OF assms(6)]]
      assms(7)
    by (simp_all add: digest_input_def)
  then show ?thesis
    using envelope_fields_value_inject [OF fields] assms(1-3)
    by (intro envelope.equality) (auto simp: validate_envelope_Ok_iff shape_as_str_inject)
qed

end
