(* ===== verification/Surface.thy ===== *)
theory Surface
  imports Prelude
begin

text \<open>
  The declared skin surface, \<^verbatim>\<open>kernel/skin/src/surface.rs\<close>, the egress check against it,
  \<^verbatim>\<open>kernel/skin/src/egress_enforce.rs\<close>, and the gate for outputs,
  \<^verbatim>\<open>kernel/skin/src/output_gate.rs\<close>. The locale \<open>peer_freshness\<close> is the contract of the
  peer-freshness trait that the gate relies on; the three checkers of the code implement it.
\<close>

section \<open>Surface\<close>

datatype surface_error = InvalidEndpoint string | DuplicateEndpoint string

datatype endpoint_kind = Intake | FederationOut | AnchorSurfaceOut | SummaryExportOut

record endpoint =
  uri :: string
  kind :: endpoint_kind

record skin_surface =
  intake_endpoints :: "endpoint list"
  output_endpoints :: "endpoint list"

definition surface_new :: skin_surface where
  "surface_new = \<lparr>intake_endpoints = [], output_endpoints = []\<rparr>"

text \<open>The loop over all endpoints with the set of URIs seen so far.\<close>

primrec check_uris :: "string list \<Rightarrow> endpoint list \<Rightarrow> (unit, surface_error) result" where
  "check_uris seen [] = Ok ()"
| "check_uris seen (ep # eps) =
     (if uri ep = [] then Err (InvalidEndpoint ''empty uri'')
      else if uri ep \<in> set seen then Err (DuplicateEndpoint (uri ep))
      else check_uris (uri ep # seen) eps)"

definition from_endpoints ::
    "endpoint list \<Rightarrow> endpoint list \<Rightarrow> (skin_surface, surface_error) result" where
  "from_endpoints ins outs =
     and_then (check_uris [] (ins @ outs)) (\<lambda>_.
     and_then (try_each (\<lambda>ep. if kind ep \<noteq> Intake
         then Err (InvalidEndpoint ''intake list endpoint has non-intake kind'') else Ok ()) ins) (\<lambda>_.
     and_then (try_each (\<lambda>ep. if kind ep = Intake
         then Err (InvalidEndpoint ''output list endpoint has Intake kind'') else Ok ()) outs) (\<lambda>_.
       Ok \<lparr>intake_endpoints = ins, output_endpoints = outs\<rparr>)))"

definition is_declared_intake :: "skin_surface \<Rightarrow> string \<Rightarrow> bool" where
  "is_declared_intake s u \<longleftrightarrow> list_ex (\<lambda>e. uri e = u) (intake_endpoints s)"

definition is_declared_output :: "skin_surface \<Rightarrow> string \<Rightarrow> endpoint_kind \<Rightarrow> bool" where
  "is_declared_output s u k \<longleftrightarrow> list_ex (\<lambda>e. uri e = u \<and> kind e = k) (output_endpoints s)"

definition find_output_by_uri :: "skin_surface \<Rightarrow> string \<Rightarrow> endpoint option" where
  "find_output_by_uri s u = List.find (\<lambda>e. uri e = u) (output_endpoints s)"

definition endpoint_count :: "skin_surface \<Rightarrow> nat" where
  "endpoint_count s = length (intake_endpoints s) + length (output_endpoints s)"

lemma check_uris_Ok_iff:
  "check_uris seen eps = Ok () \<longleftrightarrow>
    (\<forall>ep \<in> set eps. uri ep \<noteq> []) \<and> distinct (map uri eps) \<and> set (map uri eps) \<inter> set seen = {}"
  by (induction eps arbitrary: seen) auto

definition surface_ok :: "skin_surface \<Rightarrow> bool" where
  "surface_ok s \<longleftrightarrow>
     (\<forall>ep \<in> set (intake_endpoints s @ output_endpoints s). uri ep \<noteq> []) \<and> distinct (map uri (intake_endpoints s @ output_endpoints s)) \<and>
     (\<forall>ep \<in> set (intake_endpoints s). kind ep = Intake) \<and> (\<forall>ep \<in> set (output_endpoints s). kind ep \<noteq> Intake)"

lemma from_endpoints_Ok_iff:
  "from_endpoints ins outs = Ok s \<longleftrightarrow> s = \<lparr>intake_endpoints = ins, output_endpoints = outs\<rparr> \<and> surface_ok s"
proof (cases "s = \<lparr>intake_endpoints = ins, output_endpoints = outs\<rparr>")
  case True
  have "(if P then Err e else Ok ()) = Ok () \<longleftrightarrow> \<not> P" for P and e :: surface_error
    by simp
  then have "from_endpoints ins outs = Ok s \<longleftrightarrow>
      ((\<forall>ep \<in> set (ins @ outs). uri ep \<noteq> []) \<and> distinct (map uri (ins @ outs))) \<and>
      (\<forall>ep \<in> set ins. kind ep = Intake) \<and> (\<forall>ep \<in> set outs. kind ep \<noteq> Intake)"
    by (simp only: from_endpoints_def and_then_Ok_iff try_each_Ok_iff check_uris_Ok_iff True)
      (simp add: check_uris_Ok_iff try_each_Ok_iff)
  then show ?thesis
    by (simp only: surface_ok_def True skin_surface.simps conj_assoc simp_thms)
qed (auto simp: from_endpoints_def)

section \<open>Egress enforcement\<close>

datatype egress_error = UnauthorizedEgress string

record stub_egress_enforce =
  declared_output_uris :: "string list"

definition enforce_from_surface :: "skin_surface \<Rightarrow> stub_egress_enforce" where
  "enforce_from_surface s = \<lparr>declared_output_uris = map uri (output_endpoints s)\<rparr>"

definition enforce_from_uris :: "string list \<Rightarrow> stub_egress_enforce" where
  "enforce_from_uris uris = \<lparr>declared_output_uris = uris\<rparr>"

definition check_outbound :: "stub_egress_enforce \<Rightarrow> string \<Rightarrow> (unit, egress_error) result" where
  "check_outbound e target =
     (if list_ex (\<lambda>d. d = target) (declared_output_uris e) then Ok ()
      else Err (UnauthorizedEgress target))"

section \<open>Output gate\<close>

datatype output_error =
    UndeclaredEndpoint string
  | KindMismatch string endpoint_kind endpoint_kind
  | FederationEgressBlocked string
  | NonCanonicalAnchorOutput

record output_envelope =
  target :: endpoint
  out_payload :: bytes
  substrate_signature :: bytes

type_synonym freshness_check = "string \<Rightarrow> (unit, output_error) result"

definition stub_freshness :: freshness_check where
  "stub_freshness peer = Ok ()"

definition deny_all_freshness :: freshness_check where
  "deny_all_freshness peer = Err (FederationEgressBlocked peer)"

definition revoked_freshness :: "string list \<Rightarrow> freshness_check" where
  "revoked_freshness revoked peer =
     (if peer \<in> set revoked then Err (FederationEgressBlocked peer) else Ok ())"

definition route_output ::
    "skin_surface \<Rightarrow> string \<Rightarrow> endpoint_kind \<Rightarrow> bytes \<Rightarrow> bytes \<Rightarrow> freshness_check \<Rightarrow>
      (output_envelope, output_error) result" where
  "route_output s u k pl sig fresh =
     (if \<not> is_declared_output s u k then
        (case find_output_by_uri s u of
           Some existing \<Rightarrow> Err (KindMismatch u k (kind existing))
         | None \<Rightarrow> Err (UndeclaredEndpoint u))
      else
        and_then (if k = FederationOut then fresh u else Ok ()) (\<lambda>_.
          Ok \<lparr>target = \<lparr>uri = u, kind = k\<rparr>, out_payload = pl, substrate_signature = sig\<rparr>))"

locale peer_freshness =
  fixes check_freshness :: freshness_check
    and blocked :: "string \<Rightarrow> bool"
  assumes check_freshness_exact:
    "check_freshness peer = (if blocked peer then Err (FederationEgressBlocked peer) else Ok ())"
begin

lemma route_output_Ok_iff:
  "route_output s u k pl sig check_freshness = Ok env \<longleftrightarrow>
    is_declared_output s u k \<and> \<not> (k = FederationOut \<and> blocked u) \<and>
    env = \<lparr>target = \<lparr>uri = u, kind = k\<rparr>, out_payload = pl, substrate_signature = sig\<rparr>"
  by (auto simp: route_output_def check_freshness_exact split: option.splits)

lemma route_output_blocked:
  "is_declared_output s u FederationOut \<Longrightarrow> blocked u \<Longrightarrow>
    route_output s u FederationOut pl sig check_freshness = Err (FederationEgressBlocked u)"
  by (simp add: route_output_def check_freshness_exact)

end

interpretation stub: peer_freshness stub_freshness "\<lambda>_. False"
  by unfold_locales (simp add: stub_freshness_def)

interpretation deny_all: peer_freshness deny_all_freshness "\<lambda>_. True"
  by unfold_locales (simp add: deny_all_freshness_def)

interpretation revoked: peer_freshness "revoked_freshness rs" "\<lambda>peer. peer \<in> set rs" for rs
  by unfold_locales (simp add: revoked_freshness_def)

lemma find_output_declared:
  assumes "surface_ok s" and "is_declared_output s u k" and "is_declared_output s u k'"
  shows "k = k'"
proof -
  obtain e e' where e: "e \<in> set (output_endpoints s)" "uri e = u" "kind e = k"
    and e': "e' \<in> set (output_endpoints s)" "uri e' = u" "kind e' = k'"
    using assms(2,3) by (auto simp: is_declared_output_def list_ex_iff)
  have "inj_on uri (set (output_endpoints s))"
    using assms(1) by (simp add: surface_ok_def distinct_map)
  then have "e = e'"
    using e e' by (auto dest: inj_onD)
  then show ?thesis
    using e e' by simp
qed

section \<open>Properties\<close>

text \<open>
  A surface is accepted exactly when no URI is empty, none is declared twice across intake
  and output, and the kinds match their list; then no URI is both intake and output, and each
  output URI has one kind.
\<close>

lemma from_endpoints_exact:
  "(from_endpoints ins outs = Ok s \<longleftrightarrow> s = \<lparr>intake_endpoints = ins, output_endpoints = outs\<rparr> \<and> surface_ok s) \<and>
    (from_endpoints ins outs = Ok s \<longrightarrow>
      \<not> (is_declared_intake s u \<and> is_declared_output s u k) \<and>
      (is_declared_output s u k \<and> is_declared_output s u k' \<longrightarrow> k = k'))"
proof -
  have "\<not> (is_declared_intake s u \<and> is_declared_output s u k)" if "surface_ok s"
  proof
    assume "is_declared_intake s u \<and> is_declared_output s u k"
    then have "u \<in> uri ` set (intake_endpoints s)" and "u \<in> uri ` set (output_endpoints s)"
      by (fastforce simp: is_declared_intake_def is_declared_output_def list_ex_iff
          intro: rev_image_eqI)+
    moreover have "uri ` set (intake_endpoints s) \<inter> uri ` set (output_endpoints s) = {}"
      using that by (simp add: surface_ok_def)
    ultimately show False
      by blast
  qed
  then show ?thesis
    using from_endpoints_Ok_iff [of ins outs s] find_output_declared [of s u k k'] by blast
qed

text \<open>
  Nothing leaves through an undeclared endpoint or towards a revoked peer: the gate produces
  an envelope exactly for an output declared with the requested kind, addressed to it, and for a
  federation target only when the peer is not revoked; every target it admits also passes the
  egress check built from the same surface.
\<close>

lemma route_output_only_declared:
  "(route_output s u k pl sig (revoked_freshness rs) = Ok env \<longleftrightarrow>
      is_declared_output s u k \<and> (k = FederationOut \<longrightarrow> u \<notin> set rs) \<and>
      env = \<lparr>target = \<lparr>uri = u, kind = k\<rparr>, out_payload = pl, substrate_signature = sig\<rparr>) \<and>
    (is_ok (route_output s u k pl sig fresh) \<longrightarrow>
      check_outbound (enforce_from_surface s) u = Ok ()) \<and>
    (u \<in> set rs \<and> is_declared_output s u FederationOut \<longrightarrow>
      route_output s u FederationOut pl sig (revoked_freshness rs) = Err (FederationEgressBlocked u))"
proof (intro conjI impI)
  show "route_output s u k pl sig (revoked_freshness rs) = Ok env \<longleftrightarrow>
      is_declared_output s u k \<and> (k = FederationOut \<longrightarrow> u \<notin> set rs) \<and>
      env = \<lparr>target = \<lparr>uri = u, kind = k\<rparr>, out_payload = pl, substrate_signature = sig\<rparr>"
    using revoked.route_output_Ok_iff [of s u k pl sig rs env] by auto
  assume "is_ok (route_output s u k pl sig fresh)"
  then have "is_declared_output s u k"
    by (auto simp: route_output_def split: if_splits option.splits)
  then show "check_outbound (enforce_from_surface s) u = Ok ()"
    by (auto simp: check_outbound_def enforce_from_surface_def is_declared_output_def list_ex_iff)
qed (simp add: revoked.route_output_blocked)

end
