(* ===== verification/Handshake.thy ===== *)
theory Handshake
  imports Crypto
begin

text \<open>
  The operator handshake, \<^verbatim>\<open>kernel/skin/src/handshake.rs\<close>: the single-operator state machine
  with initiation, termination, the per-cycle quarantine window and the idle timeout. The sealed
  derivation is a function of the trait's type.
\<close>

section \<open>Types\<close>

datatype handshake_error =
    SubstrateIdMismatch string string
  | SkinBusy
  | InvalidOperatorPubKey string
  | InvalidContinuityClaim string
  | HandshakeSealedDerive sealed_derive_error
  | WrongState string

datatype continuity_claim = Fresh | AttestedContinuity bytes

record substrate_identity_record =
  identity_substrate_id :: string

record handshake_initiate =
  hi_envelope_version :: u32
  substrate_id_proof :: string
  operator_signing_key_public :: bytes
  hi_continuity_claim :: continuity_claim
  submitted_at :: i64

record handshake_complete =
  hc_operator_token :: arr32
  hc_substrate_id :: string
  handshake_timestamp :: u64

datatype dormancy_request = RequestPaused | RequestThrottled

record handshake_terminate =
  request_dormancy :: "dormancy_request option"

record active_session =
  operator_token :: arr32
  as_operator_key :: bytes
  handshake_at_cycle :: u64
  as_continuity_claim :: continuity_claim
  in_post_handshake_quarantine :: bool

datatype skin_state = Idle | Active active_session

record handshake_config =
  post_handshake_quarantine_cycles :: u64
  quarantine_with_continuity :: u64
  idle_timeout_cycles :: u64

definition default_handshake_config :: handshake_config where
  "default_handshake_config =
     \<lparr>post_handshake_quarantine_cycles = 100, quarantine_with_continuity = 10,
      idle_timeout_cycles = 100\<rparr>"

section \<open>Operations\<close>

definition handshake_nonce :: "handshake_initiate \<Rightarrow> bytes" where
  "handshake_nonce i = operator_signing_key_public i @ u64_bytes (submitted_at i)"

definition process_initiate ::
    "sealed_derive \<Rightarrow> substrate_identity_record \<Rightarrow> handshake_initiate \<Rightarrow> u64 \<Rightarrow> bytes \<Rightarrow> skin_state \<Rightarrow>
      skin_state \<times> (handshake_complete, handshake_error) result" where
  "process_initiate derive identity i current random st =
     (case st of
        Active _ \<Rightarrow> (st, Err SkinBusy)
      | Idle \<Rightarrow>
          if substrate_id_proof i \<noteq> identity_substrate_id identity
          then (st, Err (SubstrateIdMismatch (substrate_id_proof i) (identity_substrate_id identity)))
          else if operator_signing_key_public i = []
          then (st, Err (InvalidOperatorPubKey ''empty key bytes''))
          else if hi_continuity_claim i = AttestedContinuity []
          then (st, Err (InvalidContinuityClaim
                 ''AttestedContinuity requires non-empty continuity_attestation''))
          else case map_err HandshakeSealedDerive (derive (handshake_nonce i) current random) of
            Err e \<Rightarrow> (st, Err e)
          | Abort x \<Rightarrow> (st, Abort x)
          | Ok token \<Rightarrow>
              (Active \<lparr>operator_token = token, as_operator_key = operator_signing_key_public i,
                       handshake_at_cycle = current, as_continuity_claim = hi_continuity_claim i,
                       in_post_handshake_quarantine = True\<rparr>,
               Ok \<lparr>hc_operator_token = token, hc_substrate_id = identity_substrate_id identity,
                   handshake_timestamp = current\<rparr>))"

definition process_terminate ::
    "handshake_terminate \<Rightarrow> skin_state \<Rightarrow> skin_state \<times> (unit, handshake_error) result" where
  "process_terminate t st =
     (case st of
        Active _ \<Rightarrow> (Idle, Ok ())
      | Idle \<Rightarrow> (st, Err (WrongState ''cannot terminate: no active operator'')))"

definition session_window :: "handshake_config \<Rightarrow> active_session \<Rightarrow> u64" where
  "session_window cfg s =
     (case as_continuity_claim s of
        AttestedContinuity _ \<Rightarrow> quarantine_with_continuity cfg
      | Fresh \<Rightarrow> post_handshake_quarantine_cycles cfg)"

definition advance_quarantine_window :: "u64 \<Rightarrow> handshake_config \<Rightarrow> skin_state \<Rightarrow> skin_state" where
  "advance_quarantine_window current cfg st =
     (case st of
        Idle \<Rightarrow> Idle
      | Active s \<Rightarrow>
          if \<not> in_post_handshake_quarantine s then st
          else if session_window cfg s \<le> sat_sub current (handshake_at_cycle s)
          then Active (s\<lparr>in_post_handshake_quarantine := False\<rparr>)
          else st)"

definition check_idle_timeout ::
    "u64 \<Rightarrow> u64 \<Rightarrow> handshake_config \<Rightarrow> skin_state \<Rightarrow> skin_state \<times> bool" where
  "check_idle_timeout current last_envelope cfg st =
     (case st of
        Idle \<Rightarrow> (st, False)
      | Active _ \<Rightarrow>
          if idle_timeout_cycles cfg \<le> sat_sub current last_envelope then (Idle, True)
          else (st, False))"

section \<open>The machine\<close>

datatype skin_op =
    OpInitiate handshake_initiate u64 bytes
  | OpTerminate handshake_terminate
  | OpAdvance u64
  | OpIdleCheck u64 u64

fun skin_step ::
    "sealed_derive \<Rightarrow> substrate_identity_record \<Rightarrow> handshake_config \<Rightarrow> skin_state \<Rightarrow> skin_op \<Rightarrow>
      skin_state \<times> (unit, handshake_error) result" where
  "skin_step dv ident cfg st (OpInitiate i c r) =
     (case process_initiate dv ident i c r st of (st', res) \<Rightarrow> (st', and_then res (\<lambda>_. Ok ())))"
| "skin_step dv ident cfg st (OpTerminate t) = process_terminate t st"
| "skin_step dv ident cfg st (OpAdvance c) = (advance_quarantine_window c cfg st, Ok ())"
| "skin_step dv ident cfg st (OpIdleCheck c l) = (fst (check_idle_timeout c l cfg st), Ok ())"

text \<open>A session holds a non-empty key, and an attested claim with a non-empty attestation.\<close>

definition session_ok :: "active_session \<Rightarrow> bool" where
  "session_ok s \<longleftrightarrow> as_operator_key s \<noteq> [] \<and> as_continuity_claim s \<noteq> AttestedContinuity []"

definition skin_inv :: "skin_state \<Rightarrow> bool" where
  "skin_inv st \<longleftrightarrow> (case st of Idle \<Rightarrow> True | Active s \<Rightarrow> session_ok s)"

lemma process_initiate_Ok:
  assumes "process_initiate dv ident i c r st = (st', Ok rep)"
  shows "st = Idle \<and> substrate_id_proof i = identity_substrate_id ident \<and>
    operator_signing_key_public i \<noteq> [] \<and> hi_continuity_claim i \<noteq> AttestedContinuity [] \<and>
    dv (handshake_nonce i) c r = Ok (hc_operator_token rep) \<and>
    st' = Active \<lparr>operator_token = hc_operator_token rep, as_operator_key = operator_signing_key_public i,
      handshake_at_cycle = c, as_continuity_claim = hi_continuity_claim i,
      in_post_handshake_quarantine = True\<rparr> \<and>
    hc_substrate_id rep = identity_substrate_id ident \<and> handshake_timestamp rep = c"
  using assms
  by (cases "dv (handshake_nonce i) c r")
    (auto simp: process_initiate_def split: skin_state.splits if_splits)

lemma process_initiate_not_Ok:
  "\<not> is_ok (snd (process_initiate dv ident i c r st)) \<Longrightarrow> fst (process_initiate dv ident i c r st) = st"
  by (auto simp: process_initiate_def split: skin_state.splits result.splits)

lemma skin_inv_initiate: "skin_inv st \<Longrightarrow> skin_inv (fst (process_initiate dv ident i c r st))"
proof -
  assume inv: "skin_inv st"
  obtain st' res where run: "process_initiate dv ident i c r st = (st', res)"
    by (cases "process_initiate dv ident i c r st")
  show ?thesis
  proof (cases res)
    case (Ok rep)
    then show ?thesis
      using process_initiate_Ok [of dv ident i c r st st' rep] run
      by (simp add: skin_inv_def session_ok_def)
  qed (use inv run process_initiate_not_Ok [of dv ident i c r st] in simp_all)
qed

interpretation skin: guarded_machine Idle "skin_step dv ident cfg" skin_inv for dv ident cfg
proof
  show "skin_inv Idle"
    by (simp add: skin_inv_def)
  show "skin_inv (fst (skin_step dv ident cfg st op))" if "skin_inv st" for st op
    using that
    by (cases op; cases st)
      (simp_all add: split_beta skin_inv_initiate process_terminate_def
        advance_quarantine_window_def check_idle_timeout_def,
        auto simp: skin_inv_def session_ok_def)
  show "\<not> is_ok (snd (skin_step dv ident cfg st op)) \<Longrightarrow> fst (skin_step dv ident cfg st op) = st" for st op
  proof (cases op)
    case (OpInitiate i c r)
    assume "\<not> is_ok (snd (skin_step dv ident cfg st op))"
    then have "\<not> is_ok (snd (process_initiate dv ident i c r st))"
      by (cases "snd (process_initiate dv ident i c r st)") (simp_all add: OpInitiate split_beta)
    then show ?thesis
      by (simp add: OpInitiate split_beta process_initiate_not_Ok)
  qed (auto simp: process_terminate_def split: skin_state.splits)
qed

section \<open>The quarantine window\<close>

lemma session_window_update [simp]:
  "session_window cfg (s\<lparr>in_post_handshake_quarantine := b\<rparr>) = session_window cfg s"
  by (simp add: session_window_def)

lemma advance_active:
  "foldl (\<lambda>st c. advance_quarantine_window c cfg st) (Active s) cs =
    Active (s\<lparr>in_post_handshake_quarantine := in_post_handshake_quarantine s \<and>
      (\<forall>c \<in> set cs. unat c - unat (handshake_at_cycle s) < unat (session_window cfg s))\<rparr>)"
proof (induction cs arbitrary: s)
  case Nil
  then show ?case by simp
next
  case (Cons c cs)
  have step: "advance_quarantine_window c cfg (Active s) =
      Active (s\<lparr>in_post_handshake_quarantine := in_post_handshake_quarantine s \<and>
        unat c - unat (handshake_at_cycle s) < unat (session_window cfg s)\<rparr>)"
    by (auto simp: advance_quarantine_window_def word_le_nat_alt unat_sat_sub)
  show ?case
    by (simp add: step Cons.IH conj_assoc)
qed

lemma derive_input_inject:
  assumes "length (operator_signing_key_public i) = length (operator_signing_key_public j)"
    and "derive_input k (handshake_nonce i) c r = derive_input k (handshake_nonce j) d q"
  shows "operator_signing_key_public i = operator_signing_key_public j \<and>
    submitted_at i = submitted_at j \<and> c = d \<and> r = q"
  using assms by (simp add: derive_input_def handshake_nonce_def append_eq_prefix)

section \<open>Properties\<close>

text \<open>
  The skin serves one operator at a time: along any run the active session is well-formed, a
  handshake while one is active is refused as busy and changes nothing, and one that succeeds
  started from idle, towards this substrate, with a token from the sealed derivation over the
  operator's key and timestamp, and starts in quarantine.
\<close>

lemma single_operator:
  "skin_inv (run_ops (skin_step dv ident cfg) Idle ops) \<and>
    process_initiate dv ident i c r (Active s) = (Active s, Err SkinBusy) \<and>
    (\<forall>st st' rep. process_initiate dv ident i c r st = (st', Ok rep) \<longrightarrow>
      st = Idle \<and> substrate_id_proof i = identity_substrate_id ident \<and>
      dv (operator_signing_key_public i @ u64_bytes (submitted_at i)) c r = Ok (hc_operator_token rep) \<and>
      (\<exists>s'. st' = Active s' \<and> in_post_handshake_quarantine s' \<and> handshake_at_cycle s' = c \<and>
        operator_token s' = hc_operator_token rep))"
proof (intro conjI allI impI)
  show "skin_inv (run_ops (skin_step dv ident cfg) Idle ops)"
    by (rule skin.inv_run)
  show "process_initiate dv ident i c r (Active s) = (Active s, Err SkinBusy)"
    by (simp add: process_initiate_def)
  fix st st' rep
  assume "process_initiate dv ident i c r st = (st', Ok rep)"
  note init = process_initiate_Ok [OF this]
  show "st = Idle" "substrate_id_proof i = identity_substrate_id ident"
    "dv (operator_signing_key_public i @ u64_bytes (submitted_at i)) c r = Ok (hc_operator_token rep)"
    using init by (simp_all add: handshake_nonce_def)
  show "\<exists>s'. st' = Active s' \<and> in_post_handshake_quarantine s' \<and> handshake_at_cycle s' = c \<and>
      operator_token s' = hc_operator_token rep"
    using init by simp
qed

text \<open>
  The quarantine window is exact: advanced over any cycles, a fresh session stays in
  quarantine precisely until one of them is the window's length or more past the handshake, where
  the window is the short one for an attested claim; nothing puts it back.
\<close>

lemma quarantine_window_exact:
  assumes "in_post_handshake_quarantine s"
  shows "\<exists>s'. foldl (\<lambda>st c. advance_quarantine_window c cfg st) (Active s) cs = Active s' \<and>
    operator_token s' = operator_token s \<and>
    (in_post_handshake_quarantine s' \<longleftrightarrow>
      (\<forall>c \<in> set cs. unat c - unat (handshake_at_cycle s) <
        (if as_continuity_claim s = Fresh then unat (post_handshake_quarantine_cycles cfg)
         else unat (quarantine_with_continuity cfg))))"
  using assms advance_active [of cfg s cs]
  by (cases "as_continuity_claim s") (simp_all add: session_window_def)

text \<open>
  Tokens of the software derivation separate handshakes: for operator keys of one length, two
  handshakes with the same token are the same key, timestamp, cycle and kernel randomness, where
  BLAKE3 does not collide on the two inputs.
\<close>

lemma operator_token_binding:
  assumes "process_initiate (stub_derive H stub) ident i c r st = (st', Ok rep)"
    and "process_initiate (stub_derive H stub) ident j d q st2 = (st2', Ok rep2)"
    and "hc_operator_token rep = hc_operator_token rep2"
    and "length (operator_signing_key_public i) = length (operator_signing_key_public j)"
    and "inj_on H {derive_input (substrate_secret stub) (handshake_nonce i) c r,
      derive_input (substrate_secret stub) (handshake_nonce j) d q}"
  shows "operator_signing_key_public i = operator_signing_key_public j \<and>
    submitted_at i = submitted_at j \<and> c = d \<and> r = q"
proof -
  have "derive_input (substrate_secret stub) (handshake_nonce i) c r =
      derive_input (substrate_secret stub) (handshake_nonce j) d q"
    using process_initiate_Ok [OF assms(1)] process_initiate_Ok [OF assms(2)] assms(3)
    by (intro inj_onD [OF assms(5)]) (simp_all add: stub_derive_def)
  then show ?thesis
    by (rule derive_input_inject [OF assms(4)])
qed

end
