(* ===== verification/Wal.thy ===== *)
theory Wal
  imports Prelude
begin

text \<open>
  The write-ahead log, \<^verbatim>\<open>kernel/continuity/src/wal.rs\<close>: appending, committing and rolling
  back entries, and the replay after a crash, whose per-entry decision is a trait object of the
  caller. The sequence counter is a \<open>u64\<close> that wraps as in a release build.
\<close>

section \<open>State\<close>

datatype wal_error =
    EntryNotFound u64
  | AlreadyCommitted u64
  | CannotRollbackCommitted u64

datatype wal_entry_state = Pending | Committed | RolledBack

record wal_entry =
  sequence :: u64
  we_at_cycle :: u64
  payload :: bytes
  committed_node_hash :: "arr32 option"
  we_state :: wal_entry_state

record in_memory_wal =
  wal_entries :: "wal_entry list"
  next_sequence :: u64

definition wal_new :: in_memory_wal where
  "wal_new = \<lparr>wal_entries = [], next_sequence = 0\<rparr>"

section \<open>Operations\<close>

definition wal_append :: "u64 \<Rightarrow> bytes \<Rightarrow> in_memory_wal \<Rightarrow> in_memory_wal \<times> u64" where
  "wal_append at_cycle pl w =
     (w\<lparr>next_sequence := next_sequence w + 1,
        wal_entries := wal_entries w @
          [\<lparr>sequence = next_sequence w, we_at_cycle = at_cycle, payload = pl,
            committed_node_hash = None, we_state = Pending\<rparr>]\<rparr>,
      next_sequence w)"

text \<open>\<^verbatim>\<open>entries.iter_mut().find\<close> by sequence number: the first such entry's index.\<close>

definition find_entry :: "u64 \<Rightarrow> in_memory_wal \<Rightarrow> nat option" where
  "find_entry seq w = position (\<lambda>e. sequence e = seq) (wal_entries w)"

definition wal_commit ::
    "u64 \<Rightarrow> arr32 \<Rightarrow> in_memory_wal \<Rightarrow> in_memory_wal \<times> (unit, wal_error) result" where
  "wal_commit seq node_hash w =
     (case find_entry seq w of
        None \<Rightarrow> (w, Err (EntryNotFound seq))
      | Some i \<Rightarrow>
          (let e = wal_entries w ! i in
           case we_state e of
             Pending \<Rightarrow>
               (w\<lparr>wal_entries := (wal_entries w)
                   [i := e\<lparr>we_state := Committed, committed_node_hash := Some node_hash\<rparr>]\<rparr>, Ok ())
           | Committed \<Rightarrow> (w, Err (AlreadyCommitted seq))
           | RolledBack \<Rightarrow> (w, Err (CannotRollbackCommitted seq))))"

definition wal_rollback ::
    "u64 \<Rightarrow> in_memory_wal \<Rightarrow> in_memory_wal \<times> (unit, wal_error) result" where
  "wal_rollback seq w =
     (case find_entry seq w of
        None \<Rightarrow> (w, Err (EntryNotFound seq))
      | Some i \<Rightarrow>
          (let e = wal_entries w ! i in
           case we_state e of
             Pending \<Rightarrow> (w\<lparr>wal_entries := (wal_entries w)[i := e\<lparr>we_state := RolledBack\<rparr>]\<rparr>, Ok ())
           | Committed \<Rightarrow> (w, Err (CannotRollbackCommitted seq))
           | RolledBack \<Rightarrow> (w, Ok ())))"

definition pending_entries :: "in_memory_wal \<Rightarrow> wal_entry list" where
  "pending_entries w = filter (\<lambda>e. we_state e = Pending) (wal_entries w)"

definition wal_get :: "u64 \<Rightarrow> in_memory_wal \<Rightarrow> wal_entry option" where
  "wal_get seq w = List.find (\<lambda>e. sequence e = seq) (wal_entries w)"

definition state_counts :: "in_memory_wal \<Rightarrow> nat \<times> nat \<times> nat" where
  "state_counts w =
     foldl (\<lambda>(p, c, r) e. case we_state e of
         Pending \<Rightarrow> (Suc p, c, r) | Committed \<Rightarrow> (p, Suc c, r) | RolledBack \<Rightarrow> (p, c, Suc r))
       (0, 0, 0) (wal_entries w)"

section \<open>Replay\<close>

datatype recovery_action = ActAlreadyCommitted | ReplayCommit | ReplayRollback | DeadLetter

record recovery_report =
  rr_sequence :: u64
  rr_action :: recovery_action
  rr_reason :: string

text \<open>The decider is a function on its own state.\<close>

type_synonym 'd replay_decider = "'d \<Rightarrow> wal_entry \<Rightarrow> 'd \<times> recovery_report"

definition apply_action ::
    "recovery_action \<Rightarrow> wal_entry \<Rightarrow> in_memory_wal \<Rightarrow> in_memory_wal" where
  "apply_action action entry w =
     (if action = ActAlreadyCommitted \<or> action = ReplayCommit
      then fst (wal_commit (sequence entry)
             (case committed_node_hash entry of Some h \<Rightarrow> h | None \<Rightarrow> 0) w)
      else fst (wal_rollback (sequence entry) w))"

primrec replay_loop ::
    "'d replay_decider \<Rightarrow> u64 list \<Rightarrow> in_memory_wal \<Rightarrow> 'd \<Rightarrow>
      (in_memory_wal \<times> 'd \<times> recovery_report list, unit) result" where
  "replay_loop decide [] w d = Ok (w, d, [])"
| "replay_loop decide (seq # seqs) w d =
     (case wal_get seq w of
        None \<Rightarrow> Abort Panicked
      | Some entry \<Rightarrow>
          (case decide d entry of (d', report) \<Rightarrow>
             and_then (replay_loop decide seqs (apply_action (rr_action report) entry w) d')
               (\<lambda>(w', d'', reports). Ok (w', d'', report # reports))))"

definition replay_pending ::
    "'d replay_decider \<Rightarrow> in_memory_wal \<Rightarrow> 'd \<Rightarrow>
      (in_memory_wal \<times> 'd \<times> recovery_report list, unit) result" where
  "replay_pending decide w d = replay_loop decide (map sequence (pending_entries w)) w d"

section \<open>The invariant\<close>

text \<open>
  Entry \<open>i\<close> has sequence number \<open>i\<close>, and exactly the committed entries have a node hash.
\<close>

definition wal_inv :: "in_memory_wal \<Rightarrow> bool" where
  "wal_inv w \<longleftrightarrow>
     map sequence (wal_entries w) = map word_of_nat [0..<length (wal_entries w)] \<and>
     next_sequence w = word_of_nat (length (wal_entries w)) \<and>
     (\<forall>e \<in> set (wal_entries w). we_state e = Committed \<longleftrightarrow> committed_node_hash e \<noteq> None)"

datatype wal_op = WAppend u64 bytes | WCommit u64 arr32 | WRollback u64

fun wal_step :: "in_memory_wal \<Rightarrow> wal_op \<Rightarrow> in_memory_wal \<times> (u64 option, wal_error) result" where
  "wal_step w (WAppend c pl) = (case wal_append c pl w of (w', seq) \<Rightarrow> (w', Ok (Some seq)))"
| "wal_step w (WCommit seq h) =
     (case wal_commit seq h w of (w', r) \<Rightarrow> (w', and_then r (\<lambda>_. Ok None)))"
| "wal_step w (WRollback seq) =
     (case wal_rollback seq w of (w', r) \<Rightarrow> (w', and_then r (\<lambda>_. Ok None)))"

lemma find_entry_Some:
  "find_entry seq w = Some i \<Longrightarrow> i < length (wal_entries w) \<and> sequence (wal_entries w ! i) = seq"
  unfolding find_entry_def by (drule position_Some) simp

lemma update_keeps_sequences:
  "i < length es \<Longrightarrow> sequence e = sequence (es ! i) \<Longrightarrow> map sequence (es[i := e]) = map sequence es"
  by (metis list_update_id map_update nth_map)

lemma wal_inv_update:
  assumes "wal_inv w" and "i < length (wal_entries w)" and "sequence e = sequence (wal_entries w ! i)"
    and "we_state e = Committed \<longleftrightarrow> committed_node_hash e \<noteq> None"
  shows "wal_inv (w\<lparr>wal_entries := (wal_entries w)[i := e]\<rparr>)"
  using assms set_update_subset_insert [of "wal_entries w" i e]
  by (simp add: wal_inv_def update_keeps_sequences) blast

lemma wal_inv_commit: "wal_inv w \<Longrightarrow> wal_inv (fst (wal_commit seq h w))"
  by (auto simp: wal_commit_def Let_def intro!: wal_inv_update dest: find_entry_Some
      split: option.split wal_entry_state.split)

lemma wal_inv_nth:
  "wal_inv w \<Longrightarrow> i < length (wal_entries w) \<Longrightarrow>
    we_state (wal_entries w ! i) = Committed \<longleftrightarrow> committed_node_hash (wal_entries w ! i) \<noteq> None"
  by (simp add: wal_inv_def)

lemma wal_inv_rollback: "wal_inv w \<Longrightarrow> wal_inv (fst (wal_rollback seq w))"
  by (auto simp: wal_rollback_def Let_def intro!: wal_inv_update dest: find_entry_Some wal_inv_nth
      split: option.split wal_entry_state.split)

lemma wal_inv_append: "wal_inv w \<Longrightarrow> wal_inv (fst (wal_append c pl w))"
  by (auto simp: wal_inv_def wal_append_def)

interpretation wal: guarded_machine wal_new wal_step wal_inv
proof
  show "wal_inv wal_new"
    by (simp add: wal_inv_def wal_new_def)
  show "wal_inv w \<Longrightarrow> wal_inv (fst (wal_step w op))" for w op
    by (cases op) (simp_all add: split_beta wal_inv_append wal_inv_commit wal_inv_rollback)
  show "\<not> is_ok (snd (wal_step w op)) \<Longrightarrow> fst (wal_step w op) = w" for w op
    by (cases op) (auto simp: wal_append_def wal_commit_def wal_rollback_def Let_def
        split: option.splits wal_entry_state.splits)
qed

lemma wal_inv_distinct:
  assumes "wal_inv w" and "length (wal_entries w) < 2 ^ 64"
  shows "distinct (map sequence (wal_entries w))"
proof -
  have "inj_on (word_of_nat :: nat \<Rightarrow> u64) {0..<length (wal_entries w)}"
    using assms(2) by (intro inj_onI) (simp add: u64_of_length_inject)
  then show ?thesis
    using assms(1) by (simp add: wal_inv_def distinct_map)
qed

section \<open>The effect of a replay\<close>

text \<open>The reference: one pass over the entries that settles each pending one as decided.\<close>

definition settle_entry :: "recovery_action \<Rightarrow> wal_entry \<Rightarrow> wal_entry" where
  "settle_entry action e =
     (if action = ActAlreadyCommitted \<or> action = ReplayCommit
      then e\<lparr>we_state := Committed,
             committed_node_hash := Some (case committed_node_hash e of Some h \<Rightarrow> h | None \<Rightarrow> 0)\<rparr>
      else e\<lparr>we_state := RolledBack\<rparr>)"

primrec settle ::
    "'d replay_decider \<Rightarrow> 'd \<Rightarrow> wal_entry list \<Rightarrow> wal_entry list \<times> 'd \<times> recovery_report list" where
  "settle decide d [] = ([], d, [])"
| "settle decide d (e # es) =
     (if we_state e = Pending then
        (case decide d e of (d', report) \<Rightarrow>
           case settle decide d' es of (es', d'', reports) \<Rightarrow>
             (settle_entry (rr_action report) e # es', d'', report # reports))
      else (case settle decide d es of (es', d', reports) \<Rightarrow> (e # es', d', reports)))"

lemma find_append_first:
  "(\<forall>x \<in> set xs. \<not> P x) \<Longrightarrow> P y \<Longrightarrow> List.find P (xs @ y # ys) = Some y"
  by (induction xs) auto

lemma first_entry:
  assumes "wal_entries w = xs @ e # ys" and "distinct (map sequence (wal_entries w))"
  shows "find_entry (sequence e) w = Some (length xs)" and "wal_get (sequence e) w = Some e"
proof -
  have "sequence e \<notin> sequence ` set xs"
    using assms by simp
  then have "\<forall>x \<in> set xs. sequence x \<noteq> sequence e"
    by (metis image_eqI)
  then show "find_entry (sequence e) w = Some (length xs)" and "wal_get (sequence e) w = Some e"
    by (simp_all add: find_entry_def wal_get_def assms(1) position_append_first find_append_first)
qed

lemma apply_action_first:
  assumes "wal_entries w = xs @ e # ys" and "distinct (map sequence (wal_entries w))"
    and "we_state e = Pending"
  shows "apply_action action e w = w\<lparr>wal_entries := xs @ settle_entry action e # ys\<rparr>"
  using assms first_entry [OF assms(1,2)]
  by (simp add: apply_action_def settle_entry_def wal_commit_def wal_rollback_def)

lemma sequence_settle_entry [simp]: "sequence (settle_entry action e) = sequence e"
  by (simp add: settle_entry_def)

lemma replay_loop_settle:
  assumes "wal_entries w = xs @ ys" and "distinct (map sequence (xs @ ys))"
  shows "replay_loop decide (map sequence (filter (\<lambda>e. we_state e = Pending) ys)) w d =
    (case settle decide d ys of (ys', d', reports) \<Rightarrow>
       Ok (w\<lparr>wal_entries := xs @ ys'\<rparr>, d', reports))"
  using assms
proof (induction ys arbitrary: xs w d)
  case Nil
  then show ?case by simp
next
  case (Cons e ys)
  show ?case
  proof (cases "we_state e = Pending")
    case False
    then show ?thesis
      using Cons.IH [of w "xs @ [e]" d] Cons.prems by (simp split: prod.splits)
  next
    case True
    obtain d' report where d: "decide d e = (d', report)"
      by (cases "decide d e")
    let ?e = "settle_entry (rr_action report) e"
    have "wal_get (sequence e) w = Some e"
      using Cons.prems by (intro first_entry(2) [of w xs e ys]) simp_all
    moreover have "apply_action (rr_action report) e w = w\<lparr>wal_entries := xs @ ?e # ys\<rparr>"
      using Cons.prems True by (intro apply_action_first) simp_all
    ultimately show ?thesis
      using Cons.IH [of "w\<lparr>wal_entries := xs @ ?e # ys\<rparr>" "xs @ [?e]" d'] Cons.prems True
      by (simp add: d split: prod.splits)
  qed
qed

lemma settle_done:
  "settle decide d es = (es', d', reports) \<Longrightarrow>
    filter (\<lambda>e. we_state e = Pending) es' = [] \<and>
    length reports = length (filter (\<lambda>e. we_state e = Pending) es) \<and>
    list_all2 (\<lambda>e e'. sequence e' = sequence e \<and> payload e' = payload e \<and>
      (we_state e \<noteq> Pending \<longrightarrow> e' = e)) es es'"
proof (induction es arbitrary: d es' d' reports)
  case (Cons e es)
  then show ?case
    by (auto simp: settle_entry_def split: prod.splits if_splits)
qed simp

section \<open>Properties\<close>

text \<open>
  C15. Every run of appends, commits and rollbacks keeps the log in order: entry \<open>i\<close> has sequence
  number \<open>i\<close>, exactly the committed entries carry a node hash, and failed operations can be left
  out of the run without changing the log.
\<close>

theorem wal_run_invariant:
  "wal_inv (run_ops wal_step wal_new ops) \<and>
    run_ops wal_step wal_new (wal.successes wal_new ops) = run_ops wal_step wal_new ops"
  using wal.inv_run [of ops] wal.run_successes [of wal_new ops] by simp

text \<open>
  C14. Replay after a crash settles the log in one pass: it never panics on a log of the
  machine, asks the decider about each pending entry once and in append order, leaves every
  committed or rolled-back entry as it was, and leaves nothing pending. A commit by replay stores
  the all-zero placeholder hash.
\<close>

theorem replay_settles:
  assumes "wal_inv w" and "length (wal_entries w) < 2 ^ 64"
  shows "\<exists>es d' reports. settle decide d (wal_entries w) = (es, d', reports) \<and>
    replay_pending decide w d = Ok (w\<lparr>wal_entries := es\<rparr>, d', reports) \<and>
    pending_entries (w\<lparr>wal_entries := es\<rparr>) = [] \<and>
    length reports = length (pending_entries w) \<and>
    (\<forall>i < length (wal_entries w). we_state (wal_entries w ! i) \<noteq> Pending \<longrightarrow>
      es ! i = wal_entries w ! i) \<and>
    (\<forall>i < length (wal_entries w). we_state (wal_entries w ! i) = Pending \<longrightarrow>
      settle_entry ReplayCommit (wal_entries w ! i) =
        (wal_entries w ! i)\<lparr>we_state := Committed, committed_node_hash := Some 0\<rparr>)"
proof -
  obtain es d' reports where s: "settle decide d (wal_entries w) = (es, d', reports)"
    by (cases "settle decide d (wal_entries w)")
  have "replay_pending decide w d = Ok (w\<lparr>wal_entries := es\<rparr>, d', reports)"
    using replay_loop_settle [of w "[]" "wal_entries w" decide d] wal_inv_distinct [OF assms]
    by (simp add: replay_pending_def pending_entries_def s)
  moreover have "committed_node_hash (wal_entries w ! i) = None"
    if "i < length (wal_entries w)" "we_state (wal_entries w ! i) = Pending" for i
    using wal_inv_nth [OF assms(1) that(1)] that(2) by simp
  ultimately show ?thesis
    using s settle_done [OF s]
    by (intro exI [of _ es] exI [of _ d'] exI [of _ reports])
      (simp add: pending_entries_def settle_entry_def list_all2_conv_all_nth)
qed

lemma replay_settles_witness:
  "\<exists>es d' reports. replay_pending (\<lambda>d e. (Suc d, \<lparr>rr_sequence = sequence e,
      rr_action = ReplayCommit, rr_reason = []\<rparr>))
      (run_ops wal_step wal_new [WAppend 1 [], WAppend 2 [], WRollback 0]) 0 =
    Ok (run_ops wal_step wal_new [WAppend 1 [], WAppend 2 [], WRollback 0]\<lparr>wal_entries := es\<rparr>,
      d', reports) \<and> length reports = 1"
proof -
  let ?ops = "[WAppend 1 [], WAppend 2 [], WRollback 0]"
  let ?decide = "\<lambda>d e. (Suc d, \<lparr>rr_sequence = sequence e, rr_action = ReplayCommit, rr_reason = []\<rparr>)"
  let ?w = "run_ops wal_step wal_new ?ops"
  have "length (wal_entries ?w) < 2 ^ 64 \<and> length (pending_entries ?w) = 1"
    by (simp add: wal_new_def wal_append_def wal_rollback_def find_entry_def pending_entries_def)
  then show ?thesis
    using replay_settles [OF wal.inv_run [of ?ops], of ?decide 0] by fastforce
qed

end
