(* ===== verification/Framing.thy ===== *)
theory Framing
  imports Canonical_Bytes
begin

text \<open>
  The stdio framing of the worker bridge, \<^verbatim>\<open>kernel/bridge/rust/src/framing.rs\<close>, with the
  error type of \<^verbatim>\<open>lib.rs\<close>. A reader is the list of what its \<^verbatim>\<open>read\<close> calls will meet: a
  chunk of bytes (an empty one is a read of zero bytes), an interrupted call, an error; the list's
  end is end of file. A writer collects what was written and may fail once its room is used up.
\<close>

section \<open>Errors\<close>

datatype io_error = IoErr string

datatype bridge_error =
    BrProtocol string
  | BrIo io_error
  | BrCanonicalBytes cb_error
  | BrSubprocess string
  | BrFrameTooLarge string
  | BrHmacMismatch string
  | CorrelationMismatch u64 u64
  | BrTimeout u64
  | Desynchronized

text \<open>The \<^verbatim>\<open>Display\<close> of an error; the deadlines are whole seconds.\<close>

fun bridge_display :: "bridge_error \<Rightarrow> string" where
  "bridge_display (BrProtocol s) = ''bridge protocol: '' @ s"
| "bridge_display (BrIo (IoErr s)) = ''bridge I/O: '' @ s"
| "bridge_display (BrCanonicalBytes e) = ''bridge canonical bytes: '' @ cb_display e"
| "bridge_display (BrSubprocess s) = ''bridge subprocess: '' @ s"
| "bridge_display (BrFrameTooLarge s) = ''bridge frame too large: '' @ s"
| "bridge_display (BrHmacMismatch s) = ''bridge HMAC mismatch: '' @ s"
| "bridge_display (CorrelationMismatch expected got) =
     ''bridge correlation mismatch: expected '' @ decimal (unat expected) @ '', got ''
     @ decimal (unat got)"
| "bridge_display (BrTimeout d) =
     ''bridge call timed out after '' @ decimal (unat d)
     @ ''s with no response from the python worker''"
| "bridge_display Desynchronized =
     ''bridge desynchronized: a prior call timed out; ''
     @ ''connection is poisoned and must be re-established''"

definition MAX_FRAME_BODY_SIZE :: nat where
  "MAX_FRAME_BODY_SIZE = 1024 * 1024"

section \<open>Streams\<close>

datatype read_event = Chunk bytes | Interrupted | ReadError io_error

record writer =
  written :: bytes
  room :: "nat option"
  write_failure :: io_error
  flush_failure :: "io_error option"

definition write_all :: "writer \<Rightarrow> bytes \<Rightarrow> writer \<times> (unit, bridge_error) result" where
  "write_all w bs =
     (case room w of
        None \<Rightarrow> (w\<lparr>written := written w @ bs\<rparr>, Ok ())
      | Some n \<Rightarrow>
          if length bs \<le> n
          then (w\<lparr>written := written w @ bs, room := Some (n - length bs)\<rparr>, Ok ())
          else (w\<lparr>written := written w @ take n bs, room := Some 0\<rparr>, Err (BrIo (write_failure w))))"

definition flush_writer :: "writer \<Rightarrow> (unit, bridge_error) result" where
  "flush_writer w = (case flush_failure w of None \<Rightarrow> Ok () | Some e \<Rightarrow> Err (BrIo e))"

section \<open>Reading\<close>

fun event_size :: "read_event \<Rightarrow> nat" where
  "event_size (Chunk c) = Suc (length c)"
| "event_size _ = 1"

definition stopped_short :: "nat \<Rightarrow> bytes \<Rightarrow> (bytes option, bridge_error) result" where
  "stopped_short n buf =
     (if buf = [] then Ok None
      else Err (BrSubprocess (''truncated read: got '' @ decimal (length buf) @ '' of '' @ decimal n
                 @ '' bytes before EOF'')))"

text \<open>
  The loop of \<^verbatim>\<open>read_exact_or_eof\<close>: \<open>buf\<close> holds the bytes read so far, and each call asks
  for the rest of the \<open>n\<close> bytes.
\<close>

function read_loop ::
    "nat \<Rightarrow> bytes \<Rightarrow> read_event list \<Rightarrow> (bytes option, bridge_error) result \<times> read_event list"
where
  "read_loop n buf es =
     (if n \<le> length buf then (Ok (Some buf), es)
      else case es of
        [] \<Rightarrow> (stopped_short n buf, [])
      | Interrupted # es' \<Rightarrow> read_loop n buf es'
      | ReadError e # es' \<Rightarrow> (Err (BrIo e), es')
      | Chunk c # es' \<Rightarrow>
          if c = [] then (stopped_short n buf, es')
          else if n - length buf < length c
          then read_loop n (buf @ take (n - length buf) c) (Chunk (drop (n - length buf) c) # es')
          else read_loop n (buf @ c) es')"
  by pat_completeness auto

termination by (relation "measure (\<lambda>(n, buf, es). sum_list (map event_size es))") auto

declare read_loop.simps [simp del]

lemma read_loop_done [simp]: "n \<le> length buf \<Longrightarrow> read_loop n buf es = (Ok (Some buf), es)"
  by (subst read_loop.simps) simp

lemma read_loop_steps [simp]:
  "length buf < n \<Longrightarrow> read_loop n buf [] = (stopped_short n buf, [])"
  "length buf < n \<Longrightarrow> read_loop n buf (Interrupted # es) = read_loop n buf es"
  "length buf < n \<Longrightarrow> read_loop n buf (ReadError e # es) = (Err (BrIo e), es)"
  "length buf < n \<Longrightarrow> read_loop n buf (Chunk [] # es) = (stopped_short n buf, es)"
  by (subst read_loop.simps, simp)+

lemma read_loop_chunk [simp]:
  assumes "length buf < n" and "c \<noteq> []"
  shows "read_loop n buf (Chunk c # es) =
    (if n - length buf < length c
     then (Ok (Some (buf @ take (n - length buf) c)), Chunk (drop (n - length buf) c) # es)
     else read_loop n (buf @ c) es)"
  using assms by (subst read_loop.simps) simp

definition read_exact_or_eof ::
    "nat \<Rightarrow> read_event list \<Rightarrow> (bytes option, bridge_error) result \<times> read_event list" where
  "read_exact_or_eof n es = (if n = 0 then (Ok (Some []), es) else read_loop n [] es)"

definition read_frame ::
    "read_event list \<Rightarrow> (bytes option, bridge_error) result \<times> read_event list" where
  "read_frame es =
     (case read_exact_or_eof 4 es of
        (Ok None, es1) \<Rightarrow> (Ok None, es1)
      | (Ok (Some lb), es1) \<Rightarrow>
          let len = unat (word_of_be lb :: u32) in
          if MAX_FRAME_BODY_SIZE < len
          then (Err (BrFrameTooLarge (''incoming frame size '' @ decimal len @ '' exceeds cap ''
                  @ decimal MAX_FRAME_BODY_SIZE)), es1)
          else (case read_exact_or_eof len es1 of
              (Ok None, es2) \<Rightarrow> (Err (BrSubprocess ''EOF after length prefix; no body bytes''), es2)
            | (r, es2) \<Rightarrow> (r, es2))
      | (r, es1) \<Rightarrow> (r, es1))"

section \<open>Writing\<close>

definition write_frame :: "writer \<Rightarrow> bytes \<Rightarrow> writer \<times> (unit, bridge_error) result" where
  "write_frame w body =
     (if MAX_FRAME_BODY_SIZE < length body
      then (w, Err (BrFrameTooLarge (''outgoing frame size '' @ decimal (length body)
              @ '' exceeds cap '' @ decimal MAX_FRAME_BODY_SIZE)))
      else case write_all w (u32_bytes (word_of_nat (length body))) of
          (w1, Ok _) \<Rightarrow>
            (case write_all w1 body of
               (w2, Ok _) \<Rightarrow> (w2, flush_writer w2)
             | (w2, r) \<Rightarrow> (w2, r))
        | (w1, r) \<Rightarrow> (w1, r))"

section \<open>The bytes delivered\<close>

text \<open>
  A stream without errors and without zero reads before its end delivers a byte string; how it is
  cut into chunks and where it is interrupted should not matter.
\<close>

fun delivered :: "read_event list \<Rightarrow> bytes" where
  "delivered [] = []"
| "delivered (Chunk c # es) = c @ delivered es"
| "delivered (_ # es) = delivered es"

fun clean_event :: "read_event \<Rightarrow> bool" where
  "clean_event (Chunk c) \<longleftrightarrow> c \<noteq> []"
| "clean_event Interrupted \<longleftrightarrow> True"
| "clean_event (ReadError _) \<longleftrightarrow> False"

definition clean :: "read_event list \<Rightarrow> bool" where
  "clean es \<longleftrightarrow> list_all clean_event es"

lemma clean_simps [simp]:
  "clean []" "clean (e # es) \<longleftrightarrow> clean_event e \<and> clean es"
  by (simp_all add: clean_def)

text \<open>What reading \<open>n\<close> bytes and reading a frame mean on a byte string.\<close>

definition parse_exact :: "nat \<Rightarrow> bytes \<Rightarrow> (bytes option, bridge_error) result \<times> bytes" where
  "parse_exact n bs =
     (if n \<le> length bs then (Ok (Some (take n bs)), drop n bs) else (stopped_short n bs, []))"

definition parse_frame :: "bytes \<Rightarrow> (bytes option, bridge_error) result \<times> bytes" where
  "parse_frame bs =
     (if length bs < 4 then (stopped_short 4 bs, [])
      else
        let len = unat (word_of_be (take 4 bs) :: u32); rest = drop 4 bs in
        if MAX_FRAME_BODY_SIZE < len
        then (Err (BrFrameTooLarge (''incoming frame size '' @ decimal len @ '' exceeds cap ''
                @ decimal MAX_FRAME_BODY_SIZE)), rest)
        else if len \<le> length rest then (Ok (Some (take len rest)), drop len rest)
        else if rest = [] then (Err (BrSubprocess ''EOF after length prefix; no body bytes''), [])
        else (stopped_short len rest, []))"

definition reads_as ::
    "'a \<times> read_event list \<Rightarrow> 'a \<times> bytes \<Rightarrow> bool" where
  "reads_as r p \<longleftrightarrow> fst r = fst p \<and> clean (snd r) \<and> delivered (snd r) = snd p"

lemma reads_as_pair [simp]:
  "reads_as (r, es) (p, bs) \<longleftrightarrow> r = p \<and> clean es \<and> delivered es = bs"
  by (simp add: reads_as_def)

lemma read_loop_reads_as:
  assumes "clean es" and "length buf \<le> n"
  shows "reads_as (read_loop n buf es) (parse_exact n (buf @ delivered es))"
  using assms
proof (induction es arbitrary: buf)
  case Nil
  then show ?case by (cases "length buf = n") (simp_all add: parse_exact_def)
next
  case (Cons e es)
  show ?case
  proof (cases "length buf = n")
    case True
    with Cons.prems show ?thesis by (simp add: parse_exact_def)
  next
    case False
    show ?thesis
    proof (cases e)
      case (Chunk c)
      then show ?thesis
        using False Cons.prems Cons.IH [of "buf @ c"]
        by (cases "n - length buf < length c") (simp_all add: parse_exact_def)
    qed (use False Cons in simp_all)
  qed
qed

lemma read_exact_reads_as:
  "clean es \<Longrightarrow> reads_as (read_exact_or_eof n es) (parse_exact n (delivered es))"
  using read_loop_reads_as [of es "[]" n]
  by (cases "n = 0") (simp_all add: read_exact_or_eof_def parse_exact_def)

lemma read_frame_reads_as:
  assumes "clean es"
  shows "reads_as (read_frame es) (parse_frame (delivered es))"
proof -
  let ?bs = "delivered es"
  obtain r1 es1 where r1: "read_exact_or_eof 4 es = (r1, es1)"
    by fastforce
  note a1 = read_exact_reads_as [OF assms, of 4, unfolded r1 parse_exact_def]
  show ?thesis
  proof (cases "length ?bs < 4")
    case True
    with a1 r1 show ?thesis
      by (auto simp: read_frame_def parse_frame_def stopped_short_def)
  next
    case False
    define len where "len = unat (word_of_be (take 4 ?bs) :: u32)"
    obtain r2 es2 where r2: "read_exact_or_eof len es1 = (r2, es2)"
      by fastforce
    from False a1 have 1: "r1 = Ok (Some (take 4 ?bs))" "clean es1" "delivered es1 = drop 4 ?bs"
      by auto
    note a2 = read_exact_reads_as [OF 1(2), of len, unfolded r2 parse_exact_def 1(3)]
    show ?thesis
    proof (cases "MAX_FRAME_BODY_SIZE < len")
      case True
      with False 1 r1 show ?thesis
        by (simp add: read_frame_def parse_frame_def len_def [symmetric] Let_def)
    next
      case F: False
      with False 1 r1 r2 a2 show ?thesis
        by (auto simp: read_frame_def parse_frame_def len_def [symmetric] stopped_short_def
            Let_def split: if_splits)
    qed
  qed
qed

lemma parse_frame_exact:
  assumes "length body \<le> MAX_FRAME_BODY_SIZE"
  shows "parse_frame (u32_bytes (word_of_nat (length body)) @ body @ rest) = (Ok (Some body), rest)"
proof -
  have "unat (word_of_nat (length body) :: u32) = length body"
    using assms by (simp add: MAX_FRAME_BODY_SIZE_def unat_of_nat)
  with assms show ?thesis
    by (simp add: parse_frame_def)
qed

lemma write_frame_unlimited:
  "room w = None \<Longrightarrow> flush_failure w = None \<Longrightarrow> length body \<le> MAX_FRAME_BODY_SIZE \<Longrightarrow>
    write_frame w body =
      (w\<lparr>written := written w @ u32_bytes (word_of_nat (length body)) @ body\<rparr>, Ok ())"
  by (simp add: write_frame_def write_all_def flush_writer_def)

lemma write_frame_Ok:
  assumes "write_frame w body = (w', Ok ())"
  shows "length body \<le> MAX_FRAME_BODY_SIZE"
    and "written w' = written w @ u32_bytes (word_of_nat (length body)) @ body"
  using assms by (auto simp: write_frame_def write_all_def split: if_splits option.splits)

section \<open>Properties\<close>

text \<open>
  C33. Reading a frame depends on the bytes the stream delivers alone: on every stream without
  errors, however it is cut into chunks and wherever it is interrupted, the outcome and the bytes
  left over are those of parsing the byte string.
\<close>

theorem read_frame_ignores_chunking:
  assumes "clean es"
  shows "fst (read_frame es) = fst (parse_frame (delivered es)) \<and>
    delivered (snd (read_frame es)) = snd (parse_frame (delivered es))"
  using read_frame_reads_as [OF assms] by (simp add: reads_as_def)

lemma read_frame_ignores_chunking_witness:
  "clean [Chunk [0, 0], Interrupted, Chunk [0, 2, 7], Chunk [8, 9]] \<and>
    fst (read_frame [Chunk [0, 0], Interrupted, Chunk [0, 2, 7], Chunk [8, 9]]) =
      fst (parse_frame [0, 0, 0, 2, 7, 8, 9])"
  using read_frame_ignores_chunking [of "[Chunk [0, 0], Interrupted, Chunk [0, 2, 7], Chunk [8, 9]]"]
  by simp

text \<open>
  What \<^verbatim>\<open>write_frame\<close> reports as written, \<^verbatim>\<open>read_frame\<close> returns: a reader of
  the bytes added to the writer gets the body back, and is then at the byte after the frame.
\<close>

lemma frame_round_trip:
  assumes "write_frame w body = (w', Ok ())" and "clean es"
    and "written w @ delivered es = written w' @ rest"
  shows "fst (read_frame es) = Ok (Some body) \<and> delivered (snd (read_frame es)) = rest"
proof -
  have "delivered es = u32_bytes (word_of_nat (length body)) @ body @ rest"
    using assms(3) write_frame_Ok(2) [OF assms(1)] by simp
  then show ?thesis
    using read_frame_reads_as [OF assms(2)] parse_frame_exact [OF write_frame_Ok(1) [OF assms(1)]]
    by (simp add: reads_as_def)
qed

end
