(* ===== verification/Bridge_Protocol.thy ===== *)
theory Bridge_Protocol
  imports Framing Crypto
begin

text \<open>
  The messages of the worker bridge, \<^verbatim>\<open>kernel/bridge/rust/src/protocol.rs\<close>: a message is a
  canonical map, a frame body is its HMAC-SHA256 followed by its bytes. \<open>mac\<close> is HMAC-SHA256 and
  \<open>sha\<close> SHA-256, both third-party. A 64-bit float is a value of a type \<open>'f\<close>, printed by
  \<open>repr\<close> and read by \<open>parse\<close>, which are parameters.
\<close>

section \<open>Messages\<close>

definition PROTOCOL_VERSION :: u64 where
  "PROTOCOL_VERSION = 1"

definition HMAC_SIZE :: nat where
  "HMAC_SIZE = 32"

definition bootstrap_key :: "hash_fn \<Rightarrow> arr32" where
  "bootstrap_key sha = sha (str_bytes ''myco-bridge-protocol-v1-bootstrap'')"

record message =
  msg_version :: u64
  message_type :: string
  request_id :: u64
  msg_payload :: vmap

definition new_message :: "string \<Rightarrow> u64 \<Rightarrow> vmap \<Rightarrow> message" where
  "new_message ty rid payload =
     \<lparr>msg_version = PROTOCOL_VERSION, message_type = ty, request_id = rid, msg_payload = payload\<rparr>"

definition message_value :: "message \<Rightarrow> Value" where
  "message_value m = VMap (bt_of
     [(''v'', VUint (msg_version m)),
      (''type'', VString (message_type m)),
      (''request_id'', VUint (request_id m)),
      (''payload'', VMap (msg_payload m))])"

definition to_body_canonical_bytes :: "message \<Rightarrow> (bytes, cb_error) result" where
  "to_body_canonical_bytes m = encode (message_value m)"

definition protocol_err :: "('a, cb_error) result \<Rightarrow> ('a, bridge_error) result" where
  "protocol_err r = map_err (\<lambda>e. BrProtocol (cb_display e)) r"

definition from_body_canonical_bytes :: "bytes \<Rightarrow> (message, bridge_error) result" where
  "from_body_canonical_bytes body =
     and_then (map_err BrCanonicalBytes (decode body)) (\<lambda>decoded.
       case decoded of
         VMap m \<Rightarrow>
           and_then (protocol_err (map_get_uint m ''v'')) (\<lambda>version.
             if version \<noteq> PROTOCOL_VERSION
             then Err (BrProtocol (''protocol version mismatch: got '' @ decimal (unat version)
                    @ '', expected '' @ decimal (unat PROTOCOL_VERSION)))
             else
               and_then (protocol_err (map_get_string m ''type'')) (\<lambda>ty.
               and_then (protocol_err (map_get_uint m ''request_id'')) (\<lambda>rid.
               and_then (protocol_err (map_get_map m ''payload'')) (\<lambda>payload.
                 Ok \<lparr>msg_version = version, message_type = ty, request_id = rid,
                     msg_payload = payload\<rparr>))))
       | _ \<Rightarrow> Err (BrProtocol ''body is not a Map''))"

section \<open>HMAC and frame bodies\<close>

definition compute_hmac :: "mac_fn \<Rightarrow> bytes \<Rightarrow> bytes \<Rightarrow> (arr32, bridge_error) result" where
  "compute_hmac mac body key =
     (if key = [] then Err (BrProtocol (''HMAC key cannot be empty (per L1/SKIN '' @ [char_of (0xC2 :: nat), char_of (0xA7 :: nat)] @ ''2)''))
      else Ok (mac key body))"

definition verify_hmac :: "mac_fn \<Rightarrow> bytes \<Rightarrow> bytes \<Rightarrow> bytes \<Rightarrow> (unit, bridge_error) result" where
  "verify_hmac mac body key expected =
     (if key = [] then Err (BrProtocol ''HMAC key cannot be empty'')
      else if length expected \<noteq> HMAC_SIZE
      then Err (BrHmacMismatch (''HMAC size '' @ decimal (length expected) @ '' != expected ''
             @ decimal HMAC_SIZE))
      else if arr32_bytes (mac key body) = expected then Ok ()
      else Err (BrHmacMismatch ''HMAC verification failed''))"

definition encode_frame_body :: "mac_fn \<Rightarrow> message \<Rightarrow> bytes \<Rightarrow> (bytes, bridge_error) result" where
  "encode_frame_body mac m key =
     and_then (map_err BrCanonicalBytes (to_body_canonical_bytes m)) (\<lambda>body.
     and_then (compute_hmac mac body key) (\<lambda>tag. Ok (arr32_bytes tag @ body)))"

definition decode_frame_body :: "mac_fn \<Rightarrow> bytes \<Rightarrow> bytes \<Rightarrow> (message, bridge_error) result" where
  "decode_frame_body mac frame key =
     (if length frame < HMAC_SIZE
      then Err (BrProtocol (''frame body too small: '' @ decimal (length frame) @ '' < HMAC size ''
             @ decimal HMAC_SIZE))
      else and_then (verify_hmac mac (drop HMAC_SIZE frame) key (take HMAC_SIZE frame)) (\<lambda>_.
             from_body_canonical_bytes (drop HMAC_SIZE frame)))"

section \<open>Payloads of requests\<close>

definition MSG_HELLO :: string where "MSG_HELLO = ''hello''"
definition MSG_HELLO_ACK :: string where "MSG_HELLO_ACK = ''hello_ack''"
definition MSG_REGISTER_AXIS :: string where "MSG_REGISTER_AXIS = ''register_axis''"
definition MSG_REGISTER_AXIS_ACK :: string where "MSG_REGISTER_AXIS_ACK = ''register_axis_ack''"
definition MSG_PERTURB :: string where "MSG_PERTURB = ''perturb''"
definition MSG_PERTURB_ACK :: string where "MSG_PERTURB_ACK = ''perturb_ack''"
definition MSG_ADVANCE :: string where "MSG_ADVANCE = ''advance''"
definition MSG_ADVANCE_RESPONSE :: string where "MSG_ADVANCE_RESPONSE = ''advance_response''"
definition MSG_SNAPSHOT :: string where "MSG_SNAPSHOT = ''snapshot''"
definition MSG_SNAPSHOT_RESPONSE :: string where "MSG_SNAPSHOT_RESPONSE = ''snapshot_response''"
definition MSG_SHUTDOWN :: string where "MSG_SHUTDOWN = ''shutdown''"
definition MSG_SHUTDOWN_ACK :: string where "MSG_SHUTDOWN_ACK = ''shutdown_ack''"
definition MSG_ERROR :: string where "MSG_ERROR = ''error''"
definition MSG_SAVE_STATE :: string where "MSG_SAVE_STATE = ''save_state''"
definition MSG_SAVE_STATE_ACK :: string where "MSG_SAVE_STATE_ACK = ''save_state_ack''"
definition MSG_LOAD_STATE :: string where "MSG_LOAD_STATE = ''load_state''"
definition MSG_LOAD_STATE_ACK :: string where "MSG_LOAD_STATE_ACK = ''load_state_ack''"
definition MSG_QUERY_GRADIENT_SCHEMAS :: string where
  "MSG_QUERY_GRADIENT_SCHEMAS = ''query_gradient_schemas''"
definition MSG_QUERY_GRADIENT_SCHEMAS_RESPONSE :: string where
  "MSG_QUERY_GRADIENT_SCHEMAS_RESPONSE = ''query_gradient_schemas_response''"

lemmas msg_type_defs = MSG_HELLO_def MSG_HELLO_ACK_def MSG_REGISTER_AXIS_def
  MSG_REGISTER_AXIS_ACK_def MSG_PERTURB_def MSG_PERTURB_ACK_def MSG_ADVANCE_def
  MSG_ADVANCE_RESPONSE_def MSG_SNAPSHOT_def MSG_SNAPSHOT_RESPONSE_def MSG_SHUTDOWN_def
  MSG_SHUTDOWN_ACK_def MSG_ERROR_def MSG_SAVE_STATE_def MSG_SAVE_STATE_ACK_def
  MSG_LOAD_STATE_def MSG_LOAD_STATE_ACK_def MSG_QUERY_GRADIENT_SCHEMAS_def
  MSG_QUERY_GRADIENT_SCHEMAS_RESPONSE_def

definition hello_payload :: "arr32 \<Rightarrow> vmap" where
  "hello_payload secret = bt_of [(''session_secret'', VBytes (arr32_bytes secret))]"

definition register_axis_payload ::
    "('f \<Rightarrow> string) \<Rightarrow> string \<Rightarrow> string \<Rightarrow> 'f \<Rightarrow> 'f \<Rightarrow> 'f \<Rightarrow> bool \<Rightarrow> string \<Rightarrow> vmap" where
  "register_axis_payload repr name axis_class threshold initial decay mortality rule =
     bt_of
       [(''name'', VString name),
        (''axis_class'', VString axis_class),
        (''fruiting_threshold_repr'', VString (repr threshold)),
        (''initial_value_repr'', VString (repr initial)),
        (''decay_rate_per_cycle_repr'', VString (repr decay)),
        (''is_mortality_signal'', VBool mortality),
        (''update_rule_kind'', VString rule)]"

definition perturb_payload :: "('f \<Rightarrow> string) \<Rightarrow> string \<Rightarrow> 'f \<Rightarrow> vmap" where
  "perturb_payload repr axis_name delta =
     bt_of [(''axis_name'', VString axis_name), (''delta_repr'', VString (repr delta))]"

definition advance_payload :: "u64 \<Rightarrow> vmap" where
  "advance_payload cycle = bt_of [(''current_cycle'', VUint cycle)]"

definition empty_payload :: vmap where
  "empty_payload = []"

definition state_dir_payload :: "string \<Rightarrow> vmap" where
  "state_dir_payload dir = bt_of [(''state_dir'', VString dir)]"

definition load_state_ack_payload :: "u64 \<Rightarrow> bool \<Rightarrow> vmap" where
  "load_state_ack_payload axis_count hydrated =
     bt_of [(''axis_count'', VUint axis_count), (''hydrated'', VBool hydrated)]"

definition compute_intent_payload :: "arr32 \<Rightarrow> u64 \<Rightarrow> Value list \<Rightarrow> vmap" where
  "compute_intent_payload pivot radius dag_nodes =
     bt_of [(''pivot_hash'', VBytes (arr32_bytes pivot)), (''radius_cycles'', VUint radius),
            (''dag_nodes'', VArray dag_nodes)]"

definition query_recent_nodes_payload :: "u64 \<Rightarrow> vmap" where
  "query_recent_nodes_payload count = bt_of [(''count'', VUint count)]"

definition submit_mutation_payload ::
    "string \<Rightarrow> string list \<Rightarrow> string list \<Rightarrow> string list \<Rightarrow> bytes \<Rightarrow> arr64 option \<Rightarrow> vmap" where
  "submit_mutation_payload mtype fs files metas content sig =
     (let m = bt_of
        [(''mutation_type'', VString mtype),
         (''touched_fields'', VArray (map VString fs)),
         (''touched_files'', VArray (map VString files)),
         (''touched_meta_structures'', VArray (map VString metas)),
         (''content_canonical_bytes'', VBytes content)]
      in case sig of
           Some s \<Rightarrow> bt_insert ''attestation_signature'' (VBytes (arr64_bytes s)) m
         | None \<Rightarrow> m)"

section \<open>Parsing responses\<close>

type_synonym 'f parse_fn = "string \<Rightarrow> ('f, string) result"

definition parse_float :: "'f parse_fn \<Rightarrow> string \<Rightarrow> string \<Rightarrow> ('f, bridge_error) result" where
  "parse_float parse what s = map_err (\<lambda>e. BrProtocol (what @ e)) (parse s)"

record 'f sporocarp_report =
  sr_type :: string
  sr_axis_name :: string
  sr_fruiting_value :: 'f
  sr_at_cycle :: u64
  sr_canonical_bytes :: bytes
  sr_hash :: arr32

record 'f advance_report =
  ar_fruited_axes :: "string list"
  ar_sporocarps :: "'f sporocarp_report list"
  ar_candidate_active :: bool
  ar_candidate_diverged :: bool
  ar_divergence_reason :: string

fun parse_fruited_axis :: "Value \<Rightarrow> (string, bridge_error) result" where
  "parse_fruited_axis (VString s) = Ok s"
| "parse_fruited_axis _ = Err (BrProtocol ''fruited_axes contains non-String'')"

fun parse_sporocarp :: "'f parse_fn \<Rightarrow> Value \<Rightarrow> ('f sporocarp_report, bridge_error) result" where
  "parse_sporocarp parse (VMap m) =
     and_then (protocol_err (map_get_string m ''sporocarp_type'')) (\<lambda>ty.
     and_then (protocol_err (map_get_string m ''axis_name'')) (\<lambda>axis.
     and_then (protocol_err (map_get_string m ''fruiting_value_repr'')) (\<lambda>repr.
     and_then (parse_float parse ''fruiting_value_repr parse: '' repr) (\<lambda>fv.
     and_then (protocol_err (map_get_uint m ''at_cycle'')) (\<lambda>cycle.
     and_then (protocol_err (map_get_bytes m ''canonical_bytes'')) (\<lambda>cb.
     and_then (protocol_err (map_get_bytes m ''hash'')) (\<lambda>hs.
       if length hs \<noteq> 32
       then Err (BrProtocol (''sporocarp.hash size '' @ decimal (length hs) @ '' != 32''))
       else Ok \<lparr>sr_type = ty, sr_axis_name = axis, sr_fruiting_value = fv, sr_at_cycle = cycle,
              sr_canonical_bytes = cb, sr_hash = word_of_be hs\<rparr>)))))))"
| "parse_sporocarp parse _ = Err (BrProtocol ''sporocarps contains non-Map'')"

definition flag_field :: "vmap \<Rightarrow> string \<Rightarrow> bool" where
  "flag_field m k = (case bt_get m k of Some (VBool b) \<Rightarrow> b | _ \<Rightarrow> False)"

definition text_field :: "vmap \<Rightarrow> string \<Rightarrow> string \<Rightarrow> string" where
  "text_field m k d = (case bt_get m k of Some (VString s) \<Rightarrow> s | _ \<Rightarrow> d)"

definition parse_advance_response ::
    "'f parse_fn \<Rightarrow> message \<Rightarrow> ('f advance_report, bridge_error) result" where
  "parse_advance_response parse r =
     (if message_type r \<noteq> MSG_ADVANCE_RESPONSE
      then Err (BrProtocol (''expected advance_response; got '' @ message_type r))
      else
        and_then (protocol_err (map_get_array (msg_payload r) ''fruited_axes'')) (\<lambda>axes.
        and_then (traverse parse_fruited_axis axes) (\<lambda>fruited.
        and_then (protocol_err (map_get_array (msg_payload r) ''sporocarps'')) (\<lambda>sps.
        and_then (traverse (parse_sporocarp parse) sps) (\<lambda>sporocarps.
          Ok \<lparr>ar_fruited_axes = fruited,
              ar_sporocarps = sporocarps,
              ar_candidate_active = flag_field (msg_payload r) ''candidate_active'',
              ar_candidate_diverged = flag_field (msg_payload r) ''candidate_diverged'',
              ar_divergence_reason = text_field (msg_payload r) ''divergence_reason'' []\<rparr>)))))"

fun parse_snapshot_entry ::
    "'f parse_fn \<Rightarrow> string \<times> Value \<Rightarrow> (string \<times> 'f, bridge_error) result" where
  "parse_snapshot_entry parse (k, VString s) =
     and_then (parse_float parse ''snapshot value parse: '' s) (\<lambda>f. Ok (k, f))"
| "parse_snapshot_entry parse (k, _) = Err (BrProtocol ''snapshot value is not String'')"

definition parse_snapshot_response ::
    "'f parse_fn \<Rightarrow> message \<Rightarrow> ((string \<times> 'f) list, bridge_error) result" where
  "parse_snapshot_response parse r =
     (if message_type r \<noteq> MSG_SNAPSHOT_RESPONSE
      then Err (BrProtocol (''expected snapshot_response; got '' @ message_type r))
      else
        and_then (protocol_err (map_get_map (msg_payload r) ''values'')) (\<lambda>vals.
        and_then (traverse (parse_snapshot_entry parse) vals) (\<lambda>entries.
          Ok (bt_of entries))))"

record hello_ack =
  kernel_tropism_version :: string
  python_version :: string

definition parse_hello_ack :: "message \<Rightarrow> (hello_ack, bridge_error) result" where
  "parse_hello_ack r =
     (if message_type r \<noteq> MSG_HELLO_ACK
      then Err (BrProtocol (''expected hello_ack; got '' @ message_type r))
      else
        and_then (protocol_err (map_get_string (msg_payload r) ''kernel_tropism_version'')) (\<lambda>kv.
        and_then (protocol_err (map_get_string (msg_payload r) ''python_version'')) (\<lambda>pv.
          Ok \<lparr>kernel_tropism_version = kv, python_version = pv\<rparr>)))"

record 'f axis_schema_info =
  ax_name :: string
  ax_class :: string
  ax_fruiting_threshold :: 'f
  ax_initial_value :: 'f
  ax_current_value :: 'f
  ax_decay_rate_per_cycle :: 'f
  ax_is_mortality_signal :: bool
  ax_update_rule_kind :: string

definition axis_float :: "'f parse_fn \<Rightarrow> vmap \<Rightarrow> string \<Rightarrow> ('f, bridge_error) result" where
  "axis_float parse m k =
     and_then (protocol_err (map_get_string m k)) (\<lambda>s. parse_float parse (k @ '' parse: '') s)"

fun parse_axis_schema :: "'f parse_fn \<Rightarrow> Value \<Rightarrow> ('f axis_schema_info, bridge_error) result" where
  "parse_axis_schema parse (VMap m) =
     and_then (protocol_err (map_get_string m ''name'')) (\<lambda>name.
     and_then (protocol_err (map_get_string m ''axis_class'')) (\<lambda>cls.
     and_then (axis_float parse m ''fruiting_threshold_repr'') (\<lambda>threshold.
     and_then (axis_float parse m ''initial_value_repr'') (\<lambda>initial.
     and_then (axis_float parse m ''current_value_repr'') (\<lambda>current.
     and_then (axis_float parse m ''decay_rate_per_cycle_repr'') (\<lambda>decay.
     and_then (protocol_err (map_get_bool m ''is_mortality_signal'')) (\<lambda>mortality.
     and_then (protocol_err (map_get_string m ''update_rule_kind'')) (\<lambda>rule.
       Ok \<lparr>ax_name = name, ax_class = cls, ax_fruiting_threshold = threshold,
           ax_initial_value = initial, ax_current_value = current,
           ax_decay_rate_per_cycle = decay, ax_is_mortality_signal = mortality,
           ax_update_rule_kind = rule\<rparr>))))))))"
| "parse_axis_schema parse _ = Err (BrProtocol ''axis entry not a Map'')"

section \<open>Lemmas\<close>

lemma protocol_err_Ok_iff [simp]: "protocol_err r = Ok a \<longleftrightarrow> r = Ok a"
  by (simp add: protocol_err_def)

definition wf_message :: "message \<Rightarrow> bool" where
  "wf_message m \<longleftrightarrow> str_ok (message_type m) \<and> wf_value (VMap (msg_payload m))"

lemma wf_message_value: "wf_message m \<Longrightarrow> wf_value (message_value m)"
  unfolding message_value_def by (rule wf_VMap_of) (auto simp: wf_message_def)

lemma from_body_round_trip:
  assumes "wf_message m" and "msg_version m = PROTOCOL_VERSION"
    and "length (encode_into (message_value m)) < 2 ^ 63"
  shows "from_body_canonical_bytes (encode_into (message_value m)) = Ok m"
proof -
  have "decode (encode_into (message_value m)) = Ok (message_value m)"
    by (rule decode_encode_into [OF wf_message_value [OF assms(1)] assms(3)])
  then show ?thesis
    using assms(2)
    by (simp add: from_body_canonical_bytes_def message_value_def bt_get_of protocol_err_def
        map_get_uint_def map_get_string_def map_get_map_def)
qed

lemma encode_frame_body_Ok_iff:
  "encode_frame_body mac m key = Ok f \<longleftrightarrow>
    key \<noteq> [] \<and> f = arr32_bytes (mac key (encode_into (message_value m))) @ encode_into (message_value m)"
  by (auto simp: encode_frame_body_def to_body_canonical_bytes_def encode_def compute_hmac_def)

lemma verify_hmac_Ok_iff:
  "verify_hmac mac body key tag = Ok () \<longleftrightarrow> key \<noteq> [] \<and> tag = arr32_bytes (mac key body)"
  by (auto simp: verify_hmac_def HMAC_SIZE_def)

lemma decode_frame_body_Ok_iff:
  "decode_frame_body mac f key = Ok m \<longleftrightarrow>
    key \<noteq> [] \<and> (\<exists>body. f = arr32_bytes (mac key body) @ body \<and> from_body_canonical_bytes body = Ok m)"
  (is "?l \<longleftrightarrow> ?r")
proof
  assume ?l
  then have "key \<noteq> []" and "take 32 f = arr32_bytes (mac key (drop 32 f))"
    and "from_body_canonical_bytes (drop 32 f) = Ok m"
    by (simp_all add: decode_frame_body_def HMAC_SIZE_def verify_hmac_Ok_iff split: if_splits)
  then show ?r
    by (metis append_take_drop_id)
next
  assume ?r
  then show ?l
    by (auto simp: decode_frame_body_def HMAC_SIZE_def verify_hmac_Ok_iff)
qed

lemma from_body_version:
  assumes "from_body_canonical_bytes body = Ok m"
  shows "msg_version m = PROTOCOL_VERSION"
proof -
  obtain v where "decode body = Ok v"
    using assms by (auto simp: from_body_canonical_bytes_def)
  with assms show ?thesis
    by (cases v) (auto simp: from_body_canonical_bytes_def split: if_splits)
qed

lemma decode_frame_round_trip:
  assumes "wf_message m" and "msg_version m = PROTOCOL_VERSION"
    and "encode_frame_body mac m key = Ok f" and "length f < 2 ^ 63"
  shows "decode_frame_body mac f key = Ok m"
  using assms from_body_round_trip [OF assms(1,2)]
  by (auto simp: decode_frame_body_Ok_iff encode_frame_body_Ok_iff)

text \<open>The bytes of a message's frame, and the codec contract for them.\<close>

definition frame_of :: "mac_fn \<Rightarrow> bytes \<Rightarrow> message \<Rightarrow> bytes" where
  "frame_of mac key m =
     arr32_bytes (mac key (encode_into (message_value m))) @ encode_into (message_value m)"

definition sendable :: "mac_fn \<Rightarrow> bytes \<Rightarrow> message \<Rightarrow> bool" where
  "sendable mac key m \<longleftrightarrow> key \<noteq> [] \<and> wf_message m \<and> msg_version m = PROTOCOL_VERSION \<and>
     length (frame_of mac key m) \<le> MAX_FRAME_BODY_SIZE"

lemma encode_frame_of: "key \<noteq> [] \<Longrightarrow> encode_frame_body mac m key = Ok (frame_of mac key m)"
  by (simp add: encode_frame_body_Ok_iff frame_of_def)

interpretation frame_codec: codec "frame_of mac key" "\<lambda>f. decode_frame_body mac f key" "\<lambda>m. m"
  "sendable mac key" for mac key
proof
  fix m
  assume "sendable mac key m"
  then show "decode_frame_body mac (frame_of mac key m) key = Ok m"
    by (intro decode_frame_round_trip [where f = "frame_of mac key m"])
      (auto simp: sendable_def encode_frame_of MAX_FRAME_BODY_SIZE_def)
qed

section \<open>Properties\<close>

text \<open>
  C34. A frame altered on the way is refused as an HMAC mismatch: with the tag kept and the body
  changed, unless the keyed HMAC collides on the two bodies, and with the body kept and the tag
  changed in any case.
\<close>

theorem altered_frame_refused:
  assumes "encode_frame_body mac m key = Ok f" and "g \<noteq> f" and "32 \<le> length g"
    and "take 32 g = take 32 f \<or> drop 32 g = drop 32 f"
    and "inj_on (mac key) {drop 32 f, drop 32 g}"
  shows "decode_frame_body mac g key = Err (BrHmacMismatch ''HMAC verification failed'')"
proof -
  let ?b = "encode_into (message_value m)"
  have key: "key \<noteq> []" and f: "f = arr32_bytes (mac key ?b) @ ?b"
    using assms(1) by (simp_all add: encode_frame_body_Ok_iff)
  have "arr32_bytes (mac key (drop 32 g)) \<noteq> take 32 g"
  proof
    assume tag: "arr32_bytes (mac key (drop 32 g)) = take 32 g"
    then have "drop 32 g = drop 32 f"
      using assms(4,5) f by (auto simp: inj_on_def)
    then have "take 32 g = take 32 f"
      using tag f assms(3) by simp
    then show False
      using \<open>drop 32 g = drop 32 f\<close> assms(2) by (metis append_take_drop_id)
  qed
  then show ?thesis
    using key assms(3) by (simp add: decode_frame_body_def verify_hmac_def HMAC_SIZE_def)
qed

lemma altered_frame_refused_witness:
  "decode_frame_body (\<lambda>k b. word_of_be b)
     (arr32_bytes 5 @ encode_into (message_value (new_message MSG_SHUTDOWN 1 empty_payload))) [1] =
   Err (BrHmacMismatch ''HMAC verification failed'')"
proof (rule altered_frame_refused)
  let ?m = "new_message MSG_SHUTDOWN 1 empty_payload"
  show "encode_frame_body (\<lambda>k b. word_of_be b) ?m [1] = Ok (frame_of (\<lambda>k b. word_of_be b) [1] ?m)"
    by (simp add: encode_frame_of)
  have "(word_of_be (encode_into (message_value ?m)) :: arr32) \<noteq> 5"
    by code_simp
  then show "arr32_bytes 5 @ encode_into (message_value ?m) \<noteq> frame_of (\<lambda>k b. word_of_be b) [1] ?m"
    by (simp add: frame_of_def)
qed (simp_all add: frame_of_def)

end
