(* ===== verification/Cycle.thy ===== *)
theory Cycle
  imports Prelude
begin

text \<open>
  The metabolic cycle engine, \<^verbatim>\<open>kernel/continuity/src/cycle.rs\<close>. The five steps are trait
  objects that the caller supplies: here five functions on the caller's environment, each
  returning the new environment and its result. A step may change the environment and still fail,
  as in the code. The cycle counter is a \<open>u64\<close> that wraps as in a release build, the backlog
  counter a \<open>u32\<close>.
\<close>

section \<open>Types\<close>

datatype cycle_step_id =
    Tier1Invariants
  | GradientAdvance
  | DeltaAbsorption
  | SkinBreachCheck
  | HandshakeAttestation

datatype cycle_error = StepFailed cycle_step_id string | Timeout cycle_step_id

fun cycle_step_name :: "cycle_step_id \<Rightarrow> string" where
  "cycle_step_name Tier1Invariants = ''tier1_invariants''"
| "cycle_step_name GradientAdvance = ''gradient_advance''"
| "cycle_step_name DeltaAbsorption = ''delta_absorption''"
| "cycle_step_name SkinBreachCheck = ''skin_breach_check''"
| "cycle_step_name HandshakeAttestation = ''handshake_attestation''"

record 'w cycle_context =
  validate_tier1 :: "'w \<Rightarrow> 'w \<times> (unit, string) result"
  advance_gradient :: "'w \<Rightarrow> 'w \<times> (unit, string) result"
  absorb_deltas :: "'w \<Rightarrow> 'w \<times> (nat, string) result"
  check_skin_breaches :: "'w \<Rightarrow> 'w \<times> (string list, string) result"
  process_handshake_attestation :: "'w \<Rightarrow> 'w \<times> (nat, string) result"

record cycle_report =
  report_cycle_number :: u64
  report_deltas_absorbed :: nat
  report_handshake_events_processed :: nat
  report_skin_breaches :: "string list"
  report_committed :: bool

record cycle_config =
  backlog_threshold :: u32

record cycle_engine =
  cycle_number :: u64
  backlog_count :: u32
  ce_config :: cycle_config

definition default_cycle_config :: cycle_config where
  "default_cycle_config = \<lparr>backlog_threshold = 10\<rparr>"

definition cycle_engine_new :: "cycle_config \<Rightarrow> cycle_engine" where
  "cycle_engine_new cfg = \<lparr>cycle_number = 0, backlog_count = 0, ce_config = cfg\<rparr>"

definition is_backlogged :: "cycle_engine \<Rightarrow> bool" where
  "is_backlogged e \<longleftrightarrow> backlog_threshold (ce_config e) \<le> backlog_count e"

definition record_backlog :: "cycle_engine \<Rightarrow> cycle_engine" where
  "record_backlog e = e\<lparr>backlog_count := backlog_count e + 1\<rparr>"

definition reset_backlog :: "cycle_engine \<Rightarrow> cycle_engine" where
  "reset_backlog e = e\<lparr>backlog_count := 0\<rparr>"

section \<open>One cycle\<close>

text \<open>
  \<open>run_step\<close> is the \<^verbatim>\<open>match\<close> that each step is wrapped in: a failure is reported under the
  step's name and ends the cycle, a panic of the step ends it too.
\<close>

fun run_step ::
    "cycle_step_id \<Rightarrow> 'w \<times> ('a, string) result \<Rightarrow> ('w \<Rightarrow> 'a \<Rightarrow> 'w \<times> ('b, cycle_error) result) \<Rightarrow>
      'w \<times> ('b, cycle_error) result" where
  "run_step i (w, Ok a) k = k w a"
| "run_step i (w, Err reason) k = (w, Err (StepFailed i reason))"
| "run_step i (w, Abort x) k = (w, Abort x)"

definition run_steps ::
    "'w cycle_context \<Rightarrow> 'w \<Rightarrow> 'w \<times> (nat \<times> string list \<times> nat, cycle_error) result" where
  "run_steps ctx w =
     run_step Tier1Invariants (validate_tier1 ctx w) (\<lambda>w _.
     run_step GradientAdvance (advance_gradient ctx w) (\<lambda>w _.
     run_step DeltaAbsorption (absorb_deltas ctx w) (\<lambda>w absorbed.
     run_step SkinBreachCheck (check_skin_breaches ctx w) (\<lambda>w breaches.
     run_step HandshakeAttestation (process_handshake_attestation ctx w) (\<lambda>w handshakes.
       (w, Ok (absorbed, breaches, handshakes)))))))"

definition run_cycle ::
    "'w cycle_context \<Rightarrow> cycle_engine \<times> 'w \<Rightarrow>
      (cycle_engine \<times> 'w) \<times> (cycle_report, cycle_error) result" where
  "run_cycle ctx s =
     (case run_steps ctx (snd s) of
        (w, Ok (absorbed, breaches, handshakes)) \<Rightarrow>
          (let n = cycle_number (fst s) + 1 in
           ((fst s\<lparr>cycle_number := n\<rparr>, w),
            Ok \<lparr>report_cycle_number = n, report_deltas_absorbed = absorbed,
                report_handshake_events_processed = handshakes,
                report_skin_breaches = breaches, report_committed = True\<rparr>))
      | (w, Err e) \<Rightarrow> ((fst s, w), Err e)
      | (w, Abort x) \<Rightarrow> ((fst s, w), Abort x))"

section \<open>Lemmas\<close>

text \<open>What a step does to the environment, its result forgotten.\<close>

definition step_effects :: "'w cycle_context \<Rightarrow> (cycle_step_id \<times> ('w \<Rightarrow> 'w \<times> bool)) list" where
  "step_effects ctx =
     [(Tier1Invariants, \<lambda>w. map_prod id is_ok (validate_tier1 ctx w)),
      (GradientAdvance, \<lambda>w. map_prod id is_ok (advance_gradient ctx w)),
      (DeltaAbsorption, \<lambda>w. map_prod id is_ok (absorb_deltas ctx w)),
      (SkinBreachCheck, \<lambda>w. map_prod id is_ok (check_skin_breaches ctx w)),
      (HandshakeAttestation, \<lambda>w. map_prod id is_ok (process_handshake_attestation ctx w))]"

text \<open>The reference: run the steps in order until one fails, and say which.\<close>

primrec first_failure ::
    "(cycle_step_id \<times> ('w \<Rightarrow> 'w \<times> bool)) list \<Rightarrow> 'w \<Rightarrow> 'w \<times> cycle_step_id option" where
  "first_failure [] w = (w, None)"
| "first_failure (s # ss) w =
     (case snd s w of (w', ok) \<Rightarrow> if ok then first_failure ss w' else (w', Some (fst s)))"

definition failed_step :: "('a, cycle_error) result \<Rightarrow> cycle_step_id option" where
  "failed_step r = (case r of Err (StepFailed i _) \<Rightarrow> Some i | _ \<Rightarrow> None)"

lemma run_step_effect:
  "run_step i r k =
    (case r of (w, Ok a) \<Rightarrow> k w a | (w, Err e) \<Rightarrow> (w, Err (StepFailed i e)) | (w, Abort x) \<Rightarrow> (w, Abort x))"
  by (cases "(i, r, k)" rule: run_step.cases) simp_all

lemma run_cycle_engine:
  "fst (fst (run_cycle ctx s)) =
    (if is_ok (snd (run_cycle ctx s)) then fst s\<lparr>cycle_number := cycle_number (fst s) + 1\<rparr> else fst s)"
  by (cases "run_steps ctx (snd s)"; cases "snd (run_steps ctx (snd s))")
    (auto simp: run_cycle_def Let_def)

definition agrees ::
    "'w \<times> ('b, cycle_error) result \<Rightarrow> (cycle_step_id \<times> ('w \<Rightarrow> 'w \<times> bool)) list \<Rightarrow> 'w \<Rightarrow> bool" where
  "agrees p fs w \<longleftrightarrow> (\<forall>x. snd p \<noteq> Abort x) \<longrightarrow>
     (fst p, failed_step (snd p)) = first_failure fs w \<and>
     (is_ok (snd p) \<longleftrightarrow> snd (first_failure fs w) = None)"

lemma agrees_step:
  assumes "\<And>w' a. agrees (k w' a) fs w'"
  shows "agrees (run_step i (f w) k) ((i, \<lambda>w. map_prod id is_ok (f w)) # fs) w"
proof -
  obtain w' r where fw: "f w = (w', r)"
    by (cases "f w")
  show ?thesis
    using assms [of w'] by (cases r) (simp_all add: fw agrees_def failed_step_def)
qed

lemma run_steps_agrees: "agrees (run_steps ctx w) (step_effects ctx) w"
  unfolding run_steps_def step_effects_def
  by (intro agrees_step) (simp add: agrees_def failed_step_def)

primrec run_cycles ::
    "'w cycle_context list \<Rightarrow> cycle_engine \<times> 'w \<Rightarrow>
      (cycle_engine \<times> 'w) \<times> (cycle_report, cycle_error) result list" where
  "run_cycles [] s = (s, [])"
| "run_cycles (ctx # ctxs) s =
     (case run_cycle ctx s of (s', r) \<Rightarrow>
        case run_cycles ctxs s' of (s'', rs) \<Rightarrow> (s'', r # rs))"

lemma run_cycles_engine:
  "fst (fst (run_cycles ctxs s)) =
    fst s\<lparr>cycle_number := cycle_number (fst s) +
      word_of_nat (length (filter is_ok (snd (run_cycles ctxs s))))\<rparr>"
proof (induction ctxs arbitrary: s)
  case (Cons ctx ctxs)
  then show ?case
    using run_cycle_engine [of ctx s]
    by (auto simp: split_beta algebra_simps)
qed simp

section \<open>Properties\<close>

text \<open>
  A cycle runs the five steps in order and stops at the first that fails, which the error
  names; the environment is left as the steps run so far left it, for the engine rolls nothing
  back; the counter moves exactly when all five succeed, and the report carries the new number.
\<close>

lemma run_cycle_first_failure:
  assumes "\<And>x. snd (run_cycle ctx (e, w)) \<noteq> Abort x"
  shows "case run_cycle ctx (e, w) of ((e', w'), r) \<Rightarrow>
    (w', failed_step r) = first_failure (step_effects ctx) w \<and>
    (case r of
       Ok rep \<Rightarrow> e' = e\<lparr>cycle_number := cycle_number e + 1\<rparr> \<and> report_committed rep \<and>
         report_cycle_number rep = cycle_number e'
     | _ \<Rightarrow> e' = e)"
proof -
  obtain w' r where run: "run_steps ctx w = (w', r)"
    by (cases "run_steps ctx w")
  have "r \<noteq> Abort x" for x
    using assms [of x] by (auto simp: run_cycle_def run)
  then show ?thesis
    using run_steps_agrees [of ctx w]
    by (cases r) (simp_all add: agrees_def run_cycle_def run Let_def failed_step_def split_beta)
qed

text \<open>
  Over any sequence of cycles the counter is the number that succeeded, whatever the
  failures in between, and the backlog never moves by running cycles.
\<close>

lemma run_cycles_counter:
  "let ((e', w'), rs) = run_cycles ctxs (cycle_engine_new cfg, w) in
    cycle_number e' = word_of_nat (length (filter is_ok rs)) \<and>
    backlog_count e' = 0 \<and> ce_config e' = cfg \<and> length rs = length ctxs"
proof -
  have "length (snd (run_cycles ctxs s)) = length ctxs" for s
    by (induction ctxs arbitrary: s) (auto simp: split_beta)
  then show ?thesis
    using run_cycles_engine [of ctxs "(cycle_engine_new cfg, w)"]
    by (simp add: cycle_engine_new_def split_beta)
qed

end
