(* ===== verification/Bridge_Client.thy ===== *)
theory Bridge_Client
  imports Bridge_Protocol Cycle
begin

text \<open>
  The client of the worker bridge, \<^verbatim>\<open>kernel/bridge/rust/src/client.rs\<close>, and its use as the
  gradient step of the metabolic cycle, \<^verbatim>\<open>tropism_bridge.rs\<close>. The reader thread is a
  function from the worker's output stream to the results it sends over the channel; the receiver
  sees them in order, with \<open>Silence\<close> where no frame arrives within a call's deadline, and
  the end of the list is the disconnected channel. The worker is arbitrary: nothing is
  assumed of what it writes.
\<close>

section \<open>The reader thread\<close>

abbreviation stream_size :: "read_event list \<Rightarrow> nat" where
  "stream_size es \<equiv> sum_list (map event_size es)"

lemma read_loop_size:
  assumes "read_loop n buf es = (r, es')"
  shows "stream_size es' \<le> stream_size es"
    and "length buf < n \<Longrightarrow> es \<noteq> [] \<Longrightarrow> stream_size es' < stream_size es"
proof -
  have "stream_size es' \<le> stream_size es \<and>
      (length buf < n \<longrightarrow> es \<noteq> [] \<longrightarrow> stream_size es' < stream_size es)"
    using assms
  proof (induction es arbitrary: buf)
    case Nil
    then show ?case by (cases "length buf < n") auto
  next
    case (Cons e es)
    then show ?case
    proof (cases "length buf < n")
      case True
      with Cons show ?thesis
        by (cases e; cases "e = Chunk []") (fastforce split: if_splits)+
    qed simp
  qed
  then show "stream_size es' \<le> stream_size es"
    and "length buf < n \<Longrightarrow> es \<noteq> [] \<Longrightarrow> stream_size es' < stream_size es"
    by simp_all
qed

lemma read_frame_size:
  assumes "read_frame es = (Ok (Some b), es')"
  shows "stream_size es' < stream_size es"
proof -
  obtain r1 es1 where 1: "read_exact_or_eof 4 es = (r1, es1)"
    by fastforce
  then have loop: "read_loop 4 [] es = (r1, es1)"
    by (simp add: read_exact_or_eof_def)
  have "es \<noteq> []"
    using assms by (auto simp: read_frame_def read_exact_or_eof_def stopped_short_def)
  then have lt: "stream_size es1 < stream_size es"
    using read_loop_size(2) [OF loop] by simp
  have "stream_size es2 \<le> stream_size es1" if "read_exact_or_eof n es1 = (r2, es2)" for n r2 es2
    using that read_loop_size(1) by (auto simp: read_exact_or_eof_def split: if_splits)
  with lt show ?thesis
    using assms 1
    by (fastforce simp: read_frame_def Let_def split: result.splits option.splits prod.splits if_splits)
qed

text \<open>
  Every frame is decoded and sent, one that fails to decode as its error; an error of the stream
  or its end is sent once, and the thread returns.
\<close>

function reader_thread_body ::
    "mac_fn \<Rightarrow> arr32 \<Rightarrow> read_event list \<Rightarrow> (message, bridge_error) result list" where
  "reader_thread_body mac secret es =
     (case read_frame es of
        (Ok (Some frame), es') \<Rightarrow>
          decode_frame_body mac frame (arr32_bytes secret) # reader_thread_body mac secret es'
      | (Ok None, _) \<Rightarrow>
          [Err (BrSubprocess ''python worker closed stdout (EOF); reader thread exiting'')]
      | (Err e, _) \<Rightarrow> [Err e]
      | (Abort x, _) \<Rightarrow> [Abort x])"
  by pat_completeness auto

termination
  by (relation "measure (\<lambda>(mac, secret, es). stream_size es)") (auto dest: read_frame_size [OF sym])

declare reader_thread_body.simps [simp del]

section \<open>The client\<close>

text \<open>
  A child process is the outcome that waiting for it will have. \<open>Silence\<close> is a receive call
  that gets nothing before its deadline.
\<close>

datatype delivery = Frame "(message, bridge_error) result" | Silence

record bridge_client =
  bc_child :: "(unit, string) result option"
  bc_stdin :: writer
  bc_responses :: "delivery list"
  bc_reader_handle :: bool
  session_secret :: arr32
  next_request_id :: u64
  desynchronized :: bool
  bc_hello_ack :: hello_ack

definition BLOCKING_CALL_DEADLINE :: u64 where
  "BLOCKING_CALL_DEADLINE = 3600"

definition allocate_request_id :: "bridge_client \<Rightarrow> bridge_client \<times> u64" where
  "allocate_request_id c = (c\<lparr>next_request_id := next_request_id c + 1\<rparr>, next_request_id c)"

definition check_response :: "u64 \<Rightarrow> message \<Rightarrow> (message, bridge_error) result" where
  "check_response expected r =
     (if message_type r = MSG_ERROR
      then Err (BrProtocol (''worker error envelope: code=''
             @ text_field (msg_payload r) ''code'' ''<unknown_code>''
             @ '' message='' @ text_field (msg_payload r) ''message'' ''<no_message>''))
      else if request_id r \<noteq> expected then Err (CorrelationMismatch expected (request_id r))
      else if msg_version r \<noteq> PROTOCOL_VERSION
      then Err (BrProtocol (''response protocol version mismatch: got ''
             @ decimal (unat (msg_version r)) @ '', expected '' @ decimal (unat PROTOCOL_VERSION)))
      else Ok r)"

fun recv_response ::
    "u64 \<Rightarrow> u64 \<Rightarrow> bridge_client \<Rightarrow> bridge_client \<times> (message, bridge_error) result" where
  "recv_response expected deadline c =
     (case bc_responses c of
        [] \<Rightarrow> (c, Err (BrSubprocess ''python worker reader thread disconnected (child exited)''))
      | Silence # rest \<Rightarrow>
          (c\<lparr>bc_responses := rest, desynchronized := True\<rparr>, Err (BrTimeout deadline))
      | Frame r # rest \<Rightarrow>
          (c\<lparr>bc_responses := rest\<rparr>, and_then r (check_response expected)))"

declare recv_response.simps [simp del]

definition send_request_with_timeout ::
    "mac_fn \<Rightarrow> string \<Rightarrow> vmap \<Rightarrow> u64 \<Rightarrow> bridge_client \<Rightarrow>
      bridge_client \<times> (message, bridge_error) result" where
  "send_request_with_timeout mac ty payload deadline c =
     (if desynchronized c then (c, Err Desynchronized)
      else
        let (c1, rid) = allocate_request_id c in
        case encode_frame_body mac (new_message ty rid payload) (arr32_bytes (session_secret c1)) of
          Ok frame \<Rightarrow>
            (case write_frame (bc_stdin c1) frame of
               (w, Ok _) \<Rightarrow> recv_response rid deadline (c1\<lparr>bc_stdin := w\<rparr>)
             | (w, Err e) \<Rightarrow> (c1\<lparr>bc_stdin := w\<rparr>, Err e)
             | (w, Abort x) \<Rightarrow> (c1\<lparr>bc_stdin := w\<rparr>, Abort x))
        | Err e \<Rightarrow> (c1, Err e)
        | Abort x \<Rightarrow> (c1, Abort x))"

definition send_request ::
    "mac_fn \<Rightarrow> string \<Rightarrow> vmap \<Rightarrow> bridge_client \<Rightarrow> bridge_client \<times> (message, bridge_error) result" where
  "send_request mac ty payload c = send_request_with_timeout mac ty payload BLOCKING_CALL_DEADLINE c"

definition call_with_timeout ::
    "mac_fn \<Rightarrow> string \<Rightarrow> vmap \<Rightarrow> u64 \<Rightarrow> bridge_client \<Rightarrow>
      bridge_client \<times> (message, bridge_error) result" where
  "call_with_timeout mac ty payload deadline c = send_request_with_timeout mac ty payload deadline c"

definition bridge_call ::
    "mac_fn \<Rightarrow> string \<Rightarrow> vmap \<Rightarrow> bridge_client \<Rightarrow> bridge_client \<times> (message, bridge_error) result" where
  "bridge_call mac ty payload c = send_request mac ty payload c"

section \<open>Methods\<close>

text \<open>The use of a response by the method that asked for it.\<close>

definition then_parse ::
    "'c \<times> (message, bridge_error) result \<Rightarrow> (message \<Rightarrow> ('a, bridge_error) result) \<Rightarrow>
      'c \<times> ('a, bridge_error) result" where
  "then_parse p f = (fst p, and_then (snd p) f)"

definition expect_type :: "string \<Rightarrow> message \<Rightarrow> (unit, bridge_error) result" where
  "expect_type ty r =
     (if message_type r \<noteq> ty
      then Err (BrProtocol (''expected '' @ ty @ ''; got '' @ message_type r)) else Ok ())"

definition register_axis ::
    "mac_fn \<Rightarrow> ('f \<Rightarrow> string) \<Rightarrow> string \<Rightarrow> string \<Rightarrow> 'f \<Rightarrow> 'f \<Rightarrow> 'f \<Rightarrow> bool \<Rightarrow> string \<Rightarrow>
      bridge_client \<Rightarrow> bridge_client \<times> (unit, bridge_error) result" where
  "register_axis mac repr name cls threshold initial decay mortality rule c =
     then_parse
       (send_request mac MSG_REGISTER_AXIS
          (register_axis_payload repr name cls threshold initial decay mortality rule) c)
       (expect_type MSG_REGISTER_AXIS_ACK)"

definition perturb ::
    "mac_fn \<Rightarrow> ('f \<Rightarrow> string) \<Rightarrow> string \<Rightarrow> 'f \<Rightarrow> bridge_client \<Rightarrow>
      bridge_client \<times> (unit, bridge_error) result" where
  "perturb mac repr axis delta c =
     then_parse (send_request mac MSG_PERTURB (perturb_payload repr axis delta) c)
       (expect_type MSG_PERTURB_ACK)"

definition advance ::
    "mac_fn \<Rightarrow> 'f parse_fn \<Rightarrow> u64 \<Rightarrow> bridge_client \<Rightarrow>
      bridge_client \<times> ('f advance_report, bridge_error) result" where
  "advance mac parse cycle c =
     then_parse (send_request mac MSG_ADVANCE (advance_payload cycle) c)
       (parse_advance_response parse)"

definition advance_with_timeout ::
    "mac_fn \<Rightarrow> 'f parse_fn \<Rightarrow> u64 \<Rightarrow> u64 \<Rightarrow> bridge_client \<Rightarrow>
      bridge_client \<times> ('f advance_report, bridge_error) result" where
  "advance_with_timeout mac parse cycle deadline c =
     then_parse (send_request_with_timeout mac MSG_ADVANCE (advance_payload cycle) deadline c)
       (parse_advance_response parse)"

definition bridge_snapshot ::
    "mac_fn \<Rightarrow> 'f parse_fn \<Rightarrow> bridge_client \<Rightarrow>
      bridge_client \<times> ((string \<times> 'f) list, bridge_error) result" where
  "bridge_snapshot mac parse c =
     then_parse (send_request mac MSG_SNAPSHOT empty_payload c) (parse_snapshot_response parse)"

definition save_state ::
    "mac_fn \<Rightarrow> string \<Rightarrow> bridge_client \<Rightarrow> bridge_client \<times> (unit, bridge_error) result" where
  "save_state mac dir c =
     then_parse (send_request mac MSG_SAVE_STATE (state_dir_payload dir) c)
       (expect_type MSG_SAVE_STATE_ACK)"

definition load_state_full ::
    "mac_fn \<Rightarrow> string \<Rightarrow> arr32 option \<Rightarrow> bool \<Rightarrow> bridge_client \<Rightarrow>
      bridge_client \<times> (u64 \<times> bool, bridge_error) result" where
  "load_state_full mac dir owner skip_disk c =
     (let p0 = state_dir_payload dir;
          p1 = (case owner of
                  Some pk \<Rightarrow> bt_insert ''genesis_owner_pubkey'' (VBytes (arr32_bytes pk)) p0
                | None \<Rightarrow> p0);
          p2 = (if skip_disk then bt_insert ''skip_disk_load'' (VBool True) p1 else p1)
      in then_parse (send_request mac MSG_LOAD_STATE p2 c) (\<lambda>r.
           and_then (expect_type MSG_LOAD_STATE_ACK r) (\<lambda>_.
           and_then (protocol_err (map_get_uint (msg_payload r) ''axis_count'')) (\<lambda>n.
           and_then (protocol_err (map_get_bool (msg_payload r) ''hydrated'')) (\<lambda>h.
             Ok (n, h))))))"

definition load_state_with_genesis ::
    "mac_fn \<Rightarrow> string \<Rightarrow> arr32 option \<Rightarrow> bridge_client \<Rightarrow>
      bridge_client \<times> (u64 \<times> bool, bridge_error) result" where
  "load_state_with_genesis mac dir owner c = load_state_full mac dir owner False c"

definition load_state ::
    "mac_fn \<Rightarrow> string \<Rightarrow> bridge_client \<Rightarrow> bridge_client \<times> (u64 \<times> bool, bridge_error) result" where
  "load_state mac dir c = load_state_with_genesis mac dir None c"

definition query_gradient_schemas ::
    "mac_fn \<Rightarrow> 'f parse_fn \<Rightarrow> bridge_client \<Rightarrow>
      bridge_client \<times> ('f axis_schema_info list, bridge_error) result" where
  "query_gradient_schemas mac parse c =
     then_parse (send_request mac MSG_QUERY_GRADIENT_SCHEMAS empty_payload c) (\<lambda>r.
       and_then (expect_type MSG_QUERY_GRADIENT_SCHEMAS_RESPONSE r) (\<lambda>_.
       and_then (protocol_err (map_get_array (msg_payload r) ''axes'')) (\<lambda>axes.
         traverse (parse_axis_schema parse) axes)))"

definition join_reader_thread :: "bridge_client \<Rightarrow> bridge_client" where
  "join_reader_thread c = c\<lparr>bc_reader_handle := False\<rparr>"

text \<open>Shutting down takes the child before it waits for it, and joins only after a good wait.\<close>

definition shutdown_inner ::
    "mac_fn \<Rightarrow> bridge_client \<Rightarrow> bridge_client \<times> (unit, bridge_error) result" where
  "shutdown_inner mac c =
     (case then_parse (send_request mac MSG_SHUTDOWN empty_payload c) (expect_type MSG_SHUTDOWN_ACK) of
        (c1, Ok _) \<Rightarrow>
          (case bc_child c1 of
             Some (Err e) \<Rightarrow> (c1\<lparr>bc_child := None\<rparr>, Err (BrSubprocess (''wait failed: '' @ e)))
           | Some (Abort x) \<Rightarrow> (c1\<lparr>bc_child := None\<rparr>, Abort x)
           | Some (Ok _) \<Rightarrow> (join_reader_thread (c1\<lparr>bc_child := None\<rparr>), Ok ())
           | None \<Rightarrow> (join_reader_thread c1, Ok ()))
      | (c1, r) \<Rightarrow> (c1, r))"

text \<open>\<^verbatim>\<open>drop\<close>: a shutdown whose failure is ignored, then the child is killed and the thread joined.\<close>

definition drop_client :: "mac_fn \<Rightarrow> bridge_client \<Rightarrow> bridge_client" where
  "drop_client mac c =
     join_reader_thread
       (if bc_child c \<noteq> None then (fst (shutdown_inner mac c))\<lparr>bc_child := None\<rparr> else c)"

section \<open>Establishing the connection\<close>

record bridge_client_config =
  python_executable :: string
  cfg_session_secret :: "arr32 option"
  extra_env :: "(string \<times> string) list"
  operator_signing_seed :: "arr32 option"

definition default_bridge_config :: bridge_client_config where
  "default_bridge_config =
     \<lparr>python_executable = ''python'', cfg_session_secret = None, extra_env = [],
      operator_signing_seed = None\<rparr>"

text \<open>
  What spawning the worker gives: its pipes, if they are there, whether the reader thread starts,
  and the schedule by which the results the thread sends reach the receiver.
\<close>

record spawned =
  sp_stdin :: "writer option"
  sp_stdout :: "read_event list option"
  sp_wait :: "(unit, string) result"
  sp_thread :: "(unit, string) result"
  sp_schedule :: "(message, bridge_error) result list \<Rightarrow> delivery list"

text \<open>
  The hello payload. \<open>pub\<close> derives the Ed25519 public key of a seed, \<open>sign\<close> signs with it.
\<close>

definition signed_hello_payload ::
    "(arr32 \<Rightarrow> arr32) \<Rightarrow> (arr32 \<Rightarrow> bytes \<Rightarrow> arr64) \<Rightarrow> arr32 \<Rightarrow> arr32 option \<Rightarrow> (vmap, bridge_error) result"
where
  "signed_hello_payload pub sign secret seed =
     (case seed of
        None \<Rightarrow> Ok (hello_payload secret)
      | Some sd \<Rightarrow>
          and_then
            (map_err (\<lambda>e. BrProtocol (''hello signing-body encode: '' @ cb_display e))
               (encode (VMap (bt_of [(''session_secret'', VBytes (arr32_bytes secret)),
                                     (''operator_pubkey'', VBytes (arr32_bytes (pub sd)))]))))
            (\<lambda>input.
              Ok (bt_insert ''hello_signature'' (VBytes (arr64_bytes (sign sd input)))
                   (bt_insert ''operator_pubkey'' (VBytes (arr32_bytes (pub sd)))
                     (hello_payload secret)))))"

definition spawn_and_handshake ::
    "hash_fn \<Rightarrow> mac_fn \<Rightarrow> (arr32 \<Rightarrow> arr32) \<Rightarrow> (arr32 \<Rightarrow> bytes \<Rightarrow> arr64) \<Rightarrow> arr32 \<Rightarrow> bridge_client_config \<Rightarrow>
      (spawned, string) result \<Rightarrow> (bridge_client, bridge_error) result" where
  "spawn_and_handshake sha mac pub sign generated cfg spawn =
     (let secret = (case cfg_session_secret cfg of Some s \<Rightarrow> s | None \<Rightarrow> generated) in
      and_then (map_err (\<lambda>e. BrSubprocess (''failed to spawn `'' @ python_executable cfg
                  @ '' -m myco_kernel_bridge`: '' @ e)) spawn) (\<lambda>sp.
      and_then (ok_or (BrSubprocess ''child stdin not piped'') (sp_stdin sp)) (\<lambda>w.
      and_then (ok_or (BrSubprocess ''child stdout not piped'') (sp_stdout sp)) (\<lambda>out.
      and_then (map_err (\<lambda>e. BrSubprocess (''failed to spawn bridge reader thread: '' @ e))
                  (sp_thread sp)) (\<lambda>_.
        let c0 = \<lparr>bc_child = Some (sp_wait sp), bc_stdin = w,
                  bc_responses = sp_schedule sp (reader_thread_body mac secret out),
                  bc_reader_handle = True, session_secret = secret, next_request_id = 1,
                  desynchronized = False,
                  bc_hello_ack = \<lparr>kernel_tropism_version = [], python_version = []\<rparr>\<rparr>;
            (c1, rid) = allocate_request_id c0
        in
        and_then (signed_hello_payload pub sign secret (operator_signing_seed cfg)) (\<lambda>payload.
        and_then (encode_frame_body mac (new_message MSG_HELLO rid payload)
                    (arr32_bytes (bootstrap_key sha))) (\<lambda>frame.
          case write_frame (bc_stdin c1) frame of
            (w', r) \<Rightarrow>
              and_then r (\<lambda>_.
                case recv_response rid BLOCKING_CALL_DEADLINE (c1\<lparr>bc_stdin := w'\<rparr>) of
                  (c2, r2) \<Rightarrow>
                    and_then r2 (\<lambda>resp.
                    and_then (parse_hello_ack resp) (\<lambda>ack.
                      Ok (c2\<lparr>bc_hello_ack := ack\<rparr>)))))))))))"

section \<open>The gradient step of a cycle\<close>

record 'f tropism_bridge =
  tb_client :: bridge_client
  tb_cycle_counter :: u64
  tb_latest_report :: "'f advance_report option"

definition tropism_bridge_new :: "bridge_client \<Rightarrow> 'f tropism_bridge" where
  "tropism_bridge_new c = \<lparr>tb_client = c, tb_cycle_counter = 0, tb_latest_report = None\<rparr>"

definition tropism_advance_gradient ::
    "mac_fn \<Rightarrow> 'f parse_fn \<Rightarrow> 'f tropism_bridge \<Rightarrow>
      'f tropism_bridge \<times> (unit, string) result" where
  "tropism_advance_gradient mac parse b =
     (let n = tb_cycle_counter b + 1;
          (c, r) = advance mac parse n (tb_client b);
          b1 = b\<lparr>tb_client := c, tb_cycle_counter := n\<rparr>
      in case r of
           Ok report \<Rightarrow> (b1\<lparr>tb_latest_report := Some report\<rparr>, Ok ())
         | Err e \<Rightarrow> (b1, Err (''tropism bridge advance failed: '' @ bridge_display e))
         | Abort x \<Rightarrow> (b1, Abort x))"

section \<open>Lemmas on calls\<close>

text \<open>A run of calls: each is a message type, a payload and a deadline.\<close>

type_synonym call = "string \<times> vmap \<times> u64"

fun client_step ::
    "mac_fn \<Rightarrow> bridge_client \<Rightarrow> call \<Rightarrow> bridge_client \<times> (message, bridge_error) result" where
  "client_step mac c (ty, payload, deadline) = call_with_timeout mac ty payload deadline c"

primrec call_results ::
    "mac_fn \<Rightarrow> bridge_client \<Rightarrow> call list \<Rightarrow> (message, bridge_error) result list" where
  "call_results mac c [] = []"
| "call_results mac c (op # ops) =
     snd (client_step mac c op) # call_results mac (fst (client_step mac c op)) ops"

lemma poisoned_step [simp]: "desynchronized c \<Longrightarrow> client_step mac c op = (c, Err Desynchronized)"
  by (cases op) (simp add: call_with_timeout_def send_request_with_timeout_def)

lemma poisoned_run:
  "desynchronized c \<Longrightarrow> run_ops (client_step mac) c ops = c \<and>
    (\<forall>r \<in> set (call_results mac c ops). r = Err Desynchronized)"
  by (induction ops) auto

lemma call_body:
  assumes "\<not> desynchronized c"
  shows "call_with_timeout mac ty payload deadline c =
    (let c1 = c\<lparr>next_request_id := next_request_id c + 1\<rparr>;
         frame = frame_of mac (arr32_bytes (session_secret c)) (new_message ty (next_request_id c) payload)
     in case write_frame (bc_stdin c) frame of
          (w, Ok _) \<Rightarrow> recv_response (next_request_id c) deadline (c1\<lparr>bc_stdin := w\<rparr>)
        | (w, Err e) \<Rightarrow> (c1\<lparr>bc_stdin := w\<rparr>, Err e)
        | (w, Abort x) \<Rightarrow> (c1\<lparr>bc_stdin := w\<rparr>, Abort x))"
proof -
  show ?thesis
    using assms
    by (simp add: call_with_timeout_def send_request_with_timeout_def allocate_request_id_def
        encode_frame_of Let_def)
qed

lemma recv_response_Ok:
  "recv_response rid d c = (c', Ok m) \<Longrightarrow>
    request_id m = rid \<and> msg_version m = PROTOCOL_VERSION \<and> message_type m \<noteq> MSG_ERROR \<and>
    next_request_id c' = next_request_id c"
  by (auto simp: recv_response.simps check_response_def split: list.splits delivery.splits if_splits)

lemma recv_response_next [simp]: "next_request_id (fst (recv_response rid d c)) = next_request_id c"
  by (auto simp: recv_response.simps split: list.splits delivery.splits)

lemma call_next:
  "next_request_id (fst (client_step mac c op)) =
     (if desynchronized c then next_request_id c else next_request_id c + 1)"
proof (cases "desynchronized c")
  case False
  then show ?thesis
    by (cases op) (auto simp: call_body Let_def split: prod.splits result.splits)
qed simp

lemma call_Ok:
  assumes "snd (client_step mac c op) = Ok m"
  shows "\<not> desynchronized c \<and> request_id m = next_request_id c \<and> msg_version m = PROTOCOL_VERSION \<and>
    message_type m \<noteq> MSG_ERROR"
proof -
  obtain ty payload d where op: "op = (ty, payload, d)"
    by (cases op)
  have live: "\<not> desynchronized c"
    using assms by (cases "desynchronized c") simp_all
  then obtain c2 c' where "recv_response (next_request_id c) d c2 = (c', Ok m)"
    using assms op by (auto simp: call_body Let_def split: prod.splits result.splits)
      (metis prod.collapse)
  then show ?thesis
    using live recv_response_Ok by blast
qed

primrec ok_responses :: "(message, bridge_error) result list \<Rightarrow> message list" where
  "ok_responses [] = []"
| "ok_responses (r # rs) = (case r of Ok m \<Rightarrow> m # ok_responses rs | _ \<Rightarrow> ok_responses rs)"

lemma ok_responses_poisoned: "\<forall>r \<in> set rs. r = Err e \<Longrightarrow> ok_responses rs = []"
  by (induction rs) auto

lemma ok_response_ids:
  "m \<in> set (ok_responses (call_results mac c ops)) \<Longrightarrow>
    \<exists>k < length ops. request_id m = next_request_id c + word_of_nat k"
proof (induction ops arbitrary: c)
  case (Cons op ops)
  show ?case
  proof (cases "desynchronized c")
    case True
    then have "ok_responses (call_results mac c (op # ops)) = []"
      using poisoned_run [of c mac "op # ops"] ok_responses_poisoned by blast
    with Cons.prems show ?thesis by simp
  next
    case False
    consider "snd (client_step mac c op) = Ok m"
      | "m \<in> set (ok_responses (call_results mac (fst (client_step mac c op)) ops))"
      using Cons.prems by (auto split: result.splits)
    then show ?thesis
    proof cases
      case 1
      then show ?thesis using call_Ok [OF 1] by (intro exI [of _ 0]) simp
    next
      case 2
      from Cons.IH [OF this] obtain k where "k < length ops"
        and "request_id m = next_request_id c + 1 + word_of_nat k"
        using False by (auto simp: call_next)
      then show ?thesis by (intro exI [of _ "Suc k"]) (simp add: algebra_simps)
    qed
  qed
qed simp

lemma ok_responses_distinct:
  "length ops \<le> 2 ^ 64 \<Longrightarrow> distinct (map request_id (ok_responses (call_results mac c ops)))"
proof (induction ops arbitrary: c)
  case (Cons op ops)
  let ?c' = "fst (client_step mac c op)"
  have IH: "distinct (map request_id (ok_responses (call_results mac ?c' ops)))"
    using Cons by simp
  have "next_request_id c \<notin> request_id ` set (ok_responses (call_results mac ?c' ops))"
    if live: "\<not> desynchronized c"
  proof
    assume "next_request_id c \<in> request_id ` set (ok_responses (call_results mac ?c' ops))"
    then obtain m where m: "m \<in> set (ok_responses (call_results mac ?c' ops))"
        and "request_id m = next_request_id c"
      by auto
    obtain k where k: "k < length ops"
      and "request_id m = next_request_id ?c' + word_of_nat k"
      using ok_response_ids [OF m] by blast
    with \<open>request_id m = next_request_id c\<close>
    have "next_request_id c = next_request_id c + (1 + word_of_nat k)"
      using live by (simp only: call_next if_False add.assoc)
    then have "1 + (word_of_nat k :: u64) = 0"
      by (simp only: add_cancel_right_right)
    then have "(word_of_nat (Suc k) :: u64) = word_of_nat 0"
      by simp
    moreover have "Suc k < 2 ^ 64"
      using k(1) Cons.prems unfolding list.size by linarith
    moreover have "(0 :: nat) < 2 ^ 64"
      by simp
    ultimately show False
      using u64_of_length_inject by blast
  qed
  note fresh = this
  show ?case
  proof (cases "snd (client_step mac c op)")
    case (Ok m)
    then show ?thesis
      using IH fresh call_Ok [OF Ok] by simp
  qed (use IH in simp_all)
qed simp

section \<open>Lemmas on the stream of frames\<close>

text \<open>A sender that writes the frames of messages, one after the other, stopping at a failure.\<close>

primrec write_messages ::
    "mac_fn \<Rightarrow> bytes \<Rightarrow> writer \<Rightarrow> message list \<Rightarrow> writer \<times> (unit, bridge_error) result" where
  "write_messages mac key w [] = (w, Ok ())"
| "write_messages mac key w (m # ms) =
     (case encode_frame_body mac m key of
        Ok frame \<Rightarrow>
          (case write_frame w frame of
             (w1, Ok _) \<Rightarrow> write_messages mac key w1 ms
           | (w1, r) \<Rightarrow> (w1, r))
      | Err e \<Rightarrow> (w, Err e)
      | Abort x \<Rightarrow> (w, Abort x))"

definition wire_bytes :: "bytes \<Rightarrow> bytes" where
  "wire_bytes frame = u32_bytes (word_of_nat (length frame)) @ frame"

lemma write_messages_Ok:
  assumes "write_messages mac key w ms = (w', Ok ())"
  shows "written w' = written w @ concat (map (\<lambda>m. wire_bytes (frame_of mac key m)) ms) \<and>
    (\<forall>m \<in> set ms. key \<noteq> [] \<and> length (frame_of mac key m) \<le> MAX_FRAME_BODY_SIZE)"
  using assms
proof (induction ms arbitrary: w)
  case (Cons m ms)
  obtain w1 where enc: "encode_frame_body mac m key = Ok (frame_of mac key m)" and "key \<noteq> []"
    and wr: "write_frame w (frame_of mac key m) = (w1, Ok ())"
    and rest: "write_messages mac key w1 ms = (w', Ok ())"
    using Cons.prems
    by (auto simp: encode_frame_body_Ok_iff frame_of_def split: result.splits prod.splits)
  then show ?case
    using Cons.IH [OF rest] write_frame_Ok [OF wr] by (auto simp: wire_bytes_def)
qed simp

lemma reader_frame:
  assumes "clean es" and "delivered es = wire_bytes f @ rest" and "length f \<le> MAX_FRAME_BODY_SIZE"
  obtains es' where "read_frame es = (Ok (Some f), es')" and "clean es'" and "delivered es' = rest"
  using read_frame_reads_as [OF assms(1)] assms(2) parse_frame_exact [OF assms(3), of rest]
  by (cases "read_frame es") (auto simp: wire_bytes_def)

lemma reader_frames:
  assumes "clean es" and "delivered es = concat (map (\<lambda>m. wire_bytes (frame_of mac (arr32_bytes key) m)) ms)"
    and "\<forall>m \<in> set ms. sendable mac (arr32_bytes key) m"
  shows "reader_thread_body mac key es =
    map Ok ms @ [Err (BrSubprocess ''python worker closed stdout (EOF); reader thread exiting'')]"
  using assms
proof (induction ms arbitrary: es)
  case Nil
  have "fst (read_frame es) = Ok None"
    using read_frame_reads_as [OF Nil(1)] Nil(2)
    by (simp add: reads_as_def parse_frame_def stopped_short_def)
  then show ?case
    by (cases "read_frame es") (simp add: reader_thread_body.simps [of mac key es])
next
  case (Cons m ms)
  let ?f = "frame_of mac (arr32_bytes key) m"
  obtain es' where "read_frame es = (Ok (Some ?f), es')" and "clean es'"
    and "delivered es' = concat (map (\<lambda>m. wire_bytes (frame_of mac (arr32_bytes key) m)) ms)"
    using reader_frame [OF Cons.prems(1), of ?f] Cons.prems(2,3) by (auto simp: sendable_def)
  then show ?case
    using Cons.IH [of es'] Cons.prems(3) frame_codec.round_trip
    by (simp add: reader_thread_body.simps [of mac key es])
qed

lemma write_frame_no_timeout: "snd (write_frame w f) \<noteq> Err (BrTimeout d)"
  by (auto simp: write_frame_def write_all_def flush_writer_def split: option.splits)

lemma recv_response_timeout:
  assumes "recv_response rid d c = (c', Err (BrTimeout d'))"
    and "\<forall>r. Frame r \<in> set (bc_responses c) \<longrightarrow> r \<noteq> Err (BrTimeout d')"
  shows "desynchronized c'"
proof (cases "bc_responses c")
  case Nil
  with assms show ?thesis by (simp add: recv_response.simps)
next
  case (Cons x xs)
  show ?thesis
  proof (cases x)
    case (Frame r)
    have "check_response rid m \<noteq> Err (BrTimeout d')" for m
      by (simp add: check_response_def)
    then show ?thesis
      using assms Cons Frame by (auto simp: recv_response.simps and_then_Err_iff)
  next
    case Silence
    with Cons assms(1) show ?thesis by (auto simp: recv_response.simps)
  qed
qed

lemma timeout_latches:
  assumes "client_step mac c (ty, payload, d) = (c', Err (BrTimeout d'))"
    and "\<not> desynchronized c" and "\<forall>r. Frame r \<in> set (bc_responses c) \<longrightarrow> r \<noteq> Err (BrTimeout d')"
  shows "desynchronized c'"
proof -
  define frame where
    "frame = frame_of mac (arr32_bytes (session_secret c)) (new_message ty (next_request_id c) payload)"
  obtain w r where wr: "write_frame (bc_stdin c) frame = (w, r)"
    by fastforce
  then have r: "r \<noteq> Err (BrTimeout d')"
    using write_frame_no_timeout [of "bc_stdin c" frame d'] by simp
  note step = assms(1) [unfolded client_step.simps call_body [OF assms(2)] Let_def
      frame_def [symmetric] wr]
  show ?thesis
  proof (cases r)
    case (Ok u)
    with step have "recv_response (next_request_id c) d
        (c\<lparr>next_request_id := next_request_id c + 1, bc_stdin := w\<rparr>) = (c', Err (BrTimeout d'))"
      by simp
    then show ?thesis
      by (rule recv_response_timeout) (use assms(3) in simp)
  qed (use step r in simp_all)
qed

text \<open>The reader thread reports no timeouts, so only silence on the channel causes one.\<close>

lemma read_frame_no_timeout: "fst (read_frame es) \<noteq> Err (BrTimeout d)"
proof -
  have loop: "fst (read_loop n buf es) \<noteq> Err (BrTimeout d)" for n buf es
    by (induction n buf es rule: read_loop.induct)
      (subst read_loop.simps, auto simp: stopped_short_def split: list.splits read_event.splits)
  then have exact: "fst (read_exact_or_eof n es) \<noteq> Err (BrTimeout d)" for n es
    by (simp add: read_exact_or_eof_def)
  show ?thesis
    using exact [of 4 es] exact
    by (auto simp: read_frame_def Let_def split: prod.splits result.splits option.splits)
      (metis fst_conv)+
qed

lemma protocol_err_cases: "protocol_err r = Err e \<Longrightarrow> \<exists>s. e = BrProtocol s"
  by (cases r) (auto simp: protocol_err_def)

lemma decode_frame_no_timeout: "decode_frame_body mac f key \<noteq> Err (BrTimeout d)"
proof
  assume "decode_frame_body mac f key = Err (BrTimeout d)"
  then have "from_body_canonical_bytes (drop HMAC_SIZE f) = Err (BrTimeout d)"
    by (auto simp: decode_frame_body_def verify_hmac_def and_then_Err_iff split: if_splits)
  then obtain v where "decode (drop HMAC_SIZE f) = Ok v"
    by (cases "decode (drop HMAC_SIZE f)") (auto simp: from_body_canonical_bytes_def)
  with \<open>from_body_canonical_bytes (drop HMAC_SIZE f) = Err (BrTimeout d)\<close> show False
    by (cases v) (auto simp: from_body_canonical_bytes_def and_then_Err_iff dest!: protocol_err_cases
        split: if_splits)
qed

lemma reader_no_timeout: "Err (BrTimeout d) \<notin> set (reader_thread_body mac secret es)"
proof (induction mac secret es rule: reader_thread_body.induct)
  case (1 mac secret es)
  show ?case
    using 1 read_frame_no_timeout [of es d] decode_frame_no_timeout [of mac _ _ d]
    by (subst reader_thread_body.simps)
      (auto split: prod.splits result.splits option.splits dest: sym)
qed

section \<open>Properties\<close>

text \<open>
  C31. The bridge delivers what was sent: whatever messages one side writes under the session
  key, and however the pipe cuts and interrupts the stream, the reader thread hands over those
  messages in order, and then the end of the stream.
\<close>

theorem bridge_delivers_in_order:
  assumes "write_messages mac (arr32_bytes key) w ms = (w', Ok ())"
    and "clean es" and "written w @ delivered es = written w'"
    and "\<forall>m \<in> set ms. wf_message m \<and> msg_version m = PROTOCOL_VERSION"
  shows "reader_thread_body mac key es =
    map Ok ms @ [Err (BrSubprocess ''python worker closed stdout (EOF); reader thread exiting'')]"
  using write_messages_Ok [OF assms(1)] assms(2-4)
  by (intro reader_frames) (auto simp: sendable_def)

lemma bridge_delivers_in_order_witness:
  "(let f = frame_of (\<lambda>k b. word_of_nat (length b)) (arr32_bytes 1)
              (new_message MSG_ADVANCE 7 (advance_payload 3)) in
    reader_thread_body (\<lambda>k b. word_of_nat (length b)) 1
      [Chunk (take 5 (wire_bytes f)), Interrupted, Chunk (drop 5 (wire_bytes f))]) =
   [Ok (new_message MSG_ADVANCE 7 (advance_payload 3)),
    Err (BrSubprocess ''python worker closed stdout (EOF); reader thread exiting'')]"
proof -
  let ?mac = "\<lambda>k b. word_of_nat (length b) :: arr32"
  let ?m = "new_message MSG_ADVANCE 7 (advance_payload 3)"
  let ?f = "frame_of ?mac (arr32_bytes 1) ?m"
  let ?w = "\<lparr>written = [], room = None, write_failure = IoErr [], flush_failure = None\<rparr>"
  have "length ?f \<le> MAX_FRAME_BODY_SIZE" and "5 < length (wire_bytes ?f)"
    by (code_simp, code_simp)
  moreover have "wf_message ?m"
    by code_simp
  moreover have "?f \<noteq> []"
    by (simp add: frame_of_def)
  ultimately have "reader_thread_body ?mac 1
      [Chunk (take 5 (wire_bytes ?f)), Interrupted, Chunk (drop 5 (wire_bytes ?f))] =
    map Ok [?m] @ [Err (BrSubprocess ''python worker closed stdout (EOF); reader thread exiting'')]"
    by (intro bridge_delivers_in_order [of ?mac 1 ?w _ "?w\<lparr>written := wire_bytes ?f\<rparr>"])
      (simp_all add: encode_frame_of write_frame_unlimited wire_bytes_def new_message_def)
  then show ?thesis
    by (simp add: Let_def)
qed

text \<open>
  C32. A response is never handed to two calls: over a run of at most \<open>2 ^ 64\<close> calls the
  responses that calls return have different correlation ids, whatever the worker sends, each
  the id its call allocated.
\<close>

theorem responses_not_shared:
  assumes "length ops \<le> 2 ^ 64"
  shows "distinct (map request_id (ok_responses (call_results mac c ops)))"
  by (rule ok_responses_distinct [OF assms])

text \<open>A client whose worker answers its first request late.\<close>

definition slow_client :: bridge_client where
  "slow_client =
     \<lparr>bc_child = Some (Ok ()),
      bc_stdin = \<lparr>written = [], room = None, write_failure = IoErr [], flush_failure = None\<rparr>,
      bc_responses = [Silence, Frame (Ok (new_message MSG_SHUTDOWN_ACK 1 []))],
      bc_reader_handle = True, session_secret = 1, next_request_id = 1, desynchronized = False,
      bc_hello_ack = \<lparr>kernel_tropism_version = [], python_version = []\<rparr>\<rparr>"

lemma responses_not_shared_witness:
  "distinct (map request_id (ok_responses (call_results (\<lambda>k b. 0)
     (slow_client\<lparr>bc_responses := [Frame (Ok (new_message MSG_SHUTDOWN_ACK 1 []))]\<rparr>)
     [(MSG_SHUTDOWN, [], 9), (MSG_SHUTDOWN, [], 9)])))"
  by (rule responses_not_shared) simp

text \<open>
  A call that times out poisons the client for good: every later call, of any kind, fails as
  desynchronized without writing a byte or taking a frame off the channel, so that a late frame is
  never paired with another request.
\<close>

lemma timeout_poisons:
  assumes "client_step mac c (ty, payload, d) = (c', Err (BrTimeout d'))"
    and "\<not> desynchronized c" and "\<forall>r. Frame r \<in> set (bc_responses c) \<longrightarrow> r \<noteq> Err (BrTimeout d')"
  shows "run_ops (client_step mac) c' ops = c' \<and>
    (\<forall>r \<in> set (call_results mac c' ops). r = Err Desynchronized)"
proof -
  have "desynchronized c'"
    by (rule timeout_latches [OF assms])
  then show ?thesis
    by (rule poisoned_run)
qed

text \<open>
  The cycle counter of the tropism bridge counts the attempts, and the latest report is the
  last one received: an advance that fails still counts, and leaves the report of an earlier cycle
  in place.
\<close>

lemma tropism_counts_attempts:
  "tb_cycle_counter (run_ops (\<lambda>b _. tropism_advance_gradient mac parse b) (tropism_bridge_new c)
     (replicate n ())) = word_of_nat n \<and>
   tb_latest_report (fst (tropism_advance_gradient mac parse b)) =
     (case snd (advance mac parse (tb_cycle_counter b + 1) (tb_client b)) of
        Ok report \<Rightarrow> Some report
      | _ \<Rightarrow> tb_latest_report b)"
proof
  have counter: "tb_cycle_counter (fst (tropism_advance_gradient mac parse b)) = tb_cycle_counter b + 1"
    for b :: "'a tropism_bridge"
    by (auto simp: tropism_advance_gradient_def Let_def split: prod.splits result.splits)
  have "tb_cycle_counter (run_ops (\<lambda>b _. tropism_advance_gradient mac parse b) b (replicate n ())) =
      tb_cycle_counter b + word_of_nat n" for b :: "'a tropism_bridge"
    by (induction n arbitrary: b) (simp_all add: counter)
  then show "tb_cycle_counter (run_ops (\<lambda>b _. tropism_advance_gradient mac parse b)
      (tropism_bridge_new c) (replicate n ())) = word_of_nat n"
    by (simp add: tropism_bridge_new_def)
  show "tb_latest_report (fst (tropism_advance_gradient mac parse b)) =
     (case snd (advance mac parse (tb_cycle_counter b + 1) (tb_client b)) of
        Ok report \<Rightarrow> Some report
      | _ \<Rightarrow> tb_latest_report b)"
    by (auto simp: tropism_advance_gradient_def Let_def split: prod.splits result.splits)
qed

end
