(* ===== verification/Events_Core.thy ===== *)
theory Events_Core
  imports Canonical_Bytes Crypto
begin

text \<open>
  The payloads of the substrate's own events: the core vocabulary
  (\<^verbatim>\<open>substrate/src/events/core.rs\<close>), schema migrations (\<^verbatim>\<open>schema_migration.rs\<close>) and
  cultivation (\<^verbatim>\<open>cultivation.rs\<close>). Each is the canonical encoding of a map, under a node
  type that is a prefix and a suffix. A float is written by \<open>repr\<close>, a parameter.
\<close>

section \<open>Shared\<close>

text \<open>\<^verbatim>\<open>cb_encode(&Value::Map(m))\<close> of a map built by insertions; encoding never fails.\<close>

definition event_bytes :: "(string \<times> Value) list \<Rightarrow> bytes" where
  "event_bytes kvs = encode_into (VMap (bt_of kvs))"

definition hex_prefix :: "bytes \<Rightarrow> nat \<Rightarrow> string" where
  "hex_prefix bs n = concat (map hex_byte (take n bs))"

text \<open>
  The readers' matches on a field: a value of the expected type, or a default.
\<close>

definition uint_or :: "u64 \<Rightarrow> vmap \<Rightarrow> string \<Rightarrow> u64" where
  "uint_or d m k = (case bt_get m k of Some (VUint n) \<Rightarrow> n | _ \<Rightarrow> d)"

definition bool_or :: "bool \<Rightarrow> vmap \<Rightarrow> string \<Rightarrow> bool" where
  "bool_or d m k = (case bt_get m k of Some (VBool b) \<Rightarrow> b | _ \<Rightarrow> d)"

definition string_or :: "string \<Rightarrow> vmap \<Rightarrow> string \<Rightarrow> string" where
  "string_or d m k = (case bt_get m k of Some (VString s) \<Rightarrow> s | _ \<Rightarrow> d)"

definition opt_uint :: "vmap \<Rightarrow> string \<Rightarrow> u64 option" where
  "opt_uint m k = (case bt_get m k of Some (VUint n) \<Rightarrow> Some n | _ \<Rightarrow> None)"

definition opt_string :: "vmap \<Rightarrow> string \<Rightarrow> string option" where
  "opt_string m k = (case bt_get m k of Some (VString s) \<Rightarrow> Some s | _ \<Rightarrow> None)"

definition opt_bytes :: "vmap \<Rightarrow> string \<Rightarrow> bytes option" where
  "opt_bytes m k = (case bt_get m k of Some (VBytes b) \<Rightarrow> Some b | _ \<Rightarrow> None)"

definition opt_timestamp :: "vmap \<Rightarrow> string \<Rightarrow> i64 option" where
  "opt_timestamp m k = (case bt_get m k of Some (VTimestamp t) \<Rightarrow> Some t | _ \<Rightarrow> None)"

definition bytes_arr32 :: "bytes \<Rightarrow> arr32 option" where
  "bytes_arr32 b = (if length b = 32 then Some (word_of_be b) else None)"

definition opt_arr32 :: "vmap \<Rightarrow> string \<Rightarrow> arr32 option" where
  "opt_arr32 m k = Option.bind (opt_bytes m k) bytes_arr32"

lemmas field_defs = uint_or_def bool_or_def string_or_def opt_uint_def opt_string_def opt_bytes_def
  opt_timestamp_def bytes_arr32_def opt_arr32_def

section \<open>Core events\<close>

definition NODE_TYPE_GENESIS_PREFIX :: string where
  "NODE_TYPE_GENESIS_PREFIX = ''genesis_event:''"

definition NODE_TYPE_CYCLE_ADVANCED :: string where
  "NODE_TYPE_CYCLE_ADVANCED = ''cycle_advanced''"

definition NODE_TYPE_CULTIVAR_INITIATED_INGESTION_REQUEST :: string where
  "NODE_TYPE_CULTIVAR_INITIATED_INGESTION_REQUEST = ''cultivar_initiated_ingestion_request''"

definition NODE_TYPE_AXIS_REGISTERED_PREFIX :: string where
  "NODE_TYPE_AXIS_REGISTERED_PREFIX = ''axis_registered:''"

definition NODE_TYPE_AXIS_PERTURBED_PREFIX :: string where
  "NODE_TYPE_AXIS_PERTURBED_PREFIX = ''axis_perturbed:''"

definition NODE_TYPE_AXIS_RESET_PREFIX :: string where
  "NODE_TYPE_AXIS_RESET_PREFIX = ''axis_reset_after_fruiting:''"

definition genesis_event_node_type :: "arr32 \<Rightarrow> string" where
  "genesis_event_node_type sid = NODE_TYPE_GENESIS_PREFIX @ hex_prefix (arr32_bytes sid) 8"

definition encode_genesis_event :: "arr32 \<Rightarrow> i64 \<Rightarrow> u64 \<Rightarrow> bytes" where
  "encode_genesis_event sid t depth = event_bytes
     ([(''substrate_id'', VBytes (arr32_bytes sid)),
       (''genesis_time_unix_ns'', VTimestamp t)] @
      (if depth \<noteq> 0 then [(''generation_depth'', VUint depth)] else []))"

definition encode_cycle_advanced :: "u64 \<Rightarrow> u64 \<Rightarrow> bytes" where
  "encode_cycle_advanced prior new = event_bytes
     [(''prior_cycle'', VUint prior), (''new_cycle'', VUint new)]"

definition encode_cultivar_initiated_ingestion_request :: "u64 \<Rightarrow> u64 \<Rightarrow> bool \<Rightarrow> bytes" where
  "encode_cultivar_initiated_ingestion_request at_cycle since ever_fed = event_bytes
     [(''at_cycle'', VUint at_cycle), (''cycles_since_last_ingestion'', VUint since),
      (''ever_fed'', VBool ever_fed)]"

record 'f axis_registered_event =
  are_name :: string
  are_axis_class :: string
  are_fruiting_threshold :: 'f
  are_initial_value :: 'f
  are_decay_rate_per_cycle :: 'f
  are_is_mortality_signal :: bool
  are_update_rule_kind :: string

definition axis_registered_node_type :: "string \<Rightarrow> string" where
  "axis_registered_node_type name = NODE_TYPE_AXIS_REGISTERED_PREFIX @ name"

definition encode_axis_registered :: "('f \<Rightarrow> string) \<Rightarrow> 'f axis_registered_event \<Rightarrow> bytes" where
  "encode_axis_registered repr ev = event_bytes
     [(''name'', VString (are_name ev)),
      (''axis_class'', VString (are_axis_class ev)),
      (''fruiting_threshold_repr'', VString (repr (are_fruiting_threshold ev))),
      (''initial_value_repr'', VString (repr (are_initial_value ev))),
      (''decay_rate_per_cycle_repr'', VString (repr (are_decay_rate_per_cycle ev))),
      (''is_mortality_signal'', VBool (are_is_mortality_signal ev)),
      (''update_rule_kind'', VString (are_update_rule_kind ev))]"

definition axis_perturbed_node_type :: "string \<Rightarrow> string" where
  "axis_perturbed_node_type name = NODE_TYPE_AXIS_PERTURBED_PREFIX @ name"

definition encode_axis_perturbed :: "('f \<Rightarrow> string) \<Rightarrow> string \<Rightarrow> 'f \<Rightarrow> bytes" where
  "encode_axis_perturbed repr axis_name delta = event_bytes
     [(''axis_name'', VString axis_name), (''delta_repr'', VString (repr delta))]"

definition axis_reset_node_type :: "string \<Rightarrow> string" where
  "axis_reset_node_type name = NODE_TYPE_AXIS_RESET_PREFIX @ name"

definition encode_axis_reset_after_fruiting ::
    "('f \<Rightarrow> string) \<Rightarrow> string \<Rightarrow> u64 \<Rightarrow> 'f \<Rightarrow> 'f \<Rightarrow> bytes" where
  "encode_axis_reset_after_fruiting repr axis_name at_cycle fruiting reset = event_bytes
     [(''axis_name'', VString axis_name), (''at_cycle'', VUint at_cycle),
      (''fruiting_value_repr'', VString (repr fruiting)),
      (''reset_to_value_repr'', VString (repr reset))]"

section \<open>Schema migration events\<close>

definition NODE_TYPE_SCHEMA_MIGRATION_STARTED_PREFIX :: string where
  "NODE_TYPE_SCHEMA_MIGRATION_STARTED_PREFIX = ''schema_migration_started:''"

definition NODE_TYPE_SCHEMA_MIGRATION_CYCLE_VALIDATED_PREFIX :: string where
  "NODE_TYPE_SCHEMA_MIGRATION_CYCLE_VALIDATED_PREFIX = ''schema_migration_cycle_validated:''"

definition NODE_TYPE_SCHEMA_MIGRATION_COMMITTED_PREFIX :: string where
  "NODE_TYPE_SCHEMA_MIGRATION_COMMITTED_PREFIX = ''schema_migration_committed:''"

definition NODE_TYPE_SCHEMA_MIGRATION_ROLLED_BACK_PREFIX :: string where
  "NODE_TYPE_SCHEMA_MIGRATION_ROLLED_BACK_PREFIX = ''schema_migration_rolled_back:''"

definition schema_migration_started_node_type :: "string \<Rightarrow> string" where
  "schema_migration_started_node_type op = NODE_TYPE_SCHEMA_MIGRATION_STARTED_PREFIX @ op"

definition schema_migration_cycle_validated_node_type :: "string \<Rightarrow> string" where
  "schema_migration_cycle_validated_node_type op =
     NODE_TYPE_SCHEMA_MIGRATION_CYCLE_VALIDATED_PREFIX @ op"

definition schema_migration_committed_node_type :: "string \<Rightarrow> string" where
  "schema_migration_committed_node_type op = NODE_TYPE_SCHEMA_MIGRATION_COMMITTED_PREFIX @ op"

definition schema_migration_rolled_back_node_type :: "string \<Rightarrow> string" where
  "schema_migration_rolled_back_node_type op = NODE_TYPE_SCHEMA_MIGRATION_ROLLED_BACK_PREFIX @ op"

definition encode_schema_migration_started :: "string \<Rightarrow> bytes \<Rightarrow> u64 \<Rightarrow> u64 \<Rightarrow> i64 \<Rightarrow> bytes" where
  "encode_schema_migration_started op diff started window t = event_bytes
     [(''op'', VString op), (''schema_diff_canonical_bytes'', VBytes diff),
      (''started_at_cycle'', VUint started), (''dual_validation_window_cycles'', VUint window),
      (''started_at_unix_ns'', VTimestamp t)]"

definition encode_schema_migration_cycle_validated :: "string \<Rightarrow> u64 \<Rightarrow> bool \<Rightarrow> string \<Rightarrow> bytes" where
  "encode_schema_migration_cycle_validated op at_cycle equivalent reason = event_bytes
     [(''op'', VString op), (''at_cycle'', VUint at_cycle), (''equivalent'', VBool equivalent),
      (''divergence_reason'', VString reason)]"

definition encode_schema_migration_committed :: "string \<Rightarrow> u64 \<Rightarrow> u64 \<Rightarrow> u64 \<Rightarrow> bytes" where
  "encode_schema_migration_committed op committed started window = event_bytes
     [(''op'', VString op), (''committed_at_cycle'', VUint committed),
      (''started_at_cycle'', VUint started), (''dual_validation_window_cycles'', VUint window)]"

definition encode_schema_migration_rolled_back :: "string \<Rightarrow> string \<Rightarrow> u64 \<Rightarrow> bytes" where
  "encode_schema_migration_rolled_back op reason at_cycle = event_bytes
     [(''op'', VString op), (''reason'', VString reason), (''rolled_back_at_cycle'', VUint at_cycle)]"

section \<open>Cultivation events\<close>

definition NODE_TYPE_SUCCESSOR_CHAIN_UPDATED_PREFIX :: string where
  "NODE_TYPE_SUCCESSOR_CHAIN_UPDATED_PREFIX = ''successor_chain_updated:''"

definition NODE_TYPE_SUCCESSION_COMPLETED_PREFIX :: string where
  "NODE_TYPE_SUCCESSION_COMPLETED_PREFIX = ''succession_completed:''"

definition NODE_TYPE_CULTIVATION_ORPHANED_PREFIX :: string where
  "NODE_TYPE_CULTIVATION_ORPHANED_PREFIX = ''cultivation_orphaned:''"

definition NODE_TYPE_CULTIVATION_RECOVERED_PREFIX :: string where
  "NODE_TYPE_CULTIVATION_RECOVERED_PREFIX = ''cultivation_recovered:''"

definition NODE_TYPE_CULTIVATION_ORPHANED_TERMINAL :: string where
  "NODE_TYPE_CULTIVATION_ORPHANED_TERMINAL = ''cultivation_orphaned_terminal''"

definition NODE_TYPE_BET_RETIRED_PREFIX :: string where
  "NODE_TYPE_BET_RETIRED_PREFIX = ''bet_retired:''"

definition NODE_TYPE_BET_RETIRED_PROPOSAL :: string where
  "NODE_TYPE_BET_RETIRED_PROPOSAL = ''bet_retired_proposal''"

definition NODE_TYPE_CULTIVATION_SUCCESSION_CONFIG_DECLARED :: string where
  "NODE_TYPE_CULTIVATION_SUCCESSION_CONFIG_DECLARED = ''cultivation_succession_config_declared''"

definition successor_chain_updated_node_type :: "arr32 \<Rightarrow> string" where
  "successor_chain_updated_node_type pk =
     NODE_TYPE_SUCCESSOR_CHAIN_UPDATED_PREFIX @ hex_prefix (arr32_bytes pk) 8"

definition succession_completed_node_type :: "arr32 \<Rightarrow> string" where
  "succession_completed_node_type pk =
     NODE_TYPE_SUCCESSION_COMPLETED_PREFIX @ hex_prefix (arr32_bytes pk) 8"

definition cultivation_orphaned_node_type :: "arr32 \<Rightarrow> string" where
  "cultivation_orphaned_node_type pk =
     NODE_TYPE_CULTIVATION_ORPHANED_PREFIX @ hex_prefix (arr32_bytes pk) 8"

definition cultivation_recovered_node_type :: "arr32 \<Rightarrow> string" where
  "cultivation_recovered_node_type pk =
     NODE_TYPE_CULTIVATION_RECOVERED_PREFIX @ hex_prefix (arr32_bytes pk) 8"

definition bet_retired_node_type :: "string \<Rightarrow> string" where
  "bet_retired_node_type reason = NODE_TYPE_BET_RETIRED_PREFIX @ reason"

definition encode_successor_chain_updated ::
    "arr32 \<Rightarrow> i64 \<Rightarrow> i64 option \<Rightarrow> u64 \<Rightarrow> u64 \<Rightarrow> bytes" where
  "encode_successor_chain_updated pk valid_from valid_until pos cycle = event_bytes
     [(''successor_pubkey'', VBytes (arr32_bytes pk)),
      (''valid_from_unix_ns'', VTimestamp valid_from),
      (''valid_until_unix_ns'', case valid_until of Some t \<Rightarrow> VTimestamp t | None \<Rightarrow> Null),
      (''chain_position'', VUint pos),
      (''updated_at_cycle'', VUint cycle)]"

definition encode_succession_completed :: "arr32 \<Rightarrow> arr32 \<Rightarrow> i64 \<Rightarrow> u64 \<Rightarrow> u64 \<Rightarrow> bytes" where
  "encode_succession_completed pk prior t sessions cycle = event_bytes
     [(''successor_pubkey'', VBytes (arr32_bytes pk)),
      (''prior_cultivator_pubkey'', VBytes (arr32_bytes prior)),
      (''anchor_timestamp_unix_ns'', VTimestamp t),
      (''catechumenate_session_count'', VUint sessions),
      (''completed_at_cycle'', VUint cycle)]"

definition encode_cultivation_orphaned :: "arr32 \<Rightarrow> i64 \<Rightarrow> string \<Rightarrow> u64 \<Rightarrow> bytes" where
  "encode_cultivation_orphaned prior t reason cycle = event_bytes
     [(''prior_cultivator_pubkey'', VBytes (arr32_bytes prior)),
      (''anchor_timestamp_unix_ns'', VTimestamp t),
      (''reason'', VString reason), (''emitted_at_cycle'', VUint cycle)]"

definition encode_cultivation_recovered :: "arr32 \<Rightarrow> string \<Rightarrow> i64 \<Rightarrow> u64 \<Rightarrow> bytes" where
  "encode_cultivation_recovered pk proof_ref t cycle = event_bytes
     [(''successor_pubkey'', VBytes (arr32_bytes pk)),
      (''recovery_proof_reference'', VString proof_ref),
      (''anchor_timestamp_unix_ns'', VTimestamp t), (''recovered_at_cycle'', VUint cycle)]"

definition encode_bet_retired_proposal :: "string \<Rightarrow> u64 \<Rightarrow> i64 \<Rightarrow> bytes" where
  "encode_bet_retired_proposal reason cycle t = event_bytes
     [(''reason'', VString reason), (''proposed_at_cycle'', VUint cycle),
      (''anchor_timestamp_unix_ns'', VTimestamp t)]"

definition encode_bet_retired :: "string \<Rightarrow> arr32 \<Rightarrow> u64 \<Rightarrow> i64 \<Rightarrow> bytes" where
  "encode_bet_retired reason proposal cycle t = event_bytes
     [(''reason'', VString reason), (''proposal_hash'', VBytes (arr32_bytes proposal)),
      (''sealed_at_cycle'', VUint cycle), (''anchor_timestamp_unix_ns'', VTimestamp t)]"

definition encode_cultivation_succession_config_declared ::
    "u64 \<Rightarrow> u64 \<Rightarrow> u64 \<Rightarrow> string \<Rightarrow> u64 \<Rightarrow> bytes" where
  "encode_cultivation_succession_config_declared cadence legacy_days terminal_days choice cycle =
     event_bytes
       [(''cadence_days'', VUint cadence), (''legacy_window_days'', VUint legacy_days),
        (''orphaned_terminal_window_days'', VUint terminal_days),
        (''terminal_choice'', VString choice), (''declared_at_cycle'', VUint cycle)]"

section \<open>Lemmas\<close>

text \<open>An event is read back as its map, for valid strings and within the allocation bound.\<close>

definition event_ok :: "(string \<times> Value) list \<Rightarrow> bool" where
  "event_ok kvs \<longleftrightarrow> (\<forall>(k, v) \<in> set kvs. str_ok k \<and> wf_value v) \<and> length (event_bytes kvs) < 2 ^ 63"

lemma decode_event:
  assumes "event_ok kvs"
  shows "decode (event_bytes kvs) = Ok (VMap (bt_of kvs))"
proof -
  have "wf_value (VMap (bt_of kvs))"
    by (rule wf_VMap_of) (use assms in \<open>auto simp: event_ok_def\<close>)
  then show ?thesis
    using assms decode_encode_into by (simp add: event_ok_def event_bytes_def)
qed

text \<open>The size of an encoded event, from the sizes of its fields.\<close>

lemma length_write_varint_le: "unat n < 2 ^ (7 * k) \<Longrightarrow> length (write_varint n) \<le> max 1 k"
proof (induction n arbitrary: k rule: write_varint.induct)
  case (1 n)
  show ?case
  proof (cases "n < 0x80")
    case False
    then have big: "128 \<le> unat n"
      by (simp add: word_less_nat_alt)
    obtain j where k: "k = Suc j"
      using 1(2) big by (cases k) auto
    then have "unat (drop_bit 7 n) < 2 ^ (7 * j)"
      using 1(2) by (simp only: k unat_drop_bit_eq drop_bit_eq_div)
        (simp add: power_add unat_div less_mult_imp_div_less mult.commute)
    moreover have "j \<noteq> 0"
      using 1(2) big k by (cases j) auto
    ultimately show ?thesis
      using 1(1) [of j] False k by (auto simp: write_varint.simps [of n] Let_def)
  qed (simp add: write_varint.simps [of n])
qed

lemma length_write_varint: "length (write_varint n) \<le> 10"
  using length_write_varint_le [of n 10] unsigned_less [of n, where ?'a = nat] by simp

lemma sum_list_map_subset:
  fixes f :: "'a \<Rightarrow> nat"
  assumes "distinct xs" and "set xs \<subseteq> set ys"
  shows "sum_list (map f xs) \<le> sum_list (map f ys)"
proof -
  have "sum_list (map f xs) = sum f (set xs)"
    using assms(1) by (simp add: sum_list_distinct_conv_sum_set)
  also have "\<dots> \<le> sum f (set ys)"
    using assms(2) by (intro sum_mono2) auto
  also have "\<dots> \<le> sum_list (map f (remdups ys))"
    by (simp add: sum_list_distinct_conv_sum_set)
  also have "\<dots> \<le> sum_list (map f ys)"
    by (induction ys) auto
  finally show ?thesis .
qed

lemma length_event_bytes:
  "length (event_bytes kvs) \<le> 11 + (\<Sum>(k, v) \<leftarrow> kvs. 11 + length k + length (encode_into v))"
proof -
  let ?m = "sort_key (encode_string \<circ> fst) (bt_of kvs)"
  have "length (event_bytes kvs) = 1 + length (write_varint (word_of_nat (length (bt_of kvs)))) +
      sum_list (map (length \<circ> entry_bytes) ?m)"
    by (simp add: event_bytes_def encode_into_VMap length_concat)
  also have "\<dots> \<le> 11 + sum_list (map (length \<circ> entry_bytes) kvs)"
    using length_write_varint sum_list_map_subset [of ?m kvs "length \<circ> entry_bytes"] set_bt_of [of kvs]
      bt_wf_distinct [OF bt_wf_of [of kvs]]
    distinct_map [of fst "bt_of kvs"]
    by (simp add: add_mono)
  also have "sum_list (map (length \<circ> entry_bytes) kvs) \<le>
      (\<Sum>(k, v) \<leftarrow> kvs. 11 + length k + length (encode_into v))"
    by (rule sum_list_mono) (auto simp: encode_string_def length_write_varint str_bytes_def)
  finally show ?thesis by simp
qed

end
