(* ===== verification/Derived_State.thy ===== *)
theory Derived_State
  imports Events_Core Dag
begin

text \<open>
  The state derived from the event log, \<^verbatim>\<open>substrate/src/derived_state.rs\<close>: each event's
  effect, replay of a DAG, the snapshot codec, and the replay of the tail behind a snapshot
  (\<^verbatim>\<open>persistence_runtime.rs\<close>). A handler that mutates and then fails returns the mutated
  state beside its error.
\<close>

section \<open>Types\<close>

datatype derived_state_error =
    EventDecode string string
  | EventField string string string
  | MultipleGenesis

record observatory_snapshot =
  os_at_cycle :: u64
  os_at_unix_ns :: i64
  os_dag_node_count :: u64
  os_dag_total_content_bytes :: u64
  os_evolution_event_count :: u64
  os_distinct_perturbed_axes :: u64
  os_reachable_peer_count :: u64
  os_ratio_repr :: string
  os_compute_ns :: u64
  os_network_bytes :: u64
  os_storage_bytes :: u64
  os_telos_alignment_repr :: string
  os_mortality_density :: u64
  os_hoarding_indicator :: bool
  os_fork_count :: u64
  os_disagreement_density :: u64

record derived_migration_candidate =
  mc_op_name :: string
  mc_schema_diff :: bytes
  mc_started_at_cycle :: u64
  mc_window_cycles :: u64
  mc_started_at_unix_ns :: i64

record derived_successor_entry =
  se_pubkey :: arr32
  se_valid_from :: i64
  se_valid_until :: "i64 option"

record derived_succession_config =
  sc_cadence_days :: u64
  sc_legacy_window_days :: u64
  sc_terminal_window_days :: u64
  sc_terminal_choice :: string

record derived_state =
  ds_substrate_id :: "arr32 option"
  ds_genesis_time :: "i64 option"
  ds_generation_depth :: u64
  ds_cycle_counter :: u64
  ds_last_absorbed_cycle :: "u64 option"
  ds_observatory_history :: "observatory_snapshot list"
  ds_migration_candidate :: "derived_migration_candidate option"
  ds_successor_chain :: "derived_successor_entry list"
  ds_succession_config :: "derived_succession_config option"

definition derived_empty :: derived_state where
  "derived_empty =
     \<lparr>ds_substrate_id = None, ds_genesis_time = None, ds_generation_depth = 0,
      ds_cycle_counter = 0, ds_last_absorbed_cycle = None, ds_observatory_history = [],
      ds_migration_candidate = None, ds_successor_chain = [], ds_succession_config = None\<rparr>"

definition is_post_m21_substrate :: "derived_state \<Rightarrow> bool" where
  "is_post_m21_substrate s \<longleftrightarrow> ds_substrate_id s \<noteq> None"

section \<open>Observatory snapshots\<close>

definition observatory_value :: "observatory_snapshot \<Rightarrow> Value" where
  "observatory_value s = VMap (bt_of
     [(''at_cycle'', VUint (os_at_cycle s)),
      (''at_unix_ns'', VTimestamp (os_at_unix_ns s)),
      (''signal_1_dag_node_count'', VUint (os_dag_node_count s)),
      (''signal_1_dag_total_content_bytes'', VUint (os_dag_total_content_bytes s)),
      (''signal_2_evolution_event_count'', VUint (os_evolution_event_count s)),
      (''signal_3_distinct_perturbed_axes_count'', VUint (os_distinct_perturbed_axes s)),
      (''signal_4b_reachable_peer_count'', VUint (os_reachable_peer_count s)),
      (''signal_6_ratio_repr'', VString (os_ratio_repr s)),
      (''signal_7_compute_ns'', VUint (os_compute_ns s)),
      (''signal_8_network_bytes'', VUint (os_network_bytes s)),
      (''signal_9_storage_bytes'', VUint (os_storage_bytes s)),
      (''signal_telos_alignment_repr'', VString (os_telos_alignment_repr s)),
      (''signal_internal_mortality_event_density'', VUint (os_mortality_density s)),
      (''signal_hoarding_indicator'', VBool (os_hoarding_indicator s)),
      (''signal_4a_cumulative_fork_count'', VUint (os_fork_count s)),
      (''signal_char07_honest_disagreement_density'', VUint (os_disagreement_density s))])"

definition field_err ::
    "string \<Rightarrow> string \<Rightarrow> ('a, cb_error) result \<Rightarrow> ('a, derived_state_error) result" where
  "field_err nt field r = map_err (\<lambda>e. EventField nt field (cb_display e)) r"

definition observatory_uint :: "vmap \<Rightarrow> string \<Rightarrow> (u64, derived_state_error) result" where
  "observatory_uint m k = field_err ''observatory_snapshot'' k (map_get_uint m k)"

definition observatory_from_map ::
    "vmap \<Rightarrow> (observatory_snapshot, derived_state_error) result" where
  "observatory_from_map m =
     and_then (observatory_uint m ''at_cycle'') (\<lambda>at_cycle.
     and_then (ok_or (EventField ''observatory_snapshot'' ''at_unix_ns'' ''missing or not Timestamp'')
                 (opt_timestamp m ''at_unix_ns'')) (\<lambda>at_unix_ns.
     and_then (observatory_uint m ''signal_1_dag_node_count'') (\<lambda>s1n.
     and_then (observatory_uint m ''signal_1_dag_total_content_bytes'') (\<lambda>s1b.
     and_then (observatory_uint m ''signal_2_evolution_event_count'') (\<lambda>s2.
     and_then (observatory_uint m ''signal_3_distinct_perturbed_axes_count'') (\<lambda>s3.
     and_then (observatory_uint m ''signal_4b_reachable_peer_count'') (\<lambda>s4b.
       Ok \<lparr>os_at_cycle = at_cycle, os_at_unix_ns = at_unix_ns, os_dag_node_count = s1n,
           os_dag_total_content_bytes = s1b, os_evolution_event_count = s2,
           os_distinct_perturbed_axes = s3, os_reachable_peer_count = s4b,
           os_ratio_repr = string_or [] m ''signal_6_ratio_repr'',
           os_compute_ns = uint_or 0 m ''signal_7_compute_ns'',
           os_network_bytes = uint_or 0 m ''signal_8_network_bytes'',
           os_storage_bytes = uint_or 0 m ''signal_9_storage_bytes'',
           os_telos_alignment_repr = string_or [] m ''signal_telos_alignment_repr'',
           os_mortality_density = uint_or 0 m ''signal_internal_mortality_event_density'',
           os_hoarding_indicator = bool_or False m ''signal_hoarding_indicator'',
           os_fork_count = uint_or 0 m ''signal_4a_cumulative_fork_count'',
           os_disagreement_density = uint_or 0 m ''signal_char07_honest_disagreement_density''\<rparr>)))))))"

fun observatory_from_value :: "Value \<Rightarrow> (observatory_snapshot, derived_state_error) result" where
  "observatory_from_value (VMap m) = observatory_from_map m"
| "observatory_from_value _ = Err (EventDecode ''observatory_snapshot'' ''not a Map'')"

section \<open>Fields of an event\<close>

definition decode_event_map :: "dag_node \<Rightarrow> (vmap, derived_state_error) result" where
  "decode_event_map n =
     and_then (map_err (\<lambda>e. EventDecode (node_type n) (cb_display e)) (decode (content n))) (\<lambda>v.
       case v of
         VMap m \<Rightarrow> Ok m
       | _ \<Rightarrow> Err (EventDecode (node_type n) ''event content is not a Map''))"

definition timestamp_field :: "dag_node \<Rightarrow> vmap \<Rightarrow> string \<Rightarrow> (i64, derived_state_error) result" where
  "timestamp_field n m field =
     (case bt_get m field of
        Some (VTimestamp t) \<Rightarrow> Ok t
      | Some _ \<Rightarrow> Err (EventField (node_type n) field ''expected Timestamp'')
      | None \<Rightarrow> Err (EventField (node_type n) field ''missing''))"

definition bytes_32_field :: "dag_node \<Rightarrow> vmap \<Rightarrow> string \<Rightarrow> (arr32, derived_state_error) result" where
  "bytes_32_field n m field =
     and_then (field_err (node_type n) field (map_get_bytes m field)) (\<lambda>b.
       if length b \<noteq> 32
       then Err (EventField (node_type n) field (''expected 32 bytes; got '' @ decimal (length b)))
       else Ok (word_of_be b))"

section \<open>Events\<close>

type_synonym event_step = "derived_state \<Rightarrow> derived_state \<times> (unit, derived_state_error) result"

text \<open>A handler that reads the event and only then updates the state.\<close>

definition read_then_set ::
    "('a, derived_state_error) result \<Rightarrow> ('a \<Rightarrow> derived_state \<Rightarrow> derived_state) \<Rightarrow> event_step" where
  "read_then_set r f s =
     (case r of Ok a \<Rightarrow> (f a s, Ok ()) | Err e \<Rightarrow> (s, Err e) | Abort x \<Rightarrow> (s, Abort x))"

definition read_migration_started ::
    "dag_node \<Rightarrow> (derived_migration_candidate, derived_state_error) result" where
  "read_migration_started n =
     and_then (decode_event_map n) (\<lambda>m.
     and_then (ok_or (EventField (node_type n) ''op'' ''missing or not String'')
                 (opt_string m ''op'')) (\<lambda>op.
     and_then (ok_or (EventField (node_type n) ''schema_diff_canonical_bytes''
                        ''missing or not Bytes'')
                 (opt_bytes m ''schema_diff_canonical_bytes'')) (\<lambda>diff.
     and_then (field_err (node_type n) ''started_at_cycle'' (map_get_uint m ''started_at_cycle''))
       (\<lambda>started.
     and_then (field_err (node_type n) ''dual_validation_window_cycles''
                 (map_get_uint m ''dual_validation_window_cycles'')) (\<lambda>window.
     and_then (timestamp_field n m ''started_at_unix_ns'') (\<lambda>t.
       Ok \<lparr>mc_op_name = op, mc_schema_diff = diff, mc_started_at_cycle = started,
           mc_window_cycles = window, mc_started_at_unix_ns = t\<rparr>))))))"

definition apply_schema_migration_started :: "dag_node \<Rightarrow> event_step" where
  "apply_schema_migration_started n =
     read_then_set (read_migration_started n) (\<lambda>c s. s\<lparr>ds_migration_candidate := Some c\<rparr>)"

definition read_successor_entry ::
    "dag_node \<Rightarrow> (derived_successor_entry, derived_state_error) result" where
  "read_successor_entry n =
     and_then (decode_event_map n) (\<lambda>m.
     and_then (bytes_32_field n m ''successor_pubkey'') (\<lambda>pk.
     and_then (timestamp_field n m ''valid_from_unix_ns'') (\<lambda>from_ns.
       Ok \<lparr>se_pubkey = pk, se_valid_from = from_ns,
           se_valid_until = opt_timestamp m ''valid_until_unix_ns''\<rparr>)))"

definition apply_successor_chain_updated :: "dag_node \<Rightarrow> event_step" where
  "apply_successor_chain_updated n =
     read_then_set (read_successor_entry n)
       (\<lambda>e s. s\<lparr>ds_successor_chain := ds_successor_chain s @ [e]\<rparr>)"

definition read_succession_config ::
    "dag_node \<Rightarrow> (derived_succession_config, derived_state_error) result" where
  "read_succession_config n =
     and_then (decode_event_map n) (\<lambda>m.
     and_then (field_err (node_type n) ''cadence_days'' (map_get_uint m ''cadence_days'')) (\<lambda>cd.
     and_then (field_err (node_type n) ''legacy_window_days'' (map_get_uint m ''legacy_window_days''))
       (\<lambda>lw.
     and_then (field_err (node_type n) ''orphaned_terminal_window_days''
                 (map_get_uint m ''orphaned_terminal_window_days'')) (\<lambda>tw.
     and_then (ok_or (EventField (node_type n) ''terminal_choice'' ''missing or not String'')
                 (opt_string m ''terminal_choice'')) (\<lambda>ch.
       Ok \<lparr>sc_cadence_days = cd, sc_legacy_window_days = lw, sc_terminal_window_days = tw,
           sc_terminal_choice = ch\<rparr>)))))"

definition apply_succession_config_declared :: "dag_node \<Rightarrow> event_step" where
  "apply_succession_config_declared n =
     read_then_set (read_succession_config n) (\<lambda>c s. s\<lparr>ds_succession_config := Some c\<rparr>)"

text \<open>
  The genesis handler stores the id before it reads the timestamp, so that an event without one
  leaves the id set.
\<close>

definition apply_genesis :: "dag_node \<Rightarrow> event_step" where
  "apply_genesis n s =
     (if ds_substrate_id s \<noteq> None then (s, Err MultipleGenesis)
      else case and_then (decode_event_map n) (\<lambda>m.
          and_then (bytes_32_field n m ''substrate_id'') (\<lambda>sid. Ok (m, sid))) of
        Err e \<Rightarrow> (s, Err e)
      | Abort x \<Rightarrow> (s, Abort x)
      | Ok (m, sid) \<Rightarrow>
          (let s1 = s\<lparr>ds_substrate_id := Some sid\<rparr> in
           case timestamp_field n m ''genesis_time_unix_ns'' of
             Ok t \<Rightarrow>
               (s1\<lparr>ds_genesis_time := Some t, ds_generation_depth := uint_or 0 m ''generation_depth''\<rparr>,
                Ok ())
           | Err e \<Rightarrow> (s1, Err e)
           | Abort x \<Rightarrow> (s1, Abort x)))"

definition apply_cycle_advanced :: "dag_node \<Rightarrow> event_step" where
  "apply_cycle_advanced n =
     read_then_set
       (and_then (decode_event_map n) (\<lambda>m.
          field_err (node_type n) ''new_cycle'' (map_get_uint m ''new_cycle'')))
       (\<lambda>c s. s\<lparr>ds_cycle_counter := c\<rparr>)"

fun absorbed_cycle :: "dag \<Rightarrow> Value \<Rightarrow> u64 option" where
  "absorbed_cycle d (VBytes b) =
     Option.bind (bytes_arr32 b) (\<lambda>h. map_option created_at_cycle (dag_get d h))"
| "absorbed_cycle d _ = None"

primrec list_max :: "u64 list \<Rightarrow> u64 option" where
  "list_max [] = None"
| "list_max (x # xs) = (case list_max xs of None \<Rightarrow> Some x | Some y \<Rightarrow> Some (max x y))"

definition max_absorbed_created_at :: "vmap \<Rightarrow> dag option \<Rightarrow> u64 option" where
  "max_absorbed_created_at m dg =
     (case dg of
        None \<Rightarrow> None
      | Some d \<Rightarrow>
          (case bt_get m ''absorbed_hashes'' of
             Some (VArray hashes) \<Rightarrow> list_max (List.map_filter (absorbed_cycle d) hashes)
           | _ \<Rightarrow> None))"

definition apply_absorption_event :: "dag option \<Rightarrow> dag_node \<Rightarrow> event_step" where
  "apply_absorption_event dg n =
     read_then_set
       (and_then (decode_event_map n) (\<lambda>m.
        and_then (field_err (node_type n) ''cycle'' (map_get_uint m ''cycle'')) (\<lambda>cycle.
          Ok (case max_absorbed_created_at m dg of Some c \<Rightarrow> c | None \<Rightarrow> cycle))))
       (\<lambda>c s. s\<lparr>ds_last_absorbed_cycle :=
                 Some (case ds_last_absorbed_cycle s of None \<Rightarrow> c | Some prior \<Rightarrow> max prior c)\<rparr>)"

definition apply_event_with_dag :: "dag option \<Rightarrow> dag_node \<Rightarrow> event_step" where
  "apply_event_with_dag dg n s =
     (let nt = node_type n in
      if starts_with nt NODE_TYPE_GENESIS_PREFIX then apply_genesis n s
      else if nt = NODE_TYPE_CYCLE_ADVANCED then apply_cycle_advanced n s
      else if starts_with nt ''absorption_event:cycle_'' then apply_absorption_event dg n s
      else if starts_with nt NODE_TYPE_SCHEMA_MIGRATION_STARTED_PREFIX
      then apply_schema_migration_started n s
      else if starts_with nt NODE_TYPE_SCHEMA_MIGRATION_COMMITTED_PREFIX \<or>
              starts_with nt NODE_TYPE_SCHEMA_MIGRATION_ROLLED_BACK_PREFIX
      then (s\<lparr>ds_migration_candidate := None\<rparr>, Ok ())
      else if starts_with nt NODE_TYPE_SUCCESSOR_CHAIN_UPDATED_PREFIX
      then apply_successor_chain_updated n s
      else if nt = NODE_TYPE_CULTIVATION_SUCCESSION_CONFIG_DECLARED
      then apply_succession_config_declared n s
      else (s, Ok ()))"

definition apply_event :: "dag_node \<Rightarrow> event_step" where
  "apply_event n s = apply_event_with_dag None n s"

text \<open>The loop of every replay: it stops at the first event that fails.\<close>

primrec replay_events ::
    "(dag_node \<Rightarrow> event_step) \<Rightarrow> dag_node list \<Rightarrow> event_step" where
  "replay_events step [] s = (s, Ok ())"
| "replay_events step (n # ns) s =
     (case step n s of
        (s1, Ok _) \<Rightarrow> replay_events step ns s1
      | (s1, Err e) \<Rightarrow> (s1, Err e)
      | (s1, Abort x) \<Rightarrow> (s1, Abort x))"

definition from_dag :: "dag \<Rightarrow> (derived_state, derived_state_error) result" where
  "from_dag d =
     state_or_err (replay_events (apply_event_with_dag (Some d)) (iter_in_insertion_order d) derived_empty)"

definition apply_cultivation_event :: "dag_node \<Rightarrow> event_step" where
  "apply_cultivation_event n s =
     (if starts_with (node_type n) NODE_TYPE_SUCCESSOR_CHAIN_UPDATED_PREFIX
      then apply_successor_chain_updated n s
      else if node_type n = NODE_TYPE_CULTIVATION_SUCCESSION_CONFIG_DECLARED
      then apply_succession_config_declared n s
      else (s, Ok ()))"

definition rederive_cultivation_from_dag :: "dag \<Rightarrow> event_step" where
  "rederive_cultivation_from_dag d s =
     replay_events apply_cultivation_event (iter_in_insertion_order d)
       (s\<lparr>ds_successor_chain := [], ds_succession_config := None\<rparr>)"

end
