(* ===== verification/Event_Log.thy ===== *)
theory Event_Log
  imports Derived_State
begin

text \<open>
  The event log as a list of abstract events: what each event that the substrate emits means for
  the derived state, and that replaying the encoded nodes computes that meaning.
\<close>

section \<open>Events and their meaning\<close>

datatype logged_event =
    Genesis arr32 i64 u64
  | CycleAdvanced u64 u64
  | Absorbed u64 "arr32 list"
  | MigrationStarted string bytes u64 u64 i64
  | MigrationCommitted string u64 u64 u64
  | MigrationRolledBack string string u64
  | SuccessorChainUpdated arr32 i64 "i64 option" u64 u64
  | SuccessionConfigDeclared u64 u64 u64 string u64
  | Unrelated string bytes

text \<open>The absorption record that the metabolic cycle writes (\<^verbatim>\<open>ingest.rs\<close>).\<close>

definition absorption_event_node_type :: "u64 \<Rightarrow> string" where
  "absorption_event_node_type post_cycle = ''absorption_event:cycle_'' @ decimal (unat post_cycle)"

definition encode_absorption_event :: "u64 \<Rightarrow> arr32 list \<Rightarrow> bytes" where
  "encode_absorption_event post_cycle hashes = event_bytes
     [(''cycle'', VUint post_cycle), (''absorbed_count'', VUint (word_of_nat (length hashes))),
      (''absorbed_hashes'', VArray (map (\<lambda>h. VBytes (arr32_bytes h)) hashes))]"

text \<open>The events that the derived state looks at, by the type of their node.\<close>

definition tracked :: "string \<Rightarrow> bool" where
  "tracked nt \<longleftrightarrow> nt = NODE_TYPE_CYCLE_ADVANCED \<or>
     nt = NODE_TYPE_CULTIVATION_SUCCESSION_CONFIG_DECLARED \<or>
     list_ex (starts_with nt)
       [NODE_TYPE_GENESIS_PREFIX, ''absorption_event:cycle_'', NODE_TYPE_SCHEMA_MIGRATION_STARTED_PREFIX,
        NODE_TYPE_SCHEMA_MIGRATION_COMMITTED_PREFIX, NODE_TYPE_SCHEMA_MIGRATION_ROLLED_BACK_PREFIX,
        NODE_TYPE_SUCCESSOR_CHAIN_UPDATED_PREFIX]"

text \<open>The node that the emitting code inserts for an event.\<close>

fun event_type :: "logged_event \<Rightarrow> string" where
  "event_type (Genesis sid _ _) = genesis_event_node_type sid"
| "event_type (CycleAdvanced _ _) = NODE_TYPE_CYCLE_ADVANCED"
| "event_type (Absorbed c _) = absorption_event_node_type c"
| "event_type (MigrationStarted op _ _ _ _) = schema_migration_started_node_type op"
| "event_type (MigrationCommitted op _ _ _) = schema_migration_committed_node_type op"
| "event_type (MigrationRolledBack op _ _) = schema_migration_rolled_back_node_type op"
| "event_type (SuccessorChainUpdated pk _ _ _ _) = successor_chain_updated_node_type pk"
| "event_type (SuccessionConfigDeclared _ _ _ _ _) = NODE_TYPE_CULTIVATION_SUCCESSION_CONFIG_DECLARED"
| "event_type (Unrelated nt _) = nt"

fun event_content :: "logged_event \<Rightarrow> bytes" where
  "event_content (Genesis sid t depth) = encode_genesis_event sid t depth"
| "event_content (CycleAdvanced prior new) = encode_cycle_advanced prior new"
| "event_content (Absorbed c hs) = encode_absorption_event c hs"
| "event_content (MigrationStarted op diff c w t) = encode_schema_migration_started op diff c w t"
| "event_content (MigrationCommitted op c s w) = encode_schema_migration_committed op c s w"
| "event_content (MigrationRolledBack op r c) = encode_schema_migration_rolled_back op r c"
| "event_content (SuccessorChainUpdated pk f u p c) = encode_successor_chain_updated pk f u p c"
| "event_content (SuccessionConfigDeclared cd lw tw ch c) =
     encode_cultivation_succession_config_declared cd lw tw ch c"
| "event_content (Unrelated _ c) = c"

definition encodes :: "dag_node \<Rightarrow> logged_event \<Rightarrow> bool" where
  "encodes n e \<longleftrightarrow> node_type n = event_type e \<and> content n = event_content e"

text \<open>Strings are UTF-8 and payloads are far below the allocation limit.\<close>

definition fits :: "string \<Rightarrow> bool" where
  "fits s \<longleftrightarrow> str_ok s \<and> length s < 2 ^ 32"

fun event_fits :: "logged_event \<Rightarrow> bool" where
  "event_fits (MigrationStarted op diff _ _ _) \<longleftrightarrow> fits op \<and> length diff < 2 ^ 32"
| "event_fits (MigrationCommitted op _ _ _) \<longleftrightarrow> fits op"
| "event_fits (MigrationRolledBack op r _) \<longleftrightarrow> fits op \<and> fits r"
| "event_fits (SuccessionConfigDeclared _ _ _ ch _) \<longleftrightarrow> fits ch"
| "event_fits (Absorbed _ hs) \<longleftrightarrow> length hs < 2 ^ 32"
| "event_fits (Unrelated nt _) \<longleftrightarrow> \<not> tracked nt"
| "event_fits _ \<longleftrightarrow> True"

text \<open>
  The effect of an event. Absorption moves the watermark up to the youngest node absorbed that the
  DAG holds, or to the cycle itself when there is none, and never down.
\<close>

definition absorbed_watermark :: "dag option \<Rightarrow> u64 \<Rightarrow> arr32 list \<Rightarrow> u64" where
  "absorbed_watermark dg cycle hashes =
     (case dg of
        None \<Rightarrow> cycle
      | Some d \<Rightarrow>
          (case list_max (List.map_filter (\<lambda>h. map_option created_at_cycle (dag_get d h)) hashes) of
             None \<Rightarrow> cycle
           | Some c \<Rightarrow> c))"

fun effect :: "dag option \<Rightarrow> logged_event \<Rightarrow> derived_state \<Rightarrow> derived_state" where
  "effect dg (Genesis sid t depth) s =
     s\<lparr>ds_substrate_id := Some sid, ds_genesis_time := Some t, ds_generation_depth := depth\<rparr>"
| "effect dg (CycleAdvanced prior new) s = s\<lparr>ds_cycle_counter := new\<rparr>"
| "effect dg (Absorbed c hs) s = s\<lparr>ds_last_absorbed_cycle :=
     Some (case ds_last_absorbed_cycle s of
             None \<Rightarrow> absorbed_watermark dg c hs
           | Some prior \<Rightarrow> max prior (absorbed_watermark dg c hs))\<rparr>"
| "effect dg (MigrationStarted op diff c w t) s = s\<lparr>ds_migration_candidate :=
     Some \<lparr>mc_op_name = op, mc_schema_diff = diff, mc_started_at_cycle = c, mc_window_cycles = w,
           mc_started_at_unix_ns = t\<rparr>\<rparr>"
| "effect dg (MigrationCommitted op c st w) s = s\<lparr>ds_migration_candidate := None\<rparr>"
| "effect dg (MigrationRolledBack op r c) s = s\<lparr>ds_migration_candidate := None\<rparr>"
| "effect dg (SuccessorChainUpdated pk f u p c) s = s\<lparr>ds_successor_chain := ds_successor_chain s @
     [\<lparr>se_pubkey = pk, se_valid_from = f, se_valid_until = u\<rparr>]\<rparr>"
| "effect dg (SuccessionConfigDeclared cd lw tw ch c) s = s\<lparr>ds_succession_config :=
     Some \<lparr>sc_cadence_days = cd, sc_legacy_window_days = lw, sc_terminal_window_days = tw,
           sc_terminal_choice = ch\<rparr>\<rparr>"
| "effect dg (Unrelated nt c) s = s"

fun is_genesis :: "logged_event \<Rightarrow> bool" where
  "is_genesis (Genesis _ _ _) \<longleftrightarrow> True"
| "is_genesis _ \<longleftrightarrow> False"

section \<open>Reading an emitted event\<close>

lemma decode_event_map_encoded:
  assumes "content n = event_bytes kvs" and "event_ok kvs"
  shows "decode_event_map n = Ok (bt_of kvs)"
  using assms by (simp add: decode_event_map_def decode_event)

text \<open>A bound on the size of a field that is not a map.\<close>

fun field_size :: "Value \<Rightarrow> nat" where
  "field_size (VString t) = 11 + length t"
| "field_size (VBytes b) = 11 + length b"
| "field_size (VArray vs) = 11 + sum_list (map field_size vs)"
| "field_size _ = 33"

fun is_field :: "Value \<Rightarrow> bool" where
  "is_field (VArray vs) \<longleftrightarrow> list_all is_field vs"
| "is_field (VMap _) \<longleftrightarrow> False"
| "is_field _ \<longleftrightarrow> True"

lemma length_field: "is_field v \<Longrightarrow> length (encode_into v) \<le> field_size v"
proof (induction v rule: is_field.induct)
  case (1 vs)
  have "length (concat (map encode_into vs)) \<le> sum_list (map field_size vs)"
    unfolding length_concat map_map comp_def
    by (rule sum_list_mono) (use 1 in \<open>auto simp: list_all_iff\<close>)
  then show ?case
    using length_write_varint [of "word_of_nat (length vs)"] by (simp add: length_concat)
qed (use length_write_varint in \<open>auto simp: encode_string_def str_bytes_def\<close>)

lemma length_event_fields:
  assumes "list_all (\<lambda>(k, v). is_field v) kvs"
  shows "length (event_bytes kvs) \<le> 11 + (\<Sum>(k, v) \<leftarrow> kvs. 11 + length k + field_size v)"
proof -
  have "(\<Sum>(k, v) \<leftarrow> kvs. 11 + length k + length (encode_into v)) \<le>
      (\<Sum>(k, v) \<leftarrow> kvs. 11 + length k + field_size v)"
    by (rule sum_list_mono) (use assms length_field in \<open>auto simp: list_all_iff\<close>)
  then show ?thesis
    using length_event_bytes [of kvs] by simp
qed

lemma event_okI:
  assumes "list_all (\<lambda>(k, v). str_ok k \<and> wf_value v \<and> is_field v) kvs"
    and "(\<Sum>(k, v) \<leftarrow> kvs. 11 + length k + field_size v) < 2 ^ 62"
  shows "event_ok kvs"
proof -
  have "list_all (\<lambda>(k, v). is_field v) kvs"
    using assms(1) by (auto simp: list_all_iff)
  from length_event_fields [OF this] show ?thesis
    using assms by (auto simp: event_ok_def list_all_iff)
qed

lemmas read_simps = decode_event_map_encoded bt_get_of field_err_def map_get_uint_def
  map_get_string_def map_get_bytes_def opt_string_def opt_bytes_def opt_timestamp_def timestamp_field_def
  bytes_32_field_def uint_or_def read_then_set_def

lemmas type_defs = absorption_event_node_type_def starts_with_def genesis_event_node_type_def NODE_TYPE_GENESIS_PREFIX_def
  NODE_TYPE_CYCLE_ADVANCED_def schema_migration_started_node_type_def
  NODE_TYPE_SCHEMA_MIGRATION_STARTED_PREFIX_def schema_migration_committed_node_type_def
  NODE_TYPE_SCHEMA_MIGRATION_COMMITTED_PREFIX_def schema_migration_rolled_back_node_type_def
  NODE_TYPE_SCHEMA_MIGRATION_ROLLED_BACK_PREFIX_def successor_chain_updated_node_type_def
  NODE_TYPE_SUCCESSOR_CHAIN_UPDATED_PREFIX_def NODE_TYPE_CULTIVATION_SUCCESSION_CONFIG_DECLARED_def

text \<open>The dispatch on the type of an emitted event.\<close>

lemma dispatch:
  assumes "node_type n = event_type e" and "event_fits e"
  shows "apply_event_with_dag dg n s =
    (case e of
       Genesis _ _ _ \<Rightarrow> apply_genesis n s
     | CycleAdvanced _ _ \<Rightarrow> apply_cycle_advanced n s
     | Absorbed _ _ \<Rightarrow> apply_absorption_event dg n s
     | MigrationStarted _ _ _ _ _ \<Rightarrow> apply_schema_migration_started n s
     | MigrationCommitted _ _ _ _ \<Rightarrow> (s\<lparr>ds_migration_candidate := None\<rparr>, Ok ())
     | MigrationRolledBack _ _ _ \<Rightarrow> (s\<lparr>ds_migration_candidate := None\<rparr>, Ok ())
     | SuccessorChainUpdated _ _ _ _ _ \<Rightarrow> apply_successor_chain_updated n s
     | SuccessionConfigDeclared _ _ _ _ _ \<Rightarrow> apply_succession_config_declared n s
     | Unrelated _ _ \<Rightarrow> (s, Ok ()))"
  using assms by (cases e) (auto simp: apply_event_with_dag_def type_defs tracked_def)

text \<open>The fields that an event's encoder writes.\<close>

fun event_fields :: "logged_event \<Rightarrow> (string \<times> Value) list" where
  "event_fields (Genesis sid t depth) =
     [(''substrate_id'', VBytes (arr32_bytes sid)), (''genesis_time_unix_ns'', VTimestamp t)] @
     (if depth \<noteq> 0 then [(''generation_depth'', VUint depth)] else [])"
| "event_fields (CycleAdvanced prior new) = [(''prior_cycle'', VUint prior), (''new_cycle'', VUint new)]"
| "event_fields (Absorbed c hs) =
     [(''cycle'', VUint c), (''absorbed_count'', VUint (word_of_nat (length hs))),
      (''absorbed_hashes'', VArray (map (\<lambda>h. VBytes (arr32_bytes h)) hs))]"
| "event_fields (MigrationStarted op diff c w t) =
     [(''op'', VString op), (''schema_diff_canonical_bytes'', VBytes diff),
      (''started_at_cycle'', VUint c), (''dual_validation_window_cycles'', VUint w),
      (''started_at_unix_ns'', VTimestamp t)]"
| "event_fields (MigrationCommitted op c s w) =
     [(''op'', VString op), (''committed_at_cycle'', VUint c),
      (''started_at_cycle'', VUint s), (''dual_validation_window_cycles'', VUint w)]"
| "event_fields (MigrationRolledBack op r c) =
     [(''op'', VString op), (''reason'', VString r), (''rolled_back_at_cycle'', VUint c)]"
| "event_fields (SuccessorChainUpdated pk f u p c) =
     [(''successor_pubkey'', VBytes (arr32_bytes pk)), (''valid_from_unix_ns'', VTimestamp f),
      (''valid_until_unix_ns'', case u of Some t \<Rightarrow> VTimestamp t | None \<Rightarrow> Null),
      (''chain_position'', VUint p), (''updated_at_cycle'', VUint c)]"
| "event_fields (SuccessionConfigDeclared cd lw tw ch c) =
     [(''cadence_days'', VUint cd), (''legacy_window_days'', VUint lw),
      (''orphaned_terminal_window_days'', VUint tw), (''terminal_choice'', VString ch),
      (''declared_at_cycle'', VUint c)]"
| "event_fields (Unrelated _ _) = []"

fun is_unrelated :: "logged_event \<Rightarrow> bool" where
  "is_unrelated (Unrelated _ _) \<longleftrightarrow> True"
| "is_unrelated _ \<longleftrightarrow> False"

lemma event_content_fields: "\<not> is_unrelated e \<Longrightarrow> event_content e = event_bytes (event_fields e)"
  by (cases e) (simp_all add: encode_genesis_event_def encode_cycle_advanced_def encode_absorption_event_def
      encode_schema_migration_started_def encode_schema_migration_committed_def
      encode_schema_migration_rolled_back_def encode_successor_chain_updated_def
      encode_cultivation_succession_config_declared_def)

lemma event_fields_ok: "event_fits e \<Longrightarrow> event_ok (event_fields e)"
  by (rule event_okI; cases e)
    (auto simp: fits_def list_all_iff comp_def sum_list_triv split: option.splits)

lemma decode_encoded:
  assumes "encodes n e" and "event_fits e" and "\<not> is_unrelated e"
  shows "decode_event_map n = Ok (bt_of (event_fields e))"
  using assms by (simp add: encodes_def event_content_fields decode_event_map_encoded event_fields_ok)

lemma max_absorbed_encoded:
  "bt_get m ''absorbed_hashes'' = Some (VArray (map (\<lambda>h. VBytes (arr32_bytes h)) hs)) \<Longrightarrow>
    (case max_absorbed_created_at m dg of Some c \<Rightarrow> c | None \<Rightarrow> cycle) = absorbed_watermark dg cycle hs"
proof -
  have "List.map_filter (absorbed_cycle d) (map (\<lambda>h. VBytes (arr32_bytes h)) hs) =
      List.map_filter (\<lambda>h. map_option created_at_cycle (dag_get d h)) hs" for d
    by (induction hs) (simp_all add: List.map_filter_simps bytes_arr32_def split: option.splits)
  moreover assume "bt_get m ''absorbed_hashes'' = Some (VArray (map (\<lambda>h. VBytes (arr32_bytes h)) hs))"
  ultimately show ?thesis
    by (simp add: max_absorbed_created_at_def absorbed_watermark_def split: option.splits)
qed

lemmas handler_defs = apply_genesis_def apply_cycle_advanced_def apply_absorption_event_def
  apply_schema_migration_started_def read_migration_started_def apply_successor_chain_updated_def
  read_successor_entry_def apply_succession_config_declared_def read_succession_config_def

lemma apply_encoded:
  assumes "encodes n e" and "event_fits e" and "is_genesis e \<Longrightarrow> ds_substrate_id s = None"
  shows "apply_event_with_dag dg n s = (effect dg e s, Ok ())"
proof -
  have "node_type n = event_type e"
    using assms(1) by (simp add: encodes_def)
  note step = dispatch [OF this assms(2)] and read = decode_encoded [OF assms(1,2)]
  show ?thesis
    using assms(3) read unfolding step
    by (cases e) (auto simp: handler_defs read_simps max_absorbed_encoded Let_def split: option.splits)
qed

lemma apply_second_genesis:
  assumes "encodes n e" and "is_genesis e" and "ds_substrate_id s \<noteq> None"
  shows "apply_event_with_dag dg n s = (s, Err MultipleGenesis)"
  using assms by (cases e) (simp_all add: encodes_def dispatch [of n e] apply_genesis_def)

lemma effect_substrate_id:
  "ds_substrate_id (effect dg e s) \<noteq> None \<longleftrightarrow> is_genesis e \<or> ds_substrate_id s \<noteq> None"
  by (cases e) simp_all

text \<open>A replay computes the events' meaning until a genesis finds an identity already set.\<close>

lemma replay_encoded:
  assumes "list_all2 encodes ns es" and "list_all event_fits es"
  shows "state_or_err (replay_events (apply_event_with_dag dg) ns s) =
    (if length (filter is_genesis es) + (if ds_substrate_id s = None then 0 else 1) \<le> 1
     then Ok (fold (effect dg) es s)
     else Err MultipleGenesis)"
  using assms
proof (induction arbitrary: s rule: list_all2_induct)
  case (Cons n ns e es)
  then have fits: "event_fits e"
    by simp
  show ?case
  proof (cases "is_genesis e \<and> ds_substrate_id s \<noteq> None")
    case True
    then have "apply_event_with_dag dg n s = (s, Err MultipleGenesis)"
      by (intro apply_second_genesis [OF Cons.hyps(1)]) auto
    then show ?thesis
      using True by (auto simp: state_or_err_def)
  next
    case False
    then have "apply_event_with_dag dg n s = (effect dg e s, Ok ())"
      by (intro apply_encoded [OF Cons.hyps(1) fits]) simp
    then show ?thesis
      using Cons.IH [of "effect dg e s"] Cons.prems False effect_substrate_id [of dg e s] by auto
  qed
qed (simp add: state_or_err_def)

section \<open>Properties\<close>

text \<open>
  C11. Replay computes the meaning of the log. When the nodes of a DAG, in insertion order, encode
  the events es, whose strings are UTF-8 and whose payloads are below 4 GiB, the state derived from
  the DAG is the fold of their effects over the empty state; a log with two births is refused.
\<close>

theorem from_dag_computes_effects:
  assumes "list_all2 encodes (iter_in_insertion_order d) es" and "list_all event_fits es"
  shows "from_dag d =
    (if length (filter is_genesis es) \<le> 1 then Ok (fold (effect (Some d)) es derived_empty)
     else Err MultipleGenesis)"
  unfolding from_dag_def using replay_encoded [OF assms, of "Some d" derived_empty]
  by (simp add: derived_empty_def)

text \<open>A log of a birth and two cycles, the second of which absorbs a node.\<close>

definition young_log :: "logged_event list" where
  "young_log = [Genesis 7 5 0, Unrelated ''raw_material:x'' [1, 2, 3], CycleAdvanced 0 1,
     Absorbed 1 [3]]"

definition young_dag :: dag where
  "young_dag = (let ns = map2 (\<lambda>h e. \<lparr>node_hash = h, parent_hashes = [], node_type = event_type e,
       created_at_cycle = 0, content = event_content e\<rparr>) [2, 3, 4, 5] young_log
     in \<lparr>nodes = zip [2, 3, 4, 5] ns, insertion_order = [2, 3, 4, 5], tip = Some 5\<rparr>)"

lemma from_dag_computes_effects_witness:
  "from_dag young_dag = Ok (derived_empty\<lparr>ds_substrate_id := Some 7, ds_genesis_time := Some 5,
     ds_cycle_counter := 1, ds_last_absorbed_cycle := Some 0\<rparr>)"
proof -
  have enc: "list_all2 encodes (iter_in_insertion_order young_dag) young_log"
    by (simp add: iter_in_insertion_order_def young_dag_def young_log_def dag_get_def
        List.map_filter_simps encodes_def)
  have fits: "list_all event_fits young_log"
    by (simp add: young_log_def tracked_def type_defs)
  show ?thesis
    unfolding from_dag_computes_effects [OF enc fits]
    by (simp add: young_log_def derived_empty_def absorbed_watermark_def young_dag_def dag_get_def
        List.map_filter_simps)
qed

end
