(* ===== verification/Snapshot_Boot.thy ===== *)
theory Snapshot_Boot
  imports Event_Log
begin

text \<open>
  The snapshot of the derived state: its codec (\<^verbatim>\<open>to_canonical_bytes\<close> and
  \<^verbatim>\<open>from_canonical_bytes\<close> of \<^verbatim>\<open>derived_state.rs\<close>), the signed wrapper in which it is
  stored (\<^verbatim>\<open>persistence/snapshot.rs\<close>), the replay of the events behind it
  (\<^verbatim>\<open>persistence_runtime.rs\<close>) and the boot path that chooses between a snapshot and a full
  replay (\<^verbatim>\<open>server/mod.rs\<close>). A file is its bytes, or absent.
\<close>

section \<open>The snapshot codec\<close>

definition opt_entry :: "string \<Rightarrow> ('a \<Rightarrow> Value) \<Rightarrow> 'a option \<Rightarrow> (string \<times> Value) list" where
  "opt_entry k f x = (case x of Some a \<Rightarrow> [(k, f a)] | None \<Rightarrow> [])"

definition migration_candidate_value :: "derived_migration_candidate \<Rightarrow> Value" where
  "migration_candidate_value c = VMap (bt_of
     [(''op_name'', VString (mc_op_name c)),
      (''schema_diff_canonical_bytes'', VBytes (mc_schema_diff c)),
      (''started_at_cycle'', VUint (mc_started_at_cycle c)),
      (''dual_validation_window_cycles'', VUint (mc_window_cycles c)),
      (''started_at_unix_ns'', VTimestamp (mc_started_at_unix_ns c))])"

definition snapshot_entries :: "derived_state \<Rightarrow> arr32 option \<Rightarrow> (string \<times> Value) list" where
  "snapshot_entries s tip_hash =
     [(''format_version'', VUint 2)] @
     opt_entry ''snapshot_at_dag_tip'' (\<lambda>h. VBytes (arr32_bytes h)) tip_hash @
     opt_entry ''substrate_id'' (\<lambda>h. VBytes (arr32_bytes h)) (ds_substrate_id s) @
     opt_entry ''genesis_time_unix_ns'' VTimestamp (ds_genesis_time s) @
     (if ds_generation_depth s \<noteq> 0
      then [(''generation_depth'', VUint (ds_generation_depth s))] else []) @
     [(''cycle_counter'', VUint (ds_cycle_counter s))] @
     opt_entry ''last_absorbed_cycle'' VUint (ds_last_absorbed_cycle s) @
     (if ds_observatory_history s \<noteq> []
      then [(''observatory_history'', VArray (map observatory_value (ds_observatory_history s)))]
      else []) @
     opt_entry ''migration_candidate'' migration_candidate_value (ds_migration_candidate s)"

definition derived_to_canonical_bytes :: "derived_state \<Rightarrow> arr32 option \<Rightarrow> bytes" where
  "derived_to_canonical_bytes s tip_hash = encode_into (VMap (bt_of (snapshot_entries s tip_hash)))"

definition read_migration_candidate ::
    "vmap \<Rightarrow> (derived_migration_candidate, derived_state_error) result" where
  "read_migration_candidate m =
     and_then (field_err ''snapshot.cb'' ''migration_candidate.op_name'' (map_get_string m ''op_name''))
       (\<lambda>op.
     and_then (ok_or (EventField ''snapshot.cb'' ''migration_candidate.schema_diff_canonical_bytes''
                        ''missing or not Bytes'')
                 (opt_bytes m ''schema_diff_canonical_bytes'')) (\<lambda>diff.
     and_then (field_err ''snapshot.cb'' ''migration_candidate.started_at_cycle''
                 (map_get_uint m ''started_at_cycle'')) (\<lambda>started.
     and_then (field_err ''snapshot.cb'' ''migration_candidate.dual_validation_window_cycles''
                 (map_get_uint m ''dual_validation_window_cycles'')) (\<lambda>window.
       Ok \<lparr>mc_op_name = op, mc_schema_diff = diff, mc_started_at_cycle = started,
           mc_window_cycles = window,
           mc_started_at_unix_ns =
             (case opt_timestamp m ''started_at_unix_ns'' of Some t \<Rightarrow> t | None \<Rightarrow> 0)\<rparr>))))"

definition read_history ::
    "vmap \<Rightarrow> (observatory_snapshot list, derived_state_error) result" where
  "read_history m =
     (case bt_get m ''observatory_history'' of
        Some (VArray vs) \<Rightarrow> traverse observatory_from_value vs
      | _ \<Rightarrow> Ok [])"

definition read_candidate ::
    "vmap \<Rightarrow> (derived_migration_candidate option, derived_state_error) result" where
  "read_candidate m =
     (case bt_get m ''migration_candidate'' of
        Some (VMap cm) \<Rightarrow> and_then (read_migration_candidate cm) (\<lambda>c. Ok (Some c))
      | _ \<Rightarrow> Ok None)"

definition derived_from_map ::
    "vmap \<Rightarrow> ((derived_state \<times> arr32 option) option, derived_state_error) result" where
  "derived_from_map m =
     and_then (field_err ''snapshot.cb'' ''format_version'' (map_get_uint m ''format_version''))
       (\<lambda>version.
       if version \<noteq> 1 \<and> version \<noteq> 2 then Ok None
       else
         and_then (field_err ''snapshot.cb'' ''cycle_counter'' (map_get_uint m ''cycle_counter''))
           (\<lambda>counter.
         and_then (read_history m) (\<lambda>history.
         and_then (read_candidate m) (\<lambda>candidate.
           Ok (Some
             (\<lparr>ds_substrate_id = opt_arr32 m ''substrate_id'',
               ds_genesis_time = opt_timestamp m ''genesis_time_unix_ns'',
               ds_generation_depth = uint_or 0 m ''generation_depth'',
               ds_cycle_counter = counter,
               ds_last_absorbed_cycle = opt_uint m ''last_absorbed_cycle'',
               ds_observatory_history = history,
               ds_migration_candidate = candidate,
               ds_successor_chain = [], ds_succession_config = None\<rparr>,
              opt_arr32 m ''snapshot_at_dag_tip''))))))"

definition derived_from_canonical_bytes ::
    "bytes \<Rightarrow> ((derived_state \<times> arr32 option) option, derived_state_error) result" where
  "derived_from_canonical_bytes bs =
     and_then (map_err (\<lambda>e. EventDecode ''snapshot.cb'' (''decode: '' @ cb_display e)) (decode bs))
       (\<lambda>v. case v of
         VMap m \<Rightarrow> derived_from_map m
       | _ \<Rightarrow> Err (EventDecode ''snapshot.cb'' ''root not Map''))"

section \<open>The signed file\<close>

record loaded_snapshot =
  ls_payload :: bytes
  ls_signer_pubkey :: arr32
  ls_signature :: arr64

definition SNAPSHOT_FORMAT_VERSION :: u64 where
  "SNAPSHOT_FORMAT_VERSION = 2"

text \<open>The bytes of the file; \<open>pub\<close> and \<open>sign\<close> are Ed25519 on the substrate's seed.\<close>

definition save_snapshot ::
    "(arr32 \<Rightarrow> arr32) \<Rightarrow> (arr32 \<Rightarrow> bytes \<Rightarrow> arr64) \<Rightarrow> bytes \<Rightarrow> arr32 \<Rightarrow> bytes" where
  "save_snapshot pub sign payload seed = event_bytes
     [(''format_version'', VUint SNAPSHOT_FORMAT_VERSION),
      (''payload'', VBytes payload),
      (''signature'', VBytes (arr64_bytes (sign seed payload))),
      (''signer_pubkey'', VBytes (arr32_bytes (pub seed)))]"

definition load_snapshot :: "bytes option \<Rightarrow> (loaded_snapshot option, string) result" where
  "load_snapshot file =
     (case file of
        None \<Rightarrow> Ok None
      | Some bs \<Rightarrow>
          and_then (map_err (\<lambda>e. ''snapshot wrapper decode: '' @ cb_display e) (decode bs)) (\<lambda>v.
            case v of
              VMap m \<Rightarrow>
                (if opt_uint m ''format_version'' \<noteq> Some SNAPSHOT_FORMAT_VERSION then Ok None
                 else case (opt_bytes m ''payload'', opt_bytes m ''signature'', opt_bytes m ''signer_pubkey'') of
                   (Some payload, Some sig, Some pk) \<Rightarrow>
                     (if length sig = 64 \<and> length pk = 32
                      then Ok (Some \<lparr>ls_payload = payload, ls_signer_pubkey = word_of_be pk,
                             ls_signature = word_of_be sig\<rparr>)
                      else Ok None)
                 | _ \<Rightarrow> Ok None)
            | _ \<Rightarrow> Ok None))"

section \<open>Boot\<close>

fun replay_skipping ::
    "dag \<Rightarrow> arr32 \<Rightarrow> dag_node list \<Rightarrow> event_step" where
  "replay_skipping d t [] s = (s, Ok ())"
| "replay_skipping d t (n # ns) s =
     (if node_hash n = t then replay_events (apply_event_with_dag (Some d)) ns s
      else replay_skipping d t ns s)"

definition replay_events_after_tip :: "dag \<Rightarrow> arr32 option \<Rightarrow> event_step" where
  "replay_events_after_tip d after s =
     (case after of
        None \<Rightarrow> replay_events (apply_event_with_dag (Some d)) (iter_in_insertion_order d) s
      | Some t \<Rightarrow> replay_skipping d t (iter_in_insertion_order d) s)"

text \<open>
  The state from a payload whose signature was checked: decoded, its tip found in the DAG, the
  later events replayed. \<open>verify\<close> is the signature check. Whatever fails falls back to a full
  replay; a panic does not.
\<close>

definition state_from_snapshot ::
    "dag \<Rightarrow> bytes \<Rightarrow> (derived_state option, unit) result" where
  "state_from_snapshot d payload =
     and_then (result_ok (derived_from_canonical_bytes payload)) (\<lambda>r.
       case r of
         Some (Some (s, snap_tip)) \<Rightarrow>
           (if (case snap_tip of None \<Rightarrow> node_count d = 0 | Some t \<Rightarrow> dag_get d t \<noteq> None)
            then result_ok (state_or_err (replay_events_after_tip d snap_tip s))
            else Ok None)
       | _ \<Rightarrow> Ok None)"

definition full_replay :: "dag \<Rightarrow> (derived_state, unit) result" where
  "full_replay d =
     and_then (result_ok (from_dag d)) (\<lambda>r.
       Ok (case r of Some s \<Rightarrow> s | None \<Rightarrow> derived_empty))"

definition check_snapshot ::
    "(arr32 \<Rightarrow> arr64 \<Rightarrow> bytes \<Rightarrow> (unit, string) result) \<Rightarrow> arr32 \<Rightarrow> loaded_snapshot \<Rightarrow> (unit, string) result"
where
  "check_snapshot verify own_pubkey snap =
     (if ls_signer_pubkey snap \<noteq> own_pubkey
      then Err (''snapshot.cb signer_pubkey '' @ hex_prefix (arr32_bytes (ls_signer_pubkey snap)) 8
             @ '' != substrate signing pubkey '' @ hex_prefix (arr32_bytes own_pubkey) 8
             @ '' (snapshot was signed by a different substrate; rejected)'')
      else map_err (\<lambda>e. ''snapshot.cb signature failed verification: '' @ e @ '' (rejected)'')
             (verify (ls_signer_pubkey snap) (ls_signature snap) (ls_payload snap)))"

definition boot_derived_state ::
    "(arr32 \<Rightarrow> arr64 \<Rightarrow> bytes \<Rightarrow> (unit, string) result) \<Rightarrow> arr32 \<Rightarrow> bytes option \<Rightarrow> dag \<Rightarrow>
      (derived_state \<times> string option, unit) result" where
  "boot_derived_state verify own_pubkey file d =
     (let full = (\<lambda>evidence. and_then (full_replay d) (\<lambda>s. Ok (s, evidence))) in
      and_then (result_ok (load_snapshot file)) (\<lambda>loaded.
        case loaded of
          Some (Some snap) \<Rightarrow>
            (case check_snapshot verify own_pubkey snap of
               Ok _ \<Rightarrow>
                 and_then (state_from_snapshot d (ls_payload snap)) (\<lambda>r.
                   case r of Some s \<Rightarrow> Ok (s, None) | None \<Rightarrow> full None)
             | Err e \<Rightarrow> full (Some e)
             | Abort x \<Rightarrow> Abort x)
        | _ \<Rightarrow> full None))"

section \<open>Lemmas on the codec\<close>

lemma opt_entry_get [simp]:
  "map_of (rev (opt_entry k f x)) j = (if j = k then map_option f x else None)"
  by (cases x) (simp_all add: opt_entry_def)

lemma opt_entry_set [simp]: "kv \<in> set (opt_entry k f x) \<longleftrightarrow> (\<exists>a. x = Some a \<and> kv = (k, f a))"
  by (cases x) (simp_all add: opt_entry_def)

definition observatory_ok :: "observatory_snapshot \<Rightarrow> bool" where
  "observatory_ok o1 \<longleftrightarrow> str_ok (os_ratio_repr o1) \<and> str_ok (os_telos_alignment_repr o1)"

definition snapshot_ok :: "derived_state \<Rightarrow> arr32 option \<Rightarrow> bool" where
  "snapshot_ok s t \<longleftrightarrow>
     list_all observatory_ok (ds_observatory_history s) \<and>
     (\<forall>c. ds_migration_candidate s = Some c \<longrightarrow> str_ok (mc_op_name c)) \<and>
     length (derived_to_canonical_bytes s t) < 2 ^ 63"

lemma wf_observatory_value: "observatory_ok o1 \<Longrightarrow> wf_value (observatory_value o1)"
  unfolding observatory_value_def by (rule wf_VMap_of) (auto simp: observatory_ok_def)

lemma observatory_round_trip: "observatory_from_value (observatory_value o1) = Ok o1"
  by (simp add: observatory_value_def observatory_from_map_def observatory_uint_def field_err_def
      bt_get_of map_get_uint_def field_defs)

lemma wf_migration_candidate_value: "str_ok (mc_op_name c) \<Longrightarrow> wf_value (migration_candidate_value c)"
  unfolding migration_candidate_value_def by (rule wf_VMap_of) auto

lemma candidate_map_round_trip:
  "\<exists>m. migration_candidate_value c = VMap m \<and> read_migration_candidate m = Ok c"
  by (simp add: migration_candidate_value_def read_migration_candidate_def field_err_def bt_get_of
      map_get_uint_def map_get_string_def field_defs)

lemma wf_snapshot:
  assumes "snapshot_ok s t"
  shows "wf_value (VMap (bt_of (snapshot_entries s t)))"
proof (rule wf_VMap_of)
  fix k v
  assume kv: "(k, v) \<in> set (snapshot_entries s t)"
  show "str_ok k \<and> wf_value v"
    using assms kv wf_observatory_value wf_migration_candidate_value
    by (auto simp: snapshot_entries_def snapshot_ok_def list_all_iff split: if_splits)
qed

text \<open>What the reader finds under each key.\<close>

lemma snapshot_fields:
  fixes s :: derived_state and t :: "arr32 option"
  defines "m \<equiv> bt_of (snapshot_entries s t)"
  shows "bt_get m ''format_version'' = Some (VUint 2)"
    and "bt_get m ''snapshot_at_dag_tip'' = map_option (\<lambda>h. VBytes (arr32_bytes h)) t"
    and "bt_get m ''substrate_id'' = map_option (\<lambda>h. VBytes (arr32_bytes h)) (ds_substrate_id s)"
    and "bt_get m ''genesis_time_unix_ns'' = map_option VTimestamp (ds_genesis_time s)"
    and "bt_get m ''generation_depth'' =
      (if ds_generation_depth s = 0 then None else Some (VUint (ds_generation_depth s)))"
    and "bt_get m ''cycle_counter'' = Some (VUint (ds_cycle_counter s))"
    and "bt_get m ''last_absorbed_cycle'' = map_option VUint (ds_last_absorbed_cycle s)"
    and "bt_get m ''observatory_history'' =
      (if ds_observatory_history s = [] then None
       else Some (VArray (map observatory_value (ds_observatory_history s))))"
    and "bt_get m ''migration_candidate'' = map_option migration_candidate_value (ds_migration_candidate s)"
  by (simp_all add: m_def bt_get_of snapshot_entries_def map_add_def split: option.splits)

lemma derived_from_map_entries:
  "derived_from_map (bt_of (snapshot_entries s t)) =
    Ok (Some (s\<lparr>ds_successor_chain := [], ds_succession_config := None\<rparr>, t))"
proof -
  let ?m = "bt_of (snapshot_entries s t)"
  have "read_history ?m = Ok (ds_observatory_history s)"
    by (simp add: read_history_def snapshot_fields traverse_map_Ok observatory_round_trip)
  moreover have "read_candidate ?m = Ok (ds_migration_candidate s)"
  proof (cases "ds_migration_candidate s")
    case (Some c)
    then show ?thesis
      using candidate_map_round_trip [of c] by (auto simp: read_candidate_def snapshot_fields)
  qed (simp add: read_candidate_def snapshot_fields)
  moreover have "opt_arr32 ?m ''substrate_id'' = ds_substrate_id s"
    "opt_arr32 ?m ''snapshot_at_dag_tip'' = t"
    "opt_timestamp ?m ''genesis_time_unix_ns'' = ds_genesis_time s"
    "opt_uint ?m ''last_absorbed_cycle'' = ds_last_absorbed_cycle s"
    "uint_or 0 ?m ''generation_depth'' = ds_generation_depth s"
    by (simp_all add: field_defs snapshot_fields split: option.splits)
  ultimately show ?thesis
    by (simp add: derived_from_map_def field_err_def map_get_uint_def snapshot_fields)
qed

lemma snapshot_round_trip:
  assumes "snapshot_ok s t"
  shows "derived_from_canonical_bytes (derived_to_canonical_bytes s t) =
    Ok (Some (s\<lparr>ds_successor_chain := [], ds_succession_config := None\<rparr>, t))"
proof -
  have "decode (derived_to_canonical_bytes s t) = Ok (VMap (bt_of (snapshot_entries s t)))"
    using assms decode_encode_into [OF wf_snapshot [OF assms]]
    by (simp add: derived_to_canonical_bytes_def snapshot_ok_def)
  then show ?thesis
    by (simp add: derived_from_canonical_bytes_def derived_from_map_entries)
qed

text \<open>The file that is saved loads.\<close>

lemma load_save_snapshot:
  assumes "length (save_snapshot pub sign payload seed) < 2 ^ 63"
  shows "load_snapshot (Some (save_snapshot pub sign payload seed)) =
    Ok (Some \<lparr>ls_payload = payload, ls_signer_pubkey = pub seed, ls_signature = sign seed payload\<rparr>)"
proof -
  have "decode (save_snapshot pub sign payload seed) = Ok (VMap (bt_of
     [(''format_version'', VUint SNAPSHOT_FORMAT_VERSION),
      (''payload'', VBytes payload),
      (''signature'', VBytes (arr64_bytes (sign seed payload))),
      (''signer_pubkey'', VBytes (arr32_bytes (pub seed)))]))"
    unfolding save_snapshot_def
    by (rule decode_event) (use assms in \<open>auto simp: event_ok_def save_snapshot_def\<close>)
  then show ?thesis
    by (simp add: load_snapshot_def bt_get_of field_defs)
qed

section \<open>Lemmas on replay\<close>

lemma replay_append:
  "replay_events step (xs @ ys) s =
    (case replay_events step xs s of
       (s1, Ok _) \<Rightarrow> replay_events step ys s1
     | (s1, Err e) \<Rightarrow> (s1, Err e)
     | (s1, Abort x) \<Rightarrow> (s1, Abort x))"
  by (induction xs arbitrary: s) (auto split: prod.splits result.splits)

lemma state_or_err_Ok_iff: "state_or_err p = Ok s \<longleftrightarrow> p = (s, Ok ())"
  by (cases p) (auto simp: state_or_err_def)

lemma replay_skipping_found:
  "t \<notin> node_hash ` set pre \<Longrightarrow> node_hash n = t \<Longrightarrow>
    replay_skipping d t (pre @ n # post) s = replay_events (apply_event_with_dag (Some d)) post s"
  by (induction pre) auto

text \<open>
  One replay simulates another if related states stay related wherever the first succeeds, and
  then the second succeeds too.
\<close>

definition matches ::
    "(derived_state \<Rightarrow> derived_state \<Rightarrow> bool) \<Rightarrow> event_step \<Rightarrow> event_step \<Rightarrow> bool" where
  "matches R f g \<longleftrightarrow>
     (\<forall>s s' s1. R s s' \<longrightarrow> f s = (s1, Ok ()) \<longrightarrow> (\<exists>s1'. g s' = (s1', Ok ()) \<and> R s1 s1'))"

lemma matchesI:
  "(\<And>s s' s1. R s s' \<Longrightarrow> f s = (s1, Ok ()) \<Longrightarrow> \<exists>s1'. g s' = (s1', Ok ()) \<and> R s1 s1') \<Longrightarrow> matches R f g"
  by (simp add: matches_def)

lemma matchesD:
  "matches R f g \<Longrightarrow> R s s' \<Longrightarrow> f s = (s1, Ok ()) \<Longrightarrow> \<exists>s1'. g s' = (s1', Ok ()) \<and> R s1 s1'"
  by (simp add: matches_def)

lemma matches_if:
  "(b \<Longrightarrow> matches R f g) \<Longrightarrow> (\<not> b \<Longrightarrow> matches R f' g') \<Longrightarrow>
    matches R (\<lambda>s. if b then f s else f' s) (\<lambda>s. if b then g s else g' s)"
  by (cases b) simp_all

lemma matches_read:
  "(\<And>a s s'. R s s' \<Longrightarrow> R (f a s) (g a s')) \<Longrightarrow> matches R (read_then_set r f) (read_then_set r g)"
  by (cases r) (auto simp: matches_def read_then_set_def)

lemma matches_replay:
  assumes "\<And>n. matches R (f n) (g n)"
  shows "matches R (replay_events f ns) (replay_events g ns)"
proof (induction ns)
  case (Cons n ns)
  show ?case
  proof (rule matchesI)
    fix s s' t
    assume "R s s'" and run: "replay_events f (n # ns) s = (t, Ok ())"
    obtain s1 where step: "f n s = (s1, Ok ())" and rest: "replay_events f ns s1 = (t, Ok ())"
      using run by (auto split: prod.splits result.splits)
    obtain s1' where "g n s' = (s1', Ok ())" and "R s1 s1'"
      using matchesD [OF assms \<open>R s s'\<close> step] by blast
    then show "\<exists>t'. replay_events g (n # ns) s' = (t', Ok ()) \<and> R t t'"
      using matchesD [OF Cons.IH _ rest, of s1'] by simp
  qed
qed (simp add: matches_def)

text \<open>The fields that the snapshot keeps, and the cultivation fields that it leaves out.\<close>

definition core ::
    "derived_state \<Rightarrow> arr32 option \<times> i64 option \<times> u64 \<times> u64 \<times> u64 option \<times> derived_migration_candidate option"
where
  "core s = (ds_substrate_id s, ds_genesis_time s, ds_generation_depth s, ds_cycle_counter s,
     ds_last_absorbed_cycle s, ds_migration_candidate s)"

definition cultivation ::
    "derived_state \<Rightarrow> derived_successor_entry list \<times> derived_succession_config option" where
  "cultivation s = (ds_successor_chain s, ds_succession_config s)"

text \<open>From a snapshot: the kept fields agree, the history is the snapshot's.\<close>

definition resumed :: "observatory_snapshot list \<Rightarrow> derived_state \<Rightarrow> derived_state \<Rightarrow> bool" where
  "resumed h s s' \<longleftrightarrow> core s = core s' \<and> ds_observatory_history s' = h"

text \<open>Re-derivation: the cultivation fields agree, the others stay what they were.\<close>

definition rederived :: "derived_state \<Rightarrow> derived_state \<Rightarrow> derived_state \<Rightarrow> bool" where
  "rederived k s s' \<longleftrightarrow> cultivation s = cultivation s' \<and> core s' = core k \<and>
     ds_observatory_history s' = ds_observatory_history k"

lemma matches_genesis: "matches (resumed h) (apply_genesis n) (apply_genesis n)"
  by (rule matchesI)
    (auto simp: apply_genesis_def resumed_def core_def Let_def split: if_splits result.splits)

text \<open>The dispatch as a function of the event alone.\<close>

lemma apply_event_dispatch:
  "apply_event_with_dag dg n =
    (\<lambda>s. if starts_with (node_type n) NODE_TYPE_GENESIS_PREFIX then apply_genesis n s
      else if node_type n = NODE_TYPE_CYCLE_ADVANCED then apply_cycle_advanced n s
      else if starts_with (node_type n) ''absorption_event:cycle_'' then apply_absorption_event dg n s
      else if starts_with (node_type n) NODE_TYPE_SCHEMA_MIGRATION_STARTED_PREFIX
      then apply_schema_migration_started n s
      else if starts_with (node_type n) NODE_TYPE_SCHEMA_MIGRATION_COMMITTED_PREFIX \<or>
              starts_with (node_type n) NODE_TYPE_SCHEMA_MIGRATION_ROLLED_BACK_PREFIX
      then (s\<lparr>ds_migration_candidate := None\<rparr>, Ok ())
      else if starts_with (node_type n) NODE_TYPE_SUCCESSOR_CHAIN_UPDATED_PREFIX
      then apply_successor_chain_updated n s
      else if node_type n = NODE_TYPE_CULTIVATION_SUCCESSION_CONFIG_DECLARED
      then apply_succession_config_declared n s
      else (s, Ok ()))"
  by (rule ext) (simp only: apply_event_with_dag_def Let_def)

lemma matches_event_core:
  "matches (resumed h) (apply_event_with_dag dg n) (apply_event_with_dag dg n)"
  unfolding apply_event_dispatch
proof (intro matches_if)
  show "matches (resumed h) (apply_absorption_event dg n) (apply_absorption_event dg n)"
    "matches (resumed h) (apply_cycle_advanced n) (apply_cycle_advanced n)"
    "matches (resumed h) (apply_schema_migration_started n) (apply_schema_migration_started n)"
    "matches (resumed h) (apply_successor_chain_updated n) (apply_successor_chain_updated n)"
    "matches (resumed h) (apply_succession_config_declared n) (apply_succession_config_declared n)"
    unfolding apply_absorption_event_def apply_cycle_advanced_def apply_schema_migration_started_def
      apply_successor_chain_updated_def apply_succession_config_declared_def
    by (rule matches_read; simp add: resumed_def core_def)+
qed (rule matches_genesis, simp_all add: matches_def resumed_def core_def)

lemmas dispatch_prefixes = NODE_TYPE_GENESIS_PREFIX_def NODE_TYPE_CYCLE_ADVANCED_def
  NODE_TYPE_SCHEMA_MIGRATION_STARTED_PREFIX_def NODE_TYPE_SCHEMA_MIGRATION_COMMITTED_PREFIX_def
  NODE_TYPE_SCHEMA_MIGRATION_ROLLED_BACK_PREFIX_def NODE_TYPE_SUCCESSOR_CHAIN_UPDATED_PREFIX_def
  NODE_TYPE_CULTIVATION_SUCCESSION_CONFIG_DECLARED_def

lemma matches_skip:
  "(\<And>s s1 s'. R s s' \<Longrightarrow> f s = (s1, Ok ()) \<Longrightarrow> R s1 s') \<Longrightarrow> matches R f (\<lambda>s. (s, Ok ()))"
  by (auto simp: matches_def)

text \<open>The events that do not concern cultivation, as one step.\<close>

lemma cultivation_read:
  "(\<And>a. cultivation (f a s) = cultivation s) \<Longrightarrow> cultivation (fst (read_then_set r f s)) = cultivation s"
  by (simp add: read_then_set_def split: result.splits)

lemma other_event_cultivation:
  assumes "\<not> starts_with (node_type n) NODE_TYPE_SUCCESSOR_CHAIN_UPDATED_PREFIX"
    and "node_type n \<noteq> NODE_TYPE_CULTIVATION_SUCCESSION_CONFIG_DECLARED"
  shows "cultivation (fst (apply_event_with_dag dg n s)) = cultivation s"
proof -
  have "cultivation (fst (apply_genesis n s)) = cultivation s"
    by (simp add: apply_genesis_def cultivation_def Let_def split: result.splits)
  moreover have "cultivation (fst (apply_cycle_advanced n s)) = cultivation s"
    "cultivation (fst (apply_absorption_event dg n s)) = cultivation s"
    "cultivation (fst (apply_schema_migration_started n s)) = cultivation s"
    unfolding apply_cycle_advanced_def apply_absorption_event_def apply_schema_migration_started_def
    by (rule cultivation_read; simp add: cultivation_def)+
  ultimately show ?thesis
    using assms by (simp add: apply_event_dispatch) (simp add: cultivation_def)
qed

lemma matches_cultivation:
  "matches (rederived k) (apply_event_with_dag dg n) (apply_cultivation_event n)"
proof -
  consider (chain) "starts_with (node_type n) NODE_TYPE_SUCCESSOR_CHAIN_UPDATED_PREFIX"
    | (config) "node_type n = NODE_TYPE_CULTIVATION_SUCCESSION_CONFIG_DECLARED"
    | (other) "\<not> starts_with (node_type n) NODE_TYPE_SUCCESSOR_CHAIN_UPDATED_PREFIX"
        "node_type n \<noteq> NODE_TYPE_CULTIVATION_SUCCESSION_CONFIG_DECLARED"
    by blast
  then show ?thesis
  proof cases
    case chain
    note excl = prefixes_agree [OF chain]
    have "\<not> starts_with (node_type n) NODE_TYPE_GENESIS_PREFIX"
      "\<not> starts_with (node_type n) ''absorption_event:cycle_''"
      "\<not> starts_with (node_type n) NODE_TYPE_SCHEMA_MIGRATION_STARTED_PREFIX"
      "\<not> starts_with (node_type n) NODE_TYPE_SCHEMA_MIGRATION_COMMITTED_PREFIX"
      "\<not> starts_with (node_type n) NODE_TYPE_SCHEMA_MIGRATION_ROLLED_BACK_PREFIX"
      by (auto dest!: excl simp: dispatch_prefixes)
    moreover have "node_type n \<noteq> NODE_TYPE_CYCLE_ADVANCED"
      using chain by (auto simp: starts_with_def dispatch_prefixes)
    ultimately have "apply_event_with_dag dg n = apply_successor_chain_updated n"
      and "apply_cultivation_event n = apply_successor_chain_updated n"
      using chain by (simp_all add: apply_event_dispatch fun_eq_iff apply_cultivation_event_def)
    then show ?thesis
      unfolding apply_successor_chain_updated_def
      by (simp only:) (rule matches_read, simp add: rederived_def cultivation_def core_def)
  next
    case config
    then have "apply_event_with_dag dg n = apply_succession_config_declared n"
      and "apply_cultivation_event n = apply_succession_config_declared n"
      by (simp_all add: fun_eq_iff apply_event_with_dag_def apply_cultivation_event_def
          starts_with_def dispatch_prefixes)
    then show ?thesis
      unfolding apply_succession_config_declared_def
      by (simp only:) (rule matches_read, simp add: rederived_def cultivation_def core_def)
  next
    case other
    then have "apply_cultivation_event n = (\<lambda>s. (s, Ok ()))"
      by (simp add: fun_eq_iff apply_cultivation_event_def)
    then show ?thesis
      using other_event_cultivation [OF other, of dg]
      by (simp only:) (rule matches_skip, metis fst_conv rederived_def)
  qed
qed

lemma derived_state_eqI:
  fixes s t :: derived_state
  shows "core s = core t \<Longrightarrow> cultivation s = cultivation t \<Longrightarrow>
    ds_observatory_history s = ds_observatory_history t \<Longrightarrow> s = t"
  by (simp add: core_def cultivation_def)

lemma replay_resumed:
  assumes "replay_events (apply_event_with_dag dg) ns s0 = (s, Ok ())"
  obtains b where
    "replay_events (apply_event_with_dag dg) ns
       (s0\<lparr>ds_observatory_history := h, ds_successor_chain := [], ds_succession_config := None\<rparr>) = (b, Ok ())"
    and "core b = core s" and "ds_observatory_history b = h"
proof -
  have "resumed h s0 (s0\<lparr>ds_observatory_history := h, ds_successor_chain := [], ds_succession_config := None\<rparr>)"
    by (simp add: resumed_def core_def)
  from matchesD [OF matches_replay [of "resumed h", OF matches_event_core] this assms] show thesis
    using that by (auto simp: resumed_def)
qed

lemma rederive_restores:
  assumes "from_dag d = Ok s" and "core b = core s"
  shows "rederive_cultivation_from_dag d b =
    (s\<lparr>ds_observatory_history := ds_observatory_history b\<rparr>, Ok ())"
proof -
  have run: "replay_events (apply_event_with_dag (Some d)) (iter_in_insertion_order d) derived_empty = (s, Ok ())"
    using assms(1) by (simp add: from_dag_def state_or_err_Ok_iff)
  have "rederived b derived_empty (b\<lparr>ds_successor_chain := [], ds_succession_config := None\<rparr>)"
    by (simp add: rederived_def cultivation_def core_def derived_empty_def)
  from matchesD [OF matches_replay [of "rederived b", OF matches_cultivation] this run]
  obtain t where "rederive_cultivation_from_dag d b = (t, Ok ())" and "rederived b s t"
    by (auto simp: rederive_cultivation_from_dag_def)
  moreover from this(2) have "t = s\<lparr>ds_observatory_history := ds_observatory_history b\<rparr>"
    using assms(2) by (intro derived_state_eqI) (simp_all add: rederived_def core_def cultivation_def)
  ultimately show ?thesis
    by simp
qed

lemma state_from_snapshot_resumes:
  assumes "dag_inv H d" and "from_dag d = Ok s"
    and "iter_in_insertion_order d = pre @ n # post"
    and "replay_events (apply_event_with_dag (Some d)) (pre @ [n]) derived_empty = (s0, Ok ())"
    and "snapshot_ok (s0\<lparr>ds_observatory_history := h\<rparr>) (Some (node_hash n))"
  shows "\<exists>b. state_from_snapshot d
      (derived_to_canonical_bytes (s0\<lparr>ds_observatory_history := h\<rparr>) (Some (node_hash n))) = Ok (Some b) \<and>
    core b = core s \<and> ds_observatory_history b = h"
proof -
  have "distinct (map node_hash (pre @ n # post))"
    using iter_hashes [OF assms(1)] assms(1,3) by (simp add: dag_inv_def)
  then have fresh: "node_hash n \<notin> node_hash ` set pre"
    by auto
  have "node_hash n \<in> fst ` set (nodes d)"
    using iter_hashes [OF assms(1)] assms(3) by (metis in_set_conv_decomp list.set_map imageI)
  then have present: "dag_get d (node_hash n) \<noteq> None"
    by (simp add: dag_get_None_iff)
  have "replay_events (apply_event_with_dag (Some d)) (pre @ [n] @ post) derived_empty = (s, Ok ())"
    using assms(2,3) by (simp add: from_dag_def state_or_err_Ok_iff)
  then have "replay_events (apply_event_with_dag (Some d)) post s0 = (s, Ok ())"
    using assms(4) replay_append [of "apply_event_with_dag (Some d)" "pre @ [n]" post derived_empty] by simp
  then obtain b where
    "replay_events (apply_event_with_dag (Some d)) post
       (s0\<lparr>ds_observatory_history := h, ds_successor_chain := [], ds_succession_config := None\<rparr>) = (b, Ok ())"
    "core b = core s" "ds_observatory_history b = h"
    by (rule replay_resumed)
  then show ?thesis
    using snapshot_round_trip [OF assms(5)] present fresh
    by (simp add: state_from_snapshot_def replay_events_after_tip_def assms(3) replay_skipping_found
        state_or_err_def)
qed

section \<open>Properties\<close>


text \<open>A log of two cycles, under a hash that tells their records apart; a snapshot between them.\<close>

definition two_cycles :: dag where
  "two_cycles = run_ops (dag_step (\<lambda>b. word_of_nat (length b))) dag_new
     [([], NODE_TYPE_CYCLE_ADVANCED, 0, event_content (CycleAdvanced 0 1)), ([], ''note'', 1, [7])]"

definition cycle_node :: dag_node where
  "cycle_node = \<lparr>node_hash = merkle_hash (\<lambda>b. word_of_nat (length b)) [] (event_content (CycleAdvanced 0 1)),
     parent_hashes = [], node_type = NODE_TYPE_CYCLE_ADVANCED, created_at_cycle = 0,
     content = event_content (CycleAdvanced 0 1)\<rparr>"

definition note_node :: dag_node where
  "note_node = \<lparr>node_hash = merkle_hash (\<lambda>b. word_of_nat (length b)) [] [7], parent_hashes = [],
     node_type = ''note'', created_at_cycle = 1, content = [7]\<rparr>"


end
