(* ===== verification/Events_Federation.thy ===== *)
theory Events_Federation
  imports Events_Core Dag "HOL-Library.Monad_Syntax"
begin

text \<open>
  The federation, quarantine and self-euthanasia events of
  \<^verbatim>\<open>substrate/src/events/federation.rs\<close>: the payload of each node and the readers that
  recover pins and revocations from the log. A reader answers \<^verbatim>\<open>None\<close> for a body of another
  shape; a panic of the decoder stays one.
\<close>

section \<open>Reading a body\<close>

text \<open>The decoders' opening \<^verbatim>\<open>match decode(bytes).ok()?\<close>.\<close>

definition decode_map :: "bytes \<Rightarrow> (vmap option, 'e) result" where
  "decode_map bs = and_then (result_ok (decode bs)) (\<lambda>v.
     Ok (case v of Some (VMap m) \<Rightarrow> Some m | _ \<Rightarrow> None))"

definition decode_with :: "(vmap \<Rightarrow> 'a option) \<Rightarrow> bytes \<Rightarrow> ('a option, 'e) result" where
  "decode_with reader bs = and_then (decode_map bs) (\<lambda>m. Ok (Option.bind m reader))"

definition opt_arr64 :: "vmap \<Rightarrow> string \<Rightarrow> arr64 option" where
  "opt_arr64 m k = (case opt_bytes m k of
     Some b \<Rightarrow> if length b = 64 then Some (word_of_be b) else None
   | None \<Rightarrow> None)"

definition arr32_array :: "arr32 list \<Rightarrow> Value" where
  "arr32_array hs = VArray (map (\<lambda>h. VBytes (arr32_bytes h)) hs)"

section \<open>Node types\<close>

definition NODE_TYPE_FEDERATION_LISTENER_OPENED :: string where
  "NODE_TYPE_FEDERATION_LISTENER_OPENED = ''federation_listener_opened''"

definition NODE_TYPE_SELF_EUTHANASIA_EXECUTED_PREFIX :: string where
  "NODE_TYPE_SELF_EUTHANASIA_EXECUTED_PREFIX = ''self_euthanasia_executed:''"

definition NODE_TYPE_FEDERATION_LISTENER_CLOSED :: string where
  "NODE_TYPE_FEDERATION_LISTENER_CLOSED = ''federation_listener_closed''"

definition NODE_TYPE_FEDERATION_PEER_PINNED_PREFIX :: string where
  "NODE_TYPE_FEDERATION_PEER_PINNED_PREFIX = ''federation_peer_pinned:''"

definition NODE_TYPE_FEDERATION_PEER_REJECTED_PREFIX :: string where
  "NODE_TYPE_FEDERATION_PEER_REJECTED_PREFIX = ''federation_peer_rejected:''"

definition NODE_TYPE_FEDERATION_LEGACY_PEER_PINNED_PREFIX :: string where
  "NODE_TYPE_FEDERATION_LEGACY_PEER_PINNED_PREFIX = ''federation_legacy_peer_pinned:''"

definition NODE_TYPE_FEDERATION_EVENTS_RECEIVED :: string where
  "NODE_TYPE_FEDERATION_EVENTS_RECEIVED = ''federation_events_received''"

definition NODE_TYPE_FEDERATION_RECEIVED_PREFIX :: string where
  "NODE_TYPE_FEDERATION_RECEIVED_PREFIX = ''federation_received:''"

definition NODE_TYPE_FEDERATION_PEER_REVOKED_PREFIX :: string where
  "NODE_TYPE_FEDERATION_PEER_REVOKED_PREFIX = ''federation_peer_revoked:''"

definition REVOKE_FEDERATION_PEER_DOMAIN :: string where
  "REVOKE_FEDERATION_PEER_DOMAIN = ''myco-federation-peer-revoke-v1''"

definition NODE_TYPE_FEDERATION_EVENTS_SENT :: string where
  "NODE_TYPE_FEDERATION_EVENTS_SENT = ''federation_events_sent''"

definition NODE_TYPE_FEDERATION_PARENT_LINKED :: string where
  "NODE_TYPE_FEDERATION_PARENT_LINKED = ''federation_parent_linked''"

definition NODE_TYPE_PARENT_FEDERATION_HINT :: string where
  "NODE_TYPE_PARENT_FEDERATION_HINT = ''parent_federation_hint''"

definition NODE_TYPE_BIRTH_PERIOD_QUARANTINE_ENTERED :: string where
  "NODE_TYPE_BIRTH_PERIOD_QUARANTINE_ENTERED = ''birth_period_quarantine_entered''"

definition NODE_TYPE_BIRTH_PERIOD_QUARANTINE_LIFTED :: string where
  "NODE_TYPE_BIRTH_PERIOD_QUARANTINE_LIFTED = ''birth_period_quarantine_lifted''"

definition federation_peer_pinned_node_type :: "arr32 \<Rightarrow> string" where
  "federation_peer_pinned_node_type pid =
     NODE_TYPE_FEDERATION_PEER_PINNED_PREFIX @ hex_prefix (arr32_bytes pid) 8"

definition federation_legacy_peer_pinned_node_type :: "arr32 \<Rightarrow> string" where
  "federation_legacy_peer_pinned_node_type pid =
     NODE_TYPE_FEDERATION_LEGACY_PEER_PINNED_PREFIX @ hex_prefix (arr32_bytes pid) 8"

definition federation_peer_rejected_node_type :: "arr32 \<Rightarrow> string" where
  "federation_peer_rejected_node_type pid =
     NODE_TYPE_FEDERATION_PEER_REJECTED_PREFIX @ hex_prefix (arr32_bytes pid) 8"

definition federation_peer_revoked_node_type :: "arr32 \<Rightarrow> string" where
  "federation_peer_revoked_node_type pid =
     NODE_TYPE_FEDERATION_PEER_REVOKED_PREFIX @ hex_prefix (arr32_bytes pid) 8"

definition self_euthanasia_executed_node_type :: "string \<Rightarrow> string" where
  "self_euthanasia_executed_node_type axis_name = NODE_TYPE_SELF_EUTHANASIA_EXECUTED_PREFIX @ axis_name"

section \<open>Encoders\<close>

definition encode_federation_listener_opened :: "string \<Rightarrow> i64 \<Rightarrow> bytes" where
  "encode_federation_listener_opened addr t = event_bytes
     [(''bind_addr'', VString addr), (''opened_at_unix_ns'', VTimestamp t)]"

definition encode_federation_listener_closed :: "string \<Rightarrow> i64 \<Rightarrow> bytes" where
  "encode_federation_listener_closed addr t = event_bytes
     [(''bind_addr'', VString addr), (''closed_at_unix_ns'', VTimestamp t)]"

definition encode_federation_peer_pinned :: "arr32 \<Rightarrow> string \<Rightarrow> i64 \<Rightarrow> arr32 option \<Rightarrow> bytes" where
  "encode_federation_peer_pinned pid addr t pk = event_bytes
     ([(''peer_substrate_id'', VBytes (arr32_bytes pid)), (''remote_addr'', VString addr),
       (''first_pinned_unix_ns'', VTimestamp t)] @
      (case pk of Some k \<Rightarrow> [(''signer_pubkey'', VBytes (arr32_bytes k))] | None \<Rightarrow> []))"

definition encode_federation_legacy_peer_pinned :: "arr32 \<Rightarrow> string \<Rightarrow> i64 \<Rightarrow> bytes" where
  "encode_federation_legacy_peer_pinned pid addr t = event_bytes
     [(''peer_substrate_id'', VBytes (arr32_bytes pid)), (''remote_addr'', VString addr),
      (''first_pinned_unix_ns'', VTimestamp t)]"

definition encode_federation_peer_rejected :: "arr32 \<Rightarrow> arr32 \<Rightarrow> string \<Rightarrow> i64 \<Rightarrow> string \<Rightarrow> bytes" where
  "encode_federation_peer_rejected offered pinned addr t reason = event_bytes
     [(''offered_substrate_id'', VBytes (arr32_bytes offered)),
      (''previously_pinned_substrate_id'', VBytes (arr32_bytes pinned)),
      (''remote_addr'', VString addr), (''rejected_at_unix_ns'', VTimestamp t),
      (''reason'', VString reason)]"

definition encode_federation_events_received :: "arr32 \<Rightarrow> arr32 list \<Rightarrow> i64 \<Rightarrow> bytes" where
  "encode_federation_events_received pid hashes t = event_bytes
     [(''from_peer_substrate_id'', VBytes (arr32_bytes pid)),
      (''received_event_hashes'', arr32_array hashes), (''received_at_unix_ns'', VTimestamp t)]"

definition encode_federation_events_sent :: "arr32 \<Rightarrow> arr32 list \<Rightarrow> i64 \<Rightarrow> bytes" where
  "encode_federation_events_sent pid hashes t = event_bytes
     [(''to_peer_substrate_id'', VBytes (arr32_bytes pid)),
      (''sent_event_hashes'', arr32_array hashes), (''sent_at_unix_ns'', VTimestamp t)]"

definition encode_parent_federation_hint :: "arr32 \<Rightarrow> string \<Rightarrow> i64 \<Rightarrow> bytes" where
  "encode_parent_federation_hint pid addr t = event_bytes
     [(''parent_substrate_id'', VBytes (arr32_bytes pid)),
      (''parent_federation_addr'', VString addr), (''hinted_at_unix_ns'', VTimestamp t)]"

definition encode_federation_parent_linked :: "arr32 \<Rightarrow> string \<Rightarrow> i64 \<Rightarrow> bytes" where
  "encode_federation_parent_linked pid addr t = event_bytes
     [(''parent_substrate_id'', VBytes (arr32_bytes pid)),
      (''parent_federation_addr'', VString addr), (''linked_at_unix_ns'', VTimestamp t)]"

definition encode_birth_period_quarantine_entered ::
    "arr32 \<Rightarrow> arr32 list \<Rightarrow> u64 \<Rightarrow> i64 \<Rightarrow> bytes" where
  "encode_birth_period_quarantine_entered pid summary duration t = event_bytes
     [(''parent_substrate_id'', VBytes (arr32_bytes pid)),
      (''inherited_immune_summary'', arr32_array summary),
      (''quarantine_duration_cycles'', VUint duration), (''entered_at_unix_ns'', VTimestamp t)]"

definition encode_birth_period_quarantine_lifted :: "string \<Rightarrow> u64 \<Rightarrow> i64 \<Rightarrow> bytes" where
  "encode_birth_period_quarantine_lifted reason at_cycle t = event_bytes
     [(''reason'', VString reason), (''at_cycle'', VUint at_cycle), (''lifted_at_unix_ns'', VTimestamp t)]"

definition encode_self_euthanasia_executed :: "string \<Rightarrow> arr32 \<Rightarrow> u64 \<Rightarrow> i64 \<Rightarrow> bytes" where
  "encode_self_euthanasia_executed axis_name proposal at_cycle t = event_bytes
     [(''axis_name'', VString axis_name),
      (''triggering_proposal_hash'', VBytes (arr32_bytes proposal)),
      (''at_cycle'', VUint at_cycle), (''executed_at_unix_ns'', VTimestamp t)]"

definition build_revoke_federation_peer_canonical_bytes ::
    "arr32 \<Rightarrow> arr32 \<Rightarrow> string \<Rightarrow> u64 \<Rightarrow> bytes" where
  "build_revoke_federation_peer_canonical_bytes pid pk reason t = event_bytes
     [(''domain'', VString REVOKE_FEDERATION_PEER_DOMAIN),
      (''revoked_peer_substrate_id'', VBytes (arr32_bytes pid)),
      (''revoked_pubkey'', VBytes (arr32_bytes pk)), (''reason'', VString reason),
      (''anchor_timestamp_unix_seconds'', VUint t)]"

definition encode_federation_peer_revoked ::
    "arr32 \<Rightarrow> arr32 \<Rightarrow> string \<Rightarrow> u64 \<Rightarrow> arr64 \<Rightarrow> arr32 \<Rightarrow> bytes" where
  "encode_federation_peer_revoked pid pk reason t sig owner = event_bytes
     [(''revoked_peer_substrate_id'', VBytes (arr32_bytes pid)),
      (''revoked_pubkey'', VBytes (arr32_bytes pk)), (''reason'', VString reason),
      (''anchor_timestamp_unix_seconds'', VUint t),
      (''owner_signature'', VBytes (arr64_bytes sig)), (''owner_pubkey'', VBytes (arr32_bytes owner))]"

section \<open>Readers\<close>

definition decode_federation_peer_pinned_signer :: "bytes \<Rightarrow> ((arr32 \<times> arr32) option, 'e) result" where
  "decode_federation_peer_pinned_signer = decode_with (\<lambda>m. do {
     pid \<leftarrow> opt_arr32 m ''peer_substrate_id'';
     pk \<leftarrow> opt_arr32 m ''signer_pubkey'';
     Some (pid, pk) })"

definition decode_revoke_federation_peer ::
    "bytes \<Rightarrow> ((arr32 \<times> arr32 \<times> string \<times> u64) option, 'e) result" where
  "decode_revoke_federation_peer = decode_with (\<lambda>m. do {
     domain \<leftarrow> opt_string m ''domain'';
     (if domain = REVOKE_FEDERATION_PEER_DOMAIN then Some () else None);
     pid \<leftarrow> opt_arr32 m ''revoked_peer_substrate_id'';
     pk \<leftarrow> opt_arr32 m ''revoked_pubkey'';
     reason \<leftarrow> opt_string m ''reason'';
     t \<leftarrow> opt_uint m ''anchor_timestamp_unix_seconds'';
     Some (pid, pk, reason, t) })"

definition decode_federation_peer_revoked_target :: "bytes \<Rightarrow> (arr32 option, 'e) result" where
  "decode_federation_peer_revoked_target = decode_with (\<lambda>m. opt_arr32 m ''revoked_peer_substrate_id'')"

text \<open>A walk over nodes that may panic, and its forms that stop at the first hit.\<close>

primrec try_fold :: "('a \<Rightarrow> 's \<Rightarrow> ('s, 'e) result) \<Rightarrow> 'a list \<Rightarrow> 's \<Rightarrow> ('s, 'e) result" where
  "try_fold f [] s = Ok s"
| "try_fold f (x # xs) s = and_then (f x s) (try_fold f xs)"

primrec try_find_map :: "('a \<Rightarrow> ('b option, 'e) result) \<Rightarrow> 'a list \<Rightarrow> ('b option, 'e) result" where
  "try_find_map f [] = Ok None"
| "try_find_map f (x # xs) = and_then (f x) (\<lambda>r.
     case r of Some b \<Rightarrow> Ok (Some b) | None \<Rightarrow> try_find_map f xs)"

definition try_any :: "('a \<Rightarrow> (bool, 'e) result) \<Rightarrow> 'a list \<Rightarrow> (bool, 'e) result" where
  "try_any f xs = and_then (try_find_map (\<lambda>x. and_then (f x) (\<lambda>b. Ok (if b then Some () else None))) xs)
     (\<lambda>r. Ok (r \<noteq> None))"

text \<open>A set of identities, as the list of its elements in the order they were first inserted.\<close>

definition derive_revoked_federation_peers_from_dag :: "dag \<Rightarrow> (arr32 list, 'e) result" where
  "derive_revoked_federation_peers_from_dag d =
     try_fold (\<lambda>n revoked.
       if \<not> starts_with (node_type n) NODE_TYPE_FEDERATION_PEER_REVOKED_PREFIX then Ok revoked
       else and_then (decode_federation_peer_revoked_target (content n)) (\<lambda>t.
         Ok (case t of Some pid \<Rightarrow> List.insert pid revoked | None \<Rightarrow> revoked)))
       (iter_in_insertion_order d) []"

section \<open>Lemmas\<close>

lemma decode_with_encoded:
  "event_ok kvs \<Longrightarrow> decode_with r (event_bytes kvs) = Ok (r (bt_of kvs))"
  by (simp add: decode_with_def decode_map_def decode_event)

lemma try_fold_append: "try_fold f (xs @ ys) s = and_then (try_fold f xs s) (try_fold f ys)"
proof (induction xs arbitrary: s)
  case (Cons x xs)
  then show ?case
    by (cases "f x s") simp_all
qed simp

lemma try_find_map_Some:
  "try_find_map f xs = Ok (Some b) \<Longrightarrow> \<exists>x \<in> set xs. f x = Ok (Some b)"
  by (induction xs) (auto split: option.splits)

lemma try_find_map_None:
  "try_find_map f xs = Ok None \<longleftrightarrow> (\<forall>x \<in> set xs. f x = Ok None)"
  by (induction xs) (auto split: option.splits)

end
