(* ===== verification/Events_Consensus.thy ===== *)
theory Events_Consensus
  imports Events_Federation Event_Log
begin

text \<open>
  The quorum certificates of the population-consensus floor,
  \<^verbatim>\<open>substrate/src/events/consensus.rs\<close>: the fault bound, the signed message of a vote, the
  vote and certificate bodies, and the verification of a certificate against pinned keys. The hash
  \<open>H\<close> is BLAKE3 and \<open>verify\<close> the Ed25519 check of \<^verbatim>\<open>crypto.rs\<close>, on a key and a signature of
  the right length.
\<close>

section \<open>Claims\<close>

definition POPULATION_VOTE_CONTEXT :: string where
  "POPULATION_VOTE_CONTEXT = ''myco-population-vote-v1''"

definition NODE_TYPE_POPULATION_VOTE_PREFIX :: string where
  "NODE_TYPE_POPULATION_VOTE_PREFIX = ''population_vote:''"

definition NODE_TYPE_POPULATION_CONSENSUS_REACHED_PREFIX :: string where
  "NODE_TYPE_POPULATION_CONSENSUS_REACHED_PREFIX = ''population_consensus_reached:''"

definition NODE_TYPE_POPULATION_CONSENSUS_PENDING_PREFIX :: string where
  "NODE_TYPE_POPULATION_CONSENSUS_PENDING_PREFIX = ''population_consensus_pending:''"

definition NODE_TYPE_CONSENSUS_FLOOR_ACTIVATED :: string where
  "NODE_TYPE_CONSENSUS_FLOOR_ACTIVATED = ''consensus_floor_activated''"

definition NODE_TYPE_CONSENSUS_FLOOR_DEACTIVATED :: string where
  "NODE_TYPE_CONSENSUS_FLOOR_DEACTIVATED = ''consensus_floor_deactivated''"

definition NODE_TYPE_BYZANTINE_THRESHOLD_CHECK_PREFIX :: string where
  "NODE_TYPE_BYZANTINE_THRESHOLD_CHECK_PREFIX = ''byzantine_threshold_check:''"

definition CONSENSUS_FLOOR_MIN_PEERS :: nat where
  "CONSENSUS_FLOOR_MIN_PEERS = 3"

datatype population_claim_class =
    PeerRevocation
  | UniversalJunkClassification
  | CrossSubstrateAggregateMetric

fun claim_type :: "population_claim_class \<Rightarrow> string" where
  "claim_type PeerRevocation = ''peer_revocation''"
| "claim_type UniversalJunkClassification = ''universal_junk_classification''"
| "claim_type CrossSubstrateAggregateMetric = ''cross_substrate_aggregate_metric''"

definition from_claim_type :: "string \<Rightarrow> population_claim_class option" where
  "from_claim_type s =
     (if s = ''peer_revocation'' then Some PeerRevocation
      else if s = ''universal_junk_classification'' then Some UniversalJunkClassification
      else if s = ''cross_substrate_aggregate_metric'' then Some CrossSubstrateAggregateMetric
      else None)"

section \<open>The fault bound\<close>

text \<open>On \<^verbatim>\<open>usize\<close>, whose subtraction here saturates or cannot underflow.\<close>

definition f_tolerated :: "nat \<Rightarrow> nat" where
  "f_tolerated n = (n - 1) div 3"

definition quorum_threshold :: "nat \<Rightarrow> nat" where
  "quorum_threshold n = n - f_tolerated n"

section \<open>Votes\<close>

definition build_population_vote_signing_message ::
    "string \<Rightarrow> arr32 \<Rightarrow> arr32 \<Rightarrow> u64 \<Rightarrow> arr32 \<Rightarrow> bytes" where
  "build_population_vote_signing_message ty ch signer round vote_tip = event_bytes
     [(''context'', VString POPULATION_VOTE_CONTEXT), (''claim_type'', VString ty),
      (''claim_hash'', VBytes (arr32_bytes ch)), (''peer_substrate_id'', VBytes (arr32_bytes signer)),
      (''round_id'', VUint round), (''peer_dag_tip_at_vote'', VBytes (arr32_bytes vote_tip))]"

definition claim_hash :: "hash_fn \<Rightarrow> bytes \<Rightarrow> arr32" where
  "claim_hash H payload = H payload"

definition population_vote_node_type :: "string \<Rightarrow> string" where
  "population_vote_node_type ty = NODE_TYPE_POPULATION_VOTE_PREFIX @ ty"

record population_vote =
  pv_claim_type :: string
  pv_claim_hash :: arr32
  pv_claim_payload :: bytes
  pv_round_id :: u64
  pv_voter :: arr32
  pv_signature :: arr64
  pv_dag_tip :: arr32

definition encode_population_vote :: "population_vote \<Rightarrow> u64 \<Rightarrow> bytes" where
  "encode_population_vote v cycle = event_bytes
     [(''claim_type'', VString (pv_claim_type v)),
      (''claim_hash'', VBytes (arr32_bytes (pv_claim_hash v))),
      (''claim_payload'', VBytes (pv_claim_payload v)), (''round_id'', VUint (pv_round_id v)),
      (''voter_substrate_id'', VBytes (arr32_bytes (pv_voter v))),
      (''voter_signature'', VBytes (arr64_bytes (pv_signature v))),
      (''peer_dag_tip_at_vote'', VBytes (arr32_bytes (pv_dag_tip v))),
      (''emitted_at_cycle'', VUint cycle)]"

definition read_population_vote :: "vmap \<Rightarrow> population_vote option" where
  "read_population_vote m = do {
     ty \<leftarrow> opt_string m ''claim_type'';
     ch \<leftarrow> opt_arr32 m ''claim_hash'';
     payload \<leftarrow> opt_bytes m ''claim_payload'';
     round \<leftarrow> opt_uint m ''round_id'';
     voter \<leftarrow> opt_arr32 m ''voter_substrate_id'';
     sig \<leftarrow> opt_arr64 m ''voter_signature'';
     vote_tip \<leftarrow> opt_arr32 m ''peer_dag_tip_at_vote'';
     Some \<lparr>pv_claim_type = ty, pv_claim_hash = ch, pv_claim_payload = payload, pv_round_id = round,
           pv_voter = voter, pv_signature = sig, pv_dag_tip = vote_tip\<rparr> }"

definition decode_population_vote :: "bytes \<Rightarrow> (population_vote option, 'e) result" where
  "decode_population_vote = decode_with read_population_vote"

type_synonym verify_fn = "arr32 \<Rightarrow> arr64 \<Rightarrow> bytes \<Rightarrow> bool"

definition vote_message :: "population_vote \<Rightarrow> bytes" where
  "vote_message v = build_population_vote_signing_message
     (pv_claim_type v) (pv_claim_hash v) (pv_voter v) (pv_round_id v) (pv_dag_tip v)"

definition verify_population_vote :: "verify_fn \<Rightarrow> population_vote \<Rightarrow> arr32 \<Rightarrow> bool" where
  "verify_population_vote verify v pubkey = verify pubkey (pv_signature v) (vote_message v)"

section \<open>Certificates\<close>

record cert_peer_vote =
  cv_peer :: arr32
  cv_signature :: arr64
  cv_dag_tip :: arr32

record quorum_cert =
  qc_claim_type :: string
  qc_claim_hash :: arr32
  qc_claim_payload :: bytes
  qc_round_id :: u64
  qc_quorum_size :: u64
  qc_peer_set_size_n :: u64
  qc_f_tolerated :: u64
  qc_peer_votes :: "cert_peer_vote list"

definition population_consensus_reached_node_type :: "string \<Rightarrow> string" where
  "population_consensus_reached_node_type ty = NODE_TYPE_POPULATION_CONSENSUS_REACHED_PREFIX @ ty"

definition cert_vote_value :: "cert_peer_vote \<Rightarrow> Value" where
  "cert_vote_value cv = VMap (bt_of
     [(''peer_substrate_id'', VBytes (arr32_bytes (cv_peer cv))),
      (''peer_signature'', VBytes (arr64_bytes (cv_signature cv))),
      (''peer_dag_tip_at_vote'', VBytes (arr32_bytes (cv_dag_tip cv)))])"

definition encode_population_consensus_reached ::
    "string \<Rightarrow> arr32 \<Rightarrow> bytes \<Rightarrow> u64 \<Rightarrow> nat \<Rightarrow> nat \<Rightarrow> cert_peer_vote list \<Rightarrow> u64 \<Rightarrow> bytes" where
  "encode_population_consensus_reached ty ch payload round n f votes cycle = event_bytes
     [(''claim_type'', VString ty), (''claim_hash'', VBytes (arr32_bytes ch)),
      (''claim_payload'', VBytes payload), (''round_id'', VUint round),
      (''quorum_size'', VUint (word_of_nat (length votes))),
      (''peer_set_size_n'', VUint (word_of_nat n)), (''f_tolerated'', VUint (word_of_nat f)),
      (''peer_votes'', VArray (map cert_vote_value votes)), (''reached_at_cycle'', VUint cycle)]"

fun read_cert_vote :: "Value \<Rightarrow> cert_peer_vote option" where
  "read_cert_vote (VMap m) = do {
     peer \<leftarrow> opt_arr32 m ''peer_substrate_id'';
     sig \<leftarrow> opt_arr64 m ''peer_signature'';
     vote_tip \<leftarrow> opt_arr32 m ''peer_dag_tip_at_vote'';
     Some \<lparr>cv_peer = peer, cv_signature = sig, cv_dag_tip = vote_tip\<rparr> }"
| "read_cert_vote _ = None"

definition opt_array :: "vmap \<Rightarrow> string \<Rightarrow> Value list option" where
  "opt_array m k = (case bt_get m k of Some (VArray vs) \<Rightarrow> Some vs | _ \<Rightarrow> None)"

primrec map_opt :: "('a \<Rightarrow> 'b option) \<Rightarrow> 'a list \<Rightarrow> 'b list option" where
  "map_opt f [] = Some []"
| "map_opt f (x # xs) = do { y \<leftarrow> f x; ys \<leftarrow> map_opt f xs; Some (y # ys) }"

definition read_quorum_cert :: "vmap \<Rightarrow> quorum_cert option" where
  "read_quorum_cert m = do {
     ty \<leftarrow> opt_string m ''claim_type'';
     ch \<leftarrow> opt_arr32 m ''claim_hash'';
     payload \<leftarrow> opt_bytes m ''claim_payload'';
     round \<leftarrow> opt_uint m ''round_id'';
     size \<leftarrow> opt_uint m ''quorum_size'';
     n \<leftarrow> opt_uint m ''peer_set_size_n'';
     f \<leftarrow> opt_uint m ''f_tolerated'';
     vs \<leftarrow> opt_array m ''peer_votes'';
     votes \<leftarrow> map_opt read_cert_vote vs;
     Some \<lparr>qc_claim_type = ty, qc_claim_hash = ch, qc_claim_payload = payload, qc_round_id = round,
           qc_quorum_size = size, qc_peer_set_size_n = n, qc_f_tolerated = f, qc_peer_votes = votes\<rparr> }"

definition decode_population_consensus_reached :: "bytes \<Rightarrow> (quorum_cert option, 'e) result" where
  "decode_population_consensus_reached = decode_with read_quorum_cert"

datatype cert_verify_outcome = Valid nat | Invalid string

text \<open>
  The loop over the embedded votes: the set of verified voters, a vote whose peer has no pinned key
  being passed over.
\<close>

definition cert_message :: "quorum_cert \<Rightarrow> cert_peer_vote \<Rightarrow> bytes" where
  "cert_message cert cv = build_population_vote_signing_message
     (qc_claim_type cert) (qc_claim_hash cert) (cv_peer cv) (qc_round_id cert) (cv_dag_tip cv)"

primrec verified_voters ::
    "verify_fn \<Rightarrow> quorum_cert \<Rightarrow> (arr32 \<Rightarrow> arr32 option) \<Rightarrow> cert_peer_vote list \<Rightarrow> arr32 list \<Rightarrow> arr32 list"
where
  "verified_voters verify cert resolve [] acc = acc"
| "verified_voters verify cert resolve (cv # cvs) acc =
     (case resolve (cv_peer cv) of
        None \<Rightarrow> verified_voters verify cert resolve cvs acc
      | Some pk \<Rightarrow> verified_voters verify cert resolve cvs
          (if verify pk (cv_signature cv) (cert_message cert cv) then List.insert (cv_peer cv) acc else acc))"

definition verify_quorum_cert ::
    "hash_fn \<Rightarrow> verify_fn \<Rightarrow> quorum_cert \<Rightarrow> (arr32 \<Rightarrow> arr32 option) \<Rightarrow> cert_verify_outcome" where
  "verify_quorum_cert H verify cert resolve =
     (let recomputed = claim_hash H (qc_claim_payload cert) in
      if recomputed \<noteq> qc_claim_hash cert
      then Invalid (''claim_hash '' @ hex_prefix (arr32_bytes (qc_claim_hash cert)) 8 @
             '' does not match BLAKE3(claim_payload) '' @ hex_prefix (arr32_bytes recomputed) 8)
      else
        let verified = verified_voters verify cert resolve (qc_peer_votes cert) [];
            n = unat (qc_peer_set_size_n cert);
            threshold = quorum_threshold n;
            verified_count = length verified
        in if verified_count < threshold
           then Invalid (''verified distinct voters '' @ decimal verified_count @
                  '' < quorum_threshold('' @ decimal n @ '') = '' @ decimal threshold)
           else Valid verified_count)"

section \<open>Other bodies\<close>

definition population_consensus_pending_node_type :: "string \<Rightarrow> string" where
  "population_consensus_pending_node_type ty = NODE_TYPE_POPULATION_CONSENSUS_PENDING_PREFIX @ ty"

definition encode_population_consensus_pending ::
    "string \<Rightarrow> arr32 \<Rightarrow> u64 \<Rightarrow> nat \<Rightarrow> nat \<Rightarrow> u64 \<Rightarrow> bytes" where
  "encode_population_consensus_pending ty ch round received needed cycle = event_bytes
     [(''claim_type'', VString ty), (''claim_hash'', VBytes (arr32_bytes ch)), (''round_id'', VUint round),
      (''votes_received'', VUint (word_of_nat received)), (''quorum_needed'', VUint (word_of_nat needed)),
      (''at_cycle'', VUint cycle)]"

text \<open>Identities sort bytewise, which is their order as big-endian numbers.\<close>

definition peer_set_merkle_root :: "hash_fn \<Rightarrow> arr32 list \<Rightarrow> arr32" where
  "peer_set_merkle_root H ids =
     (let sorted = remdups_adj (sort ids) in
      H (str_bytes ''myco-peer-set-merkle-root-v1'' @ u64_bytes (word_of_nat (length sorted)) @
         concat (map arr32_bytes sorted)))"

definition encode_consensus_floor_activated :: "nat \<Rightarrow> u64 \<Rightarrow> arr32 \<Rightarrow> bytes" where
  "encode_consensus_floor_activated peers cycle root = event_bytes
     [(''peer_count'', VUint (word_of_nat peers)), (''activation_cycle'', VUint cycle),
      (''peer_set_merkle_root'', VBytes (arr32_bytes root))]"

definition encode_consensus_floor_deactivated :: "nat \<Rightarrow> u64 \<Rightarrow> bytes" where
  "encode_consensus_floor_deactivated peers cycle = event_bytes
     [(''peer_count'', VUint (word_of_nat peers)), (''deactivation_cycle'', VUint cycle)]"

definition byzantine_threshold_check_node_type :: "string \<Rightarrow> string" where
  "byzantine_threshold_check_node_type ty = NODE_TYPE_BYZANTINE_THRESHOLD_CHECK_PREFIX @ ty"

definition encode_byzantine_threshold_check ::
    "string \<Rightarrow> nat \<Rightarrow> nat \<Rightarrow> nat \<Rightarrow> nat \<Rightarrow> u64 \<Rightarrow> u64 \<Rightarrow> bytes" where
  "encode_byzantine_threshold_check ty n f received consistent round cycle = event_bytes
     [(''claim_type'', VString ty), (''peer_set_size_n'', VUint (word_of_nat n)),
      (''f_tolerated'', VUint (word_of_nat f)), (''votes_received'', VUint (word_of_nat received)),
      (''votes_consistent'', VUint (word_of_nat consistent)), (''round_id'', VUint round),
      (''at_cycle'', VUint cycle)]"

section \<open>Lemmas\<close>

lemma from_claim_type_claim_type [simp]: "from_claim_type (claim_type c) = Some c"
  by (cases c) (simp_all add: from_claim_type_def)

lemma from_claim_type_Some: "from_claim_type s = Some c \<longleftrightarrow> s = claim_type c"
  by (cases c) (auto simp: from_claim_type_def split: if_splits)

text \<open>The identities whose embedded vote verifies.\<close>

definition signed_by :: "verify_fn \<Rightarrow> quorum_cert \<Rightarrow> (arr32 \<Rightarrow> arr32 option) \<Rightarrow> arr32 set" where
  "signed_by verify cert resolve = {v. \<exists>cv pk. cv \<in> set (qc_peer_votes cert) \<and> v = cv_peer cv \<and>
     resolve v = Some pk \<and> verify pk (cv_signature cv) (cert_message cert cv)}"

lemma verified_voters_set:
  "set (verified_voters verify cert resolve cvs acc) =
    set acc \<union> {v. \<exists>cv pk. cv \<in> set cvs \<and> v = cv_peer cv \<and> resolve v = Some pk \<and>
      verify pk (cv_signature cv) (cert_message cert cv)}"
  by (induction cvs arbitrary: acc) (auto split: option.splits)

lemma verified_voters_distinct:
  "distinct acc \<Longrightarrow> distinct (verified_voters verify cert resolve cvs acc)"
  by (induction cvs arbitrary: acc) (auto split: option.splits)

lemma length_verified_voters:
  "length (verified_voters verify cert resolve (qc_peer_votes cert) []) = card (signed_by verify cert resolve)"
  using verified_voters_distinct [of "[]" verify cert resolve "qc_peer_votes cert"]
    verified_voters_set [of verify cert resolve "qc_peer_votes cert" "[]"]
  by (simp add: signed_by_def distinct_card [symmetric])

lemma finite_signed_by: "finite (signed_by verify cert resolve)"
  by (rule finite_subset [of _ "cv_peer ` set (qc_peer_votes cert)"]) (auto simp: signed_by_def)

lemma verify_quorum_cert_iff:
  "verify_quorum_cert H verify cert resolve = Valid k \<longleftrightarrow>
    H (qc_claim_payload cert) = qc_claim_hash cert \<and> k = card (signed_by verify cert resolve) \<and>
    quorum_threshold (unat (qc_peer_set_size_n cert)) \<le> k"
  by (auto simp: verify_quorum_cert_def claim_hash_def length_verified_voters Let_def)

lemma three_f: "0 < n \<Longrightarrow> 3 * f_tolerated n + 1 \<le> n"
  by (simp add: f_tolerated_def)

lemma quorum_le: "quorum_threshold n \<le> n"
  by (simp add: quorum_threshold_def)

lemma quorum_pos: "0 < n \<Longrightarrow> 0 < quorum_threshold n"
  by (simp add: quorum_threshold_def f_tolerated_def)

lemma quorums_overlap:
  assumes "0 < n" and "finite U" and "card U \<le> n" and "A \<subseteq> U" and "B \<subseteq> U"
    and "quorum_threshold n \<le> card A" and "quorum_threshold n \<le> card B"
  shows "f_tolerated n < card (A \<inter> B)"
proof -
  have fin: "finite A" "finite B"
    using assms(2,4,5) finite_subset by auto
  then have "card A + card B = card (A \<union> B) + card (A \<inter> B)"
    by (rule card_Un_Int)
  moreover have "card (A \<union> B) \<le> n"
    using assms(2-5) card_mono [of U "A \<union> B"] by simp
  ultimately show ?thesis
    using assms(6,7) three_f [OF assms(1)] by (simp add: quorum_threshold_def)
qed

text \<open>Bodies are read back as they were written, within the allocation bound.\<close>

definition vote_fits :: "population_vote \<Rightarrow> bool" where
  "vote_fits v \<longleftrightarrow> fits (pv_claim_type v) \<and> length (pv_claim_payload v) < 2 ^ 32"

lemma decode_encode_vote:
  assumes "vote_fits v"
  shows "decode_population_vote (encode_population_vote v cycle) = Ok (Some v)"
proof -
  have "event_ok
     [(''claim_type'', VString (pv_claim_type v)),
      (''claim_hash'', VBytes (arr32_bytes (pv_claim_hash v))),
      (''claim_payload'', VBytes (pv_claim_payload v)), (''round_id'', VUint (pv_round_id v)),
      (''voter_substrate_id'', VBytes (arr32_bytes (pv_voter v))),
      (''voter_signature'', VBytes (arr64_bytes (pv_signature v))),
      (''peer_dag_tip_at_vote'', VBytes (arr32_bytes (pv_dag_tip v))),
      (''emitted_at_cycle'', VUint cycle)]"
    by (rule event_okI) (use assms in \<open>auto simp: vote_fits_def fits_def\<close>)
  then show ?thesis
    by (simp add: decode_population_vote_def encode_population_vote_def decode_with_encoded
        read_population_vote_def field_defs opt_arr64_def bt_get_of)
qed

lemma map_opt_map: "(\<And>x. x \<in> set xs \<Longrightarrow> f (g x) = Some (h x)) \<Longrightarrow> map_opt f (map g xs) = Some (map h xs)"
  by (induction xs) simp_all

lemma read_cert_vote_value [simp]: "read_cert_vote (cert_vote_value cv) = Some cv"
  by (simp add: cert_vote_value_def field_defs opt_arr64_def bt_get_of)

definition cert_fields ::
    "string \<Rightarrow> arr32 \<Rightarrow> bytes \<Rightarrow> u64 \<Rightarrow> nat \<Rightarrow> nat \<Rightarrow> cert_peer_vote list \<Rightarrow> u64 \<Rightarrow> (string \<times> Value) list" where
  "cert_fields ty ch payload round n f votes cycle =
     [(''claim_type'', VString ty), (''claim_hash'', VBytes (arr32_bytes ch)),
      (''claim_payload'', VBytes payload), (''round_id'', VUint round),
      (''quorum_size'', VUint (word_of_nat (length votes))),
      (''peer_set_size_n'', VUint (word_of_nat n)), (''f_tolerated'', VUint (word_of_nat f)),
      (''peer_votes'', VArray (map cert_vote_value votes)), (''reached_at_cycle'', VUint cycle)]"

definition minted_cert ::
    "string \<Rightarrow> arr32 \<Rightarrow> bytes \<Rightarrow> u64 \<Rightarrow> nat \<Rightarrow> nat \<Rightarrow> cert_peer_vote list \<Rightarrow> quorum_cert" where
  "minted_cert ty ch payload round n f votes =
     \<lparr>qc_claim_type = ty, qc_claim_hash = ch, qc_claim_payload = payload, qc_round_id = round,
      qc_quorum_size = word_of_nat (length votes), qc_peer_set_size_n = word_of_nat n,
      qc_f_tolerated = word_of_nat f, qc_peer_votes = votes\<rparr>"

lemma decode_encode_cert:
  "event_ok (cert_fields ty ch payload round n f votes cycle) \<Longrightarrow>
    decode_population_consensus_reached (encode_population_consensus_reached ty ch payload round n f votes cycle) =
      Ok (Some (minted_cert ty ch payload round n f votes))"
  using map_opt_map [of votes read_cert_vote cert_vote_value "\<lambda>cv. cv"]
  by (simp add: decode_population_consensus_reached_def encode_population_consensus_reached_def
      cert_fields_def decode_with_encoded read_quorum_cert_def opt_array_def field_defs bt_get_of
      minted_cert_def)

text \<open>A certificate body is small when its payload and its votes are.\<close>

lemma wf_cert_vote: "wf_value (cert_vote_value cv)"
  unfolding cert_vote_value_def by (rule wf_VMap_of) auto

lemma length_cert_vote: "length (encode_into (cert_vote_value cv)) \<le> 300"
proof -
  have "length (event_bytes [(''peer_substrate_id'', VBytes (arr32_bytes (cv_peer cv))),
      (''peer_signature'', VBytes (arr64_bytes (cv_signature cv))),
      (''peer_dag_tip_at_vote'', VBytes (arr32_bytes (cv_dag_tip cv)))]) \<le> 300"
    by (rule order_trans [OF length_event_fields]) simp_all
  then show ?thesis
    by (simp add: cert_vote_value_def event_bytes_def)
qed

lemma cert_fields_ok:
  assumes "fits ty" and "length payload < 2 ^ 32" and "length votes < 2 ^ 32"
  shows "event_ok (cert_fields ty ch payload round n f votes cycle)"
proof -
  have "length (concat (map (encode_into \<circ> cert_vote_value) votes)) \<le> sum_list (map (\<lambda>_. 300) votes)"
    unfolding length_concat map_map by (rule sum_list_mono) (simp add: length_cert_vote)
  then have array: "length (encode_into (VArray (map cert_vote_value votes))) \<le> 11 + 300 * length votes"
    using length_write_varint [of "word_of_nat (length votes)"] by (simp add: sum_list_triv)
  note scalars = length_field [of "VString ty", simplified field_size.simps is_field.simps]
    length_field [of "VBytes payload", simplified field_size.simps is_field.simps]
    length_field [of "VBytes (arr32_bytes ch)", simplified field_size.simps is_field.simps]
  have "length (event_bytes (cert_fields ty ch payload round n f votes cycle)) < 2 ^ 63"
    by (rule le_less_trans [OF length_event_bytes])
      (use array scalars assms in \<open>simp add: cert_fields_def fits_def del: encode_into.simps(5,6,7)\<close>)
  then show ?thesis
    using assms(1) wf_cert_vote by (auto simp: event_ok_def cert_fields_def fits_def)
qed

section \<open>Properties\<close>

text \<open>
  A certificate verifies as valid with k voters exactly when its payload hashes to its claim
  hash, k is the number of different identities with a pinned key whose embedded signature is valid
  for that identity's own message, and k reaches the quorum of the certificate's peer-set size. A
  repeated, unpinned or forged vote counts for nothing.
\<close>

lemma verify_quorum_cert_counts_voters:
  "verify_quorum_cert H verify cert resolve = Valid k \<longleftrightarrow>
    H (qc_claim_payload cert) = qc_claim_hash cert \<and>
    k = card {v. \<exists>cv pk. cv \<in> set (qc_peer_votes cert) \<and> v = cv_peer cv \<and> resolve v = Some pk \<and>
      verify pk (cv_signature cv) (build_population_vote_signing_message (qc_claim_type cert)
        (qc_claim_hash cert) v (qc_round_id cert) (cv_dag_tip cv))} \<and>
    quorum_threshold (unat (qc_peer_set_size_n cert)) \<le> k"
proof -
  have "signed_by verify cert resolve = {v. \<exists>cv pk. cv \<in> set (qc_peer_votes cert) \<and> v = cv_peer cv \<and>
      resolve v = Some pk \<and> verify pk (cv_signature cv) (build_population_vote_signing_message
        (qc_claim_type cert) (qc_claim_hash cert) v (qc_round_id cert) (cv_dag_tip cv))}"
    by (auto simp: signed_by_def cert_message_def)
  then show ?thesis
    by (simp add: verify_quorum_cert_iff)
qed

text \<open>
  C28. Two certificates that both verify against the same pins, for a peer set no larger than the
  size they are minted for, share more than f voters: if at most f peers sign for two claims, the
  claims are the same. No size makes f reach a third of the peer set.
\<close>

theorem quorum_certs_share_voters:
  assumes "verify_quorum_cert H verify c1 resolve = Valid k1"
    and "verify_quorum_cert H verify c2 resolve = Valid k2"
    and "qc_peer_set_size_n c1 = n" and "qc_peer_set_size_n c2 = n" and "0 < unat n"
    and "finite (dom resolve)" and "card (dom resolve) \<le> unat n"
  shows "f_tolerated (unat n) < card (signed_by verify c1 resolve \<inter> signed_by verify c2 resolve) \<and>
    3 * f_tolerated (unat n) < unat n"
proof -
  have "signed_by verify c resolve \<subseteq> dom resolve" for c
    by (auto simp: signed_by_def)
  then show ?thesis
    using assms three_f [OF assms(5)] quorums_overlap [OF assms(5-7)]
    by (auto simp: verify_quorum_cert_iff)
qed

text \<open>Four peers who each sign everything, and a certificate that three of them back.\<close>

definition four_peers :: "arr32 \<Rightarrow> arr32 option" where
  "four_peers = [1 \<mapsto> 1, 2 \<mapsto> 2, 3 \<mapsto> 3, 4 \<mapsto> 4]"

definition three_of_four :: "bytes \<Rightarrow> arr32 list \<Rightarrow> quorum_cert" where
  "three_of_four payload ids = \<lparr>qc_claim_type = claim_type PeerRevocation, qc_claim_hash = 9,
     qc_claim_payload = payload, qc_round_id = 0, qc_quorum_size = 3, qc_peer_set_size_n = 4,
     qc_f_tolerated = 1,
     qc_peer_votes = map (\<lambda>i. \<lparr>cv_peer = i, cv_signature = 0, cv_dag_tip = 0\<rparr>) ids\<rparr>"

lemma quorum_certs_share_voters_witness:
  "f_tolerated 4 < card (signed_by (\<lambda>_ _ _. True) (three_of_four [1] [1, 2, 3]) four_peers \<inter>
    signed_by (\<lambda>_ _ _. True) (three_of_four [2] [2, 3, 4]) four_peers) \<and> 3 * f_tolerated 4 < 4"
proof -
  have "verify_quorum_cert (\<lambda>_. 9) (\<lambda>_ _ _. True) (three_of_four [1] [1, 2, 3]) four_peers = Valid 3"
    and "verify_quorum_cert (\<lambda>_. 9) (\<lambda>_ _ _. True) (three_of_four [2] [2, 3, 4]) four_peers = Valid 3"
    by (simp_all add: verify_quorum_cert_def claim_hash_def three_of_four_def four_peers_def
        quorum_threshold_def f_tolerated_def)
  from quorum_certs_share_voters [OF this, of 4] show ?thesis
    by (simp add: three_of_four_def four_peers_def)
qed

end
