(* ===== verification/Events_Attested.thy ===== *)
theory Events_Attested
  imports Events_Consensus
begin

text \<open>
  The remaining event payloads of \<^verbatim>\<open>substrate/src/events\<close>: compression and cost budgets
  (\<^verbatim>\<open>compression.rs\<close>), the owner's objective and its drift (\<^verbatim>\<open>telos.rs\<close>), assessments
  (\<^verbatim>\<open>char07.rs\<close>), backup encryption (\<^verbatim>\<open>backup_encryption.rs\<close>), invariant witnesses and the
  closure of a reproduction (\<^verbatim>\<open>attestation.rs\<close>). The descriptions of the compression rules,
  which nothing reads, are left out; floats are a type with a printer, a parser and the test that
  a weight passes.
\<close>

section \<open>Compression\<close>

definition NODE_TYPE_COMPRESSION_EVENT_PREFIX :: string where
  "NODE_TYPE_COMPRESSION_EVENT_PREFIX = ''compression_event:''"

record compression_rule =
  cr_rule_id :: string
  cr_target_prefix :: string
  cr_min_age_cycles :: u64
  cr_aggregator :: string

definition seed_compression_rule_registry :: "compression_rule list" where
  "seed_compression_rule_registry =
     [\<lparr>cr_rule_id = ''raw_material_aggregate_v1'', cr_target_prefix = ''raw_material:'',
       cr_min_age_cycles = 1000, cr_aggregator = ''sum_to_sporocarp''\<rparr>,
      \<lparr>cr_rule_id = ''federation_payload_retention_v1'', cr_target_prefix = ''federation_received:'',
       cr_min_age_cycles = 1000, cr_aggregator = ''drop_after_retention''\<rparr>,
      \<lparr>cr_rule_id = ''trajectory_archive_v1'', cr_target_prefix = ''axis_perturbed:'',
       cr_min_age_cycles = 1000, cr_aggregator = ''archive''\<rparr>]"

record compression_invariant_set =
  forbidden_prefixes :: "string list"
  recent_cycles_floor :: u64

definition seed_compression_invariant_set :: compression_invariant_set where
  "seed_compression_invariant_set = \<lparr>forbidden_prefixes =
     [''genesis_event:'', ''owner_key_'', ''mutation:'', ''evolution_succeeded:'', ''evolution_failed:'',
      ''self_euthanasia_'', ''federation_peer_pinned:'', ''birth_period_quarantine_'', ''operator_pinned:'',
      ''compression_event:''], recent_cycles_floor = 1000\<rparr>"

definition node_type_in_invariant_set :: "string \<Rightarrow> compression_invariant_set \<Rightarrow> bool" where
  "node_type_in_invariant_set ty invs \<longleftrightarrow> list_ex (starts_with ty) (forbidden_prefixes invs)"

definition encode_compression_witness :: "string \<Rightarrow> arr32 list \<Rightarrow> bytes \<Rightarrow> arr32 \<Rightarrow> string \<Rightarrow> bytes" where
  "encode_compression_witness rule_id hashes summary dag_tip argument = event_bytes
     [(''rule_id'', VString rule_id), (''compressed_node_hashes'', arr32_array hashes),
      (''aggregate_summary'', VBytes summary), (''attestation_dag_tip'', VBytes (arr32_bytes dag_tip)),
      (''semantic_lossy'', VBool True), (''causal_recoverability_argument'', VString argument)]"

fun read_hash :: "Value \<Rightarrow> arr32 option" where
  "read_hash (VBytes b) = bytes_arr32 b"
| "read_hash _ = None"

definition decode_compression_witness_minimal ::
    "bytes \<Rightarrow> ((string \<times> arr32 list \<times> bytes \<times> arr32) option, 'e) result" where
  "decode_compression_witness_minimal = decode_with (\<lambda>m. do {
     rule_id \<leftarrow> opt_string m ''rule_id'';
     items \<leftarrow> opt_array m ''compressed_node_hashes'';
     hashes \<leftarrow> map_opt read_hash items;
     summary \<leftarrow> opt_bytes m ''aggregate_summary'';
     dag_tip \<leftarrow> opt_arr32 m ''attestation_dag_tip'';
     Some (rule_id, hashes, summary, dag_tip) })"

definition encode_compression_event :: "string \<Rightarrow> arr32 list \<Rightarrow> bytes \<Rightarrow> arr32 \<Rightarrow> u64 \<Rightarrow> bytes" where
  "encode_compression_event rule_id hashes summary dag_tip cycle = event_bytes
     [(''rule_id'', VString rule_id), (''compressed_node_hashes'', arr32_array hashes),
      (''aggregate_summary'', VBytes summary), (''witness_at_dag_tip'', VBytes (arr32_bytes dag_tip)),
      (''emitted_at_cycle'', VUint cycle)]"

definition compression_event_node_type :: "string \<Rightarrow> string" where
  "compression_event_node_type rule_id = NODE_TYPE_COMPRESSION_EVENT_PREFIX @ rule_id"

section \<open>Cost budgets\<close>

record cost_budgets =
  compute_ns_per_cycle :: u64
  network_bytes_per_cycle :: u64
  storage_bytes_per_cycle :: u64
  pre_eligibility_cycle_floor :: u64
  sustained_saturation_cycle_threshold :: u64
  sustained_saturation_mortality_cycle_threshold :: u64

definition seed_cost_budgets :: cost_budgets where
  "seed_cost_budgets = \<lparr>compute_ns_per_cycle = 100000000, network_bytes_per_cycle = 1048576,
     storage_bytes_per_cycle = 10485760, pre_eligibility_cycle_floor = 1000,
     sustained_saturation_cycle_threshold = 100, sustained_saturation_mortality_cycle_threshold = 1000\<rparr>"

datatype saturation_stage = Normal | PreEligibility | PostEligibility | Saturated

fun saturation_as_str :: "saturation_stage \<Rightarrow> string" where
  "saturation_as_str Normal = ''normal''"
| "saturation_as_str PreEligibility = ''pre_eligibility''"
| "saturation_as_str PostEligibility = ''post_eligibility''"
| "saturation_as_str Saturated = ''saturated''"

definition NODE_TYPE_BUDGET_EXHAUSTED_PREFIX :: string where
  "NODE_TYPE_BUDGET_EXHAUSTED_PREFIX = ''budget_exhausted:''"

definition NODE_TYPE_COMPRESSION_PROPOSED_PREFIX :: string where
  "NODE_TYPE_COMPRESSION_PROPOSED_PREFIX = ''compression_proposed:''"

definition NODE_TYPE_SUBSTRATE_SATURATED :: string where
  "NODE_TYPE_SUBSTRATE_SATURATED = ''substrate_saturated''"

definition NODE_TYPE_SUBSTRATE_NORMAL_RESTORED :: string where
  "NODE_TYPE_SUBSTRATE_NORMAL_RESTORED = ''substrate_normal_restored''"

definition SATURATION_MORTALITY_AXIS_NAME :: string where
  "SATURATION_MORTALITY_AXIS_NAME = ''metabolic_saturation''"

definition encode_budget_exhausted :: "string \<Rightarrow> u64 \<Rightarrow> u64 \<Rightarrow> u64 \<Rightarrow> bytes" where
  "encode_budget_exhausted axis current budget cycle = event_bytes
     [(''axis'', VString axis), (''current_value'', VUint current), (''budget'', VUint budget),
      (''at_cycle'', VUint cycle)]"

definition encode_compression_proposed :: "string \<Rightarrow> u64 \<Rightarrow> string \<Rightarrow> u64 \<Rightarrow> bytes" where
  "encode_compression_proposed rule_id cycle axis candidates = event_bytes
     [(''rule_id'', VString rule_id), (''at_cycle'', VUint cycle), (''proposed_axis'', VString axis),
      (''estimated_candidates'', VUint candidates)]"

definition encode_substrate_saturated :: "u64 \<Rightarrow> u64 \<Rightarrow> string \<Rightarrow> bytes" where
  "encode_substrate_saturated cycle sustained axis = event_bytes
     [(''at_cycle'', VUint cycle), (''sustained_cycles'', VUint sustained), (''triggering_axis'', VString axis)]"

definition encode_substrate_normal_restored :: "u64 \<Rightarrow> bytes" where
  "encode_substrate_normal_restored cycle = event_bytes [(''at_cycle'', VUint cycle)]"

section \<open>The owner's objective\<close>

record 'f owner_objective =
  objective_id :: string
  objective_declared_at_cycle :: u64
  weights :: "(string \<times> 'f) list"

definition seed_owner_objective :: "'f owner_objective option" where
  "seed_owner_objective = None"

definition weight_value :: "('f \<Rightarrow> string) \<Rightarrow> string \<times> 'f \<Rightarrow> Value" where
  "weight_value repr w = VMap (bt_of [(''prefix'', VString (fst w)), (''weight_repr'', VString (repr (snd w)))])"

definition encode_owner_objective :: "('f \<Rightarrow> string) \<Rightarrow> 'f owner_objective \<Rightarrow> bytes" where
  "encode_owner_objective repr ob = event_bytes
     [(''objective_id'', VString (objective_id ob)),
      (''declared_at_cycle'', VUint (objective_declared_at_cycle ob)),
      (''weights'', VArray (map (weight_value repr) (weights ob)))]"

text \<open>A weight that is negative, infinite or no number is refused; \<open>weight_ok\<close> is that test.\<close>

definition read_weight :: "(string \<Rightarrow> 'f option) \<Rightarrow> ('f \<Rightarrow> bool) \<Rightarrow> Value \<Rightarrow> (string \<times> 'f) option" where
  "read_weight parse weight_ok v = (case v of
     VMap e \<Rightarrow> do {
       prefix \<leftarrow> opt_string e ''prefix'';
       repr \<leftarrow> opt_string e ''weight_repr'';
       w \<leftarrow> parse repr;
       (if weight_ok w then Some (prefix, w) else None) }
   | _ \<Rightarrow> None)"

definition decode_owner_objective ::
    "(string \<Rightarrow> 'f option) \<Rightarrow> ('f \<Rightarrow> bool) \<Rightarrow> bytes \<Rightarrow> ('f owner_objective option, 'e) result" where
  "decode_owner_objective parse weight_ok = decode_with (\<lambda>m. do {
     oid \<leftarrow> opt_string m ''objective_id'';
     cycle \<leftarrow> opt_uint m ''declared_at_cycle'';
     items \<leftarrow> opt_array m ''weights'';
     ws \<leftarrow> map_opt (read_weight parse weight_ok) items;
     Some \<lparr>objective_id = oid, objective_declared_at_cycle = cycle, weights = ws\<rparr> })"

definition NODE_TYPE_OWNER_OBJECTIVE_DECLARED_PREFIX :: string where
  "NODE_TYPE_OWNER_OBJECTIVE_DECLARED_PREFIX = ''owner_objective_declared:''"

definition encode_owner_objective_declared :: "string \<Rightarrow> u64 \<Rightarrow> u64 \<Rightarrow> bytes" where
  "encode_owner_objective_declared oid cycle n = event_bytes
     [(''objective_id'', VString oid), (''declared_at_cycle'', VUint cycle), (''weights_count'', VUint n)]"

definition NODE_TYPE_TELOS_ALIGNMENT_PENDING :: string where
  "NODE_TYPE_TELOS_ALIGNMENT_PENDING = ''telos_alignment_pending''"

definition NODE_TYPE_TELOS_ALIGNMENT_LOW :: string where
  "NODE_TYPE_TELOS_ALIGNMENT_LOW = ''telos_alignment_low''"

definition NODE_TYPE_TELOS_DRIFT :: string where
  "NODE_TYPE_TELOS_DRIFT = ''telos_drift''"

definition NODE_TYPE_TELOS_DRIFT_CRITICAL :: string where
  "NODE_TYPE_TELOS_DRIFT_CRITICAL = ''telos_drift_critical''"

definition NODE_TYPE_CULTIVATOR_FIDUCIARY_STRAIN :: string where
  "NODE_TYPE_CULTIVATOR_FIDUCIARY_STRAIN = ''cultivator_fiduciary_strain''"

definition NODE_TYPE_BET_WEAKENING_EVALUATION_SUSPENDED :: string where
  "NODE_TYPE_BET_WEAKENING_EVALUATION_SUSPENDED = ''bet_weakening_evaluation_suspended''"

definition encode_telos_status :: "string \<Rightarrow> string \<Rightarrow> u64 \<Rightarrow> u64 \<Rightarrow> bytes" where
  "encode_telos_status cosine grade cycle sample = event_bytes
     [(''cosine_repr'', VString cosine), (''grade'', VString grade), (''at_cycle'', VUint cycle),
      (''sample_window_size'', VUint sample)]"

section \<open>Assessments\<close>

definition NODE_TYPE_SYCOPHANCY_INDICATOR_ELEVATED :: string where
  "NODE_TYPE_SYCOPHANCY_INDICATOR_ELEVATED = ''sycophancy_indicator_elevated''"

definition NODE_TYPE_CHAR07_ASSESSMENT_PREFIX :: string where
  "NODE_TYPE_CHAR07_ASSESSMENT_PREFIX = ''char07_assessment:''"

definition CHAR07_DIMENSION_CAPABILITY_ASYMMETRY :: string where
  "CHAR07_DIMENSION_CAPABILITY_ASYMMETRY = ''capability_asymmetry_pattern''"

definition CHAR07_DIMENSION_FLOURISHING :: string where
  "CHAR07_DIMENSION_FLOURISHING = ''flourishing_correlation''"

definition is_char07_assessment_dimension :: "string \<Rightarrow> bool" where
  "is_char07_assessment_dimension d \<longleftrightarrow>
     d = CHAR07_DIMENSION_CAPABILITY_ASYMMETRY \<or> d = CHAR07_DIMENSION_FLOURISHING"

definition char07_assessment_node_type :: "string \<Rightarrow> string" where
  "char07_assessment_node_type d = NODE_TYPE_CHAR07_ASSESSMENT_PREFIX @ d"

definition encode_sycophancy_indicator_elevated :: "u64 \<Rightarrow> u64 \<Rightarrow> u64 \<Rightarrow> u64 \<Rightarrow> bytes" where
  "encode_sycophancy_indicator_elevated density ingested window cycle = event_bytes
     [(''honest_disagreement_density'', VUint density), (''raw_material_ingested'', VUint ingested),
      (''window_cycles'', VUint window), (''at_cycle'', VUint cycle)]"

definition encode_char07_assessment :: "string \<Rightarrow> string \<Rightarrow> string \<Rightarrow> u64 \<Rightarrow> bytes" where
  "encode_char07_assessment dimension value source cycle = event_bytes
     [(''dimension'', VString dimension), (''value_repr'', VString value), (''source'', VString source),
      (''at_cycle'', VUint cycle)]"

definition CHAR07_SOURCE_CULTIVATOR_ATTESTED :: string where
  "CHAR07_SOURCE_CULTIVATOR_ATTESTED = ''cultivator_attested''"

definition CHAR07_SOURCE_UNAVAILABLE :: string where
  "CHAR07_SOURCE_UNAVAILABLE = ''unavailable''"

definition CHAR07_SOURCE_TELOS_PROXY :: string where
  "CHAR07_SOURCE_TELOS_PROXY = ''telos_proxy''"

section \<open>Backup encryption\<close>

definition NODE_TYPE_BACKUP_ENCRYPTION_STATUS_DECLARED_PREFIX :: string where
  "NODE_TYPE_BACKUP_ENCRYPTION_STATUS_DECLARED_PREFIX = ''backup_encryption_status_declared:''"

definition BACKUP_ENCRYPTION_STATUS_ENCRYPTED_EXTERNALLY :: string where
  "BACKUP_ENCRYPTION_STATUS_ENCRYPTED_EXTERNALLY = ''encrypted_externally''"

definition BACKUP_ENCRYPTION_STATUS_CULTIVATOR_DECLINED_EXPLICIT :: string where
  "BACKUP_ENCRYPTION_STATUS_CULTIVATOR_DECLINED_EXPLICIT = ''cultivator_declined_explicit''"

definition BACKUP_ENCRYPTION_STATUS_VALID_VALUES :: "string list" where
  "BACKUP_ENCRYPTION_STATUS_VALID_VALUES =
     [BACKUP_ENCRYPTION_STATUS_ENCRYPTED_EXTERNALLY, BACKUP_ENCRYPTION_STATUS_CULTIVATOR_DECLINED_EXPLICIT]"

definition encode_backup_encryption_status_declared :: "string \<Rightarrow> string option \<Rightarrow> u64 \<Rightarrow> bytes" where
  "encode_backup_encryption_status_declared status key_id cycle = event_bytes
     [(''status'', VString status),
      (''key_id'', case key_id of Some i \<Rightarrow> VString i | None \<Rightarrow> Null),
      (''declared_at_cycle'', VUint cycle)]"

definition backup_encryption_status_declared_node_type :: "string \<Rightarrow> string" where
  "backup_encryption_status_declared_node_type status =
     NODE_TYPE_BACKUP_ENCRYPTION_STATUS_DECLARED_PREFIX @ status"

definition decode_backup_encryption_status :: "bytes \<Rightarrow> (string option, 'e) result" where
  "decode_backup_encryption_status = decode_with (\<lambda>m. opt_string m ''status'')"

definition backup_status_step ::
    "dag_node \<Rightarrow> (u64 \<times> string) option \<Rightarrow> ((u64 \<times> string) option, 'e) result" where
  "backup_status_step n latest =
     (if \<not> starts_with (node_type n) NODE_TYPE_BACKUP_ENCRYPTION_STATUS_DECLARED_PREFIX then Ok latest
      else and_then (decode_backup_encryption_status (content n)) (\<lambda>r. Ok (case r of
        None \<Rightarrow> latest
      | Some status \<Rightarrow>
          if (case latest of Some (c, _) \<Rightarrow> c \<le> created_at_cycle n | None \<Rightarrow> True)
          then Some (created_at_cycle n, status) else latest)))"

definition derive_backup_encryption_status_from_dag :: "dag \<Rightarrow> (string option, 'e) result" where
  "derive_backup_encryption_status_from_dag d =
     and_then (try_fold backup_status_step (iter_in_insertion_order d) None) (\<lambda>latest. Ok (map_option snd latest))"

section \<open>Witnesses and the closure of a birth\<close>

definition NODE_TYPE_INVARIANT_WITNESS_PREFIX :: string where
  "NODE_TYPE_INVARIANT_WITNESS_PREFIX = ''invariant_witness:''"

definition invariant_witness_node_type :: "string \<Rightarrow> string" where
  "invariant_witness_node_type check_id = NODE_TYPE_INVARIANT_WITNESS_PREFIX @ check_id"

definition encode_invariant_witness :: "string \<Rightarrow> string \<Rightarrow> u64 \<Rightarrow> i64 \<Rightarrow> bytes \<Rightarrow> bytes" where
  "encode_invariant_witness check_id tier cycle t inputs = event_bytes
     [(''check_id'', VString check_id), (''tier'', VString tier), (''at_cycle'', VUint cycle),
      (''at_unix_ns'', VTimestamp t), (''inputs'', VBytes inputs)]"

definition decode_invariant_witness ::
    "bytes \<Rightarrow> ((string \<times> string \<times> u64 \<times> i64 \<times> bytes) option, 'e) result" where
  "decode_invariant_witness = decode_with (\<lambda>m. do {
     check_id \<leftarrow> opt_string m ''check_id'';
     tier \<leftarrow> opt_string m ''tier'';
     cycle \<leftarrow> opt_uint m ''at_cycle'';
     t \<leftarrow> opt_timestamp m ''at_unix_ns'';
     inputs \<leftarrow> opt_bytes m ''inputs'';
     Some (check_id, tier, cycle, t, inputs) })"

definition SPAWN_COSIGN_DOMAIN :: string where
  "SPAWN_COSIGN_DOMAIN = ''myco-spawn-cosign-v1''"

definition NODE_TYPE_GENESIS_ATTESTED_PREFIX :: string where
  "NODE_TYPE_GENESIS_ATTESTED_PREFIX = ''genesis_attested:''"

definition NODE_TYPE_BIRTH_CLOSURE_PENDING_PREFIX :: string where
  "NODE_TYPE_BIRTH_CLOSURE_PENDING_PREFIX = ''birth_closure_pending:''"

definition NODE_TYPE_BIRTH_CLOSURE_COMPLETE_PREFIX :: string where
  "NODE_TYPE_BIRTH_CLOSURE_COMPLETE_PREFIX = ''birth_closure_complete:''"

record spawn_cosign =
  sc_parent_substrate_id :: arr32
  sc_spore_schema_hash :: arr32
  sc_child_genesis_unix_ns :: i64
  sc_anchor_unix_ns :: i64
  sc_anchor_nonce :: arr32
  sc_depth_override :: bool

definition build_spawn_cosign_canonical_bytes :: "spawn_cosign \<Rightarrow> bytes" where
  "build_spawn_cosign_canonical_bytes sc = event_bytes
     [(''domain'', VString SPAWN_COSIGN_DOMAIN),
      (''parent_substrate_id'', VBytes (arr32_bytes (sc_parent_substrate_id sc))),
      (''spore_schema_hash'', VBytes (arr32_bytes (sc_spore_schema_hash sc))),
      (''child_genesis_timestamp_unix_ns'', VTimestamp (sc_child_genesis_unix_ns sc)),
      (''anchor_timestamp_unix_ns'', VTimestamp (sc_anchor_unix_ns sc)),
      (''anchor_nonce'', VBytes (arr32_bytes (sc_anchor_nonce sc))),
      (''depth_override'', VBool (sc_depth_override sc))]"

definition opt_bool :: "vmap \<Rightarrow> string \<Rightarrow> bool option" where
  "opt_bool m k = (case bt_get m k of Some (VBool b) \<Rightarrow> Some b | _ \<Rightarrow> None)"

definition decode_spawn_cosign :: "bytes \<Rightarrow> (spawn_cosign option, 'e) result" where
  "decode_spawn_cosign = decode_with (\<lambda>m. do {
     domain \<leftarrow> opt_string m ''domain'';
     (if domain = SPAWN_COSIGN_DOMAIN then Some () else None);
     parent \<leftarrow> opt_arr32 m ''parent_substrate_id'';
     schema_hash \<leftarrow> opt_arr32 m ''spore_schema_hash'';
     child_t \<leftarrow> opt_timestamp m ''child_genesis_timestamp_unix_ns'';
     anchor_t \<leftarrow> opt_timestamp m ''anchor_timestamp_unix_ns'';
     nonce \<leftarrow> opt_arr32 m ''anchor_nonce'';
     override \<leftarrow> opt_bool m ''depth_override'';
     Some \<lparr>sc_parent_substrate_id = parent, sc_spore_schema_hash = schema_hash,
       sc_child_genesis_unix_ns = child_t, sc_anchor_unix_ns = anchor_t, sc_anchor_nonce = nonce,
       sc_depth_override = override\<rparr> })"

definition genesis_attested_node_type :: "arr32 \<Rightarrow> string" where
  "genesis_attested_node_type child = NODE_TYPE_GENESIS_ATTESTED_PREFIX @ hex_prefix (arr32_bytes child) 8"

definition birth_closure_pending_node_type :: "arr32 \<Rightarrow> string" where
  "birth_closure_pending_node_type parent =
     NODE_TYPE_BIRTH_CLOSURE_PENDING_PREFIX @ hex_prefix (arr32_bytes parent) 8"

definition birth_closure_complete_node_type :: "arr32 \<Rightarrow> string" where
  "birth_closure_complete_node_type child =
     NODE_TYPE_BIRTH_CLOSURE_COMPLETE_PREFIX @ hex_prefix (arr32_bytes child) 8"

definition encode_genesis_attested_event :: "bytes \<Rightarrow> arr32 \<Rightarrow> arr32 \<Rightarrow> arr32 \<Rightarrow> bool \<Rightarrow> u64 \<Rightarrow> bytes" where
  "encode_genesis_attested_event envelope parent child schema_hash schema_valid cycle = event_bytes
     [(''spawn_cosign_envelope'', VBytes envelope), (''parent_substrate_id'', VBytes (arr32_bytes parent)),
      (''child_substrate_id'', VBytes (arr32_bytes child)), (''spore_schema_hash'', VBytes (arr32_bytes schema_hash)),
      (''child_static_schema_valid'', VBool schema_valid), (''emitted_at_cycle'', VUint cycle)]"

definition decode_genesis_attested_event ::
    "bytes \<Rightarrow> ((bytes \<times> arr32 \<times> arr32 \<times> arr32 \<times> bool \<times> u64) option, 'e) result" where
  "decode_genesis_attested_event = decode_with (\<lambda>m. do {
     envelope \<leftarrow> opt_bytes m ''spawn_cosign_envelope'';
     parent \<leftarrow> opt_arr32 m ''parent_substrate_id'';
     child \<leftarrow> opt_arr32 m ''child_substrate_id'';
     schema_hash \<leftarrow> opt_arr32 m ''spore_schema_hash'';
     schema_valid \<leftarrow> opt_bool m ''child_static_schema_valid'';
     cycle \<leftarrow> opt_uint m ''emitted_at_cycle'';
     Some (envelope, parent, child, schema_hash, schema_valid, cycle) })"

definition encode_birth_closure_pending :: "arr32 \<Rightarrow> arr32 \<Rightarrow> arr32 \<Rightarrow> bytes" where
  "encode_birth_closure_pending parent child schema_hash = event_bytes
     [(''parent_substrate_id'', VBytes (arr32_bytes parent)), (''child_substrate_id'', VBytes (arr32_bytes child)),
      (''spore_schema_hash'', VBytes (arr32_bytes schema_hash))]"

definition encode_birth_closure_complete :: "arr32 \<Rightarrow> bool \<Rightarrow> i64 \<Rightarrow> bytes" where
  "encode_birth_closure_complete child passed t = event_bytes
     [(''child_substrate_id'', VBytes (arr32_bytes child)), (''i3_self_check_passed'', VBool passed),
      (''completed_at_unix_ns'', VTimestamp t)]"

section \<open>Lemmas\<close>

lemma read_hash_value: "map_opt read_hash (map (\<lambda>h. VBytes (arr32_bytes h)) hs) = Some hs"
  using map_opt_map [of hs read_hash "\<lambda>h. VBytes (arr32_bytes h)" "\<lambda>h. h"] by (simp add: field_defs)

lemma decode_encode_spawn_cosign:
  "decode_spawn_cosign (build_spawn_cosign_canonical_bytes sc) = Ok (Some sc)"
proof -
  have "event_ok
     [(''domain'', VString SPAWN_COSIGN_DOMAIN),
      (''parent_substrate_id'', VBytes (arr32_bytes (sc_parent_substrate_id sc))),
      (''spore_schema_hash'', VBytes (arr32_bytes (sc_spore_schema_hash sc))),
      (''child_genesis_timestamp_unix_ns'', VTimestamp (sc_child_genesis_unix_ns sc)),
      (''anchor_timestamp_unix_ns'', VTimestamp (sc_anchor_unix_ns sc)),
      (''anchor_nonce'', VBytes (arr32_bytes (sc_anchor_nonce sc))),
      (''depth_override'', VBool (sc_depth_override sc))]"
    by (rule event_okI) (simp_all add: SPAWN_COSIGN_DOMAIN_def)
  then show ?thesis
    by (simp add: decode_spawn_cosign_def build_spawn_cosign_canonical_bytes_def decode_with_encoded field_defs
        opt_bool_def bt_get_of)
qed

end
