(* ===== verification/Federation_Protocol.thy ===== *)
theory Federation_Protocol
  imports Bridge_Protocol Events_Federation
begin

text \<open>
  The federation's wire protocol, \<^verbatim>\<open>substrate/src/federation/protocol.rs\<close> (keys, versions,
  signed hellos, batches of events, the allowlist of node types) and its frames on a TCP stream,
  \<^verbatim>\<open>transport.rs\<close>, with the state of \<^verbatim>\<open>mod.rs\<close>. A stream is what its reads will meet and what was written to it; SHA-256,
  HMAC-SHA256 and Ed25519 are arguments, and \<open>transient\<close> says of an I/O error that its kind is one
  of the three that mean \<^emph>\<open>nothing yet\<close>.
\<close>

section \<open>Versions and keys\<close>

definition FEDERATION_PROTOCOL_VERSION :: u64 where
  "FEDERATION_PROTOCOL_VERSION = 1"

record version_compatibility =
  vc_our_version :: u64
  vc_peer_version :: u64
  vc_interop_note :: string
  vc_added_at_anchor_cycle :: u64

definition FEDERATION_VERSION_COMPATIBILITY_MATRIX :: "version_compatibility list" where
  "FEDERATION_VERSION_COMPATIBILITY_MATRIX = []"

definition federation_versions_interoperable :: "u64 \<Rightarrow> u64 \<Rightarrow> bool" where
  "federation_versions_interoperable ours theirs \<longleftrightarrow> ours = theirs \<or>
     list_ex (\<lambda>e. vc_our_version e = ours \<and> vc_peer_version e = theirs) FEDERATION_VERSION_COMPATIBILITY_MATRIX"

definition federation_bootstrap_key :: "hash_fn \<Rightarrow> arr32" where
  "federation_bootstrap_key sha = sha (str_bytes ''myco-federation-protocol-v1-bootstrap'')"

definition FED_HELLO :: string where "FED_HELLO = ''fed_hello''"
definition FED_HELLO_ACK :: string where "FED_HELLO_ACK = ''fed_hello_ack''"
definition FED_REQUEST_EVENTS_SINCE :: string where "FED_REQUEST_EVENTS_SINCE = ''fed_request_events_since''"
definition FED_EVENT_BATCH :: string where "FED_EVENT_BATCH = ''fed_event_batch''"
definition FED_ERROR :: string where "FED_ERROR = ''fed_error''"

text \<open>Arrays compare as their bytes do, and an array is the number its bytes spell.\<close>

definition derive_federation_session_key :: "hash_fn \<Rightarrow> arr32 \<Rightarrow> arr32 \<Rightarrow> arr32" where
  "derive_federation_session_key sha a b =
     (let (lo, hi) = (if a \<le> b then (a, b) else (b, a)) in
      sha (str_bytes ''myco-federation-v1:'' @ arr32_bytes lo @ arr32_bytes hi))"

section \<open>Hellos\<close>

definition FED_HELLO_SIGNING_CONTEXT :: string where
  "FED_HELLO_SIGNING_CONTEXT = ''myco-fed-hello-v1''"

text \<open>An optional field, inserted when it is there.\<close>

definition optional :: "string \<Rightarrow> ('a \<Rightarrow> Value) \<Rightarrow> 'a option \<Rightarrow> (string \<times> Value) list" where
  "optional k f x = (case x of Some a \<Rightarrow> [(k, f a)] | None \<Rightarrow> [])"

definition build_fed_hello_signing_message :: "arr32 \<Rightarrow> arr32 option \<Rightarrow> u64 \<Rightarrow> bytes" where
  "build_fed_hello_signing_message peer dag_tip version = event_bytes
     ([(''context'', VString FED_HELLO_SIGNING_CONTEXT), (''peer_substrate_id'', VBytes (arr32_bytes peer))] @
      optional ''dag_tip'' (\<lambda>t. VBytes (arr32_bytes t)) dag_tip @
      [(''protocol_version'', VUint version)])"

definition build_fed_hello_payload :: "arr32 \<Rightarrow> arr32 option \<Rightarrow> arr32 option \<Rightarrow> arr64 option \<Rightarrow> vmap" where
  "build_fed_hello_payload our dag_tip signer sig = bt_of
     ([(''peer_substrate_id'', VBytes (arr32_bytes our))] @
      optional ''dag_tip'' (\<lambda>t. VBytes (arr32_bytes t)) dag_tip @
      [(''protocol_version'', VUint FEDERATION_PROTOCOL_VERSION)] @
      optional ''signer_pubkey'' (\<lambda>k. VBytes (arr32_bytes k)) signer @
      optional ''hello_signature'' (\<lambda>x. VBytes (arr64_bytes x)) sig)"

definition build_fed_hello_ack_payload :: "arr32 \<Rightarrow> arr32 option \<Rightarrow> arr32 option \<Rightarrow> arr64 option \<Rightarrow> vmap" where
  "build_fed_hello_ack_payload our dag_tip signer sig = build_fed_hello_payload our dag_tip signer sig"

record parsed_fed_hello =
  fh_peer_substrate_id :: arr32
  fh_peer_dag_tip :: "arr32 option"
  fh_protocol_version :: u64
  fh_signer_pubkey :: "arr32 option"
  fh_hello_signature :: "arr64 option"

text \<open>A field that may be missing and is \<open>n\<close> bytes when it is there.\<close>

definition sized_field :: "vmap \<Rightarrow> string \<Rightarrow> nat \<Rightarrow> string \<Rightarrow> (bytes option, string) result" where
  "sized_field m k n malformed =
     (case bt_get m k of
        None \<Rightarrow> Ok None
      | Some (VBytes b) \<Rightarrow> if length b = n then Ok (Some b) else Err malformed
      | Some _ \<Rightarrow> Err malformed)"

definition parse_fed_hello_payload :: "vmap \<Rightarrow> (parsed_fed_hello, string) result" where
  "parse_fed_hello_payload m =
     and_then (sized_field m ''peer_substrate_id'' 32 ''peer_substrate_id is not 32 Bytes'') (\<lambda>i.
     and_then (ok_or ''peer_substrate_id missing'' i) (\<lambda>peer.
     and_then (sized_field m ''dag_tip'' 32 ''dag_tip present but not 32 Bytes'') (\<lambda>dag_tip.
     and_then (ok_or ''protocol_version missing or not Uint'' (opt_uint m ''protocol_version'')) (\<lambda>version.
     and_then (sized_field m ''signer_pubkey'' 32 ''signer_pubkey present but not 32 Bytes'') (\<lambda>signer.
     and_then (sized_field m ''hello_signature'' 64 ''hello_signature present but not 64 Bytes'') (\<lambda>sig.
       if (signer = None) \<noteq> (sig = None)
       then Err ''fed_hello: signer_pubkey and hello_signature must both be present or both absent''
       else Ok \<lparr>fh_peer_substrate_id = word_of_be peer, fh_peer_dag_tip = map_option word_of_be dag_tip,
              fh_protocol_version = version, fh_signer_pubkey = map_option word_of_be signer,
              fh_hello_signature = map_option word_of_be sig\<rparr>))))))"

fun crypto_display :: "crypto_error \<Rightarrow> string" where
  "crypto_display HmacEmptyKey = ''HMAC key cannot be empty''"
| "crypto_display HmacInvalid = ''HMAC verification failed''"
| "crypto_display SignatureInvalid = ''signature invalid''"
| "crypto_display (PublicKeyMalformed e) = ''public key malformed: '' @ e"
| "crypto_display (SignatureMalformed e) = ''signature malformed: '' @ e"
| "crypto_display (PrivateKeyMalformed e) = ''private key seed malformed: '' @ e"

text \<open>\<open>check\<close> is \<^verbatim>\<open>verify_signature\<close> on a key, a signature and a message.\<close>

type_synonym check_fn = "arr32 \<Rightarrow> arr64 \<Rightarrow> bytes \<Rightarrow> (unit, crypto_error) result"

definition verify_fed_hello_signature :: "check_fn \<Rightarrow> parsed_fed_hello \<Rightarrow> (bool, string) result" where
  "verify_fed_hello_signature check h =
     (case (fh_signer_pubkey h, fh_hello_signature h) of
        (Some pk, Some sig) \<Rightarrow>
          and_then (map_err (\<lambda>e. ''fed_hello signature verify failed: '' @ crypto_display e)
              (check pk sig (build_fed_hello_signing_message (fh_peer_substrate_id h) (fh_peer_dag_tip h)
                 (fh_protocol_version h))))
            (\<lambda>_. Ok True)
      | (None, None) \<Rightarrow> Ok False
      | _ \<Rightarrow> Err ''hello has only one of signer_pubkey/hello_signature'')"

definition build_fed_error_payload :: "string \<Rightarrow> string \<Rightarrow> vmap" where
  "build_fed_error_payload code what = bt_of [(''code'', VString code), (''message'', VString what)]"

section \<open>Events in transit\<close>

definition FEDERATION_SAFE_PREFIXES :: "string list" where
  "FEDERATION_SAFE_PREFIXES =
     [''raw_material:'', ''sporocarp:'', ''mutation:'', ''immune:'', ''federation_received:'',
      ''population_vote:'', ''population_consensus_reached:'']"

definition is_federation_safe_node_type :: "string \<Rightarrow> bool" where
  "is_federation_safe_node_type ty \<longleftrightarrow> list_ex (\<lambda>p. starts_with ty p) FEDERATION_SAFE_PREFIXES"

record event_for_federation =
  ev_parent_hashes :: "arr32 list"
  ev_node_type :: string
  ev_created_at_cycle :: u64
  ev_content :: bytes

definition FED_EVENT_BATCH_MAX_EVENTS :: u64 where
  "FED_EVENT_BATCH_MAX_EVENTS = 100"

definition FED_EVENT_MAX_CONTENT_BYTES :: nat where
  "FED_EVENT_MAX_CONTENT_BYTES = 256 * 1024"

definition build_request_events_since_payload :: "arr32 option \<Rightarrow> u64 \<Rightarrow> vmap" where
  "build_request_events_since_payload since k = bt_of
     (optional ''since_node_hash'' (\<lambda>h. VBytes (arr32_bytes h)) since @
      [(''max_events'', VUint (min k FED_EVENT_BATCH_MAX_EVENTS))])"

definition parse_request_events_since_payload :: "vmap \<Rightarrow> (arr32 option \<times> u64, string) result" where
  "parse_request_events_since_payload m =
     and_then (sized_field m ''since_node_hash'' 32 ''since_node_hash present but not 32 Bytes'') (\<lambda>since.
       Ok (map_option word_of_be since,
           min (uint_or FED_EVENT_BATCH_MAX_EVENTS m ''max_events'') FED_EVENT_BATCH_MAX_EVENTS))"

definition event_value :: "event_for_federation \<Rightarrow> Value" where
  "event_value e = VMap (bt_of
     [(''parent_hashes'', arr32_array (ev_parent_hashes e)), (''node_type'', VString (ev_node_type e)),
      (''created_at_cycle'', VUint (ev_created_at_cycle e)), (''content_canonical_bytes'', VBytes (ev_content e))])"

definition build_event_batch_payload :: "event_for_federation list \<Rightarrow> bool \<Rightarrow> vmap" where
  "build_event_batch_payload evs is_last =
     bt_of [(''events'', VArray (map event_value evs)), (''is_last_batch'', VBool is_last)]"

fun parse_parent :: "Value \<Rightarrow> (arr32, string) result" where
  "parse_parent (VBytes b) = (if length b = 32 then Ok (word_of_be b) else Err ''parent_hash not 32 Bytes'')"
| "parse_parent _ = Err ''parent_hash not 32 Bytes''"

definition oversized :: "nat \<Rightarrow> string" where
  "oversized n = ''event content_canonical_bytes size '' @ decimal n @ '' exceeds FED_EVENT_MAX_CONTENT_BYTES ('' @
     decimal FED_EVENT_MAX_CONTENT_BYTES @ ''); batch rejected for T1.8 DoS defense''"

fun parse_event :: "Value \<Rightarrow> (event_for_federation, string) result" where
  "parse_event (VMap m) =
     and_then (case bt_get m ''parent_hashes'' of
         Some (VArray vs) \<Rightarrow> traverse parse_parent vs
       | _ \<Rightarrow> Err ''parent_hashes missing'') (\<lambda>parents.
     and_then (case bt_get m ''node_type'' of
         Some (VString s) \<Rightarrow> if s \<noteq> [] then Ok s else Err ''node_type missing or empty''
       | _ \<Rightarrow> Err ''node_type missing or empty'') (\<lambda>ty.
     and_then (ok_or ''created_at_cycle missing'' (opt_uint m ''created_at_cycle'')) (\<lambda>cycle.
     and_then (case bt_get m ''content_canonical_bytes'' of
         Some (VBytes b) \<Rightarrow> if FED_EVENT_MAX_CONTENT_BYTES < length b then Err (oversized (length b)) else Ok b
       | _ \<Rightarrow> Err ''content_canonical_bytes missing'') (\<lambda>c.
       Ok \<lparr>ev_parent_hashes = parents, ev_node_type = ty, ev_created_at_cycle = cycle, ev_content = c\<rparr>))))"
| "parse_event _ = Err ''event entry not Map''"

definition parse_event_batch_payload :: "vmap \<Rightarrow> (event_for_federation list \<times> bool, string) result" where
  "parse_event_batch_payload m =
     and_then (case bt_get m ''events'' of
         Some (VArray vs) \<Rightarrow> Ok vs
       | _ \<Rightarrow> Err ''events missing or not Array'') (\<lambda>vs.
     and_then (traverse parse_event vs) (\<lambda>evs. Ok (evs, bool_or True m ''is_last_batch'')))"

section \<open>Frames on a stream\<close>

record tcp_stream =
  rx :: "read_event list"
  tx :: writer

datatype peer_state = AwaitingHello | Established | Failed

record peer_connection =
  pc_stream :: tcp_stream
  pc_state :: peer_state
  pc_substrate_id :: "arr32 option"
  pc_signer_pubkey :: "arr32 option"
  pc_remote_addr :: string
  pc_opened_at :: i64

text \<open>What the substrate keeps of the federation; the listener's socket is outside.\<close>

record federation_listener =
  fl_bind_addr :: string
  fl_opened_at :: i64

record federation_state =
  fs_listener :: "federation_listener option"
  fs_peers :: "peer_connection list"
  fs_events_received_total :: u64
  fs_events_sent_total :: u64
  fs_accept_legacy_peers :: bool
  fs_bytes_egressed :: u64

definition new_federation_state :: "bool \<Rightarrow> federation_state" where
  "new_federation_state accept_legacy =
     \<lparr>fs_listener = None, fs_peers = [], fs_events_received_total = 0, fs_events_sent_total = 0,
      fs_accept_legacy_peers = accept_legacy, fs_bytes_egressed = 0\<rparr>"

definition write_fed_frame ::
    "mac_fn \<Rightarrow> tcp_stream \<Rightarrow> message \<Rightarrow> arr32 \<Rightarrow> tcp_stream \<times> (nat, bridge_error) result" where
  "write_fed_frame mac st m key =
     (case encode_frame_body mac m (arr32_bytes key) of
        Ok f \<Rightarrow> (case write_frame (tx st) f of (w, r) \<Rightarrow> (st\<lparr>tx := w\<rparr>, and_then r (\<lambda>_. Ok (4 + length f))))
      | Err e \<Rightarrow> (st, Err e)
      | Abort x \<Rightarrow> (st, Abort x))"

definition read_fed_frame ::
    "mac_fn \<Rightarrow> (io_error \<Rightarrow> bool) \<Rightarrow> tcp_stream \<Rightarrow> arr32 \<Rightarrow>
      tcp_stream \<times> (message option, bridge_error) result" where
  "read_fed_frame mac transient st key =
     (case read_frame (rx st) of
        (r, es) \<Rightarrow>
          (st\<lparr>rx := es\<rparr>,
           case r of
             Ok (Some f) \<Rightarrow> and_then (decode_frame_body mac f (arr32_bytes key)) (\<lambda>m. Ok (Some m))
           | Ok None \<Rightarrow> Ok None
           | Err (BrIo e) \<Rightarrow> if transient e then Ok None else Err (BrIo e)
           | Err e \<Rightarrow> Err e
           | Abort x \<Rightarrow> Abort x))"

end
