(* ===== verification/Wall_Clock.thy ===== *)
theory Wall_Clock
  imports Prelude
begin

text \<open>
  The monotonic clock, \<^verbatim>\<open>substrate/src/wall_clock.rs\<close>: three process-wide atomics, and callers
  that race on them with load, fetch-and-add and compare-and-exchange. Each atomic access is one
  step, and the callers' steps interleave freely.
\<close>

section \<open>The shared state and a caller's position\<close>

record clock =
  last_observed :: i64
  skew_count :: u64
  largest_jump :: i64

definition clock_new :: clock where
  "clock_new = \<lparr>last_observed = 0, skew_count = 0, largest_jump = 0\<rparr>"

definition SKEW_THRESHOLD_NS :: i64 where
  "SKEW_THRESHOLD_NS = 1000000"

definition is_skew :: "i64 \<Rightarrow> i64 \<Rightarrow> bool" where
  "is_skew observed prev \<longleftrightarrow>
     0 < sint prev \<and> sint observed < sint (ssat_sub prev SKEW_THRESHOLD_NS)"

definition next_stamp :: "i64 \<Rightarrow> i64 \<Rightarrow> i64" where
  "next_stamp observed prev = (if sint prev < sint observed then observed else ssat_add prev 1)"

text \<open>
  Where a caller of \<^verbatim>\<open>monotonic_unix_ns\<close> stands: outside, about to load the last value, about to
  count a skew, about to load or to exchange the largest jump, about to exchange the last value.
\<close>

datatype pc =
    Idle
  | Loading i64
  | Counting i64 i64
  | JumpLoading i64 i64
  | JumpSwapping i64 i64 i64
  | Swapping i64 i64

definition after_load :: "i64 \<Rightarrow> i64 \<Rightarrow> pc" where
  "after_load observed prev = (if is_skew observed prev then Counting observed prev else Swapping observed prev)"

definition jump_of :: "i64 \<Rightarrow> i64 \<Rightarrow> i64" where
  "jump_of observed prev = ssat_sub prev observed"

text \<open>The loop guard \<^verbatim>\<open>jump > prior_max\<close>.\<close>

definition after_jump_load :: "i64 \<Rightarrow> i64 \<Rightarrow> i64 \<Rightarrow> pc" where
  "after_jump_load observed prev prior_max =
     (if sint prior_max < sint (jump_of observed prev) then JumpSwapping observed prev prior_max
      else Swapping observed prev)"

section \<open>Steps\<close>

text \<open>
  What a caller's step does to the shared state and to its position, and the value it returns. A
  \<^verbatim>\<open>compare_exchange_weak\<close> may also fail when the value is the expected one. The system clock
  is read by the first step, and nothing is assumed of it.
\<close>

inductive call_step :: "clock \<Rightarrow> pc \<Rightarrow> i64 option \<Rightarrow> clock \<Rightarrow> pc \<Rightarrow> bool" where
  read_system_time: "call_step c Idle None c (Loading observed)"
| load: "call_step c (Loading observed) None c (after_load observed (last_observed c))"
| count: "call_step c (Counting observed prev) None (c\<lparr>skew_count := skew_count c + 1\<rparr>)
    (JumpLoading observed prev)"
| load_jump: "call_step c (JumpLoading observed prev) None c
    (after_jump_load observed prev (largest_jump c))"
| swap_jump: "largest_jump c = prior \<Longrightarrow>
    call_step c (JumpSwapping observed prev prior) None (c\<lparr>largest_jump := jump_of observed prev\<rparr>)
      (Swapping observed prev)"
| retry_jump: "call_step c (JumpSwapping observed prev prior) None c
    (after_jump_load observed prev (largest_jump c))"
| swap: "last_observed c = prev \<Longrightarrow>
    call_step c (Swapping observed prev) (Some (next_stamp observed prev))
      (c\<lparr>last_observed := next_stamp observed prev\<rparr>) Idle"
| retry: "call_step c (Swapping observed prev) None c (Loading observed)"

text \<open>\<^verbatim>\<open>take_skew_observation\<close>, whose two exchanges are separate steps.\<close>

record skew_observation =
  detection_count_since_last_take :: u64
  largest_backward_jump_ns :: i64

definition take_skew_observation :: "clock \<Rightarrow> clock \<times> skew_observation" where
  "take_skew_observation c =
     (c\<lparr>skew_count := 0, largest_jump := 0\<rparr>,
      \<lparr>detection_count_since_last_take = skew_count c, largest_backward_jump_ns = largest_jump c\<rparr>)"

text \<open>
  The process: the atomics, each caller's position and the values returned so far, oldest first.
\<close>

record process =
  shared :: clock
  position :: "nat \<Rightarrow> pc"
  returned :: "i64 list"

definition process_new :: process where
  "process_new = \<lparr>shared = clock_new, position = (\<lambda>_. Idle), returned = []\<rparr>"

definition record_return :: "i64 option \<Rightarrow> i64 list \<Rightarrow> i64 list" where
  "record_return r vs = (case r of Some v \<Rightarrow> vs @ [v] | None \<Rightarrow> vs)"

inductive process_step :: "process \<Rightarrow> process \<Rightarrow> bool" where
  call: "call_step (shared p) (position p t) r c q \<Longrightarrow>
    process_step p
      (p\<lparr>shared := c, position := (position p)(t := q), returned := record_return r (returned p)\<rparr>)"
| reset_count: "process_step p (p\<lparr>shared := (shared p)\<lparr>skew_count := 0\<rparr>\<rparr>)"
| reset_jump: "process_step p (p\<lparr>shared := (shared p)\<lparr>largest_jump := 0\<rparr>\<rparr>)"

inductive process_run :: "process \<Rightarrow> process \<Rightarrow> bool" where
  refl: "process_run p p"
| snoc: "process_run p q \<Longrightarrow> process_step q r \<Longrightarrow> process_run p r"

inductive_cases call_step_cases: "call_step c q r c' q'"

text \<open>One call that no other caller disturbs.\<close>

definition monotonic_unix_ns :: "i64 \<Rightarrow> clock \<Rightarrow> i64 \<times> clock" where
  "monotonic_unix_ns observed c =
     (let prev = last_observed c;
          c1 = (if is_skew observed prev
                then c\<lparr>skew_count := skew_count c + 1,
                       largest_jump := (if sint (largest_jump c) < sint (jump_of observed prev)
                                        then jump_of observed prev else largest_jump c)\<rparr>
                else c);
          new = next_stamp observed prev
      in (new, c1\<lparr>last_observed := new\<rparr>))"

section \<open>Invariants\<close>

text \<open>
  The last value is the newest one returned; the values grow, but for repetitions of the largest
  timestamp an \<^verbatim>\<open>i64\<close> holds.
\<close>

definition grows :: "i64 \<Rightarrow> i64 \<Rightarrow> bool" where
  "grows a b \<longleftrightarrow> sint a < sint b \<or> sint a = 2 ^ 63 - 1 \<and> b = a"

definition clock_inv :: "process \<Rightarrow> bool" where
  "clock_inv p \<longleftrightarrow> sorted_wrt grows (0 # returned p) \<and> last_observed (shared p) = last (0 # returned p)"

lemma grows_next_stamp: "grows prev (next_stamp observed prev)"
proof (cases "sint prev < sint observed")
  case False
  then have stamp: "sint (next_stamp observed prev) = min (2 ^ 63 - 1) (sint prev + 1)"
    using sint_i64_bounds [of prev] by (simp add: next_stamp_def ssat_add_def sint_i64_clamp)
  show ?thesis
  proof (cases "sint prev = 2 ^ 63 - 1")
    case True
    then have "sint (next_stamp observed prev) = sint prev"
      using stamp by simp
    then have "next_stamp observed prev = prev"
      by (rule signed_word_eqI)
    with True show ?thesis
      by (simp add: grows_def)
  next
    case False
    then show ?thesis
      using stamp sint_i64_bounds [of prev] by (simp add: grows_def)
  qed
qed (simp add: next_stamp_def grows_def)

lemma grows_trans: "grows a b \<Longrightarrow> grows b c \<Longrightarrow> grows a c"
  by (auto simp: grows_def)

lemma sorted_wrt_snoc:
  assumes "sorted_wrt grows xs" and "xs \<noteq> []" and "grows (last xs) y"
  shows "sorted_wrt grows (xs @ [y])"
proof -
  obtain ys z where "xs = ys @ [z]"
    using assms(2) by (cases xs rule: rev_cases) auto
  then show ?thesis
    using assms(1,3) by (auto simp: sorted_wrt_append intro: grows_trans)
qed

lemma call_step_last:
  assumes "call_step c q r c' q'"
  shows "(r = None \<and> last_observed c' = last_observed c) \<or>
    (\<exists>v. r = Some v \<and> last_observed c' = v \<and> grows (last_observed c) v)"
  using assms by (cases rule: call_step_cases) (auto simp: grows_next_stamp)

lemma clock_inv_step:
  assumes inv: "clock_inv p" and step: "process_step p q"
  shows "clock_inv q"
  using step
proof (cases rule: process_step.cases)
  case (call t r c pos)
  from call_step_last [OF call(2)]
  consider "r = None" "last_observed c = last_observed (shared p)"
    | v where "r = Some v" "last_observed c = v" "grows (last_observed (shared p)) v"
    by blast
  then show ?thesis
  proof cases
    case 2
    then show ?thesis
      using call inv sorted_wrt_snoc [of "0 # returned p" v]
      by (simp add: clock_inv_def record_return_def)
  qed (use call inv in \<open>simp add: clock_inv_def record_return_def\<close>)
qed (use inv in \<open>simp_all add: clock_inv_def\<close>)

lemma clock_inv_run: "process_run p q \<Longrightarrow> clock_inv p \<Longrightarrow> clock_inv q"
  by (induction rule: process_run.induct) (auto intro: clock_inv_step)

lemma clock_inv_new: "clock_inv process_new"
  by (simp add: clock_inv_def process_new_def clock_new_def)

text \<open>The shared value moves only when some call returns.\<close>

lemma run_returns:
  "process_run p q \<Longrightarrow> \<exists>vs. returned q = returned p @ vs \<and>
    (vs = [] \<longrightarrow> last_observed (shared q) = last_observed (shared p))"
proof (induction rule: process_run.induct)
  case (snoc p q r)
  from snoc(2) show ?case
  proof (cases rule: process_step.cases)
    case (call t v c q')
    then show ?thesis
      using snoc.IH call_step_last [OF call(2)] by (auto simp: record_return_def)
  qed (use snoc.IH in auto)
qed simp

lemma failed_exchange_means_progress:
  "process_run p q \<Longrightarrow> last_observed (shared q) \<noteq> last_observed (shared p) \<Longrightarrow>
    \<exists>v vs. returned q = returned p @ v # vs"
  using run_returns by (fastforce simp: neq_Nil_conv)

text \<open>A call that nothing disturbs is the function \<open>monotonic_unix_ns\<close>.\<close>

definition at :: "process \<Rightarrow> nat \<Rightarrow> clock \<Rightarrow> pc \<Rightarrow> process" where
  "at p t c q = p\<lparr>shared := c, position := (position p)(t := q)\<rparr>"

lemma run_at:
  "process_run p (at p t c q) \<Longrightarrow> call_step c q None c' q' \<Longrightarrow> process_run p (at p t c' q')"
  using process_step.call [of "at p t c q" t None c' q'] process_run.snoc
  by (fastforce simp: at_def record_return_def)

lemma at_start: "position p t = Idle \<Longrightarrow> process_run p (at p t (shared p) Idle)"
  using process_run.refl [of p] by (simp add: at_def fun_upd_idem)

lemma run_to_swap:
  assumes "process_run p (at p t c (Swapping observed prev))" and "last_observed c = prev"
  shows "process_run p (at p t (c\<lparr>last_observed := next_stamp observed prev\<rparr>) Idle
    \<lparr>returned := returned p @ [next_stamp observed prev]\<rparr>)"
  using process_run.snoc [OF assms(1) process_step.call [of "at p t c (Swapping observed prev)" t],
      of "Some (next_stamp observed prev)"] swap [OF assms(2)]
  by (simp add: at_def record_return_def)

section \<open>Properties\<close>

text \<open>
  C30. However the callers interleave and whatever the system clock reads, the timestamps returned
  from a fresh process are positive and strictly increasing in the order of the exchanges that
  produce them, except that the largest timestamp an i64 holds is returned again once it has been
  reached.
\<close>

theorem timestamps_increase:
  assumes "process_run process_new p"
  shows "sorted_wrt (\<lambda>a b. sint a < sint b \<or> sint a = 2 ^ 63 - 1 \<and> b = a) (0 # returned p)"
  using clock_inv_run [OF assms clock_inv_new] by (simp add: clock_inv_def grows_def [abs_def])

text \<open>A call at time 5, then one for which the clock reads 3.\<close>

lemma timestamps_increase_witness:
  "\<exists>p. process_run process_new p \<and> returned p = [5, 6] \<and>
    sorted_wrt (\<lambda>a b. sint a < sint b \<or> sint a = 2 ^ 63 - 1 \<and> b = a) (0 # returned p)"
proof -
  let ?p = "\<lambda>l vs q. \<lparr>shared = clock_new\<lparr>last_observed := l\<rparr>, position = (\<lambda>_. Idle)(0 := q), returned = vs\<rparr>"
  have step: "process_run process_new (?p l vs q) \<Longrightarrow> call_step (clock_new\<lparr>last_observed := l\<rparr>) q r
      (clock_new\<lparr>last_observed := l'\<rparr>) q' \<Longrightarrow> process_run process_new (?p l' (record_return r vs) q')"
    for l l' vs q r q'
    using process_step.call [of "?p l vs q" 0 r] process_run.snoc by fastforce
  have "process_run process_new (?p 0 [] Idle)"
    using process_run.refl [of process_new] by (simp add: process_new_def clock_new_def fun_upd_idem)
  from step [OF this read_system_time [of _ 5]]
  have "process_run process_new (?p 0 [] (Loading 5))"
    by (simp add: record_return_def)
  from step [OF this load]
  have "process_run process_new (?p 0 [] (Swapping 5 0))"
    by (simp add: record_return_def after_load_def is_skew_def)
  from step [OF this swap [of "clock_new\<lparr>last_observed := 0\<rparr>" 0 5, simplified]]
  have "process_run process_new (?p 5 [5] Idle)"
    by (simp add: record_return_def next_stamp_def)
  from step [OF this read_system_time [of _ 3]]
  have "process_run process_new (?p 5 [5] (Loading 3))"
    by (simp add: record_return_def)
  from step [OF this load]
  have "process_run process_new (?p 5 [5] (Swapping 3 5))"
    by (simp add: record_return_def after_load_def is_skew_def SKEW_THRESHOLD_NS_def ssat_sub_def
        i64_clamp_def)
  from step [OF this swap [of "clock_new\<lparr>last_observed := 5\<rparr>" 5 3, simplified]]
  have "process_run process_new (?p 6 [5, 6] Idle)"
    by (simp add: record_return_def next_stamp_def ssat_add_def i64_clamp_def)
  from timestamps_increase [OF this] this show ?thesis
    by (intro exI [of _ "?p 6 [5, 6] Idle"]) simp
qed

text \<open>
  A call to the clock that no other caller disturbs is the function monotonic_unix_ns: its
  steps run to a return, with that function's value and effect on the atomics.
\<close>

lemma undisturbed_call:
  assumes "position p t = Idle" and "monotonic_unix_ns observed (shared p) = (v, c)"
  shows "process_run p (p\<lparr>shared := c, returned := returned p @ [v]\<rparr>)"
proof -
  let ?c = "shared p" and ?prev = "last_observed (shared p)"
  have loaded: "process_run p (at p t ?c (after_load observed ?prev))"
    using run_at [OF run_at [OF at_start [OF assms(1)] read_system_time] load] .
  have outside: "at p t c Idle\<lparr>returned := vs\<rparr> = p\<lparr>shared := c, returned := vs\<rparr>" for c vs
    using assms(1) by (simp add: at_def fun_upd_idem)
  show ?thesis
  proof (cases "is_skew observed ?prev")
    case False
    then show ?thesis
      using run_to_swap loaded assms(2)
      by (fastforce simp: after_load_def monotonic_unix_ns_def Let_def outside)
  next
    case True
    let ?c1 = "?c\<lparr>skew_count := skew_count ?c + 1\<rparr>"
    have read: "process_run p (at p t ?c1 (after_jump_load observed ?prev (largest_jump ?c)))"
      using run_at [OF run_at [OF loaded [unfolded after_load_def if_P [OF True]] count] load_jump] by simp
    show ?thesis
    proof (cases "sint (largest_jump ?c) < sint (jump_of observed ?prev)")
      case less: True
      have "process_run p (at p t (?c1\<lparr>largest_jump := jump_of observed ?prev\<rparr>) (Swapping observed ?prev))"
        using run_at [OF read [unfolded after_jump_load_def if_P [OF less]] swap_jump] by simp
      from run_to_swap [OF this] show ?thesis
        using True less assms(2) by (auto simp: monotonic_unix_ns_def Let_def outside)
    next
      case not_less: False
      from run_to_swap [OF read [unfolded after_jump_load_def if_not_P [OF not_less]]] show ?thesis
        using True not_less assms(2) by (auto simp: monotonic_unix_ns_def Let_def outside)
    qed
  qed
qed

end
