(* ===== verification/Server_State.thy ===== *)
theory Server_State
  imports Events_Attested Federation_Protocol Wall_Clock Cycle Migration
begin

text \<open>
  The substrate's state and the two ways its log grows, \<^verbatim>\<open>substrate/src/server/mod.rs\<close>: the
  fields of \<^verbatim>\<open>ServerState\<close> that the modelled handlers use, \<^verbatim>\<open>emit_substrate_event\<close> with the
  cultivation state it keeps memoized, and \<^verbatim>\<open>emit_immune_sporocarp\<close> with its rate limit.
  The cultivation state itself is derived from the log (\<^verbatim>\<open>cultivation.rs\<close>).
\<close>

section \<open>Cultivation state\<close>

datatype cultivation_state =
    CultNormal
  | CultLegacy
  | CultOrphaned
  | CultArchived
  | CultRecovered

fun cultivation_label :: "cultivation_state \<Rightarrow> string" where
  "cultivation_label CultNormal = ''alive::normal''"
| "cultivation_label CultLegacy = ''alive::legacy''"
| "cultivation_label CultOrphaned = ''alive::orphaned''"
| "cultivation_label CultArchived = ''alive::archived''"
| "cultivation_label CultRecovered = ''alive::normal(recovered)''"

text \<open>
  The walk keeps the current state and whether the archive seal has been seen. The first argument
  is the node's type.
\<close>

definition cultivation_step ::
    "string \<Rightarrow> cultivation_state \<times> bool \<Rightarrow> cultivation_state \<times> bool" where
  "cultivation_step nt cur =
     (if starts_with nt NODE_TYPE_BET_RETIRED_PREFIX then (CultArchived, True)
      else if snd cur then cur
      else if starts_with nt NODE_TYPE_CULTIVATION_RECOVERED_PREFIX then (CultRecovered, snd cur)
      else if starts_with nt NODE_TYPE_CULTIVATION_ORPHANED_PREFIX then (CultOrphaned, snd cur)
      else if starts_with nt NODE_TYPE_SUCCESSION_COMPLETED_PREFIX then (CultNormal, snd cur)
      else cur)"

definition current_cultivation_state :: "dag \<Rightarrow> cultivation_state" where
  "current_cultivation_state d =
     fst (fold (\<lambda>n. cultivation_step (node_type n)) (iter_in_insertion_order d) (CultNormal, False))"

definition is_cultivation_family_node_type :: "string \<Rightarrow> bool" where
  "is_cultivation_family_node_type nt \<longleftrightarrow>
     starts_with nt NODE_TYPE_BET_RETIRED_PREFIX \<or>
     starts_with nt NODE_TYPE_CULTIVATION_RECOVERED_PREFIX \<or>
     starts_with nt NODE_TYPE_CULTIVATION_ORPHANED_PREFIX \<or>
     starts_with nt NODE_TYPE_SUCCESSION_COMPLETED_PREFIX"

section \<open>The state\<close>

datatype substrate_error =
    SubBridge bridge_error
  | SubProtocol string
  | SubIo string
  | SubHandshake string

text \<open>
  The revoked peers are a set, here the list of its elements. The last immune emission of a detector is its time, its node and the count
  of the emissions suppressed since. The weights of the owner's objective are kept as the texts that
  render them.
\<close>

record server_state =
  ss_substrate_id :: "arr32 option"
  ss_cycle_counter :: u64
  ss_dag :: dag
  ss_federation :: federation_state
  ss_revoked_peers :: "arr32 list"
  ss_signing_seed :: arr32
  ss_cultivation_state :: cultivation_state
  ss_successor_chain :: "derived_successor_entry list"
  ss_immune_emissions :: "string \<Rightarrow> (i64 \<times> arr32 \<times> u64) option"
  ss_clock :: clock
  ss_genesis_time :: "i64 option"
  ss_generation_depth :: u64
  ss_last_absorbed_cycle :: "u64 option"
  ss_handshake_complete :: bool
  ss_cycle_engine :: cycle_engine
  ss_observatory_history :: "observatory_snapshot list"
  ss_cost_budgets :: cost_budgets
  ss_saturation_stage :: saturation_stage
  ss_post_eligibility_cycles :: u64
  ss_saturated_cycles :: u64
  ss_exhausted_cycles :: u64
  ss_last_saturation_proposal :: "u64 option"
  ss_last_budget_exhausted :: "(string \<times> u64) list"
  ss_last_ingestion_request :: "u64 option"
  ss_last_starvation :: "u64 option"
  ss_last_hoarding :: "u64 option"
  ss_last_sycophancy :: "u64 option"
  ss_migration_candidate :: "candidate_state option"
  ss_last_window_exceeded :: "u64 option"
  ss_axis_register_count :: u64
  ss_pending_noop_cycles :: u64
  ss_worker_death_logged :: bool
  ss_backup_encryption_status :: "string option"
  ss_owner_objective :: "string owner_objective option"
  ss_session_secret :: arr32

definition substrate_id :: "server_state \<Rightarrow> arr32" where
  "substrate_id s = (case ss_substrate_id s of Some i \<Rightarrow> i | None \<Rightarrow> 0)"

text \<open>
  What the handlers take from outside: BLAKE3, the two Ed25519 operations on a seed and the check
  of a signature.
\<close>

record platform =
  pf_hash :: hash_fn
  pf_public_key :: "arr32 \<Rightarrow> arr32"
  pf_sign :: "arr32 \<Rightarrow> bytes \<Rightarrow> arr64"
  pf_verify :: verify_fn

definition substrate_signing_pubkey :: "platform \<Rightarrow> server_state \<Rightarrow> arr32" where
  "substrate_signing_pubkey pf s = pf_public_key pf (ss_signing_seed s)"

text \<open>An action on the state that may fail, keeping what it had changed by then.\<close>

type_synonym 'a action = "server_state \<Rightarrow> server_state \<times> ('a, substrate_error) result"

definition return_act :: "'a \<Rightarrow> 'a action" where
  "return_act a s = (s, Ok a)"

definition lift_act :: "('a, substrate_error) result \<Rightarrow> 'a action" where
  "lift_act r s = (s, r)"

definition bind_act :: "'a action \<Rightarrow> ('a \<Rightarrow> 'b action) \<Rightarrow> 'b action" where
  "bind_act m f s =
     (case m s of
        (s1, Ok a) \<Rightarrow> f a s1
      | (s1, Err e) \<Rightarrow> (s1, Err e)
      | (s1, Abort x) \<Rightarrow> (s1, Abort x))"

text \<open>\<^verbatim>\<open>let _ = ...\<close>: the result is dropped, a panic is not.\<close>

definition ignore_act :: "'a action \<Rightarrow> unit action" where
  "ignore_act m s = (case m s of (s1, Abort x) \<Rightarrow> (s1, Abort x) | (s1, _) \<Rightarrow> (s1, Ok ()))"

section \<open>Messages of the DAG's errors\<close>

text \<open>The derived \<^verbatim>\<open>Debug\<close> of a hash lists its bytes in decimal.\<close>

primrec comma_separated :: "string list \<Rightarrow> string" where
  "comma_separated [] = []"
| "comma_separated (x # xs) = (if xs = [] then x else x @ '', '' @ comma_separated xs)"

definition node_hash_debug :: "arr32 \<Rightarrow> string" where
  "node_hash_debug h =
     ''NodeHash(['' @ comma_separated (map (\<lambda>b. decimal (unat b)) (arr32_bytes h)) @ ''])''"

fun dag_display :: "dag_error \<Rightarrow> string" where
  "dag_display (ParentNotFound h) = ''parent not found in DAG: '' @ node_hash_debug h"
| "dag_display (HashCollision h) = ''hash collision: '' @ node_hash_debug h"
| "dag_display (UnknownPrevTip h) = ''prev_tip not in DAG: '' @ node_hash_debug h"
| "dag_display (NodeNotFound h) = ''node not found in DAG: '' @ node_hash_debug h"
| "dag_display (RetroEditDetected stored recomputed) =
     ''dag_retro_edit_detected: stored hash '' @ node_hash_debug stored @ '' != recomputed '' @
     node_hash_debug recomputed"
| "dag_display EmptyNodeType = ''node_type cannot be empty''"
| "dag_display (PersistenceMalformed m) = ''dag persistence malformed: '' @ m"

section \<open>Growing the log\<close>

definition tip_parents :: "dag \<Rightarrow> arr32 list" where
  "tip_parents d = (case tip d of Some t \<Rightarrow> [t] | None \<Rightarrow> [])"

definition emit_substrate_event :: "platform \<Rightarrow> string \<Rightarrow> bytes \<Rightarrow> arr32 action" where
  "emit_substrate_event pf ty c s =
     (case insert_node (pf_hash pf) (tip_parents (ss_dag s)) ty (ss_cycle_counter s) c (ss_dag s) of
        (d, Ok h) \<Rightarrow>
          (if is_cultivation_family_node_type ty
           then s\<lparr>ss_dag := d, ss_cultivation_state := current_cultivation_state d\<rparr>
           else s\<lparr>ss_dag := d\<rparr>, Ok h)
      | (d, Err e) \<Rightarrow> (s\<lparr>ss_dag := d\<rparr>, Err (SubProtocol (''substrate event DAG insert: '' @ dag_display e)))
      | (d, Abort x) \<Rightarrow> (s\<lparr>ss_dag := d\<rparr>, Abort x))"

definition IMMUNE_EMISSION_RATE_LIMIT_NS :: i64 where
  "IMMUNE_EMISSION_RATE_LIMIT_NS = 1000000000"

definition immune_bytes :: "string \<Rightarrow> string \<Rightarrow> string \<Rightarrow> i64 \<Rightarrow> u64 \<Rightarrow> bytes" where
  "immune_bytes detector_id detector_name evidence t suppressed_since = event_bytes
     ([(''detector_id'', VString detector_id), (''detector_name'', VString detector_name),
       (''evidence'', VString evidence), (''timestamp_unix_ns'', VTimestamp t)] @
      (if 0 < suppressed_since then [(''suppressed_since_last_emission'', VUint suppressed_since)] else []))"

text \<open>\<open>observed\<close> is what the system clock reads.\<close>

definition emit_immune_sporocarp ::
    "platform \<Rightarrow> i64 \<Rightarrow> string \<Rightarrow> string \<Rightarrow> string \<Rightarrow> arr32 action" where
  "emit_immune_sporocarp pf observed detector_id detector_name evidence s0 =
     (let (t, c) = monotonic_unix_ns observed (ss_clock s0);
          s = s0\<lparr>ss_clock := c\<rparr>;
          emit = (\<lambda>suppressed_since.
            case insert_node (pf_hash pf) (tip_parents (ss_dag s)) (''immune:'' @ detector_id)
                (ss_cycle_counter s) (immune_bytes detector_id detector_name evidence t suppressed_since)
                (ss_dag s) of
              (d, Ok h) \<Rightarrow>
                (s\<lparr>ss_dag := d,
                   ss_immune_emissions := (ss_immune_emissions s)(detector_id \<mapsto> (t, h, 0))\<rparr>, Ok h)
            | (d, Err e) \<Rightarrow> (s\<lparr>ss_dag := d\<rparr>, Err (SubProtocol (''immune DAG insert: '' @ dag_display e)))
            | (d, Abort x) \<Rightarrow> (s\<lparr>ss_dag := d\<rparr>, Abort x))
      in case ss_immune_emissions s detector_id of
           Some (prior_ts, prior_hash, prior_supp) \<Rightarrow>
             if sint (ssat_sub t prior_ts) < sint IMMUNE_EMISSION_RATE_LIMIT_NS
             then (s\<lparr>ss_immune_emissions := (ss_immune_emissions s)(detector_id \<mapsto>
                       (prior_ts, prior_hash, sat_add prior_supp 1))\<rparr>, Ok prior_hash)
             else emit prior_supp
         | None \<Rightarrow> emit 0)"

definition hex_first_8_bytes :: "arr32 \<Rightarrow> string" where
  "hex_first_8_bytes h = concat (map hex_byte (take 8 (arr32_bytes h)))"

section \<open>What an emission does\<close>

text \<open>
  A node whose only parent is the tip is new, because the tip has no child yet: the log grows by
  one node, or an error leaves it as it was.
\<close>

definition logged_node :: "hash_fn \<Rightarrow> dag \<Rightarrow> string \<Rightarrow> u64 \<Rightarrow> bytes \<Rightarrow> dag_node" where
  "logged_node H d ty cyc c =
     \<lparr>node_hash = merkle_hash H (tip_parents d) c, parent_hashes = tip_parents d, node_type = ty,
      created_at_cycle = cyc, content = c\<rparr>"

lemma tip_parents_fresh:
  assumes inv: "dag_inv H d" and n: "dag_get d h = Some n" and ps: "set (tip_parents d) \<subseteq> set ps"
  shows "parent_hashes n \<noteq> ps"
proof (cases "tip d")
  case None
  then show ?thesis
    using inv n by (auto simp: dag_inv_def dag_get_def split: if_splits)
next
  case (Some t)
  then show ?thesis
    using tip_has_no_child [OF inv n] ps by (auto simp: tip_parents_def)
qed

definition node_over :: "hash_fn \<Rightarrow> arr32 list \<Rightarrow> string \<Rightarrow> u64 \<Rightarrow> bytes \<Rightarrow> dag_node" where
  "node_over H ps ty cyc c =
     \<lparr>node_hash = merkle_hash H ps c, parent_hashes = ps, node_type = ty, created_at_cycle = cyc, content = c\<rparr>"

lemma insert_over_tip:
  assumes inv: "dag_inv H d" and ps: "set (tip_parents d) \<subseteq> set ps"
  obtains (failed) e where "insert_node H ps ty cyc c d = (d, Err e)"
  | (logged) d' where
      "insert_node H ps ty cyc c d = (d', Ok (node_hash (node_over H ps ty cyc c)))"
      "dag_inv H d'"
      "iter_in_insertion_order d' = iter_in_insertion_order d @ [node_over H ps ty cyc c]"
      "tip d' = Some (node_hash (node_over H ps ty cyc c))"
      "dag_get d (node_hash (node_over H ps ty cyc c)) = None" "set ps \<subseteq> fst ` set (nodes d)"
proof (cases rule: insert_node_cases [of ty H ps cyc c d])
  case (present n)
  then show ?thesis
    using tip_parents_fresh [OF inv present(3) ps] failed by simp
next
  case fresh
  let ?d = "fst (insert_node H ps ty cyc c d)"
  have inv': "dag_inv H ?d"
    by (rule dag_inv_insert [OF inv])
  then have "iter_in_insertion_order ?d = iter_in_insertion_order d @ [node_over H ps ty cyc c]"
    using iter_nodes [OF inv'] iter_nodes [OF inv] fresh by (simp add: node_over_def)
  then show ?thesis
    using fresh inv' by (intro logged [of ?d]) (simp_all add: node_over_def check_parents_Ok_iff)
qed (use failed in auto)

lemma insert_at_tip:
  assumes inv: "dag_inv H d"
  obtains (failed) e where "insert_node H (tip_parents d) ty cyc c d = (d, Err e)"
  | (logged) d' where
      "insert_node H (tip_parents d) ty cyc c d = (d', Ok (node_hash (logged_node H d ty cyc c)))"
      "dag_inv H d'"
      "iter_in_insertion_order d' = iter_in_insertion_order d @ [logged_node H d ty cyc c]"
      "tip d' = Some (node_hash (logged_node H d ty cyc c))"
proof -
  have node: "node_over H (tip_parents d) ty cyc c = logged_node H d ty cyc c"
    by (simp add: node_over_def logged_node_def)
  show thesis
    using inv order.refl that by (cases rule: insert_over_tip [where ty = ty and cyc = cyc and c = c]) (simp_all add: node)
qed

text \<open>The log is well formed, and the memoized cultivation state is the derived one.\<close>

definition server_inv :: "platform \<Rightarrow> server_state \<Rightarrow> bool" where
  "server_inv pf s \<longleftrightarrow> dag_inv (pf_hash pf) (ss_dag s) \<and>
     ss_cultivation_state s = current_cultivation_state (ss_dag s)"

lemma cultivation_step_other:
  "\<not> is_cultivation_family_node_type nt \<Longrightarrow> cultivation_step nt cur = cur"
  by (simp add: is_cultivation_family_node_type_def cultivation_step_def)

lemma cultivation_state_append:
  "iter_in_insertion_order d' = iter_in_insertion_order d @ [n] \<Longrightarrow>
    \<not> is_cultivation_family_node_type (node_type n) \<Longrightarrow>
    current_cultivation_state d' = current_cultivation_state d"
  by (simp add: current_cultivation_state_def cultivation_step_other)

text \<open>What an action leaves unchanged besides the log, the memo, the clock and the immune record.\<close>

definition same_identity :: "server_state \<Rightarrow> server_state \<Rightarrow> bool" where
  "same_identity s s' \<longleftrightarrow>
     ss_substrate_id s' = ss_substrate_id s \<and> ss_cycle_counter s' = ss_cycle_counter s \<and>
     ss_federation s' = ss_federation s \<and> ss_revoked_peers s' = ss_revoked_peers s \<and>
     ss_signing_seed s' = ss_signing_seed s"

lemma emit_cases:
  assumes "server_inv pf s"
  obtains (failed) e where "emit_substrate_event pf ty c s = (s, Err e)"
  | (logged) s' where
      "emit_substrate_event pf ty c s =
        (s', Ok (node_hash (logged_node (pf_hash pf) (ss_dag s) ty (ss_cycle_counter s) c)))"
      "server_inv pf s'" "same_identity s s'" "ss_successor_chain s' = ss_successor_chain s"
      "iter_in_insertion_order (ss_dag s') = iter_in_insertion_order (ss_dag s) @
        [logged_node (pf_hash pf) (ss_dag s) ty (ss_cycle_counter s) c]"
proof -
  have inv: "dag_inv (pf_hash pf) (ss_dag s)"
    using assms by (simp add: server_inv_def)
  show thesis
    using inv
  proof (cases rule: insert_at_tip [where ty = ty and cyc = "ss_cycle_counter s" and c = c])
    case (failed e)
    then show ?thesis
      using that(1) by (simp add: emit_substrate_event_def)
  next
    case (logged d)
    have "\<not> is_cultivation_family_node_type ty \<Longrightarrow>
        current_cultivation_state d = current_cultivation_state (ss_dag s)"
      by (rule cultivation_state_append [OF logged(3)]) (simp add: logged_node_def)
    then show ?thesis
      using logged assms
      by (intro that(2) [of "fst (emit_substrate_event pf ty c s)"])
        (simp_all add: emit_substrate_event_def server_inv_def same_identity_def)
  qed
qed

text \<open>
  The comment on the walk names a rule from \<^verbatim>\<open>cultivator_heartbeat_stale\<close> to the legacy
  state; no branch of the code takes it, so no log is in the legacy state.
\<close>

lemma cultivation_never_legacy: "current_cultivation_state d \<noteq> CultLegacy"
proof -
  have "fst cur \<noteq> CultLegacy \<Longrightarrow> fst (fold (\<lambda>n. cultivation_step (node_type n)) ns cur) \<noteq> CultLegacy" for ns cur
    by (induction ns arbitrary: cur) (simp_all add: cultivation_step_def)
  from this [of "(CultNormal, False)"] show ?thesis
    by (simp add: current_cultivation_state_def)
qed

section \<open>Actions that keep a property of the state\<close>

definition keeps :: "(server_state \<Rightarrow> bool) \<Rightarrow> 'a action \<Rightarrow> bool" where
  "keeps P m \<longleftrightarrow> (\<forall>s. P s \<longrightarrow> P (fst (m s)))"

named_theorems keeps_intros

lemma keepsD: "keeps P m \<Longrightarrow> P s \<Longrightarrow> P (fst (m s))"
  by (simp add: keeps_def)

lemma keeps_return [keeps_intros]: "keeps P (return_act a)"
  by (simp add: keeps_def return_act_def)

lemma keeps_lift [keeps_intros]: "keeps P (lift_act r)"
  by (simp add: keeps_def lift_act_def)

lemma keeps_respond [keeps_intros]: "keeps P (\<lambda>s. (s, r s))"
  by (simp add: keeps_def)

lemma keeps_bind [keeps_intros]:
  assumes "keeps P m" and "\<And>a. keeps P (f a)"
  shows "keeps P (bind_act m f)"
  unfolding keeps_def bind_act_def
proof (intro allI impI)
  fix s
  assume "P s"
  then have "P (fst (m s))"
    using assms(1) by (simp add: keeps_def)
  then show "P (fst (case m s of (s1, Ok a) \<Rightarrow> f a s1 | (s1, Err e) \<Rightarrow> (s1, Err e) | (s1, Abort x) \<Rightarrow> (s1, Abort x)))"
    using assms(2) by (auto simp: keeps_def split: prod.splits result.splits)
qed

lemma keeps_if [keeps_intros]: "keeps P m \<Longrightarrow> keeps P n \<Longrightarrow> keeps P (if b then m else n)"
  by simp

lemma keeps_ignore [keeps_intros]: "keeps P m \<Longrightarrow> keeps P (ignore_act m)"
  by (auto simp: keeps_def ignore_act_def split: prod.splits result.splits)

lemma bind_act_lift [simp]:
  "bind_act (lift_act (Ok a)) f s = f a s" "bind_act (lift_act (Err e)) f s = (s, Err e)"
  "bind_act (lift_act (Abort x)) f s = (s, Abort x)"
  by (simp_all add: bind_act_def lift_act_def)

lemma bind_act_Ok: "bind_act m f s = (s', Ok b) \<longleftrightarrow> (\<exists>s1 a. m s = (s1, Ok a) \<and> f a s1 = (s', Ok b))"
  by (auto simp: bind_act_def split: prod.splits result.splits)

text \<open>Both the invariant and an archive seal survive an emission.\<close>

lemma keeps_emit [keeps_intros]: "keeps (server_inv pf) (emit_substrate_event pf ty c)"
proof -
  have "server_inv pf s \<Longrightarrow> server_inv pf (fst (emit_substrate_event pf ty c s))" for s
    by (cases rule: emit_cases [of pf s ty c]) simp_all
  then show ?thesis
    by (simp add: keeps_def)
qed

definition archived :: "platform \<Rightarrow> server_state \<Rightarrow> bool" where
  "archived pf s \<longleftrightarrow> server_inv pf s \<and> ss_cultivation_state s = CultArchived"

lemma cultivation_fold_sealed:
  "snd (fold (\<lambda>n. cultivation_step (node_type n)) ns cur) \<longleftrightarrow>
    snd cur \<or> list_ex (\<lambda>n. starts_with (node_type n) NODE_TYPE_BET_RETIRED_PREFIX) ns"
  by (induction ns arbitrary: cur) (auto simp: cultivation_step_def)

lemma cultivation_fold_archived:
  assumes "snd cur \<longleftrightarrow> fst cur = CultArchived"
  shows "snd (fold (\<lambda>n. cultivation_step (node_type n)) ns cur) \<longleftrightarrow>
    fst (fold (\<lambda>n. cultivation_step (node_type n)) ns cur) = CultArchived"
  using assms by (induction ns arbitrary: cur) (auto simp: cultivation_step_def)

lemma current_archived_iff:
  "current_cultivation_state d = CultArchived \<longleftrightarrow>
    list_ex (\<lambda>n. starts_with (node_type n) NODE_TYPE_BET_RETIRED_PREFIX) (iter_in_insertion_order d)"
  using cultivation_fold_archived [of "(CultNormal, False)" "iter_in_insertion_order d"]
  by (simp add: current_cultivation_state_def cultivation_fold_sealed)

lemma archived_appended:
  "iter_in_insertion_order d' = iter_in_insertion_order d @ ns \<Longrightarrow>
    current_cultivation_state d = CultArchived \<Longrightarrow> current_cultivation_state d' = CultArchived"
  by (simp add: current_archived_iff)

lemma keeps_emit_archived [keeps_intros]: "keeps (archived pf) (emit_substrate_event pf ty c)"
proof -
  have "archived pf (fst (emit_substrate_event pf ty c s))" if "archived pf s" for s
  proof -
    have inv: "server_inv pf s" and "current_cultivation_state (ss_dag s) = CultArchived"
      using that unfolding archived_def server_inv_def by metis+
    from inv show ?thesis
    proof (cases rule: emit_cases [where ty = ty and c = c])
      case (logged s')
      then show ?thesis
        using archived_appended [OF logged(5)] \<open>current_cultivation_state (ss_dag s) = CultArchived\<close>
        by (simp add: archived_def server_inv_def)
    qed (use that in simp)
  qed
  then show ?thesis
    by (simp add: keeps_def)
qed

text \<open>A substrate with an empty log, and a platform that hashes a root to zero and a node to the
  successor of its first parent.\<close>

definition blank_state :: server_state where
  "blank_state = \<lparr>ss_substrate_id = Some 7, ss_cycle_counter = 0, ss_dag = dag_new,
     ss_federation = new_federation_state False, ss_revoked_peers = [], ss_signing_seed = 1, ss_cultivation_state = CultNormal,
     ss_successor_chain = [], ss_immune_emissions = (\<lambda>_. None), ss_clock = clock_new,
     ss_genesis_time = Some 0, ss_generation_depth = 0, ss_last_absorbed_cycle = None,
     ss_handshake_complete = False, ss_cycle_engine = cycle_engine_new default_cycle_config,
     ss_observatory_history = [], ss_cost_budgets = seed_cost_budgets, ss_saturation_stage = Normal,
     ss_post_eligibility_cycles = 0, ss_saturated_cycles = 0, ss_exhausted_cycles = 0,
     ss_last_saturation_proposal = None, ss_last_budget_exhausted = [], ss_last_ingestion_request = None,
     ss_last_starvation = None, ss_last_hoarding = None, ss_last_sycophancy = None,
     ss_migration_candidate = None, ss_last_window_exceeded = None, ss_axis_register_count = 0,
     ss_pending_noop_cycles = 0, ss_worker_death_logged = False,
     ss_backup_encryption_status = None, ss_owner_objective = None, ss_session_secret = 0\<rparr>"

definition chain_platform :: platform where
  "chain_platform = \<lparr>pf_hash = (\<lambda>b. if be_nat (take 8 b) = 0 then 0 else 1 + word_of_be (take 32 (drop 8 b))), pf_public_key = (\<lambda>seed. seed),
     pf_sign = (\<lambda>_ _. 0), pf_verify = (\<lambda>_ _ _. True)\<rparr>"

lemma chain_hash [simp]:
  "merkle_hash (pf_hash chain_platform) [] c = 0" "merkle_hash (pf_hash chain_platform) [p] c = 1 + p"
  by (simp_all add: chain_platform_def merkle_hash_def merkle_input_def)
    (simp_all add: u64_bytes_def be_nat_be_bytes)

lemma chain_emit:
  assumes "tip (ss_dag s) = Some t" and "dag_get (ss_dag s) (1 + t) = None" and "dag_get (ss_dag s) t \<noteq> None"
    and "ty \<noteq> []" and "\<not> is_cultivation_family_node_type ty"
  shows "emit_substrate_event chain_platform ty c s =
    (s\<lparr>ss_dag := (ss_dag s)\<lparr>nodes := nodes (ss_dag s) @ [(1 + t, \<lparr>node_hash = 1 + t, parent_hashes = [t],
        node_type = ty, created_at_cycle = ss_cycle_counter s, content = c\<rparr>)],
      insertion_order := insertion_order (ss_dag s) @ [1 + t], tip := Some (1 + t)\<rparr>\<rparr>, Ok (1 + t))"
  using assms by (auto simp: emit_substrate_event_def insert_node_def tip_parents_def check_parents_def Let_def)

lemma server_inv_blank: "server_inv pf blank_state"
  using dag.inv_init [of "pf_hash pf"]
  by (simp add: server_inv_def blank_state_def current_cultivation_state_def iter_in_insertion_order_def
      dag_new_def List.map_filter_simps)

end
