(* ===== verification/Immune.thy ===== *)
theory Immune
  imports Server_State
begin

text \<open>
  Immune emissions: the rate limit of \<^verbatim>\<open>emit_immune_sporocarp\<close> (\<^verbatim>\<open>server/mod.rs\<close>) may
  answer with an earlier node, but every breach it was told of stays counted, in the log or in the
  state.
\<close>

section \<open>What an emission does\<close>

lemma immune_not_family: "\<not> is_cultivation_family_node_type (''immune:'' @ det)"
  by (simp add: is_cultivation_family_node_type_def starts_with_def NODE_TYPE_BET_RETIRED_PREFIX_def
      NODE_TYPE_CULTIVATION_RECOVERED_PREFIX_def NODE_TYPE_CULTIVATION_ORPHANED_PREFIX_def
      NODE_TYPE_SUCCESSION_COMPLETED_PREFIX_def)

definition suppressed_count :: "string \<Rightarrow> server_state \<Rightarrow> u64" where
  "suppressed_count det s = (case ss_immune_emissions s det of Some (_, _, k) \<Rightarrow> k | None \<Rightarrow> 0)"

lemma immune_cases:
  assumes "server_inv pf s"
  obtains (failed) s' e where "emit_immune_sporocarp pf now det name ev s = (s', Err e)"
      "server_inv pf s'" "same_identity s s'" "ss_dag s' = ss_dag s"
      "ss_immune_emissions s' = ss_immune_emissions s" "ss_successor_chain s' = ss_successor_chain s"
  | (suppressed) s' t h k where "emit_immune_sporocarp pf now det name ev s = (s', Ok h)"
      "ss_immune_emissions s det = Some (t, h, k)"
      "ss_immune_emissions s' = (ss_immune_emissions s)(det \<mapsto> (t, h, sat_add k 1))"
      "server_inv pf s'" "same_identity s s'" "ss_dag s' = ss_dag s"
      "ss_successor_chain s' = ss_successor_chain s"
  | (logged) s' t c n where "emit_immune_sporocarp pf now det name ev s = (s', Ok (node_hash n))"
      "c = immune_bytes det name ev t (suppressed_count det s)"
      "n = logged_node (pf_hash pf) (ss_dag s) (''immune:'' @ det) (ss_cycle_counter s) c"
      "ss_immune_emissions s' = (ss_immune_emissions s)(det \<mapsto> (t, node_hash n, 0))"
      "server_inv pf s'" "same_identity s s'"
      "iter_in_insertion_order (ss_dag s') = iter_in_insertion_order (ss_dag s) @ [n]"
      "ss_successor_chain s' = ss_successor_chain s"
proof -
  obtain t cl where clk: "monotonic_unix_ns now (ss_clock s) = (t, cl)"
    by (cases "monotonic_unix_ns now (ss_clock s)")
  let ?c = "immune_bytes det name ev t (suppressed_count det s)"
  have inv: "dag_inv (pf_hash pf) (ss_dag s)"
    using assms by (simp add: server_inv_def)
  consider (quick) t0 h k where "ss_immune_emissions s det = Some (t0, h, k)"
      "sint (ssat_sub t t0) < sint IMMUNE_EMISSION_RATE_LIMIT_NS"
    | (fresh) "emit_immune_sporocarp pf now det name ev s =
      (case insert_node (pf_hash pf) (tip_parents (ss_dag s)) (''immune:'' @ det) (ss_cycle_counter s) ?c
          (ss_dag s) of
        (d, Ok h) \<Rightarrow> (s\<lparr>ss_clock := cl, ss_dag := d,
          ss_immune_emissions := (ss_immune_emissions s)(det \<mapsto> (t, h, 0))\<rparr>, Ok h)
      | (d, Err e) \<Rightarrow> (s\<lparr>ss_clock := cl, ss_dag := d\<rparr>,
          Err (SubProtocol (''immune DAG insert: '' @ dag_display e)))
      | (d, Abort x) \<Rightarrow> (s\<lparr>ss_clock := cl, ss_dag := d\<rparr>, Abort x))"
  proof (cases "\<exists>t0 h k. ss_immune_emissions s det = Some (t0, h, k) \<and>
      sint (ssat_sub t t0) < sint IMMUNE_EMISSION_RATE_LIMIT_NS")
    case False
    show ?thesis
      by (rule fresh, cases "ss_immune_emissions s det")
        (use False in \<open>auto simp: emit_immune_sporocarp_def clk suppressed_count_def Let_def
            split: prod.splits result.splits\<close>)
  qed (use quick in blast)
  then show thesis
  proof cases
    case quick
    then show ?thesis
      using assms
      by (intro suppressed [of "fst (emit_immune_sporocarp pf now det name ev s)" h t0 k])
        (simp_all add: emit_immune_sporocarp_def clk server_inv_def same_identity_def)
  next
    case fresh
    show ?thesis
      using inv
    proof (cases rule: insert_at_tip [where ty = "''immune:'' @ det" and cyc = "ss_cycle_counter s" and c = ?c])
      case (failed e)
      then show ?thesis
        using fresh assms
        by (intro that(1) [of "fst (emit_immune_sporocarp pf now det name ev s)"])
          (simp_all add: server_inv_def same_identity_def)
    next
      case (logged d)
      let ?n = "logged_node (pf_hash pf) (ss_dag s) (''immune:'' @ det) (ss_cycle_counter s) ?c"
      have "current_cultivation_state d = current_cultivation_state (ss_dag s)"
        by (rule cultivation_state_append [OF logged(3)]) (simp add: logged_node_def immune_not_family [simplified])
      then show ?thesis
        using logged fresh assms
        by (intro that(3) [of "fst (emit_immune_sporocarp pf now det name ev s)" ?n ?c t])
          (simp_all add: server_inv_def same_identity_def)
    qed
  qed
qed

lemma keeps_immune [keeps_intros]:
  "keeps (server_inv pf) (emit_immune_sporocarp pf now det name ev)"
proof -
  have "server_inv pf s \<Longrightarrow> server_inv pf (fst (emit_immune_sporocarp pf now det name ev s))" for s
    by (cases rule: immune_cases [of pf s now det name ev]) simp_all
  then show ?thesis
    by (simp add: keeps_def)
qed

lemma keeps_immune_archived [keeps_intros]:
  "keeps (archived pf) (emit_immune_sporocarp pf now det name ev)"
proof -
  have "archived pf (fst (emit_immune_sporocarp pf now det name ev s))" if "archived pf s" for s
  proof -
    have inv: "server_inv pf s" and "current_cultivation_state (ss_dag s) = CultArchived"
      using that unfolding archived_def server_inv_def by metis+
    from inv show ?thesis
    proof (cases rule: immune_cases [where now = now and det = det and name = name and ev = ev])
      case (logged s' t c n)
      then show ?thesis
        using archived_appended [OF logged(7)] \<open>current_cultivation_state (ss_dag s) = CultArchived\<close>
        by (simp add: archived_def server_inv_def)
    qed (use \<open>current_cultivation_state (ss_dag s) = CultArchived\<close> in
        \<open>simp_all add: archived_def server_inv_def\<close>)
  qed
  then show ?thesis
    by (simp add: keeps_def)
qed

section \<open>The count of breaches\<close>

text \<open>
  What a node of the log says about a detector: itself, and the emissions suppressed before it.
\<close>

definition reported :: "string \<Rightarrow> dag_node \<Rightarrow> nat" where
  "reported det n =
     (if node_type n = ''immune:'' @ det
      then Suc (case decode (content n) of
             Ok (VMap m) \<Rightarrow> unat (uint_or 0 m ''suppressed_since_last_emission'')
           | _ \<Rightarrow> 0)
      else 0)"

definition breach_count :: "string \<Rightarrow> server_state \<Rightarrow> nat" where
  "breach_count det s =
     sum_list (map (reported det) (iter_in_insertion_order (ss_dag s))) + unat (suppressed_count det s)"

lemma reported_logged:
  assumes "fits det" and "fits name" and "fits ev"
  shows "reported det (logged_node H d (''immune:'' @ det) cyc (immune_bytes det name ev t k)) = Suc (unat k)"
proof -
  have "event_ok ([(''detector_id'', VString det), (''detector_name'', VString name),
      (''evidence'', VString ev), (''timestamp_unix_ns'', VTimestamp t)] @
      (if 0 < k then [(''suppressed_since_last_emission'', VUint k)] else []))"
    by (rule event_okI) (use assms in \<open>auto simp: fits_def\<close>)
  then show ?thesis
    by (auto simp: reported_def logged_node_def immune_bytes_def decode_event uint_or_def bt_get_of
        word_neq_0_conv [symmetric])
qed

section \<open>Properties\<close>

text \<open>
  C20. The rate limit loses no breach. An emission that succeeds raises by one the number of
  breaches of its detector that the log and the pending count record together, whether it adds a
  node or is answered with the previous one, and leaves every other detector's number alone, as
  long as the pending count has not saturated.
\<close>

theorem immune_emission_counts_breach:
  assumes "server_inv pf s" and "emit_immune_sporocarp pf now det name ev s = (s', Ok h)"
    and "fits det" and "fits name" and "fits ev" and "suppressed_count det s \<noteq> - 1"
  shows "breach_count other s' = breach_count other s + (if other = det then 1 else 0)"
proof -
  show ?thesis
    using assms(1)
  proof (cases rule: immune_cases [where now = now and det = det and name = name and ev = ev])
    case (suppressed s1 t h1 k)
    have "unat (sat_add k 1) = Suc (unat k)"
      using suppressed(2) assms(6) unat_bound [of k] word_unat_eq_iff [of k "- 1"]
      by (simp add: unat_sat_add suppressed_count_def unsigned_minus_1_eq_mask mask_eq_exp_minus_1)
    then show ?thesis
      using suppressed assms(2) by (auto simp: breach_count_def suppressed_count_def)
  next
    case (logged s1 t c n)
    then show ?thesis
      using assms(2) reported_logged [OF assms(3-5)]
      by (auto simp: breach_count_def suppressed_count_def) (simp add: reported_def logged_node_def)
  qed (use assms(2) in simp)
qed

lemma immune_emission_counts_breach_witness:
  "breach_count ''C46'' (fst (emit_immune_sporocarp chain_platform 5 ''C46'' ''n'' ''e'' blank_state)) = 1"
proof -
  obtain s h where emit: "emit_immune_sporocarp chain_platform 5 ''C46'' ''n'' ''e'' blank_state = (s, Ok h)"
    by (simp add: emit_immune_sporocarp_def monotonic_unix_ns_def blank_state_def Let_def insert_node_def
        dag_new_def tip_parents_def dag_get_def check_parents_def)
  have "suppressed_count ''C46'' blank_state = 0" "breach_count ''C46'' blank_state = 0"
    by (simp_all add: suppressed_count_def breach_count_def blank_state_def iter_in_insertion_order_def
        dag_new_def List.map_filter_simps)
  then show ?thesis
    using immune_emission_counts_breach [OF server_inv_blank emit, of "''C46''"]
    by (simp add: emit fits_def)
qed

end
