(* ===== verification/Cultivation.thy ===== *)
theory Cultivation
  imports Immune
begin

text \<open>
  The cultivation and lifecycle handlers, \<^verbatim>\<open>substrate/src/cultivation.rs\<close> and
  \<^verbatim>\<open>substrate/src/lifecycle.rs\<close>: the successor chain, succession, bet retirement,
  self-euthanasia and the birth-period quarantine. A handler maps the state and a request to the
  state it leaves and its response; \<open>now\<close> is what the system clock reads, \<open>anchor_now\<close> the
  stamp that the tests' environment variable supplies. Error texts are in UTF-8.
\<close>

section \<open>Texts\<close>

definition em_dash :: string where
  "em_dash = [CHR 0xE2, CHR 0x80, CHR 0x94]"

definition section_sign :: string where
  "section_sign = [CHR 0xC2, CHR 0xA7]"

definition ge_sign :: string where
  "ge_sign = [CHR 0xE2, CHR 0x89, CHR 0xA5]"

definition decimal_i64 :: "i64 \<Rightarrow> string" where
  "decimal_i64 t = (if sint t < 0 then ''-'' @ decimal (nat (- sint t)) else decimal (nat (sint t)))"

section \<open>Fields of a request\<close>

definition payload_bytes32 :: "message \<Rightarrow> string \<Rightarrow> (arr32, substrate_error) result" where
  "payload_bytes32 request key =
     ok_or (SubProtocol (key @ '' must be 32 Bytes'')) (opt_arr32 (msg_payload request) key)"

definition payload_timestamp :: "message \<Rightarrow> string \<Rightarrow> (i64, substrate_error) result" where
  "payload_timestamp request key =
     ok_or (SubProtocol (key @ '' must be a Timestamp'')) (opt_timestamp (msg_payload request) key)"

definition response :: "string \<Rightarrow> message \<Rightarrow> (string \<times> Value) list \<Rightarrow> message option" where
  "response ty request kvs = Some (new_message ty (request_id request) (bt_of kvs))"

section \<open>The successor chain\<close>

definition CATECHUMENATE_MIN_SESSIONS :: u64 where
  "CATECHUMENATE_MIN_SESSIONS = 50"

definition catechumenate_below_min :: "u64 \<Rightarrow> bool" where
  "catechumenate_below_min sessions \<longleftrightarrow> sessions < CATECHUMENATE_MIN_SESSIONS"

definition valid_until_field :: "message \<Rightarrow> (i64 option, substrate_error) result" where
  "valid_until_field request =
     (case bt_get (msg_payload request) ''valid_until_unix_ns'' of
        Some (VTimestamp t) \<Rightarrow> Ok (Some t)
      | Some Null \<Rightarrow> Ok None
      | None \<Rightarrow> Ok None
      | _ \<Rightarrow> Err (SubProtocol
               ''update_successor_chain: valid_until_unix_ns must be Timestamp or Null''))"

text \<open>The interval checks, against the last entry of the chain and of the new interval itself.\<close>

definition check_after_last ::
    "derived_successor_entry list \<Rightarrow> i64 \<Rightarrow> (unit, substrate_error) result" where
  "check_after_last chain from_ns =
     (if chain = [] then Ok ()
      else
        let prior = last chain in
        if sint from_ns \<le> sint (se_valid_from prior)
        then Err (SubProtocol (''update_successor_chain: valid_from ('' @ decimal_i64 from_ns @
               '') must be strictly greater than the last entry's valid_from ('' @
               decimal_i64 (se_valid_from prior) @ '') '' @ em_dash @ '' '' @ section_sign @
               ''3.2.A monotone interval''))
        else case se_valid_until prior of
          Some prior_until \<Rightarrow>
            if sint from_ns < sint prior_until
            then Err (SubProtocol (''update_successor_chain: interval overlap '' @ em_dash @
                   '' prior entry valid_until ('' @ decimal_i64 prior_until @ '') > new valid_from ('' @
                   decimal_i64 from_ns @ ''); '' @ section_sign @ ''3.2.A non-overlap''))
            else Ok ()
        | None \<Rightarrow> Err (SubProtocol
            (''update_successor_chain: prior chain head is open-ended (valid_until=Null); '' @
             ''close it before appending a successor '' @ em_dash @ '' '' @ section_sign @
             ''3.2.A non-overlap'')))"

definition check_interval :: "i64 \<Rightarrow> i64 option \<Rightarrow> (unit, substrate_error) result" where
  "check_interval from_ns until_ns =
     (case until_ns of
        Some u \<Rightarrow>
          if sint u \<le> sint from_ns
          then Err (SubProtocol (''update_successor_chain: valid_until ('' @ decimal_i64 u @
                 '') must be > valid_from ('' @ decimal_i64 from_ns @ '')''))
          else Ok ()
      | None \<Rightarrow> Ok ())"

definition read_update_request ::
    "derived_successor_entry list \<Rightarrow> message \<Rightarrow> (derived_successor_entry, substrate_error) result" where
  "read_update_request chain request =
     and_then (payload_bytes32 request ''successor_pubkey'') (\<lambda>pk.
     and_then (payload_timestamp request ''valid_from_unix_ns'') (\<lambda>from_ns.
     and_then (valid_until_field request) (\<lambda>until_ns.
     and_then (check_after_last chain from_ns) (\<lambda>_.
     and_then (check_interval from_ns until_ns) (\<lambda>_.
       Ok \<lparr>se_pubkey = pk, se_valid_from = from_ns, se_valid_until = until_ns\<rparr>)))))"

definition MSG_UPDATE_SUCCESSOR_CHAIN_RESPONSE :: string where
  "MSG_UPDATE_SUCCESSOR_CHAIN_RESPONSE = ''update_successor_chain_response''"

definition push_successor :: "derived_successor_entry \<Rightarrow> unit action" where
  "push_successor e s = (s\<lparr>ss_successor_chain := ss_successor_chain s @ [e]\<rparr>, Ok ())"

definition handle_update_successor_chain :: "platform \<Rightarrow> message \<Rightarrow> message option action" where
  "handle_update_successor_chain pf request s0 =
     bind_act (lift_act (read_update_request (ss_successor_chain s0) request)) (\<lambda>e.
     bind_act (emit_substrate_event pf (successor_chain_updated_node_type (se_pubkey e))
         (encode_successor_chain_updated (se_pubkey e) (se_valid_from e) (se_valid_until e)
           (word_of_nat (length (ss_successor_chain s0))) (ss_cycle_counter s0))) (\<lambda>h.
     bind_act (push_successor e) (\<lambda>_ s.
       (s, Ok (response MSG_UPDATE_SUCCESSOR_CHAIN_RESPONSE request
          [(''updated_event_hash'', VBytes (arr32_bytes h)),
           (''chain_length'', VUint (word_of_nat (length (ss_successor_chain s))))]))))) s0"

section \<open>Succession\<close>

definition MSG_ACCEPT_SUCCESSION_RESPONSE :: string where
  "MSG_ACCEPT_SUCCESSION_RESPONSE = ''accept_succession_response''"

definition c46_evidence :: "u64 \<Rightarrow> string" where
  "c46_evidence sessions =
     ''accept_succession: catechumenate_session_count='' @ decimal (unat sessions) @
     '' < CATECHUMENATE_MIN_SESSIONS='' @ decimal (unat CATECHUMENATE_MIN_SESSIONS) @
     ''; F21 activation REQUIRES '' @ ge_sign @ ''50 dual-signed Layer-D sessions (COV06 '' @
     section_sign @ ''5.3 + META '' @ section_sign @
     ''6.3). Premature succession = owner_succession_bypass.''"

definition handle_accept_succession :: "platform \<Rightarrow> i64 \<Rightarrow> message \<Rightarrow> message option action" where
  "handle_accept_succession pf now request s0 =
     bind_act (lift_act (payload_bytes32 request ''successor_pubkey'')) (\<lambda>pk.
     bind_act (lift_act (payload_bytes32 request ''prior_cultivator_pubkey'')) (\<lambda>prior.
     bind_act (lift_act (payload_timestamp request ''anchor_timestamp_unix_ns'')) (\<lambda>t.
     bind_act (lift_act (ok_or (SubProtocol
         ''accept_succession: catechumenate_session_count must be Uint'')
         (opt_uint (msg_payload request) ''catechumenate_session_count''))) (\<lambda>sessions.
       if catechumenate_below_min sessions
       then
         bind_act (ignore_act (emit_immune_sporocarp pf now ''C46_owner_succession_bypass''
             ''owner_succession_bypass'' (c46_evidence sessions)))
           (\<lambda>_. lift_act (Err (SubProtocol (c46_evidence sessions))))
       else
         bind_act (emit_substrate_event pf (succession_completed_node_type pk)
             (encode_succession_completed pk prior t sessions (ss_cycle_counter s0))) (\<lambda>h s.
           (s, Ok (response MSG_ACCEPT_SUCCESSION_RESPONSE request
              [(''completed_event_hash'', VBytes (arr32_bytes h)),
               (''cultivation_state'', VString (cultivation_label (ss_cultivation_state s)))]))))))) s0"

section \<open>Bet retirement\<close>

definition MSG_ACCEPT_BET_RETIRED_PROPOSAL_RESPONSE :: string where
  "MSG_ACCEPT_BET_RETIRED_PROPOSAL_RESPONSE = ''accept_bet_retired_proposal_response''"

text \<open>The text under \<open>key\<close> of a proposal's content.\<close>

definition proposal_field ::
    "string \<Rightarrow> string \<Rightarrow> dag_node \<Rightarrow> (string, substrate_error) result" where
  "proposal_field not_map key n =
     and_then (map_err (\<lambda>e. SubProtocol (''decode proposal content: '' @ cb_display e)) (decode (content n)))
       (\<lambda>v. case v of
          VMap m \<Rightarrow> map_err (\<lambda>e. SubProtocol (cb_display e)) (map_get_string m key)
        | _ \<Rightarrow> Err (SubProtocol not_map))"

definition bet_retired_reason :: "dag \<Rightarrow> arr32 \<Rightarrow> (string, substrate_error) result" where
  "bet_retired_reason d h =
     and_then (ok_or (SubProtocol ''accept_bet_retired_proposal: proposal_hash not found in DAG'')
         (dag_get d h)) (\<lambda>n.
       if node_type n \<noteq> NODE_TYPE_BET_RETIRED_PROPOSAL
       then Err (SubProtocol (''accept_bet_retired_proposal: proposal_hash points to '' @ node_type n @
              '' (not a bet_retired_proposal)''))
       else proposal_field ''bet_retired_proposal content not a Map'' ''reason'' n)"

definition handle_accept_bet_retired_proposal ::
    "platform \<Rightarrow> i64 option \<Rightarrow> message \<Rightarrow> message option action" where
  "handle_accept_bet_retired_proposal pf anchor_now request s0 =
     bind_act (lift_act (payload_bytes32 request ''proposal_hash'')) (\<lambda>ph.
     bind_act (lift_act (bet_retired_reason (ss_dag s0) ph)) (\<lambda>reason.
     bind_act (emit_substrate_event pf (bet_retired_node_type reason)
         (encode_bet_retired reason ph (ss_cycle_counter s0)
           (case anchor_now of Some t \<Rightarrow> t | None \<Rightarrow> 0))) (\<lambda>h s.
       (s, Ok (response MSG_ACCEPT_BET_RETIRED_PROPOSAL_RESPONSE request
          [(''sealed_event_hash'', VBytes (arr32_bytes h)), (''reason'', VString reason)]))))) s0"

definition is_archived :: "server_state \<Rightarrow> bool" where
  "is_archived s \<longleftrightarrow> ss_cultivation_state s = CultArchived"

section \<open>Self-euthanasia\<close>

definition MSG_ACCEPT_SELF_EUTHANASIA_PROPOSAL_RESPONSE :: string where
  "MSG_ACCEPT_SELF_EUTHANASIA_PROPOSAL_RESPONSE = ''accept_self_euthanasia_proposal_response''"

definition self_euthanasia_axis :: "dag \<Rightarrow> arr32 \<Rightarrow> (string, substrate_error) result" where
  "self_euthanasia_axis d h =
     and_then (ok_or (SubProtocol (''accept_self_euthanasia_proposal: proposal_hash '' @
           hex_first_8_bytes h @ '' not found in DAG'')) (dag_get d h)) (\<lambda>n.
       if \<not> starts_with (node_type n) ''self_euthanasia_proposal:''
       then Err (SubProtocol (''accept_self_euthanasia_proposal: proposal_hash points to '' @ node_type n @
              '' (not a self_euthanasia_proposal)''))
       else proposal_field ''proposal content not a Map'' ''axis_name'' n)"

definition handle_accept_self_euthanasia_proposal ::
    "platform \<Rightarrow> i64 \<Rightarrow> message \<Rightarrow> message option action" where
  "handle_accept_self_euthanasia_proposal pf now request s0 =
     bind_act (lift_act (ok_or
         (SubProtocol ''accept_self_euthanasia_proposal: proposal_hash must be 32 Bytes'')
         (opt_arr32 (msg_payload request) ''proposal_hash''))) (\<lambda>ph.
     bind_act (lift_act (self_euthanasia_axis (ss_dag s0) ph)) (\<lambda>axis.
     bind_act (emit_substrate_event pf (self_euthanasia_executed_node_type axis)
         (encode_self_euthanasia_executed axis ph (ss_cycle_counter s0) now)) (\<lambda>h s.
       (s, Ok (response MSG_ACCEPT_SELF_EUTHANASIA_PROPOSAL_RESPONSE request
          [(''axis_name'', VString axis), (''executed_event_hash'', VBytes (arr32_bytes h))]))))) s0"

section \<open>Birth-period quarantine\<close>

record quarantine_state =
  entered_at_cycle :: u64
  expires_at_cycle :: u64
  lifted :: bool

definition quarantine_duration :: "dag_node \<Rightarrow> (u64, 'e) result" where
  "quarantine_duration n =
     and_then (decode_map (content n)) (\<lambda>m.
       Ok (case m of Some m1 \<Rightarrow> uint_or 10 m1 ''quarantine_duration_cycles'' | None \<Rightarrow> 10))"

text \<open>The walk keeps the last entry with its expiry, and whether it has been lifted since.\<close>

definition quarantine_step ::
    "dag_node \<Rightarrow> (u64 \<times> u64) option \<times> bool \<Rightarrow> ((u64 \<times> u64) option \<times> bool, 'e) result" where
  "quarantine_step n cur =
     (if node_type n = NODE_TYPE_BIRTH_PERIOD_QUARANTINE_ENTERED
      then and_then (quarantine_duration n) (\<lambda>duration.
             Ok (Some (created_at_cycle n, sat_add (created_at_cycle n) duration), False))
      else if node_type n = NODE_TYPE_BIRTH_PERIOD_QUARANTINE_LIFTED \<and> fst cur \<noteq> None
      then Ok (fst cur, True)
      else Ok cur)"

definition current_quarantine_state :: "dag \<Rightarrow> (quarantine_state option, 'e) result" where
  "current_quarantine_state d =
     and_then (try_fold quarantine_step (iter_in_insertion_order d) (None, False)) (\<lambda>(entered, was_lifted).
       Ok (map_option (\<lambda>(at_cycle, expires).
         \<lparr>entered_at_cycle = at_cycle, expires_at_cycle = expires, lifted = was_lifted\<rparr>) entered))"

definition is_in_birth_period_quarantine :: "server_state \<Rightarrow> (bool, 'e) result" where
  "is_in_birth_period_quarantine s =
     and_then (current_quarantine_state (ss_dag s)) (\<lambda>q.
       Ok (case q of
             Some qs \<Rightarrow> \<not> lifted qs \<and> ss_cycle_counter s < expires_at_cycle qs
           | None \<Rightarrow> False))"

definition quarantine_block :: "platform \<Rightarrow> i64 \<Rightarrow> string \<Rightarrow> message option action" where
  "quarantine_block pf now opn =
     (let evidence = ''operation '' @ opn @ '' blocked: substrate is in birth-period quarantine '' @
            ''(inherited from parent's immune signals). Operator may call '' @
            ''lift_birth_period_quarantine after verifying signals.'' in
      bind_act (ignore_act (emit_immune_sporocarp pf now ''C34_birth_period_violation_during_quarantine''
          ''birth_period_violation_detected'' evidence))
        (\<lambda>_. lift_act (Err (SubProtocol evidence))))"

definition MSG_LIFT_BIRTH_PERIOD_QUARANTINE_RESPONSE :: string where
  "MSG_LIFT_BIRTH_PERIOD_QUARANTINE_RESPONSE = ''lift_birth_period_quarantine_response''"

definition handle_lift_birth_period_quarantine ::
    "platform \<Rightarrow> i64 \<Rightarrow> message \<Rightarrow> message option action" where
  "handle_lift_birth_period_quarantine pf now request s0 =
     bind_act (lift_act (current_quarantine_state (ss_dag s0))) (\<lambda>q.
       let was_in_q = (case q of Some qs \<Rightarrow> \<not> lifted qs | None \<Rightarrow> False) in
       if was_in_q
       then bind_act (emit_substrate_event pf NODE_TYPE_BIRTH_PERIOD_QUARANTINE_LIFTED
              (encode_birth_period_quarantine_lifted ''operator_signed_lift'' (ss_cycle_counter s0) now))
            (\<lambda>h s. (s, Ok (response MSG_LIFT_BIRTH_PERIOD_QUARANTINE_RESPONSE request
               [(''was_in_quarantine'', VBool was_in_q),
                (''quarantine_lifted_event_hash'', VBytes (arr32_bytes h))])))
       else return_act (response MSG_LIFT_BIRTH_PERIOD_QUARANTINE_RESPONSE request
              [(''was_in_quarantine'', VBool was_in_q)])) s0"

section \<open>Handlers as operations\<close>

text \<open>The operations that a substrate performs on its log, with the clock each one reads.\<close>

datatype server_op =
    UpdateSuccessorChain message
  | AcceptSuccession i64 message
  | AcceptBetRetired "i64 option" message
  | AcceptSelfEuthanasia i64 message
  | LiftQuarantine i64 message
  | QuarantineBlock i64 string
  | EmitEvent string bytes
  | EmitImmune i64 string string string

fun server_step :: "platform \<Rightarrow> server_op \<Rightarrow> server_state \<Rightarrow> server_state" where
  "server_step pf (UpdateSuccessorChain m) s = fst (handle_update_successor_chain pf m s)"
| "server_step pf (AcceptSuccession now m) s = fst (handle_accept_succession pf now m s)"
| "server_step pf (AcceptBetRetired t m) s = fst (handle_accept_bet_retired_proposal pf t m s)"
| "server_step pf (AcceptSelfEuthanasia now m) s = fst (handle_accept_self_euthanasia_proposal pf now m s)"
| "server_step pf (LiftQuarantine now m) s = fst (handle_lift_birth_period_quarantine pf now m s)"
| "server_step pf (QuarantineBlock now op) s = fst (quarantine_block pf now op s)"
| "server_step pf (EmitEvent ty c) s = fst (emit_substrate_event pf ty c s)"
| "server_step pf (EmitImmune now det name ev) s = fst (emit_immune_sporocarp pf now det name ev s)"

lemma keeps_push [keeps_intros]:
  "keeps (server_inv pf) (push_successor e)" "keeps (archived pf) (push_successor e)"
  by (auto simp: keeps_def push_successor_def server_inv_def archived_def)

lemma keeps_Let [keeps_intros]: "keeps P (m x) \<Longrightarrow> keeps P (let y = x in m y)"
  by simp

text \<open>Every operation keeps what the three ways of changing the state keep.\<close>

lemma keeps_step:
  assumes keeps: "\<And>ty c. keeps P (emit_substrate_event pf ty c)"
      "\<And>now det name ev. keeps P (emit_immune_sporocarp pf now det name ev)"
      "\<And>e. keeps P (push_successor e)"
    and "P s"
  shows "P (server_step pf op s)"
proof (cases op)
  case (UpdateSuccessorChain m)
  show ?thesis
    unfolding server_step.simps handle_update_successor_chain_def UpdateSuccessorChain
    by (rule keepsD [where P = P, OF _ assms(4)]) (intro keeps_intros keeps)
next
  case (AcceptSuccession now m)
  show ?thesis
    unfolding server_step.simps handle_accept_succession_def AcceptSuccession
    by (rule keepsD [where P = P, OF _ assms(4)]) (intro keeps_intros keeps)
next
  case (AcceptBetRetired t m)
  show ?thesis
    unfolding server_step.simps handle_accept_bet_retired_proposal_def AcceptBetRetired
    by (rule keepsD [where P = P, OF _ assms(4)]) (intro keeps_intros keeps)
next
  case (AcceptSelfEuthanasia now m)
  show ?thesis
    unfolding server_step.simps handle_accept_self_euthanasia_proposal_def AcceptSelfEuthanasia
    by (rule keepsD [where P = P, OF _ assms(4)]) (intro keeps_intros keeps)
next
  case (LiftQuarantine now m)
  show ?thesis
    unfolding server_step.simps handle_lift_birth_period_quarantine_def LiftQuarantine Let_def
    by (rule keepsD [where P = P, OF _ assms(4)]) (intro keeps_intros keeps)
next
  case (QuarantineBlock now opn)
  show ?thesis
    unfolding server_step.simps quarantine_block_def QuarantineBlock Let_def
    by (rule keepsD [where P = P, OF _ assms(4)]) (intro keeps_intros keeps)
qed (use keepsD [OF keeps(1) assms(4)] keepsD [OF keeps(2) assms(4)] in simp_all)

lemma server_inv_step: "server_inv pf s \<Longrightarrow> server_inv pf (server_step pf op s)"
  by (rule keeps_step) (intro keeps_intros)+

lemma archived_step: "archived pf s \<Longrightarrow> archived pf (server_step pf op s)"
  by (rule keeps_step) (intro keeps_intros)+

lemma archived_run: "archived pf s \<Longrightarrow> archived pf (fold (server_step pf) ops s)"
  by (induction ops arbitrary: s) (simp_all add: archived_step)

lemma server_inv_run: "server_inv pf s \<Longrightarrow> server_inv pf (fold (server_step pf) ops s)"
  by (induction ops arbitrary: s) (simp_all add: server_inv_step)

section \<open>The successor chain and its log\<close>

text \<open>
  A chain of entries is well formed when every interval but the last is closed, ends after it
  starts, and ends no later than the next one starts.
\<close>

definition interval_ok :: "derived_successor_entry \<Rightarrow> bool" where
  "interval_ok e \<longleftrightarrow> (case se_valid_until e of Some u \<Rightarrow> sint (se_valid_from e) < sint u | None \<Rightarrow> True)"

definition before :: "derived_successor_entry \<Rightarrow> derived_successor_entry \<Rightarrow> bool" where
  "before a b \<longleftrightarrow> (case se_valid_until a of Some u \<Rightarrow> sint u \<le> sint (se_valid_from b) | None \<Rightarrow> False)"

definition chain_ok :: "derived_successor_entry list \<Rightarrow> bool" where
  "chain_ok es \<longleftrightarrow> list_all interval_ok es \<and> sorted_wrt before es"

text \<open>The chain that a boot would derive from the log.\<close>

definition chain_in_log :: "dag \<Rightarrow> derived_successor_entry list \<Rightarrow> bool" where
  "chain_in_log d es \<longleftrightarrow>
     (\<exists>t. rederive_cultivation_from_dag d derived_empty = (t, Ok ()) \<and> ds_successor_chain t = es)"

lemma before_trans: "interval_ok b \<Longrightarrow> before a b \<Longrightarrow> before b c \<Longrightarrow> before a c"
  by (auto simp: before_def interval_ok_def split: option.splits)

lemma chain_ok_snoc:
  assumes "chain_ok es" and "interval_ok e" and "es \<noteq> [] \<Longrightarrow> before (last es) e"
  shows "chain_ok (es @ [e])"
proof (cases es rule: rev_cases)
  case (snoc xs x)
  then have "before x e" "interval_ok x" "\<forall>y \<in> set xs. before y x"
    using assms(1,3) by (auto simp: chain_ok_def sorted_wrt_append)
  then have "\<forall>y \<in> set es. before y e"
    using snoc before_trans [of x _ e] by auto
  then show ?thesis
    using assms(1,2) by (simp add: chain_ok_def sorted_wrt_append)
qed (use assms(2) in \<open>simp add: chain_ok_def\<close>)

lemma check_after_last_Ok:
  assumes "check_after_last es f = Ok ()" and "es \<noteq> []" and "se_valid_from e = f"
  shows "before (last es) e"
proof (cases "sint f \<le> sint (se_valid_from (last es))")
  case False
  show ?thesis
  proof (cases "se_valid_until (last es)")
    case (Some u)
    then show ?thesis
      using assms False by (cases "sint f < sint u") (simp_all add: check_after_last_def before_def)
  qed (use assms False in \<open>simp add: check_after_last_def\<close>)
qed (use assms in \<open>simp add: check_after_last_def\<close>)

lemma check_interval_Ok:
  "check_interval (se_valid_from e) (se_valid_until e) = Ok () \<Longrightarrow> interval_ok e"
  by (cases "se_valid_until e") (simp_all add: check_interval_def interval_ok_def split: if_split_asm)

lemma read_update_Ok:
  assumes "read_update_request es m = Ok e" and "chain_ok es"
  shows "chain_ok (es @ [e])"
proof -
  have "check_after_last es (se_valid_from e) = Ok ()"
    and "check_interval (se_valid_from e) (se_valid_until e) = Ok ()"
    using assms(1) unfolding read_update_request_def by auto
  then show ?thesis
    using chain_ok_snoc [OF assms(2)] check_interval_Ok check_after_last_Ok by blast
qed

lemma apply_cultivation_encoded:
  assumes "encodes n (SuccessorChainUpdated pk f u p c)"
  shows "apply_cultivation_event n s = (s\<lparr>ds_successor_chain := ds_successor_chain s @
      [\<lparr>se_pubkey = pk, se_valid_from = f, se_valid_until = u\<rparr>]\<rparr>, Ok ())"
  using apply_encoded [OF assms, of s None] dispatch [of n "SuccessorChainUpdated pk f u p c" None s] assms
  by (simp add: apply_cultivation_event_def encodes_def successor_chain_updated_node_type_def)

lemma chain_in_log_snoc:
  assumes "chain_in_log d es" and "iter_in_insertion_order d' = iter_in_insertion_order d @ [n]"
    and "encodes n (SuccessorChainUpdated pk f u p c)"
  shows "chain_in_log d' (es @ [\<lparr>se_pubkey = pk, se_valid_from = f, se_valid_until = u\<rparr>])"
proof -
  have "replay_events apply_cultivation_event (ns @ [n]) s =
      (case replay_events apply_cultivation_event ns s of
        (t, Ok _) \<Rightarrow> apply_cultivation_event n t
      | (t, Err e) \<Rightarrow> (t, Err e)
      | (t, Abort x) \<Rightarrow> (t, Abort x))" for ns s
    by (induction ns arbitrary: s) (auto split: prod.splits result.splits)
  then show ?thesis
    using assms(1) apply_cultivation_encoded [OF assms(3)]
    by (auto simp: chain_in_log_def rederive_cultivation_from_dag_def assms(2))
qed

section \<open>Properties\<close>



text \<open>
  Archiving is final: once a bet-retirement proposal has been accepted, the substrate is
  archived after every further sequence of handler calls and emissions, including successions and
  recoveries.
\<close>

lemma archive_is_final:
  assumes "server_inv pf s" and "handle_accept_bet_retired_proposal pf t m s = (s1, Ok r)"
  shows "is_archived (fold (server_step pf) ops s1)"
proof -
  obtain reason c h where emit: "emit_substrate_event pf (bet_retired_node_type reason) c s = (s1, Ok h)"
    using assms(2) unfolding handle_accept_bet_retired_proposal_def
    by (auto simp: bind_act_Ok lift_act_def)
  from assms(1) have "archived pf s1"
  proof (cases rule: emit_cases [where ty = "bet_retired_node_type reason" and c = c])
    case (logged s')
    then show ?thesis
      using emit by (auto simp: archived_def server_inv_def current_archived_iff logged_node_def
          bet_retired_node_type_def)
  qed (use emit in simp)
  then show ?thesis
    using archived_run [of pf s1 ops] by (simp add: archived_def is_archived_def)
qed

text \<open>
  The successor chain stays well formed and equal to the one its log yields. From such a state,
  a request to extend it either is refused, leaving the state as it was, or appends exactly one
  entry; in both cases the intervals are non-empty, do not overlap and follow one another, and a
  boot that derives the chain from the log finds the same chain.
\<close>

lemma update_successor_chain_sound:
  assumes "server_inv pf s" and "chain_ok (ss_successor_chain s)"
    and "chain_in_log (ss_dag s) (ss_successor_chain s)"
    and "handle_update_successor_chain pf m s = (s', r)"
  shows "chain_ok (ss_successor_chain s') \<and> chain_in_log (ss_dag s') (ss_successor_chain s') \<and>
    (if is_ok r then \<exists>e. ss_successor_chain s' = ss_successor_chain s @ [e] else s' = s)"
proof (cases "read_update_request (ss_successor_chain s) m")
  case (Ok e)
  let ?ty = "successor_chain_updated_node_type (se_pubkey e)" and
    ?c = "encode_successor_chain_updated (se_pubkey e) (se_valid_from e) (se_valid_until e)
      (word_of_nat (length (ss_successor_chain s))) (ss_cycle_counter s)"
  from assms(1) show ?thesis
  proof (cases rule: emit_cases [where ty = ?ty and c = ?c])
    case (failed err)
    then show ?thesis
      using assms by (auto simp: handle_update_successor_chain_def bind_act_def lift_act_def Ok)
  next
    case (logged s1)
    let ?n = "logged_node (pf_hash pf) (ss_dag s) ?ty (ss_cycle_counter s) ?c"
    have "encodes ?n (SuccessorChainUpdated (se_pubkey e) (se_valid_from e) (se_valid_until e)
        (word_of_nat (length (ss_successor_chain s))) (ss_cycle_counter s))"
      by (simp add: encodes_def logged_node_def)
    from chain_in_log_snoc [OF assms(3) logged(5) this] have "chain_in_log (ss_dag s1) (ss_successor_chain s @ [e])"
      by (cases e) simp
    then show ?thesis
      using assms(4) logged read_update_Ok [OF Ok assms(2)]
      by (auto simp: handle_update_successor_chain_def bind_act_def lift_act_def Ok push_successor_def)
  qed
qed (use assms in \<open>auto simp: handle_update_successor_chain_def bind_act_def lift_act_def\<close>)

lemma early_succession_refused:
  assumes "server_inv pf s" and "opt_arr32 (msg_payload m) ''successor_pubkey'' = Some pk"
    and "opt_arr32 (msg_payload m) ''prior_cultivator_pubkey'' = Some prior"
    and "opt_timestamp (msg_payload m) ''anchor_timestamp_unix_ns'' = Some t"
    and "opt_uint (msg_payload m) ''catechumenate_session_count'' = Some sessions"
    and "handle_accept_succession pf now m s = (s', r)"
    and "sessions < 50"
  shows "r = Err (SubProtocol (c46_evidence sessions)) \<and>
      (\<exists>ns. iter_in_insertion_order (ss_dag s') = iter_in_insertion_order (ss_dag s) @ ns \<and>
        length ns \<le> 1 \<and> list_all (\<lambda>n. node_type n = ''immune:C46_owner_succession_bypass'') ns)"
proof -
  let ?ev = "c46_evidence sessions"
  let ?emit = "emit_immune_sporocarp pf now ''C46_owner_succession_bypass'' ''owner_succession_bypass'' ?ev"
  have run: "handle_accept_succession pf now m s =
      bind_act (ignore_act ?emit) (\<lambda>_. lift_act (Err (SubProtocol ?ev))) s"
    using assms(2-5,7) by (simp add: handle_accept_succession_def payload_bytes32_def payload_timestamp_def
        catechumenate_below_min_def CATECHUMENATE_MIN_SESSIONS_def)
  from assms(1) show ?thesis
  proof (cases rule: immune_cases [where now = now and det = "''C46_owner_succession_bypass''"
        and name = "''owner_succession_bypass''" and ev = ?ev])
    case (logged s1 t1 c n)
    then show ?thesis
      using assms(6) unfolding run
      by (intro conjI exI [of _ "[n]"]) (auto simp: bind_act_def ignore_act_def lift_act_def logged_node_def)
  qed (use assms(6) in \<open>unfold run, intro conjI exI [of _ "[]"],
      auto simp: bind_act_def ignore_act_def lift_act_def\<close>)
qed

lemma succession_logged:
  assumes "server_inv pf s" and "opt_arr32 (msg_payload m) ''successor_pubkey'' = Some pk"
    and "opt_arr32 (msg_payload m) ''prior_cultivator_pubkey'' = Some prior"
    and "opt_timestamp (msg_payload m) ''anchor_timestamp_unix_ns'' = Some t"
    and "opt_uint (msg_payload m) ''catechumenate_session_count'' = Some sessions"
    and "handle_accept_succession pf now m s = (s', r)"
    and "\<not> sessions < 50"
  shows "(\<exists>e. r = Err e) \<and> s' = s \<or>
      is_ok r \<and> (\<exists>n. iter_in_insertion_order (ss_dag s') = iter_in_insertion_order (ss_dag s) @ [n] \<and>
        node_type n = succession_completed_node_type pk) \<and>
      ss_cultivation_state s' = (if is_archived s then CultArchived else CultNormal)"
proof -
  let ?ty = "succession_completed_node_type pk" and
    ?c = "encode_succession_completed pk prior t sessions (ss_cycle_counter s)"
  have run: "handle_accept_succession pf now m s = bind_act (emit_substrate_event pf ?ty ?c) (\<lambda>h s.
      (s, Ok (response MSG_ACCEPT_SUCCESSION_RESPONSE m
        [(''completed_event_hash'', VBytes (arr32_bytes h)),
         (''cultivation_state'', VString (cultivation_label (ss_cultivation_state s)))]))) s"
    using assms(2-5,7) by (simp add: handle_accept_succession_def payload_bytes32_def payload_timestamp_def
        catechumenate_below_min_def CATECHUMENATE_MIN_SESSIONS_def)
  from assms(1) show ?thesis
  proof (cases rule: emit_cases [where ty = ?ty and c = ?c])
    case (failed e)
    then show ?thesis
      using assms(6) unfolding run by (auto simp: bind_act_def)
  next
    case (logged s1)
    have "fst (cultivation_step ?ty cur) = (if snd cur then fst cur else CultNormal)" for cur
      by (simp add: cultivation_step_def succession_completed_node_type_def starts_with_def
          NODE_TYPE_SUCCESSION_COMPLETED_PREFIX_def NODE_TYPE_BET_RETIRED_PREFIX_def
          NODE_TYPE_CULTIVATION_RECOVERED_PREFIX_def NODE_TYPE_CULTIVATION_ORPHANED_PREFIX_def)
    moreover have "snd (fold (\<lambda>n. cultivation_step (node_type n)) (iter_in_insertion_order (ss_dag s))
        (CultNormal, False)) \<longleftrightarrow> is_archived s"
      using assms(1) cultivation_fold_archived [of "(CultNormal, False)"]
      by (simp add: is_archived_def server_inv_def current_cultivation_state_def)
    ultimately have "ss_cultivation_state s1 = (if is_archived s then CultArchived else CultNormal)"
      using assms(1) logged(2,5)
      by (auto simp: server_inv_def current_cultivation_state_def logged_node_def is_archived_def)
    then show ?thesis
      using assms(6) logged unfolding run by (auto simp: bind_act_def logged_node_def)
  qed
qed

text \<open>
  No succession below the catechumenate floor. A well-formed request that counts fewer than
  fifty sessions is refused, and the log gains no node but, at most, the C46 breach report; with
  fifty or more it either fails with the log unchanged or logs the succession, after which the
  substrate is in the normal state unless it was archived.
\<close>

lemma accept_succession_gate:
  assumes "server_inv pf s" and "opt_arr32 (msg_payload m) ''successor_pubkey'' = Some pk"
    and "opt_arr32 (msg_payload m) ''prior_cultivator_pubkey'' = Some prior"
    and "opt_timestamp (msg_payload m) ''anchor_timestamp_unix_ns'' = Some t"
    and "opt_uint (msg_payload m) ''catechumenate_session_count'' = Some sessions"
    and "handle_accept_succession pf now m s = (s', r)"
  shows "if sessions < 50
    then r = Err (SubProtocol (c46_evidence sessions)) \<and>
      (\<exists>ns. iter_in_insertion_order (ss_dag s') = iter_in_insertion_order (ss_dag s) @ ns \<and>
        length ns \<le> 1 \<and> list_all (\<lambda>n. node_type n = ''immune:C46_owner_succession_bypass'') ns)
    else (\<exists>e. r = Err e) \<and> s' = s \<or>
      is_ok r \<and> (\<exists>n. iter_in_insertion_order (ss_dag s') = iter_in_insertion_order (ss_dag s) @ [n] \<and>
        node_type n = succession_completed_node_type pk) \<and>
      ss_cultivation_state s' = (if is_archived s then CultArchived else CultNormal)"
  using early_succession_refused [OF assms] succession_logged [OF assms] by simp

definition early_request :: message where
  "early_request = new_message ''accept_succession'' 1 (bt_of
     [(''successor_pubkey'', VBytes (arr32_bytes 5)), (''prior_cultivator_pubkey'', VBytes (arr32_bytes 6)),
      (''anchor_timestamp_unix_ns'', VTimestamp 9), (''catechumenate_session_count'', VUint 49)])"

text \<open>
  A lift ends the quarantine. After a request to lift the birth-period quarantine has been
  answered, the substrate is not in quarantine, whether or not it was before, at whatever cycle it
  is asked.
\<close>

lemma lift_ends_quarantine:
  assumes "server_inv pf s" and "handle_lift_birth_period_quarantine pf now m s = (s', Ok r)"
  shows "(is_in_birth_period_quarantine (s'\<lparr>ss_cycle_counter := c\<rparr>) :: (bool, substrate_error) result) = Ok False"
proof -
  obtain q where q: "(current_quarantine_state (ss_dag s) :: (quarantine_state option, substrate_error) result) = Ok q"
    using assms(2) unfolding handle_lift_birth_period_quarantine_def by (auto simp: bind_act_Ok lift_act_def)
  show ?thesis
  proof (cases "\<exists>qs. q = Some qs \<and> \<not> lifted qs")
    case False
    then have "s' = s"
      using assms(2) unfolding handle_lift_birth_period_quarantine_def
      by (auto simp: q bind_act_Ok lift_act_def return_act_def Let_def split: option.splits)
    then show ?thesis
      using q False by (auto simp: is_in_birth_period_quarantine_def split: option.splits)
  next
    case True
    let ?ty = NODE_TYPE_BIRTH_PERIOD_QUARANTINE_LIFTED and
      ?c = "encode_birth_period_quarantine_lifted ''operator_signed_lift'' (ss_cycle_counter s) now"
    obtain h where emit: "emit_substrate_event pf ?ty ?c s = (s', Ok h)"
      using assms(2) True unfolding handle_lift_birth_period_quarantine_def
      by (auto simp: q bind_act_Ok lift_act_def Let_def)
    from assms(1) show ?thesis
    proof (cases rule: emit_cases [where ty = ?ty and c = ?c])
      case (logged s1)
      obtain entered was where walk: "try_fold quarantine_step (iter_in_insertion_order (ss_dag s)) (None, False) =
          (Ok (entered, was) :: (_, substrate_error) result)" and "entered \<noteq> None"
        using q True by (fastforce simp: current_quarantine_state_def)
      then have "(current_quarantine_state (ss_dag s1) :: (quarantine_state option, substrate_error) result) =
          Ok (map_option (\<lambda>(at_cycle, expires).
            \<lparr>entered_at_cycle = at_cycle, expires_at_cycle = expires, lifted = True\<rparr>) entered)"
        by (simp add: current_quarantine_state_def logged(5) try_fold_append quarantine_step_def logged_node_def
            NODE_TYPE_BIRTH_PERIOD_QUARANTINE_LIFTED_def NODE_TYPE_BIRTH_PERIOD_QUARANTINE_ENTERED_def)
      then show ?thesis
        using emit logged(1) by (auto simp: is_in_birth_period_quarantine_def split: option.splits)
    qed (use emit in simp)
  qed
qed

text \<open>A substrate born into a quarantine of ten cycles.\<close>

definition quarantined :: server_state where
  "quarantined = fst (emit_substrate_event chain_platform NODE_TYPE_BIRTH_PERIOD_QUARANTINE_ENTERED
     (encode_birth_period_quarantine_entered 3 [] 10 0) blank_state)"

end
