(* ===== verification/Consensus.thy ===== *)
theory Consensus
  imports Cultivation
begin

text \<open>
  The population-consensus floor at run time, \<^verbatim>\<open>substrate/src/consensus.rs\<close>: pins, rounds and
  tallies derived from the log, the certificate that a tally mints, the three operator requests and
  the gate on population actions. The writes of the log to disk, whose results the handlers drop,
  are not part of the state.
\<close>

section \<open>Derived from the log\<close>

definition consensus_floor_active :: "server_state \<Rightarrow> bool" where
  "consensus_floor_active s \<longleftrightarrow> CONSENSUS_FLOOR_MIN_PEERS \<le> length (fs_peers (ss_federation s))"

text \<open>The pins, as a map from identities to keys; the last pin of an identity wins.\<close>

type_synonym pins = "arr32 \<Rightarrow> arr32 option"

definition pin_step :: "server_state \<Rightarrow> dag_node \<Rightarrow> pins \<Rightarrow> (pins, 'e) result" where
  "pin_step s n out =
     (if \<not> starts_with (node_type n) NODE_TYPE_FEDERATION_PEER_PINNED_PREFIX then Ok out
      else and_then (decode_federation_peer_pinned_signer (content n)) (\<lambda>r.
        Ok (case r of
              Some (pid, pk) \<Rightarrow> if pid \<in> set (ss_revoked_peers s) then out else out(pid \<mapsto> pk)
            | None \<Rightarrow> out)))"

definition derive_pinned_signer_pubkeys :: "server_state \<Rightarrow> (pins, 'e) result" where
  "derive_pinned_signer_pubkeys s =
     try_fold (pin_step s) (iter_in_insertion_order (ss_dag s)) (\<lambda>_. None)"

definition pinned_peer_ids :: "server_state \<Rightarrow> arr32 list" where
  "pinned_peer_ids s = List.map_filter pc_substrate_id (fs_peers (ss_federation s))"

definition peer_set_size_n :: "server_state \<Rightarrow> nat" where
  "peer_set_size_n s =
     length (remdups (filter (\<lambda>i. i \<notin> set (ss_revoked_peers s)) (pinned_peer_ids s))) + 1"

text \<open>
  The votes of one claim type that the log holds, in order, folded. The round after the largest
  \<^verbatim>\<open>u64\<close> panics, as it does in a build that checks overflow.
\<close>

definition vote_fold ::
    "server_state \<Rightarrow> string \<Rightarrow> (population_vote \<Rightarrow> 'a \<Rightarrow> 'a) \<Rightarrow> 'a \<Rightarrow> ('a, 'e) result" where
  "vote_fold s ty f =
     try_fold (\<lambda>n acc.
       if node_type n \<noteq> population_vote_node_type ty then Ok acc
       else and_then (decode_population_vote (content n)) (\<lambda>r.
         Ok (case r of Some v \<Rightarrow> f v acc | None \<Rightarrow> acc)))
       (iter_in_insertion_order (ss_dag s))"

definition max_round :: "arr32 \<Rightarrow> population_vote \<Rightarrow> u64 option \<Rightarrow> u64 option" where
  "max_round ch v acc =
     (if pv_claim_hash v \<noteq> ch then acc
      else Some (case acc of None \<Rightarrow> pv_round_id v | Some r \<Rightarrow> max r (pv_round_id v)))"

definition next_round_id :: "server_state \<Rightarrow> string \<Rightarrow> arr32 \<Rightarrow> (u64, 'e) result" where
  "next_round_id s ty ch =
     and_then (vote_fold s ty (max_round ch) None) (\<lambda>m.
       case m of
         Some r \<Rightarrow> if r = - 1 then Abort Panicked else Ok (r + 1)
       | None \<Rightarrow> Ok 0)"

definition population_vote_already_recorded ::
    "server_state \<Rightarrow> string \<Rightarrow> arr32 \<Rightarrow> u64 \<Rightarrow> arr32 \<Rightarrow> (bool, 'e) result" where
  "population_vote_already_recorded s ty ch round voter =
     try_any (\<lambda>n.
       if node_type n \<noteq> population_vote_node_type ty then Ok False
       else and_then (decode_population_vote (content n)) (\<lambda>r.
         Ok (case r of
               Some v \<Rightarrow> pv_claim_hash v = ch \<and> pv_round_id v = round \<and> pv_voter v = voter
             | None \<Rightarrow> False)))
       (iter_in_insertion_order (ss_dag s))"

text \<open>The key a voter's signature is checked against: one's own, or the pinned one.\<close>

definition voter_key :: "platform \<Rightarrow> server_state \<Rightarrow> pins \<Rightarrow> pins" where
  "voter_key pf s pins voter =
     (if voter = substrate_id s then Some (substrate_signing_pubkey pf s) else pins voter)"

definition vote_counts :: "platform \<Rightarrow> server_state \<Rightarrow> pins \<Rightarrow> population_vote \<Rightarrow> bool" where
  "vote_counts pf s pins v =
     (case voter_key pf s pins (pv_voter v) of
        Some pk \<Rightarrow> verify_population_vote (pf_verify pf) v pk
      | None \<Rightarrow> False)"

definition tally_step ::
    "platform \<Rightarrow> server_state \<Rightarrow> pins \<Rightarrow> arr32 \<Rightarrow> u64 \<Rightarrow> population_vote \<Rightarrow> arr32 list \<times> nat \<Rightarrow> arr32 list \<times> nat" where
  "tally_step pf s pins ch round v acc =
     (if pv_claim_hash v \<noteq> ch \<or> pv_round_id v \<noteq> round then acc
      else (if vote_counts pf s pins v then List.insert (pv_voter v) (fst acc) else fst acc, Suc (snd acc)))"

definition tally_votes ::
    "platform \<Rightarrow> server_state \<Rightarrow> string \<Rightarrow> arr32 \<Rightarrow> u64 \<Rightarrow> pins \<Rightarrow> (nat \<times> nat, 'e) result" where
  "tally_votes pf s ty ch round pins =
     and_then (vote_fold s ty (tally_step pf s pins ch round) ([], 0)) (\<lambda>(verified, total).
       Ok (length verified, total))"

definition cert_vote_of :: "population_vote \<Rightarrow> cert_peer_vote" where
  "cert_vote_of v = \<lparr>cv_peer = pv_voter v, cv_signature = pv_signature v, cv_dag_tip = pv_dag_tip v\<rparr>"

definition collect_step ::
    "platform \<Rightarrow> server_state \<Rightarrow> pins \<Rightarrow> arr32 \<Rightarrow> u64 \<Rightarrow> population_vote \<Rightarrow> cert_peer_vote list \<Rightarrow> cert_peer_vote list" where
  "collect_step pf s pins ch round v out =
     (if pv_claim_hash v \<noteq> ch \<or> pv_round_id v \<noteq> round then out
      else if pv_voter v \<in> cv_peer ` set out then out
      else if vote_counts pf s pins v then out @ [cert_vote_of v] else out)"

definition collect_cert_votes ::
    "platform \<Rightarrow> server_state \<Rightarrow> string \<Rightarrow> arr32 \<Rightarrow> u64 \<Rightarrow> pins \<Rightarrow> (cert_peer_vote list, 'e) result" where
  "collect_cert_votes pf s ty ch round pins = vote_fold s ty (collect_step pf s pins ch round) []"

definition check_cert_node ::
    "platform \<Rightarrow> server_state \<Rightarrow> pins \<Rightarrow> nat \<Rightarrow> string \<Rightarrow> arr32 \<Rightarrow> dag_node \<Rightarrow>
      ((arr32 \<times> nat) option, 'e) result" where
  "check_cert_node pf s pins local_threshold ty ch n =
     (if node_type n \<noteq> population_consensus_reached_node_type ty then Ok None
      else and_then (decode_population_consensus_reached (content n)) (\<lambda>r.
        Ok (case r of
              None \<Rightarrow> None
            | Some cert \<Rightarrow>
                if qc_claim_hash cert \<noteq> ch then None
                else case verify_quorum_cert (pf_hash pf) (pf_verify pf) cert (voter_key pf s pins) of
                  Valid k \<Rightarrow> if local_threshold \<le> k then Some (node_hash n, k) else None
                | Invalid _ \<Rightarrow> None)))"

definition find_valid_quorum_cert ::
    "platform \<Rightarrow> server_state \<Rightarrow> string \<Rightarrow> arr32 \<Rightarrow> ((arr32 \<times> nat) option, 'e) result" where
  "find_valid_quorum_cert pf s ty ch =
     and_then (derive_pinned_signer_pubkeys s) (\<lambda>pins.
       try_find_map (check_cert_node pf s pins (quorum_threshold (peer_set_size_n s)) ty ch)
         (iter_in_insertion_order (ss_dag s)))"

section \<open>Activation\<close>

definition emit_consensus_floor_crossing_if_needed :: "platform \<Rightarrow> nat \<Rightarrow> unit action" where
  "emit_consensus_floor_crossing_if_needed pf prior s =
     (let now_count = length (fs_peers (ss_federation s));
          was_active = CONSENSUS_FLOOR_MIN_PEERS \<le> prior;
          is_active = CONSENSUS_FLOOR_MIN_PEERS \<le> now_count
      in if was_active = is_active then (s, Ok ())
         else if is_active
         then bind_act (emit_substrate_event pf NODE_TYPE_CONSENSUS_FLOOR_ACTIVATED
                (encode_consensus_floor_activated now_count (ss_cycle_counter s)
                  (peer_set_merkle_root (pf_hash pf) (pinned_peer_ids s)))) (\<lambda>_. return_act ()) s
         else bind_act (emit_substrate_event pf NODE_TYPE_CONSENSUS_FLOOR_DEACTIVATED
                (encode_consensus_floor_deactivated now_count (ss_cycle_counter s))) (\<lambda>_. return_act ()) s)"

section \<open>Minting\<close>

text \<open>Reading the state inside an action.\<close>

definition read_act :: "(server_state \<Rightarrow> ('a, substrate_error) result) \<Rightarrow> 'a action" where
  "read_act f s = (s, f s)"

definition recheck_quorum_and_maybe_emit_cert ::
    "platform \<Rightarrow> string \<Rightarrow> arr32 \<Rightarrow> bytes \<Rightarrow> u64 \<Rightarrow> arr32 option action" where
  "recheck_quorum_and_maybe_emit_cert pf ty ch payload round s0 =
     bind_act (read_act (\<lambda>s. find_valid_quorum_cert pf s ty ch)) (\<lambda>found.
       case found of
         Some (h, _) \<Rightarrow> return_act (Some h)
       | None \<Rightarrow>
           bind_act (read_act derive_pinned_signer_pubkeys) (\<lambda>pins.
           let n = peer_set_size_n s0; threshold = quorum_threshold n; cycle = ss_cycle_counter s0 in
           bind_act (read_act (\<lambda>s. tally_votes pf s ty ch round pins)) (\<lambda>(distinct_votes, total).
           bind_act (emit_substrate_event pf (byzantine_threshold_check_node_type ty)
               (encode_byzantine_threshold_check ty n (f_tolerated n) total distinct_votes round cycle)) (\<lambda>_.
             if distinct_votes < threshold
             then bind_act (emit_substrate_event pf (population_consensus_pending_node_type ty)
                    (encode_population_consensus_pending ty ch round distinct_votes threshold cycle))
                  (\<lambda>_. return_act None)
             else bind_act (read_act (\<lambda>s. collect_cert_votes pf s ty ch round pins)) (\<lambda>votes.
                  bind_act (emit_substrate_event pf (population_consensus_reached_node_type ty)
                    (encode_population_consensus_reached ty ch payload round n (f_tolerated n) votes cycle))
                  (\<lambda>h. return_act (Some h))))))) s0"

section \<open>Requests\<close>

definition unknown_claim_type :: "string \<Rightarrow> string" where
  "unknown_claim_type quoted = ''consensus: unknown claim_type '' @ quoted @
     '' (must be one of the three '' @ section_sign @
     ''6.5.b classes: peer_revocation / universal_junk_classification / '' @
     ''cross_substrate_aggregate_metric)''"

text \<open>The text quotes the claim type with Rust's \<^verbatim>\<open>Debug\<close>, the parameter \<open>quote\<close>.\<close>

definition require_claim_type :: "(string \<Rightarrow> string) \<Rightarrow> message \<Rightarrow> (string, substrate_error) result" where
  "require_claim_type quote request =
     (case opt_string (msg_payload request) ''claim_type'' of
        Some ty \<Rightarrow>
          if ty = [] then Err (SubProtocol ''consensus: claim_type must be a non-empty String'')
          else if from_claim_type ty = None then Err (SubProtocol (unknown_claim_type (quote ty)))
          else Ok ty
      | None \<Rightarrow> Err (SubProtocol ''consensus: claim_type must be a non-empty String''))"

definition claim_payload_field :: "string \<Rightarrow> message \<Rightarrow> (bytes, substrate_error) result" where
  "claim_payload_field handler request =
     ok_or (SubProtocol (handler @ '': claim_payload must be Bytes''))
       (opt_bytes (msg_payload request) ''claim_payload'')"

definition cert_hash_entry :: "arr32 option \<Rightarrow> (string \<times> Value) list" where
  "cert_hash_entry cert = (case cert of
     Some h \<Rightarrow> [(''consensus_reached_event_hash'', VBytes (arr32_bytes h))] | None \<Rightarrow> [])"

text \<open>The fields that every tally response shares.\<close>

definition tally_entries :: "string \<Rightarrow> arr32 \<Rightarrow> u64 \<Rightarrow> nat \<Rightarrow> nat \<Rightarrow> (string \<times> Value) list" where
  "tally_entries ty ch round votes n =
     [(''claim_type'', VString ty), (''claim_hash'', VBytes (arr32_bytes ch)), (''round_id'', VUint round),
      (''votes_received'', VUint (word_of_nat votes)),
      (''quorum_needed'', VUint (word_of_nat (quorum_threshold n))),
      (''peer_set_size_n'', VUint (word_of_nat n))]"

definition MSG_FEDERATION_PROPOSE_POPULATION_CLAIM_RESPONSE :: string where
  "MSG_FEDERATION_PROPOSE_POPULATION_CLAIM_RESPONSE = ''federation_propose_population_claim_response''"

definition own_vote :: "platform \<Rightarrow> server_state \<Rightarrow> string \<Rightarrow> bytes \<Rightarrow> u64 \<Rightarrow> population_vote" where
  "own_vote pf s ty payload round =
     (let ch = claim_hash (pf_hash pf) payload;
          vote_tip = (case tip (ss_dag s) of Some t \<Rightarrow> t | None \<Rightarrow> 0);
          msg = build_population_vote_signing_message ty ch (substrate_id s) round vote_tip
      in \<lparr>pv_claim_type = ty, pv_claim_hash = ch, pv_claim_payload = payload, pv_round_id = round,
          pv_voter = substrate_id s, pv_signature = pf_sign pf (ss_signing_seed s) msg, pv_dag_tip = vote_tip\<rparr>)"

definition handle_federation_propose_population_claim ::
    "platform \<Rightarrow> (string \<Rightarrow> string) \<Rightarrow> message \<Rightarrow> message option action" where
  "handle_federation_propose_population_claim pf quote request s0 =
     bind_act (lift_act (require_claim_type quote request)) (\<lambda>ty.
     bind_act (lift_act (claim_payload_field ''federation_propose_population_claim'' request)) (\<lambda>payload.
     let ch = claim_hash (pf_hash pf) payload in
     bind_act (read_act (\<lambda>s. next_round_id s ty ch)) (\<lambda>round.
     bind_act (emit_substrate_event pf (population_vote_node_type ty)
         (encode_population_vote (own_vote pf s0 ty payload round) (ss_cycle_counter s0))) (\<lambda>_.
     bind_act (recheck_quorum_and_maybe_emit_cert pf ty ch payload round) (\<lambda>cert.
     bind_act (read_act derive_pinned_signer_pubkeys) (\<lambda>pins.
     bind_act (read_act (\<lambda>s. tally_votes pf s ty ch round pins)) (\<lambda>(votes, _) s.
       (s, Ok (response MSG_FEDERATION_PROPOSE_POPULATION_CLAIM_RESPONSE request
          (tally_entries ty ch round votes (peer_set_size_n s) @
           [(''floor_active'', VBool (consensus_floor_active s))] @ cert_hash_entry cert)))))))))) s0"

definition MSG_FEDERATION_SUBMIT_PEER_VOTE_RESPONSE :: string where
  "MSG_FEDERATION_SUBMIT_PEER_VOTE_RESPONSE = ''federation_submit_peer_vote_response''"

definition reject_vote_response :: "message \<Rightarrow> string \<Rightarrow> message option" where
  "reject_vote_response request reason = response MSG_FEDERATION_SUBMIT_PEER_VOTE_RESPONSE request
     [(''accepted'', VBool False), (''reason'', VString reason)]"

definition record_vote :: "platform \<Rightarrow> population_vote \<Rightarrow> unit action" where
  "record_vote pf v =
     bind_act (read_act (\<lambda>s. population_vote_already_recorded s (pv_claim_type v) (pv_claim_hash v)
         (pv_round_id v) (pv_voter v))) (\<lambda>recorded s.
       if recorded then (s, Ok ())
       else bind_act (emit_substrate_event pf (population_vote_node_type (pv_claim_type v))
              (encode_population_vote v (ss_cycle_counter s))) (\<lambda>_. return_act ()) s)"

definition handle_federation_submit_peer_vote :: "platform \<Rightarrow> message \<Rightarrow> message option action" where
  "handle_federation_submit_peer_vote pf request =
     bind_act (lift_act (ok_or (SubProtocol ''federation_submit_peer_vote: vote_event_bytes must be Bytes'')
         (opt_bytes (msg_payload request) ''vote_event_bytes''))) (\<lambda>vote_bytes.
     bind_act (lift_act (decode_population_vote vote_bytes)) (\<lambda>decoded.
       case decoded of
         None \<Rightarrow> return_act (reject_vote_response request
           ''vote_event_bytes is not a well-formed population_vote body'')
       | Some v \<Rightarrow>
           bind_act (read_act derive_pinned_signer_pubkeys) (\<lambda>pins.
             case pins (pv_voter v) of
               None \<Rightarrow> return_act (reject_vote_response request
                 (''voter has no '' @ section_sign @ ''10 FED_HELLO pinned signer_pubkey (unpinned / legacy '' @
                  ''peer); vote cannot be verified''))
             | Some pk \<Rightarrow>
                 if \<not> verify_population_vote (pf_verify pf) v pk
                 then return_act (reject_vote_response request
                   ''peer vote signature failed Ed25519 verification against pinned signer_pubkey'')
                 else
                   bind_act (record_vote pf v) (\<lambda>_.
                   bind_act (recheck_quorum_and_maybe_emit_cert pf (pv_claim_type v) (pv_claim_hash v)
                       (pv_claim_payload v) (pv_round_id v)) (\<lambda>cert.
                   bind_act (read_act derive_pinned_signer_pubkeys) (\<lambda>pins1.
                   bind_act (read_act (\<lambda>s. tally_votes pf s (pv_claim_type v) (pv_claim_hash v)
                       (pv_round_id v) pins1)) (\<lambda>(votes, _) s.
                     (s, Ok (response MSG_FEDERATION_SUBMIT_PEER_VOTE_RESPONSE request
                        ([(''accepted'', VBool True)] @
                         tally_entries (pv_claim_type v) (pv_claim_hash v) (pv_round_id v) votes
                           (peer_set_size_n s) @
                         cert_hash_entry cert))))))))))"

definition MSG_FEDERATION_QUERY_CONSENSUS_RESPONSE :: string where
  "MSG_FEDERATION_QUERY_CONSENSUS_RESPONSE = ''federation_query_consensus_response''"

definition handle_federation_query_consensus ::
    "platform \<Rightarrow> (string \<Rightarrow> string) \<Rightarrow> message \<Rightarrow> message option action" where
  "handle_federation_query_consensus pf quote request =
     bind_act (lift_act (require_claim_type quote request)) (\<lambda>ty.
     bind_act (lift_act (claim_payload_field ''federation_query_consensus'' request)) (\<lambda>payload.
     let ch = claim_hash (pf_hash pf) payload in
     bind_act (read_act (\<lambda>s. next_round_id s ty ch)) (\<lambda>next.
     let round = sat_sub next 1 in
     bind_act (read_act derive_pinned_signer_pubkeys) (\<lambda>pins.
     bind_act (read_act (\<lambda>s. tally_votes pf s ty ch round pins)) (\<lambda>(votes, _).
     bind_act (read_act (\<lambda>s. find_valid_quorum_cert pf s ty ch)) (\<lambda>cert s.
       (s, Ok (response MSG_FEDERATION_QUERY_CONSENSUS_RESPONSE request
          (tally_entries ty ch round votes (peer_set_size_n s) @
           [(''status'', VString (if cert \<noteq> None then ''reached'' else ''pending'')),
            (''floor_active'', VBool (consensus_floor_active s))] @
           (case cert of
              Some (h, voters) \<Rightarrow> cert_hash_entry (Some h) @
                [(''cert_verified_voters'', VUint (word_of_nat voters))]
            | None \<Rightarrow> []))))))))))"

section \<open>The gate\<close>

definition c49_evidence :: "server_state \<Rightarrow> string \<Rightarrow> arr32 \<Rightarrow> string" where
  "c49_evidence s ty ch =
     ''C49_consensus_floor_bypass: population action class='' @ ty @
     '' attempted while the consensus floor is ACTIVE (peer_count='' @ decimal (length (fs_peers (ss_federation s))) @
     '' '' @ ge_sign @ '' '' @ decimal CONSENSUS_FLOOR_MIN_PEERS @ '') WITHOUT a valid '' @ ge_sign @
     ''2/3 population_consensus_reached:'' @ ty @ '' certificate for claim_hash='' @ hex_first_8_bytes ch"

definition check_c49_population_action_allowed ::
    "platform \<Rightarrow> server_state \<Rightarrow> population_claim_class \<Rightarrow> arr32 \<Rightarrow> (unit, string) result" where
  "check_c49_population_action_allowed pf s cls ch =
     (if \<not> consensus_floor_active s then Ok ()
      else and_then (find_valid_quorum_cert pf s (claim_type cls) ch) (\<lambda>cert.
        if cert \<noteq> None then Ok () else Err (c49_evidence s (claim_type cls) ch)))"

section \<open>Votes in the log\<close>

text \<open>The votes of a type that the log holds, and that reading them does not panic.\<close>

definition vote_in :: "string \<Rightarrow> dag_node \<Rightarrow> population_vote option" where
  "vote_in ty n =
     (if node_type n \<noteq> population_vote_node_type ty then None
      else case decode_population_vote (content n) :: (population_vote option, unit) result of
        Ok r \<Rightarrow> r | _ \<Rightarrow> None)"

definition logged_votes :: "server_state \<Rightarrow> string \<Rightarrow> population_vote list" where
  "logged_votes s ty = List.map_filter (vote_in ty) (iter_in_insertion_order (ss_dag s))"

lemma decode_with_Ok_any:
  "decode_with f bs = (Ok r :: (_, 'e) result) \<Longrightarrow> decode_with f bs = (Ok r :: (_, 'f) result)"
  by (cases "decode bs") (auto simp: decode_with_def decode_map_def)

lemma vote_fold_Ok:
  assumes "vote_fold s ty f acc = (Ok r :: (_, 'e) result)"
  shows "r = fold f (logged_votes s ty) acc"
proof -
  have "try_fold (\<lambda>n acc.
       if node_type n \<noteq> population_vote_node_type ty then Ok acc
       else and_then (decode_population_vote (content n)) (\<lambda>r.
         Ok (case r of Some v \<Rightarrow> f v acc | None \<Rightarrow> acc))) ns acc = (Ok r :: (_, 'e) result) \<Longrightarrow>
      r = fold f (List.map_filter (vote_in ty) ns) acc" for ns acc
  proof (induction ns arbitrary: acc)
    case (Cons n ns)
    show ?case
    proof (cases "node_type n = population_vote_node_type ty")
      case True
      then obtain q where q: "decode_population_vote (content n) = (Ok q :: (_, 'e) result)"
        using Cons.prems by auto
      then have "decode_population_vote (content n) = (Ok q :: (_, unit) result)"
        unfolding decode_population_vote_def by (rule decode_with_Ok_any)
      then have "vote_in ty n = q"
        using True by (simp add: vote_in_def)
      then show ?thesis
        using Cons.prems Cons.IH True q
        by (cases q) (simp_all add: List.map_filter_simps)
    next
      case False
      then show ?thesis
        using Cons by (simp add: List.map_filter_simps vote_in_def)
    qed
  qed (simp add: List.map_filter_simps)
  then show ?thesis
    using assms by (simp add: vote_fold_def logged_votes_def)
qed

text \<open>Whether the fold returns depends on the log alone.\<close>

lemma vote_fold_total:
  assumes "vote_fold s ty f acc = (Ok r :: (_, 'e) result)"
  shows "vote_fold s ty g acc' = (Ok (fold g (logged_votes s ty) acc') :: (_, 'f) result)"
proof -
  have "try_fold (\<lambda>n acc.
       if node_type n \<noteq> population_vote_node_type ty then Ok acc
       else and_then (decode_population_vote (content n)) (\<lambda>r.
         Ok (case r of Some v \<Rightarrow> f v acc | None \<Rightarrow> acc))) ns acc = (Ok r :: (_, 'e) result) \<Longrightarrow>
    \<exists>q. try_fold (\<lambda>n acc.
       if node_type n \<noteq> population_vote_node_type ty then Ok acc
       else and_then (decode_population_vote (content n)) (\<lambda>r.
         Ok (case r of Some v \<Rightarrow> g v acc | None \<Rightarrow> acc))) ns acc' = (Ok q :: (_, 'f) result)" for ns acc acc'
  proof (induction ns arbitrary: acc acc')
    case (Cons n ns)
    show ?case
    proof (cases "node_type n = population_vote_node_type ty")
      case True
      then obtain q where q: "decode_population_vote (content n) = (Ok q :: (_, 'e) result)"
        using Cons.prems by auto
      then have "decode_population_vote (content n) = (Ok q :: (_, 'f) result)"
        unfolding decode_population_vote_def by (rule decode_with_Ok_any)
      then show ?thesis
        using Cons q True by simp
    qed (use Cons in simp)
  qed simp
  then obtain q where "vote_fold s ty g acc' = (Ok q :: (_, 'f) result)"
    using assms unfolding vote_fold_def by blast
  with vote_fold_Ok [OF this] show ?thesis
    by simp
qed

text \<open>The votes that a round's tally looks at, and the ones it counts.\<close>

definition round_votes :: "server_state \<Rightarrow> string \<Rightarrow> arr32 \<Rightarrow> u64 \<Rightarrow> population_vote list" where
  "round_votes s ty ch round =
     filter (\<lambda>v. pv_claim_hash v = ch \<and> pv_round_id v = round) (logged_votes s ty)"

definition counted_voters ::
    "platform \<Rightarrow> server_state \<Rightarrow> pins \<Rightarrow> string \<Rightarrow> arr32 \<Rightarrow> u64 \<Rightarrow> arr32 set" where
  "counted_voters pf s pins ty ch round =
     pv_voter ` {v \<in> set (round_votes s ty ch round). vote_counts pf s pins v}"

lemma fold_tally:
  assumes "distinct (fst acc)"
  shows "set (fst (fold (tally_step pf s pins ch round) vs acc)) = set (fst acc) \<union>
      pv_voter ` {v \<in> set vs. pv_claim_hash v = ch \<and> pv_round_id v = round \<and> vote_counts pf s pins v} \<and>
    distinct (fst (fold (tally_step pf s pins ch round) vs acc)) \<and>
    snd (fold (tally_step pf s pins ch round) vs acc) = snd acc +
      length (filter (\<lambda>v. pv_claim_hash v = ch \<and> pv_round_id v = round) vs)"
  using assms by (induction vs arbitrary: acc) (auto simp: tally_step_def)

lemma tally_votes_Ok:
  assumes "tally_votes pf s ty ch round pins = (Ok (k, seen) :: (_, 'e) result)"
  shows "k = card (counted_voters pf s pins ty ch round)" and "seen = length (round_votes s ty ch round)"
proof -
  obtain verified where fold: "vote_fold s ty (tally_step pf s pins ch round) ([], 0) = (Ok (verified, seen) :: (_, 'e) result)"
    and k: "k = length verified"
    using assms by (auto simp: tally_votes_def)
  have res: "(verified, seen) = fold (tally_step pf s pins ch round) (logged_votes s ty) ([], 0)"
    by (rule vote_fold_Ok [OF fold])
  have "set verified = counted_voters pf s pins ty ch round" "distinct verified"
    "seen = length (round_votes s ty ch round)"
    using fold_tally [of "([], 0)" pf s pins ch round "logged_votes s ty"]
    by (auto simp: res [symmetric] counted_voters_def round_votes_def)
  then show "k = card (counted_voters pf s pins ty ch round)" and "seen = length (round_votes s ty ch round)"
    using k distinct_card by fastforce+
qed

text \<open>A derived pin set has no revoked peer.\<close>

lemma pins_not_revoked:
  assumes "derive_pinned_signer_pubkeys s = (Ok pins :: (_, 'e) result)"
  shows "dom pins \<inter> set (ss_revoked_peers s) = {}"
proof -
  have "try_fold (pin_step s) ns out = (Ok pins :: (_, 'e) result) \<Longrightarrow>
      dom out \<inter> set (ss_revoked_peers s) = {} \<Longrightarrow> dom pins \<inter> set (ss_revoked_peers s) = {}" for ns out
  proof (induction ns arbitrary: out)
    case (Cons n ns)
    obtain out1 where step: "pin_step s n out = (Ok out1 :: (_, 'e) result)"
      and rest: "try_fold (pin_step s) ns out1 = (Ok pins :: (_, 'e) result)"
      using Cons.prems(1) by auto
    have "out1 = out \<or> (\<exists>pid pk. pid \<notin> set (ss_revoked_peers s) \<and> out1 = out(pid \<mapsto> pk))"
      using step by (auto simp: pin_step_def split: if_split_asm option.split_asm prod.split_asm)
    then have "dom out1 \<inter> set (ss_revoked_peers s) = {}"
      using Cons.prems(2) by (elim disjE exE conjE) simp_all
    then show ?case
      using Cons.IH [OF rest] by blast
  qed simp
  from this [of "iter_in_insertion_order (ss_dag s)" "\<lambda>_. None"] show ?thesis
    using assms by (simp add: derive_pinned_signer_pubkeys_def)
qed

section \<open>Certificates in the log\<close>

lemma fold_collect:
  assumes "\<forall>cv \<in> set acc. \<exists>v. cv = cert_vote_of v \<and> Q v" and "distinct (map cv_peer acc)"
    and "\<And>v. v \<in> set vs \<Longrightarrow> pv_claim_hash v = ch \<Longrightarrow> pv_round_id v = round \<Longrightarrow>
      vote_counts pf s pins v \<Longrightarrow> Q v"
  shows "(\<forall>cv \<in> set (fold (collect_step pf s pins ch round) vs acc). \<exists>v. cv = cert_vote_of v \<and> Q v) \<and>
    distinct (map cv_peer (fold (collect_step pf s pins ch round) vs acc)) \<and>
    cv_peer ` set (fold (collect_step pf s pins ch round) vs acc) = cv_peer ` set acc \<union>
      pv_voter ` {v \<in> set vs. pv_claim_hash v = ch \<and> pv_round_id v = round \<and> vote_counts pf s pins v}"
  using assms
proof (induction vs arbitrary: acc)
  case (Cons v vs)
  let ?acc = "collect_step pf s pins ch round v acc"
  have "\<forall>cv \<in> set ?acc. \<exists>v. cv = cert_vote_of v \<and> Q v" "distinct (map cv_peer ?acc)"
    using Cons.prems by (auto simp: collect_step_def cert_vote_of_def)
  moreover have "cv_peer ` set ?acc = cv_peer ` set acc \<union>
      (if pv_claim_hash v = ch \<and> pv_round_id v = round \<and> vote_counts pf s pins v then {pv_voter v} else {})"
    by (auto simp: collect_step_def cert_vote_of_def)
  ultimately show ?case
    using Cons.IH [of ?acc] Cons.prems(3) by auto
qed simp

text \<open>The votes collected for a certificate are one per counted voter, as that voter signed it.\<close>

lemma collected_votes:
  assumes "collect_cert_votes pf s ty ch round pins = (Ok votes :: (_, 'e) result)"
  shows "cv_peer ` set votes = counted_voters pf s pins ty ch round" and "distinct (map cv_peer votes)"
    and "\<And>cv. cv \<in> set votes \<Longrightarrow> \<exists>v \<in> set (logged_votes s ty). cv = cert_vote_of v \<and>
      pv_claim_hash v = ch \<and> pv_round_id v = round \<and> vote_counts pf s pins v"
proof -
  let ?Q = "\<lambda>v. v \<in> set (logged_votes s ty) \<and> pv_claim_hash v = ch \<and> pv_round_id v = round \<and>
    vote_counts pf s pins v"
  have "votes = fold (collect_step pf s pins ch round) (logged_votes s ty) []"
    by (rule vote_fold_Ok [OF assms [unfolded collect_cert_votes_def]])
  then have facts: "(\<forall>cv \<in> set votes. \<exists>v. cv = cert_vote_of v \<and> ?Q v) \<and> distinct (map cv_peer votes) \<and>
      cv_peer ` set votes = pv_voter ` {v \<in> set (logged_votes s ty). pv_claim_hash v = ch \<and>
        pv_round_id v = round \<and> vote_counts pf s pins v}"
    using fold_collect [of "[]" ?Q "logged_votes s ty" ch round pf s pins] by simp
  have "{v \<in> set (logged_votes s ty). pv_claim_hash v = ch \<and> pv_round_id v = round \<and> vote_counts pf s pins v} =
      {v \<in> set (round_votes s ty ch round). vote_counts pf s pins v}"
    by (auto simp: round_votes_def)
  with facts show "cv_peer ` set votes = counted_voters pf s pins ty ch round"
    by (simp add: counted_voters_def)
  show "distinct (map cv_peer votes)"
    using facts by simp
  show "\<exists>v \<in> set (logged_votes s ty). cv = cert_vote_of v \<and>
      pv_claim_hash v = ch \<and> pv_round_id v = round \<and> vote_counts pf s pins v" if "cv \<in> set votes" for cv
    using facts that by blast
qed

lemma signed_by_minted:
  assumes "collect_cert_votes pf s ty ch round pins = (Ok votes :: (_, 'e) result)"
    and "\<And>v. v \<in> set (logged_votes s ty) \<Longrightarrow> pv_claim_type v = ty"
  shows "signed_by (pf_verify pf) (minted_cert ty ch payload round n f votes) (voter_key pf s pins) =
    counted_voters pf s pins ty ch round"
proof -
  have "\<exists>pk. voter_key pf s pins (cv_peer cv) = Some pk \<and> pf_verify pf pk (cv_signature cv)
      (cert_message (minted_cert ty ch payload round n f votes) cv)" if cv: "cv \<in> set votes" for cv
  proof -
    obtain v where v: "v \<in> set (logged_votes s ty)" "cv = cert_vote_of v" "pv_claim_hash v = ch"
        "pv_round_id v = round" "vote_counts pf s pins v"
      using collected_votes(3) [OF assms(1) cv] by blast
    then have "cert_message (minted_cert ty ch payload round n f votes) cv = vote_message v"
      using assms(2) by (simp add: cert_message_def minted_cert_def vote_message_def cert_vote_of_def)
    then show ?thesis
      using v by (auto simp: vote_counts_def cert_vote_of_def verify_population_vote_def split: option.splits)
  qed
  then have "signed_by (pf_verify pf) (minted_cert ty ch payload round n f votes) (voter_key pf s pins) =
      cv_peer ` set votes"
    by (auto simp: signed_by_def minted_cert_def)
  then show ?thesis
    using collected_votes(1) [OF assms(1)] by simp
qed

text \<open>What a fresh mint leaves: the threshold check and the certificate, after the old log.\<close>

lemma keeps_read [keeps_intros]: "keeps P (read_act f)"
  by (simp add: keeps_def read_act_def)

lemma mint_log:
  assumes "server_inv pf s" and "recheck_quorum_and_maybe_emit_cert pf ty ch payload round s = (s', Ok (Some h))"
    and "find_valid_quorum_cert pf s ty ch = (Ok None :: (_, substrate_error) result)"
  obtains pins votes n1 n2 s1 where "derive_pinned_signer_pubkeys s = (Ok pins :: (_, substrate_error) result)"
    and "collect_cert_votes pf s1 ty ch round pins = (Ok votes :: (_, substrate_error) result)"
    and "quorum_threshold (peer_set_size_n s) \<le> card (counted_voters pf s pins ty ch round)"
    and "iter_in_insertion_order (ss_dag s1) = iter_in_insertion_order (ss_dag s) @ [n1]"
    and "iter_in_insertion_order (ss_dag s') = iter_in_insertion_order (ss_dag s) @ [n1, n2]"
    and "node_type n1 = byzantine_threshold_check_node_type ty"
    and "node_type n2 = population_consensus_reached_node_type ty" and "node_hash n2 = h"
    and "content n2 = encode_population_consensus_reached ty ch payload round (peer_set_size_n s)
      (f_tolerated (peer_set_size_n s)) votes (ss_cycle_counter s)"
    and "same_identity s s1" and "same_identity s s'"
proof -
  let ?n = "peer_set_size_n s"
  obtain pins k seen s1 h1 where pins: "derive_pinned_signer_pubkeys s = (Ok pins :: (_, substrate_error) result)"
    and tally: "tally_votes pf s ty ch round pins = (Ok (k, seen) :: (_, substrate_error) result)"
    and emit1: "emit_substrate_event pf (byzantine_threshold_check_node_type ty)
      (encode_byzantine_threshold_check ty ?n (f_tolerated ?n) seen k round (ss_cycle_counter s)) s = (s1, Ok h1)"
    and rest: "(if k < quorum_threshold ?n
      then bind_act (emit_substrate_event pf (population_consensus_pending_node_type ty)
             (encode_population_consensus_pending ty ch round k (quorum_threshold ?n) (ss_cycle_counter s)))
           (\<lambda>_. return_act None)
      else bind_act (read_act (\<lambda>s. collect_cert_votes pf s ty ch round pins)) (\<lambda>votes.
           bind_act (emit_substrate_event pf (population_consensus_reached_node_type ty)
             (encode_population_consensus_reached ty ch payload round ?n (f_tolerated ?n) votes (ss_cycle_counter s)))
           (\<lambda>h. return_act (Some h)))) s1 = (s', Ok (Some h))"
    using assms(2) unfolding recheck_quorum_and_maybe_emit_cert_def
    by (auto simp: bind_act_Ok read_act_def assms(3) Let_def)
  have reached: "\<not> k < quorum_threshold ?n"
    using rest by (auto simp: bind_act_Ok return_act_def split: if_splits)
  then obtain votes h2 where votes: "collect_cert_votes pf s1 ty ch round pins = (Ok votes :: (_, substrate_error) result)"
    and emit2: "emit_substrate_event pf (population_consensus_reached_node_type ty)
      (encode_population_consensus_reached ty ch payload round ?n (f_tolerated ?n) votes (ss_cycle_counter s)) s1 =
      (s', Ok h)"
    using rest by (auto simp: bind_act_Ok return_act_def read_act_def)
  from assms(1) show thesis
  proof (cases rule: emit_cases [where ty = "byzantine_threshold_check_node_type ty" and
        c = "encode_byzantine_threshold_check ty ?n (f_tolerated ?n) seen k round (ss_cycle_counter s)"])
    case (logged t)
    then have t: "t = s1"
      using emit1 by simp
    have cyc: "ss_cycle_counter s1 = ss_cycle_counter s"
      using logged(3) t by (simp add: same_identity_def)
    from logged(2) [unfolded t] show thesis
    proof (cases rule: emit_cases [where ty = "population_consensus_reached_node_type ty" and
          c = "encode_population_consensus_reached ty ch payload round ?n (f_tolerated ?n) votes (ss_cycle_counter s)"])
      case two: (logged u)
      have "same_identity s s'"
        using two(1,3) emit2 logged(3) t by (simp add: same_identity_def)
      then show thesis
        using that pins votes tally_votes_Ok(1) [OF tally] reached logged two emit2 t cyc
        by (simp add: logged_node_def not_less)
    qed (use emit2 in simp)
  qed (use emit1 in simp)
qed

text \<open>What a later state reads, when only nodes of the floor's own kinds have been added.\<close>

lemmas floor_type_defs = byzantine_threshold_check_node_type_def population_consensus_reached_node_type_def
  population_vote_node_type_def population_consensus_pending_node_type_def
  NODE_TYPE_BYZANTINE_THRESHOLD_CHECK_PREFIX_def NODE_TYPE_POPULATION_CONSENSUS_REACHED_PREFIX_def
  NODE_TYPE_POPULATION_VOTE_PREFIX_def NODE_TYPE_POPULATION_CONSENSUS_PENDING_PREFIX_def
  NODE_TYPE_FEDERATION_PEER_PINNED_PREFIX_def starts_with_def

lemma same_voter_key: "same_identity s s' \<Longrightarrow> voter_key pf s' pins = voter_key pf s pins"
  by (rule ext) (simp add: same_identity_def voter_key_def substrate_id_def substrate_signing_pubkey_def)

lemma same_vote_counts: "same_identity s s' \<Longrightarrow> vote_counts pf s' pins v = vote_counts pf s pins v"
  by (simp add: vote_counts_def same_voter_key)

lemma same_peer_set: "same_identity s s' \<Longrightarrow> peer_set_size_n s' = peer_set_size_n s"
  by (simp add: same_identity_def peer_set_size_n_def pinned_peer_ids_def)

lemma same_cert_check:
  assumes "same_identity s s'"
  shows "check_cert_node pf s' pins t ty ch = check_cert_node pf s pins t ty ch"
  unfolding check_cert_node_def [abs_def] same_voter_key [OF assms] ..

lemma logged_votes_append:
  "iter_in_insertion_order (ss_dag s') = iter_in_insertion_order (ss_dag s) @ [n] \<Longrightarrow>
    node_type n \<noteq> population_vote_node_type ty \<Longrightarrow> logged_votes s' ty = logged_votes s ty"
  by (simp add: logged_votes_def List.map_filter_def vote_in_def)

lemma derive_pins_append:
  assumes "same_identity s s'" and "derive_pinned_signer_pubkeys s = (Ok pins :: (_, 'e) result)"
    and "iter_in_insertion_order (ss_dag s') = iter_in_insertion_order (ss_dag s) @ ns"
    and "list_all (\<lambda>n. \<not> starts_with (node_type n) NODE_TYPE_FEDERATION_PEER_PINNED_PREFIX) ns"
  shows "derive_pinned_signer_pubkeys s' = (Ok pins :: (_, 'e) result)"
proof -
  have revoked: "ss_revoked_peers s' = ss_revoked_peers s"
    using assms(1) by (simp add: same_identity_def)
  have "pin_step s' = (pin_step s :: dag_node \<Rightarrow> pins \<Rightarrow> (pins, 'e) result)"
    unfolding pin_step_def [abs_def] revoked ..
  moreover have "try_fold (pin_step s) ns out = Ok out" for out :: pins
    using assms(4) by (induction ns) (simp_all add: pin_step_def)
  ultimately show ?thesis
    using assms(2) by (simp add: derive_pinned_signer_pubkeys_def assms(3) try_fold_append)
qed

lemma find_cert_Ok:
  assumes "find_valid_quorum_cert pf s ty ch = (Ok r :: (_, 'e) result)"
  obtains pins where "derive_pinned_signer_pubkeys s = (Ok pins :: (_, 'e) result)"
    and "try_find_map (check_cert_node pf s pins (quorum_threshold (peer_set_size_n s)) ty ch)
      (iter_in_insertion_order (ss_dag s)) = (Ok r :: (_, 'e) result)"
  using assms by (auto simp: find_valid_quorum_cert_def)

lemma try_find_map_append:
  "try_find_map f xs = Ok None \<Longrightarrow> try_find_map f (xs @ ys) = try_find_map f ys"
  by (induction xs) (auto split: option.splits)

text \<open>The certificate just minted is what the next search finds, or does not.\<close>

lemma find_after_mint:
  assumes "server_inv pf s" and "recheck_quorum_and_maybe_emit_cert pf ty ch payload round s = (s', Ok (Some h))"
    and "find_valid_quorum_cert pf s ty ch = (Ok None :: (_, substrate_error) result)"
    and "fits ty" and "length payload < 2 ^ 32" and "length (logged_votes s ty) < 2 ^ 32"
    and "\<And>v. v \<in> set (logged_votes s ty) \<Longrightarrow> pv_claim_type v = ty"
    and "peer_set_size_n s < 2 ^ 64"
    and "derive_pinned_signer_pubkeys s = (Ok pins :: (_, substrate_error) result)"
    and "find_valid_quorum_cert pf s ty ch = (Ok None :: (_, 'e) result)"
    and "derive_pinned_signer_pubkeys s = (Ok pins :: (_, 'e) result)"
  shows "find_valid_quorum_cert pf s' ty ch = (Ok (if pf_hash pf payload = ch
      then Some (h, card (counted_voters pf s pins ty ch round)) else None) :: (_, 'e) result)"
    and "quorum_threshold (peer_set_size_n s) \<le> card (counted_voters pf s pins ty ch round)"
proof -
  obtain votes n1 n2 s1 where votes: "collect_cert_votes pf s1 ty ch round pins = (Ok votes :: (_, substrate_error) result)"
    and quorum: "quorum_threshold (peer_set_size_n s) \<le> card (counted_voters pf s pins ty ch round)"
    and log1: "iter_in_insertion_order (ss_dag s1) = iter_in_insertion_order (ss_dag s) @ [n1]"
    and log2: "iter_in_insertion_order (ss_dag s') = iter_in_insertion_order (ss_dag s) @ [n1, n2]"
    and ty1: "node_type n1 = byzantine_threshold_check_node_type ty"
    and ty2: "node_type n2 = population_consensus_reached_node_type ty" and h: "node_hash n2 = h"
    and body: "content n2 = encode_population_consensus_reached ty ch payload round (peer_set_size_n s)
      (f_tolerated (peer_set_size_n s)) votes (ss_cycle_counter s)"
    and same1: "same_identity s s1" and same2: "same_identity s s'"
    using mint_log [OF assms(1-3)] assms(9) by (metis result.inject(1))
  let ?cert = "minted_cert ty ch payload round (peer_set_size_n s) (f_tolerated (peer_set_size_n s)) votes"
  have voted: "logged_votes s1 ty = logged_votes s ty"
    by (rule logged_votes_append [OF log1]) (simp add: ty1 floor_type_defs)
  have counted: "counted_voters pf s1 pins ty ch round = counted_voters pf s pins ty ch round"
    by (simp add: counted_voters_def round_votes_def voted same_vote_counts [OF same1])
  have "card (cv_peer ` set votes) = length votes"
    using collected_votes(2) [OF votes] distinct_card [of "map cv_peer votes"] by simp
  moreover have "card (cv_peer ` set votes) \<le> length (logged_votes s ty)"
    unfolding collected_votes(1) [OF votes] counted counted_voters_def round_votes_def
    by (rule order_trans [OF card_image_le], simp)
      (rule order_trans [OF card_mono card_length], auto simp: voted)
  ultimately have few: "length votes < 2 ^ 32"
    using assms(6) by simp
  have dec: "decode_population_consensus_reached (content n2) = (Ok (Some ?cert) :: (_, 'e) result)"
    unfolding body by (rule decode_encode_cert [OF cert_fields_ok [OF assms(4,5) few]])
  have signed: "signed_by (pf_verify pf) ?cert (voter_key pf s pins) = counted_voters pf s pins ty ch round"
    using signed_by_minted [OF votes] assms(7)
    by (simp add: voted counted same_voter_key [OF same1])
  have size: "unat (qc_peer_set_size_n ?cert) = peer_set_size_n s"
    using assms(8) by (simp add: minted_cert_def unat_of_nat)
  have "verify_quorum_cert (pf_hash pf) (pf_verify pf) ?cert (voter_key pf s pins) =
      Valid (card (counted_voters pf s pins ty ch round))" if "pf_hash pf payload = ch"
    using quorum that by (simp add: verify_quorum_cert_iff signed size) (simp add: minted_cert_def)
  moreover have "\<exists>m. verify_quorum_cert (pf_hash pf) (pf_verify pf) ?cert (voter_key pf s pins) = Invalid m"
    if "pf_hash pf payload \<noteq> ch"
    using that by (simp add: verify_quorum_cert_def claim_hash_def minted_cert_def)
  ultimately have new: "check_cert_node pf s pins (quorum_threshold (peer_set_size_n s)) ty ch n2 =
      (Ok (if pf_hash pf payload = ch then Some (h, card (counted_voters pf s pins ty ch round)) else None) ::
        (_, 'e) result)"
    using quorum h by (auto simp: check_cert_node_def ty2 dec minted_cert_def [of ty ch payload round])
  have other: "check_cert_node pf s pins (quorum_threshold (peer_set_size_n s)) ty ch n1 =
      (Ok None :: (_, 'e) result)"
    by (simp add: check_cert_node_def ty1 floor_type_defs)
  have old: "try_find_map (check_cert_node pf s pins (quorum_threshold (peer_set_size_n s)) ty ch)
      (iter_in_insertion_order (ss_dag s)) = (Ok None :: (_, 'e) result)"
    using assms(10,11) by (simp add: find_valid_quorum_cert_def)
  have "derive_pinned_signer_pubkeys s' = (Ok pins :: (_, 'e) result)"
    by (rule derive_pins_append [OF same2 assms(11) log2]) (simp add: ty1 ty2 floor_type_defs)
  then show "find_valid_quorum_cert pf s' ty ch = (Ok (if pf_hash pf payload = ch
      then Some (h, card (counted_voters pf s pins ty ch round)) else None) :: (_, 'e) result)"
    using new other
    by (simp add: find_valid_quorum_cert_def same_peer_set [OF same2] same_cert_check [OF same2] log2
        try_find_map_append [OF old])
  show "quorum_threshold (peer_set_size_n s) \<le> card (counted_voters pf s pins ty ch round)"
    by (rule quorum)
qed

section \<open>Rounds\<close>

lemma fold_max_round:
  "fold (max_round ch) vs acc = None \<longleftrightarrow> acc = None \<and> (\<forall>v \<in> set vs. pv_claim_hash v \<noteq> ch)"
  "fold (max_round ch) vs acc = Some r \<Longrightarrow> (\<forall>v \<in> set vs. pv_claim_hash v = ch \<longrightarrow> pv_round_id v \<le> r) \<and>
    (\<forall>q. acc = Some q \<longrightarrow> q \<le> r)"
proof -
  show "fold (max_round ch) vs acc = None \<longleftrightarrow> acc = None \<and> (\<forall>v \<in> set vs. pv_claim_hash v \<noteq> ch)"
    by (induction vs arbitrary: acc) (auto simp: max_round_def)
  show "fold (max_round ch) vs acc = Some r \<Longrightarrow> (\<forall>v \<in> set vs. pv_claim_hash v = ch \<longrightarrow> pv_round_id v \<le> r) \<and>
    (\<forall>q. acc = Some q \<longrightarrow> q \<le> r)"
  proof (induction vs arbitrary: acc)
    case (Cons v vs)
    let ?acc = "max_round ch v acc"
    have "(\<forall>v \<in> set vs. pv_claim_hash v = ch \<longrightarrow> pv_round_id v \<le> r) \<and> (\<forall>q. ?acc = Some q \<longrightarrow> q \<le> r)"
      using Cons by simp
    then show ?case
      by (cases acc) (auto simp: max_round_def split: if_splits)
  qed simp
qed

lemma round_after_max:
  assumes "vote_fold s ty (max_round ch) None = (Ok m :: (_, 'e) result)"
    and "v \<in> set (logged_votes s ty)" and "pv_claim_hash v = ch"
  obtains r where "m = Some r" and "pv_round_id v \<le> r"
proof -
  have m: "m = fold (max_round ch) (logged_votes s ty) None"
    by (rule vote_fold_Ok [OF assms(1)])
  then obtain r where "m = Some r"
    using assms(2,3) fold_max_round(1) [of ch "logged_votes s ty" None] by (cases m) auto
  then show thesis
    using that m fold_max_round(2) [of ch "logged_votes s ty" None r] assms(2,3) by auto
qed

section \<open>Properties\<close>

text \<open>
  A fresh round is above every recorded one: the round that a proposal opens for a claim
  exceeds the round of each vote for that claim in the log. There is no such round, and the
  substrate panics, once a vote for the claim carries the largest round.
\<close>

lemma next_round_is_fresh:
  assumes "v \<in> set (logged_votes s ty)" and "pv_claim_hash v = ch"
    and "vote_fold s ty (max_round ch) None = (Ok m :: (_, substrate_error) result)"
  shows "case (next_round_id s ty ch :: (u64, substrate_error) result) of
      Ok r \<Rightarrow> pv_round_id v < r
    | Err e \<Rightarrow> False
    | Abort x \<Rightarrow> x = Panicked \<and> m = Some (- 1)"
proof -
  obtain r where r: "m = Some r" "pv_round_id v \<le> r"
    by (rule round_after_max [OF assms(3,1,2)])
  show ?thesis
  proof (cases "r = - 1")
    case False
    then have "1 + r \<noteq> 0"
      by (metis add.inverse_inverse add_eq_0_iff)
    then have "r < r + 1"
      using unatSuc [of r] by (simp add: word_less_nat_alt add.commute)
    then show ?thesis
      using r False assms(3) by (simp add: next_round_id_def)
  qed (use r assms(3) in \<open>simp add: next_round_id_def\<close>)
qed


text \<open>
  The witnesses' substrate: three anonymous peer connections, so that the floor is active with a
  participant set of one, and its own vote for a claim in the log.
\<close>

definition lone_vote :: "bytes \<Rightarrow> population_vote" where
  "lone_vote payload = \<lparr>pv_claim_type = claim_type PeerRevocation, pv_claim_hash = 1, pv_claim_payload = payload,
     pv_round_id = 0, pv_voter = 7, pv_signature = 0, pv_dag_tip = 0\<rparr>"

definition silent_peer :: peer_connection where
  "silent_peer = \<lparr>pc_stream = \<lparr>rx = [], tx = \<lparr>written = [], room = None, write_failure = IoErr [], flush_failure = None\<rparr>\<rparr>,
     pc_state = AwaitingHello, pc_substrate_id = None, pc_signer_pubkey = None, pc_remote_addr = [], pc_opened_at = 0\<rparr>"

definition three_peers :: federation_state where
  "three_peers = (new_federation_state False)\<lparr>fs_peers := [silent_peer, silent_peer, silent_peer]\<rparr>"

definition lone_state :: "bytes \<Rightarrow> server_state" where
  "lone_state payload = fst (emit_substrate_event chain_platform
     (population_vote_node_type (claim_type PeerRevocation)) (encode_population_vote (lone_vote payload) 0)
     (blank_state\<lparr>ss_federation := three_peers\<rparr>))"

lemma lone_dag:
  "ss_dag (lone_state p) = \<lparr>nodes = [(0, \<lparr>node_hash = 0, parent_hashes = [],
      node_type = population_vote_node_type (claim_type PeerRevocation), created_at_cycle = 0,
      content = encode_population_vote (lone_vote p) 0\<rparr>)], insertion_order = [0], tip = Some 0\<rparr>"
  "ss_cycle_counter (lone_state p) = 0" "ss_federation (lone_state p) = three_peers"
  "substrate_id (lone_state p) = 7" "server_inv chain_platform (lone_state p)"
proof -
  have "server_inv chain_platform (blank_state\<lparr>ss_federation := three_peers\<rparr>)"
    using server_inv_blank [of chain_platform] by (simp add: server_inv_def)
  then show "server_inv chain_platform (lone_state p)"
    unfolding lone_state_def by (rule keepsD [OF keeps_emit])
qed (simp_all add: lone_state_def emit_substrate_event_def blank_state_def Let_def insert_node_def dag_new_def
    tip_parents_def dag_get_def check_parents_def substrate_id_def is_cultivation_family_node_type_def
    starts_with_def floor_type_defs NODE_TYPE_BET_RETIRED_PREFIX_def NODE_TYPE_CULTIVATION_RECOVERED_PREFIX_def
    NODE_TYPE_CULTIVATION_ORPHANED_PREFIX_def NODE_TYPE_SUCCESSION_COMPLETED_PREFIX_def)

lemma lone_iter: "iter_in_insertion_order (ss_dag (lone_state p)) = [\<lparr>node_hash = 0, parent_hashes = [],
    node_type = population_vote_node_type (claim_type PeerRevocation), created_at_cycle = 0,
    content = encode_population_vote (lone_vote p) 0\<rparr>]"
  by (simp add: iter_in_insertion_order_def lone_dag(1) dag_get_def List.map_filter_simps)

lemma lone_reads:
  assumes "length p < 2 ^ 32"
  shows "logged_votes (lone_state p) (claim_type PeerRevocation) = [lone_vote p]"
    and "vote_fold (lone_state p) (claim_type PeerRevocation) f acc = (Ok (f (lone_vote p) acc) :: (_, 'e) result)"
    and "derive_pinned_signer_pubkeys (lone_state p) = (Ok (\<lambda>_. None) :: (_, 'e) result)"
    and "peer_set_size_n (lone_state p) = 1"
    and "find_valid_quorum_cert chain_platform (lone_state p) (claim_type PeerRevocation) 1 = (Ok None :: (_, 'e) result)"
    and "vote_counts chain_platform (lone_state p) (\<lambda>_. None) (lone_vote p)"
proof -
  have dec: "decode_population_vote (encode_population_vote (lone_vote p) 0) = (Ok (Some (lone_vote p)) :: (_, 'f) result)"
    by (rule decode_encode_vote) (use assms in \<open>simp add: vote_fits_def lone_vote_def fits_def\<close>)
  show "logged_votes (lone_state p) (claim_type PeerRevocation) = [lone_vote p]"
    by (simp add: logged_votes_def lone_iter List.map_filter_simps vote_in_def dec del: claim_type.simps)
  show "vote_fold (lone_state p) (claim_type PeerRevocation) f acc = (Ok (f (lone_vote p) acc) :: (_, 'e) result)"
    by (simp add: vote_fold_def lone_iter dec del: claim_type.simps)
  show pins: "derive_pinned_signer_pubkeys (lone_state p) = (Ok (\<lambda>_. None) :: (_, 'e) result)"
    by (simp add: derive_pinned_signer_pubkeys_def lone_iter pin_step_def floor_type_defs)
  show "peer_set_size_n (lone_state p) = 1"
    by (simp add: peer_set_size_n_def pinned_peer_ids_def lone_dag(3) three_peers_def silent_peer_def List.map_filter_simps)
  show "find_valid_quorum_cert chain_platform (lone_state p) (claim_type PeerRevocation) 1 = (Ok None :: (_, 'e) result)"
    by (simp add: find_valid_quorum_cert_def pins lone_iter check_cert_node_def floor_type_defs)
  show "vote_counts chain_platform (lone_state p) (\<lambda>_. None) (lone_vote p)"
    by (simp add: vote_counts_def voter_key_def lone_dag(4) verify_population_vote_def chain_platform_def)
      (simp add: lone_vote_def)
qed

text \<open>
  C29. What minting is worth. When the tally reaches the quorum and no valid certificate exists, the
  certificate that is minted and named in the response is backed by the counted voters, at least a
  quorum of them, and the next search finds it with exactly those voters, if the payload hashes to
  the claim. If it does not, the named certificate is one that no search accepts: nothing on the way
  from a submitted vote checks its payload against its claim hash.
\<close>

theorem minted_certificate_found_iff_payload_matches:
  assumes "server_inv pf s" and "recheck_quorum_and_maybe_emit_cert pf ty ch payload round s = (s', Ok (Some h))"
    and "find_valid_quorum_cert pf s ty ch = (Ok None :: (_, substrate_error) result)"
    and "fits ty" and "length payload < 2 ^ 32" and "length (logged_votes s ty) < 2 ^ 32"
    and "list_all (\<lambda>v. pv_claim_type v = ty) (logged_votes s ty)" and "peer_set_size_n s < 2 ^ 64"
    and "derive_pinned_signer_pubkeys s = (Ok pins :: (_, substrate_error) result)"
  shows "quorum_threshold (peer_set_size_n s) \<le> card (counted_voters pf s pins ty ch round) \<and>
    find_valid_quorum_cert pf s' ty ch = (Ok (if pf_hash pf payload = ch
      then Some (h, card (counted_voters pf s pins ty ch round)) else None) :: (_, substrate_error) result)"
  using find_after_mint [OF assms(1-6) _ assms(8,9,3,9)] assms(7) by (auto simp: list_all_iff)

text \<open>The lone vote is a quorum of one; with the payload [5] it matches its claim, with [] it does not.\<close>

definition minted_state :: "bytes \<Rightarrow> server_state" where
  "minted_state p = fst (recheck_quorum_and_maybe_emit_cert chain_platform (claim_type PeerRevocation) 1 p 0
     (lone_state p))"

lemma floor_not_family:
  "\<not> is_cultivation_family_node_type (byzantine_threshold_check_node_type ty)"
  "\<not> is_cultivation_family_node_type (population_consensus_reached_node_type ty)"
  by (simp_all add: is_cultivation_family_node_type_def floor_type_defs NODE_TYPE_BET_RETIRED_PREFIX_def
      NODE_TYPE_CULTIVATION_RECOVERED_PREFIX_def NODE_TYPE_CULTIVATION_ORPHANED_PREFIX_def
      NODE_TYPE_SUCCESSION_COMPLETED_PREFIX_def)

lemma lone_mint:
  assumes small: "length p < 2 ^ 32"
  shows "counted_voters chain_platform (lone_state p) (\<lambda>_. None) (claim_type PeerRevocation) 1 0 = {7}"
    and "recheck_quorum_and_maybe_emit_cert chain_platform (claim_type PeerRevocation) 1 p 0 (lone_state p) =
    (minted_state p, Ok (Some 2))"
proof -
  let ?ty = "claim_type PeerRevocation" and ?s = "lone_state p"
  let ?n1 = "\<lparr>node_hash = 1, parent_hashes = [0], node_type = byzantine_threshold_check_node_type ?ty,
    created_at_cycle = 0, content = encode_byzantine_threshold_check ?ty 1 0 1 1 0 0\<rparr>"
  define s1 where "s1 = ?s\<lparr>ss_dag := (ss_dag ?s)\<lparr>nodes := nodes (ss_dag ?s) @ [(1, ?n1)],
    insertion_order := [0, 1], tip := Some 1\<rparr>\<rparr>"
  show "counted_voters chain_platform ?s (\<lambda>_. None) ?ty 1 0 = {7}"
  proof -
    have "filter (\<lambda>v. pv_claim_hash v = 1 \<and> pv_round_id v = 0) [lone_vote p] = [lone_vote p]"
      by (simp add: lone_vote_def)
    then have "counted_voters chain_platform ?s (\<lambda>_. None) ?ty 1 0 =
        pv_voter ` {v \<in> {lone_vote p}. vote_counts chain_platform ?s (\<lambda>_. None) v}"
      by (simp add: counted_voters_def round_votes_def lone_reads(1) [OF small] del: claim_type.simps)
    also have "{v \<in> {lone_vote p}. vote_counts chain_platform ?s (\<lambda>_. None) v} = {lone_vote p}"
      using lone_reads(6) [OF small] by blast
    finally show ?thesis
      by (simp add: lone_vote_def)
  qed
  have tally: "tally_votes chain_platform ?s ?ty 1 0 (\<lambda>_. None) = (Ok (1, 1) :: (_, substrate_error) result)"
    using lone_reads(6) [OF small]
    by (simp add: tally_votes_def lone_reads(2) [OF small] tally_step_def del: claim_type.simps)
      (simp add: lone_vote_def)
  have emit1: "emit_substrate_event chain_platform (byzantine_threshold_check_node_type ?ty)
      (encode_byzantine_threshold_check ?ty 1 0 1 1 0 0) ?s = (s1, Ok 1)"
    by (subst chain_emit [where t = 0], simp_all add: lone_dag dag_get_def floor_not_family s1_def)
      (simp_all add: floor_type_defs)
  have iter1: "iter_in_insertion_order (ss_dag s1) = iter_in_insertion_order (ss_dag ?s) @ [?n1]"
    by (simp add: s1_def iter_in_insertion_order_def lone_dag(1) dag_get_def List.map_filter_simps)
  have "vote_fold s1 ?ty f acc = (Ok (f (lone_vote p) acc) :: (cert_peer_vote list, substrate_error) result)" for f acc
    using lone_reads(2) [OF small, of f acc]
    by (simp add: vote_fold_def iter1 try_fold_append) (simp add: floor_type_defs)
  then obtain votes where collect: "collect_cert_votes chain_platform s1 ?ty 1 0 (\<lambda>_. None) =
      (Ok votes :: (_, substrate_error) result)"
    by (simp add: collect_cert_votes_def)
  define s2 where "s2 = (\<lambda>c. fst (emit_substrate_event chain_platform (population_consensus_reached_node_type ?ty) c s1))"
  have emit: "snd (emit_substrate_event chain_platform (population_consensus_reached_node_type ?ty) c s1) = Ok 2" for c
    by (subst chain_emit [where t = 1], simp_all add: lone_dag dag_get_def floor_not_family s1_def)
      (simp_all add: floor_type_defs)
  have emit2: "emit_substrate_event chain_platform (population_consensus_reached_node_type ?ty) c s1 =
      (s2 c, Ok 2)" for c
    by (rule prod_eqI) (simp_all only: s2_def fst_conv snd_conv emit)
  have "snd (recheck_quorum_and_maybe_emit_cert chain_platform ?ty 1 p 0 ?s) = Ok (Some 2)"
    using emit1 emit2
    by (auto simp: recheck_quorum_and_maybe_emit_cert_def bind_act_def read_act_def return_act_def Let_def
        lone_reads [OF small] lone_dag(2) tally collect quorum_threshold_def f_tolerated_def
        simp del: claim_type.simps)
  then show "recheck_quorum_and_maybe_emit_cert chain_platform ?ty 1 p 0 ?s = (minted_state p, Ok (Some 2))"
    by (simp add: minted_state_def prod_eq_iff)
qed

lemma minted_certificate_found_iff_payload_matches_witness:
  "(find_valid_quorum_cert chain_platform (minted_state [5]) (claim_type PeerRevocation) 1 =
      (Ok (Some (2, 1)) :: (_, substrate_error) result)) \<and>
    find_valid_quorum_cert chain_platform (minted_state []) (claim_type PeerRevocation) 1 =
      (Ok None :: (_, substrate_error) result)"
proof -
  have "find_valid_quorum_cert chain_platform (minted_state p) (claim_type PeerRevocation) 1 =
      (Ok (if pf_hash chain_platform p = 1 then Some (2, 1) else None) :: (_, substrate_error) result)"
    if "length p < 2 ^ 32" for p
    using minted_certificate_found_iff_payload_matches [OF lone_dag(5) lone_mint(2) [OF that] lone_reads(5) [OF that]
        _ that _ _ _ lone_reads(3) [OF that], unfolded lone_mint(1) [OF that]]
    by (simp add: lone_reads(1,4) [OF that] del: claim_type.simps) (simp add: fits_def lone_vote_def)
  moreover have "pf_hash chain_platform [5] = 1" and "pf_hash chain_platform [] \<noteq> 1"
    by code_simp+
  ultimately show ?thesis
    by simp
qed

lemma minted_gate:
  "consensus_floor_active (minted_state [5])"
  "find_valid_quorum_cert chain_platform (minted_state [5]) (claim_type PeerRevocation) 1 =
    (Ok (Some (2, 1)) :: (_, 'e) result)"
proof -
  have small: "length [5 :: u8] < 2 ^ 32"
    by simp
  have "same_identity (lone_state [5]) (minted_state [5])"
    by (rule mint_log [OF lone_dag(5) lone_mint(2) [OF small] lone_reads(5) [OF small]])
  then show "consensus_floor_active (minted_state [5])"
    by (simp add: consensus_floor_active_def same_identity_def lone_dag(3) three_peers_def CONSENSUS_FLOOR_MIN_PEERS_def)
  have "pf_hash chain_platform [5] = 1"
    by code_simp
  moreover have "fits (claim_type PeerRevocation)" and "peer_set_size_n (lone_state [5]) < 2 ^ 64"
    and "length (logged_votes (lone_state [5]) (claim_type PeerRevocation)) < 2 ^ 32"
    unfolding lone_reads(1,4) [OF small] by (simp_all add: fits_def)
  moreover have "pv_claim_type v = claim_type PeerRevocation"
    if "v \<in> set (logged_votes (lone_state [5]) (claim_type PeerRevocation))" for v
    using that unfolding lone_reads(1) [OF small] by (simp add: lone_vote_def)
  ultimately show "find_valid_quorum_cert chain_platform (minted_state [5]) (claim_type PeerRevocation) 1 =
      (Ok (Some (2, 1)) :: (_, 'e) result)"
    using find_after_mint(1) [OF lone_dag(5) lone_mint(2) [OF small] lone_reads(5) [OF small] _ small _ _ _
        lone_reads(3) [OF small] lone_reads(5) [OF small] lone_reads(3) [OF small]]
    unfolding lone_mint(1) [OF small] by simp
qed


end
