(* ===== verification/Prune.thy ===== *)
theory Prune
  imports Cultivation
begin

text \<open>
  Internal mortality, \<^verbatim>\<open>substrate/src/prune.rs\<close> and \<^verbatim>\<open>events/internal_mortality.rs\<close>: the rules
  that look for parts of the log which no longer contribute, the scan that runs them and records a
  tombstone for each part, and the counts that the observatory reads. A detection function reads the
  log and the context of its scan; it panics where decoding a body does. The registry, which the
  server holds in its state, is an argument of the scan. A rule's description, which nothing reads,
  is left out.
\<close>

section \<open>Tombstones\<close>

definition NODE_TYPE_INTERNAL_MORTALITY_EVENT_PREFIX :: string where
  "NODE_TYPE_INTERNAL_MORTALITY_EVENT_PREFIX = ''internal_mortality_event:''"

definition internal_mortality_event_node_type :: "string \<Rightarrow> string" where
  "internal_mortality_event_node_type category = NODE_TYPE_INTERNAL_MORTALITY_EVENT_PREFIX @ category"

definition encode_internal_mortality_event ::
    "string \<Rightarrow> string \<Rightarrow> arr32 \<Rightarrow> string \<Rightarrow> string \<Rightarrow> arr32 option \<Rightarrow> u64 \<Rightarrow> bytes" where
  "encode_internal_mortality_event category rule_id killed killed_type reason replaced_by cycle = event_bytes
     [(''category'', VString category), (''rule_id'', VString rule_id),
      (''killed_part_hash'', VBytes (arr32_bytes killed)), (''killed_part_node_type'', VString killed_type),
      (''reason'', VString reason),
      (''replaced_by_hash'', case replaced_by of Some h \<Rightarrow> VBytes (arr32_bytes h) | None \<Rightarrow> Null),
      (''emitted_at_cycle'', VUint cycle)]"

definition emit_internal_mortality_event ::
    "platform \<Rightarrow> string \<Rightarrow> string \<Rightarrow> arr32 \<Rightarrow> string \<Rightarrow> string \<Rightarrow> arr32 option \<Rightarrow> u64 \<Rightarrow> arr32 action" where
  "emit_internal_mortality_event pf category rule_id killed killed_type reason replaced_by cycle s =
     (let c = encode_internal_mortality_event category rule_id killed killed_type reason replaced_by cycle;
          parents = (if killed \<in> set (tip_parents (ss_dag s)) then tip_parents (ss_dag s)
                     else tip_parents (ss_dag s) @ [killed])
      in case insert_node (pf_hash pf) parents (internal_mortality_event_node_type category) cycle c (ss_dag s) of
           (d, Ok h) \<Rightarrow> (s\<lparr>ss_dag := d\<rparr>, Ok h)
         | (d, Err e) \<Rightarrow>
             (s\<lparr>ss_dag := d\<rparr>, Err (SubProtocol (''internal_mortality_event DAG insert: '' @ dag_display e)))
         | (d, Abort x) \<Rightarrow> (s\<lparr>ss_dag := d\<rparr>, Abort x))"

section \<open>Candidates, context and rules\<close>

record prune_candidate =
  pc_hash :: arr32
  pc_node_type :: string
  pc_reason :: string
  pc_replaced_by :: "arr32 option"

text \<open>The parts that already have a tombstone, as the list of the set's elements, and the tip.\<close>

record prune_scan_ctx =
  already_tombstoned :: "arr32 list"
  ctx_tip :: "arr32 option"

type_synonym detect_fn =
  "server_state \<Rightarrow> prune_scan_ctx \<Rightarrow> u64 \<Rightarrow> (prune_candidate list, substrate_error) result"

record prune_rule =
  pr_id :: string
  pr_category :: string
  pr_detect :: detect_fn

definition killed_part :: "dag_node \<Rightarrow> (arr32 option, 'e) result" where
  "killed_part n = decode_with (\<lambda>m. opt_arr32 m ''killed_part_hash'') (content n)"

definition collect_already_tombstoned :: "server_state \<Rightarrow> (arr32 list, 'e) result" where
  "collect_already_tombstoned s =
     try_fold (\<lambda>n dead.
       if \<not> starts_with (node_type n) NODE_TYPE_INTERNAL_MORTALITY_EVENT_PREFIX then Ok dead
       else and_then (killed_part n) (\<lambda>r.
         Ok (case r of Some h \<Rightarrow> List.insert h dead | None \<Rightarrow> dead)))
       (iter_in_insertion_order (ss_dag s)) []"

definition for_state :: "server_state \<Rightarrow> (prune_scan_ctx, 'e) result" where
  "for_state s = and_then (collect_already_tombstoned s) (\<lambda>dead.
     Ok \<lparr>already_tombstoned = dead, ctx_tip = tip (ss_dag s)\<rparr>)"

definition PROTECTED_PREFIXES :: "string list" where
  "PROTECTED_PREFIXES =
     [''genesis_event:'', ''l0_revision_attested:'', ''tip_cosigned:'', ''compression_event:'', ''owner_key_'',
      ''destruction_attestation'', ''anchor_surface_final_seal'', ''self_euthanasia_executed:'', ''bet_retired'',
      ''birth_attestation'', ''cultivator_heartbeat_recorded'', ''cultivator_heartbeat_stale'',
      ''cultivator_heartbeat_resumed'', ''successor_chain_updated'', ''succession_completed'',
      ''cultivation_orphaned'', ''cultivation_recovered'', NODE_TYPE_INTERNAL_MORTALITY_EVENT_PREFIX]"

definition is_p10_invariant_protected :: "string \<Rightarrow> bool" where
  "is_p10_invariant_protected ty \<longleftrightarrow> list_ex (starts_with ty) PROTECTED_PREFIXES"

definition is_prune_eligible :: "string \<Rightarrow> arr32 \<Rightarrow> prune_scan_ctx \<Rightarrow> bool" where
  "is_prune_eligible ty h ctx \<longleftrightarrow>
     \<not> is_p10_invariant_protected ty \<and> ctx_tip ctx \<noteq> Some h \<and> h \<notin> set (already_tombstoned ctx)"

text \<open>\<^verbatim>\<open>str::strip_prefix\<close>.\<close>

definition strip_prefix :: "string \<Rightarrow> string \<Rightarrow> string option" where
  "strip_prefix p s = (if starts_with s p then Some (drop (length p) s) else None)"

text \<open>The families of the canonical rules: useless, outdated, wrong, redundant.\<close>

definition USELESS :: string where
  "USELESS = [CHR 0xE6, CHR 0x97, CHR 0xA0, CHR 0xE7, CHR 0x94, CHR 0xA8]"

definition OUTDATED :: string where
  "OUTDATED = [CHR 0xE8, CHR 0xBF, CHR 0x87, CHR 0xE6, CHR 0x97, CHR 0xB6]"

definition WRONG :: string where
  "WRONG = [CHR 0xE9, CHR 0x94, CHR 0x99, CHR 0xE8, CHR 0xAF, CHR 0xAF]"

definition REDUNDANT :: string where
  "REDUNDANT = [CHR 0xE5, CHR 0x86, CHR 0x97, CHR 0xE4, CHR 0xBD, CHR 0x99]"

definition u64_str :: "u64 \<Rightarrow> string" where
  "u64_str n = decimal (unat n)"

text \<open>A name between single quotes.\<close>

definition quoted :: "string \<Rightarrow> string" where
  "quoted s = CHR 0x27 # s @ [CHR 0x27]"

section \<open>Orphans\<close>

definition ORPHAN_GRACE_CYCLES :: u64 where
  "ORPHAN_GRACE_CYCLES = 1000"

definition referenced_hashes :: "dag_node list \<Rightarrow> arr32 set" where
  "referenced_hashes ns = (\<Union>n \<in> set ns. set (parent_hashes n))"

definition orphan_candidate :: "u64 \<Rightarrow> dag_node \<Rightarrow> prune_candidate" where
  "orphan_candidate cycle n =
     \<lparr>pc_hash = node_hash n, pc_node_type = node_type n,
      pc_reason = ''orphan unreferenced for '' @ ge_sign @ u64_str ORPHAN_GRACE_CYCLES @
        '' cycles (created_at='' @ u64_str (created_at_cycle n) @ '', now='' @ u64_str cycle @ '')'',
      pc_replaced_by = None\<rparr>"

definition detect_orphan_past_grace :: detect_fn where
  "detect_orphan_past_grace s ctx cycle =
     (if cycle \<le> ORPHAN_GRACE_CYCLES then Ok []
      else
        let ns = iter_in_insertion_order (ss_dag s);
            cutoff = sat_sub cycle ORPHAN_GRACE_CYCLES
        in Ok (map (orphan_candidate cycle)
               (filter (\<lambda>n. \<not> cutoff < created_at_cycle n \<and> \<not> is_p10_invariant_protected (node_type n) \<and>
                  ctx_tip ctx \<noteq> Some (node_hash n) \<and> node_hash n \<notin> referenced_hashes ns) ns)))"

section \<open>Outdated axes\<close>

definition STALE_AXIS_GRACE_CYCLES :: u64 where
  "STALE_AXIS_GRACE_CYCLES = 2000"

definition touch :: "string \<Rightarrow> u64 \<Rightarrow> (string \<Rightarrow> u64 option) \<Rightarrow> (string \<Rightarrow> u64 option)" where
  "touch name cycle m =
     (let e = (case m name of Some e \<Rightarrow> e | None \<Rightarrow> 0) in m(name \<mapsto> (if e < cycle then cycle else e)))"

definition touch_step :: "dag_node \<Rightarrow> (string \<Rightarrow> u64 option) \<Rightarrow> (string \<Rightarrow> u64 option)" where
  "touch_step n m =
     (case strip_prefix NODE_TYPE_AXIS_REGISTERED_PREFIX (node_type n) of
        Some name \<Rightarrow> touch name (created_at_cycle n) m
      | None \<Rightarrow> (case strip_prefix NODE_TYPE_AXIS_PERTURBED_PREFIX (node_type n) of
          Some name \<Rightarrow> touch name (created_at_cycle n) m
        | None \<Rightarrow> (case strip_prefix NODE_TYPE_AXIS_RESET_PREFIX (node_type n) of
            Some name \<Rightarrow> touch name (created_at_cycle n) m
          | None \<Rightarrow> m)))"

definition stale_axis :: "prune_scan_ctx \<Rightarrow> u64 \<Rightarrow> (string \<Rightarrow> u64 option) \<Rightarrow> dag_node \<Rightarrow> prune_candidate option" where
  "stale_axis ctx cycle last_touch n =
     (case strip_prefix NODE_TYPE_AXIS_REGISTERED_PREFIX (node_type n) of
        None \<Rightarrow> None
      | Some name \<Rightarrow>
          (let t = (case last_touch name of Some t \<Rightarrow> t | None \<Rightarrow> created_at_cycle n) in
           if sat_sub cycle STALE_AXIS_GRACE_CYCLES < t then None
           else if \<not> is_prune_eligible (node_type n) (node_hash n) ctx then None
           else Some \<lparr>pc_hash = node_hash n, pc_node_type = node_type n,
             pc_reason = ''axis '' @ quoted name @ '' unrefreshed for '' @ ge_sign @ u64_str STALE_AXIS_GRACE_CYCLES @
               '' cycles (last_touch='' @ u64_str t @ '', now='' @ u64_str cycle @ '')'',
             pc_replaced_by = None\<rparr>))"

definition detect_stale_axis_past_window :: detect_fn where
  "detect_stale_axis_past_window s ctx cycle =
     (if cycle \<le> STALE_AXIS_GRACE_CYCLES then Ok []
      else
        let ns = iter_in_insertion_order (ss_dag s)
        in Ok (List.map_filter (stale_axis ctx cycle (fold touch_step ns (\<lambda>_. None))) ns))"

section \<open>Falsified evolutions\<close>

definition ERRONEOUS_GRACE_CYCLES :: u64 where
  "ERRONEOUS_GRACE_CYCLES = 1000"

definition EVOLUTION_SUCCEEDED_PREFIX :: string where
  "EVOLUTION_SUCCEEDED_PREFIX = ''evolution_succeeded:''"

definition EVOLUTION_FAILED_PREFIX :: string where
  "EVOLUTION_FAILED_PREFIX = ''evolution_failed:''"

text \<open>The entry of a key in an index of the latest node, after a node of a cycle is seen for it.\<close>

definition see_latest :: "'k \<Rightarrow> dag_node \<Rightarrow> ('k \<Rightarrow> (u64 \<times> arr32) option) \<Rightarrow> ('k \<Rightarrow> (u64 \<times> arr32) option)" where
  "see_latest k n m =
     (let e = (case m k of Some e \<Rightarrow> e | None \<Rightarrow> (0, 0))
      in m(k \<mapsto> (if fst e \<le> created_at_cycle n then (created_at_cycle n, node_hash n) else e)))"

definition failure_step ::
    "dag_node \<Rightarrow> (string \<Rightarrow> (u64 \<times> arr32) option) \<Rightarrow> (string \<Rightarrow> (u64 \<times> arr32) option)" where
  "failure_step n m =
     (case strip_prefix EVOLUTION_FAILED_PREFIX (node_type n) of Some op \<Rightarrow> see_latest op n m | None \<Rightarrow> m)"

definition falsified ::
    "prune_scan_ctx \<Rightarrow> u64 \<Rightarrow> (string \<Rightarrow> (u64 \<times> arr32) option) \<Rightarrow> dag_node \<Rightarrow> prune_candidate option" where
  "falsified ctx cycle latest_failure n =
     (case strip_prefix EVOLUTION_SUCCEEDED_PREFIX (node_type n) of
        None \<Rightarrow> None
      | Some op \<Rightarrow> (case latest_failure op of
          None \<Rightarrow> None
        | Some (fail_cycle, fail_hash) \<Rightarrow>
            if fail_cycle \<le> created_at_cycle n then None
            else if sat_sub cycle fail_cycle \<le> ERRONEOUS_GRACE_CYCLES then None
            else if \<not> is_prune_eligible (node_type n) (node_hash n) ctx then None
            else Some \<lparr>pc_hash = node_hash n, pc_node_type = node_type n,
              pc_reason = ''evolution_succeeded:'' @ op @ '' (cycle '' @ u64_str (created_at_cycle n) @
                '') superseded by later evolution_failed:'' @ op @ '' (cycle '' @ u64_str fail_cycle @
                ''); now='' @ u64_str cycle,
              pc_replaced_by = Some fail_hash\<rparr>))"

definition detect_superseded_by_failed_evolution :: detect_fn where
  "detect_superseded_by_failed_evolution s ctx cycle =
     (if cycle \<le> ERRONEOUS_GRACE_CYCLES then Ok []
      else
        let ns = iter_in_insertion_order (ss_dag s)
        in Ok (List.map_filter (falsified ctx cycle (fold failure_step ns (\<lambda>_. None))) ns))"

section \<open>Superseded plates\<close>

definition FORGED_UNDERSTANDING_NODE_TYPE_PREFIX :: string where
  "FORGED_UNDERSTANDING_NODE_TYPE_PREFIX = ''forged_understanding:''"

definition PLATE_SUPERSEDED_GRACE_CYCLES :: u64 where
  "PLATE_SUPERSEDED_GRACE_CYCLES = 1000"

fun superseded_hash :: "Value \<Rightarrow> arr32 option" where
  "superseded_hash (VBytes b) = bytes_arr32 b"
| "superseded_hash _ = None"

definition superseded_hashes :: "vmap \<Rightarrow> arr32 list option" where
  "superseded_hashes m = (case bt_get m ''supersedes'' of
     Some (VArray items) \<Rightarrow> Some (List.map_filter superseded_hash items) | _ \<Rightarrow> None)"

definition plate_step ::
    "dag_node \<Rightarrow> (arr32 \<Rightarrow> (u64 \<times> arr32) option) \<Rightarrow> (arr32 \<Rightarrow> (u64 \<times> arr32) option, 'e) result" where
  "plate_step n m =
     (if \<not> starts_with (node_type n) FORGED_UNDERSTANDING_NODE_TYPE_PREFIX then Ok m
      else and_then (decode_with superseded_hashes (content n)) (\<lambda>r.
        Ok (case r of Some targets \<Rightarrow> fold (\<lambda>t. see_latest t n) targets m | None \<Rightarrow> m)))"

definition superseded_plate ::
    "prune_scan_ctx \<Rightarrow> u64 \<Rightarrow> (arr32 \<Rightarrow> (u64 \<times> arr32) option) \<Rightarrow> dag_node \<Rightarrow> prune_candidate option" where
  "superseded_plate ctx cycle superseded_by n =
     (if \<not> starts_with (node_type n) FORGED_UNDERSTANDING_NODE_TYPE_PREFIX then None
      else case superseded_by (node_hash n) of
        None \<Rightarrow> None
      | Some (later_cycle, later_hash) \<Rightarrow>
          if later_cycle \<le> created_at_cycle n then None
          else if sat_sub cycle later_cycle \<le> PLATE_SUPERSEDED_GRACE_CYCLES then None
          else if \<not> is_prune_eligible (node_type n) (node_hash n) ctx then None
          else Some \<lparr>pc_hash = node_hash n, pc_node_type = node_type n,
            pc_reason = ''forged_understanding plate (cycle '' @ u64_str (created_at_cycle n) @
              '') superseded by a later plate (cycle '' @ u64_str later_cycle @ ''); now='' @ u64_str cycle,
            pc_replaced_by = Some later_hash\<rparr>)"

definition detect_forged_understanding_superseded :: detect_fn where
  "detect_forged_understanding_superseded s ctx cycle =
     (if cycle \<le> PLATE_SUPERSEDED_GRACE_CYCLES then Ok []
      else
        let ns = iter_in_insertion_order (ss_dag s)
        in and_then (try_fold plate_step ns (\<lambda>_. None)) (\<lambda>superseded_by.
             Ok (List.map_filter (superseded_plate ctx cycle superseded_by) ns)))"

section \<open>Duplicates\<close>

definition REDUNDANT_GRACE_CYCLES :: u64 where
  "REDUNDANT_GRACE_CYCLES = 1000"

definition REDUNDANT_SCOPED_PREFIXES :: "string list" where
  "REDUNDANT_SCOPED_PREFIXES = [''raw_material:'', ''sporocarp:'']"

definition redundant_in_scope :: "string \<Rightarrow> bool" where
  "redundant_in_scope ty \<longleftrightarrow> list_ex (starts_with ty) REDUNDANT_SCOPED_PREFIXES"

record dup_group =
  first_hash :: arr32
  first_type :: string
  first_cycle :: u64
  first_index :: nat
  survivor_hash :: "arr32 option"

text \<open>The hash map of groups, in the order of their first members; the sort by index fixes the order.\<close>

type_synonym dup_groups = "((string \<times> bytes) \<times> dup_group) list"

definition add_survivor :: "dag_node \<Rightarrow> dup_group \<Rightarrow> dup_group" where
  "add_survivor n g =
     (if survivor_hash g = None \<and> node_hash n \<noteq> first_hash g
      then g\<lparr>survivor_hash := Some (node_hash n)\<rparr> else g)"

definition group_step :: "nat \<times> dag_node \<Rightarrow> dup_groups \<Rightarrow> dup_groups" where
  "group_step ixn groups =
     (let (index, n) = ixn; key = (node_type n, content n) in
      if \<not> redundant_in_scope (node_type n) then groups
      else if map_of groups key = None
      then groups @ [(key, \<lparr>first_hash = node_hash n, first_type = node_type n,
        first_cycle = created_at_cycle n, first_index = index, survivor_hash = None\<rparr>)]
      else map (\<lambda>(k, g). (k, if k = key then add_survivor n g else g)) groups)"

definition group_candidate :: "u64 \<Rightarrow> dup_group \<Rightarrow> prune_candidate" where
  "group_candidate cycle g =
     \<lparr>pc_hash = first_hash g, pc_node_type = first_type g,
      pc_reason = ''byte-identical duplicate of a later '' @ quoted (first_type g) @
        '' node subsumes this earliest copy (first_cycle='' @ u64_str (first_cycle g) @ '', now='' @
        u64_str cycle @ '')'',
      pc_replaced_by = survivor_hash g\<rparr>"

definition detect_duplicate_content_subsumed :: detect_fn where
  "detect_duplicate_content_subsumed s ctx cycle =
     (if cycle \<le> REDUNDANT_GRACE_CYCLES then Ok []
      else
        let ns = iter_in_insertion_order (ss_dag s);
            groups = fold group_step (enumerate 0 ns) [];
            cutoff = sat_sub cycle REDUNDANT_GRACE_CYCLES;
            emittable = filter (\<lambda>g. survivor_hash g \<noteq> None \<and> first_cycle g \<le> cutoff \<and>
              is_prune_eligible (first_type g) (first_hash g) ctx) (map snd groups)
        in Ok (map (group_candidate cycle) (sort_key first_index emittable)))"

section \<open>Parts the live roots do not reach\<close>

text \<open>The bounded walk: a visited set, as a list, and a stack whose top is the list's head.\<close>

definition push_unvisited :: "arr32 \<Rightarrow> arr32 list \<times> arr32 list \<Rightarrow> arr32 list \<times> arr32 list" where
  "push_unvisited h vs = (if h \<in> set (fst vs) then vs else (h # fst vs, h # snd vs))"

lemma push_all_unvisited:
  "set (fst (fold push_unvisited hs vs)) = set (fst vs) \<union> set hs"
  "set (snd (fold push_unvisited hs vs)) = set (snd vs) \<union> (set hs - set (fst vs))"
  "set hs \<subseteq> set (fst vs) \<Longrightarrow> fold push_unvisited hs vs = vs"
proof -
  show "set (fst (fold push_unvisited hs vs)) = set (fst vs) \<union> set hs"
    by (induction hs arbitrary: vs) (auto simp: push_unvisited_def)
  show "set (snd (fold push_unvisited hs vs)) = set (snd vs) \<union> (set hs - set (fst vs))"
    by (induction hs arbitrary: vs) (auto simp: push_unvisited_def)
  show "set hs \<subseteq> set (fst vs) \<Longrightarrow> fold push_unvisited hs vs = vs"
    by (induction hs) (simp_all add: push_unvisited_def)
qed

function (sequential) reach_walk :: "(arr32 \<Rightarrow> arr32 list option) \<Rightarrow> arr32 list \<times> arr32 list \<Rightarrow> arr32 list" where
  "reach_walk parents_of (visited, []) = visited"
| "reach_walk parents_of (visited, h # stack) =
     (case parents_of h of
        Some ps \<Rightarrow> reach_walk parents_of (fold push_unvisited ps (visited, stack))
      | None \<Rightarrow> reach_walk parents_of (visited, stack))"
  by pat_completeness auto

text \<open>Each round visits something new or shortens the stack.\<close>

termination
proof (relation "measures [\<lambda>(parents_of, visited, stack). card (- set visited),
    \<lambda>(parents_of, visited, stack). length stack]")
  fix parents_of :: "arr32 \<Rightarrow> arr32 list option" and visited h stack ps
  show "((parents_of, fold push_unvisited ps (visited, stack)), parents_of, visited, h # stack)
      \<in> measures [\<lambda>(parents_of, visited, stack). card (- set visited),
        \<lambda>(parents_of, visited, stack). length stack]"
  proof (cases "set ps \<subseteq> set visited")
    case True
    then show ?thesis
      using push_all_unvisited [of ps "(visited, stack)"] by simp
  next
    case False
    then have "- (set visited \<union> set ps) \<subset> - set visited"
      by blast
    then have "card (- (set visited \<union> set ps)) < card (- set visited)"
      by (rule psubset_card_mono [rotated]) simp
    then show ?thesis
      using push_all_unvisited [of ps "(visited, stack)"] by (simp add: case_prod_beta)
  qed
qed simp_all

definition live_roots :: "dag \<Rightarrow> u64 \<Rightarrow> arr32 list" where
  "live_roots d recent_cutoff =
     (case tip d of Some t \<Rightarrow> [t] | None \<Rightarrow> []) @
     concat (map parent_hashes (filter (\<lambda>n. recent_cutoff < created_at_cycle n) (iter_in_insertion_order d)))"

definition parents_by_hash :: "dag_node list \<Rightarrow> arr32 \<Rightarrow> arr32 list option" where
  "parents_by_hash ns = fold (\<lambda>n m. m(node_hash n \<mapsto> parent_hashes n)) ns (\<lambda>_. None)"

definition reachable_from_roots :: "dag \<Rightarrow> u64 \<Rightarrow> arr32 list" where
  "reachable_from_roots d recent_cutoff =
     reach_walk (parents_by_hash (iter_in_insertion_order d))
       (fold push_unvisited (live_roots d recent_cutoff) ([], []))"

definition unreachable_candidate :: "u64 \<Rightarrow> dag_node \<Rightarrow> prune_candidate" where
  "unreachable_candidate cycle n =
     \<lparr>pc_hash = node_hash n, pc_node_type = node_type n,
      pc_reason = ''transitively unreachable from live roots for '' @ ge_sign @ u64_str ORPHAN_GRACE_CYCLES @
        '' cycles (created_at='' @ u64_str (created_at_cycle n) @ '', now='' @ u64_str cycle @ '')'',
      pc_replaced_by = None\<rparr>"

definition detect_unreachable_from_live_roots :: detect_fn where
  "detect_unreachable_from_live_roots s ctx cycle =
     (if cycle \<le> ORPHAN_GRACE_CYCLES then Ok []
      else
        let ns = iter_in_insertion_order (ss_dag s);
            recent_cutoff = sat_sub cycle ORPHAN_GRACE_CYCLES;
            reachable = reachable_from_roots (ss_dag s) recent_cutoff
        in Ok (map (unreachable_candidate cycle)
               (filter (\<lambda>n. \<not> recent_cutoff < created_at_cycle n \<and> node_hash n \<in> referenced_hashes ns \<and>
                  node_hash n \<notin> set reachable \<and> is_prune_eligible (node_type n) (node_hash n) ctx) ns)))"

section \<open>The registry and the scan\<close>

definition register :: "prune_rule list \<Rightarrow> prune_rule \<Rightarrow> prune_rule list" where
  "register rules r = rules @ [r]"

definition rule_count :: "prune_rule list \<Rightarrow> nat" where
  "rule_count rules = length rules"

definition seed_registry :: "prune_rule list" where
  "seed_registry = register (register (register (register (register
     [\<lparr>pr_id = ''L0.seed.orphan_past_grace'', pr_category = USELESS, pr_detect = detect_orphan_past_grace\<rparr>]
     \<lparr>pr_id = ''L1.'' @ OUTDATED @ ''.axis_unrefreshed_past_window'', pr_category = OUTDATED,
      pr_detect = detect_stale_axis_past_window\<rparr>)
     \<lparr>pr_id = ''L1.'' @ WRONG @ ''.superseded_by_failed_evolution'', pr_category = WRONG,
      pr_detect = detect_superseded_by_failed_evolution\<rparr>)
     \<lparr>pr_id = ''L1.'' @ REDUNDANT @ ''.duplicate_content_subsumed'', pr_category = REDUNDANT,
      pr_detect = detect_duplicate_content_subsumed\<rparr>)
     \<lparr>pr_id = ''L1.'' @ USELESS @ ''.unreachable_from_live_roots'', pr_category = USELESS,
      pr_detect = detect_unreachable_from_live_roots\<rparr>)
     \<lparr>pr_id = ''L1.'' @ WRONG @ ''.forged_understanding_superseded'', pr_category = WRONG,
      pr_detect = detect_forged_understanding_superseded\<rparr>"

definition PRUNE_SCAN_DEEP_CYCLE_INTERVAL :: u64 where
  "PRUNE_SCAN_DEEP_CYCLE_INTERVAL = 100"

definition should_run_prune_scan :: "u64 \<Rightarrow> bool" where
  "should_run_prune_scan cycle \<longleftrightarrow> 0 < cycle \<and> cycle mod PRUNE_SCAN_DEEP_CYCLE_INTERVAL = 0"

record prune_scan_report =
  rules_run :: "string list"
  tombstones_emitted :: "arr32 list"
  at_cycle :: u64

fun emit_tombstones :: "platform \<Rightarrow> prune_rule \<Rightarrow> u64 \<Rightarrow> prune_candidate list \<Rightarrow> arr32 list action" where
  "emit_tombstones pf r cycle [] = return_act []"
| "emit_tombstones pf r cycle (c # cs) =
     bind_act (emit_internal_mortality_event pf (pr_category r) (pr_id r) (pc_hash c) (pc_node_type c)
         (pc_reason c) (pc_replaced_by c) cycle) (\<lambda>h.
     bind_act (emit_tombstones pf r cycle cs) (\<lambda>hs. return_act (h # hs)))"

fun run_rules ::
    "platform \<Rightarrow> prune_scan_ctx \<Rightarrow> u64 \<Rightarrow> prune_rule list \<Rightarrow> prune_scan_report \<Rightarrow> prune_scan_report action" where
  "run_rules pf ctx cycle [] report = return_act report"
| "run_rules pf ctx cycle (r # rs) report =
     bind_act (\<lambda>s. (s, pr_detect r s ctx cycle)) (\<lambda>candidates.
     bind_act (emit_tombstones pf r cycle candidates) (\<lambda>hs.
       run_rules pf ctx cycle rs (report\<lparr>rules_run := rules_run report @ [pr_id r],
         tombstones_emitted := tombstones_emitted report @ hs\<rparr>)))"

definition run_prune_scan :: "platform \<Rightarrow> prune_rule list \<Rightarrow> u64 \<Rightarrow> prune_scan_report action" where
  "run_prune_scan pf rules cycle =
     bind_act (\<lambda>s. (s, for_state s)) (\<lambda>ctx.
       run_rules pf ctx cycle rules \<lparr>rules_run = [], tombstones_emitted = [], at_cycle = cycle\<rparr>)"

section \<open>Refused mutations and the observatory's counts\<close>

definition FORBIDDEN_PRESERVE_ALL_MUTATION_TYPES :: "string list" where
  "FORBIDDEN_PRESERVE_ALL_MUTATION_TYPES =
     [''preserve_all_axes'', ''preserve_all_parts'', ''disable_prune_scan'', ''disable_internal_mortality'',
      ''exempt_from_mortality'', ''never_prune'', ''never_prune_family'', ''preserve_everything'']"

definition is_cultivator_preserve_all_attempt :: "string \<Rightarrow> bool" where
  "is_cultivator_preserve_all_attempt ty \<longleftrightarrow> list_ex ((=) ty) FORBIDDEN_PRESERVE_ALL_MUTATION_TYPES"

definition FORBIDDEN_CULTIVATION_ORPHANED_SUPPRESSION_TYPES :: "string list" where
  "FORBIDDEN_CULTIVATION_ORPHANED_SUPPRESSION_TYPES =
     [''suppress_cultivation_orphaned'', ''delay_cultivation_orphaned'', ''exempt_from_cultivation_orphaned'',
      ''disable_orphan_detection'', ''extend_legacy_window_indefinitely'', ''silence_cultivator_heartbeat_stale'']"

definition is_cultivation_orphaned_suppression_attempt :: "string \<Rightarrow> bool" where
  "is_cultivation_orphaned_suppression_attempt ty \<longleftrightarrow>
     list_ex ((=) ty) FORBIDDEN_CULTIVATION_ORPHANED_SUPPRESSION_TYPES"

definition count_nodes_since :: "string \<Rightarrow> server_state \<Rightarrow> u64 \<Rightarrow> u64" where
  "count_nodes_since prefix s earliest = word_of_nat (length
     (filter (\<lambda>n. earliest \<le> created_at_cycle n)
       (filter (\<lambda>n. starts_with (node_type n) prefix) (iter_in_insertion_order (ss_dag s)))))"

definition count_internal_mortality_events_since :: "server_state \<Rightarrow> u64 \<Rightarrow> u64" where
  "count_internal_mortality_events_since = count_nodes_since NODE_TYPE_INTERNAL_MORTALITY_EVENT_PREFIX"

definition count_raw_material_since :: "server_state \<Rightarrow> u64 \<Rightarrow> u64" where
  "count_raw_material_since = count_nodes_since ''raw_material:''"

text \<open>A tombstone's count, and the content of the part it kills with the tombstone's cycle.\<close>

definition killed_content_step ::
    "dag_node list \<Rightarrow> dag_node \<Rightarrow> u64 \<times> (bytes \<times> u64) list \<Rightarrow> (u64 \<times> (bytes \<times> u64) list, 'e) result" where
  "killed_content_step ns t acc =
     (if \<not> starts_with (node_type t) NODE_TYPE_INTERNAL_MORTALITY_EVENT_PREFIX then Ok acc
      else and_then (killed_part t) (\<lambda>r.
        Ok (fst acc + 1,
          snd acc @ (case Option.bind r (\<lambda>h. List.find (\<lambda>n. node_hash n = h) ns) of
            Some n \<Rightarrow> [(content n, created_at_cycle t)] | None \<Rightarrow> []))))"

definition resurrects :: "bytes \<times> u64 \<Rightarrow> dag_node \<Rightarrow> bool" where
  "resurrects killed n \<longleftrightarrow>
     \<not> created_at_cycle n \<le> snd killed \<and>
     \<not> starts_with (node_type n) NODE_TYPE_INTERNAL_MORTALITY_EVENT_PREFIX \<and> content n = fst killed"

definition count_prune_resurrections :: "server_state \<Rightarrow> (u64 \<times> u64, 'e) result" where
  "count_prune_resurrections s =
     (let ns = iter_in_insertion_order (ss_dag s) in
      and_then (try_fold (killed_content_step ns) ns (0, [])) (\<lambda>(tombstones, killed).
        Ok (word_of_nat (length (filter (\<lambda>k. list_ex (resurrects k) ns) killed)), tombstones)))"

definition HOARDING_INDICATOR_WINDOW_CYCLES :: u64 where
  "HOARDING_INDICATOR_WINDOW_CYCLES = 200"

definition HOARDING_INDICATOR_INGESTION_FLOOR :: u64 where
  "HOARDING_INDICATOR_INGESTION_FLOOR = 10"

definition HOARDING_INDICATOR_MORTALITY_FLOOR :: u64 where
  "HOARDING_INDICATOR_MORTALITY_FLOOR = 1"

definition is_hoarding :: "server_state \<Rightarrow> u64 \<Rightarrow> bool" where
  "is_hoarding s cycle =
     (let earliest = sat_sub cycle HOARDING_INDICATOR_WINDOW_CYCLES in
      if cycle < HOARDING_INDICATOR_WINDOW_CYCLES then False
      else HOARDING_INDICATOR_INGESTION_FLOOR \<le> count_raw_material_since s earliest \<and>
        count_internal_mortality_events_since s earliest < HOARDING_INDICATOR_MORTALITY_FLOOR)"

end
