(* ===== verification/Prune_Safety.thy ===== *)
theory Prune_Safety
  imports Prune
begin

text \<open>
  What a prune scan does to the log: which parts it can kill, that it only adds tombstones, what the
  walk from the live roots finds, and the exact scan of a log in which every node names its
  predecessor as a parent, as every insertion of the program makes it.
\<close>

section \<open>The walk from the live roots\<close>

definition edges :: "(arr32 \<Rightarrow> arr32 list option) \<Rightarrow> (arr32 \<times> arr32) set" where
  "edges f = {(h, p). \<exists>ps. f h = Some ps \<and> p \<in> set ps}"

definition walk_inv :: "(arr32 \<Rightarrow> arr32 list option) \<Rightarrow> arr32 list \<times> arr32 list \<Rightarrow> bool" where
  "walk_inv f vs \<longleftrightarrow> distinct (fst vs) \<and> set (snd vs) \<subseteq> set (fst vs) \<and>
     (\<forall>h ps. h \<in> set (fst vs) \<longrightarrow> h \<notin> set (snd vs) \<longrightarrow> f h = Some ps \<longrightarrow> set ps \<subseteq> set (fst vs))"

lemma push_distinct: "distinct (fst vs) \<Longrightarrow> distinct (fst (fold push_unvisited hs vs))"
  by (induction hs arbitrary: vs) (simp_all add: push_unvisited_def)

lemma walk_invD:
  "walk_inv f (v, h # stack) \<Longrightarrow> k \<in> set v \<Longrightarrow> k \<notin> set stack \<Longrightarrow> k \<noteq> h \<Longrightarrow> f k = Some qs \<Longrightarrow> set qs \<subseteq> set v"
  by (simp add: walk_inv_def)

lemma walk_inv_push:
  assumes inv: "walk_inv f (v, h # stack)" and ps: "f h = Some ps"
  shows "walk_inv f (fold push_unvisited ps (v, stack))"
  unfolding walk_inv_def push_all_unvisited fst_conv snd_conv
proof (intro conjI allI impI)
  show "distinct (fst (fold push_unvisited ps (v, stack)))"
    using inv push_distinct [of "(v, stack)" ps] by (simp add: walk_inv_def)
  show "set stack \<union> (set ps - set v) \<subseteq> set v \<union> set ps"
    using inv by (auto simp: walk_inv_def)
  show "set qs \<subseteq> set v \<union> set ps"
    if "k \<in> set v \<union> set ps" "k \<notin> set stack \<union> (set ps - set v)" "f k = Some qs" for k qs
    using that ps walk_invD [OF inv, of k qs] by (cases "k = h") auto
qed

lemma walk_inv_pop:
  assumes inv: "walk_inv f (v, h # stack)" and none: "f h = None"
  shows "walk_inv f (v, stack)"
  unfolding walk_inv_def fst_conv snd_conv
proof (intro conjI allI impI)
  show "distinct v" and "set stack \<subseteq> set v"
    using inv by (auto simp: walk_inv_def)
  show "set qs \<subseteq> set v" if "k \<in> set v" "k \<notin> set stack" "f k = Some qs" for k qs
    using that none walk_invD [OF inv, of k qs] by (cases "k = h") auto
qed

lemma reach_walk_closed:
  "walk_inv f vs \<Longrightarrow> distinct (reach_walk f vs) \<and> set (fst vs) \<subseteq> set (reach_walk f vs) \<and>
    (\<forall>h ps. h \<in> set (reach_walk f vs) \<longrightarrow> f h = Some ps \<longrightarrow> set ps \<subseteq> set (reach_walk f vs))"
proof (induction f vs rule: reach_walk.induct)
  case (2 f v h stack)
  show ?case
  proof (cases "f h")
    case None
    then show ?thesis
      using 2(1) [OF None walk_inv_pop [OF 2(3) None]] by simp
  next
    case (Some ps)
    then show ?thesis
      using 2(2) [OF Some walk_inv_push [OF 2(3) Some]] push_all_unvisited(1) [of ps "(v, stack)"] by auto
  qed
qed (simp add: walk_inv_def)

lemma reach_walk_sound:
  "set (fst vs) \<subseteq> R \<Longrightarrow> set (snd vs) \<subseteq> R \<Longrightarrow> edges f `` R \<subseteq> R \<Longrightarrow> set (reach_walk f vs) \<subseteq> R"
proof (induction f vs rule: reach_walk.induct)
  case (2 f v h stack)
  show ?case
  proof (cases "f h")
    case (Some ps)
    then have "set ps \<subseteq> R"
      using 2(4,5) by (auto simp: edges_def)
    then show ?thesis
      using 2(2) [OF Some] 2(3-5) Some push_all_unvisited [of ps "(v, stack)"] by auto
  qed (use 2 in simp)
qed simp

lemma walk_start:
  "set (fst (fold push_unvisited roots ([], []))) = set roots"
  "set (snd (fold push_unvisited roots ([], []))) = set roots"
  "walk_inv f (fold push_unvisited roots ([], []))"
  using push_all_unvisited(1,2) [of roots "([], [])"] push_distinct [of "([], [])" roots]
  by (simp_all add: walk_inv_def)

lemma walk_complete:
  "(edges f)\<^sup>* `` set roots \<subseteq> set (reach_walk f (fold push_unvisited roots ([], [])))"
proof -
  let ?R = "set (reach_walk f (fold push_unvisited roots ([], [])))"
  have "set roots \<subseteq> ?R" "edges f `` ?R \<subseteq> ?R"
    using reach_walk_closed [OF walk_start(3) [of f roots]] unfolding walk_start(1) by (auto simp: edges_def)
  then show ?thesis
    using Image_closed_trancl [of "edges f" ?R] by blast
qed

text \<open>
  The walk ends on every edge map, a cyclic one included, and visits exactly what the roots
  reach along the edges, each hash once.
\<close>

lemma reach_walk_closure:
  "distinct (reach_walk f (fold push_unvisited roots ([], []))) \<and>
    set (reach_walk f (fold push_unvisited roots ([], []))) = (edges f)\<^sup>* `` set roots"
proof -
  have "edges f `` ((edges f)\<^sup>* `` set roots) \<subseteq> (edges f)\<^sup>* `` set roots"
    by (auto intro: rtrancl_into_rtrancl)
  then have "set (reach_walk f (fold push_unvisited roots ([], []))) \<subseteq> (edges f)\<^sup>* `` set roots"
    by (intro reach_walk_sound) (auto simp: walk_start)
  then show ?thesis
    using walk_complete [of f roots] reach_walk_closed [OF walk_start(3) [of f roots]] by blast
qed

section \<open>Logs in which every node names its predecessor\<close>

definition chained :: "dag_node list \<Rightarrow> bool" where
  "chained = successively (\<lambda>m n. node_hash m \<in> set (parent_hashes n))"

definition parent_edges :: "dag_node list \<Rightarrow> (arr32 \<times> arr32) set" where
  "parent_edges ns = {(node_hash n, p) | n p. n \<in> set ns \<and> p \<in> set (parent_hashes n)}"

lemma parents_by_hash_snoc:
  "parents_by_hash (ns @ [n]) = (parents_by_hash ns)(node_hash n \<mapsto> parent_hashes n)"
  by (simp add: parents_by_hash_def)

lemma edges_parents_by_hash:
  "distinct (map node_hash ns) \<Longrightarrow> edges (parents_by_hash ns) = parent_edges ns"
proof (induction ns rule: rev_induct)
  case (snoc n ns)
  have "parents_by_hash ns h = None" if "h \<notin> node_hash ` set ns" for h
    using that by (induction ns rule: rev_induct) (auto simp: parents_by_hash_snoc parents_by_hash_def [of "[]"])
  then have "edges (parents_by_hash (ns @ [n])) =
      edges (parents_by_hash ns) \<union> {node_hash n} \<times> set (parent_hashes n)"
    using snoc.prems by (auto simp: edges_def parents_by_hash_snoc split: if_splits)
  also have "\<dots> = parent_edges (ns @ [n])"
    using snoc by (auto simp: parent_edges_def)
  finally show ?case .
qed (simp add: edges_def parents_by_hash_def parent_edges_def)

lemma chained_reaches:
  "chained (ns @ [n]) \<Longrightarrow> m \<in> set (ns @ [n]) \<Longrightarrow>
    (node_hash n, node_hash m) \<in> (parent_edges (ns @ [n]))\<^sup>*"
proof (induction ns arbitrary: n rule: rev_induct)
  case (snoc k ns)
  show ?case
  proof (cases "m = n")
    case False
    have "chained (ns @ [k])" and edge: "node_hash k \<in> set (parent_hashes n)"
      using snoc.prems(1) by (simp_all add: chained_def successively_append_iff)
    then have "(node_hash k, node_hash m) \<in> (parent_edges (ns @ [k]))\<^sup>*"
      using snoc False by simp
    moreover have "parent_edges (ns @ [k]) \<subseteq> parent_edges ((ns @ [k]) @ [n])"
      by (auto simp: parent_edges_def)
    ultimately have "(node_hash k, node_hash m) \<in> (parent_edges ((ns @ [k]) @ [n]))\<^sup>*"
      using rtrancl_mono by blast
    moreover have "(node_hash n, node_hash k) \<in> parent_edges ((ns @ [k]) @ [n])"
      using edge by (auto simp: parent_edges_def)
    ultimately show ?thesis
      by (rule converse_rtrancl_into_rtrancl [rotated])
  qed simp
qed simp

lemma chained_referenced:
  "chained (ns @ [n]) \<Longrightarrow> m \<in> set ns \<Longrightarrow> node_hash m \<in> referenced_hashes (ns @ [n])"
proof (induction ns arbitrary: n rule: rev_induct)
  case (snoc k ns)
  then have "chained (ns @ [k])" and "node_hash k \<in> set (parent_hashes n)"
    by (simp_all add: chained_def successively_append_iff)
  then show ?case
    using snoc by (auto simp: referenced_hashes_def)
qed simp

section \<open>What a tombstone adds\<close>

text \<open>The tombstone of a candidate, whose parents are the tip and the part it kills.\<close>

definition tombstone :: "hash_fn \<Rightarrow> dag \<Rightarrow> prune_rule \<Rightarrow> u64 \<Rightarrow> prune_candidate \<Rightarrow> dag_node" where
  "tombstone H d r cycle c =
     (let parents = (if pc_hash c \<in> set (tip_parents d) then tip_parents d else tip_parents d @ [pc_hash c]);
          body = encode_internal_mortality_event (pr_category r) (pr_id r) (pc_hash c) (pc_node_type c)
            (pc_reason c) (pc_replaced_by c) cycle
      in \<lparr>node_hash = merkle_hash H parents body, parent_hashes = parents,
          node_type = internal_mortality_event_node_type (pr_category r), created_at_cycle = cycle, content = body\<rparr>)"

text \<open>What makes a node the tombstone of a candidate, wherever the log stood.\<close>

definition kills :: "u64 \<Rightarrow> prune_rule \<times> prune_candidate \<Rightarrow> dag_node \<Rightarrow> bool" where
  "kills cycle rc t \<longleftrightarrow>
     pc_hash (snd rc) \<in> set (parent_hashes t) \<and> created_at_cycle t = cycle \<and>
     node_type t = internal_mortality_event_node_type (pr_category (fst rc)) \<and>
     content t = encode_internal_mortality_event (pr_category (fst rc)) (pr_id (fst rc)) (pc_hash (snd rc))
       (pc_node_type (snd rc)) (pc_reason (snd rc)) (pc_replaced_by (snd rc)) cycle"

lemma kills_tombstone: "kills cycle (r, c) (tombstone H d r cycle c)"
  by (simp add: kills_def tombstone_def Let_def)

text \<open>One tombstone: either an error leaves the state as it was, or the log grows by it.\<close>

lemma emit_tombstone_cases:
  assumes inv: "server_inv pf s"
  obtains (failed) e where "emit_internal_mortality_event pf (pr_category r) (pr_id r) (pc_hash c) (pc_node_type c)
      (pc_reason c) (pc_replaced_by c) cycle s = (s, Err e)"
  | (logged) s' where "emit_internal_mortality_event pf (pr_category r) (pr_id r) (pc_hash c) (pc_node_type c)
      (pc_reason c) (pc_replaced_by c) cycle s = (s', Ok (node_hash (tombstone (pf_hash pf) (ss_dag s) r cycle c)))"
    "server_inv pf s'" "s' = s\<lparr>ss_dag := ss_dag s'\<rparr>"
    "iter_in_insertion_order (ss_dag s') = iter_in_insertion_order (ss_dag s) @
       [tombstone (pf_hash pf) (ss_dag s) r cycle c]"
    "pc_hash c \<in> node_hash ` set (iter_in_insertion_order (ss_dag s))"
    "iter_in_insertion_order (ss_dag s) \<noteq> []"
proof -
  let ?d = "ss_dag s" and ?t = "tombstone (pf_hash pf) (ss_dag s) r cycle c"
  let ?ps = "parent_hashes ?t" and ?ty = "node_type ?t" and ?b = "content ?t"
  have t: "node_hash ?t = merkle_hash (pf_hash pf) ?ps ?b" "created_at_cycle ?t = cycle"
    by (simp_all add: tombstone_def Let_def)
  have run: "emit_internal_mortality_event pf (pr_category r) (pr_id r) (pc_hash c) (pc_node_type c)
      (pc_reason c) (pc_replaced_by c) cycle s =
    (case insert_node (pf_hash pf) ?ps ?ty cycle ?b ?d of
       (d, Ok h) \<Rightarrow> (s\<lparr>ss_dag := d\<rparr>, Ok h)
     | (d, Err e) \<Rightarrow>
         (s\<lparr>ss_dag := d\<rparr>, Err (SubProtocol (''internal_mortality_event DAG insert: '' @ dag_display e)))
     | (d, Abort x) \<Rightarrow> (s\<lparr>ss_dag := d\<rparr>, Abort x))"
    unfolding emit_internal_mortality_event_def tombstone_def Let_def by (simp only: dag_node.simps)
  have dag: "dag_inv (pf_hash pf) ?d"
    using inv by (simp add: server_inv_def)
  have same: "s\<lparr>ss_dag := ?d\<rparr> = s"
    by simp
  show thesis
  proof (cases rule: insert_node_cases [of ?ty "pf_hash pf" ?ps cycle ?b ?d])
    case empty
    then show ?thesis
      using failed run same by auto
  next
    case (parent e)
    then show ?thesis
      using failed run same by auto
  next
    case (present n)
    have "?ps \<noteq> parent_hashes n"
    proof (cases "tip ?d")
      case None
      then show ?thesis
        using dag present(3) by (auto simp: dag_inv_def dag_get_def split: if_splits)
    next
      case (Some k)
      then have "k \<in> set ?ps"
        by (simp add: tombstone_def Let_def tip_parents_def)
      then show ?thesis
        using tip_has_no_child [OF dag present(3) Some] by auto
    qed
    then show ?thesis
      using failed run same present(4) by auto
  next
    case fresh
    let ?d' = "fst (insert_node (pf_hash pf) ?ps ?ty cycle ?b ?d)"
    have inv': "dag_inv (pf_hash pf) ?d'"
      by (rule dag_inv_insert [OF dag])
    have node: "(\<lparr>node_hash = merkle_hash (pf_hash pf) ?ps ?b, parent_hashes = ?ps, node_type = ?ty,
        created_at_cycle = cycle, content = ?b\<rparr> :: dag_node) = ?t"
      using t by simp
    have log: "iter_in_insertion_order ?d' = iter_in_insertion_order ?d @ [?t]"
      using iter_nodes [OF inv'] iter_nodes [OF dag] by (simp add: fresh(4) node)
    have "set ?ps \<subseteq> fst ` set (nodes ?d)"
      using fresh(2) by (simp add: check_parents_Ok_iff)
    then have "pc_hash c \<in> fst ` set (nodes ?d)"
      using kills_tombstone [of cycle r c "pf_hash pf" ?d] by (auto simp: kills_def)
    then have part: "pc_hash c \<in> node_hash ` set (iter_in_insertion_order ?d)"
      using iter_hashes [OF dag] by (metis list.set_map)
    have "current_cultivation_state ?d' = current_cultivation_state ?d"
      by (rule cultivation_state_append [OF log])
        (simp add: tombstone_def Let_def internal_mortality_event_node_type_def is_cultivation_family_node_type_def
          NODE_TYPE_INTERNAL_MORTALITY_EVENT_PREFIX_def starts_with_def NODE_TYPE_BET_RETIRED_PREFIX_def
          NODE_TYPE_CULTIVATION_RECOVERED_PREFIX_def NODE_TYPE_CULTIVATION_ORPHANED_PREFIX_def
          NODE_TYPE_SUCCESSION_COMPLETED_PREFIX_def)
    then show ?thesis
      using inv inv' log part fresh(4) run
      by (intro logged [of "s\<lparr>ss_dag := ?d'\<rparr>"]) (auto simp: server_inv_def t(1))
  qed
qed

section \<open>What a scan adds\<close>

text \<open>A state that differs from an earlier one by the tombstones of some candidates, one each, in order.\<close>

definition tombstoned ::
    "platform \<Rightarrow> u64 \<Rightarrow> server_state \<Rightarrow> (prune_rule \<times> prune_candidate) list \<Rightarrow> dag_node list \<Rightarrow> server_state \<Rightarrow> bool"
where
  "tombstoned pf cycle s ks ts s' \<longleftrightarrow>
     server_inv pf s' \<and> s' = s\<lparr>ss_dag := ss_dag s'\<rparr> \<and>
     iter_in_insertion_order (ss_dag s') = iter_in_insertion_order (ss_dag s) @ ts \<and>
     list_all2 (kills cycle) ks ts \<and>
     (chained (iter_in_insertion_order (ss_dag s)) \<longrightarrow> chained (iter_in_insertion_order (ss_dag s')))"

lemma tombstoned_refl: "server_inv pf s \<Longrightarrow> tombstoned pf cycle s [] [] s"
  by (simp add: tombstoned_def)

lemma only_dag_trans:
  fixes s s1 s2 :: server_state
  assumes "s1 = s\<lparr>ss_dag := ss_dag s1\<rparr>" and "s2 = s1\<lparr>ss_dag := ss_dag s2\<rparr>"
  shows "s2 = s\<lparr>ss_dag := ss_dag s2\<rparr>"
proof -
  obtain d1 d2 where "s1 = s\<lparr>ss_dag := d1\<rparr>" and "s2 = s1\<lparr>ss_dag := d2\<rparr>"
    using assms by blast
  then show ?thesis
    by simp
qed

lemma tombstoned_trans:
  assumes "tombstoned pf cycle s ks ts s1" and "tombstoned pf cycle s1 ks' ts' s2"
  shows "tombstoned pf cycle s (ks @ ks') (ts @ ts') s2"
  unfolding tombstoned_def
proof (intro conjI)
  show "s2 = s\<lparr>ss_dag := ss_dag s2\<rparr>"
    using only_dag_trans [of s1 s s2] assms unfolding tombstoned_def by blast
  show "list_all2 (kills cycle) (ks @ ks') (ts @ ts')"
    using assms by (simp add: tombstoned_def list_all2_appendI)
qed (use assms in \<open>auto simp: tombstoned_def\<close>)

lemma tombstoned_one:
  assumes inv: "server_inv pf s"
    and run: "emit_internal_mortality_event pf (pr_category r) (pr_id r) (pc_hash c) (pc_node_type c)
      (pc_reason c) (pc_replaced_by c) cycle s = (s', res)"
  obtains (failed) e where "res = Err e" "s' = s"
  | (logged) t where "res = Ok (node_hash t)" "tombstoned pf cycle s [(r, c)] [t] s'"
proof -
  show thesis
    using inv
  proof (cases rule: emit_tombstone_cases [where r = r and c = c and cycle = cycle])
    case (failed e)
    then show ?thesis
      using run that(1) by simp
  next
    case (logged s1)
    let ?ns = "iter_in_insertion_order (ss_dag s)" and ?t = "tombstone (pf_hash pf) (ss_dag s) r cycle c"
    have "tip (ss_dag s) = Some (node_hash (last ?ns))"
      using tip_last_node [OF _ logged(6)] inv unfolding server_inv_def by blast
    then have "node_hash (last ?ns) \<in> set (parent_hashes ?t)"
      by (simp add: tombstone_def Let_def tip_parents_def)
    then have "chained ?ns \<longrightarrow> chained (?ns @ [?t])"
      by (simp add: chained_def successively_append_iff)
    then have "tombstoned pf cycle s [(r, c)] [?t] s1"
      using logged(2,4) kills_tombstone unfolding tombstoned_def by (simp add: logged(3) [symmetric])
    then show ?thesis
      using run logged(1) by (intro that(2) [of ?t]) simp_all
  qed
qed

lemma emit_tombstones_log:
  assumes "server_inv pf s" and "emit_tombstones pf r cycle cs s = (s', res)"
  shows "\<exists>ks ts. tombstoned pf cycle s ks ts s' \<and> (\<exists>k. ks = map (Pair r) (take k cs)) \<and>
    (\<forall>hs. res = Ok hs \<longrightarrow> ks = map (Pair r) cs \<and> hs = map node_hash ts)"
  using assms
proof (induction cs arbitrary: s res)
  case Nil
  then show ?case
    using tombstoned_refl [of pf s cycle] by (auto simp: return_act_def)
next
  case (Cons c cs)
  obtain s1 r1 where one: "emit_internal_mortality_event pf (pr_category r) (pr_id r) (pc_hash c) (pc_node_type c)
      (pc_reason c) (pc_replaced_by c) cycle s = (s1, r1)"
    by (metis surj_pair)
  from Cons.prems(1) one show ?case
  proof (cases rule: tombstoned_one)
    case (failed e)
    then show ?thesis
      using Cons.prems one tombstoned_refl [of pf s cycle]
      by (intro exI [of _ "[]"]) (auto simp: bind_act_def)
  next
    case (logged t)
    obtain r2 where rest: "emit_tombstones pf r cycle cs s1 = (s', r2)" and res: "res = (case r2 of
        Ok hs \<Rightarrow> Ok (node_hash t # hs) | Err e \<Rightarrow> Err e | Abort x \<Rightarrow> Abort x)"
      using Cons.prems(2) one logged(1)
      by (auto simp: bind_act_def return_act_def split: prod.splits result.splits)
    have "server_inv pf s1"
      using logged(2) by (simp add: tombstoned_def)
    from Cons.IH [OF this rest] obtain ks ts k where "tombstoned pf cycle s1 ks ts s'" "ks = map (Pair r) (take k cs)"
      "\<forall>hs. r2 = Ok hs \<longrightarrow> ks = map (Pair r) cs \<and> hs = map node_hash ts"
      by blast
    moreover from this have "\<exists>k. (r, c) # ks = map (Pair r) (take k (c # cs))"
      by (intro exI [of _ "Suc k"]) simp
    ultimately show ?thesis
      using tombstoned_trans [OF logged(2)] res
      by (intro exI [of _ "(r, c) # ks"] exI [of _ "t # ts"] conjI) (auto split: result.splits)
  qed
qed

text \<open>A candidate is named by some rule on the log as it stood when that rule ran.\<close>

definition detected ::
    "platform \<Rightarrow> prune_scan_ctx \<Rightarrow> u64 \<Rightarrow> prune_rule list \<Rightarrow> server_state \<Rightarrow> prune_rule \<times> prune_candidate \<Rightarrow> bool" where
  "detected pf ctx cycle rules s rc \<longleftrightarrow> fst rc \<in> set rules \<and>
     (\<exists>ks ts s1 cs. tombstoned pf cycle s ks ts s1 \<and> pr_detect (fst rc) s1 ctx cycle = Ok cs \<and> snd rc \<in> set cs)"

lemma run_rules_log:
  assumes "server_inv pf s" and "run_rules pf ctx cycle rules report s = (s', res)"
  shows "\<exists>ks ts. tombstoned pf cycle s ks ts s' \<and> list_all (detected pf ctx cycle rules s) ks \<and>
    (\<forall>rep. res = Ok rep \<longrightarrow> rep = \<lparr>rules_run = rules_run report @ map pr_id rules,
       tombstones_emitted = tombstones_emitted report @ map node_hash ts, at_cycle = at_cycle report\<rparr>)"
  using assms
proof (induction rules arbitrary: s report)
  case Nil
  then show ?case
    using tombstoned_refl [of pf s cycle]
    by (cases report, intro exI [of _ "[]"]) (auto simp: return_act_def)
next
  case (Cons r rs)
  show ?case
  proof (cases "pr_detect r s ctx cycle")
    case (Ok cs)
    obtain s1 r1 where emit: "emit_tombstones pf r cycle cs s = (s1, r1)"
      by (metis surj_pair)
    obtain ks ts k where one: "tombstoned pf cycle s ks ts s1" "ks = map (Pair r) (take k cs)"
      "\<forall>hs. r1 = Ok hs \<longrightarrow> ks = map (Pair r) cs \<and> hs = map node_hash ts"
      using emit_tombstones_log [OF Cons.prems(1) emit] by blast
    have found: "list_all (detected pf ctx cycle (r # rs) s) ks"
      using tombstoned_refl [OF Cons.prems(1), of cycle] Ok
      unfolding one(2) list_all_iff by (auto simp: detected_def dest!: in_set_takeD)
    show ?thesis
    proof (cases r1)
      case res: (Ok hs)
      have inv1: "server_inv pf s1"
        using one(1) by (simp add: tombstoned_def)
      have rest: "run_rules pf ctx cycle rs (report\<lparr>rules_run := rules_run report @ [pr_id r],
          tombstones_emitted := tombstones_emitted report @ hs\<rparr>) s1 = (s', res)"
        using Cons.prems(2) Ok emit res by (simp add: bind_act_def)
      obtain ks' ts' where two: "tombstoned pf cycle s1 ks' ts' s'" "list_all (detected pf ctx cycle rs s1) ks'"
        "\<forall>rep. res = Ok rep \<longrightarrow> rep = \<lparr>rules_run = rules_run report @ [pr_id r] @ map pr_id rs,
           tombstones_emitted = tombstones_emitted report @ hs @ map node_hash ts', at_cycle = at_cycle report\<rparr>"
        using Cons.IH [OF inv1 rest] by auto
      have "detected pf ctx cycle (r # rs) s rc" if "detected pf ctx cycle rs s1 rc" for rc
        using that tombstoned_trans [OF one(1)] by (fastforce simp: detected_def)
      then have "list_all (detected pf ctx cycle (r # rs) s) (ks @ ks')"
        using found two(2) by (auto simp: list_all_iff)
      then show ?thesis
        using tombstoned_trans [OF one(1) two(1)] two(3) one(3) res
        by (intro exI [of _ "ks @ ks'"] exI [of _ "ts @ ts'"]) simp
    next
      case (Err e)
      then show ?thesis
        using Cons.prems(2) Ok emit one(1) found by (auto simp: bind_act_def)
    next
      case (Abort x)
      then show ?thesis
        using Cons.prems(2) Ok emit one(1) found by (auto simp: bind_act_def)
    qed
  next
    case (Err e)
    then show ?thesis
      using Cons.prems tombstoned_refl [of pf s cycle] by (auto simp: bind_act_def intro!: exI [of _ "[]"])
  next
    case (Abort x)
    then show ?thesis
      using Cons.prems tombstoned_refl [of pf s cycle] by (auto simp: bind_act_def intro!: exI [of _ "[]"])
  qed
qed

section \<open>What each rule can name\<close>

text \<open>A node of the log that a rule may kill: unprotected, not the tip, and past the shortest grace.\<close>

definition killable :: "prune_scan_ctx \<Rightarrow> u64 \<Rightarrow> dag_node \<Rightarrow> bool" where
  "killable ctx cycle n \<longleftrightarrow> \<not> is_p10_invariant_protected (node_type n) \<and> ctx_tip ctx \<noteq> Some (node_hash n) \<and>
     unat (created_at_cycle n) + 1000 \<le> unat cycle"

definition names_killable :: "prune_scan_ctx \<Rightarrow> u64 \<Rightarrow> dag_node list \<Rightarrow> prune_candidate \<Rightarrow> bool" where
  "names_killable ctx cycle ns c \<longleftrightarrow>
     (\<exists>n \<in> set ns. pc_hash c = node_hash n \<and> pc_node_type c = node_type n \<and> killable ctx cycle n)"

lemmas grace_defs = ORPHAN_GRACE_CYCLES_def STALE_AXIS_GRACE_CYCLES_def ERRONEOUS_GRACE_CYCLES_def
  PLATE_SUPERSEDED_GRACE_CYCLES_def REDUNDANT_GRACE_CYCLES_def

lemma past_cutoff:
  assumes "\<not> cycle \<le> g" and "\<not> sat_sub cycle g < t"
  shows "unat t + unat g \<le> unat cycle"
  using assms by (simp add: word_less_nat_alt word_le_nat_alt unat_sat_sub)

lemma past_later:
  assumes "\<not> sat_sub cycle later \<le> g" and "\<not> later \<le> t"
  shows "unat t + unat g \<le> unat cycle"
  using assms by (simp add: word_less_nat_alt word_le_nat_alt unat_sat_sub)

lemma map_filter_mem: "c \<in> set (List.map_filter f xs) \<longleftrightarrow> (\<exists>x \<in> set xs. f x = Some c)"
  by (force simp: List.map_filter_def)

lemma candidate_names:
  "pc_hash (orphan_candidate cycle n) = node_hash n" "pc_node_type (orphan_candidate cycle n) = node_type n"
  "pc_hash (unreachable_candidate cycle n) = node_hash n" "pc_node_type (unreachable_candidate cycle n) = node_type n"
  "pc_hash (group_candidate cycle g) = first_hash g" "pc_node_type (group_candidate cycle g) = first_type g"
  by (simp_all add: orphan_candidate_def unreachable_candidate_def group_candidate_def)

lemma orphan_names:
  assumes "detect_orphan_past_grace s ctx cycle = Ok cs" and "c \<in> set cs"
  shows "names_killable ctx cycle (iter_in_insertion_order (ss_dag s)) c"
  using assms past_cutoff [of cycle ORPHAN_GRACE_CYCLES]
  by (fastforce simp: detect_orphan_past_grace_def Let_def names_killable_def killable_def grace_defs candidate_names
      split: if_splits)

lemma touch_mono: "m k = Some t \<Longrightarrow> \<exists>t'. touch_step n m k = Some t' \<and> t \<le> t'"
  by (auto simp: touch_step_def touch_def Let_def split: option.splits)

lemma fold_touch_mono: "m k = Some t \<Longrightarrow> \<exists>t'. fold touch_step ns m k = Some t' \<and> t \<le> t'"
proof (induction ns arbitrary: m t)
  case (Cons n ns)
  then show ?case
    using touch_mono [of m k t n] by (metis fold_simps(2) order_trans)
qed simp

lemma fold_touch_registered:
  assumes "n \<in> set ns" and "strip_prefix NODE_TYPE_AXIS_REGISTERED_PREFIX (node_type n) = Some name"
  shows "\<exists>t. fold touch_step ns m name = Some t \<and> created_at_cycle n \<le> t"
  using assms(1)
proof (induction ns arbitrary: m)
  case (Cons k ns)
  show ?case
  proof (cases "n = k")
    case True
    then have "\<exists>t. touch_step k m name = Some t \<and> created_at_cycle n \<le> t"
      using assms(2) by (auto simp: touch_step_def touch_def Let_def not_less split: option.splits)
    then show ?thesis
      using fold_touch_mono [of "touch_step k m" name _ ns] by (metis fold_simps(2) order_trans)
  qed (use Cons in simp)
qed simp

lemma stale_names:
  assumes "detect_stale_axis_past_window s ctx cycle = Ok cs" and "c \<in> set cs"
  shows "names_killable ctx cycle (iter_in_insertion_order (ss_dag s)) c"
proof -
  let ?ns = "iter_in_insertion_order (ss_dag s)"
  let ?m = "fold touch_step ?ns (\<lambda>_. None)"
  have late: "\<not> cycle \<le> STALE_AXIS_GRACE_CYCLES"
    using assms by (auto simp: detect_stale_axis_past_window_def)
  obtain n where n: "n \<in> set ?ns" "stale_axis ctx cycle ?m n = Some c"
    using assms by (auto simp: detect_stale_axis_past_window_def Let_def map_filter_mem split: if_splits)
  obtain name where name: "strip_prefix NODE_TYPE_AXIS_REGISTERED_PREFIX (node_type n) = Some name"
    using n(2) by (auto simp: stale_axis_def split: option.splits)
  obtain t where t: "?m name = Some t" "created_at_cycle n \<le> t"
    using fold_touch_registered [OF n(1) name] by blast
  have old: "\<not> sat_sub cycle STALE_AXIS_GRACE_CYCLES < t" and "is_prune_eligible (node_type n) (node_hash n) ctx"
    and "pc_hash c = node_hash n" and "pc_node_type c = node_type n"
    using n(2) by (auto simp: stale_axis_def name t(1) Let_def split: if_splits)
  moreover have "unat (created_at_cycle n) + 1000 \<le> unat cycle"
    using past_cutoff [OF late old] t(2) by (simp add: grace_defs word_le_nat_alt)
  ultimately show ?thesis
    using n(1) by (auto simp: names_killable_def killable_def is_prune_eligible_def)
qed

lemma falsified_names:
  assumes "detect_superseded_by_failed_evolution s ctx cycle = Ok cs" and "c \<in> set cs"
  shows "names_killable ctx cycle (iter_in_insertion_order (ss_dag s)) c"
proof -
  let ?ns = "iter_in_insertion_order (ss_dag s)"
  obtain n where n: "n \<in> set ?ns" "falsified ctx cycle (fold failure_step ?ns (\<lambda>_. None)) n = Some c"
    using assms by (auto simp: detect_superseded_by_failed_evolution_def Let_def map_filter_mem split: if_splits)
  then obtain later where "\<not> sat_sub cycle later \<le> ERRONEOUS_GRACE_CYCLES" "\<not> later \<le> created_at_cycle n"
    and "is_prune_eligible (node_type n) (node_hash n) ctx" "pc_hash c = node_hash n" "pc_node_type c = node_type n"
    by (auto simp: falsified_def split: option.splits if_splits)
  then show ?thesis
    using n(1) past_later [of cycle later ERRONEOUS_GRACE_CYCLES "created_at_cycle n"]
    by (auto simp: names_killable_def killable_def is_prune_eligible_def grace_defs)
qed

lemma plate_names:
  assumes "detect_forged_understanding_superseded s ctx cycle = Ok cs" and "c \<in> set cs"
  shows "names_killable ctx cycle (iter_in_insertion_order (ss_dag s)) c"
proof -
  let ?ns = "iter_in_insertion_order (ss_dag s)"
  obtain n m where n: "n \<in> set ?ns" "superseded_plate ctx cycle m n = Some c"
    using assms by (auto simp: detect_forged_understanding_superseded_def Let_def map_filter_mem split: if_splits)
  then obtain later where "\<not> sat_sub cycle later \<le> PLATE_SUPERSEDED_GRACE_CYCLES" "\<not> later \<le> created_at_cycle n"
    and "is_prune_eligible (node_type n) (node_hash n) ctx" "pc_hash c = node_hash n" "pc_node_type c = node_type n"
    by (auto simp: superseded_plate_def split: option.splits if_splits)
  then show ?thesis
    using n(1) past_later [of cycle later PLATE_SUPERSEDED_GRACE_CYCLES "created_at_cycle n"]
    by (auto simp: names_killable_def killable_def is_prune_eligible_def grace_defs)
qed

lemma unreachable_names:
  assumes "detect_unreachable_from_live_roots s ctx cycle = Ok cs" and "c \<in> set cs"
  shows "names_killable ctx cycle (iter_in_insertion_order (ss_dag s)) c"
  using assms past_cutoff [of cycle ORPHAN_GRACE_CYCLES]
  by (fastforce simp: detect_unreachable_from_live_roots_def Let_def names_killable_def killable_def grace_defs
      is_prune_eligible_def candidate_names split: if_splits)

section \<open>Duplicates\<close>

definition dup_key :: "dag_node \<Rightarrow> string \<times> bytes" where
  "dup_key n = (node_type n, content n)"

text \<open>The group of the copies of the node at an index, if that is the first copy.\<close>

definition first_copy :: "dag_node list \<Rightarrow> nat \<Rightarrow> bool" where
  "first_copy ns i \<longleftrightarrow> redundant_in_scope (node_type (ns ! i)) \<and> (\<forall>j < i. dup_key (ns ! j) \<noteq> dup_key (ns ! i))"

definition next_copy :: "dag_node list \<Rightarrow> nat \<Rightarrow> dag_node option" where
  "next_copy ns i = List.find (\<lambda>m. dup_key m = dup_key (ns ! i)) (drop (Suc i) ns)"

definition group_at :: "dag_node list \<Rightarrow> nat \<Rightarrow> dup_group" where
  "group_at ns i = \<lparr>first_hash = node_hash (ns ! i), first_type = node_type (ns ! i),
     first_cycle = created_at_cycle (ns ! i), first_index = i,
     survivor_hash = map_option node_hash (next_copy ns i)\<rparr>"

lemma find_snoc: "List.find P (xs @ [x]) = (case List.find P xs of Some y \<Rightarrow> Some y | None \<Rightarrow> if P x then Some x else None)"
  by (induction xs) auto

lemma group_at_snoc:
  assumes "i < length ns" and "node_hash n \<notin> node_hash ` set ns"
  shows "group_at (ns @ [n]) i = (if dup_key n = dup_key (ns ! i) then add_survivor n (group_at ns i) else group_at ns i)"
proof -
  have "node_hash n \<noteq> node_hash (ns ! i)"
    using assms nth_mem by fastforce
  then show ?thesis
    using assms(1)
    by (auto simp: group_at_def next_copy_def nth_append find_snoc add_survivor_def split: option.splits)
qed

lemma next_copy_exists:
  "next_copy ns i \<noteq> None \<longleftrightarrow> (\<exists>j. i < j \<and> j < length ns \<and> dup_key (ns ! j) = dup_key (ns ! i))"
proof -
  have "next_copy ns i \<noteq> None \<longleftrightarrow> (\<exists>k < length ns - Suc i. dup_key (ns ! (Suc i + k)) = dup_key (ns ! i))"
    by (auto simp: next_copy_def find_None_iff in_set_conv_nth)
  also have "\<dots> \<longleftrightarrow> (\<exists>j. i < j \<and> j < length ns \<and> dup_key (ns ! j) = dup_key (ns ! i))"
    by (metis add_diff_inverse_nat diff_less_mono less_diff_conv add.commute not_less_eq Suc_le_eq less_add_Suc1)
  finally show ?thesis .
qed

lemma first_copy_exists:
  "redundant_in_scope (node_type (ns ! i)) \<Longrightarrow> \<exists>j \<le> i. first_copy ns j \<and> dup_key (ns ! j) = dup_key (ns ! i)"
proof (induction i rule: less_induct)
  case (less i)
  show ?case
  proof (cases "first_copy ns i")
    case False
    then obtain k where k: "k < i" "dup_key (ns ! k) = dup_key (ns ! i)"
      using less.prems unfolding first_copy_def by blast
    then have "redundant_in_scope (node_type (ns ! k))"
      using less.prems by (simp add: dup_key_def)
    from less.IH [OF k(1) this] show ?thesis
      using k by (metis less_imp_le_nat le_trans)
  qed auto
qed

lemma groups_exact:
  "distinct (map node_hash ns) \<Longrightarrow> fold group_step (enumerate 0 ns) [] =
    map (\<lambda>i. (dup_key (ns ! i), group_at ns i)) (filter (first_copy ns) [0..<length ns])"
proof (induction ns rule: rev_induct)
  case (snoc n ns)
  let ?gs = "map (\<lambda>i. (dup_key (ns ! i), group_at ns i)) (filter (first_copy ns) [0..<length ns])"
  let ?new = "\<lambda>i. (dup_key ((ns @ [n]) ! i), group_at (ns @ [n]) i)"
  have fresh: "node_hash n \<notin> node_hash ` set ns"
    using snoc.prems by auto
  have "fold group_step (enumerate 0 (ns @ [n])) [] = group_step (length ns, n) ?gs"
    using snoc by (simp add: enumerate_append_eq)
  moreover have old: "filter (first_copy (ns @ [n])) [0..<length ns] = filter (first_copy ns) [0..<length ns]"
    by (rule filter_cong) (auto simp: first_copy_def nth_append)
  have new: "map ?new (filter (first_copy ns) [0..<length ns]) =
      map (\<lambda>(k, g). (k, if k = dup_key n then add_survivor n g else g)) ?gs"
    using fresh by (auto simp: nth_append group_at_snoc)
  have "group_step (length ns, n) ?gs = map ?new (filter (first_copy (ns @ [n])) [0..<length (ns @ [n])])"
  proof (cases "redundant_in_scope (node_type n)")
    case False
    have "map ?new (filter (first_copy ns) [0..<length ns]) = ?gs"
      using False fresh by (auto simp: nth_append group_at_snoc first_copy_def dup_key_def)
    moreover have "\<not> first_copy (ns @ [n]) (length ns)"
      using False by (simp add: first_copy_def)
    ultimately show ?thesis
      using False old by (simp add: group_step_def)
  next
    case True
    have "map_of ?gs (dup_key n) = None \<longleftrightarrow> (\<forall>i < length ns. first_copy ns i \<longrightarrow> dup_key (ns ! i) \<noteq> dup_key n)"
      by (auto simp: map_of_eq_None_iff image_iff)
    also have "\<dots> \<longleftrightarrow> (\<forall>i < length ns. dup_key (ns ! i) \<noteq> dup_key n)"
    proof (intro iffI allI impI notI)
      fix i
      assume none: "\<forall>i < length ns. first_copy ns i \<longrightarrow> dup_key (ns ! i) \<noteq> dup_key n"
        and i: "i < length ns" "dup_key (ns ! i) = dup_key n"
      have "redundant_in_scope (node_type (ns ! i))"
        using True i(2) by (simp add: dup_key_def)
      from first_copy_exists [OF this] obtain j where "j \<le> i" "first_copy ns j" "dup_key (ns ! j) = dup_key n"
        unfolding i(2) by blast
      then show False
        using none i(1) by simp
    qed blast
    also have "\<dots> \<longleftrightarrow> first_copy (ns @ [n]) (length ns)"
      using True by (auto simp: first_copy_def nth_append)
    finally have none: "map_of ?gs (dup_key n) = None \<longleftrightarrow> first_copy (ns @ [n]) (length ns)" .
    show ?thesis
    proof (cases "first_copy (ns @ [n]) (length ns)")
      case first: True
      then have "\<forall>i < length ns. dup_key (ns ! i) \<noteq> dup_key n"
        by (auto simp: first_copy_def nth_append)
      then have same: "map ?new (filter (first_copy ns) [0..<length ns]) = ?gs"
        using fresh by (auto simp: nth_append group_at_snoc)
      have "group_step (length ns, n) ?gs = ?gs @ [?new (length ns)]"
        using first none True unfolding group_step_def Let_def prod.case dup_key_def [of n, symmetric]
        by (simp add: group_at_def [of "ns @ [n]"] next_copy_def [of "ns @ [n]"])
      then show ?thesis
        using first by (simp add: old same del: list.map_comp)
    next
      case later: False
      then have "group_step (length ns, n) ?gs = map ?new (filter (first_copy ns) [0..<length ns])"
        using none True unfolding new group_step_def Let_def prod.case dup_key_def [of n, symmetric]
        by (simp del: list.map_comp map_map)
      then show ?thesis
        using later by (simp add: old del: map_map)
    qed
  qed
  ultimately show ?case
    by simp
qed simp

lemma duplicate_groups:
  assumes "server_inv pf s"
  shows "map snd (fold group_step (enumerate 0 (iter_in_insertion_order (ss_dag s))) []) =
    map (group_at (iter_in_insertion_order (ss_dag s)))
      (filter (first_copy (iter_in_insertion_order (ss_dag s))) [0..<length (iter_in_insertion_order (ss_dag s))])"
proof -
  have "distinct (map node_hash (iter_in_insertion_order (ss_dag s)))"
    using iter_distinct assms unfolding server_inv_def by blast
  from groups_exact [OF this] show ?thesis
    by simp
qed

definition names_first :: "dup_group \<Rightarrow> dag_node \<Rightarrow> bool" where
  "names_first g n \<longleftrightarrow> first_hash g = node_hash n \<and> first_type g = node_type n \<and> first_cycle g = created_at_cycle n"

lemma group_step_names:
  assumes "\<forall>e \<in> set gs. \<exists>k \<in> N. names_first (snd e) k"
  shows "\<forall>e \<in> set (group_step (i, n) gs). \<exists>k \<in> insert n N. names_first (snd e) k"
proof -
  have same: "names_first (add_survivor n g) k \<longleftrightarrow> names_first g k" for g k
    by (simp add: names_first_def add_survivor_def)
  have new: "names_first \<lparr>first_hash = node_hash n, first_type = node_type n,
      first_cycle = created_at_cycle n, first_index = i, survivor_hash = None\<rparr> n"
    by (simp add: names_first_def)
  let ?step = "\<lambda>(k, g). (k, if k = (node_type n, content n) then add_survivor n g else g)"
  have "\<exists>k \<in> insert n N. names_first (snd (?step e)) k" if "e \<in> set gs" for e
    using assms that same by (cases e) auto
  then have "\<forall>e \<in> set (map ?step gs). \<exists>k \<in> insert n N. names_first (snd e) k"
    by auto
  then show ?thesis
    using assms new unfolding group_step_def Let_def prod.case by simp
qed

lemma groups_members:
  "\<forall>e \<in> set (fold group_step (enumerate 0 ns) []). \<exists>n \<in> set ns. names_first (snd e) n"
proof (induction ns rule: rev_induct)
  case (snoc n ns)
  then show ?case
    using group_step_names [OF snoc] by (simp add: enumerate_append_eq)
qed simp

lemma duplicate_names:
  assumes "detect_duplicate_content_subsumed s ctx cycle = Ok cs" and "c \<in> set cs"
  shows "names_killable ctx cycle (iter_in_insertion_order (ss_dag s)) c"
proof (cases "cycle \<le> REDUNDANT_GRACE_CYCLES")
  case False
  let ?ns = "iter_in_insertion_order (ss_dag s)"
  let ?gs = "fold group_step (enumerate 0 ?ns) []"
  obtain e where e: "e \<in> set ?gs" "c = group_candidate cycle (snd e)"
    "is_prune_eligible (first_type (snd e)) (first_hash (snd e)) ctx"
    "\<not> sat_sub cycle REDUNDANT_GRACE_CYCLES < first_cycle (snd e)"
    using assms False by (fastforce simp: detect_duplicate_content_subsumed_def Let_def not_less)
  obtain n where "n \<in> set ?ns" "names_first (snd e) n"
    using groups_members e(1) by blast
  then show ?thesis
    using e past_cutoff [OF False e(4)]
    by (auto simp: names_killable_def killable_def is_prune_eligible_def candidate_names grace_defs names_first_def)
qed (use assms in \<open>simp add: detect_duplicate_content_subsumed_def\<close>)

text \<open>
  A pass over the log with a table of groups finds what its description promises: the earliest of
  the identical copies of an artefact, where another copy follows, the grace is over and nothing
  protects it, and it names the first of the later copies as the one that replaces it.
\<close>

lemma duplicates_are_earliest_copies:
  assumes inv: "server_inv pf s" and late: "\<not> cycle \<le> REDUNDANT_GRACE_CYCLES"
    and ns: "ns = iter_in_insertion_order (ss_dag s)"
  shows "detect_duplicate_content_subsumed s ctx cycle =
    Ok (map (\<lambda>i. group_candidate cycle (group_at ns i))
      (filter (\<lambda>i. redundant_in_scope (node_type (ns ! i)) \<and> (\<forall>j < i. dup_key (ns ! j) \<noteq> dup_key (ns ! i)) \<and>
         (\<exists>j. i < j \<and> j < length ns \<and> dup_key (ns ! j) = dup_key (ns ! i)) \<and>
         unat (created_at_cycle (ns ! i)) + 1000 \<le> unat cycle \<and>
         is_prune_eligible (node_type (ns ! i)) (node_hash (ns ! i)) ctx) [0..<length ns]))"
proof -
  let ?P = "\<lambda>g. survivor_hash g \<noteq> None \<and> first_cycle g \<le> sat_sub cycle REDUNDANT_GRACE_CYCLES \<and>
      is_prune_eligible (first_type g) (first_hash g) ctx"
  have groups: "map snd (fold group_step (enumerate 0 ns) []) = map (group_at ns) (filter (first_copy ns) [0..<length ns])"
    using duplicate_groups [OF inv] unfolding ns .
  let ?gs = "map (group_at ns) (filter (\<lambda>i. first_copy ns i \<and> ?P (group_at ns i)) [0..<length ns])"
  have "filter ?P (map snd (fold group_step (enumerate 0 ns) [])) = ?gs"
    unfolding groups filter_map filter_filter comp_def by (simp add: conj_commute)
  moreover have "map (first_index \<circ> group_at ns) is = is" for "is"
    by (induction "is") (simp_all add: group_at_def)
  then have "sorted (map first_index ?gs)"
    by (simp only: map_map sorted_wrt_filter sorted_upt)
  then have "sort_key first_index ?gs = ?gs"
    by (rule sort_key_id_if_sorted)
  ultimately have found: "detect_duplicate_content_subsumed s ctx cycle = Ok (map (group_candidate cycle) ?gs)"
    using late unfolding detect_duplicate_content_subsumed_def Let_def ns [symmetric] by simp
  have exact: "first_copy ns i \<and> ?P (group_at ns i) \<longleftrightarrow>
      redundant_in_scope (node_type (ns ! i)) \<and> (\<forall>j < i. dup_key (ns ! j) \<noteq> dup_key (ns ! i)) \<and>
      (\<exists>j. i < j \<and> j < length ns \<and> dup_key (ns ! j) = dup_key (ns ! i)) \<and>
      unat (created_at_cycle (ns ! i)) + 1000 \<le> unat cycle \<and>
      is_prune_eligible (node_type (ns ! i)) (node_hash (ns ! i)) ctx" for i
    using late next_copy_exists [of ns i]
    by (auto simp: first_copy_def group_at_def word_le_nat_alt unat_sat_sub grace_defs)
  show ?thesis
    unfolding found exact map_map comp_def ..
qed

section \<open>The logs the program writes\<close>

text \<open>Every state the substrate's operations and scans lead to from an empty log.\<close>

inductive written :: "platform \<Rightarrow> server_state \<Rightarrow> bool" for pf where
  start: "written pf blank_state"
| step: "written pf s \<Longrightarrow> written pf (server_step pf op s)"
| scan: "written pf s \<Longrightarrow> written pf (fst (run_prune_scan pf rules cycle s))"

definition chained_state :: "platform \<Rightarrow> server_state \<Rightarrow> bool" where
  "chained_state pf s \<longleftrightarrow> server_inv pf s \<and> chained (iter_in_insertion_order (ss_dag s))"

lemma chained_tip:
  assumes "chained_state pf s" and "iter_in_insertion_order (ss_dag s) \<noteq> []"
  shows "tip (ss_dag s) = Some (node_hash (last (iter_in_insertion_order (ss_dag s))))"
  using assms tip_last_node unfolding chained_state_def server_inv_def by blast

lemma chained_logged:
  assumes "chained_state pf s"
  shows "chained (iter_in_insertion_order (ss_dag s) @ [logged_node (pf_hash pf) (ss_dag s) ty cyc c])"
  using assms chained_tip [OF assms]
  by (cases "iter_in_insertion_order (ss_dag s) = []")
    (simp_all add: chained_state_def chained_def successively_append_iff logged_node_def tip_parents_def)

lemma keeps_chained:
  "keeps (chained_state pf) (emit_substrate_event pf ty c)"
  "keeps (chained_state pf) (emit_immune_sporocarp pf now det name ev)"
  "keeps (chained_state pf) (push_successor e)"
proof -
  have "chained_state pf (fst (emit_substrate_event pf ty c s))" if inv: "chained_state pf s" for s
  proof -
    have "server_inv pf s"
      using inv by (simp add: chained_state_def)
    then show ?thesis
      by (cases rule: emit_cases [where ty = ty and c = c])
        (use inv chained_logged [OF inv] in \<open>simp_all add: chained_state_def\<close>)
  qed
  then show "keeps (chained_state pf) (emit_substrate_event pf ty c)"
    by (simp add: keeps_def)
  have "chained_state pf (fst (emit_immune_sporocarp pf now det name ev s))" if inv: "chained_state pf s" for s
  proof -
    have "server_inv pf s"
      using inv by (simp add: chained_state_def)
    then show ?thesis
      by (cases rule: immune_cases [where now = now and det = det and name = name and ev = ev])
        (use inv chained_logged [OF inv] in \<open>simp_all add: chained_state_def\<close>)
  qed
  then show "keeps (chained_state pf) (emit_immune_sporocarp pf now det name ev)"
    by (simp add: keeps_def)
  show "keeps (chained_state pf) (push_successor e)"
    by (auto simp: keeps_def push_successor_def chained_state_def server_inv_def)
qed

lemma scan_start:
  "run_prune_scan pf rules cycle s = (case for_state s of
     Ok ctx \<Rightarrow> run_rules pf ctx cycle rules \<lparr>rules_run = [], tombstones_emitted = [], at_cycle = cycle\<rparr> s
   | Err e \<Rightarrow> (s, Err e) | Abort x \<Rightarrow> (s, Abort x))"
  by (simp add: run_prune_scan_def bind_act_def split: result.splits)

lemma scan_tombstones:
  assumes "server_inv pf s"
  shows "\<exists>ks ts. tombstoned pf cycle s ks ts (fst (run_prune_scan pf rules cycle s))"
proof (cases "for_state s :: (prune_scan_ctx, substrate_error) result")
  case (Ok ctx)
  show ?thesis
    using run_rules_log [OF assms surjective_pairing] unfolding scan_start Ok result.case by blast
qed (use tombstoned_refl [OF assms] in \<open>auto simp: scan_start\<close>)

lemma written_chained: "written pf s \<Longrightarrow> chained_state pf s"
proof (induction rule: written.induct)
  case start
  then show ?case
    using server_inv_blank [of pf]
    by (simp add: chained_state_def blank_state_def chained_def iter_in_insertion_order_def dag_new_def
        List.map_filter_simps)
next
  case (step s op)
  then show ?case
    by (intro keeps_step [of "chained_state pf"] keeps_chained)
next
  case (scan s rules cycle)
  then show ?case
    using scan_tombstones [of pf s cycle rules] by (auto simp: chained_state_def tombstoned_def)
qed

lemma chained_no_orphan:
  assumes "chained_state pf s" and "n \<in> set (iter_in_insertion_order (ss_dag s))"
    and "tip (ss_dag s) \<noteq> Some (node_hash n)"
  shows "node_hash n \<in> referenced_hashes (iter_in_insertion_order (ss_dag s))"
proof -
  let ?ns = "iter_in_insertion_order (ss_dag s)"
  have ns: "?ns = butlast ?ns @ [last ?ns]"
    using assms(2) by (cases "?ns = []") simp_all
  have "n \<noteq> last ?ns"
    using assms(2,3) chained_tip [OF assms(1)] by (cases "?ns = []") auto
  then have "n \<in> set (butlast ?ns)"
    using assms(2) ns by (metis Un_iff empty_iff empty_set insert_iff list.simps(15) set_append)
  then show ?thesis
    using assms(1) chained_referenced [of "butlast ?ns" "last ?ns" n] unfolding chained_state_def ns [symmetric] by blast
qed

lemma chained_all_reached:
  assumes "chained_state pf s" and n: "n \<in> set (iter_in_insertion_order (ss_dag s))"
  shows "node_hash n \<in> set (reachable_from_roots (ss_dag s) cutoff)"
proof -
  let ?ns = "iter_in_insertion_order (ss_dag s)"
  have ns: "?ns = butlast ?ns @ [last ?ns]"
    using n by (cases "?ns = []") simp_all
  have inv: "dag_inv (pf_hash pf) (ss_dag s)" and ch: "chained ?ns"
    using assms(1) unfolding chained_state_def server_inv_def by blast+
  have "chained (butlast ?ns @ [last ?ns])" and "n \<in> set (butlast ?ns @ [last ?ns])"
    using ch n unfolding ns [symmetric] .
  from chained_reaches [OF this] have "(node_hash (last ?ns), node_hash n) \<in> (parent_edges ?ns)\<^sup>*"
    unfolding ns [symmetric] .
  moreover have "tip (ss_dag s) = Some (node_hash (last ?ns))"
    by (rule chained_tip [OF assms(1)]) (use n in auto)
  then have "node_hash (last ?ns) \<in> set (live_roots (ss_dag s) cutoff)"
    by (simp add: live_roots_def)
  ultimately have "node_hash n \<in> (edges (parents_by_hash ?ns))\<^sup>* `` set (live_roots (ss_dag s) cutoff)"
    unfolding edges_parents_by_hash [OF iter_distinct [OF inv]] by blast
  then show ?thesis
    using walk_complete unfolding reachable_from_roots_def by blast
qed

text \<open>
  Two of the six rules can never find anything on a log the program writes: every insertion
  names the tip as a parent, so each node but the tip is referenced, and the tip reaches every node.
\<close>

lemma orphan_rules_never_fire:
  assumes "written pf s" and "for_state s = Ok ctx"
  shows "detect_orphan_past_grace s ctx cycle = Ok [] \<and> detect_unreachable_from_live_roots s ctx cycle = Ok []"
proof -
  let ?ns = "iter_in_insertion_order (ss_dag s)"
  have ch: "chained_state pf s"
    by (rule written_chained [OF assms(1)])
  have tip: "ctx_tip ctx = tip (ss_dag s)"
    using assms(2) by (auto simp: for_state_def split: result.splits)
  have "\<not> (tip (ss_dag s) \<noteq> Some (node_hash n) \<and> node_hash n \<notin> referenced_hashes ?ns)" if "n \<in> set ?ns" for n
    using chained_no_orphan [OF ch that] by blast
  then have "detect_orphan_past_grace s ctx cycle = Ok []"
    by (auto simp: detect_orphan_past_grace_def Let_def tip filter_empty_conv)
  moreover have "detect_unreachable_from_live_roots s ctx cycle = Ok []"
    using chained_all_reached [OF ch]
    by (auto simp: detect_unreachable_from_live_roots_def Let_def filter_empty_conv)
  ultimately show ?thesis ..
qed

section \<open>What a scan of the six rules kills\<close>

lemma seed_names:
  assumes "r \<in> set seed_registry" and "pr_detect r s ctx cycle = Ok cs" and "c \<in> set cs"
  shows "names_killable ctx cycle (iter_in_insertion_order (ss_dag s)) c"
proof -
  have "pr_detect r \<in> {detect_orphan_past_grace, detect_stale_axis_past_window,
      detect_superseded_by_failed_evolution, detect_duplicate_content_subsumed,
      detect_unreachable_from_live_roots, detect_forged_understanding_superseded}"
    using assms(1) unfolding seed_registry_def register_def append.simps list.set
    by (elim insertE emptyE; hypsubst; simp)
  then show ?thesis
    using assms(2,3) orphan_names [of s ctx cycle cs c] stale_names [of s ctx cycle cs c]
      falsified_names [of s ctx cycle cs c] duplicate_names [of s ctx cycle cs c]
      unreachable_names [of s ctx cycle cs c] plate_names [of s ctx cycle cs c]
    by (elim insertE emptyE) simp_all
qed

lemma tombstone_protected: "kills cycle rc t \<Longrightarrow> is_p10_invariant_protected (node_type t)"
  by (simp add: kills_def is_p10_invariant_protected_def PROTECTED_PREFIXES_def internal_mortality_event_node_type_def
      starts_with_def)

lemma tombstoned_kills:
  assumes "tombstoned pf cycle s ks ts s1" and "t \<in> set ts"
  shows "\<exists>rc \<in> set ks. kills cycle rc t"
proof -
  have "list_all2 (kills cycle) ks ts"
    using assms(1) by (simp add: tombstoned_def)
  then show ?thesis
    using assms(2) by (metis in_set_conv_nth list_all2_conv_all_nth)
qed

lemma names_before:
  assumes "tombstoned pf cycle s ks ts s1"
    and "names_killable ctx cycle (iter_in_insertion_order (ss_dag s1)) c"
  shows "names_killable ctx cycle (iter_in_insertion_order (ss_dag s)) c"
proof -
  have "is_p10_invariant_protected (node_type t)" if "t \<in> set ts" for t
    using tombstoned_kills [OF assms(1) that] tombstone_protected by blast
  then show ?thesis
    using assms by (auto simp: tombstoned_def names_killable_def killable_def)
qed

lemma detected_seed:
  assumes "detected pf ctx cycle seed_registry s (r, c)"
  shows "r \<in> set seed_registry \<and> names_killable ctx cycle (iter_in_insertion_order (ss_dag s)) c"
proof -
  obtain ks ts s1 cs where "tombstoned pf cycle s ks ts s1" "pr_detect r s1 ctx cycle = Ok cs" "c \<in> set cs"
    and r: "r \<in> set seed_registry"
    using assms unfolding detected_def fst_conv snd_conv by blast
  then show ?thesis
    using names_before seed_names by metis
qed

text \<open>
  C10. A scan of the registry only appends tombstones, also when it stops at an error or a panic. Each
  tombstone kills a part that stood in the log when the scan began, that is not protected, is not the
  tip and is at least 1000 cycles old; a finished scan reports the tombstones in order.
\<close>

theorem prune_scan_kills_safely:
  assumes inv: "server_inv pf s" and scan: "run_prune_scan pf seed_registry cycle s = (s', res)"
  shows "\<exists>ts. s' = s\<lparr>ss_dag := ss_dag s'\<rparr> \<and> server_inv pf s' \<and>
    iter_in_insertion_order (ss_dag s') = iter_in_insertion_order (ss_dag s) @ ts \<and>
    (\<forall>t \<in> set ts. \<exists>r \<in> set seed_registry. \<exists>c. kills cycle (r, c) t \<and>
       (\<exists>n \<in> set (iter_in_insertion_order (ss_dag s)). pc_hash c = node_hash n \<and>
          \<not> is_p10_invariant_protected (node_type n) \<and> tip (ss_dag s) \<noteq> Some (node_hash n) \<and>
          unat (created_at_cycle n) + 1000 \<le> unat cycle)) \<and>
    (\<forall>rep. res = Ok rep \<longrightarrow> tombstones_emitted rep = map node_hash ts \<and> rules_run rep = map pr_id seed_registry)"
proof (cases "for_state s :: (prune_scan_ctx, substrate_error) result")
  case (Ok ctx)
  have tip: "ctx_tip ctx = tip (ss_dag s)"
    using Ok by (auto simp: for_state_def split: result.splits)
  from scan Ok have "run_rules pf ctx cycle seed_registry
      \<lparr>rules_run = [], tombstones_emitted = [], at_cycle = cycle\<rparr> s = (s', res)"
    by (simp add: scan_start)
  from run_rules_log [OF inv this] obtain ks ts where ts: "tombstoned pf cycle s ks ts s'"
    "list_all (detected pf ctx cycle seed_registry s) ks"
    "\<forall>rep. res = Ok rep \<longrightarrow> rep = \<lparr>rules_run = [] @ map pr_id seed_registry,
       tombstones_emitted = [] @ map node_hash ts, at_cycle = cycle\<rparr>"
    by auto
  have "\<exists>r \<in> set seed_registry. \<exists>c. kills cycle (r, c) t \<and>
      names_killable ctx cycle (iter_in_insertion_order (ss_dag s)) c" if t: "t \<in> set ts" for t
  proof -
    obtain r c where rc: "(r, c) \<in> set ks" "kills cycle (r, c) t"
      using tombstoned_kills [OF ts(1) t] by force
    then have "detected pf ctx cycle seed_registry s (r, c)"
      using ts(2) by (auto simp: list_all_iff)
    from detected_seed [OF this] show ?thesis
      using rc(2) by blast
  qed
  then have "\<forall>t \<in> set ts. \<exists>r \<in> set seed_registry. \<exists>c. kills cycle (r, c) t \<and>
      (\<exists>n \<in> set (iter_in_insertion_order (ss_dag s)). pc_hash c = node_hash n \<and>
        \<not> is_p10_invariant_protected (node_type n) \<and> tip (ss_dag s) \<noteq> Some (node_hash n) \<and>
        unat (created_at_cycle n) + 1000 \<le> unat cycle)"
    unfolding names_killable_def killable_def tip by blast
  moreover have "s' = s\<lparr>ss_dag := ss_dag s'\<rparr>" "server_inv pf s'"
    "iter_in_insertion_order (ss_dag s') = iter_in_insertion_order (ss_dag s) @ ts"
    using ts(1) unfolding tombstoned_def by blast+
  ultimately show ?thesis
    using ts(3) by (intro exI [of _ ts] conjI allI impI) simp_all
qed (use scan inv in \<open>auto simp: scan_start\<close>)

section \<open>Nothing dies twice in a scan\<close>

text \<open>
  A rule that, wherever in the scan it runs, names parts of one family only, each once, and none
  that had a tombstone when the scan began.
\<close>

definition exclusive ::
    "platform \<Rightarrow> prune_scan_ctx \<Rightarrow> u64 \<Rightarrow> server_state \<Rightarrow> prune_rule \<times> (string \<Rightarrow> bool) \<Rightarrow> bool" where
  "exclusive pf ctx cycle s rf \<longleftrightarrow> (\<forall>ks ts s1 cs. tombstoned pf cycle s ks ts s1 \<longrightarrow>
     pr_detect (fst rf) s1 ctx cycle = Ok cs \<longrightarrow> distinct (map pc_hash cs) \<and>
     (\<forall>c \<in> set cs. pc_hash c \<notin> set (already_tombstoned ctx) \<and>
        (\<exists>n \<in> set (iter_in_insertion_order (ss_dag s1)). pc_hash c = node_hash n \<and> snd rf (node_type n))))"

lemma exclusive_later: "exclusive pf ctx cycle s rf \<Longrightarrow> tombstoned pf cycle s ks ts s1 \<Longrightarrow> exclusive pf ctx cycle s1 rf"
  unfolding exclusive_def by (blast intro: tombstoned_trans)

definition of_families :: "prune_scan_ctx \<Rightarrow> dag_node list \<Rightarrow> (string \<Rightarrow> bool) list \<Rightarrow> arr32 \<Rightarrow> bool" where
  "of_families ctx ns fs h \<longleftrightarrow>
     h \<notin> set (already_tombstoned ctx) \<and> (\<exists>n \<in> set ns. h = node_hash n \<and> (\<exists>f \<in> set fs. f (node_type n)))"

lemma of_families_mono:
  "of_families ctx ns fs h \<Longrightarrow> set ns \<subseteq> set ms \<Longrightarrow> set fs \<subseteq> set gs \<Longrightarrow> of_families ctx ms gs h"
  unfolding of_families_def by blast

lemma run_rules_once:
  assumes "server_inv pf s" and "run_rules pf ctx cycle (map fst rfs) report s = (s', res)"
    and "list_all (exclusive pf ctx cycle s) rfs"
    and "sorted_wrt (\<lambda>f g. \<forall>ty. \<not> (f ty \<and> g ty)) (map snd rfs)"
  shows "\<exists>ks ts. tombstoned pf cycle s ks ts s' \<and> distinct (map (pc_hash \<circ> snd) ks) \<and>
    (\<forall>k \<in> set ks. of_families ctx (iter_in_insertion_order (ss_dag s')) (map snd rfs) (pc_hash (snd k)))"
  using assms
proof (induction rfs arbitrary: s report)
  case Nil
  then show ?case
    using tombstoned_refl [of pf s cycle] by (auto simp: return_act_def intro!: exI [of _ "[]"])
next
  case (Cons rf rfs)
  obtain r f where rf: "rf = (r, f)"
    by (cases rf)
  show ?case
  proof (cases "pr_detect r s ctx cycle")
    case (Ok cs)
    obtain s1 r1 where emit: "emit_tombstones pf r cycle cs s = (s1, r1)"
      by (metis surj_pair)
    obtain ks ts k where one: "tombstoned pf cycle s ks ts s1" "ks = map (Pair r) (take k cs)"
      "\<forall>hs. r1 = Ok hs \<longrightarrow> ks = map (Pair r) cs \<and> hs = map node_hash ts"
      using emit_tombstones_log [OF Cons.prems(1) emit] by blast
    have "exclusive pf ctx cycle s (r, f)"
      using Cons.prems(3) rf by simp
    then have ex: "distinct (map pc_hash cs)"
      "\<forall>c \<in> set cs. of_families ctx (iter_in_insertion_order (ss_dag s)) [f] (pc_hash c)"
      using Ok tombstoned_refl [OF Cons.prems(1), of cycle] by (auto simp: exclusive_def of_families_def)
    have inv1: "server_inv pf s1"
      and log1: "set (iter_in_insertion_order (ss_dag s)) \<subseteq> set (iter_in_insertion_order (ss_dag s1))"
      using one(1) by (auto simp: tombstoned_def)
    have ks: "distinct (map (pc_hash \<circ> snd) ks)"
      "\<forall>k \<in> set ks. of_families ctx (iter_in_insertion_order (ss_dag s1)) [f] (pc_hash (snd k))"
      using ex of_families_mono [OF _ log1 subset_refl] unfolding one(2)
      by (auto simp: comp_def take_map [symmetric] dest!: in_set_takeD)
    show ?thesis
    proof (cases r1)
      case res: (Ok hs)
      have rest: "run_rules pf ctx cycle (map fst rfs) (report\<lparr>rules_run := rules_run report @ [pr_id r],
          tombstones_emitted := tombstones_emitted report @ hs\<rparr>) s1 = (s', res)"
        using Cons.prems(2) Ok emit res by (simp add: bind_act_def rf)
      have "list_all (exclusive pf ctx cycle s1) rfs"
        using Cons.prems(3) exclusive_later [OF _ one(1)] by (auto simp: list_all_iff)
      moreover have "sorted_wrt (\<lambda>f g. \<forall>ty. \<not> (f ty \<and> g ty)) (map snd rfs)"
        and apart: "\<forall>g \<in> set (map snd rfs). \<forall>ty. \<not> (f ty \<and> g ty)"
        using Cons.prems(4) rf by simp_all
      ultimately obtain ks' ts' where two: "tombstoned pf cycle s1 ks' ts' s'" "distinct (map (pc_hash \<circ> snd) ks')"
        "\<forall>k \<in> set ks'. of_families ctx (iter_in_insertion_order (ss_dag s')) (map snd rfs) (pc_hash (snd k))"
        using Cons.IH [OF inv1 rest] by blast
      let ?ns = "iter_in_insertion_order (ss_dag s')"
      have log2: "set (iter_in_insertion_order (ss_dag s1)) \<subseteq> set ?ns" and "server_inv pf s'"
        using two(1) by (auto simp: tombstoned_def)
      then have "distinct (map node_hash ?ns)"
        using iter_distinct unfolding server_inv_def by blast
      then have inj: "m = n" if "m \<in> set ?ns" "n \<in> set ?ns" "node_hash m = node_hash n" for m n
        using that by (auto simp: distinct_map inj_on_def)
      have mine: "of_families ctx ?ns [f] (pc_hash (snd k))" if "k \<in> set ks" for k
        using ks(2) that log2 unfolding of_families_def by blast
      have "pc_hash (snd k) \<noteq> pc_hash (snd k')" if "k \<in> set ks" "k' \<in> set ks'" for k k'
        using mine [OF that(1)] two(3) that(2) apart inj unfolding of_families_def by fastforce
      then have "distinct (map (pc_hash \<circ> snd) (ks @ ks'))"
        using ks(1) two(2) by (fastforce simp: distinct_append)
      moreover have "\<forall>k \<in> set (ks @ ks'). of_families ctx ?ns (map snd (rf # rfs)) (pc_hash (snd k))"
        using mine two(3) unfolding rf of_families_def by fastforce
      ultimately show ?thesis
        using tombstoned_trans [OF one(1) two(1)] by blast
    qed (use Cons.prems(2) Ok emit one(1) ks rf in \<open>fastforce simp: bind_act_def of_families_def\<close>)+
  qed (use Cons.prems tombstoned_refl [of pf s cycle] rf in
      \<open>auto simp: bind_act_def intro!: exI [of _ "[]"]\<close>)
qed

lemma map_filter_hashes:
  assumes "\<forall>n c. f n = Some c \<longrightarrow> pc_hash c = node_hash n" and "distinct (map node_hash ns)"
  shows "distinct (map pc_hash (List.map_filter f ns))"
proof -
  have "map pc_hash (List.map_filter f ns) = map node_hash (filter (\<lambda>n. f n \<noteq> None) ns)"
    using assms(1) by (induction ns) (auto simp: List.map_filter_simps split: option.splits)
  then show ?thesis
    using distinct_map_filter [OF assms(2)] by simp
qed

lemma exclusive_map_filter:
  assumes "\<And>s1 cs. pr_detect r s1 ctx cycle = Ok cs \<Longrightarrow> cs = [] \<or>
      (\<exists>f. cs = List.map_filter f (iter_in_insertion_order (ss_dag s1)) \<and> (\<forall>n c. f n = Some c \<longrightarrow>
        pc_hash c = node_hash n \<and> node_hash n \<notin> set (already_tombstoned ctx) \<and> fam (node_type n)))"
  shows "exclusive pf ctx cycle s (r, fam)"
  unfolding exclusive_def fst_conv snd_conv
proof (intro allI impI)
  fix ks ts s1 cs
  assume "tombstoned pf cycle s ks ts s1" and "pr_detect r s1 ctx cycle = Ok cs"
  let ?ns = "iter_in_insertion_order (ss_dag s1)"
  have hashes: "distinct (map node_hash ?ns)"
    using \<open>tombstoned pf cycle s ks ts s1\<close> iter_distinct unfolding tombstoned_def server_inv_def by blast
  consider (none) "cs = []" | (some) f where "cs = List.map_filter f ?ns" "\<forall>n c. f n = Some c \<longrightarrow>
        pc_hash c = node_hash n \<and> node_hash n \<notin> set (already_tombstoned ctx) \<and> fam (node_type n)"
    using assms [OF \<open>pr_detect r s1 ctx cycle = Ok cs\<close>] by blast
  then show "distinct (map pc_hash cs) \<and> (\<forall>c \<in> set cs. pc_hash c \<notin> set (already_tombstoned ctx) \<and>
      (\<exists>n \<in> set ?ns. pc_hash c = node_hash n \<and> fam (node_type n)))"
  proof cases
    case (some f)
    then have "\<forall>n c. f n = Some c \<longrightarrow> pc_hash c = node_hash n"
      by blast
    from map_filter_hashes [OF this hashes] show ?thesis
      using some by (fastforce simp: map_filter_mem)
  qed simp
qed

lemma exclusive_stale:
  "pr_detect r = detect_stale_axis_past_window \<Longrightarrow>
    exclusive pf ctx cycle s (r, \<lambda>ty. starts_with ty NODE_TYPE_AXIS_REGISTERED_PREFIX)"
  by (rule exclusive_map_filter)
    (auto simp: detect_stale_axis_past_window_def stale_axis_def strip_prefix_def is_prune_eligible_def Let_def
      split: if_splits option.splits intro!: exI)

lemma exclusive_falsified:
  "pr_detect r = detect_superseded_by_failed_evolution \<Longrightarrow>
    exclusive pf ctx cycle s (r, \<lambda>ty. starts_with ty EVOLUTION_SUCCEEDED_PREFIX)"
  by (rule exclusive_map_filter)
    (auto simp: detect_superseded_by_failed_evolution_def falsified_def strip_prefix_def is_prune_eligible_def Let_def
      split: if_splits option.splits intro!: exI)

lemma exclusive_plate:
  "pr_detect r = detect_forged_understanding_superseded \<Longrightarrow>
    exclusive pf ctx cycle s (r, \<lambda>ty. starts_with ty FORGED_UNDERSTANDING_NODE_TYPE_PREFIX)"
  by (rule exclusive_map_filter)
    (auto simp: detect_forged_understanding_superseded_def superseded_plate_def is_prune_eligible_def Let_def
      split: if_splits option.splits intro!: exI)

lemma exclusive_duplicate:
  assumes "pr_detect r = detect_duplicate_content_subsumed"
  shows "exclusive pf ctx cycle s (r, redundant_in_scope)"
  unfolding exclusive_def fst_conv snd_conv assms
proof (intro allI impI)
  fix ks ts s1 cs
  assume one: "tombstoned pf cycle s ks ts s1" and cs: "detect_duplicate_content_subsumed s1 ctx cycle = Ok cs"
  let ?ns = "iter_in_insertion_order (ss_dag s1)"
  let ?P = "\<lambda>g. survivor_hash g \<noteq> None \<and> first_cycle g \<le> sat_sub cycle REDUNDANT_GRACE_CYCLES \<and>
      is_prune_eligible (first_type g) (first_hash g) ctx"
  let ?gs = "map (group_at ?ns) (filter (first_copy ?ns) [0..<length ?ns])"
  have inv: "server_inv pf s1"
    using one by (simp add: tombstoned_def)
  then have hashes: "distinct (map node_hash ?ns)"
    using iter_distinct unfolding server_inv_def by blast
  show "distinct (map pc_hash cs) \<and> (\<forall>c \<in> set cs. pc_hash c \<notin> set (already_tombstoned ctx) \<and>
      (\<exists>n \<in> set ?ns. pc_hash c = node_hash n \<and> redundant_in_scope (node_type n)))"
  proof (cases "cycle \<le> REDUNDANT_GRACE_CYCLES")
    case False
    have found: "cs = map (group_candidate cycle) (sort_key first_index (filter ?P ?gs))"
      using cs False unfolding detect_duplicate_content_subsumed_def Let_def duplicate_groups [OF inv] by simp
    have "map first_hash ?gs = map (\<lambda>i. map node_hash ?ns ! i) (filter (first_copy ?ns) [0..<length ?ns])"
      by (simp add: group_at_def)
    moreover have "inj_on (\<lambda>i. map node_hash ?ns ! i) {0..<length ?ns}"
      using inj_on_nth [OF hashes] by simp
    ultimately have "distinct (map first_hash ?gs)"
      by (auto simp: distinct_map inj_on_def)
    then have "distinct (map first_hash (sort_key first_index (filter ?P ?gs)))"
      by (auto simp: distinct_map inj_on_def)
    then have "distinct (map pc_hash cs)"
      by (simp add: found comp_def candidate_names)
    moreover have "\<exists>n \<in> set ?ns. first_hash g = node_hash n \<and> redundant_in_scope (node_type n)" if "g \<in> set ?gs" for g
      using that by (auto simp: group_at_def first_copy_def)
    ultimately show ?thesis
      by (auto simp: found candidate_names is_prune_eligible_def)
  qed (use cs in \<open>simp add: detect_duplicate_content_subsumed_def\<close>)
qed

lemma exclusive_nothing:
  assumes "chained_state pf s" and "ctx_tip ctx = tip (ss_dag s)"
    and "pr_detect r = detect_orphan_past_grace \<or> pr_detect r = detect_unreachable_from_live_roots"
  shows "exclusive pf ctx cycle s (r, \<lambda>_. False)"
  unfolding exclusive_def fst_conv snd_conv
proof (intro allI impI)
  fix ks ts s1 cs
  assume one: "tombstoned pf cycle s ks ts s1" and cs: "pr_detect r s1 ctx cycle = Ok cs"
  let ?ns = "iter_in_insertion_order (ss_dag s1)"
  have ch: "chained_state pf s1"
    using one assms(1) unfolding tombstoned_def chained_state_def by blast
  have tip: "tip (ss_dag s1) \<noteq> Some (node_hash n)" if n: "n \<in> set ?ns"
      "\<not> is_p10_invariant_protected (node_type n)" "ctx_tip ctx \<noteq> Some (node_hash n)" for n
  proof (cases "ts = []")
    case True
    then have "iter_in_insertion_order (ss_dag s1) = iter_in_insertion_order (ss_dag s)"
      using one by (simp add: tombstoned_def)
    then have "tip (ss_dag s1) = tip (ss_dag s)"
      using chained_tip [OF ch] chained_tip [OF assms(1)] n(1) by (cases "?ns = []") auto
    then show ?thesis
      using n(3) assms(2) by simp
  next
    case False
    then have last: "last ?ns \<in> set ts"
      using one by (simp add: tombstoned_def)
    have "distinct (map node_hash ?ns)"
      using ch iter_distinct unfolding chained_state_def server_inv_def by blast
    moreover have "n \<noteq> last ?ns"
      using tombstoned_kills [OF one last] tombstone_protected n(2) by blast
    moreover have "last ?ns \<in> set ?ns"
      using n(1) by (cases "?ns = []") auto
    ultimately have "node_hash n \<noteq> node_hash (last ?ns)"
      using n(1) by (auto simp: distinct_map inj_on_def)
    then show ?thesis
      using chained_tip [OF ch] n(1) by (cases "?ns = []") auto
  qed
  have unref: "node_hash n \<in> referenced_hashes ?ns" if "n \<in> set ?ns" "\<not> is_p10_invariant_protected (node_type n)"
      "ctx_tip ctx \<noteq> Some (node_hash n)" for n
    using tip [OF that] chained_no_orphan [OF ch that(1)] by blast
  have "cs = []"
    using assms(3)
  proof
    assume "pr_detect r = detect_orphan_past_grace"
    then show ?thesis
      using cs unref
      by (fastforce simp: detect_orphan_past_grace_def Let_def filter_empty_conv split: if_splits)
  next
    assume "pr_detect r = detect_unreachable_from_live_roots"
    then show ?thesis
      using cs chained_all_reached [OF ch]
      by (auto simp: detect_unreachable_from_live_roots_def Let_def filter_empty_conv split: if_splits)
  qed
  then show "distinct (map pc_hash cs) \<and> (\<forall>c \<in> set cs. pc_hash c \<notin> set (already_tombstoned ctx) \<and>
      (\<exists>n \<in> set ?ns. pc_hash c = node_hash n \<and> False))"
    by simp
qed

definition seed_families :: "(string \<Rightarrow> bool) list" where
  "seed_families = [\<lambda>_. False, \<lambda>ty. starts_with ty NODE_TYPE_AXIS_REGISTERED_PREFIX,
     \<lambda>ty. starts_with ty EVOLUTION_SUCCEEDED_PREFIX, redundant_in_scope, \<lambda>_. False,
     \<lambda>ty. starts_with ty FORGED_UNDERSTANDING_NODE_TYPE_PREFIX]"

lemma starts_with_Cons: "starts_with ty (c # p) \<Longrightarrow> take 1 ty = [c]"
  by (cases ty) (simp_all add: starts_with_def)

lemma seed_families_apart: "sorted_wrt (\<lambda>f g. \<forall>ty. \<not> (f ty \<and> g ty)) seed_families"
proof -
  have "take 1 ty = ''a''" if "starts_with ty NODE_TYPE_AXIS_REGISTERED_PREFIX" for ty
    using that unfolding NODE_TYPE_AXIS_REGISTERED_PREFIX_def by (rule starts_with_Cons)
  moreover have "take 1 ty = ''e''" if "starts_with ty EVOLUTION_SUCCEEDED_PREFIX" for ty
    using that unfolding EVOLUTION_SUCCEEDED_PREFIX_def by (rule starts_with_Cons)
  moreover have "take 1 ty = ''r'' \<or> take 1 ty = ''s''" if "redundant_in_scope ty" for ty
    using that starts_with_Cons unfolding redundant_in_scope_def REDUNDANT_SCOPED_PREFIXES_def by fastforce
  moreover have "take 1 ty = ''f''" if "starts_with ty FORGED_UNDERSTANDING_NODE_TYPE_PREFIX" for ty
    using that unfolding FORGED_UNDERSTANDING_NODE_TYPE_PREFIX_def by (rule starts_with_Cons)
  ultimately show ?thesis
    unfolding seed_families_def by fastforce
qed

lemma seed_exclusive:
  assumes "chained_state pf s" and "ctx_tip ctx = tip (ss_dag s)"
  shows "list_all (exclusive pf ctx cycle s) (zip seed_registry seed_families)"
  unfolding seed_registry_def register_def append.simps seed_families_def zip_Cons_Cons list.pred_inject zip_Nil
  by (intro conjI TrueI exclusive_stale exclusive_falsified exclusive_plate exclusive_duplicate
      exclusive_nothing [OF assms]) simp_all


section \<open>Witnesses\<close>

text \<open>A log with a seed text and two copies of one text, after them a note.\<close>

definition copied_ops :: "server_op list" where
  "copied_ops = [EmitEvent ''note'' [3], EmitEvent ''raw_material:a'' [1], EmitEvent ''raw_material:a'' [1],
     EmitEvent ''note'' [2]]"

definition copied :: server_state where
  "copied = fold (server_step chain_platform) copied_ops blank_state"

definition copied_nodes :: "dag_node list" where
  "copied_nodes =
    [\<lparr>node_hash = 0, parent_hashes = [], node_type = ''note'', created_at_cycle = 0, content = [3]\<rparr>,
     \<lparr>node_hash = 1, parent_hashes = [0], node_type = ''raw_material:a'', created_at_cycle = 0, content = [1]\<rparr>,
     \<lparr>node_hash = 2, parent_hashes = [1], node_type = ''raw_material:a'', created_at_cycle = 0, content = [1]\<rparr>,
     \<lparr>node_hash = 3, parent_hashes = [2], node_type = ''note'', created_at_cycle = 0, content = [2]\<rparr>]"

lemma not_family: "take 1 ty \<notin> {''b'', ''c'', ''s''} \<Longrightarrow> \<not> is_cultivation_family_node_type ty"
  by (auto simp: is_cultivation_family_node_type_def NODE_TYPE_BET_RETIRED_PREFIX_def
      NODE_TYPE_CULTIVATION_RECOVERED_PREFIX_def NODE_TYPE_CULTIVATION_ORPHANED_PREFIX_def
      NODE_TYPE_SUCCESSION_COMPLETED_PREFIX_def dest!: starts_with_Cons)

lemma copied_dag:
  "ss_dag copied = \<lparr>nodes = map (\<lambda>n. (node_hash n, n)) copied_nodes, insertion_order = [0, 1, 2, 3], tip = Some 3\<rparr>"
proof -
  let ?step = "server_step chain_platform"
  define s0 where "s0 = ?step (EmitEvent ''note'' [3]) blank_state"
  define s1 where "s1 = ?step (EmitEvent ''raw_material:a'' [1]) s0"
  define s2 where "s2 = ?step (EmitEvent ''raw_material:a'' [1]) s1"
  have "ss_dag s0 = \<lparr>nodes = map (\<lambda>n. (node_hash n, n)) (take 1 copied_nodes), insertion_order = [0], tip = Some 0\<rparr>"
    and c0: "ss_cycle_counter s0 = 0"
    unfolding s0_def
    by (simp_all add: emit_substrate_event_def blank_state_def insert_node_def dag_new_def tip_parents_def
        check_parents_def dag_get_def copied_nodes_def not_family Let_def)
  then have "ss_dag s1 = \<lparr>nodes = map (\<lambda>n. (node_hash n, n)) (take 2 copied_nodes), insertion_order = [0, 1], tip = Some 1\<rparr>"
    and c1: "ss_cycle_counter s1 = 0"
    unfolding s1_def using c0 by (simp_all add: chain_emit [of _ 0] dag_get_def copied_nodes_def not_family)
  then have "ss_dag s2 = \<lparr>nodes = map (\<lambda>n. (node_hash n, n)) (take 3 copied_nodes), insertion_order = [0, 1, 2], tip = Some 2\<rparr>"
    and c2: "ss_cycle_counter s2 = 0"
    unfolding s2_def using c1 by (simp_all add: chain_emit [of _ 1] dag_get_def copied_nodes_def not_family)
  then have "ss_dag (?step (EmitEvent ''note'' [2]) s2) =
      \<lparr>nodes = map (\<lambda>n. (node_hash n, n)) copied_nodes, insertion_order = [0, 1, 2, 3], tip = Some 3\<rparr>"
    using c2 by (simp add: chain_emit [of _ 2] dag_get_def copied_nodes_def not_family)
  moreover have "copied = ?step (EmitEvent ''note'' [2]) s2"
    unfolding copied_def copied_ops_def s0_def s1_def s2_def fold.simps id_apply comp_apply ..
  ultimately show ?thesis
    by simp
qed

lemma copied_log: "iter_in_insertion_order (ss_dag copied) = copied_nodes"
  by (simp add: copied_dag iter_in_insertion_order_def dag_get_def List.map_filter_simps copied_nodes_def)

lemma copied_ctx: "for_state copied = Ok \<lparr>already_tombstoned = [], ctx_tip = Some 3\<rparr>"
  unfolding for_state_def collect_already_tombstoned_def copied_log
  by (simp add: copied_dag copied_nodes_def NODE_TYPE_INTERNAL_MORTALITY_EVENT_PREFIX_def starts_with_def)

lemma copied_inv: "server_inv chain_platform copied"
  unfolding copied_def by (rule server_inv_run [OF server_inv_blank])

lemma copied_written: "written chain_platform copied"
proof -
  have run: "written chain_platform (fold (server_step chain_platform) ops s)" if "written chain_platform s" for ops s
    using that by (induction ops arbitrary: s) (simp_all add: written.step)
  show ?thesis
    unfolding copied_def by (rule run [OF written.start])
qed

lemma prune_scan_kills_safely_witness:
  "\<exists>ts. iter_in_insertion_order (ss_dag (fst (run_prune_scan chain_platform seed_registry 3000 copied))) =
    copied_nodes @ ts"
  using prune_scan_kills_safely [where cycle = 3000, OF copied_inv surjective_pairing]
  by (auto simp: copied_log)


end
