(* ===== verification/Log_Actions.thy ===== *)
theory Log_Actions
  imports Immune
begin

text \<open>
  Actions built of emissions whose results are dropped, as the steps of a cycle are: they return,
  grow the log by nodes of the current cycle and of known types, and leave the rest of the state
  that a caller depends on as it was.
\<close>

section \<open>Actions\<close>

definition modify_act :: "(server_state \<Rightarrow> server_state) \<Rightarrow> unit action" where
  "modify_act f s = (f s, Ok ())"

fun emit_events :: "platform \<Rightarrow> (string \<times> bytes) list \<Rightarrow> unit action" where
  "emit_events pf [] = return_act ()"
| "emit_events pf ((ty, c) # es) = bind_act (ignore_act (emit_substrate_event pf ty c)) (\<lambda>_. emit_events pf es)"

fun each_act :: "('a \<Rightarrow> unit action) \<Rightarrow> 'a list \<Rightarrow> unit action" where
  "each_act f [] = return_act ()"
| "each_act f (x # xs) = bind_act (f x) (\<lambda>_. each_act f xs)"

lemma run_then: "m s = (s1, Ok a) \<Longrightarrow> f a s1 = r \<Longrightarrow> bind_act m f s = r"
  by (simp add: bind_act_def)

lemma modify_run: "modify_act f s = (f s, Ok ())"
  by (simp add: modify_act_def)

section \<open>Actions that only log\<close>

text \<open>
  The action returns, grows the log by nodes of the current cycle whose types satisfy \<open>T\<close>, and
  leaves what \<open>view\<close> sees of the state as it was.
\<close>

definition only_logs :: "platform \<Rightarrow> (server_state \<Rightarrow> 'v) \<Rightarrow> (string \<Rightarrow> bool) \<Rightarrow> unit action \<Rightarrow> bool" where
  "only_logs pf view T m \<longleftrightarrow> (\<forall>s. server_inv pf s \<longrightarrow>
     (\<exists>s' ns. m s = (s', Ok ()) \<and> server_inv pf s' \<and> view s' = view s \<and>
        ss_cycle_counter s' = ss_cycle_counter s \<and>
        iter_in_insertion_order (ss_dag s') = iter_in_insertion_order (ss_dag s) @ ns \<and>
        (\<forall>n\<in>set ns. created_at_cycle n = ss_cycle_counter s \<and> T (node_type n))))"

named_theorems only_logs_intros

lemma only_logsD:
  assumes "only_logs pf view T m" and "server_inv pf s"
  obtains s' ns where "m s = (s', Ok ())" "server_inv pf s'" "view s' = view s"
    "ss_cycle_counter s' = ss_cycle_counter s"
    "iter_in_insertion_order (ss_dag s') = iter_in_insertion_order (ss_dag s) @ ns"
    "\<forall>n\<in>set ns. created_at_cycle n = ss_cycle_counter s \<and> T (node_type n)"
  using assms unfolding only_logs_def by blast

lemma only_logs_return [only_logs_intros]: "only_logs pf view T (return_act ())"
  by (simp add: only_logs_def return_act_def)

lemma only_logs_bind [only_logs_intros]:
  assumes m: "only_logs pf view T m" and f: "only_logs pf view T (f ())"
  shows "only_logs pf view T (bind_act m f)"
  unfolding only_logs_def
proof (intro allI impI)
  fix s
  assume "server_inv pf s"
  then obtain s1 ns where 1: "m s = (s1, Ok ())" "server_inv pf s1" "view s1 = view s"
    "ss_cycle_counter s1 = ss_cycle_counter s"
    "iter_in_insertion_order (ss_dag s1) = iter_in_insertion_order (ss_dag s) @ ns"
    "\<forall>n\<in>set ns. created_at_cycle n = ss_cycle_counter s \<and> T (node_type n)"
    by (rule only_logsD [OF m])
  obtain s2 ns' where 2: "f () s1 = (s2, Ok ())" "server_inv pf s2" "view s2 = view s1"
    "ss_cycle_counter s2 = ss_cycle_counter s1"
    "iter_in_insertion_order (ss_dag s2) = iter_in_insertion_order (ss_dag s1) @ ns'"
    "\<forall>n\<in>set ns'. created_at_cycle n = ss_cycle_counter s1 \<and> T (node_type n)"
    by (rule only_logsD [OF f 1(2)])
  show "\<exists>s' ns. bind_act m f s = (s', Ok ()) \<and> server_inv pf s' \<and> view s' = view s \<and>
      ss_cycle_counter s' = ss_cycle_counter s \<and>
      iter_in_insertion_order (ss_dag s') = iter_in_insertion_order (ss_dag s) @ ns \<and>
      (\<forall>n\<in>set ns. created_at_cycle n = ss_cycle_counter s \<and> T (node_type n))"
    using 1 2 by (intro exI [of _ s2] exI [of _ "ns @ ns'"]) (auto simp: bind_act_def)
qed

lemma only_logs_if [only_logs_intros]:
  "only_logs pf view T m \<Longrightarrow> only_logs pf view T n \<Longrightarrow> only_logs pf view T (if b then m else n)"
  by simp

lemma only_logs_modify [only_logs_intros]:
  assumes "\<And>s. view (f s) = view s" and "\<And>s. ss_dag (f s) = ss_dag s"
    and "\<And>s. ss_cultivation_state (f s) = ss_cultivation_state s"
    and "\<And>s. ss_cycle_counter (f s) = ss_cycle_counter s"
  shows "only_logs pf view T (modify_act f)"
  using assms by (simp add: only_logs_def modify_act_def server_inv_def)

lemma only_logs_cong:
  assumes "\<And>s. server_inv pf s \<Longrightarrow> \<exists>m. m s = a s \<and> only_logs pf view T m"
  shows "only_logs pf view T a"
  unfolding only_logs_def
proof (intro allI impI)
  fix s
  assume inv: "server_inv pf s"
  then obtain m where "m s = a s" "only_logs pf view T m"
    using assms by blast
  then show "\<exists>s' ns. a s = (s', Ok ()) \<and> server_inv pf s' \<and> view s' = view s \<and>
      ss_cycle_counter s' = ss_cycle_counter s \<and>
      iter_in_insertion_order (ss_dag s') = iter_in_insertion_order (ss_dag s) @ ns \<and>
      (\<forall>n\<in>set ns. created_at_cycle n = ss_cycle_counter s \<and> T (node_type n))"
    using inv unfolding only_logs_def by metis
qed

text \<open>What an emission may touch of the state.\<close>

definition ignores_log :: "(server_state \<Rightarrow> 'v) \<Rightarrow> bool" where
  "ignores_log view \<longleftrightarrow> (\<forall>s d k c e. view (s\<lparr>ss_dag := d, ss_cultivation_state := k\<rparr>) = view s \<and>
     view (s\<lparr>ss_dag := d\<rparr>) = view s \<and> view (s\<lparr>ss_clock := c\<rparr>) = view s \<and>
     view (s\<lparr>ss_clock := c, ss_dag := d\<rparr>) = view s \<and>
     view (s\<lparr>ss_clock := c, ss_immune_emissions := e\<rparr>) = view s \<and>
     view (s\<lparr>ss_clock := c, ss_dag := d, ss_immune_emissions := e\<rparr>) = view s)"

lemma ignores_log_unit [simp]: "ignores_log (\<lambda>_. ())"
  by (simp add: ignores_log_def)

lemma view_emit:
  assumes "ignores_log view"
  shows "view (fst (emit_substrate_event pf ty c s)) = view s"
    and "view (fst (emit_immune_sporocarp pf now det name ev s)) = view s"
  using assms
  by (auto simp: ignores_log_def emit_substrate_event_def emit_immune_sporocarp_def Let_def
      split: prod.splits result.splits option.splits if_splits)

lemma only_logs_emit [only_logs_intros]:
  assumes "ignores_log view" and "T ty"
  shows "only_logs pf view T (ignore_act (emit_substrate_event pf ty c))"
  unfolding only_logs_def
proof (intro allI impI)
  fix s
  assume inv: "server_inv pf s"
  then show "\<exists>s' ns. ignore_act (emit_substrate_event pf ty c) s = (s', Ok ()) \<and> server_inv pf s' \<and>
      view s' = view s \<and> ss_cycle_counter s' = ss_cycle_counter s \<and>
      iter_in_insertion_order (ss_dag s') = iter_in_insertion_order (ss_dag s) @ ns \<and>
      (\<forall>n\<in>set ns. created_at_cycle n = ss_cycle_counter s \<and> T (node_type n))"
  proof (cases rule: emit_cases [where ty = ty and c = c])
    case (logged s')
    then have "view s' = view s"
      using view_emit(1) [OF assms(1), of pf ty c s] by simp
    then show ?thesis
      using logged assms(2)
      by (intro exI [of _ s'] exI [of _ "[logged_node (pf_hash pf) (ss_dag s) ty (ss_cycle_counter s) c]"])
        (simp add: ignore_act_def same_identity_def logged_node_def)
  qed (use inv in \<open>simp add: ignore_act_def\<close>)
qed

lemma only_logs_immune [only_logs_intros]:
  assumes "ignores_log view" and "T (''immune:'' @ det)"
  shows "only_logs pf view T (ignore_act (emit_immune_sporocarp pf now det name ev))"
  unfolding only_logs_def
proof (intro allI impI)
  fix s
  assume inv: "server_inv pf s"
  have same: "view (fst (emit_immune_sporocarp pf now det name ev s)) = view s"
    by (rule view_emit(2) [OF assms(1)])
  from inv show "\<exists>s' ns. ignore_act (emit_immune_sporocarp pf now det name ev) s = (s', Ok ()) \<and>
      server_inv pf s' \<and> view s' = view s \<and> ss_cycle_counter s' = ss_cycle_counter s \<and>
      iter_in_insertion_order (ss_dag s') = iter_in_insertion_order (ss_dag s) @ ns \<and>
      (\<forall>n\<in>set ns. created_at_cycle n = ss_cycle_counter s \<and> T (node_type n))"
  proof (cases rule: immune_cases [where now = now and det = det and name = name and ev = ev])
    case (logged s' t c n)
    then show ?thesis
      using assms(2) same unfolding ignore_act_def
      by (intro exI [of _ s'] exI [of _ "[n]"]) (simp add: same_identity_def logged_node_def)
  qed (use same in \<open>auto simp: ignore_act_def same_identity_def\<close>)
qed

lemma only_logs_emit_events [only_logs_intros]:
  "ignores_log view \<Longrightarrow> \<forall>(ty, c)\<in>set es. T ty \<Longrightarrow> only_logs pf view T (emit_events pf es)"
proof (induction es)
  case (Cons e es)
  then show ?case
    by (cases e) (auto intro: only_logs_intros)
qed (simp add: only_logs_return)

lemma only_logs_each [only_logs_intros]:
  "(\<And>x. x \<in> set xs \<Longrightarrow> only_logs pf view T (f x)) \<Longrightarrow> only_logs pf view T (each_act f xs)"
  by (induction xs) (auto intro: only_logs_intros)

section \<open>Actions that may fail\<close>

text \<open>
  Whatever it answers, the action only adds nodes of types in \<open>T\<close> to the log and leaves the counter
  and what \<open>view\<close> sees as they were.
\<close>

definition extends ::
    "platform \<Rightarrow> (server_state \<Rightarrow> 'v) \<Rightarrow> (string \<Rightarrow> bool) \<Rightarrow> server_state \<Rightarrow> server_state \<Rightarrow> bool" where
  "extends pf view T s s' \<longleftrightarrow> server_inv pf s' \<and> view s' = view s \<and>
     ss_cycle_counter s' = ss_cycle_counter s \<and>
     (\<exists>ns. iter_in_insertion_order (ss_dag s') = iter_in_insertion_order (ss_dag s) @ ns \<and>
        (\<forall>n\<in>set ns. T (node_type n)))"

definition grows_by :: "platform \<Rightarrow> (server_state \<Rightarrow> 'v) \<Rightarrow> (string \<Rightarrow> bool) \<Rightarrow> 'a action \<Rightarrow> bool" where
  "grows_by pf view T m \<longleftrightarrow> (\<forall>s. server_inv pf s \<longrightarrow> extends pf view T s (fst (m s)))"

named_theorems grows_intros

lemma extends_refl: "server_inv pf s \<Longrightarrow> extends pf view T s s"
  by (simp add: extends_def)

lemma extends_trans: "extends pf view T s s1 \<Longrightarrow> extends pf view T s1 s2 \<Longrightarrow> extends pf view T s s2"
  by (auto simp: extends_def)

lemma extends_inv: "extends pf view T s s' \<Longrightarrow> server_inv pf s'"
  by (simp add: extends_def)

lemma grows_byD: "grows_by pf view T m \<Longrightarrow> server_inv pf s \<Longrightarrow> m s = (s', r) \<Longrightarrow> extends pf view T s s'"
  unfolding grows_by_def by (metis fst_conv)

lemma grows_return [grows_intros]: "grows_by pf view T (return_act a)"
  by (simp add: grows_by_def return_act_def extends_refl)

lemma grows_lift [grows_intros]: "grows_by pf view T (lift_act r)"
  by (simp add: grows_by_def lift_act_def extends_refl)

lemma grows_read [grows_intros]: "grows_by pf view T (\<lambda>s. (s, f s))"
  by (simp add: grows_by_def extends_refl)

lemma grows_bind [grows_intros]:
  assumes m: "grows_by pf view T m" and f: "\<And>a. grows_by pf view T (f a)"
  shows "grows_by pf view T (bind_act m f)"
  unfolding grows_by_def
proof (intro allI impI)
  fix s
  assume inv: "server_inv pf s"
  obtain s1 r where ms: "m s = (s1, r)"
    by (cases "m s")
  then have e: "extends pf view T s s1"
    by (rule grows_byD [OF m inv])
  show "extends pf view T s (fst (bind_act m f s))"
  proof (cases r)
    case (Ok a)
    then have "fst (bind_act m f s) = fst (f a s1)"
      by (simp add: bind_act_def ms)
    moreover have "extends pf view T s1 (fst (f a s1))"
      using f [of a] extends_inv [OF e] by (simp add: grows_by_def)
    ultimately show ?thesis
      using extends_trans [OF e] by simp
  qed (use e in \<open>simp_all add: bind_act_def ms\<close>)
qed

lemma grows_if [grows_intros]:
  "grows_by pf view T m \<Longrightarrow> grows_by pf view T n \<Longrightarrow> grows_by pf view T (if b then m else n)"
  by simp

lemma fst_ignore_act [simp]: "fst (ignore_act m s) = fst (m s)"
  by (simp add: ignore_act_def split: prod.splits result.splits)

lemma grows_ignore [grows_intros]: "grows_by pf view T m \<Longrightarrow> grows_by pf view T (ignore_act m)"
  by (simp add: grows_by_def)

lemma grows_modify [grows_intros]:
  assumes "\<And>s. view (f s) = view s" and "\<And>s. ss_dag (f s) = ss_dag s"
    and "\<And>s. ss_cultivation_state (f s) = ss_cultivation_state s"
    and "\<And>s. ss_cycle_counter (f s) = ss_cycle_counter s"
  shows "grows_by pf view T (modify_act f)"
  using assms by (simp add: grows_by_def modify_act_def server_inv_def extends_def)

lemma grows_cong:
  assumes "\<And>s. server_inv pf s \<Longrightarrow> \<exists>m. m s = a s \<and> grows_by pf view T m"
  shows "grows_by pf view T a"
  unfolding grows_by_def
proof (intro allI impI)
  fix s
  assume inv: "server_inv pf s"
  then obtain m where "m s = a s" "grows_by pf view T m"
    using assms by blast
  then show "extends pf view T s (fst (a s))"
    using inv unfolding grows_by_def by metis
qed

lemma grows_emit [grows_intros]:
  assumes "ignores_log view" and "T ty"
  shows "grows_by pf view T (emit_substrate_event pf ty c)"
  unfolding grows_by_def
proof (intro allI impI)
  fix s
  assume inv: "server_inv pf s"
  then show "extends pf view T s (fst (emit_substrate_event pf ty c s))"
  proof (cases rule: emit_cases [where ty = ty and c = c])
    case (logged s')
    then show ?thesis
      using view_emit(1) [OF assms(1), of pf ty c s] assms(2)
      by (simp add: extends_def same_identity_def logged_node_def)
  qed (use inv in \<open>simp add: extends_refl\<close>)
qed

lemma grows_immune [grows_intros]:
  assumes "ignores_log view" and "T (''immune:'' @ det)"
  shows "grows_by pf view T (emit_immune_sporocarp pf now det name ev)"
  unfolding grows_by_def
proof (intro allI impI)
  fix s
  assume inv: "server_inv pf s"
  have same: "view (fst (emit_immune_sporocarp pf now det name ev s)) = view s"
    by (rule view_emit(2) [OF assms(1)])
  from inv show "extends pf view T s (fst (emit_immune_sporocarp pf now det name ev s))"
  proof (cases rule: immune_cases [where now = now and det = det and name = name and ev = ev])
    case (logged s' t c n)
    then show ?thesis
      using assms(2) same unfolding extends_def
      by (intro conjI exI [of _ "[n]"]) (simp_all add: same_identity_def logged_node_def)
  qed (use same in \<open>simp_all add: extends_def same_identity_def\<close>)
qed

section \<open>Inserting with several parents\<close>

definition insert_act :: "platform \<Rightarrow> string \<Rightarrow> arr32 list \<Rightarrow> string \<Rightarrow> u64 \<Rightarrow> bytes \<Rightarrow> arr32 action" where
  "insert_act pf what ps ty cyc c s =
     (case insert_node (pf_hash pf) ps ty cyc c (ss_dag s) of
        (d, r) \<Rightarrow> (s\<lparr>ss_dag := d\<rparr>, map_err (\<lambda>e. SubProtocol (what @ '': '' @ dag_display e)) r))"

text \<open>\<^verbatim>\<open>parents.contains\<close> before each push.\<close>

definition push_parents :: "arr32 list \<Rightarrow> arr32 list \<Rightarrow> arr32 list" where
  "push_parents = fold (\<lambda>h ps. if h \<in> set ps then ps else ps @ [h])"

text \<open>Whether an action succeeded, its error forgotten; a panic goes through.\<close>

definition tried_act :: "'a action \<Rightarrow> bool action" where
  "tried_act m s =
     (case m s of (s1, Ok _) \<Rightarrow> (s1, Ok True) | (s1, Err _) \<Rightarrow> (s1, Ok False) | (s1, Abort x) \<Rightarrow> (s1, Abort x))"

text \<open>An action with a handler for its error.\<close>

definition or_else_act :: "'a action \<Rightarrow> (substrate_error \<Rightarrow> 'a action) \<Rightarrow> 'a action" where
  "or_else_act m h s = (case m s of (s1, Err e) \<Rightarrow> h e s1 | r \<Rightarrow> r)"

lemma view_insert:
  assumes "ignores_log view"
  shows "view (fst (insert_act pf what ps ty cyc c s)) = view s"
  using assms by (simp add: ignores_log_def insert_act_def split: prod.splits)

lemma insert_act_cases:
  assumes inv: "server_inv pf s" and ps: "set (tip_parents (ss_dag s)) \<subseteq> set ps"
    and ty: "\<not> is_cultivation_family_node_type ty"
  obtains (failed) e where "insert_act pf what ps ty cyc c s = (s, Err e)"
  | (logged) s' n where "insert_act pf what ps ty cyc c s = (s', Ok (node_hash n))"
      "n = node_over (pf_hash pf) ps ty cyc c" "server_inv pf s'" "s' = s\<lparr>ss_dag := ss_dag s'\<rparr>"
      "iter_in_insertion_order (ss_dag s') = iter_in_insertion_order (ss_dag s) @ [n]"
      "tip (ss_dag s') = Some (node_hash n)" "dag_get (ss_dag s) (node_hash n) = None"
      "set ps \<subseteq> fst ` set (nodes (ss_dag s))"
proof -
  let ?n = "node_over (pf_hash pf) ps ty cyc c"
  have dag: "dag_inv (pf_hash pf) (ss_dag s)"
    using inv by (simp add: server_inv_def)
  show thesis
    using dag ps
  proof (cases rule: insert_over_tip [where ty = ty and cyc = cyc and c = c])
    case (failed e)
    then show ?thesis
      using that(1) by (simp add: insert_act_def)
  next
    case (logged d)
    have "current_cultivation_state d = current_cultivation_state (ss_dag s)"
      by (rule cultivation_state_append [OF logged(3)]) (simp add: node_over_def ty)
    then show ?thesis
      using logged inv by (intro that(2) [of "s\<lparr>ss_dag := d\<rparr>" ?n]) (simp_all add: insert_act_def server_inv_def)
  qed
qed

lemma extends_insert:
  assumes inv: "server_inv pf s" and ps: "set (tip_parents (ss_dag s)) \<subseteq> set ps"
    and ty: "\<not> is_cultivation_family_node_type ty" and view: "ignores_log view" and T: "T ty"
  shows "extends pf view T s (fst (insert_act pf what ps ty cyc c s))"
proof -
  have v: "view (fst (insert_act pf what ps ty cyc c s)) = view s"
    by (rule view_insert [OF view])
  from inv ps ty show ?thesis
  proof (cases rule: insert_act_cases [where what = what and cyc = cyc and c = c])
    case (logged s' n)
    have "ss_cycle_counter s' = ss_cycle_counter s"
      by (subst logged(4)) simp
    then show ?thesis
      using logged(1,2,3,5) v T unfolding extends_def
      by (intro conjI exI [of _ "[n]"]) (simp_all add: node_over_def)
  qed (use inv in \<open>simp add: extends_refl\<close>)
qed

text \<open>An insertion over the current tip, whatever the state it runs in.\<close>

lemma grows_insert:
  assumes "ignores_log view" and "\<And>s. set (tip_parents (ss_dag s)) \<subseteq> set (ps s)"
    and "T ty" and "\<not> is_cultivation_family_node_type ty"
  shows "grows_by pf view T (\<lambda>s. insert_act pf what (ps s) ty cyc (c s) s)"
  unfolding grows_by_def using extends_insert assms by blast

lemma bind_act_assoc: "bind_act (bind_act m f) g = bind_act m (\<lambda>a. bind_act (f a) g)"
  by (rule ext) (auto simp: bind_act_def split: prod.splits result.splits)

lemma bind_act_return: "bind_act (return_act a) f = f a"
  by (rule ext) (simp add: bind_act_def return_act_def)

lemma fst_bind_return: "fst (bind_act m (\<lambda>a. return_act (f a)) s) = fst (m s)"
  by (simp add: bind_act_def return_act_def split: prod.splits result.splits)

lemma fst_bind_respond: "fst (bind_act m (\<lambda>a s. (s, g a s)) s) = fst (m s)"
  by (simp add: bind_act_def split: prod.splits result.splits)

lemma set_push_parents [simp]: "set (push_parents hs ps) = set ps \<union> set hs"
  unfolding push_parents_def by (induction hs arbitrary: ps) auto

lemma grows_tried [grows_intros]: "grows_by pf view T m \<Longrightarrow> grows_by pf view T (tried_act m)"
  unfolding grows_by_def tried_act_def by (auto split: prod.splits result.splits)

lemma grows_or_else [grows_intros]:
  assumes m: "grows_by pf view T m" and h: "\<And>e. grows_by pf view T (h e)"
  shows "grows_by pf view T (or_else_act m h)"
  unfolding grows_by_def
proof (intro allI impI)
  fix s
  assume inv: "server_inv pf s"
  obtain s1 r where ms: "m s = (s1, r)"
    by (cases "m s")
  then have e: "extends pf view T s s1"
    by (rule grows_byD [OF m inv])
  have "extends pf view T s1 (fst (h x s1))" for x
    using h [of x] extends_inv [OF e] by (simp add: grows_by_def)
  then show "extends pf view T s (fst (or_else_act m h s))"
    using e extends_trans by (cases r) (simp_all add: or_else_act_def ms, blast)
qed

end
