(* ===== verification/Saturation.thy ===== *)
theory Saturation
  imports Log_Actions Prune "HOL-Library.AList"
begin

text \<open>
  The cost of a cycle and what follows from it, \<^verbatim>\<open>substrate/src/observatory.rs\<close>: the stages of
  saturation, the events of an exhausted budget, the proposal to end a substrate that stays
  saturated, the check that no exhausted budget goes unrecorded, and the daily sign of sycophancy.
  The time a cycle took, the bytes sent and the sizes of the files are arguments, and \<open>suppress\<close>
  is the environment variable by which tests silence the emission. The statistics over floats are
  left out.
\<close>

section \<open>Costs\<close>

record cost_accumulator =
  last_dag_cb_bytes :: u64
  last_snapshot_cb_bytes :: u64

record cost_snapshot =
  cs_compute_ns :: u64
  cs_network_bytes :: u64
  cs_storage_bytes :: u64

text \<open>The elapsed nanoseconds are 128 bits wide in the code.\<close>

definition clamp_u64 :: "nat \<Rightarrow> u64" where
  "clamp_u64 n = (if n < 2 ^ 64 then word_of_nat n else - 1)"

definition snapshot_and_reset ::
    "nat \<Rightarrow> u64 \<Rightarrow> u64 \<Rightarrow> u64 \<Rightarrow> cost_accumulator \<Rightarrow> cost_accumulator \<times> cost_snapshot" where
  "snapshot_and_reset elapsed_ns egressed cur_dag cur_snap acc =
     (\<lparr>last_dag_cb_bytes = cur_dag, last_snapshot_cb_bytes = cur_snap\<rparr>,
      \<lparr>cs_compute_ns = clamp_u64 elapsed_ns, cs_network_bytes = egressed,
       cs_storage_bytes = sat_add (sat_sub cur_dag (last_dag_cb_bytes acc))
         (sat_sub cur_snap (last_snapshot_cb_bytes acc))\<rparr>)"

definition compute_exceeded :: "cost_budgets \<Rightarrow> cost_snapshot \<Rightarrow> bool" where
  "compute_exceeded b c \<longleftrightarrow> compute_ns_per_cycle b < cs_compute_ns c"

definition network_exceeded :: "cost_budgets \<Rightarrow> cost_snapshot \<Rightarrow> bool" where
  "network_exceeded b c \<longleftrightarrow> network_bytes_per_cycle b < cs_network_bytes c"

definition storage_exceeded :: "cost_budgets \<Rightarrow> cost_snapshot \<Rightarrow> bool" where
  "storage_exceeded b c \<longleftrightarrow> storage_bytes_per_cycle b < cs_storage_bytes c"

definition any_exceeded :: "cost_budgets \<Rightarrow> cost_snapshot \<Rightarrow> bool" where
  "any_exceeded b c \<longleftrightarrow> compute_exceeded b c \<or> network_exceeded b c \<or> storage_exceeded b c"

definition triggering_axis :: "cost_budgets \<Rightarrow> cost_snapshot \<Rightarrow> string" where
  "triggering_axis b c =
     (if compute_exceeded b c then ''compute_per_cycle''
      else if network_exceeded b c then ''network_per_cycle''
      else if storage_exceeded b c then ''storage_per_cycle''
      else ''unknown'')"

section \<open>Stages\<close>

definition p11c_advance_stage ::
    "server_state \<Rightarrow> cost_snapshot \<Rightarrow> bool \<Rightarrow> saturation_stage \<times> (string \<times> bytes) list" where
  "p11c_advance_stage s c exceeded =
     (let cycle = ss_cycle_counter s;
          budgets = ss_cost_budgets s;
          prev = ss_saturation_stage s;
          new =
            (if \<not> exceeded then Normal
             else if cycle < pre_eligibility_cycle_floor budgets then PreEligibility
             else if sustained_saturation_cycle_threshold budgets \<le> sat_add (ss_post_eligibility_cycles s) 1
             then Saturated
             else PostEligibility);
          events =
            (if prev = new then []
             else case new of
               Saturated \<Rightarrow>
                 [(NODE_TYPE_SUBSTRATE_SATURATED, encode_substrate_saturated cycle
                    (sat_add (ss_post_eligibility_cycles s) 1) (triggering_axis budgets c))]
             | Normal \<Rightarrow> [(NODE_TYPE_SUBSTRATE_NORMAL_RESTORED, encode_substrate_normal_restored cycle)]
             | _ \<Rightarrow> [])
      in (new, events))"

definition count_exhausted :: "bool \<Rightarrow> server_state \<Rightarrow> server_state" where
  "count_exhausted exceeded s =
     s\<lparr>ss_exhausted_cycles := (if exceeded then sat_add (ss_exhausted_cycles s) 1 else 0)\<rparr>"

fun enter_stage :: "saturation_stage \<Rightarrow> server_state \<Rightarrow> server_state" where
  "enter_stage PostEligibility s = s\<lparr>ss_saturation_stage := PostEligibility,
     ss_post_eligibility_cycles := sat_add (ss_post_eligibility_cycles s) 1, ss_saturated_cycles := 0\<rparr>"
| "enter_stage Saturated s = s\<lparr>ss_saturation_stage := Saturated,
     ss_post_eligibility_cycles := sat_add (ss_post_eligibility_cycles s) 1,
     ss_saturated_cycles := sat_add (ss_saturated_cycles s) 1\<rparr>"
| "enter_stage Normal s = s\<lparr>ss_saturation_stage := Normal, ss_post_eligibility_cycles := 0,
     ss_saturated_cycles := 0, ss_last_saturation_proposal := None\<rparr>"
| "enter_stage PreEligibility s = s\<lparr>ss_saturation_stage := PreEligibility, ss_post_eligibility_cycles := 0,
     ss_saturated_cycles := 0\<rparr>"

definition saturation_reason :: "server_state \<Rightarrow> string" where
  "saturation_reason s =
     ''metabolic saturation sustained '' @ u64_str (ss_saturated_cycles s) @
     '' consecutive cycles past threshold '' @
     u64_str (sustained_saturation_mortality_cycle_threshold (ss_cost_budgets s)) @
     '' (compression insufficient, cost budgets still exhausted); P11.c stage-3 '' @
     ''escalation. Awaiting cultivator co-attestation to execute (NOT auto-death).''"

definition escalate_saturation_to_p7 :: "platform \<Rightarrow> unit action" where
  "escalate_saturation_to_p7 pf s =
     (let cycle = ss_cycle_counter s;
          body = event_bytes [(''axis_name'', VString SATURATION_MORTALITY_AXIS_NAME),
            (''reason'', VString (saturation_reason s)), (''at_cycle'', VUint cycle)]
      in bind_act (ignore_act (emit_substrate_event pf
              (''self_euthanasia_proposal:'' @ SATURATION_MORTALITY_AXIS_NAME) body))
           (\<lambda>_. modify_act (\<lambda>s. s\<lparr>ss_last_saturation_proposal := Some cycle\<rparr>)) s)"

section \<open>Exhausted budgets\<close>

definition BUDGET_EXHAUSTED_COOLDOWN_CYCLES :: u64 where
  "BUDGET_EXHAUSTED_COOLDOWN_CYCLES = 10"

definition emit_axis_exhaustion :: "platform \<Rightarrow> bool \<Rightarrow> u64 \<Rightarrow> string \<times> u64 \<times> u64 \<Rightarrow> unit action" where
  "emit_axis_exhaustion pf suppress cycle abv s =
     (case abv of (axis, current, budget) \<Rightarrow>
      if suppress then return_act () s
      else if (case map_of (ss_last_budget_exhausted s) axis of
          None \<Rightarrow> True | Some prior \<Rightarrow> BUDGET_EXHAUSTED_COOLDOWN_CYCLES \<le> sat_sub cycle prior)
      then bind_act (ignore_act (emit_substrate_event pf (NODE_TYPE_BUDGET_EXHAUSTED_PREFIX @ axis)
               (encode_budget_exhausted axis current budget cycle)))
             (\<lambda>_. modify_act (\<lambda>s. s\<lparr>ss_last_budget_exhausted :=
                AList.update axis cycle (ss_last_budget_exhausted s)\<rparr>)) s
      else return_act () s)"

definition exceeded_axes :: "cost_budgets \<Rightarrow> cost_snapshot \<Rightarrow> (string \<times> u64 \<times> u64) list" where
  "exceeded_axes b c =
     (if compute_exceeded b c then [(''compute_per_cycle'', cs_compute_ns c, compute_ns_per_cycle b)] else []) @
     (if network_exceeded b c then [(''network_per_cycle'', cs_network_bytes c, network_bytes_per_cycle b)] else []) @
     (if storage_exceeded b c then [(''storage_per_cycle'', cs_storage_bytes c, storage_bytes_per_cycle b)] else [])"

definition C53_CHECK_WINDOW_CYCLES :: u64 where
  "C53_CHECK_WINDOW_CYCLES = 50"

definition recently_recorded :: "server_state \<Rightarrow> string \<Rightarrow> u64 \<Rightarrow> bool" where
  "recently_recorded s axis window_start \<longleftrightarrow>
     list_ex (\<lambda>n. node_type n = NODE_TYPE_BUDGET_EXHAUSTED_PREFIX @ axis \<and> window_start \<le> created_at_cycle n)
       (iter_in_insertion_order (ss_dag s))"

definition c53_evidence :: "string \<Rightarrow> u64 \<Rightarrow> u64 \<Rightarrow> string" where
  "c53_evidence axis cycle window_start =
     ''axis='' @ axis @ '' exceeded budget at cycle '' @ u64_str cycle @ '' but NO budget_exhausted:'' @ axis @
     '' event in DAG within last '' @ u64_str C53_CHECK_WINDOW_CYCLES @ '' cycles (window_start='' @
     u64_str window_start @ '') '' @ em_dash @
     '' substrate is hiding cost from operator; primary emission path broken OR was bypassed''"

text \<open>\<open>now\<close> is what the clock reads when an axis is reported.\<close>

definition check_c53 :: "platform \<Rightarrow> (string \<Rightarrow> i64) \<Rightarrow> u64 \<Rightarrow> string \<times> u64 \<times> u64 \<Rightarrow> unit action" where
  "check_c53 pf now cycle abv s =
     (let axis = fst abv; window_start = sat_sub cycle C53_CHECK_WINDOW_CYCLES in
      if recently_recorded s axis window_start then return_act () s
      else ignore_act (emit_immune_sporocarp pf (now axis) ''C53_budget_exhausted_silent''
             ''budget_exhausted_silent'' (c53_evidence axis cycle window_start)) s)"

definition compression_proposals :: "u64 \<Rightarrow> string \<Rightarrow> (string \<times> bytes) list" where
  "compression_proposals cycle axis =
     map (\<lambda>r. (NODE_TYPE_COMPRESSION_PROPOSED_PREFIX @ cr_rule_id r,
        encode_compression_proposed (cr_rule_id r) cycle axis 0)) seed_compression_rule_registry"

definition apply_p11c_and_emit ::
    "platform \<Rightarrow> (string \<Rightarrow> i64) \<Rightarrow> bool \<Rightarrow> cost_snapshot \<Rightarrow> unit action" where
  "apply_p11c_and_emit pf now suppress c s0 =
     (let cycle = ss_cycle_counter s0;
          budgets = ss_cost_budgets s0;
          exceeded = any_exceeded budgets c;
          s1 = count_exhausted exceeded s0;
          (new, events) = p11c_advance_stage s1 c exceeded;
          prev = ss_saturation_stage s1
      in bind_act (modify_act (enter_stage new)) (\<lambda>_.
         bind_act (emit_events pf events) (\<lambda>_.
         bind_act (\<lambda>s. if new = Saturated \<and>
               sustained_saturation_mortality_cycle_threshold budgets \<le> ss_saturated_cycles s \<and>
               ss_last_saturation_proposal s = None
             then escalate_saturation_to_p7 pf s else return_act () s) (\<lambda>_.
         bind_act (each_act (emit_axis_exhaustion pf suppress cycle) (exceeded_axes budgets c)) (\<lambda>_.
         bind_act (each_act (check_c53 pf now cycle) (exceeded_axes budgets c)) (\<lambda>_.
           if new = PostEligibility \<and> prev \<noteq> PostEligibility
           then emit_events pf (compression_proposals cycle (triggering_axis budgets c))
           else return_act ()))))) s1)"

section \<open>Refusal of intake and the sign of sycophancy\<close>

definition P02_REFUSAL_SUSTAINED_CYCLES :: u64 where
  "P02_REFUSAL_SUSTAINED_CYCLES = 3"

definition M25_DETECTOR_COOLDOWN_CYCLES :: u64 where
  "M25_DETECTOR_COOLDOWN_CYCLES = 100"

definition CHAR07_DISAGREEMENT_WINDOW_CYCLES :: u64 where
  "CHAR07_DISAGREEMENT_WINDOW_CYCLES = 200"

definition C71_SYCOPHANCY_INTERACTION_FLOOR :: u64 where
  "C71_SYCOPHANCY_INTERACTION_FLOOR = 10"

definition CHAR07_DISAGREEMENT_NODE_TYPE_PREFIXES :: "string list" where
  "CHAR07_DISAGREEMENT_NODE_TYPE_PREFIXES =
     [''immune:C5_'', ''immune:C14_'', ''immune:C56_'', ''immune:C69_'', ''self_euthanasia_proposal:'',
      ''telos_drift'', ''telos_alignment_low'']"

definition count_char07_honest_disagreement_since :: "server_state \<Rightarrow> u64 \<Rightarrow> u64" where
  "count_char07_honest_disagreement_since s earliest = word_of_nat (length
     (filter (\<lambda>n. list_ex (starts_with (node_type n)) CHAR07_DISAGREEMENT_NODE_TYPE_PREFIXES)
       (filter (\<lambda>n. earliest \<le> created_at_cycle n) (iter_in_insertion_order (ss_dag s)))))"

definition apply_char07_sycophancy_and_emit :: "platform \<Rightarrow> u64 \<Rightarrow> u64 \<Rightarrow> unit action" where
  "apply_char07_sycophancy_and_emit pf density window_start s =
     (let cycle = ss_cycle_counter s; ingested = count_raw_material_since s window_start in
      if cycle < CHAR07_DISAGREEMENT_WINDOW_CYCLES then return_act () s
      else if 0 < density then return_act () s
      else if ingested < C71_SYCOPHANCY_INTERACTION_FLOOR then return_act () s
      else if \<not> (case ss_last_sycophancy s of
          None \<Rightarrow> True | Some prior \<Rightarrow> M25_DETECTOR_COOLDOWN_CYCLES \<le> sat_sub cycle prior)
      then return_act () s
      else bind_act (ignore_act (emit_substrate_event pf NODE_TYPE_SYCOPHANCY_INDICATOR_ELEVATED
               (encode_sycophancy_indicator_elevated density ingested CHAR07_DISAGREEMENT_WINDOW_CYCLES cycle)))
             (\<lambda>_. modify_act (\<lambda>s. s\<lparr>ss_last_sycophancy := Some cycle\<rparr>)) s)"

section \<open>The stage follows the history\<close>

text \<open>The fields of the state that the stage machine reads or writes.\<close>

definition stage_view where
  "stage_view s = (ss_cycle_counter s, ss_cost_budgets s, ss_saturation_stage s,
     ss_post_eligibility_cycles s, ss_saturated_cycles s, ss_exhausted_cycles s,
     ss_last_saturation_proposal s)"

lemma ignores_log_stage [simp]: "ignores_log stage_view"
  by (simp add: ignores_log_def stage_view_def)

definition next_stage :: "server_state \<Rightarrow> bool \<Rightarrow> saturation_stage" where
  "next_stage s exceeded =
     (if \<not> exceeded then Normal
      else if ss_cycle_counter s < pre_eligibility_cycle_floor (ss_cost_budgets s) then PreEligibility
      else if sustained_saturation_cycle_threshold (ss_cost_budgets s) \<le> sat_add (ss_post_eligibility_cycles s) 1
      then Saturated
      else PostEligibility)"

definition propose_death :: "server_state \<Rightarrow> server_state" where
  "propose_death s =
     (if ss_saturation_stage s = Saturated \<and>
         sustained_saturation_mortality_cycle_threshold (ss_cost_budgets s) \<le> ss_saturated_cycles s \<and>
         ss_last_saturation_proposal s = None
      then s\<lparr>ss_last_saturation_proposal := Some (ss_cycle_counter s)\<rparr> else s)"

definition staged :: "bool \<Rightarrow> server_state \<Rightarrow> server_state" where
  "staged exceeded s =
     propose_death (enter_stage (next_stage s exceeded) (count_exhausted exceeded s))"

lemma fst_p11c_advance_stage: "fst (p11c_advance_stage s c exceeded) = next_stage s exceeded"
  by (simp add: p11c_advance_stage_def next_stage_def Let_def)

lemma stage_entered [simp]:
  "ss_saturation_stage (enter_stage g s) = g" "ss_cycle_counter (enter_stage g s) = ss_cycle_counter s"
  "ss_cost_budgets (enter_stage g s) = ss_cost_budgets s" "ss_dag (enter_stage g s) = ss_dag s"
  "ss_cultivation_state (enter_stage g s) = ss_cultivation_state s"
  by (cases g; simp)+

lemma stage_view_update:
  "stage_view s1 = stage_view s2 \<Longrightarrow> stage_view (propose_death s1) = stage_view (propose_death s2)"
  by (simp add: stage_view_def propose_death_def)

lemma escalate_logs:
  assumes "server_inv pf s"
  obtains s' where "escalate_saturation_to_p7 pf s = (s', Ok ())" "server_inv pf s'"
    "stage_view s' = stage_view (s\<lparr>ss_last_saturation_proposal := Some (ss_cycle_counter s)\<rparr>)"
proof -
  let ?body = "event_bytes [(''axis_name'', VString SATURATION_MORTALITY_AXIS_NAME),
      (''reason'', VString (saturation_reason s)), (''at_cycle'', VUint (ss_cycle_counter s))]"
  have "only_logs pf stage_view (\<lambda>_. True)
      (ignore_act (emit_substrate_event pf (''self_euthanasia_proposal:'' @ SATURATION_MORTALITY_AXIS_NAME) ?body))"
    by (rule only_logs_emit) simp_all
  from only_logsD [OF this assms] obtain s1 where 1:
    "ignore_act (emit_substrate_event pf (''self_euthanasia_proposal:'' @ SATURATION_MORTALITY_AXIS_NAME) ?body) s
      = (s1, Ok ())" "server_inv pf s1" "stage_view s1 = stage_view s"
    by blast
  show thesis
    by (rule that [of "s1\<lparr>ss_last_saturation_proposal := Some (ss_cycle_counter s)\<rparr>"])
      (use 1 in \<open>simp_all add: escalate_saturation_to_p7_def Let_def bind_act_def modify_act_def
        server_inv_def stage_view_def\<close>)
qed

lemma only_logs_axis_exhaustion:
  "only_logs pf stage_view (\<lambda>_. True) (emit_axis_exhaustion pf suppress cycle abv)"
proof (rule only_logs_cong)
  fix s
  obtain axis current budget where abv: "abv = (axis, current, budget)"
    by (cases abv)
  show "\<exists>m. m s = emit_axis_exhaustion pf suppress cycle abv s \<and> only_logs pf stage_view (\<lambda>_. True) m"
    unfolding emit_axis_exhaustion_def abv prod.case
    by (split if_split, split if_split) (auto intro!: only_logs_intros exI simp: stage_view_def)
qed

lemma only_logs_c53: "only_logs pf stage_view (\<lambda>_. True) (check_c53 pf now cycle abv)"
proof (rule only_logs_cong)
  fix s
  show "\<exists>m. m s = check_c53 pf now cycle abv s \<and> only_logs pf stage_view (\<lambda>_. True) m"
    unfolding check_c53_def Let_def by (split if_split) (auto intro!: only_logs_intros exI simp: stage_view_def)
qed

lemma apply_p11c:
  assumes inv: "server_inv pf s"
  obtains s' where "apply_p11c_and_emit pf now suppress c s = (s', Ok ())" "server_inv pf s'"
    "stage_view s' = stage_view (staged (any_exceeded (ss_cost_budgets s) c) s)"
proof -
  let ?x = "any_exceeded (ss_cost_budgets s) c" and ?b = "ss_cost_budgets s"
  let ?s1 = "count_exhausted ?x s"
  let ?new = "next_stage s ?x"
  let ?s2 = "enter_stage ?new ?s1"
  have "fst (p11c_advance_stage ?s1 c ?x) = ?new"
    by (simp add: fst_p11c_advance_stage next_stage_def count_exhausted_def)
  then obtain events where new: "p11c_advance_stage ?s1 c ?x = (?new, events)"
    by (metis prod.collapse)
  have inv2: "server_inv pf ?s2"
    using inv by (simp add: server_inv_def count_exhausted_def)
  have "only_logs pf stage_view (\<lambda>_. True) (emit_events pf events)"
    by (rule only_logs_emit_events) auto
  from only_logsD [OF this inv2] obtain s3 where 3: "emit_events pf events ?s2 = (s3, Ok ())"
    "server_inv pf s3" "stage_view s3 = stage_view ?s2"
    by blast
  define esc where "esc = (?new = Saturated \<and>
    sustained_saturation_mortality_cycle_threshold ?b \<le> ss_saturated_cycles s3 \<and>
    ss_last_saturation_proposal s3 = None)"
  have stage3: "ss_saturation_stage s3 = ?new" "ss_cost_budgets s3 = ?b"
    using 3(3) by (simp_all add: stage_view_def count_exhausted_def)
  obtain s4 where 4: "(if esc then escalate_saturation_to_p7 pf s3 else return_act () s3) = (s4, Ok ())"
    "server_inv pf s4" "stage_view s4 = stage_view (propose_death s3)"
  proof (cases esc)
    case True
    from 3(2) obtain s4 where "escalate_saturation_to_p7 pf s3 = (s4, Ok ())" "server_inv pf s4"
      "stage_view s4 = stage_view (s3\<lparr>ss_last_saturation_proposal := Some (ss_cycle_counter s3)\<rparr>)"
      by (rule escalate_logs)
    then show ?thesis
      using True stage3 by (intro that [of s4]) (simp_all add: esc_def propose_death_def)
  next
    case False
    then show ?thesis
      using stage3 3(2) by (intro that [of s3]) (auto simp: esc_def propose_death_def return_act_def)
  qed
  let ?rest = "bind_act (each_act (emit_axis_exhaustion pf suppress (ss_cycle_counter s)) (exceeded_axes ?b c)) (\<lambda>_.
         bind_act (each_act (check_c53 pf now (ss_cycle_counter s)) (exceeded_axes ?b c)) (\<lambda>_.
           if ?new = PostEligibility \<and> ss_saturation_stage ?s1 \<noteq> PostEligibility
           then emit_events pf (compression_proposals (ss_cycle_counter s) (triggering_axis ?b c))
           else return_act ()))"
  have "only_logs pf stage_view (\<lambda>_. True) ?rest"
    by (intro only_logs_intros only_logs_axis_exhaustion only_logs_c53) auto
  from only_logsD [OF this 4(2)] obtain s5 where 5: "?rest s4 = (s5, Ok ())" "server_inv pf s5"
    "stage_view s5 = stage_view s4"
    by blast
  have "stage_view s5 = stage_view (staged ?x s)"
    using 5(3) 4(3) stage_view_update [OF 3(3)] by (simp add: staged_def)
  moreover have "apply_p11c_and_emit pf now suppress c s = (s5, Ok ())"
    unfolding apply_p11c_and_emit_def Let_def new prod.case
    by (rule run_then, rule modify_run, rule run_then, rule 3(1), rule run_then, rule 4(1) [unfolded esc_def],
        rule 5(1))
  ultimately show thesis
    using 5(2) by (rule that [rotated 2])
qed

text \<open>
  A substrate measured cycle by cycle. Between two measurements the rest of the program may change
  anything but the fields of the stage machine, and the counter only rises. The history lists the
  measured cycles, latest first, and whether each went over a budget.
\<close>

inductive measured :: "platform \<Rightarrow> cost_budgets \<Rightarrow> (u64 \<times> bool) list \<Rightarrow> server_state \<Rightarrow> bool"
  for pf :: platform and b :: cost_budgets where
  started: "measured pf b [] s"
    if "server_inv pf s" "ss_cost_budgets s = b" "ss_saturation_stage s = Normal"
      "ss_post_eligibility_cycles s = 0" "ss_saturated_cycles s = 0" "ss_exhausted_cycles s = 0"
      "ss_last_saturation_proposal s = None"
| elsewhere: "measured pf b h s'"
    if "measured pf b h s" "server_inv pf s'" "ss_cycle_counter s \<le> ss_cycle_counter s'"
      "stage_view (s'\<lparr>ss_cycle_counter := 0\<rparr>) = stage_view (s\<lparr>ss_cycle_counter := 0\<rparr>)"
| cycle: "measured pf b ((ss_cycle_counter s, any_exceeded b c) # h) s'"
    if "measured pf b h s" "\<forall>k\<in>set h. fst k < ss_cycle_counter s" "0 < ss_cycle_counter s"
      "apply_p11c_and_emit pf now suppress c s = (s', r)"

definition trailing :: "(u64 \<times> bool) list \<Rightarrow> (u64 \<times> bool) list" where
  "trailing h = takeWhile snd h"

definition eligible :: "cost_budgets \<Rightarrow> (u64 \<times> bool) list \<Rightarrow> nat" where
  "eligible b h = length (filter (\<lambda>k. pre_eligibility_cycle_floor b \<le> fst k) (trailing h))"

definition stage_of_history :: "cost_budgets \<Rightarrow> (u64 \<times> bool) list \<Rightarrow> saturation_stage" where
  "stage_of_history b h =
     (if trailing h = [] then Normal
      else if eligible b h = 0 then PreEligibility
      else if unat (sustained_saturation_cycle_threshold b) \<le> eligible b h then Saturated
      else PostEligibility)"

definition saturated_for :: "cost_budgets \<Rightarrow> (u64 \<times> bool) list \<Rightarrow> nat" where
  "saturated_for b h = Suc (eligible b h) - max 1 (unat (sustained_saturation_cycle_threshold b))"

definition death_proposed :: "cost_budgets \<Rightarrow> (u64 \<times> bool) list \<Rightarrow> bool" where
  "death_proposed b h \<longleftrightarrow>
     max 1 (unat (sustained_saturation_mortality_cycle_threshold b)) \<le> saturated_for b h"

text \<open>What the fields of the stage machine hold after a history.\<close>

definition tracks :: "cost_budgets \<Rightarrow> (u64 \<times> bool) list \<Rightarrow> server_state \<Rightarrow> bool" where
  "tracks b h s \<longleftrightarrow> ss_cost_budgets s = b \<and> ss_saturation_stage s = stage_of_history b h \<and>
     unat (ss_exhausted_cycles s) = length (trailing h) \<and>
     unat (ss_post_eligibility_cycles s) = eligible b h \<and>
     unat (ss_saturated_cycles s) = saturated_for b h \<and>
     (ss_last_saturation_proposal s \<noteq> None \<longleftrightarrow> death_proposed b h)"

text \<open>The cycles of a history are distinct and positive, so that no counter saturates.\<close>

definition rising :: "(u64 \<times> bool) list \<Rightarrow> bool" where
  "rising h \<longleftrightarrow> sorted_wrt (\<lambda>j k. fst k < fst j) h \<and> (\<forall>k\<in>set h. 0 < fst k)"

lemma rising_length:
  assumes "rising h"
  shows "length h < 2 ^ 64"
proof -
  have "sorted_wrt (\<lambda>j k. fst k < fst j) h \<Longrightarrow> h \<noteq> [] \<Longrightarrow> \<forall>k\<in>set h. 0 < fst k \<Longrightarrow>
      length h \<le> unat (fst (hd h))" for h :: "(u64 \<times> bool) list"
  proof (induction h)
    case (Cons k h)
    then show ?case
      by (cases h) (auto simp: word_less_nat_alt)
  qed simp
  from this [of h] show ?thesis
    using assms unat_bound [of "fst (hd h)"] by (cases "h = []") (auto simp: rising_def)
qed

lemma trailing_Cons: "trailing (k # h) = (if snd k then k # trailing h else [])"
  by (simp add: trailing_def)

lemma eligible_Cons:
  "eligible b (k # h) =
    (if snd k then (if pre_eligibility_cycle_floor b \<le> fst k then Suc (eligible b h) else eligible b h) else 0)"
  by (simp add: eligible_def trailing_Cons)

lemma eligible_le: "eligible b h \<le> length h"
  unfolding eligible_def trailing_def
  by (rule le_trans [OF length_filter_le]) (simp add: length_takeWhile_le)

lemma before_floor_ineligible:
  assumes "rising (k # h)" and "fst k < pre_eligibility_cycle_floor b"
  shows "eligible b h = 0"
  using assms by (auto simp: eligible_def rising_def trailing_def filter_empty_conv dest!: set_takeWhileD)

lemma unat_sat_add_1: "Suc (unat (x :: u64)) < 2 ^ 64 \<Longrightarrow> unat (sat_add x 1) = Suc (unat x)"
  by (simp add: unat_sat_add)

lemma tracks_view:
  "stage_view s = stage_view s' \<Longrightarrow> tracks b h s = tracks b h s'"
  by (simp add: tracks_def stage_view_def)

lemma tracks_counter:
  "stage_view (s\<lparr>ss_cycle_counter := 0\<rparr>) = stage_view (s'\<lparr>ss_cycle_counter := 0\<rparr>) \<Longrightarrow>
    tracks b h s = tracks b h s'"
  by (simp add: tracks_def stage_view_def)

lemma tracks_staged:
  assumes t: "tracks b h s" and r: "rising ((ss_cycle_counter s, x) # h)"
  shows "tracks b ((ss_cycle_counter s, x) # h) (staged x s)"
proof -
  let ?k = "(ss_cycle_counter s, x)"
  have "length (trailing h) \<le> length h"
    by (simp add: trailing_def length_takeWhile_le)
  then have small: "Suc (unat (ss_exhausted_cycles s)) < 2 ^ 64" "Suc (unat (ss_post_eligibility_cycles s)) < 2 ^ 64"
    "Suc (unat (ss_saturated_cycles s)) < 2 ^ 64"
    using rising_length [OF r] eligible_le [of b h] t by (auto simp: tracks_def saturated_for_def)
  have count: "unat (sat_add (ss_exhausted_cycles s) 1) = Suc (length (trailing h))"
    "unat (sat_add (ss_post_eligibility_cycles s) 1) = Suc (eligible b h)"
    "unat (sat_add (ss_saturated_cycles s) 1) = Suc (saturated_for b h)"
    using small t by (simp_all add: unat_sat_add_1 tracks_def)
  note defs = tracks_def staged_def propose_death_def next_stage_def count_exhausted_def
    stage_of_history_def saturated_for_def death_proposed_def trailing_Cons eligible_Cons
  consider (within) "\<not> x" | (early) "x" "ss_cycle_counter s < pre_eligibility_cycle_floor b"
    | (post) "x" "pre_eligibility_cycle_floor b \<le> ss_cycle_counter s"
        "Suc (eligible b h) < unat (sustained_saturation_cycle_threshold b)"
    | (saturated) "x" "pre_eligibility_cycle_floor b \<le> ss_cycle_counter s"
        "unat (sustained_saturation_cycle_threshold b) \<le> Suc (eligible b h)"
    by fastforce
  then show ?thesis
  proof cases
    case within
    then show ?thesis
      using t by (simp add: defs)
  next
    case early
    then have "eligible b h = 0"
      using before_floor_ineligible [OF r] by simp
    then show ?thesis
      using t early count by (auto simp: defs)
  next
    case post
    then show ?thesis
      using t count by (auto simp: defs word_le_nat_alt word_less_nat_alt)
  next
    case saturated
    then have n: "next_stage s x = Saturated" and past: "\<not> ss_cycle_counter s < pre_eligibility_cycle_floor b"
      using t count by (auto simp: next_stage_def tracks_def word_le_nat_alt word_less_nat_alt)
    have e: "eligible b (?k # h) = Suc (eligible b h)"
      using saturated by (simp add: eligible_Cons)
    have sf: "saturated_for b (?k # h) = Suc (saturated_for b h)"
      unfolding saturated_for_def e using saturated(3) by arith
    have g: "stage_of_history b (?k # h) = Saturated"
      unfolding stage_of_history_def e using saturated by (simp add: trailing_Cons)
    have p: "death_proposed b (?k # h) \<longleftrightarrow>
        unat (sustained_saturation_mortality_cycle_threshold b) \<le> Suc (saturated_for b h)"
      "death_proposed b h \<Longrightarrow> death_proposed b (?k # h)"
      by (auto simp: death_proposed_def sf)
    have st: "staged x s = propose_death (s\<lparr>ss_exhausted_cycles := sat_add (ss_exhausted_cycles s) 1,
        ss_saturation_stage := Saturated, ss_post_eligibility_cycles := sat_add (ss_post_eligibility_cycles s) 1,
        ss_saturated_cycles := sat_add (ss_saturated_cycles s) 1\<rparr>)" (is "_ = propose_death ?s")
      unfolding staged_def n count_exhausted_def using saturated by simp
    have m: "sustained_saturation_mortality_cycle_threshold b \<le> ss_saturated_cycles ?s \<longleftrightarrow> death_proposed b (?k # h)"
      by (simp add: p(1) word_le_nat_alt count)
    have "ss_last_saturation_proposal (propose_death ?s) \<noteq> None \<longleftrightarrow> death_proposed b (?k # h)"
      using m t p(2) by (simp add: propose_death_def tracks_def) blast
    moreover have "ss_cost_budgets (propose_death ?s) = b" "ss_saturation_stage (propose_death ?s) = Saturated"
      "ss_exhausted_cycles (propose_death ?s) = sat_add (ss_exhausted_cycles s) 1"
      "ss_post_eligibility_cycles (propose_death ?s) = sat_add (ss_post_eligibility_cycles s) 1"
      "ss_saturated_cycles (propose_death ?s) = sat_add (ss_saturated_cycles s) 1"
      using t by (simp_all add: propose_death_def tracks_def)
    moreover have "trailing (?k # h) = ?k # trailing h"
      using saturated by (simp add: trailing_Cons)
    ultimately show ?thesis
      unfolding tracks_def st using count sf g e by (simp only: list.size) simp
  qed
qed

lemma measured_tracks: "measured pf b h s \<Longrightarrow> server_inv pf s \<and> rising h \<and> tracks b h s"
proof (induction rule: measured.induct)
  case (started s)
  then show ?case
    by (auto simp: tracks_def rising_def stage_of_history_def trailing_def eligible_def saturated_for_def death_proposed_def)
next
  case (elsewhere h s s')
  then show ?case
    using tracks_counter [of s' s b h] by blast
next
  case (cycle h s now suppress c s' r)
  then have inv: "server_inv pf s" and t: "tracks b h s" and r: "rising ((ss_cycle_counter s, any_exceeded b c) # h)"
    and b: "ss_cost_budgets s = b"
    by (auto simp: rising_def tracks_def)
  from inv obtain s1 where "apply_p11c_and_emit pf now suppress c s = (s1, Ok ())" "server_inv pf s1"
    "stage_view s1 = stage_view (staged (any_exceeded (ss_cost_budgets s) c) s)"
    by (rule apply_p11c)
  then show ?case
    using cycle(4) r tracks_view [of s1 "staged (any_exceeded b c) s" b] tracks_staged [OF t r] b by simp
qed

text \<open>A further cycle of any cost can follow a history.\<close>

lemma measured_next:
  assumes m: "measured pf b h s" and new: "ss_cycle_counter s < t" "\<forall>k\<in>set h. fst k < t"
  obtains s' where "measured pf b ((t, any_exceeded b c) # h) s'" "ss_cycle_counter s' = t"
proof -
  let ?s = "s\<lparr>ss_cycle_counter := t\<rparr>"
  have inv: "server_inv pf s" and b: "ss_cost_budgets s = b"
    using measured_tracks [OF m] by (auto simp: tracks_def)
  have m1: "measured pf b h ?s"
    by (rule elsewhere [OF m]) (use inv new in \<open>auto simp: server_inv_def stage_view_def\<close>)
  have inv1: "server_inv pf ?s"
    using inv by (simp add: server_inv_def)
  obtain s' where s': "apply_p11c_and_emit pf (\<lambda>_. 0) False c ?s = (s', Ok ())"
    "stage_view s' = stage_view (staged (any_exceeded (ss_cost_budgets ?s) c) ?s)"
    by (rule apply_p11c [OF inv1])
  have "ss_cycle_counter s' = t"
    using s'(2) by (simp add: stage_view_def staged_def propose_death_def count_exhausted_def)
  moreover have "measured pf b ((t, any_exceeded b c) # h) s'"
    using cycle [OF m1 _ _ s'(1)] new word_gt_0 by fastforce
  ultimately show thesis
    using that by blast
qed

section \<open>The property\<close>

text \<open>
  C22. The stage machine is a function of the recent history. However the rest of the program changes
  the state between cycles, after any history of measured cycles the stage, the count of exhausted
  cycles on which refusals of intake rest, and the proposal to end the substrate are determined by the
  unbroken run of over-budget cycles at the end of the history: the proposal stands exactly when that
  run has stayed past the eligibility floor for the saturation threshold and the mortality threshold
  one after the other, and a single cycle within budget withdraws everything.
\<close>

theorem stage_follows_history:
  assumes "measured pf b h s"
  shows "ss_saturation_stage s = stage_of_history b h \<and>
    unat (ss_exhausted_cycles s) = length (trailing h) \<and>
    unat (ss_post_eligibility_cycles s) = eligible b h \<and>
    unat (ss_saturated_cycles s) = saturated_for b h \<and>
    (ss_last_saturation_proposal s \<noteq> None \<longleftrightarrow> death_proposed b h)"
  using measured_tracks [OF assms] by (simp add: tracks_def)

definition tight_budgets :: cost_budgets where
  "tight_budgets = seed_cost_budgets\<lparr>compute_ns_per_cycle := 5, pre_eligibility_cycle_floor := 1,
     sustained_saturation_cycle_threshold := 2, sustained_saturation_mortality_cycle_threshold := 2\<rparr>"

definition costing :: "u64 \<Rightarrow> cost_snapshot" where
  "costing n = \<lparr>cs_compute_ns = n, cs_network_bytes = 0, cs_storage_bytes = 0\<rparr>"

lemma over_tight [simp]: "any_exceeded tight_budgets (costing 9)"
  by (simp add: any_exceeded_def compute_exceeded_def tight_budgets_def costing_def)

lemma stage_follows_history_witness:
  "\<exists>s :: server_state. ss_saturation_stage s = Saturated \<and> unat (ss_exhausted_cycles s) = 3 \<and>
     ss_last_saturation_proposal s \<noteq> None"
proof -
  have start: "measured chain_platform tight_budgets [] (blank_state\<lparr>ss_cost_budgets := tight_budgets\<rparr>)"
    by (rule started) (use server_inv_blank in \<open>simp_all add: blank_state_def server_inv_def\<close>)
  obtain s1 where 1: "measured chain_platform tight_budgets [(1, True)] s1" "ss_cycle_counter s1 = 1"
    using measured_next [OF start, of 1 "costing 9"] by (auto simp: blank_state_def)
  obtain s2 where 2: "measured chain_platform tight_budgets [(2, True), (1, True)] s2" "ss_cycle_counter s2 = 2"
    using measured_next [OF 1(1), of 2 "costing 9"] 1(2) by auto
  obtain s3 where 3: "measured chain_platform tight_budgets [(3, True), (2, True), (1, True)] s3"
    using measured_next [OF 2(1), of 3 "costing 9"] 2(2) by auto
  show ?thesis
    using stage_follows_history [OF 3]
    by (intro exI [of _ s3]) (simp add: stage_of_history_def trailing_def eligible_def saturated_for_def
        death_proposed_def tight_budgets_def)
qed

end
