(* ===== verification/Ingest.thy ===== *)
theory Ingest
  imports Saturation
begin

text \<open>
  Intake, \<^verbatim>\<open>substrate/src/ingest.rs\<close>: raw material, understanding forged from it, perturbations
  that name it, and hunger. The Python worker's answer to a call is an argument, \<open>None\<close> when no
  worker is connected, and so is the order in which a \<^verbatim>\<open>HashMap\<close> iterates.
\<close>

section \<open>Hunger\<close>

definition HUNGER_REQUEST_THRESHOLD_CYCLES :: u64 where
  "HUNGER_REQUEST_THRESHOLD_CYCLES = 10"

definition HUNGER_REQUEST_DEBOUNCE_CYCLES :: u64 where
  "HUNGER_REQUEST_DEBOUNCE_CYCLES = HUNGER_REQUEST_THRESHOLD_CYCLES"

definition STARVATION_THRESHOLD_CYCLES :: u64 where
  "STARVATION_THRESHOLD_CYCLES = 30"

definition STARVATION_DEBOUNCE_CYCLES :: u64 where
  "STARVATION_DEBOUNCE_CYCLES = 100"

definition C74_INGESTION_STARVATION_DETECTOR_ID :: string where
  "C74_INGESTION_STARVATION_DETECTOR_ID = ''C74_p02_ingestion_starvation''"

definition is_raw :: "dag_node \<Rightarrow> bool" where
  "is_raw n \<longleftrightarrow> starts_with (node_type n) ''raw_material:''"

definition cycles_since_last_ingestion :: "server_state \<Rightarrow> u64 \<Rightarrow> u64 \<times> bool" where
  "cycles_since_last_ingestion s current =
     (case map created_at_cycle (filter is_raw (iter_in_insertion_order (ss_dag s))) of
        [] \<Rightarrow> (current, False)
      | c # cs \<Rightarrow> (sat_sub current (fold max cs c), True))"

definition on_debounce :: "u64 option \<Rightarrow> u64 \<Rightarrow> u64 \<Rightarrow> bool" where
  "on_debounce emitted interval cycle \<longleftrightarrow>
     (case emitted of Some prior \<Rightarrow> sat_sub cycle prior < interval | None \<Rightarrow> False)"

text \<open>P02, eternal devouring, in Chinese.\<close>

definition eternal_devouring :: string where
  "eternal_devouring =
     [CHR 0xE6, CHR 0xB0, CHR 0xB8, CHR 0xE6, CHR 0x81, CHR 0x92,
      CHR 0xE5, CHR 0x90, CHR 0x9E, CHR 0xE5, CHR 0x99, CHR 0xAC]"

definition starvation_evidence :: "u64 \<Rightarrow> bool \<Rightarrow> string" where
  "starvation_evidence since ever_fed =
     ''p02 ingestion starvation: '' @ u64_str since @ '' cycles since the last raw_material:* ingestion'' @
     (if ever_fed then [] else '' (never fed since genesis)'') @ '' (>= '' @
     u64_str STARVATION_THRESHOLD_CYCLES @ ''-cycle starvation threshold). The cultivar has gone without '' @
     ''food well past the moderate cultivar_initiated_ingestion_request point ('' @
     u64_str HUNGER_REQUEST_THRESHOLD_CYCLES @
     '' cycles); the cultivator should provide raw_material. P02 '' @ eternal_devouring @
     '' mandates ongoing ingestion '' @ em_dash @
     '' sustained starvation is a metabolic pathology, not a healthy idle (P02 '' @ section_sign @ ''8.1).''"

definition ask_for_food :: "platform \<Rightarrow> u64 \<Rightarrow> u64 \<Rightarrow> bool \<Rightarrow> unit action" where
  "ask_for_food pf post since ever_fed s =
     (if HUNGER_REQUEST_THRESHOLD_CYCLES \<le> since \<and>
         \<not> on_debounce (ss_last_ingestion_request s) HUNGER_REQUEST_DEBOUNCE_CYCLES post
      then bind_act (tried_act (emit_substrate_event pf NODE_TYPE_CULTIVAR_INITIATED_INGESTION_REQUEST
               (encode_cultivar_initiated_ingestion_request post since ever_fed))) (\<lambda>ok.
             if ok then modify_act (\<lambda>s. s\<lparr>ss_last_ingestion_request := Some post\<rparr>) else return_act ()) s
      else return_act () s)"

definition signal_starvation :: "platform \<Rightarrow> i64 \<Rightarrow> u64 \<Rightarrow> u64 \<Rightarrow> bool \<Rightarrow> unit action" where
  "signal_starvation pf now post since ever_fed s =
     (if STARVATION_THRESHOLD_CYCLES \<le> since \<and>
         \<not> on_debounce (ss_last_starvation s) STARVATION_DEBOUNCE_CYCLES post
      then bind_act (tried_act (emit_immune_sporocarp pf now C74_INGESTION_STARVATION_DETECTOR_ID
               ''p02_ingestion_starvation'' (starvation_evidence since ever_fed))) (\<lambda>ok.
             if ok then modify_act (\<lambda>s. s\<lparr>ss_last_starvation := Some post\<rparr>) else return_act ()) s
      else return_act () s)"

definition apply_hunger_and_emit :: "platform \<Rightarrow> i64 \<Rightarrow> u64 \<Rightarrow> unit action" where
  "apply_hunger_and_emit pf now post s =
     (case cycles_since_last_ingestion s post of
        (since, ever_fed) \<Rightarrow>
          bind_act (ask_for_food pf post since ever_fed) (\<lambda>_. signal_starvation pf now post since ever_fed) s)"

section \<open>Raw material\<close>

definition MSG_INGEST_RAW_MATERIAL_RESPONSE :: string where
  "MSG_INGEST_RAW_MATERIAL_RESPONSE = ''ingest_raw_material_response''"

definition MAX_INGESTION_BYTES :: nat where
  "MAX_INGESTION_BYTES = 512 * 1024"

text \<open>\<^verbatim>\<open>max_by_key\<close> takes the last of several largest.\<close>

definition most_recent_exhausted_axis :: "(string \<times> u64) list \<Rightarrow> string" where
  "most_recent_exhausted_axis entries =
     (case entries of
        [] \<Rightarrow> ''unknown''
      | e # es \<Rightarrow> fst (fold (\<lambda>e best. if snd best \<le> snd e then e else best) es e))"

definition refuses_intake :: "server_state \<Rightarrow> bool" where
  "refuses_intake s \<longleftrightarrow>
     ss_saturation_stage s \<noteq> Normal \<and> P02_REFUSAL_SUSTAINED_CYCLES \<le> ss_exhausted_cycles s"

definition refusal :: "(string \<times> u64) list \<Rightarrow> message \<Rightarrow> server_state \<Rightarrow> message option" where
  "refusal entries request s =
     response MSG_INGEST_RAW_MATERIAL_RESPONSE request
       [(''refused'', VBool True), (''reason'', VString ''budget_exhausted''),
        (''axis'', VString (most_recent_exhausted_axis entries)),
        (''saturation_stage'', VString (saturation_as_str (ss_saturation_stage s)))]"

definition nonempty_string :: "vmap \<Rightarrow> string \<Rightarrow> string option" where
  "nonempty_string m k = (case bt_get m k of Some (VString s) \<Rightarrow> if s = [] then None else Some s | _ \<Rightarrow> None)"

definition read_intake :: "message \<Rightarrow> (string \<times> bytes, substrate_error) result" where
  "read_intake request =
     and_then (ok_or (SubProtocol ''ingest_raw_material: content_kind must be a non-empty String'')
         (nonempty_string (msg_payload request) ''content_kind'')) (\<lambda>kind.
     and_then (ok_or (SubProtocol ''ingest_raw_material: content_bytes must be Bytes'')
         (opt_bytes (msg_payload request) ''content_bytes'')) (\<lambda>bs.
       if MAX_INGESTION_BYTES < length bs
       then Err (SubProtocol (''ingest_raw_material: content_bytes size '' @ decimal (length bs) @
              '' exceeds '' @ decimal MAX_INGESTION_BYTES @ ''-byte cap''))
       else Ok (kind, bs)))"

definition intake_fields :: "message \<Rightarrow> string \<Rightarrow> bytes \<Rightarrow> (string \<times> Value) list" where
  "intake_fields request kind bs =
     [(''kind'', VString kind), (''bytes'', VBytes bs)] @
     (case opt_string (msg_payload request) ''source_uri'' of
        Some uri \<Rightarrow> [(''source_uri'', VString uri)] | None \<Rightarrow> []) @
     (case bt_get (msg_payload request) ''meta'' of Some m \<Rightarrow> [(''meta'', m)] | None \<Rightarrow> [])"

text \<open>What both deposits answer with.\<close>

definition deposited :: "string \<Rightarrow> message \<Rightarrow> arr32 \<Rightarrow> server_state \<Rightarrow> message option" where
  "deposited ty request h s =
     response ty request
       ([(''refused'', VBool False), (''dag_node_hash'', VBytes (arr32_bytes h))] @
        (case tip (ss_dag s) of Some t \<Rightarrow> [(''current_tip'', VBytes (arr32_bytes t))] | None \<Rightarrow> []) @
        [(''total_dag_size'', VUint (word_of_nat (node_count (ss_dag s))))])"

definition handle_ingest_raw_material ::
    "platform \<Rightarrow> ((string \<times> u64) list \<Rightarrow> (string \<times> u64) list) \<Rightarrow> message \<Rightarrow> message option action" where
  "handle_ingest_raw_material pf order request s0 =
     (if refuses_intake s0 then (s0, Ok (refusal (order (ss_last_budget_exhausted s0)) request s0))
      else bind_act (lift_act (read_intake request)) (\<lambda>(kind, bs).
        bind_act (insert_act pf ''raw_material DAG insert'' (tip_parents (ss_dag s0)) (''raw_material:'' @ kind)
            (ss_cycle_counter s0) (event_bytes (intake_fields request kind bs))) (\<lambda>h s.
          (s, Ok (deposited MSG_INGEST_RAW_MATERIAL_RESPONSE request h s)))) s0)"

section \<open>Forged understanding\<close>

definition MSG_DEPOSIT_FORGED_UNDERSTANDING_RESPONSE :: string where
  "MSG_DEPOSIT_FORGED_UNDERSTANDING_RESPONSE = ''deposit_forged_understanding_response''"

definition MAX_UNDERSTANDING_BYTES :: nat where
  "MAX_UNDERSTANDING_BYTES = 512 * 1024"

definition forge_err :: "string \<Rightarrow> substrate_error" where
  "forge_err e = SubProtocol (''deposit_forged_understanding: '' @ e)"

text \<open>
  Rust's \<^verbatim>\<open>Debug\<close> of a string, exact on ASCII; above it the characters that Rust would print
  are printed as they are.
\<close>

definition char_debug :: "char \<Rightarrow> string" where
  "char_debug c =
     (if c = CHR 0x22 \<or> c = CHR 0x5C then [CHR 0x5C, c]
      else if c = CHR 0x09 then [CHR 0x5C, CHR 0x74]
      else if c = CHR 0x0A then [CHR 0x5C, CHR 0x6E]
      else if c = CHR 0x0D then [CHR 0x5C, CHR 0x72]
      else if c = CHR 0x00 then [CHR 0x5C, CHR 0x30]
      else if of_char c < (32 :: nat) \<or> of_char c = (127 :: nat)
      then [CHR 0x5C, CHR 0x75, CHR 0x7B] @
        (if of_char c < (16 :: nat) then [hex_digit (of_char c)]
         else [hex_digit (of_char c div 16), hex_digit (of_char c mod 16)]) @ [CHR 0x7D]
      else [c])"

definition str_debug :: "string \<Rightarrow> string" where
  "str_debug s = CHR 0x22 # concat (map char_debug s) @ [CHR 0x22]"

text \<open>An optional array of hashes under \<open>key\<close>.\<close>

fun hash_entry :: "string \<Rightarrow> Value \<Rightarrow> (arr32, substrate_error) result" where
  "hash_entry key (VBytes b) =
     (if length b = 32 then Ok (word_of_be b)
      else Err (forge_err (''each '' @ key @ '' entry must be 32 Bytes'')))"
| "hash_entry key _ = Err (forge_err (''each '' @ key @ '' entry must be 32 Bytes''))"

definition hash_array :: "vmap \<Rightarrow> string \<Rightarrow> (arr32 list, substrate_error) result" where
  "hash_array m key =
     (case bt_get m key of
        None \<Rightarrow> Ok []
      | Some (VArray vs) \<Rightarrow> traverse (hash_entry key) vs
      | Some _ \<Rightarrow> Err (forge_err (key @ '' must be an Array of Bytes'')))"

text \<open>A cited node exists and has the type that \<open>prefix\<close> names.\<close>

definition cites ::
    "dag \<Rightarrow> string \<Rightarrow> string \<Rightarrow> string \<Rightarrow> arr32 \<Rightarrow> (unit, substrate_error) result" where
  "cites d what prefix wanted h =
     and_then (ok_or (forge_err (what @ '' '' @ to_hex h @ '' not found in DAG'')) (dag_get d h)) (\<lambda>n.
       if \<not> starts_with (node_type n) prefix
       then Err (forge_err ((if what = ''source_raw_material_hash'' then ''hash'' else what) @ '' '' @
              to_hex h @ '' references a '' @ str_debug (node_type n) @ '' node, not '' @ wanted))
       else Ok ())"

definition percent_field :: "vmap \<Rightarrow> string \<Rightarrow> (u64 option, substrate_error) result" where
  "percent_field m key =
     (case bt_get m key of
        None \<Rightarrow> Ok None
      | Some (VUint v) \<Rightarrow>
          if v \<le> 100 then Ok (Some v)
          else Err (forge_err (key @ '' '' @ u64_str v @ '' out of range (expected Uint 0..=100)''))
      | Some _ \<Rightarrow> Err (forge_err (key @ '' must be a Uint (0..=100)'')))"

record plate =
  plate_label :: string
  plate_understanding :: bytes
  plate_sources :: "arr32 list"
  plate_value :: "u64 option"
  plate_confidence :: "u64 option"
  plate_supersedes :: "arr32 list"

definition read_plate :: "dag \<Rightarrow> message \<Rightarrow> (plate, substrate_error) result" where
  "read_plate d request =
     (let m = msg_payload request in
      and_then (ok_or (forge_err ''label must be a non-empty String'') (nonempty_string m ''label'')) (\<lambda>label.
      and_then (ok_or (forge_err ''understanding must be Bytes'') (opt_bytes m ''understanding'')) (\<lambda>u.
      if MAX_UNDERSTANDING_BYTES < length u
      then Err (forge_err (''understanding size '' @ decimal (length u) @ '' exceeds '' @
             decimal MAX_UNDERSTANDING_BYTES @ ''-byte cap''))
      else
        and_then (hash_array m ''source_raw_material_hashes'') (\<lambda>sources.
        and_then (try_each (cites d ''source_raw_material_hash'' ''raw_material:'' ''raw_material'') sources) (\<lambda>_.
        and_then (percent_field m ''value'') (\<lambda>v.
        and_then (percent_field m ''confidence'') (\<lambda>conf.
        and_then (hash_array m ''supersedes'') (\<lambda>supersedes.
        and_then (try_each (cites d ''supersedes hash'' FORGED_UNDERSTANDING_NODE_TYPE_PREFIX
            ''forged_understanding'') supersedes) (\<lambda>_.
          Ok \<lparr>plate_label = label, plate_understanding = u, plate_sources = sources, plate_value = v,
              plate_confidence = conf, plate_supersedes = supersedes\<rparr>)))))))))"

definition hash_values :: "arr32 list \<Rightarrow> Value" where
  "hash_values hs = VArray (map (\<lambda>h. VBytes (arr32_bytes h)) hs)"

definition plate_fields :: "plate \<Rightarrow> u64 \<Rightarrow> (string \<times> Value) list" where
  "plate_fields p cyc =
     [(''label'', VString (plate_label p)), (''understanding'', VBytes (plate_understanding p)),
      (''source_raw_material_hashes'', hash_values (plate_sources p)), (''forged_at_cycle'', VUint cyc)] @
     (case plate_value p of Some v \<Rightarrow> [(''value'', VUint v)] | None \<Rightarrow> []) @
     (case plate_confidence p of Some v \<Rightarrow> [(''confidence'', VUint v)] | None \<Rightarrow> []) @
     (if plate_supersedes p = [] then [] else [(''supersedes'', hash_values (plate_supersedes p))])"

definition handle_deposit_forged_understanding :: "platform \<Rightarrow> message \<Rightarrow> message option action" where
  "handle_deposit_forged_understanding pf request s0 =
     bind_act (lift_act (read_plate (ss_dag s0) request)) (\<lambda>p.
     bind_act (insert_act pf ''forged_understanding DAG insert'' (push_parents (plate_sources p) (tip_parents (ss_dag s0)))
         (FORGED_UNDERSTANDING_NODE_TYPE_PREFIX @ plate_label p) (ss_cycle_counter s0)
         (event_bytes (plate_fields p (ss_cycle_counter s0)))) (\<lambda>h s.
       (s, Ok (deposited MSG_DEPOSIT_FORGED_UNDERSTANDING_RESPONSE request h s)))) s0"

section \<open>Perturbations\<close>

type_synonym worker = "(string \<Rightarrow> vmap \<Rightarrow> (message, bridge_error) result) option"

definition not_connected :: substrate_error where
  "not_connected = SubHandshake ''python worker not connected''"

definition MSG_PERTURB_AXIS_FROM_RAW_MATERIAL_RESPONSE :: string where
  "MSG_PERTURB_AXIS_FROM_RAW_MATERIAL_RESPONSE = ''perturb_axis_from_raw_material_response''"

definition perturb_err :: "string \<Rightarrow> substrate_error" where
  "perturb_err e = SubProtocol (''perturb_axis_from_raw_material: '' @ e)"

definition perturbed_raw :: "dag \<Rightarrow> arr32 \<Rightarrow> (unit, substrate_error) result" where
  "perturbed_raw d h =
     and_then (ok_or (perturb_err (''raw_material_hash '' @ to_hex h @ '' not found in DAG''))
         (dag_get d h)) (\<lambda>n.
       if \<not> starts_with (node_type n) ''raw_material:''
       then Err (perturb_err (''hash '' @ to_hex h @ '' references a '' @
              str_debug (node_type n) @ '' node, not raw_material''))
       else Ok ())"

definition ask_worker ::
    "worker \<Rightarrow> string \<Rightarrow> vmap \<Rightarrow> string \<Rightarrow> (message, substrate_error) result" where
  "ask_worker python ty payload ack =
     and_then (ok_or not_connected python) (\<lambda>call.
     and_then (map_err SubBridge (call ty payload)) (\<lambda>r.
       if message_type r \<noteq> ack
       then Err (SubProtocol (''expected '' @ ack @ '' from python; got '' @ message_type r))
       else Ok r))"

definition handle_perturb_axis_from_raw_material ::
    "platform \<Rightarrow> 'f parse_fn \<Rightarrow> ('f \<Rightarrow> string) \<Rightarrow> worker \<Rightarrow> message \<Rightarrow> message option action" where
  "handle_perturb_axis_from_raw_material pf parse repr python request s0 =
     (let m = msg_payload request; d = ss_dag s0 in
      bind_act (lift_act (ok_or (perturb_err ''axis_name must be String'') (opt_string m ''axis_name''))) (\<lambda>axis.
      bind_act (lift_act (ok_or (perturb_err ''delta_repr must be String'') (opt_string m ''delta_repr''))) (\<lambda>delta_repr.
      bind_act (lift_act (ok_or (perturb_err ''raw_material_hash must be 32 bytes'')
          (opt_arr32 m ''raw_material_hash''))) (\<lambda>raw.
      bind_act (lift_act (perturbed_raw d raw)) (\<lambda>_.
      bind_act (lift_act (map_err (\<lambda>e. SubProtocol (''delta_repr parse: '' @ e)) (parse delta_repr))) (\<lambda>delta.
      bind_act (lift_act (ask_worker python MSG_PERTURB (perturb_payload repr axis delta) MSG_PERTURB_ACK)) (\<lambda>_.
      bind_act (insert_act pf ''perturb_from_raw DAG insert''
          (case tip d of Some t \<Rightarrow> if t \<noteq> raw then [t, raw] else [raw] | None \<Rightarrow> [raw])
          (''perturb_from_raw:'' @ axis) (ss_cycle_counter s0)
          (event_bytes [(''axis_name'', VString axis), (''delta_repr'', VString delta_repr),
             (''raw_material_hash'', VBytes (arr32_bytes raw))])) (\<lambda>h.
        return_act (response MSG_PERTURB_AXIS_FROM_RAW_MATERIAL_RESPONSE request
          [(''causal_link_hash'', VBytes (arr32_bytes h)),
           (''raw_material_hash'', VBytes (arr32_bytes raw))])))))))) s0)"

text \<open>The fields of a registration, \<open>None\<close> when one is missing or does not parse.\<close>

definition float_field :: "'f parse_fn \<Rightarrow> vmap \<Rightarrow> string \<Rightarrow> 'f option" where
  "float_field parse m k =
     Option.bind (opt_string m k) (\<lambda>s. case parse s of Ok f \<Rightarrow> Some f | _ \<Rightarrow> None)"

definition build_axis_registered_event ::
    "'f parse_fn \<Rightarrow> message \<Rightarrow> 'f axis_registered_event option" where
  "build_axis_registered_event parse request =
     (let m = msg_payload request in
      Option.bind (opt_string m ''name'') (\<lambda>name.
      Option.bind (opt_string m ''axis_class'') (\<lambda>cls.
      Option.bind (float_field parse m ''fruiting_threshold_repr'') (\<lambda>threshold.
      Option.bind (float_field parse m ''initial_value_repr'') (\<lambda>initial.
      Option.bind (float_field parse m ''decay_rate_per_cycle_repr'') (\<lambda>decay.
      Option.bind (opt_bool m ''is_mortality_signal'') (\<lambda>mortality.
      Option.bind (opt_string m ''update_rule_kind'') (\<lambda>rule.
        Some \<lparr>are_name = name, are_axis_class = cls, are_fruiting_threshold = threshold,
          are_initial_value = initial, are_decay_rate_per_cycle = decay,
          are_is_mortality_signal = mortality, are_update_rule_kind = rule\<rparr>))))))))"

end
