(* ===== verification/Advance.thy ===== *)
theory Advance
  imports Ingest
begin

text \<open>
  One metabolic cycle as the server runs it: \<^verbatim>\<open>handle_advance\<close> and the steps of a schema
  migration (\<^verbatim>\<open>substrate/src/ingest.rs\<close>), and the part of the \<^verbatim>\<open>ADVANCE\<close> arm of
  \<^verbatim>\<open>server/dispatch.rs\<close> before the observatory's snapshot. The worker's answers, the clock readings by
  detector, the time the cycle took and the outcome of saving the worker's state are arguments; what is
  written to disk for the next boot is left out.
\<close>

section \<open>Errors\<close>

fun cycle_display :: "cycle_error \<Rightarrow> string" where
  "cycle_display (StepFailed i reason) = ''cycle step failed at '' @ cycle_step_name i @ '': '' @ reason"
| "cycle_display (Timeout i) = ''cycle timeout: step '' @ cycle_step_name i @ '' exceeded budget''"

fun substrate_display :: "substrate_error \<Rightarrow> string" where
  "substrate_display (SubBridge e) = ''substrate bridge: '' @ bridge_display e"
| "substrate_display (SubProtocol e) = ''substrate protocol: '' @ e"
| "substrate_display (SubIo e) = ''substrate I/O: '' @ e"
| "substrate_display (SubHandshake e) = ''substrate handshake: '' @ e"

definition step_failed_signal :: "platform \<Rightarrow> (string \<Rightarrow> i64) \<Rightarrow> string \<Rightarrow> unit action" where
  "step_failed_signal pf now evidence =
     ignore_act (emit_immune_sporocarp pf (now ''C31_cycle_step_failed'') ''C31_cycle_step_failed''
       ''cycle_step_failed'' evidence)"

section \<open>The five steps\<close>

type_synonym 'f advance_call = "u64 \<Rightarrow> ('f advance_report, bridge_error) result"

definition pending_absorption :: "server_state \<Rightarrow> arr32 list" where
  "pending_absorption s = map node_hash
     (filter (\<lambda>n. case ss_last_absorbed_cycle s of None \<Rightarrow> True | Some c \<Rightarrow> c < created_at_cycle n)
       (filter is_raw (iter_in_insertion_order (ss_dag s))))"

definition recent_breaches :: "server_state \<Rightarrow> string list" where
  "recent_breaches s = map node_type
     (filter (\<lambda>n. sat_sub (ss_cycle_counter s) 1 \<le> created_at_cycle n \<and> starts_with (node_type n) ''immune:'')
       (iter_in_insertion_order (ss_dag s)))"

text \<open>The environment of a cycle is the advancer's own counter and the report it received.\<close>

definition advance_step ::
    "'f advance_call \<Rightarrow> u64 \<times> 'f advance_report option \<Rightarrow>
      (u64 \<times> 'f advance_report option) \<times> (unit, string) result" where
  "advance_step call w =
     (if fst w = - 1 then (w, Abort Panicked) else
      let n = fst w + 1 in
      case call n of
        Ok r \<Rightarrow> ((n, Some r), Ok ())
      | Err e \<Rightarrow> ((n, snd w), Err (''python gradient advance failed: '' @ bridge_display e))
      | Abort x \<Rightarrow> ((n, snd w), Abort x))"

definition advance_context ::
    "(unit, dag_error) result \<Rightarrow> arr32 list \<Rightarrow> string list \<Rightarrow> 'f advance_call \<Rightarrow>
      (u64 \<times> 'f advance_report option) cycle_context" where
  "advance_context verified pending breaches call =
     \<lparr>validate_tier1 = (\<lambda>w. (w, map_err (\<lambda>e. ''DAG verify_all failed: '' @ dag_display e) verified)),
      advance_gradient = advance_step call,
      absorb_deltas = (\<lambda>w. (w, Ok (length pending))),
      check_skin_breaches = (\<lambda>w. (w, Ok breaches)),
      process_handshake_attestation = (\<lambda>w. (w, Ok 0))\<rparr>"

section \<open>What a committed cycle writes\<close>

definition mortality_reason :: "('f \<Rightarrow> string) \<Rightarrow> 'f sporocarp_report \<Rightarrow> string" where
  "mortality_reason repr sp =
     ''mortality_signal axis '' @ quoted (sr_axis_name sp) @ '' crossed threshold (decay '' @
     [CHR 0xE2, CHR 0x86, CHR 0x92] @ '' fruiting_value='' @ repr (sr_fruiting_value sp) @ '')''"

definition propose_euthanasia ::
    "platform \<Rightarrow> ('f \<Rightarrow> string) \<Rightarrow> 'f sporocarp_report \<Rightarrow> arr32 \<Rightarrow> arr32 list action" where
  "propose_euthanasia pf repr sp h =
     (if sr_type sp = ''mortality_signal_threshold_crossed''
      then bind_act (insert_act pf ''self_euthanasia_proposal DAG insert'' [h]
             (''self_euthanasia_proposal:'' @ sr_axis_name sp) (sr_at_cycle sp)
             (event_bytes [(''axis_name'', VString (sr_axis_name sp)),
               (''fruiting_value_repr'', VString (repr (sr_fruiting_value sp))),
               (''at_cycle'', VUint (sr_at_cycle sp)),
               (''triggering_sporocarp_hash'', VBytes (arr32_bytes h)),
               (''reason'', VString (mortality_reason repr sp))]))
           (\<lambda>p. return_act [p])
      else return_act [])"

text \<open>The hashes of the sporocarps' nodes, and of the proposals among them.\<close>

fun insert_sporocarps ::
    "platform \<Rightarrow> ('f \<Rightarrow> string) \<Rightarrow> 'f sporocarp_report list \<Rightarrow> (arr32 list \<times> arr32 list) action" where
  "insert_sporocarps pf repr [] = return_act ([], [])"
| "insert_sporocarps pf repr (sp # sps) =
     bind_act (\<lambda>s. insert_act pf ''dag insert'' (tip_parents (ss_dag s)) (''sporocarp:'' @ sr_type sp)
         (sr_at_cycle sp) (sr_canonical_bytes sp) s) (\<lambda>h.
     bind_act (propose_euthanasia pf repr sp h) (\<lambda>ps.
     bind_act (insert_sporocarps pf repr sps) (\<lambda>(hs, qs). return_act (h # hs, ps @ qs))))"

definition absorption_fields :: "u64 \<Rightarrow> arr32 list \<Rightarrow> (string \<times> Value) list" where
  "absorption_fields post pending =
     [(''cycle'', VUint post), (''absorbed_count'', VUint (word_of_nat (length pending))),
      (''absorbed_hashes'', hash_values pending)]"

definition latest_of :: "dag \<Rightarrow> arr32 list \<Rightarrow> u64" where
  "latest_of d hs = fold max (map created_at_cycle (List.map_filter (dag_get d) hs)) 0"

definition absorb_raw :: "platform \<Rightarrow> u64 \<Rightarrow> arr32 list \<Rightarrow> arr32 option action" where
  "absorb_raw pf post pending s =
     (if pending = [] then return_act None s
      else bind_act (insert_act pf ''absorption_event DAG insert'' (push_parents pending (tip_parents (ss_dag s)))
             (''absorption_event:cycle_'' @ u64_str post) post (event_bytes (absorption_fields post pending))) (\<lambda>h.
           bind_act (modify_act (\<lambda>s1. s1\<lparr>ss_last_absorbed_cycle := Some (latest_of (ss_dag s) pending)\<rparr>)) (\<lambda>_.
             return_act (Some h))) s)"

section \<open>The scan, the backlog and hunger\<close>

definition HOARDING_COOLDOWN_CYCLES :: u64 where
  "HOARDING_COOLDOWN_CYCLES = 100"

definition hoarding_evidence :: "u64 \<Rightarrow> u64 \<Rightarrow> u64 \<Rightarrow> string" where
  "hoarding_evidence post ingested pruned =
     ''hoarding pattern detected at cycle '' @ u64_str post @ '': over last '' @
     u64_str HOARDING_INDICATOR_WINDOW_CYCLES @ '' cycles ingested '' @ u64_str ingested @
     '' raw_material parts but emitted only '' @ u64_str pruned @ '' internal_mortality_events (P07 '' @
     section_sign @ ''3.1 mandates ongoing prune); COV04 '' @ section_sign @ ''5.6 / '' @ section_sign @
     ''5.7 may also be implicated if a cultivator preserve-all instruction is the cause''"

definition hoarding_step :: "platform \<Rightarrow> (string \<Rightarrow> i64) \<Rightarrow> u64 \<Rightarrow> unit action" where
  "hoarding_step pf now post s =
     (let window_start = sat_sub post HOARDING_INDICATOR_WINDOW_CYCLES in
      if is_hoarding s post \<and> \<not> on_debounce (ss_last_hoarding s) HOARDING_COOLDOWN_CYCLES post
      then bind_act (ignore_act (emit_immune_sporocarp pf (now ''C54_hoarding_indicator'') ''C54_hoarding_indicator''
               ''hoarding_indicator'' (hoarding_evidence post (count_raw_material_since s window_start)
                 (count_internal_mortality_events_since s window_start))))
             (\<lambda>_. modify_act (\<lambda>s. s\<lparr>ss_last_hoarding := Some post\<rparr>)) s
      else return_act () s)"

definition prune_failure :: "u64 \<Rightarrow> substrate_error \<Rightarrow> string" where
  "prune_failure post e =
     ''prune-scan failed at cycle '' @ u64_str post @ '': '' @ substrate_display e @
     ''; P07 internal mortality discipline did not run this cycle''"

definition prune_fields :: "prune_scan_report \<Rightarrow> (string \<times> Value) list" where
  "prune_fields r =
     [(''prune_scan_rules_run'', VUint (word_of_nat (length (rules_run r)))),
      (''prune_scan_tombstones_emitted'', VUint (word_of_nat (length (tombstones_emitted r))))] @
     (if tombstones_emitted r = [] then []
      else [(''prune_scan_tombstone_hashes'', hash_values (tombstones_emitted r))])"

definition prune_step :: "platform \<Rightarrow> (string \<Rightarrow> i64) \<Rightarrow> u64 \<Rightarrow> (string \<times> Value) list action" where
  "prune_step pf now post =
     (if should_run_prune_scan post
      then bind_act (or_else_act (run_prune_scan pf seed_registry post) (\<lambda>e.
             bind_act (step_failed_signal pf now (prune_failure post e)) (\<lambda>_.
               return_act \<lparr>rules_run = [], tombstones_emitted = [], at_cycle = post\<rparr>))) (\<lambda>r.
           bind_act (hoarding_step pf now post) (\<lambda>_. return_act (prune_fields r)))
      else return_act [])"

definition MAX_CYCLE_DURATION_MS_ALIVE :: nat where
  "MAX_CYCLE_DURATION_MS_ALIVE = 5000"

definition backlog_evidence :: "server_state \<Rightarrow> nat \<Rightarrow> string" where
  "backlog_evidence s elapsed_ms =
     ''cycle '' @ u64_str (ss_cycle_counter s) @ '' ran '' @ decimal elapsed_ms @
     ''ms exceeding alive-tier budget '' @ decimal MAX_CYCLE_DURATION_MS_ALIVE @ ''ms; backlog_count='' @
     decimal (unat (backlog_count (ss_cycle_engine s))) @ '' >= threshold (L2/OBSERVABILITY '' @
     section_sign @ ''7)''"

definition backlog_step :: "platform \<Rightarrow> (string \<Rightarrow> i64) \<Rightarrow> nat \<Rightarrow> unit action" where
  "backlog_step pf now elapsed_ms =
     (if MAX_CYCLE_DURATION_MS_ALIVE < elapsed_ms
      then bind_act (modify_act (\<lambda>s. s\<lparr>ss_cycle_engine := record_backlog (ss_cycle_engine s)\<rparr>)) (\<lambda>_ s.
             if is_backlogged (ss_cycle_engine s)
             then ignore_act (emit_immune_sporocarp pf (now ''C36_cycle_backlog'') ''C36_cycle_backlog''
               ''cycle_backlog'' (backlog_evidence s elapsed_ms)) s
             else return_act () s)
      else return_act ())"

section \<open>The response\<close>

definition sporocarp_value :: "('f \<Rightarrow> string) \<Rightarrow> 'f sporocarp_report \<Rightarrow> arr32 \<Rightarrow> Value" where
  "sporocarp_value repr sp h = VMap (bt_of
     [(''sporocarp_type'', VString (sr_type sp)), (''axis_name'', VString (sr_axis_name sp)),
      (''fruiting_value_repr'', VString (repr (sr_fruiting_value sp))),
      (''at_cycle'', VUint (sr_at_cycle sp)), (''canonical_bytes'', VBytes (sr_canonical_bytes sp)),
      (''hash'', VBytes (arr32_bytes (sr_hash sp))), (''dag_node_hash'', VBytes (arr32_bytes h))])"

definition advance_fields ::
    "('f \<Rightarrow> string) \<Rightarrow> u64 \<Rightarrow> 'f advance_report \<Rightarrow> cycle_report \<Rightarrow> arr32 list \<Rightarrow> arr32 list \<Rightarrow>
      arr32 option \<Rightarrow> dag \<Rightarrow> (string \<times> Value) list" where
  "advance_fields repr post ar cr hashes proposals absorption d =
     [(''cycle_number'', VUint post), (''candidate_active'', VBool (ar_candidate_active ar)),
      (''candidate_diverged'', VBool (ar_candidate_diverged ar)),
      (''divergence_reason'', VString (ar_divergence_reason ar))] @
     (case tip d of Some t \<Rightarrow> [(''dag_tip'', VBytes (arr32_bytes t))] | None \<Rightarrow> []) @
     [(''dag_node_count'', VUint (word_of_nat (node_count d))),
      (''fruited_axes'', VArray (map VString (ar_fruited_axes ar))),
      (''sporocarps'', VArray (map2 (sporocarp_value repr) (ar_sporocarps ar) hashes)),
      (''deltas_absorbed'', VUint (word_of_nat (report_deltas_absorbed cr))),
      (''handshake_events_processed'', VUint (word_of_nat (report_handshake_events_processed cr))),
      (''skin_breaches'', VArray (map VString (report_skin_breaches cr)))] @
     (case absorption of Some h \<Rightarrow> [(''absorption_event_hash'', VBytes (arr32_bytes h))] | None \<Rightarrow> []) @
     (if proposals = [] then [] else [(''self_euthanasia_proposal_hashes'', hash_values proposals)])"

definition no_report :: "'f advance_report" where
  "no_report = \<lparr>ar_fruited_axes = [], ar_sporocarps = [], ar_candidate_active = False,
     ar_candidate_diverged = False, ar_divergence_reason = []\<rparr>"

definition commit_cycle ::
    "platform \<Rightarrow> ('f \<Rightarrow> string) \<Rightarrow> (string \<Rightarrow> i64) \<Rightarrow> nat \<Rightarrow> u64 \<Rightarrow> arr32 list \<Rightarrow> 'f advance_report \<Rightarrow>
      cycle_report \<Rightarrow> message \<Rightarrow> message option action" where
  "commit_cycle pf repr now elapsed_ms post pending ar cr request =
     bind_act (insert_sporocarps pf repr (ar_sporocarps ar)) (\<lambda>(hashes, proposals).
     bind_act (absorb_raw pf post pending) (\<lambda>absorption s.
       let fields = advance_fields repr post ar cr hashes proposals absorption (ss_dag s) in
       bind_act (prune_step pf now post) (\<lambda>pruned.
       bind_act (backlog_step pf now elapsed_ms) (\<lambda>_.
       bind_act (apply_hunger_and_emit pf (now C74_INGESTION_STARVATION_DETECTOR_ID) post) (\<lambda>_.
         return_act (response MSG_ADVANCE_RESPONSE request
           (fields @ pruned @ [(''cycle_duration_ms'', VUint (word_of_nat elapsed_ms))]))))) s))"

definition handle_advance ::
    "platform \<Rightarrow> ('f \<Rightarrow> string) \<Rightarrow> (string \<Rightarrow> i64) \<Rightarrow> nat \<Rightarrow> 'f advance_call option \<Rightarrow> message \<Rightarrow>
      message option action" where
  "handle_advance pf repr now elapsed_ms python request s0 =
     (let pending = pending_absorption s0 in
      case python of
        None \<Rightarrow> (s0, Err not_connected)
      | Some call \<Rightarrow>
          (case run_cycle (advance_context (verify_all (pf_hash pf) (ss_dag s0)) pending (recent_breaches s0) call)
              (ss_cycle_engine s0, (ss_cycle_counter s0, None)) of
             ((eng, post, report), r) \<Rightarrow>
               (case r of
                  Ok cr \<Rightarrow>
                    if report_committed cr
                    then commit_cycle pf repr now elapsed_ms post pending
                      (case report of Some ar \<Rightarrow> ar | None \<Rightarrow> no_report) cr request (s0\<lparr>ss_cycle_engine := eng\<rparr>)
                    else bind_act (step_failed_signal pf now ''CycleEngine.run_cycle returned non-committed report'')
                      (\<lambda>_. lift_act (Err (SubProtocol ''cycle did not commit''))) (s0\<lparr>ss_cycle_engine := eng\<rparr>)
                | Err e \<Rightarrow>
                    bind_act (step_failed_signal pf now (''CycleEngine.run_cycle returned Err: '' @ cycle_display e))
                      (\<lambda>_. lift_act (Err (SubProtocol (''cycle engine: '' @ cycle_display e)))) (s0\<lparr>ss_cycle_engine := eng\<rparr>)
                | Abort x \<Rightarrow> (s0\<lparr>ss_cycle_engine := eng\<rparr>, Abort x))))"

section \<open>The steps of a migration\<close>

definition MSG_COMMIT_MIGRATION :: string where
  "MSG_COMMIT_MIGRATION = ''commit_migration''"

definition MSG_COMMIT_MIGRATION_ACK :: string where
  "MSG_COMMIT_MIGRATION_ACK = ''commit_migration_ack''"

definition MSG_ABORT_MIGRATION :: string where
  "MSG_ABORT_MIGRATION = ''abort_migration''"

definition MSG_ABORT_MIGRATION_ACK :: string where
  "MSG_ABORT_MIGRATION_ACK = ''abort_migration_ack''"

definition send_migration_terminal :: "worker \<Rightarrow> string \<Rightarrow> (message, substrate_error) result" where
  "send_migration_terminal python ty =
     ask_worker python ty empty_payload
       (if ty = MSG_COMMIT_MIGRATION then MSG_COMMIT_MIGRATION_ACK else MSG_ABORT_MIGRATION_ACK)"

definition legacy_event_fields :: "string \<Rightarrow> bool \<Rightarrow> string \<Rightarrow> (string \<times> Value) list" where
  "legacy_event_fields opn succeeded reason =
     [(''op'', VString opn), (''succeeded'', VBool succeeded),
      (''summary'', VString (''two-phase migration '' @ (if succeeded then ''committed'' else ''rolled back'')))] @
     (if succeeded then [] else [(''failure_reason'', VString reason)])"

definition emit_legacy_evolution_event :: "platform \<Rightarrow> string \<Rightarrow> bool \<Rightarrow> string \<Rightarrow> unit action" where
  "emit_legacy_evolution_event pf opn succeeded reason =
     ignore_act (emit_substrate_event pf
       ((if succeeded then ''evolution_succeeded:'' else ''evolution_failed:'') @ opn)
       (event_bytes (legacy_event_fields opn succeeded reason)))"

text \<open>The worker is told of the decision; its failure is an immune signal and no more.\<close>

definition tell_worker :: "platform \<Rightarrow> (string \<Rightarrow> i64) \<Rightarrow> worker \<Rightarrow> string \<Rightarrow> string \<Rightarrow> unit action" where
  "tell_worker pf now python ty what =
     (case send_migration_terminal python ty of
        Ok _ \<Rightarrow> return_act ()
      | Err e \<Rightarrow> step_failed_signal pf now (what @ substrate_display e)
      | Abort x \<Rightarrow> lift_act (Abort x))"

definition forget_candidate :: "unit action" where
  "forget_candidate = modify_act (\<lambda>s. s\<lparr>ss_migration_candidate := None\<rparr>)"

definition roll_back ::
    "platform \<Rightarrow> (string \<Rightarrow> i64) \<Rightarrow> worker \<Rightarrow> (unit, substrate_error) result \<Rightarrow> string \<Rightarrow> string \<Rightarrow> string \<Rightarrow>
      u64 \<Rightarrow> unit action" where
  "roll_back pf now python saved what opn reason current =
     bind_act (tell_worker pf now python MSG_ABORT_MIGRATION what) (\<lambda>_.
     bind_act (ignore_act (emit_substrate_event pf (schema_migration_rolled_back_node_type opn)
         (encode_schema_migration_rolled_back opn reason current))) (\<lambda>_.
     bind_act (emit_legacy_evolution_event pf opn False reason) (\<lambda>_.
     bind_act forget_candidate (\<lambda>_. lift_act saved))))"

definition commit_migration ::
    "platform \<Rightarrow> (string \<Rightarrow> i64) \<Rightarrow> worker \<Rightarrow> (unit, substrate_error) result \<Rightarrow> candidate_state \<Rightarrow> u64 \<Rightarrow>
      unit action" where
  "commit_migration pf now python saved c current =
     bind_act (tell_worker pf now python MSG_COMMIT_MIGRATION
         (''commit_migration (op='' @ op_name c @ '') Python call failed: '')) (\<lambda>_.
     bind_act (ignore_act (emit_substrate_event pf (schema_migration_committed_node_type (op_name c))
         (encode_schema_migration_committed (op_name c) current (started_at_cycle c)
           (dual_validation_window_cycles c)))) (\<lambda>_.
     bind_act (emit_legacy_evolution_event pf (op_name c) True []) (\<lambda>_.
     bind_act forget_candidate (\<lambda>_. lift_act saved))))"

definition record_validation :: "platform \<Rightarrow> string \<Rightarrow> u64 \<Rightarrow> bool \<Rightarrow> string \<Rightarrow> unit action" where
  "record_validation pf opn current equivalent reason =
     ignore_act (emit_substrate_event pf (schema_migration_cycle_validated_node_type opn)
       (encode_schema_migration_cycle_validated opn current equivalent reason))"

definition CYCLE_VALIDATED_SAMPLE_EVERY :: u64 where
  "CYCLE_VALIDATED_SAMPLE_EVERY = 10"

definition validation_outcome :: "vmap \<Rightarrow> dual_validation_cycle" where
  "validation_outcome m =
     (if \<not> flag_field m ''candidate_active'' \<or> flag_field m ''candidate_diverged'' then Diverged else Equivalent)"

definition validate_cycle ::
    "platform \<Rightarrow> (string \<Rightarrow> i64) \<Rightarrow> worker \<Rightarrow> (unit, substrate_error) result \<Rightarrow> vmap \<Rightarrow> candidate_state \<Rightarrow>
      u64 \<Rightarrow> unit action" where
  "validate_cycle pf now python saved m c current =
     (let elapsed = sat_sub current (started_at_cycle c); outcome = validation_outcome m in
      case decide_cycle c current outcome of
        None \<Rightarrow>
          if 0 < elapsed \<and> elapsed mod CYCLE_VALIDATED_SAMPLE_EVERY = 0
          then record_validation pf (op_name c) current (outcome = Equivalent)
            (text_field m ''divergence_reason'' [])
          else return_act ()
      | Some DecideCommit \<Rightarrow>
          bind_act (record_validation pf (op_name c) current True [])
            (\<lambda>_. commit_migration pf now python saved c current)
      | Some (DecideRollback reason) \<Rightarrow>
          bind_act (record_validation pf (op_name c) current False reason)
            (\<lambda>_. roll_back pf now python saved
              (''abort_migration (op='' @ op_name c @ '') Python call failed: '') (op_name c) reason current))"

definition run_migration_step ::
    "platform \<Rightarrow> (string \<Rightarrow> i64) \<Rightarrow> worker \<Rightarrow> (unit, substrate_error) result \<Rightarrow> message \<Rightarrow> unit action" where
  "run_migration_step pf now python saved answer s =
     (case ss_migration_candidate s of
        None \<Rightarrow> return_act () s
      | Some c \<Rightarrow> validate_cycle pf now python saved (msg_payload answer) c (ss_cycle_counter s) s)"

definition force_migration_rollback ::
    "platform \<Rightarrow> (string \<Rightarrow> i64) \<Rightarrow> worker \<Rightarrow> (unit, substrate_error) result \<Rightarrow> string \<Rightarrow> string \<Rightarrow> unit action" where
  "force_migration_rollback pf now python saved opn reason s =
     (if ss_migration_candidate s = None then return_act () s
      else roll_back pf now python saved
        (''force_migration_rollback abort_migration (op='' @ opn @ '') failed: '') opn reason
        (ss_cycle_counter s) s)"

section \<open>The \<^verbatim>\<open>ADVANCE\<close> request\<close>

definition advance_refused :: substrate_error where
  "advance_refused = SubProtocol
     (''advance refused: substrate is alive::archived (bet-retired); metabolism halted '' @ em_dash @
      '' state_dir is cold-readable only'')"

definition bump_cycle :: "platform \<Rightarrow> unit action" where
  "bump_cycle pf s =
     (let prior = ss_cycle_counter s; new = sat_add prior 1 in
      ignore_act (emit_substrate_event pf NODE_TYPE_CYCLE_ADVANCED (encode_cycle_advanced prior new))
        (s\<lparr>ss_cycle_counter := new\<rparr>))"

definition dispatch_advance ::
    "platform \<Rightarrow> ('f \<Rightarrow> string) \<Rightarrow> (string \<Rightarrow> i64) \<Rightarrow> nat \<Rightarrow> 'f advance_call option \<Rightarrow> worker \<Rightarrow>
      (unit, substrate_error) result \<Rightarrow> message \<Rightarrow> message option action" where
  "dispatch_advance pf repr now elapsed_ms advance python saved request s0 =
     (if is_archived s0 then (s0, Err advance_refused)
      else bind_act (handle_advance pf repr now elapsed_ms advance request) (\<lambda>answer.
           bind_act (bump_cycle pf) (\<lambda>_.
           bind_act (case answer of
               Some m \<Rightarrow> ignore_act (run_migration_step pf now python saved m)
             | None \<Rightarrow> return_act ()) (\<lambda>_.
             return_act answer))) s0)"

end
