(* ===== verification/Absorption.thy ===== *)
theory Absorption
  imports Advance
begin

text \<open>
  What intake and cycles do to the log together: every raw material that a substrate takes in is
  recorded as absorbed by exactly one cycle, and the worker's answers, failed cycles, scans and
  signals between them cannot change that.
\<close>

section \<open>What the operations add to the log\<close>

lemma tombstone_insert:
  "emit_internal_mortality_event pf cat rule h nt reason repl cycle s =
    insert_act pf ''internal_mortality_event DAG insert''
      (if h \<in> set (tip_parents (ss_dag s)) then tip_parents (ss_dag s) else tip_parents (ss_dag s) @ [h])
      (internal_mortality_event_node_type cat) cycle
      (encode_internal_mortality_event cat rule h nt reason repl cycle) s"
  by (simp add: emit_internal_mortality_event_def insert_act_def split: prod.splits result.splits)

definition not_intake :: "string \<Rightarrow> bool" where
  "not_intake ty \<longleftrightarrow> \<not> starts_with ty ''raw_material:'' \<and> \<not> starts_with ty ''absorption_event:''"

text \<open>The types of the events that the worker's gradient is rebuilt from.\<close>

definition gradient_type :: "string \<Rightarrow> bool" where
  "gradient_type ty \<longleftrightarrow> starts_with ty NODE_TYPE_AXIS_REGISTERED_PREFIX \<or> starts_with ty NODE_TYPE_AXIS_PERTURBED_PREFIX \<or>
     starts_with ty ''perturb_from_raw:'' \<or> ty = NODE_TYPE_CYCLE_ADVANCED"

text \<open>Types that neither intake nor cycles nor changes of the gradient write, and what the operations below leave alone.\<close>

definition quiet :: "string \<Rightarrow> bool" where
  "quiet ty \<longleftrightarrow> not_intake ty \<and> \<not> gradient_type ty"

definition cycle_marks :: "server_state \<Rightarrow> u64 option \<times> u64" where
  "cycle_marks s = (ss_last_absorbed_cycle s, ss_pending_noop_cycles s)"

definition unrelated :: "platform \<Rightarrow> 'a action \<Rightarrow> bool" where
  "unrelated pf m \<longleftrightarrow> grows_by pf cycle_marks quiet m"

lemma ignores_log_absorbed [simp]: "ignores_log ss_last_absorbed_cycle" "ignores_log cycle_marks"
  by (simp_all add: ignores_log_def cycle_marks_def)

lemma quiet_extends: "extends pf cycle_marks quiet s s' \<Longrightarrow> extends pf ss_last_absorbed_cycle not_intake s s'"
  by (auto simp: extends_def quiet_def cycle_marks_def)

lemma not_intake_advanced: "not_intake NODE_TYPE_CYCLE_ADVANCED"
  by (simp add: not_intake_def starts_with_def NODE_TYPE_CYCLE_ADVANCED_def)

lemma quiet_types:
  "quiet (''immune:'' @ x)" "quiet (''sporocarp:'' @ x)" "quiet (''self_euthanasia_proposal:'' @ x)"
  "quiet (internal_mortality_event_node_type x)" "quiet (FORGED_UNDERSTANDING_NODE_TYPE_PREFIX @ x)"
  "quiet (schema_migration_cycle_validated_node_type x)"
  "quiet (schema_migration_committed_node_type x)" "quiet (schema_migration_rolled_back_node_type x)"
  "quiet ((if b then ''evolution_succeeded:'' else ''evolution_failed:'') @ x)"
  "quiet NODE_TYPE_CULTIVAR_INITIATED_INGESTION_REQUEST"
  by (simp_all add: quiet_def gradient_type_def not_intake_def starts_with_def NODE_TYPE_AXIS_REGISTERED_PREFIX_def
      NODE_TYPE_AXIS_PERTURBED_PREFIX_def internal_mortality_event_node_type_def
      NODE_TYPE_INTERNAL_MORTALITY_EVENT_PREFIX_def FORGED_UNDERSTANDING_NODE_TYPE_PREFIX_def
      schema_migration_cycle_validated_node_type_def NODE_TYPE_SCHEMA_MIGRATION_CYCLE_VALIDATED_PREFIX_def
      schema_migration_committed_node_type_def NODE_TYPE_SCHEMA_MIGRATION_COMMITTED_PREFIX_def
      schema_migration_rolled_back_node_type_def NODE_TYPE_SCHEMA_MIGRATION_ROLLED_BACK_PREFIX_def
      NODE_TYPE_CYCLE_ADVANCED_def NODE_TYPE_CULTIVAR_INITIATED_INGESTION_REQUEST_def)

lemma not_family_types:
  "\<not> is_cultivation_family_node_type (''sporocarp:'' @ x)"
  "\<not> is_cultivation_family_node_type (''self_euthanasia_proposal:'' @ x)"
  "\<not> is_cultivation_family_node_type (internal_mortality_event_node_type x)"
  "\<not> is_cultivation_family_node_type (FORGED_UNDERSTANDING_NODE_TYPE_PREFIX @ x)"
  "\<not> is_cultivation_family_node_type (''perturb_from_raw:'' @ x)"
  "\<not> is_cultivation_family_node_type (''raw_material:'' @ x)"
  "\<not> is_cultivation_family_node_type (''absorption_event:cycle_'' @ x)"
  by (simp_all add: is_cultivation_family_node_type_def starts_with_def NODE_TYPE_BET_RETIRED_PREFIX_def
      NODE_TYPE_CULTIVATION_RECOVERED_PREFIX_def NODE_TYPE_CULTIVATION_ORPHANED_PREFIX_def
      NODE_TYPE_SUCCESSION_COMPLETED_PREFIX_def internal_mortality_event_node_type_def
      NODE_TYPE_INTERNAL_MORTALITY_EVENT_PREFIX_def FORGED_UNDERSTANDING_NODE_TYPE_PREFIX_def)

lemma unrelated_tombstone: "unrelated pf (emit_internal_mortality_event pf cat rule h nt reason repl cycle)"
  unfolding unrelated_def ext [OF tombstone_insert, abs_def]
  by (rule grows_insert) (auto simp: quiet_types not_family_types)

lemma unrelated_tombstones: "unrelated pf (emit_tombstones pf r cycle cs)"
proof (induction cs)
  case (Cons c cs)
  then show ?case
    using unrelated_tombstone unfolding unrelated_def emit_tombstones.simps by (intro grows_intros) auto
qed (simp add: unrelated_def grows_return)

lemma unrelated_rules: "unrelated pf (run_rules pf ctx cycle rs report)"
proof (induction rs arbitrary: report)
  case (Cons r rs)
  then show ?case
    using unrelated_tombstones unfolding unrelated_def run_rules.simps by (intro grows_intros) auto
qed (simp add: unrelated_def grows_return)

lemma unrelated_scan: "unrelated pf (run_prune_scan pf rules cycle)"
  using unrelated_rules unfolding unrelated_def run_prune_scan_def by (intro grows_intros) auto

lemma unrelated_signal:
  "unrelated pf (emit_immune_sporocarp pf now det name ev)"
  "unrelated pf (ignore_act (emit_immune_sporocarp pf now det name ev))"
  "unrelated pf (step_failed_signal pf now1 ev1)"
  unfolding unrelated_def step_failed_signal_def
  by (intro grows_intros ignores_log_absorbed quiet_types)+

lemma unrelated_event:
  "quiet ty \<Longrightarrow> unrelated pf (emit_substrate_event pf ty c)"
  "quiet ty \<Longrightarrow> unrelated pf (ignore_act (emit_substrate_event pf ty c))"
  unfolding unrelated_def by (intro grows_intros ignores_log_absorbed, assumption)+

lemma unrelated_modify:
  "(\<And>s. ss_last_absorbed_cycle (f s) = ss_last_absorbed_cycle s) \<Longrightarrow>
    (\<And>s. ss_pending_noop_cycles (f s) = ss_pending_noop_cycles s) \<Longrightarrow> (\<And>s. ss_dag (f s) = ss_dag s) \<Longrightarrow>
    (\<And>s. ss_cultivation_state (f s) = ss_cultivation_state s) \<Longrightarrow>
    (\<And>s. ss_cycle_counter (f s) = ss_cycle_counter s) \<Longrightarrow> unrelated pf (modify_act f)"
  unfolding unrelated_def by (rule grows_modify) (simp_all add: cycle_marks_def)

text \<open>How the combinators carry it.\<close>

lemma unrelated_combine:
  "unrelated pf (return_act a)" "unrelated pf (lift_act r)"
  "unrelated pf m \<Longrightarrow> unrelated pf (tried_act m)" "unrelated pf m \<Longrightarrow> unrelated pf (ignore_act m)"
  "unrelated pf m \<Longrightarrow> (\<And>a. unrelated pf (f a)) \<Longrightarrow> unrelated pf (bind_act m f)"
  "unrelated pf m \<Longrightarrow> unrelated pf m2 \<Longrightarrow> unrelated pf (if b then m else m2)"
  "unrelated pf m \<Longrightarrow> (\<And>e. unrelated pf (g e)) \<Longrightarrow> unrelated pf (or_else_act m g)"
  unfolding unrelated_def by (simp_all add: grows_intros)

lemma unrelated_state: "(\<And>s. \<exists>m. m s = a s \<and> unrelated pf m) \<Longrightarrow> unrelated pf a"
  unfolding unrelated_def by (rule grows_cong) blast

lemmas unrelated_intros = unrelated_combine unrelated_signal unrelated_event unrelated_scan quiet_types

lemma unrelated_hunger: "unrelated pf (apply_hunger_and_emit pf now post)"
proof -
  have ask: "unrelated pf (ask_for_food pf post since ever_fed)" for since ever_fed
  proof (rule unrelated_state)
    fix s
    show "\<exists>m. m s = ask_for_food pf post since ever_fed s \<and> unrelated pf m"
      unfolding ask_for_food_def
      by (split if_split) (auto intro!: exI unrelated_intros unrelated_modify simp del: fun_upd_apply)
  qed
  have signal: "unrelated pf (signal_starvation pf now post since ever_fed)" for since ever_fed
  proof (rule unrelated_state)
    fix s
    show "\<exists>m. m s = signal_starvation pf now post since ever_fed s \<and> unrelated pf m"
      unfolding signal_starvation_def
      by (split if_split) (auto intro!: exI unrelated_intros unrelated_modify simp del: fun_upd_apply)
  qed
  show ?thesis
  proof (rule unrelated_state)
    fix s
    show "\<exists>m. m s = apply_hunger_and_emit pf now post s \<and> unrelated pf m"
      unfolding apply_hunger_and_emit_def
      by (cases "cycles_since_last_ingestion s post") (auto intro!: exI unrelated_combine ask signal)
  qed
qed

lemma unrelated_hoarding: "unrelated pf (hoarding_step pf now post)"
proof (rule unrelated_state)
  fix s
  let ?w = "sat_sub post HOARDING_INDICATOR_WINDOW_CYCLES"
  let ?m = "bind_act (ignore_act (emit_immune_sporocarp pf (now ''C54_hoarding_indicator'') ''C54_hoarding_indicator''
      ''hoarding_indicator'' (hoarding_evidence post (count_raw_material_since s ?w)
        (count_internal_mortality_events_since s ?w))))
    (\<lambda>_. modify_act (\<lambda>s. s\<lparr>ss_last_hoarding := Some post\<rparr>))"
  have "unrelated pf ?m"
    by (intro unrelated_intros unrelated_modify) simp_all
  moreover have "unrelated pf (return_act ())"
    by (rule unrelated_intros)
  ultimately show "\<exists>m. m s = hoarding_step pf now post s \<and> unrelated pf m"
    unfolding hoarding_step_def Let_def by (auto split: if_split)
qed

lemma unrelated_prune_step: "unrelated pf (prune_step pf now post)"
  unfolding prune_step_def by (intro unrelated_intros unrelated_hoarding)

lemma unrelated_backlog: "unrelated pf (backlog_step pf now elapsed_ms)"
proof -
  have "unrelated pf (\<lambda>s. if is_backlogged (ss_cycle_engine s)
      then ignore_act (emit_immune_sporocarp pf (now ''C36_cycle_backlog'') ''C36_cycle_backlog''
        ''cycle_backlog'' (backlog_evidence s elapsed_ms)) s
      else return_act () s)"
  proof (rule unrelated_state)
    fix s
    show "\<exists>m. m s = (if is_backlogged (ss_cycle_engine s)
        then ignore_act (emit_immune_sporocarp pf (now ''C36_cycle_backlog'') ''C36_cycle_backlog''
          ''cycle_backlog'' (backlog_evidence s elapsed_ms)) s
        else return_act () s) \<and> unrelated pf m"
    proof (cases "is_backlogged (ss_cycle_engine s)")
      case False
      then show ?thesis
        by (intro exI [of _ "return_act ()"]) (simp add: unrelated_combine)
    qed (use unrelated_signal(2) in auto)
  qed
  then show ?thesis
    unfolding backlog_step_def by (intro unrelated_combine unrelated_modify) simp_all
qed

lemma unrelated_migration: "unrelated pf (run_migration_step pf now python saved answer)"
proof -
  have tell: "unrelated pf (tell_worker pf now python ty what)" for ty what
    unfolding tell_worker_def by (cases "send_migration_terminal python ty") (simp_all add: unrelated_intros)
  have legacy: "unrelated pf (emit_legacy_evolution_event pf opn ok reason)" for opn ok reason
    unfolding emit_legacy_evolution_event_def by (intro unrelated_intros)
  have forget: "unrelated pf forget_candidate"
    unfolding forget_candidate_def by (rule unrelated_modify) simp_all
  have validation: "unrelated pf (record_validation pf opn current b reason)" for opn current b reason
    unfolding record_validation_def by (intro unrelated_intros)
  have commit: "unrelated pf (commit_migration pf now python saved c current)" for c current
    unfolding commit_migration_def by (intro unrelated_intros tell legacy forget)
  have rollback: "unrelated pf (roll_back pf now python saved what opn reason current)" for what opn reason current
    unfolding roll_back_def by (intro unrelated_intros tell legacy forget)
  have cycle: "unrelated pf (validate_cycle pf now python saved m c current)" for m c current
    unfolding validate_cycle_def Let_def
    by (auto intro!: unrelated_combine validation commit rollback split: option.splits commit_decision.splits)
  show ?thesis
  proof (rule unrelated_state)
    fix s
    show "\<exists>m. m s = run_migration_step pf now python saved answer s \<and> unrelated pf m"
    proof (cases "ss_migration_candidate s")
      case None
      then show ?thesis
        by (intro exI [of _ "return_act ()"]) (simp add: run_migration_step_def unrelated_combine)
    next
      case (Some c)
      then show ?thesis
        by (intro exI [of _ "validate_cycle pf now python saved (msg_payload answer) c (ss_cycle_counter s)"])
          (simp add: run_migration_step_def cycle)
    qed
  qed
qed

text \<open>A proposal's only parent is the sporocarp just inserted, which is the tip.\<close>

lemma unrelated_proposal:
  assumes inv: "server_inv pf s" and tip: "tip (ss_dag s) = Some h"
  shows "extends pf cycle_marks quiet s (fst (propose_euthanasia pf repr sp h s))"
proof (cases "sr_type sp = ''mortality_signal_threshold_crossed''")
  case True
  let ?c = "event_bytes [(''axis_name'', VString (sr_axis_name sp)),
      (''fruiting_value_repr'', VString (repr (sr_fruiting_value sp))), (''at_cycle'', VUint (sr_at_cycle sp)),
      (''triggering_sporocarp_hash'', VBytes (arr32_bytes h)), (''reason'', VString (mortality_reason repr sp))]"
  have ps: "set (tip_parents (ss_dag s)) \<subseteq> set [h]"
    by (simp add: tip_parents_def tip)
  have "extends pf cycle_marks quiet s
      (fst (insert_act pf ''self_euthanasia_proposal DAG insert'' [h]
        (''self_euthanasia_proposal:'' @ sr_axis_name sp) (sr_at_cycle sp) ?c s))"
    using inv ps not_family_types(2)
    by (rule extends_insert) (rule ignores_log_absorbed quiet_types)+
  then show ?thesis
    using True by (simp add: propose_euthanasia_def fst_bind_return)
qed (use inv in \<open>simp add: propose_euthanasia_def return_act_def extends_refl\<close>)

lemma unrelated_sporocarps: "unrelated pf (insert_sporocarps pf repr sps)"
proof (induction sps)
  case (Cons sp sps)
  let ?one = "\<lambda>s. insert_act pf ''dag insert'' (tip_parents (ss_dag s)) (''sporocarp:'' @ sr_type sp)
      (sr_at_cycle sp) (sr_canonical_bytes sp) s"
  let ?pair = "bind_act ?one (\<lambda>h. bind_act (propose_euthanasia pf repr sp h) (\<lambda>ps. return_act (h, ps)))"
  have "unrelated pf ?pair"
    unfolding unrelated_def grows_by_def
  proof (intro allI impI)
    fix s
    assume inv: "server_inv pf s"
    from inv order.refl not_family_types(1) [of "sr_type sp"]
    show "extends pf cycle_marks quiet s (fst (?pair s))"
    proof (cases rule: insert_act_cases [where what = "''dag insert''" and cyc = "sr_at_cycle sp" and c = "sr_canonical_bytes sp"])
      case (failed e)
      then show ?thesis
        using inv by (simp add: bind_act_def extends_refl)
    next
      case (logged s' n)
      have "extends pf cycle_marks quiet s s'"
        using extends_insert [where T = quiet, OF inv order.refl not_family_types(1) ignores_log_absorbed(2)
            quiet_types(2), of "''dag insert''" "sr_type sp" "sr_at_cycle sp" "sr_canonical_bytes sp"]
          logged(1) by simp
      moreover have "extends pf cycle_marks quiet s' (fst (propose_euthanasia pf repr sp (node_hash n) s'))"
        using logged(3,6) by (rule unrelated_proposal)
      ultimately show ?thesis
        unfolding run_then [of ?one, OF logged(1) HOL.refl] fst_bind_return by (rule extends_trans)
    qed
  qed
  then have "unrelated pf (bind_act ?pair (\<lambda>(h, ps). bind_act (insert_sporocarps pf repr sps)
      (\<lambda>(hs, qs). return_act (h # hs, ps @ qs))))"
    using Cons by (auto intro!: unrelated_combine split: prod.splits)
  then show ?case
    by (simp add: bind_act_assoc bind_act_return)
qed (simp add: unrelated_combine)

lemma unrelated_forge: "unrelated pf (handle_deposit_forged_understanding pf request)"
  unfolding unrelated_def grows_by_def
proof (intro allI impI)
  fix s
  assume inv: "server_inv pf s"
  show "extends pf cycle_marks quiet s (fst (handle_deposit_forged_understanding pf request s))"
  proof (cases "read_plate (ss_dag s) request")
    case (Ok p)
    have "set (tip_parents (ss_dag s)) \<subseteq> set (push_parents (plate_sources p) (tip_parents (ss_dag s)))"
      by simp
    from extends_insert [where T = quiet, OF inv this not_family_types(4) ignores_log_absorbed(2) quiet_types(5)]
    show ?thesis
      by (simp add: handle_deposit_forged_understanding_def Ok fst_bind_respond)
  qed (use inv in \<open>simp_all add: handle_deposit_forged_understanding_def extends_refl\<close>)
qed

section \<open>Absorptions in the log\<close>

text \<open>The hashes that an absorption event lists, and how many times the log lists one.\<close>

definition absorbed_hashes :: "dag_node \<Rightarrow> bytes list" where
  "absorbed_hashes n =
     (case decode (content n) of
        Ok (VMap m) \<Rightarrow>
          (case bt_get m ''absorbed_hashes'' of
             Some (VArray vs) \<Rightarrow> List.map_filter (\<lambda>v. case v of VBytes b \<Rightarrow> Some b | _ \<Rightarrow> None) vs
           | _ \<Rightarrow> [])
      | _ \<Rightarrow> [])"

definition is_absorption :: "dag_node \<Rightarrow> bool" where
  "is_absorption n \<longleftrightarrow> starts_with (node_type n) ''absorption_event:''"

definition absorptions :: "dag_node list \<Rightarrow> arr32 \<Rightarrow> nat" where
  "absorptions ns h = sum_list (map (\<lambda>n. count_list (absorbed_hashes n) (arr32_bytes h)) (filter is_absorption ns))"

definition times_absorbed :: "server_state \<Rightarrow> arr32 \<Rightarrow> nat" where
  "times_absorbed s = absorptions (iter_in_insertion_order (ss_dag s))"

definition already_absorbed :: "server_state \<Rightarrow> dag_node \<Rightarrow> bool" where
  "already_absorbed s n \<longleftrightarrow> (case ss_last_absorbed_cycle s of Some c \<Rightarrow> created_at_cycle n \<le> c | None \<Rightarrow> False)"

definition absorption_ok :: "platform \<Rightarrow> server_state \<Rightarrow> bool" where
  "absorption_ok pf s \<longleftrightarrow> server_inv pf s \<and>
     (\<forall>n\<in>set (iter_in_insertion_order (ss_dag s)). is_raw n \<longrightarrow> created_at_cycle n \<le> ss_cycle_counter s) \<and>
     (\<forall>c. ss_last_absorbed_cycle s = Some c \<longrightarrow> c \<le> ss_cycle_counter s) \<and>
     (\<forall>n\<in>set (iter_in_insertion_order (ss_dag s)). is_raw n \<longrightarrow>
        times_absorbed s (node_hash n) = (if already_absorbed s n then 1 else 0)) \<and>
     (\<forall>h. h \<notin> node_hash ` set (iter_in_insertion_order (ss_dag s)) \<longrightarrow> times_absorbed s h = 0)"

lemma absorptions_append [simp]: "absorptions (ms @ ns) h = absorptions ms h + absorptions ns h"
  by (simp add: absorptions_def)

lemma absorptions_none: "\<forall>n\<in>set ns. not_intake (node_type n) \<Longrightarrow> absorptions ns h = 0"
  by (induction ns) (auto simp: absorptions_def is_absorption_def not_intake_def)

lemma absorption_ok_extends:
  assumes ok: "absorption_ok pf s" and e: "extends pf ss_last_absorbed_cycle not_intake s s'"
  shows "absorption_ok pf s'"
proof -
  obtain ns where ns: "iter_in_insertion_order (ss_dag s') = iter_in_insertion_order (ss_dag s) @ ns"
      "\<forall>n\<in>set ns. not_intake (node_type n)"
    and same: "ss_last_absorbed_cycle s' = ss_last_absorbed_cycle s" "ss_cycle_counter s' = ss_cycle_counter s"
      "server_inv pf s'"
    using e by (auto simp: extends_def)
  have "times_absorbed s' = times_absorbed s"
    by (rule ext) (simp add: times_absorbed_def ns(1) absorptions_none [OF ns(2)])
  moreover have "\<forall>n\<in>set ns. \<not> is_raw n"
    using ns(2) by (simp add: is_raw_def not_intake_def)
  moreover have "already_absorbed s' = already_absorbed s"
    by (rule ext) (simp add: already_absorbed_def same(1))
  ultimately show ?thesis
    using ok same unfolding absorption_ok_def ns(1) by auto
qed

lemma pending_extends:
  assumes "extends pf ss_last_absorbed_cycle not_intake s s'"
  shows "pending_absorption s' = pending_absorption s"
proof -
  obtain ns where ns: "iter_in_insertion_order (ss_dag s') = iter_in_insertion_order (ss_dag s) @ ns"
      "\<forall>n\<in>set ns. not_intake (node_type n)" "ss_last_absorbed_cycle s' = ss_last_absorbed_cycle s"
    using assms by (auto simp: extends_def)
  then have "filter is_raw ns = []"
    by (simp add: filter_empty_conv is_raw_def not_intake_def)
  then show ?thesis
    by (simp add: pending_absorption_def ns)
qed

section \<open>Intake\<close>

lemma ingest_ok:
  assumes ok: "absorption_ok pf s" and before: "\<forall>c. ss_last_absorbed_cycle s = Some c \<longrightarrow> c < ss_cycle_counter s"
    and run: "handle_ingest_raw_material pf order request s = (s', r)"
  shows "absorption_ok pf s' \<and> ss_last_absorbed_cycle s' = ss_last_absorbed_cycle s \<and>
    ss_cycle_counter s' = ss_cycle_counter s"
proof (cases "refuses_intake s \<or> (\<forall>kb. read_intake request \<noteq> Ok kb)")
  case True
  then have "s' = s"
    using run by (cases "read_intake request")
      (auto simp: handle_ingest_raw_material_def split: if_splits)
  then show ?thesis
    using ok by simp
next
  case False
  then obtain kind bs where read: "\<not> refuses_intake s" "read_intake request = Ok (kind, bs)"
    by auto
  let ?c = "event_bytes (intake_fields request kind bs)"
  have inv: "server_inv pf s"
    using ok by (simp add: absorption_ok_def)
  have answer: "handle_ingest_raw_material pf order request s =
      bind_act (insert_act pf ''raw_material DAG insert'' (tip_parents (ss_dag s)) (''raw_material:'' @ kind)
        (ss_cycle_counter s) ?c) (\<lambda>h s. (s, Ok (deposited MSG_INGEST_RAW_MATERIAL_RESPONSE request h s))) s"
    unfolding handle_ingest_raw_material_def read(2) using read(1) by simp
  from inv order.refl not_family_types(6) [of kind] show ?thesis
  proof (cases rule: insert_act_cases [where what = "''raw_material DAG insert''" and cyc = "ss_cycle_counter s" and c = ?c])
    case (failed e)
    then have "s' = s"
      using run unfolding answer bind_act_def failed by simp
    then show ?thesis
      using ok by simp
  next
    case (logged s1 n)
    have s1: "s' = s1"
      using run unfolding answer bind_act_def logged(1) by simp
    have raw: "is_raw n" "\<not> is_absorption n" "created_at_cycle n = ss_cycle_counter s"
      by (simp_all add: logged(2) node_over_def is_raw_def is_absorption_def starts_with_def)
    have fresh: "node_hash n \<notin> node_hash ` set (iter_in_insertion_order (ss_dag s))"
      using logged(7) inv iter_hashes [of "pf_hash pf" "ss_dag s"] unfolding server_inv_def dag_get_None_iff
      by (metis list.set_map)
    have same: "ss_last_absorbed_cycle s' = ss_last_absorbed_cycle s" "ss_cycle_counter s' = ss_cycle_counter s"
      unfolding s1 by (subst logged(4), simp)+
    have "times_absorbed s' = times_absorbed s"
      by (rule ext) (simp add: times_absorbed_def s1 logged(5), simp add: absorptions_def raw)
    moreover have "already_absorbed s' = already_absorbed s" "\<not> already_absorbed s n"
      using before raw(3) by (auto simp: already_absorbed_def same split: option.splits)
    moreover have "times_absorbed s (node_hash n) = 0"
      using ok fresh by (simp add: absorption_ok_def)
    ultimately show ?thesis
      using ok logged(3) raw same unfolding absorption_ok_def by (auto simp: s1 [symmetric] logged(5) [folded s1])
  qed
qed

section \<open>Absorption\<close>

lemma fold_max_le: "fold max xs a \<le> b \<longleftrightarrow> a \<le> b \<and> (\<forall>x\<in>set xs. x \<le> b)"
  for a b :: u64
  by (induction xs arbitrary: a) auto

lemma absorbed_hashes_event:
  assumes "content n = event_bytes (absorption_fields post hs)" and "length hs < 2 ^ 32"
  shows "absorbed_hashes n = map arr32_bytes hs"
proof -
  have "sum_list (map (\<lambda>_. 43) hs) = 43 * length hs"
    by (simp add: sum_list_triv)
  then have "event_ok (absorption_fields post hs)"
    by (intro event_okI) (use assms in \<open>simp_all add: absorption_fields_def hash_values_def list_all_iff comp_def\<close>)
  then show ?thesis
    using assms(1) by (simp add: absorbed_hashes_def decode_event absorption_fields_def hash_values_def
        bt_get_of List.map_filter_def comp_def)
qed

lemma pending_nodes:
  "pending_absorption s = map node_hash (filter (\<lambda>n. is_raw n \<and> \<not> already_absorbed s n)
    (iter_in_insertion_order (ss_dag s)))"
  by (auto simp: pending_absorption_def already_absorbed_def filter_map comp_def not_le conj_commute
      intro!: filter_cong split: option.split)

lemma count_list_distinct: "distinct xs \<Longrightarrow> count_list xs x = (if x \<in> set xs then 1 else 0)"
  by (induction xs) auto

lemma count_list_bytes: "count_list (map arr32_bytes hs) (arr32_bytes h) = count_list hs h"
  by (induction hs) auto

lemma iter_lookup:
  assumes "dag_inv H d" and "n \<in> set (iter_in_insertion_order d)"
  shows "dag_get d (node_hash n) = Some n"
proof -
  have "map (\<lambda>kn. node_hash (snd kn)) (nodes d) = map fst (nodes d)"
    using iter_hashes [OF assms(1)] iter_nodes [OF assms(1)] by (simp add: comp_def)
  then have "\<forall>kn\<in>set (nodes d). node_hash (snd kn) = fst kn"
    by (simp only: map_eq_conv)
  then show ?thesis
    using assms iter_nodes [OF assms(1)] dag_get_Some_iff [OF assms(1)] by force
qed

lemma latest_of_nodes:
  assumes "dag_inv H d" and "set ns \<subseteq> set (iter_in_insertion_order d)"
  shows "latest_of d (map node_hash ns) = fold max (map created_at_cycle ns) 0"
proof -
  have "List.map_filter (dag_get d) (map node_hash ns) = ns"
    using assms(2) iter_lookup [OF assms(1)]
    by (induction ns) (auto simp: List.map_filter_simps)
  then show ?thesis
    by (simp add: latest_of_def)
qed

text \<open>An absorption either fails and changes nothing, or leaves nothing to absorb.\<close>

lemma absorb_ok:
  assumes ok: "absorption_ok pf s" and small: "length (pending_absorption s) < 2 ^ 32"
    and run: "absorb_raw pf post (pending_absorption s) s = (s', r)"
  obtains (failed) e where "r = Err e" "s' = s"
  | (absorbed) a where "r = Ok a" "absorption_ok pf s'" "ss_cycle_counter s' = ss_cycle_counter s"
      "\<forall>n\<in>set (iter_in_insertion_order (ss_dag s')). is_raw n \<longrightarrow> already_absorbed s' n"
proof -
  let ?ns = "iter_in_insertion_order (ss_dag s)"
  let ?P = "filter (\<lambda>n. is_raw n \<and> \<not> already_absorbed s n) ?ns"
  let ?hs = "pending_absorption s"
  have inv: "server_inv pf s" "dag_inv (pf_hash pf) (ss_dag s)"
    using ok by (simp_all add: absorption_ok_def server_inv_def)
  show thesis
  proof (cases "?hs = []")
    case True
    then have "s' = s" "r = Ok None"
      using run by (simp_all add: absorb_raw_def return_act_def)
    moreover have "\<forall>n\<in>set ?ns. is_raw n \<longrightarrow> already_absorbed s n"
      using True by (auto simp: pending_nodes filter_empty_conv)
    ultimately show ?thesis
      using absorbed ok by simp
  next
    case False
    let ?ps = "push_parents ?hs (tip_parents (ss_dag s))"
    let ?ty = "''absorption_event:cycle_'' @ u64_str post"
    let ?c = "event_bytes (absorption_fields post ?hs)"
    let ?last = "latest_of (ss_dag s) ?hs"
    have run1: "bind_act (insert_act pf ''absorption_event DAG insert'' ?ps ?ty post ?c)
        (\<lambda>h. bind_act (modify_act (\<lambda>s1. s1\<lparr>ss_last_absorbed_cycle := Some ?last\<rparr>)) (\<lambda>_. return_act (Some h))) s = (s', r)"
      using run False by (simp only: absorb_raw_def if_False)
    have "set (tip_parents (ss_dag s)) \<subseteq> set ?ps"
      by simp
    from inv(1) this not_family_types(7) [of "u64_str post"] show ?thesis
    proof (cases rule: insert_act_cases [where what = "''absorption_event DAG insert''" and cyc = post and c = ?c])
      case (failed e)
      then have "r = Err e" "s' = s"
        using run1 unfolding bind_act_def failed by simp_all
      then show ?thesis
        by (rule that(1))
    next
      case (logged s1 n)
      have r: "r = Ok (Some (node_hash n))" and s': "s' = s1\<lparr>ss_last_absorbed_cycle := Some ?last\<rparr>"
        using run1 unfolding bind_act_def logged(1) by (simp_all add: modify_act_def return_act_def)
      have log: "iter_in_insertion_order (ss_dag s') = ?ns @ [n]"
        by (simp add: s' logged(5))
      have counter: "ss_cycle_counter s' = ss_cycle_counter s"
        unfolding s' by (subst logged(4)) simp
      have latest: "?last = fold max (map created_at_cycle ?P) 0"
        unfolding pending_nodes by (rule latest_of_nodes [OF inv(2)]) auto
      have le: "created_at_cycle m \<le> ?last" if "m \<in> set ?P" for m
        using fold_max_le [of "map created_at_cycle ?P" 0 ?last] that by (simp add: latest)
      have old: "created_at_cycle m \<le> ?last" if "already_absorbed s m" for m
      proof -
        obtain p where p: "p \<in> set ?P"
          using False by (cases ?P) (auto simp: pending_nodes)
        then have "created_at_cycle m < created_at_cycle p"
          using that by (auto simp: already_absorbed_def split: option.splits)
        then show ?thesis
          using le [OF p] by simp
      qed
      have all: "already_absorbed s' m" if "m \<in> set ?ns" "is_raw m" for m
      proof -
        have "created_at_cycle m \<le> ?last"
          using le [of m] old [of m] that by (cases "already_absorbed s m") simp_all
        then show ?thesis
          by (simp add: already_absorbed_def s')
      qed
      have bound: "?last \<le> ss_cycle_counter s"
        unfolding latest fold_max_le using ok by (auto simp: absorption_ok_def)
      have node: "\<not> is_raw n" "is_absorption n" "content n = ?c"
        by (simp_all add: logged(2) node_over_def is_raw_def is_absorption_def starts_with_def)
      have hs: "absorbed_hashes n = map arr32_bytes ?hs"
        by (rule absorbed_hashes_event [OF node(3) small])
      have distinct: "distinct (map node_hash ?ns)"
        using iter_distinct [OF inv(2)] .
      then have d: "distinct ?hs"
        by (simp add: pending_nodes distinct_map_filter)
      have times: "times_absorbed s' h = times_absorbed s h + (if h \<in> set ?hs then 1 else 0)" for h
        by (simp add: times_absorbed_def log)
          (simp add: absorptions_def node hs count_list_bytes count_list_distinct [OF d])
      have pending: "node_hash m \<in> set ?hs \<longleftrightarrow> \<not> already_absorbed s m" if "m \<in> set ?ns" "is_raw m" for m
        using that distinct by (auto simp: pending_nodes distinct_map inj_on_def)
      have known: "set ?hs \<subseteq> node_hash ` set ?ns"
        by (auto simp: pending_nodes)
      have "times_absorbed s' (node_hash m) = 1" if "m \<in> set ?ns" "is_raw m" for m
        using ok that pending [OF that] by (simp add: times absorption_ok_def)
      then have "absorption_ok pf s'"
        unfolding absorption_ok_def log counter
        using ok logged(3) node(1) bound all known
        by (auto simp: s' absorption_ok_def server_inv_def times [unfolded s'])
      then show ?thesis
        using absorbed [of "Some (node_hash n)"] r counter all node(1) log by auto
    qed
  qed
qed

section \<open>A cycle\<close>

text \<open>Actions that may panic but never answer with an error.\<close>

definition never_errs :: "'a action \<Rightarrow> bool" where
  "never_errs m \<longleftrightarrow> (\<forall>s e. snd (m s) \<noteq> Err e)"

lemma never_errs_combine:
  "never_errs (return_act a)" "never_errs (modify_act g)" "never_errs (ignore_act m')" "never_errs (tried_act m')"
  "never_errs m \<Longrightarrow> (\<And>a. never_errs (f a)) \<Longrightarrow> never_errs (bind_act m f)"
  "never_errs m \<Longrightarrow> never_errs m2 \<Longrightarrow> never_errs (if b then m else m2)"
  "(\<And>e. never_errs (h e)) \<Longrightarrow> never_errs (or_else_act m' h)"
  by (auto simp: never_errs_def return_act_def modify_act_def ignore_act_def tried_act_def bind_act_def
      or_else_act_def split: prod.splits result.splits) (metis snd_conv)

lemma never_errs_noted [simp]:
  "snd (bind_act (ignore_act m) (\<lambda>_. modify_act g) s) \<noteq> Err e"
  "snd (bind_act (tried_act m) (\<lambda>ok. if ok then modify_act g else return_act ()) s) \<noteq> Err e"
  by (simp_all add: bind_act_def ignore_act_def tried_act_def modify_act_def return_act_def
      split: prod.splits result.splits)

lemma never_errs_hoarding: "never_errs (hoarding_step pf now post)"
  unfolding hoarding_step_def Let_def never_errs_def by (simp add: return_act_def)

lemma never_errs_prune: "never_errs (prune_step pf now post)"
  unfolding prune_step_def step_failed_signal_def by (intro never_errs_combine never_errs_hoarding)

lemma never_errs_backlog: "never_errs (backlog_step pf now elapsed_ms)"
  unfolding backlog_step_def
  by (intro never_errs_combine) (auto simp: never_errs_def ignore_act_def return_act_def split: prod.splits result.splits)

lemma never_errs_hunger: "never_errs (apply_hunger_and_emit pf now post)"
proof -
  have ask: "never_errs (ask_for_food pf post since ever_fed)" for since ever_fed
    unfolding ask_for_food_def never_errs_def by (simp add: return_act_def)
  have signal: "never_errs (signal_starvation pf now post since ever_fed)" for since ever_fed
    unfolding signal_starvation_def never_errs_def by (simp add: return_act_def)
  have "never_errs (bind_act (ask_for_food pf post since ever_fed)
      (\<lambda>_. signal_starvation pf now post since ever_fed))" for since ever_fed
    by (rule never_errs_combine(5) [OF ask signal])
  then show ?thesis
    unfolding apply_hunger_and_emit_def never_errs_def by (simp split: prod.split)
qed

text \<open>How a cycle leaves the absorptions: settled when it answers, untouched when it fails.\<close>

definition cycled :: "platform \<Rightarrow> server_state \<Rightarrow> server_state \<times> ('a, substrate_error) result \<Rightarrow> bool" where
  "cycled pf s out \<longleftrightarrow> absorption_ok pf (fst out) \<and> ss_cycle_counter (fst out) = ss_cycle_counter s \<and>
     (case snd out of
        Ok _ \<Rightarrow> \<forall>n\<in>set (iter_in_insertion_order (ss_dag (fst out))). is_raw n \<longrightarrow> already_absorbed (fst out) n
      | Err _ \<Rightarrow> ss_last_absorbed_cycle (fst out) = ss_last_absorbed_cycle s
      | Abort _ \<Rightarrow> True)"

lemma absorbed_extends:
  assumes "extends pf ss_last_absorbed_cycle not_intake s s'"
    and "\<forall>n\<in>set (iter_in_insertion_order (ss_dag s)). is_raw n \<longrightarrow> already_absorbed s n"
  shows "\<forall>n\<in>set (iter_in_insertion_order (ss_dag s')). is_raw n \<longrightarrow> already_absorbed s' n"
  using assms by (auto simp: extends_def already_absorbed_def is_raw_def not_intake_def)

lemma cycled_rest:
  assumes u: "unrelated pf m" and e: "never_errs m" and ok: "absorption_ok pf s1"
    and same: "ss_cycle_counter s1 = ss_cycle_counter s"
    and all: "\<forall>n\<in>set (iter_in_insertion_order (ss_dag s1)). is_raw n \<longrightarrow> already_absorbed s1 n"
  shows "cycled pf s (m s1)"
proof -
  obtain s2 r where ms: "m s1 = (s2, r)"
    by (cases "m s1")
  have "extends pf ss_last_absorbed_cycle not_intake s1 s2"
    using u ok ms by (auto simp: unrelated_def absorption_ok_def intro: quiet_extends grows_byD)
  then show ?thesis
    using absorption_ok_extends [OF ok] absorbed_extends [OF _ all] same e
    by (cases r) (auto simp: cycled_def ms extends_def never_errs_def, metis snd_conv ms)
qed

lemma cycled_commit:
  assumes ok: "absorption_ok pf s" and small: "length (pending_absorption s) < 2 ^ 32"
  shows "cycled pf s (commit_cycle pf repr now elapsed_ms post (pending_absorption s) ar cr request s)"
proof -
  let ?pending = "pending_absorption s"
  obtain s1 r1 where 1: "insert_sporocarps pf repr (ar_sporocarps ar) s = (s1, r1)"
    by (cases "insert_sporocarps pf repr (ar_sporocarps ar) s")
  have inv: "server_inv pf s"
    using ok by (simp add: absorption_ok_def)
  have e: "extends pf ss_last_absorbed_cycle not_intake s s1"
    by (rule quiet_extends [OF grows_byD [OF unrelated_sporocarps [unfolded unrelated_def] inv 1]])
  have ok1: "absorption_ok pf s1" and same: "ss_cycle_counter s1 = ss_cycle_counter s"
      "ss_last_absorbed_cycle s1 = ss_last_absorbed_cycle s" "pending_absorption s1 = ?pending"
    using absorption_ok_extends [OF ok e] e pending_extends [OF e] by (simp_all add: extends_def)
  show ?thesis
  proof (cases r1)
    case (Ok hp)
    obtain hashes proposals where hp: "hp = (hashes, proposals)"
      by (cases hp)
    obtain s2 r2 where 2: "absorb_raw pf post ?pending s1 = (s2, r2)"
      by (cases "absorb_raw pf post ?pending s1")
    have "absorb_raw pf post (pending_absorption s1) s1 = (s2, r2)" "length (pending_absorption s1) < 2 ^ 32"
      using 2 small same(3) by simp_all
    from ok1 this(2,1) show ?thesis
    proof (cases rule: absorb_ok)
      case (failed x)
      then have "commit_cycle pf repr now elapsed_ms post ?pending ar cr request s = (s1, Err x)"
        using 2 by (simp add: commit_cycle_def bind_act_def [of "insert_sporocarps pf repr (ar_sporocarps ar)"] 1 Ok hp
            bind_act_def [of "absorb_raw pf post ?pending"])
      then show ?thesis
        using ok1 same by (simp add: cycled_def)
    next
      case (absorbed a)
      let ?fields = "advance_fields repr post ar cr hashes proposals a (ss_dag s2)"
      let ?rest = "bind_act (prune_step pf now post) (\<lambda>pruned. bind_act (backlog_step pf now elapsed_ms) (\<lambda>_.
          bind_act (apply_hunger_and_emit pf (now C74_INGESTION_STARVATION_DETECTOR_ID) post) (\<lambda>_.
            return_act (response MSG_ADVANCE_RESPONSE request
              (?fields @ pruned @ [(''cycle_duration_ms'', VUint (word_of_nat elapsed_ms))])))))"
      have "commit_cycle pf repr now elapsed_ms post ?pending ar cr request s = ?rest s2"
        using 2 absorbed(1) unfolding commit_cycle_def bind_act_def [of "insert_sporocarps pf repr (ar_sporocarps ar)"] 1 Ok hp
            bind_act_def [of "absorb_raw pf post ?pending"] Let_def by simp
      moreover have "unrelated pf ?rest"
        by (intro unrelated_combine unrelated_prune_step unrelated_backlog unrelated_hunger)
      moreover have "never_errs ?rest"
        by (intro never_errs_combine never_errs_prune never_errs_backlog never_errs_hunger)
      ultimately show ?thesis
        using cycled_rest absorbed same(1) by simp
    qed
  qed (use 1 ok1 same in \<open>simp_all add: commit_cycle_def bind_act_def [of "insert_sporocarps pf repr (ar_sporocarps ar)"] cycled_def\<close>)
qed

lemma absorption_ok_same:
  assumes "absorption_ok pf s" and "ss_dag s' = ss_dag s" and "ss_cultivation_state s' = ss_cultivation_state s"
    and "ss_last_absorbed_cycle s' = ss_last_absorbed_cycle s" and "ss_cycle_counter s \<le> ss_cycle_counter s'"
  shows "absorption_ok pf s'"
proof -
  have "already_absorbed s' = already_absorbed s" "times_absorbed s' = times_absorbed s"
    by (rule ext, simp add: already_absorbed_def times_absorbed_def assms)+
  then show ?thesis
    using assms unfolding absorption_ok_def server_inv_def by auto
qed

lemma cycled_failure:
  assumes ok: "absorption_ok pf s1"
    and same: "ss_cycle_counter s1 = ss_cycle_counter s" "ss_last_absorbed_cycle s1 = ss_last_absorbed_cycle s"
  shows "cycled pf s (bind_act (step_failed_signal pf now ev) (\<lambda>_. lift_act (Err e) :: 'a action) s1)"
proof -
  let ?m = "bind_act (step_failed_signal pf now ev) (\<lambda>_. lift_act (Err e) :: 'a action)"
  have "unrelated pf ?m"
    by (intro unrelated_intros)
  then have x: "extends pf ss_last_absorbed_cycle not_intake s1 (fst (?m s1))"
    using ok by (auto simp: unrelated_def grows_by_def absorption_ok_def intro: quiet_extends)
  moreover have "snd (?m s1) \<noteq> Ok a" for a
    by (simp add: bind_act_def lift_act_def split: prod.splits result.splits)
  ultimately show ?thesis
    using absorption_ok_extends [OF ok x] same by (auto simp: cycled_def extends_def split: result.split)
qed

lemma cycled_cong:
  "cycled pf s out \<Longrightarrow> ss_cycle_counter s = ss_cycle_counter t \<Longrightarrow>
    ss_last_absorbed_cycle s = ss_last_absorbed_cycle t \<Longrightarrow> cycled pf t out"
  by (cases "snd out") (simp_all add: cycled_def)

lemma cycled_advance:
  assumes ok: "absorption_ok pf s" and small: "length (pending_absorption s) < 2 ^ 32"
  shows "cycled pf s (handle_advance pf repr now elapsed_ms python request s)"
proof (cases python)
  case None
  then show ?thesis
    using ok by (simp add: handle_advance_def cycled_def)
next
  case (Some call)
  let ?ctx = "advance_context (verify_all (pf_hash pf) (ss_dag s)) (pending_absorption s) (recent_breaches s) call"
  obtain eng post report r where run: "run_cycle ?ctx (ss_cycle_engine s, ss_cycle_counter s, None) = ((eng, post, report), r)"
    by (metis prod.collapse)
  let ?s = "s\<lparr>ss_cycle_engine := eng\<rparr>"
  have ok': "absorption_ok pf ?s"
    by (rule absorption_ok_same [OF ok]) simp_all
  have pending: "pending_absorption ?s = pending_absorption s"
    by (simp add: pending_absorption_def)
  have commit: "cycled pf s (commit_cycle pf repr now elapsed_ms post (pending_absorption s) ar cr request ?s)" for ar cr
    by (rule cycled_cong [OF cycled_commit [OF ok', unfolded pending, OF small]]) simp_all
  have fail: "cycled pf s (bind_act (step_failed_signal pf now ev) (\<lambda>_. lift_act (Err e) :: message option action) ?s)"
    for ev e
    by (rule cycled_failure [OF ok']) simp_all
  show ?thesis
  proof (cases r)
    case (Ok cr)
    then show ?thesis
      by (simp add: handle_advance_def Some run commit fail)
  next
    case (Err e)
    then show ?thesis
      by (simp add: handle_advance_def Some run fail)
  next
    case (Abort x)
    then show ?thesis
      using ok' by (simp add: handle_advance_def Some run cycled_def)
  qed
qed

text \<open>Between cycles nothing can be taken in that the watermark already covers.\<close>

definition settled :: "platform \<Rightarrow> server_state \<Rightarrow> bool" where
  "settled pf s \<longleftrightarrow> absorption_ok pf s \<and> (\<forall>c. ss_last_absorbed_cycle s = Some c \<longrightarrow> c < ss_cycle_counter s)"

lemma settled_extends:
  "settled pf s \<Longrightarrow> extends pf ss_last_absorbed_cycle not_intake s s' \<Longrightarrow> settled pf s'"
  using absorption_ok_extends by (auto simp: settled_def extends_def)

lemma settled_bump:
  assumes ok: "absorption_ok pf s" and room: "ss_cycle_counter s \<noteq> - 1"
    and run: "bump_cycle pf s = (s', r)"
  shows "settled pf s' \<and> (\<forall>e. r \<noteq> Err e) \<and>
    ((\<forall>n\<in>set (iter_in_insertion_order (ss_dag s)). is_raw n \<longrightarrow> already_absorbed s n) \<longrightarrow>
      (\<forall>n\<in>set (iter_in_insertion_order (ss_dag s')). is_raw n \<longrightarrow> already_absorbed s' n))"
proof -
  let ?n = "sat_add (ss_cycle_counter s) 1"
  let ?s = "s\<lparr>ss_cycle_counter := ?n\<rparr>"
  let ?emit = "emit_substrate_event pf NODE_TYPE_CYCLE_ADVANCED (encode_cycle_advanced (ss_cycle_counter s) ?n)"
  have "unat (ss_cycle_counter s) < 2 ^ 64 - 1"
    using room unat_bound [of "ss_cycle_counter s"] word_unat_eq_iff [of "ss_cycle_counter s" "- 1"]
    by (simp add: unsigned_minus_1_eq_mask mask_eq_exp_minus_1)
  then have less: "ss_cycle_counter s < ?n"
    by (simp add: word_less_nat_alt unat_sat_add)
  have ok': "absorption_ok pf ?s"
    by (rule absorption_ok_same [OF ok]) (use less in simp_all)
  then have "settled pf ?s"
    using ok less by (auto simp: settled_def absorption_ok_def)
  moreover have x: "extends pf ss_last_absorbed_cycle not_intake ?s s'"
    using run ok' unfolding bump_cycle_def Let_def
    by (intro grows_byD [OF grows_ignore [OF grows_emit [where T = not_intake, OF ignores_log_absorbed(1) not_intake_advanced]]])
      (auto simp: absorption_ok_def)
  moreover have "r \<noteq> Err e" for e
    using run by (auto simp: bump_cycle_def Let_def ignore_act_def split: prod.splits result.splits)
  moreover have "already_absorbed ?s = already_absorbed s"
    by (rule ext) (simp add: already_absorbed_def)
  ultimately show ?thesis
    using settled_extends absorbed_extends [OF x] by simp
qed

lemma settled_dispatch:
  assumes s: "settled pf s" and small: "length (pending_absorption s) < 2 ^ 32" and room: "ss_cycle_counter s \<noteq> - 1"
    and run: "dispatch_advance pf repr now elapsed_ms advance python saved request s = (s', r)"
    and returns: "\<forall>x. r \<noteq> Abort x"
  shows "settled pf s' \<and> (is_ok r \<longrightarrow>
    (\<forall>n\<in>set (iter_in_insertion_order (ss_dag s')). is_raw n \<longrightarrow> already_absorbed s' n))"
proof (cases "is_archived s")
  case True
  then show ?thesis
    using run s by (auto simp: dispatch_advance_def)
next
  case False
  obtain s1 r1 where 1: "handle_advance pf repr now elapsed_ms advance request s = (s1, r1)"
    by (cases "handle_advance pf repr now elapsed_ms advance request s")
  have c: "cycled pf s (s1, r1)"
    using cycled_advance [OF _ small] s unfolding settled_def by (metis 1)
  show ?thesis
  proof (cases r1)
    case (Ok answer)
    obtain s2 r2 where 2: "bump_cycle pf s1 = (s2, r2)"
      by (cases "bump_cycle pf s1")
    have bumped: "settled pf s2" "\<forall>e. r2 \<noteq> Err e"
      "\<forall>n\<in>set (iter_in_insertion_order (ss_dag s2)). is_raw n \<longrightarrow> already_absorbed s2 n"
      using settled_bump [OF _ _ 2] c Ok room by (auto simp: cycled_def)
    let ?m = "case answer of Some m \<Rightarrow> ignore_act (run_migration_step pf now python saved m) | None \<Rightarrow> return_act ()"
    have u: "unrelated pf (bind_act ?m (\<lambda>_. return_act answer))"
      by (cases answer) (auto intro!: unrelated_combine unrelated_migration)
    have "dispatch_advance pf repr now elapsed_ms advance python saved request s =
        bind_act (bump_cycle pf) (\<lambda>_. bind_act ?m (\<lambda>_. return_act answer)) s1"
      using False 1 Ok by (simp add: dispatch_advance_def bind_act_def [of "handle_advance pf repr now elapsed_ms advance request"])
    then have rest: "bind_act (bump_cycle pf) (\<lambda>_. bind_act ?m (\<lambda>_. return_act answer)) s1 = (s', r)"
      using run by simp
    show ?thesis
    proof (cases r2)
      case (Ok a)
      then have "bind_act ?m (\<lambda>_. return_act answer) s2 = (s', r)"
        using rest 2 by (simp add: bind_act_def [of "bump_cycle pf"])
      then have "extends pf ss_last_absorbed_cycle not_intake s2 s'"
        using u bumped(1) unfolding unrelated_def settled_def absorption_ok_def by (blast intro: quiet_extends grows_byD)
      then show ?thesis
        using settled_extends [OF bumped(1)] absorbed_extends bumped(3) by blast
    qed (use rest 2 bumped returns in \<open>auto simp: bind_act_def [of "bump_cycle pf"]\<close>)
  next
    case (Err e)
    then show ?thesis
      using run 1 False c s by (auto simp: dispatch_advance_def bind_act_def cycled_def settled_def)
  next
    case (Abort x)
    then show ?thesis
      using run 1 False returns by (auto simp: dispatch_advance_def bind_act_def)
  qed
qed

section \<open>Serving\<close>

text \<open>
  A substrate from an empty log on: intakes and cycles that return, in any order, and between them
  anything that adds neither raw material nor absorptions to the log (\<open>unrelated_forge\<close> and the
  lemmas before it are such steps). A cycle is asked for while the counter has room and while fewer
  than \<open>2 ^ 32\<close> raw materials wait.
\<close>

inductive served :: "platform \<Rightarrow> ('f \<Rightarrow> string) \<Rightarrow> server_state \<Rightarrow> bool"
  for pf :: platform and repr :: "'f \<Rightarrow> string" where
  booted: "served pf repr s"
    if "server_inv pf s" "iter_in_insertion_order (ss_dag s) = []" "ss_last_absorbed_cycle s = None"
| intake: "served pf repr s'"
    if "served pf repr s" "handle_ingest_raw_material pf order request s = (s', r)"
| other: "served pf repr s'"
    if "served pf repr s" "extends pf ss_last_absorbed_cycle not_intake s s'"
| advanced: "served pf repr s'"
    if "served pf repr s" "length (pending_absorption s) < 2 ^ 32" "ss_cycle_counter s \<noteq> - 1"
      "dispatch_advance pf repr now elapsed_ms advance python saved request s = (s', r)" "\<forall>x. r \<noteq> Abort x"

lemma served_settled: "served pf repr s \<Longrightarrow> settled pf s"
proof (induction rule: served.induct)
  case (booted s)
  then show ?case
    by (simp add: settled_def absorption_ok_def times_absorbed_def absorptions_def)
next
  case (intake s order request s' r)
  then have "settled pf s"
    by simp
  then show ?case
    using ingest_ok [OF _ _ intake(2)] by (auto simp: settled_def)
next
  case (other s s')
  then show ?case
    using settled_extends by blast
next
  case (advanced s now elapsed_ms advance python saved request s' r)
  then show ?case
    using settled_dispatch by blast
qed

section \<open>The property\<close>

text \<open>
  C2. Every raw material is absorbed exactly once. However intakes, cycles, failed cycles and the
  substrate's other work interleave, the log never lists a raw material in two absorption events, and
  once an advance request is answered every raw material taken in so far is listed in exactly one,
  whatever the worker reported in that cycle.
\<close>

theorem raw_material_absorbed_once:
  assumes "served pf repr s" and "length (pending_absorption s) < 2 ^ 32" and "ss_cycle_counter s \<noteq> - 1"
    and "dispatch_advance pf repr now elapsed_ms advance python saved request s = (s', Ok answer)"
  shows "(\<forall>n\<in>set (iter_in_insertion_order (ss_dag s)). is_raw n \<longrightarrow> times_absorbed s (node_hash n) \<le> 1) \<and>
    (\<forall>n\<in>set (iter_in_insertion_order (ss_dag s')). is_raw n \<longrightarrow> times_absorbed s' (node_hash n) = 1)"
proof -
  have s: "settled pf s"
    by (rule served_settled [OF assms(1)])
  from settled_dispatch [OF s assms(2-4)]
  have "settled pf s'" "\<forall>n\<in>set (iter_in_insertion_order (ss_dag s')). is_raw n \<longrightarrow> already_absorbed s' n"
    by simp_all
  then show ?thesis
    using s by (simp add: settled_def absorption_ok_def)
qed

definition feed_request :: message where
  "feed_request = new_message ''ingest_raw_material'' 1
     (bt_of [(''content_kind'', VString ''k''), (''content_bytes'', VBytes [1, 2])])"

definition raw_node :: dag_node where
  "raw_node = \<lparr>node_hash = 0, parent_hashes = [], node_type = ''raw_material:k'', created_at_cycle = 0,
     content = event_bytes [(''kind'', VString ''k''), (''bytes'', VBytes [1, 2])]\<rparr>"

definition fed :: server_state where
  "fed = blank_state\<lparr>ss_dag := \<lparr>nodes = [(0, raw_node)], insertion_order = [0], tip = Some 0\<rparr>\<rparr>"

lemma feed_blank:
  "handle_ingest_raw_material chain_platform id feed_request blank_state =
    (fed, Ok (deposited MSG_INGEST_RAW_MATERIAL_RESPONSE feed_request 0 fed))"
  by (simp add: handle_ingest_raw_material_def refuses_intake_def blank_state_def read_intake_def feed_request_def
      new_message_def nonempty_string_def bt_get_of opt_bytes_def opt_string_def MAX_INGESTION_BYTES_def
      insert_act_def insert_node_def tip_parents_def dag_new_def check_parents_def dag_get_def Let_def
      bind_act_def lift_act_def intake_fields_def fed_def raw_node_def)

lemma served_fed: "served chain_platform repr fed"
proof -
  have "served chain_platform repr blank_state"
    using server_inv_blank
    by (intro booted) (simp_all add: blank_state_def iter_in_insertion_order_def dag_new_def List.map_filter_simps)
  then show ?thesis
    using feed_blank by (rule intake)
qed

definition idle_worker :: "unit advance_call" where
  "idle_worker = (\<lambda>_. Ok no_report)"

lemma pending_fed: "pending_absorption fed = [0]"
  by (simp add: pending_absorption_def fed_def blank_state_def iter_in_insertion_order_def dag_get_def raw_node_def
      List.map_filter_simps is_raw_def starts_with_def)

lemma advance_fed:
  obtains s' a where "dispatch_advance chain_platform (\<lambda>_. []) (\<lambda>_. 0) 0 (Some idle_worker) None (Ok ())
    (new_message MSG_ADVANCE 2 []) fed = (s', Ok a)"
    "0 \<in> node_hash ` {n \<in> set (iter_in_insertion_order (ss_dag s')). is_raw n}"
proof -
  let ?event = "\<lparr>node_hash = 1, parent_hashes = [0], node_type = ''absorption_event:cycle_'' @ u64_str 1,
      created_at_cycle = 1, content = event_bytes (absorption_fields 1 [0])\<rparr> :: dag_node"
  let ?d1 = "\<lparr>nodes = [(0, raw_node), (1, ?event)], insertion_order = [0, 1], tip = Some 1\<rparr>"
  let ?eng = "(ss_cycle_engine fed)\<lparr>cycle_number := cycle_number (ss_cycle_engine fed) + 1\<rparr>"
  define s1 where "s1 = fed\<lparr>ss_cycle_engine := ?eng, ss_dag := ?d1, ss_last_absorbed_cycle := Some 0\<rparr>"
  have inv: "server_inv chain_platform fed"
    using served_settled [OF served_fed] by (simp add: settled_def absorption_ok_def)
  then have verified: "verify_all (pf_hash chain_platform) (ss_dag fed) = Ok ()"
    by (simp add: server_inv_def verify_all_Ok)
  obtain cr where run: "run_cycle (advance_context (Ok ()) [0] (recent_breaches fed) idle_worker)
      (ss_cycle_engine fed, ss_cycle_counter fed, None) = ((?eng, 1, Some no_report), Ok cr)" "report_committed cr"
    by (simp add: run_cycle_def run_steps_def advance_context_def advance_step_def idle_worker_def Let_def fed_def
        blank_state_def)
  have absorbed: "absorb_raw chain_platform 1 [0] (fed\<lparr>ss_cycle_engine := ?eng\<rparr>) = (s1, Ok (Some 1))"
    by (simp add: absorb_raw_def insert_act_def insert_node_def push_parents_def tip_parents_def s1_def fed_def check_parents_def
        dag_get_def Let_def bind_act_def modify_act_def return_act_def latest_of_def raw_node_def List.map_filter_simps)
  have quiet: "prune_step chain_platform now 1 = return_act []" "backlog_step chain_platform now 0 = return_act ()" for now
    by (simp_all add: prune_step_def should_run_prune_scan_def PRUNE_SCAN_DEEP_CYCLE_INTERVAL_def backlog_step_def)
  have "cycles_since_last_ingestion s1 1 = (1, True)"
    by (simp add: s1_def cycles_since_last_ingestion_def iter_in_insertion_order_def dag_get_def List.map_filter_simps
        raw_node_def is_raw_def starts_with_def sat_sub_def)
  then have calm: "apply_hunger_and_emit chain_platform now 1 s1 = (s1, Ok ())" for now
    by (simp add: apply_hunger_and_emit_def ask_for_food_def signal_starvation_def
        HUNGER_REQUEST_THRESHOLD_CYCLES_def STARVATION_THRESHOLD_CYCLES_def bind_act_def return_act_def
        word_le_nat_alt)
  obtain a where handled: "handle_advance chain_platform (\<lambda>_. []) (\<lambda>_. 0) 0 (Some idle_worker)
      (new_message MSG_ADVANCE 2 []) fed = (s1, Ok (Some a))"
    by (simp add: handle_advance_def verified pending_fed run commit_cycle_def no_report_def absorbed quiet calm
        bind_act_def [of "absorb_raw _ _ _"] bind_act_def [of "apply_hunger_and_emit _ _ _"] bind_act_return
        Let_def return_act_def response_def)
  have "cycled chain_platform fed (s1, Ok (Some a))"
    using cycled_advance [of chain_platform fed "\<lambda>_. []" "\<lambda>_. 0" 0 "Some idle_worker" "new_message MSG_ADVANCE 2 []"]
      served_settled [OF served_fed] by (simp add: handled pending_fed settled_def)
  then have inv1: "server_inv chain_platform (s1\<lparr>ss_cycle_counter := 1\<rparr>)"
    by (simp add: cycled_def absorption_ok_def server_inv_def)
  let ?emit = "emit_substrate_event chain_platform NODE_TYPE_CYCLE_ADVANCED (encode_cycle_advanced 0 1)"
  have candidate: "ss_migration_candidate (fst (?emit (s1\<lparr>ss_cycle_counter := 1\<rparr>))) = None"
    by (subst view_emit(1)) (simp_all add: ignores_log_def s1_def fed_def blank_state_def)
  have raw: "raw_node \<in> set (iter_in_insertion_order (ss_dag s1))"
    by (simp add: s1_def iter_in_insertion_order_def dag_get_def List.map_filter_simps)
  obtain s2 where 2: "bump_cycle chain_platform s1 = (s2, Ok ())" "ss_migration_candidate s2 = None"
    "raw_node \<in> set (iter_in_insertion_order (ss_dag s2))"
  proof -
    have step: "bump_cycle chain_platform s1 = ignore_act ?emit (s1\<lparr>ss_cycle_counter := 1\<rparr>)"
      by (simp add: bump_cycle_def Let_def s1_def fed_def blank_state_def sat_add_def)
    from inv1 show thesis
    proof (cases rule: emit_cases [where ty = NODE_TYPE_CYCLE_ADVANCED and c = "encode_cycle_advanced 0 1"])
      case (failed e)
      show ?thesis
        by (rule that [of "s1\<lparr>ss_cycle_counter := 1\<rparr>"])
          (use raw in \<open>simp_all add: step ignore_act_def failed, simp add: s1_def fed_def blank_state_def\<close>)
    next
      case (logged s')
      show ?thesis
        by (rule that [of s']) (use raw candidate in \<open>simp_all add: step ignore_act_def logged\<close>)
    qed
  qed
  have "\<not> is_archived fed"
    by (simp add: is_archived_def fed_def blank_state_def)
  then have "dispatch_advance chain_platform (\<lambda>_. []) (\<lambda>_. 0) 0 (Some idle_worker) None (Ok ())
      (new_message MSG_ADVANCE 2 []) fed = (s2, Ok (Some a))"
    using 2 by (simp add: dispatch_advance_def bind_act_def [of "handle_advance _ _ _ _ _ _"] handled
        bind_act_def [of "bump_cycle _"] bind_act_def [of "ignore_act _"] ignore_act_def run_migration_step_def return_act_def)
  moreover have "0 \<in> node_hash ` {n \<in> set (iter_in_insertion_order (ss_dag s2)). is_raw n}"
    using 2(3) by (intro image_eqI [of _ _ raw_node]) (simp_all add: raw_node_def is_raw_def starts_with_def)
  ultimately show thesis
    by (rule that)
qed

lemma raw_material_absorbed_once_witness:
  "\<exists>s'. times_absorbed s' 0 = 1 \<and> fst (dispatch_advance chain_platform (\<lambda>_. []) (\<lambda>_. 0) 0 (Some idle_worker) None
     (Ok ()) (new_message MSG_ADVANCE 2 []) fed) = s'"
proof -
  obtain s' a where run: "dispatch_advance chain_platform (\<lambda>_. []) (\<lambda>_. 0) 0 (Some idle_worker) None (Ok ())
      (new_message MSG_ADVANCE 2 []) fed = (s', Ok a)"
    "0 \<in> node_hash ` {n \<in> set (iter_in_insertion_order (ss_dag s')). is_raw n}"
    by (rule advance_fed)
  have "ss_cycle_counter fed \<noteq> - 1"
    by (simp add: fed_def blank_state_def)
  then show ?thesis
    using raw_material_absorbed_once [OF served_fed _ _ run(1)] run by (auto simp: pending_fed)
qed

end
