(* ===== verification/Intake_Rules.thy ===== *)
theory Intake_Rules
  imports Absorption
begin

text \<open>
  What each intake does: when raw material is refused and what is stored when it is not, what a plate
  of forged understanding may cite, and how a schema migration in flight ends.
\<close>

section \<open>Raw material\<close>

lemma insert_at_tip_exact:
  assumes inv: "server_inv pf s" and ty: "ty \<noteq> []" "\<not> is_cultivation_family_node_type ty"
    and ps: "set (tip_parents (ss_dag s)) \<subseteq> set ps" "set ps \<subseteq> fst ` set (nodes (ss_dag s))"
    and new: "dag_get (ss_dag s) (merkle_hash (pf_hash pf) ps c) = None"
  obtains s' n where "insert_act pf what ps ty cyc c s = (s', Ok (node_hash n))"
      "n = node_over (pf_hash pf) ps ty cyc c" "server_inv pf s'" "s' = s\<lparr>ss_dag := ss_dag s'\<rparr>"
      "iter_in_insertion_order (ss_dag s') = iter_in_insertion_order (ss_dag s) @ [n]"
proof -
  have "insert_act pf what ps ty cyc c s \<noteq> (s, Err e)" for e
    using ty(1) ps(2) new
    by (cases rule: insert_node_cases [of ty "pf_hash pf" ps cyc c "ss_dag s"])
      (auto simp: insert_act_def check_parents_Ok_iff [symmetric])
  with inv ps(1) ty(2) show thesis
    by (cases rule: insert_act_cases [where what = what and cyc = cyc and c = c]) (use that in blast)+
qed

lemma tip_parents_stored: "dag_inv H d \<Longrightarrow> set (tip_parents d) \<subseteq> fst ` set (nodes d)"
  by (auto simp: tip_parents_def dag_inv_def last_map split: option.splits if_splits)

lemma length_encode_member:
  assumes "bt_get m k = Some v"
  shows "length (encode_into v) \<le> length (encode_into (VMap m))"
proof -
  have "(k, v) \<in> set (sort_key (encode_string \<circ> fst) m)"
    using bt_get_in_set [OF assms] by simp
  from length_concat_member [OF this, of entry_bytes] show ?thesis
    by (simp add: encode_into_VMap)
qed

lemma wf_member: "wf_value (VMap m) \<Longrightarrow> bt_get m k = Some v \<Longrightarrow> wf_value v"
  using bt_get_in_set by fastforce

text \<open>The fields stored are those of the request, whose encoding bounds theirs.\<close>

lemma intake_fields_ok:
  assumes wf: "wf_value (VMap (msg_payload request))"
    and small: "length (encode_into (VMap (msg_payload request))) < 2 ^ 59"
    and read: "read_intake request = Ok (kind, bs)"
  shows "event_ok (intake_fields request kind bs)"
proof -
  let ?m = "msg_payload request"
  have kind: "bt_get ?m ''content_kind'' = Some (VString kind)" and bs: "bt_get ?m ''content_bytes'' = Some (VBytes bs)"
    using read by (auto simp: read_intake_def nonempty_string_def opt_bytes_def and_then_Ok_iff ok_or_Ok_iff
        split: option.splits Value.splits if_splits)
  have field: "wf_value v \<and> length (encode_into v) < 2 ^ 59" if "bt_get ?m k = Some v" for k v
    using wf_member [OF wf that] length_encode_member [OF that] small by simp
  have fields: "str_ok k \<and> length k \<le> 10 \<and> wf_value v \<and> length (encode_into v) < 2 ^ 59"
    if "(k, v) \<in> set (intake_fields request kind bs)" for k v
    using that field [OF kind] field [OF bs] field
    by (auto simp: intake_fields_def opt_string_def split: option.splits Value.splits)
  have "(\<Sum>(k, v) \<leftarrow> intake_fields request kind bs. 11 + length k + length (encode_into v)) \<le>
      (\<Sum>kv \<leftarrow> intake_fields request kind bs. 2 ^ 60)"
    by (rule sum_list_mono) (use fields in fastforce)
  also have "\<dots> \<le> 4 * 2 ^ 60"
    by (simp add: sum_list_triv intake_fields_def split: option.split)
  finally have "length (event_bytes (intake_fields request kind bs)) < 2 ^ 63"
    using length_event_bytes [of "intake_fields request kind bs"] by simp
  then show ?thesis
    using fields by (auto simp: event_ok_def)
qed

definition stored_raw :: "platform \<Rightarrow> server_state \<Rightarrow> message \<Rightarrow> string \<Rightarrow> bytes \<Rightarrow> dag_node" where
  "stored_raw pf s request kind bs =
     node_over (pf_hash pf) (tip_parents (ss_dag s)) (''raw_material:'' @ kind) (ss_cycle_counter s)
       (event_bytes (intake_fields request kind bs))"

lemma ingest_stores:
  assumes inv: "server_inv pf s" and read: "read_intake request = Ok (kind, bs)" and go: "\<not> refuses_intake s"
    and new: "dag_get (ss_dag s) (node_hash (stored_raw pf s request kind bs)) = None"
  obtains s' where "handle_ingest_raw_material pf order request s =
      (s', Ok (deposited MSG_INGEST_RAW_MATERIAL_RESPONSE request (node_hash (stored_raw pf s request kind bs)) s'))"
    "iter_in_insertion_order (ss_dag s') = iter_in_insertion_order (ss_dag s) @ [stored_raw pf s request kind bs]"
    "s' = s\<lparr>ss_dag := ss_dag s'\<rparr>"
proof -
  let ?c = "event_bytes (intake_fields request kind bs)"
  have dag: "dag_inv (pf_hash pf) (ss_dag s)"
    using inv by (simp add: server_inv_def)
  have "''raw_material:'' @ kind \<noteq> []" "dag_get (ss_dag s) (merkle_hash (pf_hash pf) (tip_parents (ss_dag s)) ?c) = None"
    using new by (simp_all add: stored_raw_def node_over_def)
  from insert_at_tip_exact [OF inv this(1) not_family_types(6) order.refl tip_parents_stored [OF dag] this(2)]
  obtain s' where s': "insert_act pf ''raw_material DAG insert'' (tip_parents (ss_dag s)) (''raw_material:'' @ kind)
        (ss_cycle_counter s) ?c s = (s', Ok (node_hash (stored_raw pf s request kind bs)))"
      "iter_in_insertion_order (ss_dag s') = iter_in_insertion_order (ss_dag s) @ [stored_raw pf s request kind bs]"
      "s' = s\<lparr>ss_dag := ss_dag s'\<rparr>"
    unfolding stored_raw_def by blast
  have "handle_ingest_raw_material pf order request s =
      bind_act (insert_act pf ''raw_material DAG insert'' (tip_parents (ss_dag s)) (''raw_material:'' @ kind)
        (ss_cycle_counter s) ?c) (\<lambda>h s. (s, Ok (deposited MSG_INGEST_RAW_MATERIAL_RESPONSE request h s))) s"
    unfolding handle_ingest_raw_material_def read using go by simp
  also have "\<dots> = (s', Ok (deposited MSG_INGEST_RAW_MATERIAL_RESPONSE request (node_hash (stored_raw pf s request kind bs)) s'))"
    unfolding bind_act_def s'(1) by simp
  finally show thesis
    using s'(2,3) by (rule that)
qed

text \<open>
  C37. Raw material is refused exactly under sustained exhaustion, and stored whole otherwise. After any
  history of measured cycles a well-formed request is refused exactly when the last three cycles were
  all over budget, and the log is left alone; otherwise a malformed request is an error that changes
  nothing, and a readable one adds one node over the tip, of the request's kind and the current cycle,
  from which the kind, the bytes, the source and the hints can be read back.
\<close>

theorem intake_by_history:
  assumes "measured pf b h s" and "wf_value (VMap (msg_payload request))"
    and "length (encode_into (VMap (msg_payload request))) < 2 ^ 59"
    and "\<And>kind bs. read_intake request = Ok (kind, bs) \<Longrightarrow>
      dag_get (ss_dag s) (node_hash (stored_raw pf s request kind bs)) = None"
  shows "if 3 \<le> length (trailing h)
    then handle_ingest_raw_material pf order request s =
      (s, Ok (refusal (order (ss_last_budget_exhausted s)) request s))
    else (case read_intake request of
        Ok (kind, bs) \<Rightarrow> \<exists>s'. handle_ingest_raw_material pf order request s =
            (s', Ok (deposited MSG_INGEST_RAW_MATERIAL_RESPONSE request (node_hash (stored_raw pf s request kind bs)) s')) \<and>
          iter_in_insertion_order (ss_dag s') = iter_in_insertion_order (ss_dag s) @ [stored_raw pf s request kind bs] \<and>
          decode (content (stored_raw pf s request kind bs)) = Ok (VMap (bt_of (intake_fields request kind bs)))
      | Err e \<Rightarrow> handle_ingest_raw_material pf order request s = (s, Err e)
      | Abort x \<Rightarrow> False)"
proof -
  have inv: "server_inv pf s" and t: "tracks b h s"
    using measured_tracks [OF assms(1)] by simp_all
  have refuses: "refuses_intake s \<longleftrightarrow> 3 \<le> length (trailing h)"
    using t by (auto simp: refuses_intake_def tracks_def stage_of_history_def P02_REFUSAL_SUSTAINED_CYCLES_def
        word_le_nat_alt)
  show ?thesis
  proof (cases "3 \<le> length (trailing h)")
    case True
    then show ?thesis
      using refuses by (simp add: handle_ingest_raw_material_def)
  next
    case False
    then have go: "\<not> refuses_intake s"
      using refuses by simp
    show ?thesis
    proof (cases "read_intake request")
      case (Ok kb)
      obtain kind bs where kb: "kb = (kind, bs)"
        by (cases kb)
      obtain s' where "handle_ingest_raw_material pf order request s =
          (s', Ok (deposited MSG_INGEST_RAW_MATERIAL_RESPONSE request (node_hash (stored_raw pf s request kind bs)) s'))"
        "iter_in_insertion_order (ss_dag s') = iter_in_insertion_order (ss_dag s) @ [stored_raw pf s request kind bs]"
        using ingest_stores [OF inv Ok [unfolded kb] go assms(4) [OF Ok [unfolded kb]]] by metis
      moreover have "decode (content (stored_raw pf s request kind bs)) = Ok (VMap (bt_of (intake_fields request kind bs)))"
        using decode_event [OF intake_fields_ok [OF assms(2,3) Ok [unfolded kb]]]
        by (simp add: stored_raw_def node_over_def)
      ultimately show ?thesis
        using False Ok kb by simp
    next
      case (Err e)
      then show ?thesis
        using False go by (simp add: handle_ingest_raw_material_def)
    next
      case (Abort x)
      then show ?thesis
        by (auto simp: read_intake_def and_then_Abort_iff split: if_splits)
    qed
  qed
qed

lemma intake_by_history_witness:
  "decode (content (stored_raw chain_platform blank_state feed_request ''k'' [1, 2])) =
    Ok (VMap (bt_of [(''kind'', VString ''k''), (''bytes'', VBytes [1, 2])]))"
proof -
  let ?kvs = "[(''content_kind'', VString ''k''), (''content_bytes'', VBytes [1, 2])]"
  have m: "measured chain_platform seed_cost_budgets [] blank_state"
    by (rule started) (use server_inv_blank in \<open>simp_all add: blank_state_def server_inv_def\<close>)
  have payload: "msg_payload feed_request = bt_of ?kvs"
    by (simp add: feed_request_def new_message_def)
  have wf: "wf_value (VMap (msg_payload feed_request))"
    unfolding payload by (rule wf_VMap_of) auto
  have small: "length (encode_into (VMap (msg_payload feed_request))) < 2 ^ 59"
    using length_event_fields [of ?kvs] unfolding payload event_bytes_def by simp
  have read: "read_intake feed_request = Ok (''k'', [1, 2])"
    by (simp add: read_intake_def payload nonempty_string_def opt_bytes_def bt_get_of MAX_INGESTION_BYTES_def)
  have "dag_get (ss_dag blank_state) g = None" for g
    by (simp add: blank_state_def dag_new_def dag_get_def)
  from intake_by_history [OF m wf small this, of id] show ?thesis
    by (simp add: read trailing_def)
      (simp add: intake_fields_def payload opt_string_def bt_get_of, elim exE conjE)
qed

section \<open>Plates\<close>

lemma cites_Ok:
  "cites d what prefix wanted h = Ok () \<longleftrightarrow> (\<exists>n. dag_get d h = Some n \<and> starts_with (node_type n) prefix)"
  by (auto simp: cites_def and_then_Ok_iff ok_or_Ok_iff)

lemma percent_field_Ok: "percent_field m k = Ok (Some v) \<Longrightarrow> v \<le> 100"
  by (auto simp: percent_field_def split: option.splits Value.splits if_splits)

lemma read_plate_Ok:
  assumes "read_plate d request = Ok p"
  shows "\<forall>h\<in>set (plate_sources p). \<exists>n. dag_get d h = Some n \<and> is_raw n"
    and "\<forall>h\<in>set (plate_supersedes p). \<exists>n. dag_get d h = Some n \<and>
      starts_with (node_type n) FORGED_UNDERSTANDING_NODE_TYPE_PREFIX"
    and "plate_value p = Some v \<Longrightarrow> v \<le> 100" and "plate_confidence p = Some v \<Longrightarrow> v \<le> 100"
    and "length (plate_understanding p) \<le> MAX_UNDERSTANDING_BYTES"
  using assms percent_field_Ok
  by (auto simp: read_plate_def Let_def and_then_Ok_iff try_each_Ok_iff cites_Ok is_raw_def split: if_splits)

lemma traverse_not_Abort: "(\<And>v. f v \<noteq> Abort x) \<Longrightarrow> traverse f vs \<noteq> Abort x"
  by (induction vs) (auto simp: and_then_Abort_iff)

lemma try_each_not_Abort: "(\<And>v. f v \<noteq> Abort x) \<Longrightarrow> try_each f vs \<noteq> Abort x"
  by (induction vs) (auto simp: and_then_Abort_iff)

lemma ok_or_not_Abort_any [simp]: "ok_or e v \<noteq> Abort x"
  by (cases v) simp_all

lemma read_plate_not_Abort: "read_plate d request \<noteq> Abort x"
proof -
  have "hash_entry k v \<noteq> Abort x" for k v
    by (cases "(k, v)" rule: hash_entry.cases) simp_all
  then have "hash_array m k \<noteq> Abort x" for m k
    by (auto simp: hash_array_def traverse_not_Abort split: option.split Value.split)
  moreover have "cites d what prefix wanted h \<noteq> Abort x" for what prefix wanted h
    by (auto simp: cites_def and_then_Abort_iff)
  moreover have "percent_field m k \<noteq> Abort x" for m k
    by (simp add: percent_field_def split: option.split Value.split)
  ultimately show ?thesis
    by (simp add: read_plate_def Let_def and_then_Abort_iff try_each_not_Abort)
qed

text \<open>
  C38. A plate cites what the log holds. A deposit that is answered adds one node, the plate's, whose
  parents are the tip and the sources; every source is a raw material already in the log, every plate it
  supersedes is a plate already in the log, and its value and confidence are at most 100. A deposit that
  fails changes nothing.
\<close>

theorem plates_cite_existing:
  assumes "server_inv pf s" and "handle_deposit_forged_understanding pf request s = (s', r)"
  shows "(\<exists>e. r = Err e \<and> s' = s) \<or>
    (\<exists>a n p. r = Ok a \<and> read_plate (ss_dag s) request = Ok p \<and>
      iter_in_insertion_order (ss_dag s') = iter_in_insertion_order (ss_dag s) @ [n] \<and>
      node_type n = FORGED_UNDERSTANDING_NODE_TYPE_PREFIX @ plate_label p \<and>
      created_at_cycle n = ss_cycle_counter s \<and>
      content n = event_bytes (plate_fields p (ss_cycle_counter s)) \<and>
      set (parent_hashes n) = set (tip_parents (ss_dag s)) \<union> set (plate_sources p) \<and>
      (\<forall>h\<in>set (plate_sources p). \<exists>m. dag_get (ss_dag s) h = Some m \<and> is_raw m) \<and>
      (\<forall>h\<in>set (plate_supersedes p). \<exists>m. dag_get (ss_dag s) h = Some m \<and>
        starts_with (node_type m) FORGED_UNDERSTANDING_NODE_TYPE_PREFIX) \<and>
      (\<forall>v. plate_value p = Some v \<or> plate_confidence p = Some v \<longrightarrow> v \<le> 100))"
proof (cases "read_plate (ss_dag s) request")
  case (Ok p)
  let ?ps = "push_parents (plate_sources p) (tip_parents (ss_dag s))"
  let ?c = "event_bytes (plate_fields p (ss_cycle_counter s))"
  have answer: "bind_act (insert_act pf ''forged_understanding DAG insert'' ?ps
      (FORGED_UNDERSTANDING_NODE_TYPE_PREFIX @ plate_label p) (ss_cycle_counter s) ?c)
      (\<lambda>h s. (s, Ok (deposited MSG_DEPOSIT_FORGED_UNDERSTANDING_RESPONSE request h s))) s = (s', r)"
    using assms(2) unfolding handle_deposit_forged_understanding_def Ok by simp
  have "set (tip_parents (ss_dag s)) \<subseteq> set ?ps"
    by simp
  from assms(1) this not_family_types(4) [of "plate_label p"] show ?thesis
  proof (cases rule: insert_act_cases [where what = "''forged_understanding DAG insert''" and
        cyc = "ss_cycle_counter s" and c = ?c])
    case (failed e)
    then show ?thesis
      using answer unfolding bind_act_def failed by (intro disjI1) auto
  next
    case (logged s1 n)
    have "s' = s1" "is_ok r"
      using answer unfolding bind_act_def logged(1) by auto
    then show ?thesis
      using logged read_plate_Ok [OF Ok] Ok
      by (intro disjI2) (cases r; force simp: node_over_def)
  qed
next
  case (Err e)
  then show ?thesis
    using assms(2) by (auto simp: handle_deposit_forged_understanding_def)
next
  case (Abort x)
  then show ?thesis
    using read_plate_not_Abort by blast
qed

lemma answered_iff: "is_ok (snd (bind_act m (\<lambda>a s. (s, Ok (f a s))) s)) \<longleftrightarrow> is_ok (snd (m s))"
  by (cases "m s"; cases "snd (m s)") (simp_all add: bind_act_def)

definition forge_request :: message where
  "forge_request = new_message ''deposit_forged_understanding'' 3
     (bt_of [(''label'', VString ''l''), (''understanding'', VBytes [7]),
        (''source_raw_material_hashes'', hash_values [0])])"

lemma fed_raw: "dag_get (ss_dag fed) 0 = Some raw_node" "is_raw raw_node" "tip (ss_dag fed) = Some 0"
  by (simp_all add: fed_def dag_get_def raw_node_def is_raw_def starts_with_def)

lemma forge_read: "read_plate (ss_dag fed) forge_request = Ok \<lparr>plate_label = ''l'', plate_understanding = [7],
    plate_sources = [0], plate_value = None, plate_confidence = None, plate_supersedes = []\<rparr>"
  by (simp add: read_plate_def forge_request_def new_message_def nonempty_string_def opt_bytes_def bt_get_of
      MAX_UNDERSTANDING_BYTES_def hash_array_def hash_values_def percent_field_def cites_def fed_raw
      is_raw_def [symmetric] Let_def)

lemma forge_answered: "is_ok (snd (handle_deposit_forged_understanding chain_platform forge_request fed))"
proof -
  let ?p = "\<lparr>plate_label = ''l'', plate_understanding = [7], plate_sources = [0], plate_value = None,
      plate_confidence = None, plate_supersedes = []\<rparr>"
  have "handle_deposit_forged_understanding chain_platform forge_request fed =
      bind_act (insert_act chain_platform ''forged_understanding DAG insert'' [0]
        (FORGED_UNDERSTANDING_NODE_TYPE_PREFIX @ ''l'') (ss_cycle_counter fed)
        (event_bytes (plate_fields ?p (ss_cycle_counter fed))))
        (\<lambda>h s. (s, Ok (deposited MSG_DEPOSIT_FORGED_UNDERSTANDING_RESPONSE forge_request h s))) fed"
    unfolding handle_deposit_forged_understanding_def forge_read by (simp add: push_parents_def tip_parents_def fed_raw)
  moreover have "is_ok (snd (insert_act chain_platform ''forged_understanding DAG insert'' [0]
      (FORGED_UNDERSTANDING_NODE_TYPE_PREFIX @ ''l'') cyc c fed))" for cyc c
    by (simp add: insert_act_def insert_node_def check_parents_def dag_get_def fed_def Let_def
        FORGED_UNDERSTANDING_NODE_TYPE_PREFIX_def)
  ultimately show ?thesis
    by (simp add: answered_iff)
qed

lemma server_inv_fed: "server_inv chain_platform fed"
  using served_settled [OF served_fed] by (simp add: settled_def absorption_ok_def)

lemma plates_cite_existing_witness:
  "\<exists>n. iter_in_insertion_order (ss_dag (fst (handle_deposit_forged_understanding chain_platform forge_request fed))) =
      iter_in_insertion_order (ss_dag fed) @ [n] \<and> 0 \<in> set (parent_hashes n)"
proof -
  obtain s' r where run: "handle_deposit_forged_understanding chain_platform forge_request fed = (s', r)"
    by (cases "handle_deposit_forged_understanding chain_platform forge_request fed")
  then show ?thesis
    using plates_cite_existing [OF server_inv_fed run] forge_answered by (auto simp: tip_parents_def fed_raw(3))
qed

section \<open>The end of a migration\<close>

lemma candidate_view [simp]: "ignores_log ss_migration_candidate"
  by (simp add: ignores_log_def)

lemma logs_signal: "only_logs pf ss_migration_candidate (\<lambda>_. True) (step_failed_signal pf now ev)"
  unfolding step_failed_signal_def by (intro only_logs_intros) simp_all

lemma logs_tell:
  "(\<And>x. send_migration_terminal python ty \<noteq> Abort x) \<Longrightarrow>
    only_logs pf ss_migration_candidate (\<lambda>_. True) (tell_worker pf now python ty what)"
  unfolding tell_worker_def
  by (cases "send_migration_terminal python ty") (auto intro: only_logs_return logs_signal)

lemma logs_record: "only_logs pf ss_migration_candidate (\<lambda>_. True) (record_validation pf opn current b reason)"
  unfolding record_validation_def by (intro only_logs_intros) simp_all

text \<open>An action that returns, followed by the dismissal of the candidate.\<close>

lemma forget_after:
  assumes m: "only_logs pf ss_migration_candidate (\<lambda>_. True) m" and inv: "server_inv pf s"
  shows "\<exists>s'. bind_act m (\<lambda>_. bind_act forget_candidate (\<lambda>_. lift_act saved)) s = (s', saved) \<and>
    ss_migration_candidate s' = None \<and> ss_cycle_counter s' = ss_cycle_counter s"
proof -
  obtain s1 where "m s = (s1, Ok ())" "ss_cycle_counter s1 = ss_cycle_counter s"
    using only_logsD [OF m inv] by metis
  then show ?thesis
    by (cases saved) (simp_all add: bind_act_def forget_candidate_def modify_act_def lift_act_def)
qed

lemma validate_cycle_ends:
  assumes inv: "server_inv pf s" and worker: "\<And>ty x. send_migration_terminal python ty \<noteq> Abort x"
    and over: "decide_cycle c current (validation_outcome m) \<noteq> None"
  shows "\<exists>s'. validate_cycle pf now python saved m c current s = (s', saved) \<and>
    ss_migration_candidate s' = None \<and> ss_cycle_counter s' = ss_cycle_counter s"
proof -
  obtain d where d: "decide_cycle c current (validation_outcome m) = Some d"
    using over by blast
  have emit: "only_logs pf ss_migration_candidate (\<lambda>_. True) (ignore_act (emit_substrate_event pf ty b))" for ty b
    by (rule only_logs_emit) simp_all
  show ?thesis
  proof (cases d)
    case DecideCommit
    let ?m = "bind_act (record_validation pf (op_name c) current True [])
      (\<lambda>_. bind_act (tell_worker pf now python MSG_COMMIT_MIGRATION
         (''commit_migration (op='' @ op_name c @ '') Python call failed: ''))
      (\<lambda>_. bind_act (ignore_act (emit_substrate_event pf (schema_migration_committed_node_type (op_name c))
         (encode_schema_migration_committed (op_name c) current (started_at_cycle c) (dual_validation_window_cycles c))))
      (\<lambda>_. emit_legacy_evolution_event pf (op_name c) True [])))"
    have "only_logs pf ss_migration_candidate (\<lambda>_. True) ?m"
      unfolding emit_legacy_evolution_event_def
      by (intro only_logs_bind logs_record logs_tell worker emit)
    from forget_after [OF this inv] show ?thesis
      unfolding validate_cycle_def Let_def d DecideCommit option.case commit_decision.case commit_migration_def bind_act_assoc .
  next
    case (DecideRollback reason)
    let ?m = "bind_act (record_validation pf (op_name c) current False reason)
      (\<lambda>_. bind_act (tell_worker pf now python MSG_ABORT_MIGRATION
         (''abort_migration (op='' @ op_name c @ '') Python call failed: ''))
      (\<lambda>_. bind_act (ignore_act (emit_substrate_event pf (schema_migration_rolled_back_node_type (op_name c))
         (encode_schema_migration_rolled_back (op_name c) reason current)))
      (\<lambda>_. emit_legacy_evolution_event pf (op_name c) False reason)))"
    have "only_logs pf ss_migration_candidate (\<lambda>_. True) ?m"
      unfolding emit_legacy_evolution_event_def
      by (intro only_logs_bind logs_record logs_tell worker emit)
    from forget_after [OF this inv] show ?thesis
      unfolding validate_cycle_def Let_def d DecideRollback option.case commit_decision.case roll_back_def bind_act_assoc .
  qed
qed

text \<open>
  C39. A migration never outlives its window. In the step after a cycle, a migration in flight ends, with
  the candidate dropped, exactly when the cycle diverged, the worker did not carry the candidate, or the
  window is complete, and this whether the worker then answers, fails or is gone; otherwise the candidate
  stays as it was.
\<close>

theorem migration_ends_with_window:
  assumes "server_inv pf s" and "ss_migration_candidate s = Some c"
    and "\<And>ty x. send_migration_terminal python ty \<noteq> Abort x"
    and "run_migration_step pf now python saved answer s = (s', r)"
  shows "ss_migration_candidate s' =
    (if flag_field (msg_payload answer) ''candidate_active'' \<and>
        \<not> flag_field (msg_payload answer) ''candidate_diverged'' \<and> \<not> window_complete c (ss_cycle_counter s)
     then Some c else None)"
proof -
  let ?m = "msg_payload answer"
  let ?stay = "flag_field ?m ''candidate_active'' \<and> \<not> flag_field ?m ''candidate_diverged'' \<and>
      \<not> window_complete c (ss_cycle_counter s)"
  have decision: "decide_cycle c (ss_cycle_counter s) (validation_outcome ?m) = None \<longleftrightarrow> ?stay"
    by (simp add: decide_cycle_def validation_outcome_def)
  have run: "validate_cycle pf now python saved ?m c (ss_cycle_counter s) s = (s', r)"
    using assms(2,4) by (simp add: run_migration_step_def)
  show ?thesis
  proof (cases ?stay)
    case True
    then have "only_logs pf ss_migration_candidate (\<lambda>_. True) (validate_cycle pf now python saved ?m c (ss_cycle_counter s))"
      using decision unfolding validate_cycle_def Let_def by (auto intro: only_logs_return logs_record)
    from only_logsD [OF this assms(1)] show ?thesis
      using run True assms(2) by (metis prod.inject)
  next
    case False
    then have "decide_cycle c (ss_cycle_counter s) (validation_outcome ?m) \<noteq> None"
      using decision by simp
    then obtain s1 where "validate_cycle pf now python saved ?m c (ss_cycle_counter s) s = (s1, saved)"
        "ss_migration_candidate s1 = None"
      using validate_cycle_ends [OF assms(1,3)] by blast
    then show ?thesis
      using run False by auto
  qed
qed

definition migrating :: server_state where
  "migrating = blank_state\<lparr>ss_migration_candidate :=
     Some (enter_validating 0 (candidate_new None [] ''split'' 0 3))\<rparr>"

lemma migration_ends_with_window_witness:
  "ss_migration_candidate (fst (run_migration_step chain_platform (\<lambda>_. 0) None (Ok ())
     (new_message ''run_cycle_ack'' 1 empty_payload) migrating)) = None"
proof -
  have inv: "server_inv chain_platform migrating"
    using server_inv_blank by (simp add: server_inv_def migrating_def)
  have worker: "send_migration_terminal None ty \<noteq> Abort x" for ty x
    by (simp add: send_migration_terminal_def ask_worker_def)
  obtain s' r where run: "run_migration_step chain_platform (\<lambda>_. 0) None (Ok ())
      (new_message ''run_cycle_ack'' 1 empty_payload) migrating = (s', r)"
    by fastforce
  from migration_ends_with_window [OF inv _ worker run] show ?thesis
    using run by (simp add: migrating_def flag_field_def new_message_def empty_payload_def bt_get_def)
qed

end
