(* ===== verification/Federation.thy ===== *)
theory Federation
  imports Cultivation
begin

text \<open>
  The federation with other substrates, \<^verbatim>\<open>substrate/src/federation/mod.rs\<close>: dialling a peer, the
  hellos of those that dialled us, pulling a batch of events and answering such requests. A socket
  call whose outcome the operating system decides has that outcome as an argument, and a body that
  a peer sent can make its decoder panic.
\<close>

section \<open>What the operations take from outside\<close>

text \<open>
  SHA-256, HMAC-SHA256, why Ed25519 refuses what it does not verify, and which I/O errors mean that
  nothing has arrived yet.
\<close>

record federation_env =
  fe_sha :: hash_fn
  fe_mac :: mac_fn
  fe_refusal :: "arr32 \<Rightarrow> arr64 \<Rightarrow> bytes \<Rightarrow> crypto_error"
  fe_transient :: "io_error \<Rightarrow> bool"

definition check_with :: "platform \<Rightarrow> federation_env \<Rightarrow> check_fn" where
  "check_with pf env pk sig msg = (if pf_verify pf pk sig msg then Ok () else Err (fe_refusal env pk sig msg))"

definition sign_fed_hello_if_available ::
    "platform \<Rightarrow> arr32 option \<Rightarrow> arr32 \<Rightarrow> arr32 option \<Rightarrow> arr32 option \<times> arr64 option" where
  "sign_fed_hello_if_available pf seed our dag_tip =
     (case seed of
        None \<Rightarrow> (None, None)
      | Some x \<Rightarrow>
          (Some (pf_public_key pf x),
           Some (pf_sign pf x (build_fed_hello_signing_message our dag_tip FEDERATION_PROTOCOL_VERSION))))"

definition count_egress :: "nat \<Rightarrow> federation_state \<Rightarrow> federation_state" where
  "count_egress n fs = fs\<lparr>fs_bytes_egressed := sat_add (fs_bytes_egressed fs) (word_of_nat n)\<rparr>"

definition drain_bytes_egressed :: "federation_state \<Rightarrow> u64 \<times> federation_state" where
  "drain_bytes_egressed fs = (fs_bytes_egressed fs, fs\<lparr>fs_bytes_egressed := 0\<rparr>)"

section \<open>The listener\<close>

definition open_listener ::
    "string \<Rightarrow> (unit, string) result \<Rightarrow> (string, string) result \<Rightarrow> i64 \<Rightarrow> federation_state \<Rightarrow>
      federation_state \<times> (string, substrate_error) result" where
  "open_listener addr bound resolved now fs =
     (let fs1 = fs\<lparr>fs_listener := None\<rparr> in
      case bound of
        Err e \<Rightarrow> (fs1, Err (SubProtocol (''federation listener bind '' @ addr @ '' failed: '' @ e)))
      | Abort x \<Rightarrow> (fs1, Abort x)
      | Ok _ \<Rightarrow>
          (case resolved of
             Err e \<Rightarrow> (fs1, Err (SubIo e))
           | Abort x \<Rightarrow> (fs1, Abort x)
           | Ok a \<Rightarrow> (fs1\<lparr>fs_listener := Some \<lparr>fl_bind_addr = a, fl_opened_at = now\<rparr>\<rparr>, Ok a)))"

definition close_listener :: "federation_state \<Rightarrow> string option \<times> federation_state" where
  "close_listener fs = (map_option fl_bind_addr (fs_listener fs), fs\<lparr>fs_listener := None\<rparr>)"

section \<open>Dialling a peer\<close>

datatype connect_outcome =
    ConnPinned arr32 string "arr32 option" "arr32 option" bool
  | ConnSelf string
  | ConnDrift arr32 string string
  | ConnSignatureInvalid arr32 string string
  | ConnAlreadyPinned arr32 string

definition missing_signature :: string where
  "missing_signature =
     ''missing_required_signature: legacy hellos are rejected unless MYCO_ACCEPT_LEGACY_PEERS=1''"

text \<open>Whether a hello may be pinned, and whether its signature was verified.\<close>

definition hello_trust :: "platform \<Rightarrow> federation_env \<Rightarrow> bool \<Rightarrow> parsed_fed_hello \<Rightarrow> (bool, string) result" where
  "hello_trust pf env legacy h =
     and_then (verify_fed_hello_signature (check_with pf env) h) (\<lambda>verified.
       if \<not> verified \<and> \<not> legacy then Err missing_signature else Ok verified)"

definition verified_signer :: "bool \<Rightarrow> parsed_fed_hello \<Rightarrow> arr32 option" where
  "verified_signer verified h = (if verified then fh_signer_pubkey h else None)"

text \<open>What the answer of the peer that was dialled leads to.\<close>

definition pin_dialled ::
    "arr32 \<Rightarrow> i64 \<Rightarrow> bool \<Rightarrow> parsed_fed_hello \<Rightarrow> string \<Rightarrow> tcp_stream \<Rightarrow> federation_state \<Rightarrow>
      federation_state \<times> connect_outcome" where
  "pin_dialled our now verified h addr st fs =
     (let peer = fh_peer_substrate_id h; signer = verified_signer verified h in
      if peer = our then (fs, ConnSelf addr)
      else case find (\<lambda>p. pc_substrate_id p = Some peer) (fs_peers fs) of
        Some p \<Rightarrow>
          if pc_remote_addr p \<noteq> addr then (fs, ConnDrift peer addr (pc_remote_addr p))
          else if (case (pc_signer_pubkey p, fh_signer_pubkey h) of (Some a, Some b) \<Rightarrow> a \<noteq> b | _ \<Rightarrow> False)
          then (fs, ConnDrift peer addr (pc_remote_addr p))
          else (fs, ConnAlreadyPinned peer addr)
      | None \<Rightarrow>
          (fs\<lparr>fs_peers := fs_peers fs @
             [\<lparr>pc_stream = st, pc_state = Established, pc_substrate_id = Some peer,
               pc_signer_pubkey = signer, pc_remote_addr = addr, pc_opened_at = now\<rparr>]\<rparr>,
           ConnPinned peer addr (fh_peer_dag_tip h) signer verified))"

definition read_ack :: "federation_env \<Rightarrow> tcp_stream \<Rightarrow> tcp_stream \<times> (parsed_fed_hello, substrate_error) result" where
  "read_ack env st =
     (case read_fed_frame (fe_mac env) (fe_transient env) st (federation_bootstrap_key (fe_sha env)) of
        (st1, r) \<Rightarrow>
          (st1,
           and_then (map_err (\<lambda>e. SubProtocol (''federation hello ack read: '' @ bridge_display e)) r) (\<lambda>got.
           and_then (ok_or (SubProtocol ''federation hello ack: timeout / no response'') got) (\<lambda>m.
             if message_type m \<noteq> FED_HELLO_ACK
             then Err (SubProtocol (''federation: expected fed_hello_ack; got '' @ message_type m))
             else map_err SubProtocol (parse_fed_hello_payload (msg_payload m))))))"

definition greet ::
    "platform \<Rightarrow> federation_env \<Rightarrow> arr32 \<Rightarrow> arr32 option \<Rightarrow> arr32 option \<Rightarrow> tcp_stream \<Rightarrow>
      tcp_stream \<times> (nat, bridge_error) result" where
  "greet pf env our dag_tip seed st =
     (let (signer, sig) = sign_fed_hello_if_available pf seed our dag_tip in
      write_fed_frame (fe_mac env) st (new_message FED_HELLO 1 (build_fed_hello_payload our dag_tip signer sig))
        (federation_bootstrap_key (fe_sha env)))"

definition connect_peer ::
    "platform \<Rightarrow> federation_env \<Rightarrow> (tcp_stream \<times> string, bridge_error) result \<Rightarrow> (unit, string) result \<Rightarrow> i64 \<Rightarrow>
      arr32 \<Rightarrow> arr32 option \<Rightarrow> arr32 option \<Rightarrow> federation_state \<Rightarrow>
      federation_state \<times> (connect_outcome, substrate_error) result" where
  "connect_peer pf env dialled timeout_set now our dag_tip seed fs =
     (case and_then (map_err (\<lambda>e. SubProtocol (''federation dial: '' @ bridge_display e)) dialled) (\<lambda>d.
           and_then (map_err SubIo timeout_set) (\<lambda>_. Ok d)) of
        Err e \<Rightarrow> (fs, Err e)
      | Abort x \<Rightarrow> (fs, Abort x)
      | Ok (st, addr) \<Rightarrow>
          (case greet pf env our dag_tip seed st of
             (st1, Err e) \<Rightarrow> (fs, Err (SubProtocol (''federation hello write: '' @ bridge_display e)))
           | (st1, Abort x) \<Rightarrow> (fs, Abort x)
           | (st1, Ok n) \<Rightarrow>
               (let fs1 = count_egress n fs in
                case read_ack env st1 of
                  (st2, Err e) \<Rightarrow> (fs1, Err e)
                | (st2, Abort x) \<Rightarrow> (fs1, Abort x)
                | (st2, Ok h) \<Rightarrow>
                    (case hello_trust pf env (fs_accept_legacy_peers fs) h of
                       Err reason \<Rightarrow> (fs1, Ok (ConnSignatureInvalid (fh_peer_substrate_id h) addr reason))
                     | Abort x \<Rightarrow> (fs1, Abort x)
                     | Ok verified \<Rightarrow>
                         (case pin_dialled our now verified h addr st2 fs1 of (fs2, out) \<Rightarrow> (fs2, Ok out))))))"

section \<open>Peers that dialled us\<close>

text \<open>The connections queued at the listener, and the error that ends the queue if one does.\<close>

definition accepted_peer :: "i64 \<Rightarrow> tcp_stream \<times> string \<Rightarrow> peer_connection" where
  "accepted_peer now c =
     \<lparr>pc_stream = fst c, pc_state = AwaitingHello, pc_substrate_id = None, pc_signer_pubkey = None,
      pc_remote_addr = snd c, pc_opened_at = now\<rparr>"

definition accept_pending ::
    "(tcp_stream \<times> string) list \<Rightarrow> string option \<Rightarrow> i64 \<Rightarrow> federation_state \<Rightarrow>
      federation_state \<times> (nat, substrate_error) result" where
  "accept_pending queue broken now fs =
     (if fs_listener fs = None then (fs, Ok 0)
      else (fs\<lparr>fs_peers := fs_peers fs @ map (accepted_peer now) queue\<rparr>,
        case broken of Some e \<Rightarrow> Err (SubIo e) | None \<Rightarrow> Ok (length queue)))"

datatype poll_peer_event =
    PollPinned arr32 string "arr32 option" "arr32 option" bool
  | PollSelf string
  | PollSignatureInvalid arr32 string string
  | PollFailedRead string string
  | PollEventsSent arr32 "arr32 list"
  | PollEgressBlocked arr32 string
  | PollVersion arr32 string u64 u64

text \<open>What a pass does with one connection: what it becomes, what happened, the bytes sent, whether it goes.\<close>

record peer_turn =
  pt_peer :: peer_connection
  pt_events :: "poll_peer_event list"
  pt_egress :: nat
  pt_sent :: nat
  pt_remove :: bool

definition idle_turn :: "peer_connection \<Rightarrow> peer_turn" where
  "idle_turn p = \<lparr>pt_peer = p, pt_events = [], pt_egress = 0, pt_sent = 0, pt_remove = False\<rparr>"

definition drop_turn :: "peer_connection \<Rightarrow> poll_peer_event \<Rightarrow> peer_turn" where
  "drop_turn p e = (idle_turn (p\<lparr>pc_state := Failed\<rparr>))\<lparr>pt_events := [e], pt_remove := True\<rparr>"

definition failed_read :: "peer_connection \<Rightarrow> string \<Rightarrow> poll_peer_event" where
  "failed_read p reason = PollFailedRead (pc_remote_addr p) reason"

definition send_fed_error :: "federation_env \<Rightarrow> string \<Rightarrow> string \<Rightarrow> peer_connection \<Rightarrow> peer_connection" where
  "send_fed_error env code what p =
     p\<lparr>pc_stream := fst (write_fed_frame (fe_mac env) (pc_stream p)
       (new_message FED_ERROR 0 (build_fed_error_payload code what)) (federation_bootstrap_key (fe_sha env)))\<rparr>"

definition version_mismatch :: "u64 \<Rightarrow> string" where
  "version_mismatch v = ''federation protocol version mismatch: peer v='' @ decimal (unat v) @ '', ours v='' @
     decimal (unat FEDERATION_PROTOCOL_VERSION) @ '' (C61 '' @ em_dash @
     '' pair not registered in FEDERATION_VERSION_COMPATIBILITY_MATRIX)''"

definition acknowledge ::
    "federation_env \<Rightarrow> vmap \<Rightarrow> u64 \<Rightarrow> bool \<Rightarrow> parsed_fed_hello \<Rightarrow> peer_connection \<Rightarrow> (peer_turn, 'e) result" where
  "acknowledge env ack rid verified h p =
     (let signer = verified_signer verified h in
      case write_fed_frame (fe_mac env) (pc_stream p) (new_message FED_HELLO_ACK rid ack)
          (federation_bootstrap_key (fe_sha env)) of
        (st, Ok n) \<Rightarrow>
          Ok ((idle_turn (p\<lparr>pc_stream := st, pc_state := Established,
                 pc_substrate_id := Some (fh_peer_substrate_id h),
                 pc_signer_pubkey := (if verified then fh_signer_pubkey h else pc_signer_pubkey p)\<rparr>))
               \<lparr>pt_egress := n,
                pt_events := [PollPinned (fh_peer_substrate_id h) (pc_remote_addr p) (fh_peer_dag_tip h)
                  signer verified]\<rparr>)
      | (st, Err e) \<Rightarrow>
          Ok (drop_turn (p\<lparr>pc_stream := st\<rparr>) (failed_read p (''send fed_hello_ack: '' @ bridge_display e)))
      | (st, Abort x) \<Rightarrow> Abort x)"

definition answer_hello ::
    "platform \<Rightarrow> federation_env \<Rightarrow> bool \<Rightarrow> arr32 \<Rightarrow> vmap \<Rightarrow> u64 \<Rightarrow> parsed_fed_hello \<Rightarrow> peer_connection \<Rightarrow>
      (peer_turn, 'e) result" where
  "answer_hello pf env legacy our ack rid h p =
     (let peer = fh_peer_substrate_id h; v = fh_protocol_version h in
      if \<not> federation_versions_interoperable FEDERATION_PROTOCOL_VERSION v
      then Ok (drop_turn (send_fed_error env ''protocol_version_mismatch'' (version_mismatch v) p)
             (PollVersion peer (pc_remote_addr p) v FEDERATION_PROTOCOL_VERSION))
      else case hello_trust pf env legacy h of
        Err reason \<Rightarrow>
          Ok (drop_turn (send_fed_error env ''hello_signature_invalid'' reason p)
            (PollSignatureInvalid peer (pc_remote_addr p) reason))
      | Abort x \<Rightarrow> Abort x
      | Ok verified \<Rightarrow>
          if peer = our
          then Ok (drop_turn (send_fed_error env ''self_connection'' ''peer id is self'' p) (PollSelf (pc_remote_addr p)))
          else acknowledge env ack rid verified h p)"

definition hello_turn ::
    "platform \<Rightarrow> federation_env \<Rightarrow> bool \<Rightarrow> arr32 \<Rightarrow> vmap \<Rightarrow> peer_connection \<Rightarrow> (peer_turn, 'e) result" where
  "hello_turn pf env legacy our ack p0 =
     (if pc_state p0 \<noteq> AwaitingHello then Ok (idle_turn p0)
      else case read_fed_frame (fe_mac env) (fe_transient env) (pc_stream p0)
          (federation_bootstrap_key (fe_sha env)) of
        (st, r) \<Rightarrow>
          (let p = p0\<lparr>pc_stream := st\<rparr> in
           case r of
             Abort x \<Rightarrow> Abort x
           | Err e \<Rightarrow> Ok (drop_turn p (failed_read p (bridge_display e)))
           | Ok None \<Rightarrow> Ok (idle_turn p)
           | Ok (Some m) \<Rightarrow>
               if message_type m \<noteq> FED_HELLO
               then Ok (drop_turn p (failed_read p (''expected fed_hello as first frame; got '' @ message_type m)))
               else (case parse_fed_hello_payload (msg_payload m) of
                       Abort x \<Rightarrow> Abort x
                     | Err e \<Rightarrow> Ok (drop_turn p (failed_read p (''parse fed_hello: '' @ e)))
                     | Ok h \<Rightarrow> answer_hello pf env legacy our ack (request_id m) h p)))"

section \<open>Requests for events\<close>

fun skip_until :: "arr32 \<Rightarrow> dag_node list \<Rightarrow> dag_node list" where
  "skip_until h [] = []"
| "skip_until h (n # ns) = (if node_hash n = h then ns else skip_until h ns)"

definition event_of_node :: "dag_node \<Rightarrow> event_for_federation" where
  "event_of_node n = \<lparr>ev_parent_hashes = parent_hashes n, ev_node_type = node_type n,
     ev_created_at_cycle = created_at_cycle n, ev_content = content n\<rparr>"

definition enumerate_events_for_federation :: "dag \<Rightarrow> arr32 option \<Rightarrow> nat \<Rightarrow> event_for_federation list" where
  "enumerate_events_for_federation d since k =
     (let ns = iter_in_insertion_order d in
      map event_of_node (take k (case since of None \<Rightarrow> ns | Some h \<Rightarrow> skip_until h ns)))"

definition serve_request ::
    "platform \<Rightarrow> federation_env \<Rightarrow> arr32 \<Rightarrow> dag \<Rightarrow> arr32 \<Rightarrow> message \<Rightarrow> peer_connection \<Rightarrow> (peer_turn, 'e) result" where
  "serve_request pf env key d peer m p =
     (case parse_request_events_since_payload (msg_payload m) of
        Err e \<Rightarrow> Ok ((idle_turn p)\<lparr>pt_events := [failed_read p (''parse REQ_EVENTS_SINCE: '' @ e)]\<rparr>)
      | Abort x \<Rightarrow> Abort x
      | Ok (since, k) \<Rightarrow>
          (let evs = enumerate_events_for_federation d since (unat k);
               hashes = map (\<lambda>e. merkle_hash (pf_hash pf) (ev_parent_hashes e) (ev_content e)) evs;
               batch = build_event_batch_payload evs (length evs < unat k)
           in case write_fed_frame (fe_mac env) (pc_stream p)
                (new_message FED_EVENT_BATCH (request_id m) batch) key of
                (st, Ok n) \<Rightarrow>
                  Ok ((idle_turn (p\<lparr>pc_stream := st\<rparr>))\<lparr>pt_egress := n, pt_sent := length evs,
                    pt_events := [PollEventsSent peer hashes]\<rparr>)
              | (st, Err e) \<Rightarrow>
                  Ok (drop_turn (p\<lparr>pc_stream := st\<rparr>) (failed_read p (''send EVENT_BATCH: '' @ bridge_display e)))
              | (st, Abort x) \<Rightarrow> Abort x))"

definition request_turn ::
    "platform \<Rightarrow> federation_env \<Rightarrow> arr32 \<Rightarrow> dag \<Rightarrow> arr32 list \<Rightarrow> peer_connection \<Rightarrow> (peer_turn, 'e) result" where
  "request_turn pf env our d revoked p0 =
     (case (pc_state p0, pc_substrate_id p0) of
        (Established, Some peer) \<Rightarrow>
          (let key = derive_federation_session_key (fe_sha env) our peer in
           case read_fed_frame (fe_mac env) (fe_transient env) (pc_stream p0) key of
             (st, r) \<Rightarrow>
               (let p = p0\<lparr>pc_stream := st\<rparr> in
                case r of
                  Abort x \<Rightarrow> Abort x
                | Err e \<Rightarrow> Ok (drop_turn p (failed_read p (''established read: '' @ bridge_display e)))
                | Ok None \<Rightarrow> Ok (idle_turn p)
                | Ok (Some m) \<Rightarrow>
                    if message_type m \<noteq> FED_REQUEST_EVENTS_SINCE then Ok (idle_turn p)
                    else if peer \<in> set revoked
                    then Ok ((idle_turn p)\<lparr>pt_events := [PollEgressBlocked peer (pc_remote_addr p)]\<rparr>)
                    else serve_request pf env key d peer m p))
      | _ \<Rightarrow> Ok (idle_turn p0))"

section \<open>A pass over the connections\<close>

text \<open>The index is one of the list's.\<close>

definition swap_remove :: "nat \<Rightarrow> 'a list \<Rightarrow> 'a list" where
  "swap_remove i xs = butlast (xs[i := last xs])"

definition marked :: "peer_turn list \<Rightarrow> nat list" where
  "marked ts = filter (\<lambda>i. pt_remove (ts ! i)) [0..<length ts]"

definition sweep :: "peer_turn list \<Rightarrow> peer_connection list" where
  "sweep ts = fold swap_remove (rev (marked ts)) (map pt_peer ts)"

definition pass ::
    "(peer_connection \<Rightarrow> (peer_turn, 'e) result) \<Rightarrow> federation_state \<Rightarrow>
      (federation_state \<times> poll_peer_event list, 'e) result" where
  "pass turn fs =
     and_then (traverse turn (fs_peers fs)) (\<lambda>ts.
       Ok (fs\<lparr>fs_peers := sweep ts,
              fs_bytes_egressed := fold (\<lambda>t n. sat_add n (word_of_nat (pt_egress t))) ts (fs_bytes_egressed fs),
              fs_events_sent_total := fold (\<lambda>t n. sat_add n (word_of_nat (pt_sent t))) ts (fs_events_sent_total fs)\<rparr>,
           concat (map pt_events ts)))"

definition progress_awaiting_hello_peers ::
    "platform \<Rightarrow> federation_env \<Rightarrow> arr32 \<Rightarrow> arr32 option \<Rightarrow> arr32 option \<Rightarrow> federation_state \<Rightarrow>
      (federation_state \<times> poll_peer_event list, 'e) result" where
  "progress_awaiting_hello_peers pf env our dag_tip seed fs =
     (let (signer, sig) = sign_fed_hello_if_available pf seed our dag_tip;
          ack = build_fed_hello_ack_payload our dag_tip signer sig
      in pass (hello_turn pf env (fs_accept_legacy_peers fs) our ack) fs)"

definition progress_peers ::
    "platform \<Rightarrow> federation_env \<Rightarrow> arr32 \<Rightarrow> arr32 option \<Rightarrow> arr32 option \<Rightarrow> dag \<Rightarrow> arr32 list \<Rightarrow> federation_state \<Rightarrow>
      (federation_state \<times> poll_peer_event list, 'e) result" where
  "progress_peers pf env our dag_tip seed d revoked fs =
     and_then (progress_awaiting_hello_peers pf env our dag_tip seed fs) (\<lambda>(fs1, evs1).
     and_then (pass (request_turn pf env our d revoked) fs1) (\<lambda>(fs2, evs2).
       Ok (fs2, evs1 @ evs2)))"

section \<open>Pulling events\<close>

definition find_established_peer :: "arr32 \<Rightarrow> federation_state \<Rightarrow> nat option" where
  "find_established_peer peer fs =
     Prelude.position (\<lambda>p. pc_substrate_id p = Some peer \<and> pc_state p = Established) (fs_peers fs)"

definition read_batch ::
    "federation_env \<Rightarrow> arr32 \<Rightarrow> tcp_stream \<Rightarrow> tcp_stream \<times> (event_for_federation list \<times> bool, substrate_error) result" where
  "read_batch env key st =
     (case read_fed_frame (fe_mac env) (fe_transient env) st key of
        (st1, r) \<Rightarrow>
          (st1,
           and_then (map_err (\<lambda>e. SubProtocol (''pull resp read: '' @ bridge_display e)) r) (\<lambda>got.
           and_then (ok_or (SubProtocol ''pull_events_from_peer: timeout / no FED_EVENT_BATCH response'') got) (\<lambda>m.
             if message_type m \<noteq> FED_EVENT_BATCH
             then Err (SubProtocol (''pull_events_from_peer: expected fed_event_batch; got '' @ message_type m))
             else map_err SubProtocol (parse_event_batch_payload (msg_payload m))))))"

definition pull_events_from_peer ::
    "federation_env \<Rightarrow> (unit, string) result \<Rightarrow> arr32 \<Rightarrow> arr32 option \<Rightarrow> arr32 \<Rightarrow> u64 \<Rightarrow> federation_state \<Rightarrow>
      federation_state \<times> (event_for_federation list \<times> bool, substrate_error) result" where
  "pull_events_from_peer env timeout_set peer since our k fs =
     (case find_established_peer peer fs of
        None \<Rightarrow> (fs, Err (SubProtocol ''pull_events_from_peer: peer not found or not Established''))
      | Some i \<Rightarrow>
          (let key = derive_federation_session_key (fe_sha env) our peer;
               p = fs_peers fs ! i;
               put = (\<lambda>st f. f\<lparr>fs_peers := (fs_peers f)[i := p\<lparr>pc_stream := st\<rparr>]\<rparr>)
           in case timeout_set of
                Err e \<Rightarrow> (fs, Err (SubIo e))
              | Abort x \<Rightarrow> (fs, Abort x)
              | Ok _ \<Rightarrow>
                  (case write_fed_frame (fe_mac env) (pc_stream p)
                      (new_message FED_REQUEST_EVENTS_SINCE 1 (build_request_events_since_payload since k)) key of
                     (st, Err e) \<Rightarrow> (put st fs, Err (SubProtocol (''pull req write: '' @ bridge_display e)))
                   | (st, Abort x) \<Rightarrow> (put st fs, Abort x)
                   | (st, Ok n) \<Rightarrow>
                       (case read_batch env key st of
                          (st1, r) \<Rightarrow> (put st1 (count_egress n fs), r)))))"

end
