(* ===== verification/Federation_Handlers.thy ===== *)
theory Federation_Handlers
  imports Federation Consensus Log_Actions
begin

text \<open>
  The operator's requests about the federation, \<^verbatim>\<open>substrate/src/federation/handlers.rs\<close>: the
  listener, connecting, polling, linking to the parent, the status, and pulling a peer's events,
  which are stored only inside envelopes of our own after every layer of them was judged.
  \<open>stamp\<close> and \<open>observed\<close> are what the system clock reads for an event and for a signal.
\<close>

section \<open>Running the federation's operations on the substrate\<close>

definition on_federation ::
    "(federation_state \<Rightarrow> federation_state \<times> ('a, substrate_error) result) \<Rightarrow> 'a action" where
  "on_federation f s = (case f (ss_federation s) of (fs, r) \<Rightarrow> (s\<lparr>ss_federation := fs\<rparr>, r))"

definition poll_federation ::
    "(federation_state \<Rightarrow> (federation_state \<times> 'a, substrate_error) result) \<Rightarrow> 'a action" where
  "poll_federation f s =
     (case f (ss_federation s) of
        Ok (fs, a) \<Rightarrow> (s\<lparr>ss_federation := fs\<rparr>, Ok a)
      | Err e \<Rightarrow> (s, Err e)
      | Abort x \<Rightarrow> (s, Abort x))"

definition nonempty_field :: "message \<Rightarrow> string \<Rightarrow> string \<Rightarrow> string action" where
  "nonempty_field request k refusal =
     lift_act (case bt_get (msg_payload request) k of
         Some (VString a) \<Rightarrow> if a \<noteq> [] then Ok a else Err (SubProtocol refusal)
       | _ \<Rightarrow> Err (SubProtocol refusal))"

section \<open>The listener\<close>

definition MSG_FEDERATION_OPEN_LISTENER_RESPONSE :: string where
  "MSG_FEDERATION_OPEN_LISTENER_RESPONSE = ''federation_open_listener_response''"
definition MSG_FEDERATION_CLOSE_LISTENER_RESPONSE :: string where
  "MSG_FEDERATION_CLOSE_LISTENER_RESPONSE = ''federation_close_listener_response''"
definition MSG_FEDERATION_STATUS_RESPONSE :: string where
  "MSG_FEDERATION_STATUS_RESPONSE = ''federation_status_response''"
definition MSG_FEDERATION_CONNECT_PEER_RESPONSE :: string where
  "MSG_FEDERATION_CONNECT_PEER_RESPONSE = ''federation_connect_peer_response''"
definition MSG_FEDERATION_POLL_RESPONSE :: string where
  "MSG_FEDERATION_POLL_RESPONSE = ''federation_poll_response''"
definition MSG_FEDERATION_PULL_EVENTS_FROM_PEER_RESPONSE :: string where
  "MSG_FEDERATION_PULL_EVENTS_FROM_PEER_RESPONSE = ''federation_pull_events_from_peer_response''"
definition MSG_FEDERATION_LINK_TO_PARENT_FROM_HINT_RESPONSE :: string where
  "MSG_FEDERATION_LINK_TO_PARENT_FROM_HINT_RESPONSE = ''federation_link_to_parent_from_hint_response''"

definition handle_federation_open_listener ::
    "platform \<Rightarrow> (unit, string) result \<Rightarrow> (string, string) result \<Rightarrow> i64 \<Rightarrow> message \<Rightarrow> message option action" where
  "handle_federation_open_listener pf bound resolved now request =
     bind_act (nonempty_field request ''bind_addr'' ''federation_open_listener: bind_addr must be non-empty String'') (\<lambda>addr.
     bind_act (on_federation (open_listener addr bound resolved now)) (\<lambda>local_addr s.
       bind_act (emit_substrate_event pf NODE_TYPE_FEDERATION_LISTENER_OPENED
         (encode_federation_listener_opened local_addr
           (case fs_listener (ss_federation s) of Some l \<Rightarrow> fl_opened_at l | None \<Rightarrow> 0))) (\<lambda>h.
         return_act (response MSG_FEDERATION_OPEN_LISTENER_RESPONSE request
           [(''bind_addr'', VString local_addr), (''listener_opened_event_hash'', VBytes (arr32_bytes h))])) s))"

definition handle_federation_close_listener :: "platform \<Rightarrow> i64 \<Rightarrow> message \<Rightarrow> message option action" where
  "handle_federation_close_listener pf stamp request =
     bind_act (on_federation (\<lambda>fs. case close_listener fs of (a, fs1) \<Rightarrow> (fs1, Ok a))) (\<lambda>prior.
       case prior of
         Some a \<Rightarrow>
           bind_act (emit_substrate_event pf NODE_TYPE_FEDERATION_LISTENER_CLOSED
             (encode_federation_listener_closed a stamp)) (\<lambda>h.
             return_act (response MSG_FEDERATION_CLOSE_LISTENER_RESPONSE request
               [(''was_listening'', VBool True), (''prior_bind_addr'', VString a),
                (''listener_closed_event_hash'', VBytes (arr32_bytes h))]))
       | None \<Rightarrow>
           return_act (response MSG_FEDERATION_CLOSE_LISTENER_RESPONSE request
             [(''was_listening'', VBool False), (''prior_bind_addr'', VString [])]))"

definition handle_federation_status :: "message \<Rightarrow> message option action" where
  "handle_federation_status request s =
     (let fs = ss_federation s; addr = map_option fl_bind_addr (fs_listener fs) in
      return_act (response MSG_FEDERATION_STATUS_RESPONSE request
        [(''is_listening'', VBool (addr \<noteq> None)),
         (''bind_addr'', VString (case addr of Some a \<Rightarrow> a | None \<Rightarrow> [])),
         (''peer_count'', VUint (word_of_nat (length (fs_peers fs)))),
         (''events_received_total'', VUint (fs_events_received_total fs)),
         (''events_sent_total'', VUint (fs_events_sent_total fs))]) s)"

section \<open>Events about peers\<close>

definition emit_federation_peer_pinned ::
    "platform \<Rightarrow> arr32 \<Rightarrow> string \<Rightarrow> i64 \<Rightarrow> arr32 option \<Rightarrow> arr32 action" where
  "emit_federation_peer_pinned pf peer addr stamp signer =
     emit_substrate_event pf (federation_peer_pinned_node_type peer)
       (encode_federation_peer_pinned peer addr stamp signer)"

definition emit_federation_legacy_peer_pinned :: "platform \<Rightarrow> arr32 \<Rightarrow> string \<Rightarrow> i64 \<Rightarrow> arr32 action" where
  "emit_federation_legacy_peer_pinned pf peer addr stamp =
     emit_substrate_event pf (federation_legacy_peer_pinned_node_type peer)
       (encode_federation_legacy_peer_pinned peer addr stamp)"

definition emit_federation_peer_revoked ::
    "platform \<Rightarrow> arr32 \<Rightarrow> arr32 \<Rightarrow> string \<Rightarrow> u64 \<Rightarrow> arr64 \<Rightarrow> arr32 \<Rightarrow> arr32 option action" where
  "emit_federation_peer_revoked pf peer key reason anchor sig owner s0 =
     (if peer \<in> set (ss_revoked_peers s0) then return_act None s0
      else bind_act (emit_substrate_event pf (federation_peer_revoked_node_type peer)
             (encode_federation_peer_revoked peer key reason anchor sig owner)) (\<lambda>h s.
             (s\<lparr>ss_revoked_peers := peer # ss_revoked_peers s\<rparr>, Ok (Some h))) s0)"

definition emit_federation_hello_signature_invalid ::
    "platform \<Rightarrow> i64 \<Rightarrow> arr32 \<Rightarrow> string \<Rightarrow> string \<Rightarrow> unit action" where
  "emit_federation_hello_signature_invalid pf observed peer addr reason =
     ignore_act (emit_immune_sporocarp pf observed ''C39_federation_hello_signature_invalid''
       ''federation_hello_signature_invalid''
       (''fed_hello signature verification failed: peer_id_prefix='' @ hex_first_8_bytes peer @
        '' remote='' @ addr @ '' reason='' @ reason))"

definition emit_federation_peer_rejected ::
    "platform \<Rightarrow> i64 \<Rightarrow> i64 \<Rightarrow> arr32 \<Rightarrow> arr32 \<Rightarrow> string \<Rightarrow> string \<Rightarrow> unit action" where
  "emit_federation_peer_rejected pf stamp observed offered pinned addr reason =
     bind_act (ignore_act (emit_substrate_event pf (federation_peer_rejected_node_type offered)
       (encode_federation_peer_rejected offered pinned addr stamp reason))) (\<lambda>_.
     ignore_act (emit_immune_sporocarp pf observed ''C33_federation_peer_identity_mismatch''
       ''federation_identity_mismatch_detected''
       (''federation_peer_rejected: offered_id_prefix='' @ hex_first_8_bytes offered @ '' reason='' @ reason)))"

text \<open>The pin of a peer and, when no signature was verified, that it is a legacy one.\<close>

definition note_legacy :: "platform \<Rightarrow> arr32 \<Rightarrow> string \<Rightarrow> i64 \<Rightarrow> bool \<Rightarrow> unit action" where
  "note_legacy pf peer addr stamp verified =
     (if verified then return_act () else ignore_act (emit_federation_legacy_peer_pinned pf peer addr stamp))"

section \<open>Connecting to a peer\<close>

definition connect_fields :: "connect_outcome \<Rightarrow> arr32 option \<Rightarrow> (string \<times> Value) list" where
  "connect_fields out h =
     (case out of
        ConnPinned peer addr dag_tip signer verified \<Rightarrow>
          [(''outcome'', VString ''pinned''), (''peer_substrate_id'', VBytes (arr32_bytes peer))] @
          optional ''peer_dag_tip'' (\<lambda>t. VBytes (arr32_bytes t)) dag_tip @
          optional ''peer_pinned_event_hash'' (\<lambda>x. VBytes (arr32_bytes x)) h @
          optional ''peer_signer_pubkey'' (\<lambda>k. VBytes (arr32_bytes k)) signer @
          [(''signature_verified'', VBool verified)]
      | ConnSelf addr \<Rightarrow> [(''outcome'', VString ''self_connection''), (''remote_addr'', VString addr)]
      | ConnDrift peer addr _ \<Rightarrow>
          [(''outcome'', VString ''identity_drift''), (''peer_substrate_id'', VBytes (arr32_bytes peer)),
           (''remote_addr'', VString addr)]
      | ConnSignatureInvalid peer addr reason \<Rightarrow>
          [(''outcome'', VString ''hello_signature_invalid''), (''peer_substrate_id'', VBytes (arr32_bytes peer)),
           (''remote_addr'', VString addr), (''reason'', VString reason)]
      | ConnAlreadyPinned peer addr \<Rightarrow>
          [(''outcome'', VString ''already_pinned''), (''peer_substrate_id'', VBytes (arr32_bytes peer)),
           (''remote_addr'', VString addr)])"

text \<open>What a connection's outcome writes to the log; the hash is that of a new pin's event.\<close>

definition record_outcome :: "platform \<Rightarrow> i64 \<Rightarrow> i64 \<Rightarrow> connect_outcome \<Rightarrow> arr32 option action" where
  "record_outcome pf stamp observed out =
     (case out of
        ConnPinned peer addr _ signer verified \<Rightarrow>
          bind_act (emit_federation_peer_pinned pf peer addr stamp signer) (\<lambda>h.
          bind_act (note_legacy pf peer addr stamp verified) (\<lambda>_. return_act (Some h)))
      | ConnDrift peer addr prior \<Rightarrow>
          bind_act (emit_federation_peer_rejected pf stamp observed peer peer addr
            (''identity drift: id previously pinned at '' @ prior @ ''; new connection at '' @ addr))
            (\<lambda>_. return_act None)
      | ConnSignatureInvalid peer addr reason \<Rightarrow>
          bind_act (emit_federation_hello_signature_invalid pf observed peer addr reason) (\<lambda>_. return_act None)
      | _ \<Rightarrow> return_act None)"

definition dial_from ::
    "platform \<Rightarrow> federation_env \<Rightarrow> (string \<Rightarrow> (tcp_stream \<times> string, bridge_error) result) \<Rightarrow> (unit, string) result \<Rightarrow>
      i64 \<Rightarrow> string \<Rightarrow> connect_outcome action" where
  "dial_from pf env dial timeout_set opened addr s =
     on_federation (connect_peer pf env (dial addr) timeout_set opened (substrate_id s) (tip (ss_dag s))
       (Some (ss_signing_seed s))) s"

definition handle_federation_connect_peer ::
    "platform \<Rightarrow> federation_env \<Rightarrow> (string \<Rightarrow> (tcp_stream \<times> string, bridge_error) result) \<Rightarrow> (unit, string) result \<Rightarrow>
      i64 \<Rightarrow> i64 \<Rightarrow> i64 \<Rightarrow> message \<Rightarrow> message option action" where
  "handle_federation_connect_peer pf env dial timeout_set opened stamp observed request s0 =
     bind_act (nonempty_field request ''remote_addr'' ''federation_connect_peer: remote_addr must be non-empty String'') (\<lambda>addr.
     bind_act (dial_from pf env dial timeout_set opened addr) (\<lambda>out.
     bind_act (record_outcome pf stamp observed out) (\<lambda>h.
     bind_act (emit_consensus_floor_crossing_if_needed pf (length (fs_peers (ss_federation s0)))) (\<lambda>_.
       return_act (response MSG_FEDERATION_CONNECT_PEER_RESPONSE request
         ((''remote_addr'', VString addr) # connect_fields out h)))))) s0"

section \<open>Polling\<close>

text \<open>The sentences that the request and the autonomous tick word differently.\<close>

record poll_wording =
  pw_self :: string
  pw_frame :: string
  pw_version :: string
  pw_blocked :: "arr32 \<Rightarrow> string \<Rightarrow> string"

definition poll_words :: poll_wording where
  "poll_words =
     \<lparr>pw_self = ''inbound peer claimed our own substrate_id (self-connection)'',
      pw_frame = ''frame read failure: '', pw_version = [],
      pw_blocked = (\<lambda>peer addr.
        ''federation_egress_blocked: outbound FED_EVENT_BATCH to peer '' @ hex_first_8_bytes peer @
        '' (remote='' @ addr @ '') suppressed pre-emission '' @ em_dash @
        '' peer is on the owner-revocation list (L1/GOVERNANCE '' @ section_sign @ ''5.2)'')\<rparr>"

definition version_evidence :: "string \<Rightarrow> arr32 \<Rightarrow> string \<Rightarrow> u64 \<Rightarrow> u64 \<Rightarrow> string" where
  "version_evidence suffix peer addr theirs ours =
     ''federation protocol version mismatch at fed_hello: peer.substrate_id='' @ to_hex peer @ '' from '' @
     addr @ '' declared protocol_version='' @ decimal (unat theirs) @ '', our version='' @ decimal (unat ours) @ suffix"

definition record_poll_event ::
    "platform \<Rightarrow> poll_wording \<Rightarrow> arr32 \<Rightarrow> i64 \<Rightarrow> i64 \<times> i64 \<times> poll_peer_event \<Rightarrow> unit action" where
  "record_poll_event pf w our now = (\<lambda>(stamp, observed, ev).
     case ev of
       PollPinned peer addr _ signer verified \<Rightarrow>
         bind_act (ignore_act (emit_federation_peer_pinned pf peer addr now signer))
           (\<lambda>_. note_legacy pf peer addr now verified)
     | PollSelf addr \<Rightarrow> emit_federation_peer_rejected pf stamp observed our our addr (pw_self w)
     | PollSignatureInvalid peer addr reason \<Rightarrow>
         emit_federation_hello_signature_invalid pf observed peer addr reason
     | PollVersion peer addr theirs ours \<Rightarrow>
         ignore_act (emit_immune_sporocarp pf observed ''C61_federation_protocol_version_mismatch''
           ''federation_protocol_version_mismatch'' (version_evidence (pw_version w) peer addr theirs ours))
     | PollFailedRead addr reason \<Rightarrow>
         emit_federation_peer_rejected pf stamp observed 0 our addr (pw_frame w @ reason)
     | PollEventsSent peer hashes \<Rightarrow>
         ignore_act (emit_substrate_event pf NODE_TYPE_FEDERATION_EVENTS_SENT
           (encode_federation_events_sent peer hashes now))
     | PollEgressBlocked peer addr \<Rightarrow>
         ignore_act (emit_immune_sporocarp pf observed ''C13_peer_attestation_revoked_egress''
           ''peer_attestation_revoked_egress'' (pw_blocked w peer addr)))"

text \<open>The clock readings of each event by its position.\<close>

definition record_poll_events ::
    "platform \<Rightarrow> poll_wording \<Rightarrow> arr32 \<Rightarrow> i64 \<Rightarrow> (nat \<Rightarrow> i64 \<times> i64) \<Rightarrow> poll_peer_event list \<Rightarrow> unit action" where
  "record_poll_events pf w our now clk evs =
     each_act (record_poll_event pf w our now)
       (map (\<lambda>(i, e). (fst (clk i), snd (clk i), e)) (zip [0..<length evs] evs))"

fun is_pinned :: "poll_peer_event \<Rightarrow> bool" where
  "is_pinned (PollPinned _ _ _ _ _) = True"
| "is_pinned _ = False"

fun is_rejected :: "poll_peer_event \<Rightarrow> bool" where
  "is_rejected (PollSelf _) = True"
| "is_rejected (PollSignatureInvalid _ _ _) = True"
| "is_rejected (PollVersion _ _ _ _) = True"
| "is_rejected (PollFailedRead _ _) = True"
| "is_rejected _ = False"

fun is_batch_sent :: "poll_peer_event \<Rightarrow> bool" where
  "is_batch_sent (PollEventsSent _ _) = True"
| "is_batch_sent _ = False"

fun is_egress_blocked :: "poll_peer_event \<Rightarrow> bool" where
  "is_egress_blocked (PollEgressBlocked _ _) = True"
| "is_egress_blocked _ = False"

definition count_events :: "(poll_peer_event \<Rightarrow> bool) \<Rightarrow> poll_peer_event list \<Rightarrow> Value" where
  "count_events P evs = VUint (word_of_nat (length (filter P evs)))"

definition progress_all :: "platform \<Rightarrow> federation_env \<Rightarrow> poll_peer_event list action" where
  "progress_all pf env s =
     poll_federation (progress_peers pf env (substrate_id s) (tip (ss_dag s)) (Some (ss_signing_seed s))
       (ss_dag s) (ss_revoked_peers s)) s"

definition handle_federation_poll ::
    "platform \<Rightarrow> federation_env \<Rightarrow> (tcp_stream \<times> string) list \<Rightarrow> string option \<Rightarrow> i64 \<Rightarrow> i64 \<Rightarrow> (nat \<Rightarrow> i64 \<times> i64) \<Rightarrow>
      message \<Rightarrow> message option action" where
  "handle_federation_poll pf env queue broken opened now clk request s0 =
     bind_act (on_federation (accept_pending queue broken opened)) (\<lambda>accepted.
     bind_act (progress_all pf env) (\<lambda>evs.
     bind_act (record_poll_events pf poll_words (substrate_id s0) now clk evs) (\<lambda>_.
     bind_act (emit_consensus_floor_crossing_if_needed pf (length (fs_peers (ss_federation s0)))) (\<lambda>_ s.
       return_act (response MSG_FEDERATION_POLL_RESPONSE request
         [(''accepted_connections'', VUint (word_of_nat accepted)),
          (''pinned_peers'', count_events is_pinned evs), (''rejected_peers'', count_events is_rejected evs),
          (''event_batches_sent'', count_events is_batch_sent evs),
          (''consensus_floor_active'', VBool (consensus_floor_active s)),
          (''egress_blocked_revoked'', count_events is_egress_blocked evs)]) s)))) s0"

end
