(* ===== verification/Federation_Pull.thy ===== *)
theory Federation_Pull
  imports Federation_Handlers Absorption
begin

text \<open>
  Taking in what a peer says, \<^verbatim>\<open>substrate/src/federation/handlers.rs\<close>: the recursive judgement of an
  event and of every event wrapped in it, the envelopes that a pull stores, and the link to the
  parent that a birth hinted at.
\<close>

section \<open>Judging an event\<close>

definition MAX_FEDERATION_RECURSION_DEPTH :: nat where
  "MAX_FEDERATION_RECURSION_DEPTH = 5"

datatype federation_recursion_reject =
    DepthExceeded nat
  | BannedInnerType nat string
  | MalformedWrapper nat string

text \<open>The event inside an envelope; \<open>k\<close> is the envelope's depth.\<close>

definition unwrap :: "bytes \<Rightarrow> nat \<Rightarrow> (string \<times> bytes, federation_recursion_reject) result" where
  "unwrap c k =
     and_then (case decode c of
         Ok (VMap m) \<Rightarrow> Ok m
       | Ok _ \<Rightarrow> Err (MalformedWrapper k ''federation_received wrapper content is not a Map'')
       | Err e \<Rightarrow> Err (MalformedWrapper k (''federation_received wrapper content decode failed: '' @ cb_display e))
       | Abort x \<Rightarrow> Abort x) (\<lambda>m.
     and_then (map_err (\<lambda>e. MalformedWrapper k (''wrapper missing peer_event_node_type: '' @ cb_display e))
         (map_get_string m ''peer_event_node_type'')) (\<lambda>ty.
     and_then (map_err (\<lambda>e. MalformedWrapper k
           (''wrapper missing peer_event_content_canonical_bytes: '' @ cb_display e))
         (map_get_bytes m ''peer_event_content_canonical_bytes'')) (\<lambda>b.
       Ok (ty, b))))"

function validate_federation_inner :: "string \<Rightarrow> bytes \<Rightarrow> nat \<Rightarrow> (unit, federation_recursion_reject) result" where
  "validate_federation_inner ty c k =
     (if MAX_FEDERATION_RECURSION_DEPTH < k then Err (DepthExceeded k)
      else if \<not> starts_with ty NODE_TYPE_FEDERATION_RECEIVED_PREFIX then Ok ()
      else case unwrap c k of
        Ok (inner_type, inner) \<Rightarrow>
          if \<not> is_federation_safe_node_type inner_type then Err (BannedInnerType (k + 1) inner_type)
          else validate_federation_inner inner_type inner (k + 1)
      | Err r \<Rightarrow> Err r
      | Abort x \<Rightarrow> Abort x)"
  by pat_completeness auto

termination by (relation "measure (\<lambda>(ty, c, k). Suc MAX_FEDERATION_RECURSION_DEPTH - k)") auto

declare validate_federation_inner.simps [simp del]

datatype verdict = Accepted | PrivateType | Recursive federation_recursion_reject

definition judge :: "event_for_federation \<Rightarrow> (verdict, 'e) result" where
  "judge e =
     (if \<not> is_federation_safe_node_type (ev_node_type e) then Ok PrivateType
      else case validate_federation_inner (ev_node_type e) (ev_content e) 0 of
        Ok _ \<Rightarrow> Ok Accepted
      | Err r \<Rightarrow> Ok (Recursive r)
      | Abort x \<Rightarrow> Abort x)"

section \<open>Signals about what was refused\<close>

definition joined :: "string \<Rightarrow> string list \<Rightarrow> string" where
  "joined sep xs = (case xs of [] \<Rightarrow> [] | y # ys \<Rightarrow> y @ concat (map (\<lambda>z. sep @ z) ys))"

definition private_types :: "(event_for_federation \<times> verdict) list \<Rightarrow> string list" where
  "private_types js = map (\<lambda>j. ev_node_type (fst j)) (filter (\<lambda>j. snd j = PrivateType) js)"

fun depth_of :: "verdict \<Rightarrow> nat option" where
  "depth_of (Recursive (DepthExceeded k)) = Some k"
| "depth_of _ = None"

fun cascade_of :: "verdict \<Rightarrow> string option" where
  "cascade_of (Recursive (BannedInnerType k ty)) = Some (''depth='' @ decimal k @ '':'' @ ty)"
| "cascade_of (Recursive (MalformedWrapper k reason)) =
     Some (''depth='' @ decimal k @ '':<malformed wrapper: '' @ reason @ ''>'')"
| "cascade_of _ = None"

definition signal_unless_none :: "platform \<Rightarrow> i64 \<Rightarrow> string \<Rightarrow> string \<Rightarrow> 'a list \<Rightarrow> string \<Rightarrow> unit action" where
  "signal_unless_none pf observed det name xs evidence =
     (if xs = [] then return_act () else ignore_act (emit_immune_sporocarp pf observed det name evidence))"

definition C35_DETECTOR_ID :: string where
  "C35_DETECTOR_ID = ''C35_federation_substrate_private_event_injection''"

definition signal_refusals ::
    "platform \<Rightarrow> (nat \<Rightarrow> i64) \<Rightarrow> arr32 \<Rightarrow> (event_for_federation \<times> verdict) list \<Rightarrow> unit action" where
  "signal_refusals pf clk peer js =
     (let types = private_types js; depths = List.map_filter (\<lambda>j. depth_of (snd j)) js;
          cascades = List.map_filter (\<lambda>j. cascade_of (snd j)) js; who = hex_first_8_bytes peer in
      bind_act (signal_unless_none pf (clk 0) C35_DETECTOR_ID ''federation_substrate_private_event_injection'' types
        (''federation peer '' @ who @ '' attempted to push '' @ decimal (length types) @
         '' substrate-private event(s); types: '' @ joined '', '' types)) (\<lambda>_.
      bind_act (signal_unless_none pf (clk 1) ''C43_federation_recursive_injection'' ''federation_recursive_injection''
        depths
        (''federation_recursive_injection: peer '' @ who @ '' pushed '' @ decimal (length depths) @
         '' event(s) whose federation_received: nesting exceeded MAX_FEDERATION_RECURSION_DEPTH; attempted_depth='' @
         decimal (fold max depths 0) @ '' max='' @ decimal MAX_FEDERATION_RECURSION_DEPTH @
         ''; entire outer envelope rejected (no partial acceptance)'')) (\<lambda>_.
      signal_unless_none pf (clk 2) C35_DETECTOR_ID ''federation_substrate_private_event_injection'' cascades
        (''federation_substrate_private_event_injection cascade_flag=true: peer '' @ who @ '' smuggled '' @
         decimal (length cascades) @ '' banned/malformed inner event-type(s) inside nested '' @
         ''federation_received: wrappers; '' @ joined '', '' cascades @ ''; entire outer envelope rejected''))))"

section \<open>Envelopes\<close>

definition wrapper_bytes :: "platform \<Rightarrow> arr32 \<Rightarrow> event_for_federation \<Rightarrow> bytes" where
  "wrapper_bytes pf peer e = event_bytes
     [(''from_peer_substrate_id'', VBytes (arr32_bytes peer)), (''peer_event_node_type'', VString (ev_node_type e)),
      (''peer_event_parent_hashes'', arr32_array (ev_parent_hashes e)),
      (''peer_event_content_canonical_bytes'', VBytes (ev_content e)),
      (''peer_event_original_hash'',
        VBytes (arr32_bytes (merkle_hash (pf_hash pf) (ev_parent_hashes e) (ev_content e)))),
      (''peer_event_created_at_cycle'', VUint (ev_created_at_cycle e))]"

definition wrapper_type :: "arr32 \<Rightarrow> string" where
  "wrapper_type peer = ''federation_received:'' @ hex_first_8_bytes peer"

fun ingest_wrappers :: "platform \<Rightarrow> arr32 \<Rightarrow> event_for_federation list \<Rightarrow> arr32 list action" where
  "ingest_wrappers pf peer [] = return_act []"
| "ingest_wrappers pf peer (e # es) =
     bind_act (\<lambda>s. insert_act pf (''ingest federation wrapper ('' @ wrapper_type peer @ '')'') (tip_parents (ss_dag s))
         (wrapper_type peer) (ss_cycle_counter s) (wrapper_bytes pf peer e) s) (\<lambda>h.
     bind_act (ingest_wrappers pf peer es) (\<lambda>hs. return_act (h # hs)))"

definition mark_received :: "platform \<Rightarrow> i64 \<Rightarrow> arr32 \<Rightarrow> arr32 list \<Rightarrow> arr32 option action" where
  "mark_received pf stamp peer hashes =
     (if hashes = [] then return_act None
      else bind_act (emit_substrate_event pf NODE_TYPE_FEDERATION_EVENTS_RECEIVED
             (encode_federation_events_received peer hashes stamp)) (\<lambda>h. return_act (Some h)))"

definition take_in ::
    "platform \<Rightarrow> (nat \<Rightarrow> i64) \<Rightarrow> i64 \<Rightarrow> arr32 \<Rightarrow> event_for_federation list \<Rightarrow> (arr32 list \<times> arr32 option) action" where
  "take_in pf clk stamp peer evs =
     bind_act (lift_act (traverse judge evs)) (\<lambda>vs.
     bind_act (signal_refusals pf clk peer (zip evs vs)) (\<lambda>_.
     bind_act (ingest_wrappers pf peer (map fst (filter (\<lambda>j. snd j = Accepted) (zip evs vs)))) (\<lambda>hashes.
     bind_act (on_federation (\<lambda>fs. (fs\<lparr>fs_events_received_total :=
       sat_add (fs_events_received_total fs) (word_of_nat (length evs))\<rparr>, Ok ()))) (\<lambda>_.
     bind_act (mark_received pf stamp peer hashes) (\<lambda>mark. return_act (hashes, mark))))))"

section \<open>The request\<close>

fun contains_str :: "string \<Rightarrow> string \<Rightarrow> bool" where
  "contains_str [] sub = (sub = [])"
| "contains_str (c # cs) sub = (starts_with (c # cs) sub \<or> contains_str cs sub)"

definition pull_response :: "message \<Rightarrow> (string \<times> Value) list \<Rightarrow> message option" where
  "pull_response request kvs = response MSG_FEDERATION_PULL_EVENTS_FROM_PEER_RESPONSE request kvs"

definition refuse_revoked :: "platform \<Rightarrow> i64 \<Rightarrow> arr32 \<Rightarrow> message \<Rightarrow> message option action" where
  "refuse_revoked pf observed peer request =
     bind_act (ignore_act (emit_immune_sporocarp pf observed ''C13_peer_attestation_revoked_egress''
       ''peer_attestation_revoked_egress''
       (''federation_ingest_blocked: pull from peer '' @ hex_first_8_bytes peer @ '' refused '' @ em_dash @
        '' peer is on the owner-revocation list (L1/GOVERNANCE '' @ section_sign @ ''5.2); a revoked peer'' @
        [CHR 0x27] @ ''s events are not absorbed (inbound half of revocation)''))) (\<lambda>_.
     return_act (pull_response request
       [(''events_received_count'', VUint 0), (''events_ingested_count'', VUint 0),
        (''events_rejected_count'', VUint 0), (''is_last_batch'', VBool True),
        (''rejection_reason'', VString ''C13_peer_attestation_revoked_egress: peer is revoked; ingest refused'')]))"

definition refuse_oversized :: "platform \<Rightarrow> i64 \<Rightarrow> arr32 \<Rightarrow> message \<Rightarrow> string \<Rightarrow> message option action" where
  "refuse_oversized pf observed peer request what =
     bind_act (ignore_act (emit_immune_sporocarp pf observed ''C62_federation_event_oversized''
       ''federation_event_oversized''
       (''federation peer '' @ hex_first_8_bytes peer @ '' pushed FED_EVENT_BATCH containing an event exceeding '' @
        ''FED_EVENT_MAX_CONTENT_BYTES; parser error: '' @ what))) (\<lambda>_.
     return_act (pull_response request
       [(''events_ingested_count'', VUint 0), (''events_rejected_count'', VUint 1),
        (''rejection_reason'', VString (''C62_federation_event_oversized: '' @ what))]))"

definition receive_batch ::
    "platform \<Rightarrow> (nat \<Rightarrow> i64) \<Rightarrow> i64 \<Rightarrow> arr32 \<Rightarrow> message \<Rightarrow> event_for_federation list \<times> bool \<Rightarrow> message option action" where
  "receive_batch pf clk stamp peer request = (\<lambda>(evs, is_last).
     bind_act (take_in pf clk stamp peer evs) (\<lambda>(hashes, mark).
       return_act (pull_response request
         ([(''events_received_count'', VUint (word_of_nat (length evs))),
           (''events_ingested_count'', VUint (word_of_nat (length hashes))), (''is_last_batch'', VBool is_last)] @
          optional ''events_received_event_hash'' (\<lambda>h. VBytes (arr32_bytes h)) mark))))"

definition pull_from ::
    "platform \<Rightarrow> federation_env \<Rightarrow> (unit, string) result \<Rightarrow> (nat \<Rightarrow> i64) \<Rightarrow> i64 \<Rightarrow> message \<Rightarrow> arr32 \<Rightarrow>
      message option action" where
  "pull_from pf env timeout_set clk stamp request peer s =
     (if peer \<in> set (ss_revoked_peers s) then refuse_revoked pf (clk 0) peer request s
      else case on_federation (pull_events_from_peer env timeout_set peer
          (opt_arr32 (msg_payload request) ''since_node_hash'') (substrate_id s)
          (uint_or FED_EVENT_BATCH_MAX_EVENTS (msg_payload request) ''max_events'')) s of
        (s1, Ok batch) \<Rightarrow> receive_batch pf clk stamp peer request batch s1
      | (s1, Err (SubProtocol what)) \<Rightarrow>
          if contains_str what ''FED_EVENT_MAX_CONTENT_BYTES'' then refuse_oversized pf (clk 0) peer request what s1
          else (s1, Err (SubProtocol what))
      | (s1, Err e) \<Rightarrow> (s1, Err e)
      | (s1, Abort x) \<Rightarrow> (s1, Abort x))"

definition handle_federation_pull_events_from_peer ::
    "platform \<Rightarrow> federation_env \<Rightarrow> (unit, string) result \<Rightarrow> (nat \<Rightarrow> i64) \<Rightarrow> i64 \<Rightarrow> message \<Rightarrow> message option action" where
  "handle_federation_pull_events_from_peer pf env timeout_set clk stamp request =
     bind_act (lift_act (ok_or (SubProtocol ''federation_pull_events_from_peer: peer_substrate_id must be 32 Bytes'')
       (opt_arr32 (msg_payload request) ''peer_substrate_id'')))
       (pull_from pf env timeout_set clk stamp request)"

section \<open>The link to the parent\<close>

definition read_hint :: "dag_node \<Rightarrow> (arr32 \<times> string, substrate_error) result" where
  "read_hint n =
     and_then (map_err (\<lambda>e. SubProtocol (''decode parent_federation_hint: '' @ cb_display e)) (decode (content n))) (\<lambda>v.
     and_then (case v of VMap m \<Rightarrow> Ok m | _ \<Rightarrow> Err (SubProtocol ''parent_federation_hint is not a Map'')) (\<lambda>m.
     and_then (map_err (\<lambda>e. SubProtocol (cb_display e)) (map_get_bytes m ''parent_substrate_id'')) (\<lambda>b.
       if length b \<noteq> 32 then Err (SubProtocol ''parent_substrate_id in hint is not 32 bytes'')
       else and_then (map_err (\<lambda>e. SubProtocol (cb_display e)) (map_get_string m ''parent_federation_addr'')) (\<lambda>addr.
         Ok (word_of_be b, addr)))))"

fun outcome_label :: "connect_outcome \<Rightarrow> string" where
  "outcome_label (ConnSelf _) = ''self_connection''"
| "outcome_label (ConnDrift _ _ _) = ''identity_drift''"
| "outcome_label (ConnAlreadyPinned _ _) = ''already_pinned''"
| "outcome_label _ = ''unknown''"

definition record_parent :: "platform \<Rightarrow> i64 \<Rightarrow> arr32 \<Rightarrow> connect_outcome \<Rightarrow> (string \<times> Value) list action" where
  "record_parent pf stamp parent out =
     (case out of
        ConnPinned peer addr _ signer verified \<Rightarrow>
          if peer \<noteq> parent
          then lift_act (Err (SubProtocol (''federation parent link: parent at '' @ addr @ '' has substrate_id '' @
                 hex_first_8_bytes peer @ '' but hint says parent is '' @ hex_first_8_bytes parent)))
          else bind_act (ignore_act (emit_federation_peer_pinned pf peer addr stamp signer)) (\<lambda>_.
               bind_act (note_legacy pf peer addr stamp verified) (\<lambda>_.
               bind_act (emit_substrate_event pf NODE_TYPE_FEDERATION_PARENT_LINKED
                 (encode_federation_parent_linked peer addr stamp)) (\<lambda>h.
                 return_act [(''parent_linked_event_hash'', VBytes (arr32_bytes h))])))
      | _ \<Rightarrow> return_act [(''connect_outcome'', VString (outcome_label out))])"

definition link_fields :: "bool \<Rightarrow> (arr32 \<times> string) option \<Rightarrow> (string \<times> Value) list" where
  "link_fields linked hint =
     [(''hint_found'', VBool (hint \<noteq> None)), (''already_linked'', VBool linked)] @
     (case hint of
        Some (parent, addr) \<Rightarrow>
          [(''parent_substrate_id'', VBytes (arr32_bytes parent)), (''parent_federation_addr'', VString addr)]
      | None \<Rightarrow> [])"

definition hint_nodes :: "server_state \<Rightarrow> dag_node list" where
  "hint_nodes s = filter (\<lambda>n. node_type n = NODE_TYPE_PARENT_FEDERATION_HINT) (iter_in_insertion_order (ss_dag s))"

definition handle_federation_link_to_parent_from_hint ::
    "platform \<Rightarrow> federation_env \<Rightarrow> (string \<Rightarrow> (tcp_stream \<times> string, bridge_error) result) \<Rightarrow> (unit, string) result \<Rightarrow>
      i64 \<Rightarrow> i64 \<Rightarrow> message \<Rightarrow> message option action" where
  "handle_federation_link_to_parent_from_hint pf env dial timeout_set opened stamp request s0 =
     (let answer = response MSG_FEDERATION_LINK_TO_PARENT_FROM_HINT_RESPONSE request in
      if hint_nodes s0 = [] then return_act (answer (link_fields False None)) s0
      else bind_act (lift_act (read_hint (last (hint_nodes s0)))) (\<lambda>(parent, addr).
        if list_ex (\<lambda>n. node_type n = NODE_TYPE_FEDERATION_PARENT_LINKED) (iter_in_insertion_order (ss_dag s0))
        then return_act (answer (link_fields True (Some (parent, addr))))
        else bind_act (dial_from pf env dial timeout_set opened addr) (\<lambda>out.
             bind_act (record_parent pf stamp parent out) (\<lambda>more.
               return_act (answer (link_fields False (Some (parent, addr)) @ more))))) s0)"

end
