(* ===== verification/Federation_Wire.thy ===== *)
theory Federation_Wire
  imports Federation
begin

text \<open>
  What the federation's wire guarantees, and where it does not: a batch of events arrives as it was
  sent or is refused for its size, a timeout inside a frame loses the bytes read so far, and a peer
  that proved nothing can make the substrate panic.
\<close>

section \<open>Batches\<close>

lemma u32_bytes_not_Nil [simp]: "u32_bytes w \<noteq> []"
  by (metis length_u32_bytes list.size(3) zero_neq_numeral)

lemma wf_event_value: "str_ok (ev_node_type e) \<Longrightarrow> wf_value (event_value e)"
  unfolding event_value_def by (rule wf_VMap_of) (auto simp: arr32_array_def)

lemma wf_batch:
  assumes "\<forall>e\<in>set evs. str_ok (ev_node_type e)"
  shows "wf_message (new_message FED_EVENT_BATCH rid (build_event_batch_payload evs is_last))"
proof -
  have "wf_value (VMap (build_event_batch_payload evs is_last))"
    unfolding build_event_batch_payload_def using assms wf_event_value by (intro wf_VMap_of) auto
  then show ?thesis
    by (simp add: wf_message_def new_message_def FED_EVENT_BATCH_def)
qed

lemma parse_event_value:
  assumes "ev_node_type e \<noteq> []"
  shows "parse_event (event_value e) =
    (if FED_EVENT_MAX_CONTENT_BYTES < length (ev_content e) then Err (oversized (length (ev_content e))) else Ok e)"
proof -
  have "traverse parse_parent (map (\<lambda>h. VBytes (arr32_bytes h)) (ev_parent_hashes e)) = Ok (ev_parent_hashes e)"
    by (rule traverse_map_Ok) simp
  then show ?thesis
    using assms by (simp add: event_value_def bt_get_of arr32_array_def opt_uint_def)
qed

lemma parse_event_values:
  assumes "\<forall>e\<in>set evs. ev_node_type e \<noteq> []"
  shows "traverse parse_event (map event_value evs) =
    (case find (\<lambda>e. FED_EVENT_MAX_CONTENT_BYTES < length (ev_content e)) evs of
       None \<Rightarrow> Ok evs
     | Some e \<Rightarrow> Err (oversized (length (ev_content e))))"
  using assms by (induction evs) (auto simp: parse_event_value split: option.splits)

lemma read_written_message:
  assumes "write_fed_frame mac st m key = (st', Ok n)" and "wf_message m" and "msg_version m = PROTOCOL_VERSION"
    and "clean (rx peer)" and "written (tx st) @ delivered (rx peer) = written (tx st')"
  shows "snd (read_fed_frame mac transient peer key) = Ok (Some m)"
proof -
  obtain f w where f: "encode_frame_body mac m (arr32_bytes key) = Ok f" and w: "write_frame (tx st) f = (w, Ok ())"
    and st': "st' = st\<lparr>tx := w\<rparr>"
    using assms(1) by (auto simp: write_fed_frame_def split: result.splits prod.splits)
  have "length f < 2 ^ 63"
    using write_frame_Ok(1) [OF w] by (simp add: MAX_FRAME_BODY_SIZE_def)
  then have "decode_frame_body mac f (arr32_bytes key) = Ok m"
    by (rule decode_frame_round_trip [OF assms(2,3) f])
  moreover have "fst (read_frame (rx peer)) = Ok (Some f)"
    using frame_round_trip [OF w assms(4), of "[]"] assms(5) by (simp add: st')
  ultimately show ?thesis
    by (auto simp: read_fed_frame_def split: prod.split)
qed

text \<open>
  C25. A batch of events crosses the wire. What one substrate wrote as a batch, in a frame under the
  session's key, the other reads as that message however the stream is cut, and parses as the same
  events in the same order; only an event over the size limit makes it refuse the whole batch, with
  the size of the first such event.
\<close>

theorem batch_crosses_the_wire:
  assumes "\<forall>e\<in>set evs. str_ok (ev_node_type e) \<and> ev_node_type e \<noteq> []"
    and "write_fed_frame mac st (new_message FED_EVENT_BATCH rid (build_event_batch_payload evs is_last)) key = (st', Ok n)"
    and "clean (rx peer)" and "written (tx st) @ delivered (rx peer) = written (tx st')"
  shows "\<exists>m. snd (read_fed_frame mac transient peer key) = Ok (Some m) \<and> message_type m = FED_EVENT_BATCH \<and>
    request_id m = rid \<and>
    parse_event_batch_payload (msg_payload m) =
      (case find (\<lambda>e. FED_EVENT_MAX_CONTENT_BYTES < length (ev_content e)) evs of
         None \<Rightarrow> Ok (evs, is_last)
       | Some e \<Rightarrow> Err (oversized (length (ev_content e))))"
proof -
  let ?m = "new_message FED_EVENT_BATCH rid (build_event_batch_payload evs is_last)"
  have "snd (read_fed_frame mac transient peer key) = Ok (Some ?m)"
    using assms wf_batch [of evs] by (intro read_written_message [OF assms(2)]) (auto simp: new_message_def)
  moreover have "parse_event_batch_payload (build_event_batch_payload evs is_last) =
      and_then (traverse parse_event (map event_value evs)) (\<lambda>es. Ok (es, is_last))"
    by (simp add: parse_event_batch_payload_def build_event_batch_payload_def bt_get_of bool_or_def)
  ultimately show ?thesis
    using assms(1) parse_event_values [of evs]
    by (intro exI [of _ ?m]) (simp add: new_message_def split: option.split)
qed

definition small_event :: event_for_federation where
  "small_event = \<lparr>ev_parent_hashes = [], ev_node_type = ''immune:x'', ev_created_at_cycle = 2, ev_content = [1]\<rparr>"

definition open_stream :: tcp_stream where
  "open_stream = \<lparr>rx = [], tx = \<lparr>written = [], room = None, write_failure = IoErr [], flush_failure = None\<rparr>\<rparr>"

definition zero_mac :: mac_fn where
  "zero_mac key m = 0"

definition small_batch :: message where
  "small_batch = new_message FED_EVENT_BATCH 4 (build_event_batch_payload [small_event] True)"

lemma small_frame: "length (frame_of zero_mac key small_batch) < 1000"
proof -
  have e: "length (encode_into (event_value small_event)) \<le> 300"
    unfolding event_value_def event_bytes_def [symmetric]
    by (rule order.trans [OF length_event_fields]) (simp_all add: arr32_array_def small_event_def)
  have p: "length (encode_into (VMap (msg_payload small_batch))) \<le> 500"
    unfolding small_batch_def new_message_def build_event_batch_payload_def message.simps event_bytes_def [symmetric]
    by (rule order.trans [OF length_event_bytes])
      (use e length_write_varint [of 1] length_field [of "VBool True"] in \<open>simp\<close>)
  have "length (encode_into (message_value small_batch)) \<le> 900"
    unfolding message_value_def event_bytes_def [symmetric]
    by (rule order.trans [OF length_event_bytes])
      (use p length_field [of "VUint (msg_version small_batch)"] length_field [of "VUint (request_id small_batch)"]
         length_field [of "VString (message_type small_batch)"]
       in \<open>simp add: small_batch_def new_message_def FED_EVENT_BATCH_def\<close>)
  then show ?thesis
    by (simp add: frame_of_def)
qed

definition sent_batch :: tcp_stream where
  "sent_batch = fst (write_fed_frame zero_mac open_stream small_batch 9)"

lemma batch_crosses_the_wire_witness:
  "\<exists>m. snd (read_fed_frame zero_mac (\<lambda>_. False) (sent_batch\<lparr>rx := [Interrupted, Chunk (written (tx sent_batch))]\<rparr>) 9) =
      Ok (Some m) \<and> message_type m = FED_EVENT_BATCH \<and> request_id m = 4 \<and>
    parse_event_batch_payload (msg_payload m) = Ok ([small_event], True)"
proof -
  let ?st = "sent_batch\<lparr>rx := [Interrupted, Chunk (written (tx sent_batch))]\<rparr>"
  have "arr32_bytes (9 :: arr32) \<noteq> []"
    by (metis length_arr32_bytes list.size(3) zero_neq_numeral)
  then have "encode_frame_body zero_mac small_batch (arr32_bytes 9) = Ok (frame_of zero_mac (arr32_bytes 9) small_batch)"
    by (rule encode_frame_of)
  moreover have "length (frame_of zero_mac (arr32_bytes 9) small_batch) \<le> MAX_FRAME_BODY_SIZE"
    using small_frame [of "arr32_bytes 9"] by (simp add: MAX_FRAME_BODY_SIZE_def)
  ultimately obtain n where sent: "write_fed_frame zero_mac open_stream small_batch 9 = (sent_batch, Ok n)"
    and "written (tx sent_batch) \<noteq> []"
    by (simp add: sent_batch_def write_fed_frame_def open_stream_def write_frame_unlimited)
  have "\<exists>m. snd (read_fed_frame zero_mac (\<lambda>_. False) ?st 9) = Ok (Some m) \<and> message_type m = FED_EVENT_BATCH \<and>
      request_id m = 4 \<and>
      parse_event_batch_payload (msg_payload m) =
        (case find (\<lambda>e. FED_EVENT_MAX_CONTENT_BYTES < length (ev_content e)) [small_event] of
           None \<Rightarrow> Ok ([small_event], True)
         | Some e \<Rightarrow> Err (oversized (length (ev_content e))))"
    by (rule batch_crosses_the_wire [OF _ sent [unfolded small_batch_def]])
      (use \<open>written (tx sent_batch) \<noteq> []\<close> in \<open>simp_all add: small_event_def open_stream_def\<close>)
  then show ?thesis
    by (simp add: small_event_def FED_EVENT_MAX_CONTENT_BYTES_def)
qed

section \<open>Timeouts\<close>

lemma read_loop_cut:
  assumes "c \<noteq> []" and "length buf + length c < n"
  shows "read_loop n buf [Chunk c, ReadError e, d] = (Err (BrIo e), [d])"
  using assms by simp

text \<open>
  A timeout inside a frame loses it. When the socket has delivered the first bytes of a frame and
  then has nothing for a moment, the read answers \<^emph>\<open>nothing yet\<close>, and the bytes it consumed are gone:
  the next read starts in the middle of the frame.
\<close>

lemma timeout_loses_partial_frame:
  assumes "wire = u32_bytes (word_of_nat (length body)) @ body" and "length body \<le> MAX_FRAME_BODY_SIZE"
    and "0 < k" and "k < length wire" and "k \<noteq> 4" and "transient e"
    and "rx st = [Chunk (take k wire), ReadError e, Chunk (drop k wire)]"
  shows "read_fed_frame mac transient st key = (st\<lparr>rx := [Chunk (drop k wire)]\<rparr>, Ok None)"
proof -
  let ?h = "u32_bytes (word_of_nat (length body))"
  have len: "unat (word_of_nat (length body) :: u32) = length body"
    using assms(2) by (simp add: MAX_FRAME_BODY_SIZE_def unat_of_nat)
  have "read_frame (rx st) = (Err (BrIo e), [Chunk (drop k wire)])"
  proof (cases "k < 4")
    case True
    have "read_loop 4 [] [Chunk (take k wire), ReadError e, Chunk (drop k wire)] = (Err (BrIo e), [Chunk (drop k wire)])"
      by (rule read_loop_cut) (use True assms(3,4) in auto)
    then have "read_exact_or_eof 4 (rx st) = (Err (BrIo e), [Chunk (drop k wire)])"
      by (simp add: assms(7) read_exact_or_eof_def)
    then show ?thesis
      by (simp add: read_frame_def)
  next
    case False
    then have k: "4 < k"
      using assms(5) by simp
    have "body \<noteq> []"
      using k assms(1,4) by auto
    have wire: "take k wire = ?h @ take (k - 4) body"
      using k by (simp add: assms(1))
    have "read_exact_or_eof 4 (rx st) = (Ok (Some ?h), [Chunk (take (k - 4) body), ReadError e, Chunk (drop k wire)])"
      using k assms(4) \<open>body \<noteq> []\<close> by (simp add: assms(7) wire read_exact_or_eof_def)
    moreover have "read_exact_or_eof (length body) [Chunk (take (k - 4) body), ReadError e, Chunk (drop k wire)] =
        (Err (BrIo e), [Chunk (drop k wire)])"
      using k assms(1,4) \<open>body \<noteq> []\<close> by (auto simp: read_exact_or_eof_def)
    ultimately show ?thesis
      using assms(2) by (simp add: read_frame_def len Let_def)
  qed
  then show ?thesis
    using assms(6) by (simp add: read_fed_frame_def)
qed

section \<open>A panic from outside\<close>

text \<open>A byte string that claims to be as long as the address space.\<close>

definition huge_body :: bytes where
  "huge_body = TAG_BYTES # write_varint (- 1)"

lemma huge_body_panics: "decode huge_body = Abort Panicked"
proof -
  have "decode (TAG_BYTES # write_varint (- 1) @ []) = Abort Panicked"
    by (rule decode_panics_on_huge_length) code_simp+
  then show ?thesis
    by (simp add: huge_body_def)
qed

text \<open>
  C27. A peer that proved nothing stops the substrate. The key of a hello's frame is a constant of the
  protocol, and a body is decoded before anything in it is checked: a connection just accepted whose
  first frame carries a body with a length that overflows makes the poll panic.
\<close>

theorem unproved_peer_panics:
  assumes "p \<in> set (fs_peers fs)" and "pc_state p = AwaitingHello"
    and "rx (pc_stream p) = [Chunk (u32_bytes (word_of_nat (length f)) @ f)]"
    and "f = arr32_bytes (fe_mac env (arr32_bytes (federation_bootstrap_key (fe_sha env))) huge_body) @ huge_body"
    and "\<forall>q\<in>set (fs_peers fs). q \<noteq> p \<longrightarrow> pc_state q \<noteq> AwaitingHello"
  shows "progress_peers pf env our dag_tip seed d revoked fs =
    (Abort Panicked :: (federation_state \<times> poll_peer_event list, 'e) result)"
proof -
  let ?key = "arr32_bytes (federation_bootstrap_key (fe_sha env))"
  have small: "length f \<le> MAX_FRAME_BODY_SIZE"
    unfolding assms(4) by (simp add: huge_body_def MAX_FRAME_BODY_SIZE_def) code_simp
  have "fst (read_frame (rx (pc_stream p))) = Ok (Some f)"
    using read_frame_reads_as [of "rx (pc_stream p)"] parse_frame_exact [OF small, of "[]"]
    by (simp add: assms(3) reads_as_def)
  then obtain es where frame: "read_frame (rx (pc_stream p)) = (Ok (Some f), es)"
    by (metis prod.collapse)
  have "decode_frame_body (fe_mac env) f ?key = Abort Panicked"
    by (simp add: decode_frame_body_def assms(4) HMAC_SIZE_def verify_hmac_def from_body_canonical_bytes_def
        huge_body_panics)
  then have p: "hello_turn pf env legacy our ack p = (Abort Panicked :: (peer_turn, 'e) result)" for legacy ack
    using assms(2) by (simp add: hello_turn_def read_fed_frame_def frame)
  have "traverse (hello_turn pf env legacy our ack) qs = (Abort Panicked :: (peer_turn list, 'e) result)"
    if "p \<in> set qs" "\<forall>q\<in>set qs. q \<noteq> p \<longrightarrow> pc_state q \<noteq> AwaitingHello" for qs legacy ack
    using that
  proof (induction qs)
    case (Cons q qs)
    show ?case
    proof (cases "q = p")
      case False
      then have "hello_turn pf env legacy our ack q = (Ok (idle_turn q) :: (peer_turn, 'e) result)"
        using Cons.prems by (simp add: hello_turn_def)
      then show ?thesis
        using Cons False by simp
    qed (simp add: p)
  qed simp
  then show ?thesis
    using assms(1,5) by (simp add: progress_peers_def progress_awaiting_hello_peers_def pass_def split: prod.split)
qed

definition plain_env :: federation_env where
  "plain_env = \<lparr>fe_sha = (\<lambda>_. 5), fe_mac = zero_mac, fe_refusal = (\<lambda>_ _ _. SignatureInvalid), fe_transient = (\<lambda>_. False)\<rparr>"

definition caller :: peer_connection where
  "caller = \<lparr>pc_stream = open_stream\<lparr>rx :=
       [Chunk (u32_bytes (word_of_nat (32 + length huge_body)) @ arr32_bytes 0 @ huge_body)]\<rparr>,
     pc_state = AwaitingHello, pc_substrate_id = None, pc_signer_pubkey = None, pc_remote_addr = [], pc_opened_at = 0\<rparr>"

lemma unproved_peer_panics_witness:
  "progress_peers chain_platform plain_env 1 None None dag_new [] ((new_federation_state False)\<lparr>fs_peers := [caller]\<rparr>) =
    (Abort Panicked :: (federation_state \<times> poll_peer_event list, substrate_error) result)"
  by (rule unproved_peer_panics [where p = caller and f = "arr32_bytes 0 @ huge_body"])
    (simp_all add: caller_def plain_env_def zero_mac_def)

end
