(* ===== verification/Federation_Safety.thy ===== *)
theory Federation_Safety
  imports Federation_Pull Federation_Wire "HOL-Library.Multiset"
begin

text \<open>
  What the federation never does: a connection is not kept as established unless its peer sent a
  hello for an identity that is not ours, signed by the key it is pinned under or admitted as a
  legacy peer; a request is not answered to a revoked peer, nor with more than a run of the log; and
  a pull stores nothing but envelopes whose every layer was judged.
\<close>

section \<open>Removing connections by index\<close>

lemma swap_remove_facts:
  assumes "i < length xs"
  shows "length (swap_remove i xs) = length xs - 1" and "j < i \<Longrightarrow> swap_remove i xs ! j = xs ! j"
    and "add_mset (xs ! i) (mset (swap_remove i xs)) = mset xs"
proof -
  let ?ys = "xs[i := last xs]"
  have ne: "?ys \<noteq> []" and xs: "xs \<noteq> []"
    using assms by auto
  have "last ?ys = last xs"
    using assms xs by (simp add: last_list_update)
  then have "add_mset (last xs) (mset (swap_remove i xs)) = mset ?ys"
    using append_butlast_last_id [OF ne] unfolding swap_remove_def
    by (metis add_mset_add_single mset.simps mset_append)
  moreover have "add_mset (xs ! i) (mset ?ys) = add_mset (last xs) (mset xs)"
    using assms by (simp add: mset_update)
  ultimately show "add_mset (xs ! i) (mset (swap_remove i xs)) = mset xs"
    by (metis add_mset_commute add_mset_add_mset_same_iff)
qed (use assms in \<open>auto simp: swap_remove_def nth_butlast\<close>)

lemma fold_swap_remove:
  assumes "sorted_wrt (>) js" and "\<forall>j\<in>set js. j < length xs"
  shows "mset (fold swap_remove js xs) + mset (map ((!) xs) js) = mset xs"
  using assms
proof (induction js arbitrary: xs)
  case (Cons i js)
  let ?ys = "swap_remove i xs"
  have i: "i < length xs" and below: "\<forall>j\<in>set js. j < i"
    using Cons.prems by auto
  have "mset (fold swap_remove js ?ys) + mset (map ((!) ?ys) js) = mset ?ys"
    using Cons.prems below i by (intro Cons.IH) (auto simp: swap_remove_facts(1))
  moreover have "map ((!) ?ys) js = map ((!) xs) js"
    using below swap_remove_facts(2) [OF i] by simp
  ultimately show ?case
    using swap_remove_facts(3) [OF i] by simp
qed simp

text \<open>What is left is every connection that was not marked, once.\<close>

lemma mset_sweep: "mset (sweep ts) = mset (map pt_peer (filter (\<lambda>t. \<not> pt_remove t) ts))"
proof -
  have "map ((!) (map pt_peer ts)) (marked ts) = map pt_peer (map ((!) ts) (marked ts))"
    by (auto simp: marked_def)
  also have "map ((!) ts) (marked ts) = filter pt_remove (map ((!) ts) [0..<length ts])"
    by (simp add: marked_def filter_map comp_def)
  finally have removed: "map ((!) (map pt_peer ts)) (marked ts) = map pt_peer (filter pt_remove ts)"
    by (simp add: map_nth)
  have "sorted_wrt (>) (rev (marked ts))"
    unfolding marked_def by (simp add: sorted_wrt_rev sorted_wrt_filter)
  then have "mset (sweep ts) + mset (map ((!) (map pt_peer ts)) (rev (marked ts))) = mset (map pt_peer ts)"
    unfolding sweep_def by (rule fold_swap_remove) (auto simp: marked_def)
  moreover have "mset (map ((!) (map pt_peer ts)) (rev (marked ts))) = image_mset pt_peer (mset (filter pt_remove ts))"
    by (simp only: rev_map [symmetric] mset_rev removed mset_map)
  ultimately have "mset (sweep ts) + image_mset pt_peer (mset (filter pt_remove ts)) =
      image_mset pt_peer (mset (filter (\<lambda>t. \<not> pt_remove t) ts)) + image_mset pt_peer (mset (filter pt_remove ts))"
    by (metis add.commute image_mset_union mset_filter mset_map multiset_partition)
  then show ?thesis
    by simp
qed

lemma set_sweep: "set (sweep ts) = pt_peer ` {t \<in> set ts. \<not> pt_remove t}"
  using arg_cong [OF mset_sweep, of set_mset] by simp

section \<open>What was heard\<close>

text \<open>The hello that a connection's stream holds next, and the one that answers ours when we dial.\<close>

definition hello_on :: "federation_env \<Rightarrow> tcp_stream \<Rightarrow> parsed_fed_hello option" where
  "hello_on env st =
     (case snd (read_fed_frame (fe_mac env) (fe_transient env) st (federation_bootstrap_key (fe_sha env))) of
        Ok (Some m) \<Rightarrow>
          (case parse_fed_hello_payload (msg_payload m) of
             Ok h \<Rightarrow> if message_type m = FED_HELLO then Some h else None
           | _ \<Rightarrow> None)
      | _ \<Rightarrow> None)"

definition heard :: "federation_env \<Rightarrow> federation_state \<Rightarrow> parsed_fed_hello list" where
  "heard env fs =
     List.map_filter (\<lambda>p. if pc_state p = AwaitingHello then hello_on env (pc_stream p) else None) (fs_peers fs)"

definition answered ::
    "platform \<Rightarrow> federation_env \<Rightarrow> arr32 \<Rightarrow> arr32 option \<Rightarrow> arr32 option \<Rightarrow>
      (tcp_stream \<times> string, bridge_error) result \<Rightarrow> parsed_fed_hello list" where
  "answered pf env our dag_tip seed dialled =
     (case dialled of
        Ok (st, addr) \<Rightarrow>
          (case snd (read_ack env (fst (greet pf env our dag_tip seed st))) of Ok h \<Rightarrow> [h] | _ \<Rightarrow> [])
      | _ \<Rightarrow> [])"

definition hello_signed_by :: "platform \<Rightarrow> arr32 \<Rightarrow> parsed_fed_hello \<Rightarrow> bool" where
  "hello_signed_by pf pk h \<longleftrightarrow> fh_signer_pubkey h = Some pk \<and>
     (\<exists>sig. fh_hello_signature h = Some sig \<and>
        pf_verify pf pk sig (build_fed_hello_signing_message (fh_peer_substrate_id h) (fh_peer_dag_tip h)
          (fh_protocol_version h)))"

text \<open>Every run of the operations on the federation's state, with the hellos heard so far.\<close>

inductive fed_run ::
    "platform \<Rightarrow> federation_env \<Rightarrow> arr32 \<Rightarrow> bool \<Rightarrow> parsed_fed_hello list \<Rightarrow> federation_state \<Rightarrow> bool"
  for pf env our legacy where
  born: "fed_run pf env our legacy [] (new_federation_state legacy)"
| listen: "fed_run pf env our legacy hs fs \<Longrightarrow>
    fed_run pf env our legacy hs (fst (open_listener addr bound resolved now fs))"
| unlisten: "fed_run pf env our legacy hs fs \<Longrightarrow> fed_run pf env our legacy hs (snd (close_listener fs))"
| drain: "fed_run pf env our legacy hs fs \<Longrightarrow> fed_run pf env our legacy hs (snd (drain_bytes_egressed fs))"
| dial: "fed_run pf env our legacy hs fs \<Longrightarrow>
    fed_run pf env our legacy (hs @ answered pf env our dag_tip seed dialled)
      (fst (connect_peer pf env dialled timeout_set now our dag_tip seed fs))"
| accept: "fed_run pf env our legacy hs fs \<Longrightarrow>
    fed_run pf env our legacy hs (fst (accept_pending queue broken now fs))"
| poll: "fed_run pf env our legacy hs fs \<Longrightarrow> 
    progress_peers pf env our dag_tip seed d revoked fs =
      (Ok (fs', evs) :: (federation_state \<times> poll_peer_event list, substrate_error) result) \<Longrightarrow>
    fed_run pf env our legacy (hs @ heard env fs) fs'"
| pull: "fed_run pf env our legacy hs fs \<Longrightarrow>
    fed_run pf env our legacy hs (fst (pull_events_from_peer env timeout_set peer since our k fs))"

text \<open>A connection in order: unnamed while it awaits its hello, vouched for when it is established.\<close>

fun peer_ok :: "platform \<Rightarrow> arr32 \<Rightarrow> bool \<Rightarrow> parsed_fed_hello list \<Rightarrow> peer_connection \<Rightarrow> bool" where
  "peer_ok pf our legacy hs p =
     (case pc_state p of
        AwaitingHello \<Rightarrow> pc_substrate_id p = None \<and> pc_signer_pubkey p = None
      | Established \<Rightarrow>
          (\<exists>h\<in>set hs. pc_substrate_id p = Some (fh_peer_substrate_id h) \<and> fh_peer_substrate_id h \<noteq> our \<and>
             (case pc_signer_pubkey p of Some pk \<Rightarrow> hello_signed_by pf pk h | None \<Rightarrow> legacy))
      | Failed \<Rightarrow> False)"

declare peer_ok.simps [simp del]

lemma peer_ok_more: "peer_ok pf our legacy hs p \<Longrightarrow> peer_ok pf our legacy (hs @ hs') p"
  by (auto simp: peer_ok.simps split: peer_state.splits)

lemma peer_ok_stream [simp]: "peer_ok pf our legacy hs (p\<lparr>pc_stream := st\<rparr>) = peer_ok pf our legacy hs p"
  by (cases "pc_state p") (simp_all add: peer_ok.simps)

text \<open>A hello that is trusted is signed by the key it will be pinned under, or is admitted as legacy.\<close>

lemma hello_trust_Ok:
  assumes "hello_trust pf env legacy h = Ok v"
  shows "case verified_signer v h of Some pk \<Rightarrow> hello_signed_by pf pk h | None \<Rightarrow> legacy"
    and "v \<longleftrightarrow> fh_signer_pubkey h \<noteq> None"
  using assms
  by (auto simp: hello_trust_def verify_fed_hello_signature_def verified_signer_def hello_signed_by_def check_with_def
      split: option.splits if_splits)

section \<open>Turns keep connections in order\<close>

lemma acknowledge_ok:
  assumes "acknowledge env ack rid v h p = Ok t" and "\<not> pt_remove t" and "hello_trust pf env legacy h = Ok v"
    and "fh_peer_substrate_id h \<noteq> our" and "pc_signer_pubkey p = None" and "h \<in> set hs"
  shows "peer_ok pf our legacy hs (pt_peer t)"
proof -
  have "pc_state (pt_peer t) = Established" "pc_substrate_id (pt_peer t) = Some (fh_peer_substrate_id h)"
    "pc_signer_pubkey (pt_peer t) = verified_signer v h"
    using assms(1,2,5)
    by (cases "write_fed_frame (fe_mac env) (pc_stream p) (new_message FED_HELLO_ACK rid ack)
          (federation_bootstrap_key (fe_sha env))" rule: prod.exhaust;
        auto simp: acknowledge_def idle_turn_def drop_turn_def verified_signer_def split: result.splits)+
  then show ?thesis
    using assms(4,6) hello_trust_Ok(1) [OF assms(3)] by (auto simp: peer_ok.simps)
qed

lemma answer_hello_ok:
  assumes "answer_hello pf env legacy our ack rid h p = Ok t" and "\<not> pt_remove t"
    and "pc_signer_pubkey p = None" and "h \<in> set hs"
  shows "peer_ok pf our legacy hs (pt_peer t)"
  using assms acknowledge_ok [OF _ assms(2) _ _ assms(3,4)]
  by (auto simp: answer_hello_def drop_turn_def Let_def split: if_splits result.splits)

lemma hello_turn_ok:
  assumes turn: "hello_turn pf env legacy our ack p = (Ok t :: (peer_turn, 'e) result)" and "\<not> pt_remove t"
    and p: "peer_ok pf our legacy hs p"
    and hs: "\<And>h. pc_state p = AwaitingHello \<Longrightarrow> hello_on env (pc_stream p) = Some h \<Longrightarrow> h \<in> set hs"
  shows "peer_ok pf our legacy hs (pt_peer t)"
proof (cases "pc_state p = AwaitingHello")
  case True
  obtain st r where read: "read_fed_frame (fe_mac env) (fe_transient env) (pc_stream p)
      (federation_bootstrap_key (fe_sha env)) = (st, r)"
    by fastforce
  show ?thesis
  proof (cases "\<exists>m h. r = Ok (Some m) \<and> message_type m = FED_HELLO \<and> parse_fed_hello_payload (msg_payload m) = Ok h")
    case heard: True
    then obtain m h where r: "r = Ok (Some m)" and h: "message_type m = FED_HELLO"
      "parse_fed_hello_payload (msg_payload m) = Ok h"
      by blast
    have "h \<in> set hs"
      by (rule hs [OF True]) (simp add: hello_on_def read r h)
    moreover have "answer_hello pf env legacy our ack (request_id m) h (p\<lparr>pc_stream := st\<rparr>) = (Ok t :: (peer_turn, 'e) result)"
      using turn True by (simp add: hello_turn_def read r h)
    moreover have "pc_signer_pubkey (p\<lparr>pc_stream := st\<rparr>) = None"
      using p True by (simp add: peer_ok.simps)
    ultimately show ?thesis
      by (intro answer_hello_ok [OF _ assms(2)])
  next
    case False
    then have "t = idle_turn (p\<lparr>pc_stream := st\<rparr>)"
      using turn True assms(2)
      by (auto simp: hello_turn_def read drop_turn_def Let_def split: result.splits option.splits if_splits)
    then show ?thesis
      using p by (simp add: idle_turn_def)
  qed
next
  case False
  then show ?thesis
    using turn p by (auto simp: hello_turn_def idle_turn_def)
qed

lemma serve_request_ok:
  assumes "serve_request pf env key d peer m p = Ok t" and "\<not> pt_remove t"
  shows "\<exists>st. pt_peer t = p\<lparr>pc_stream := st\<rparr>"
proof -
  have "pt_peer t = p \<or> (\<exists>st. pt_peer t = p\<lparr>pc_stream := st\<rparr>)"
    using assms
    by (auto simp: serve_request_def idle_turn_def drop_turn_def Let_def split: result.splits prod.splits)
  then show ?thesis
    by (elim disjE) (auto intro: exI [of _ "pc_stream p"])
qed

lemma request_turn_ok:
  assumes "request_turn pf env our d revoked p = (Ok t :: (peer_turn, 'e) result)" and "\<not> pt_remove t" and p: "peer_ok pf our legacy hs p"
  shows "peer_ok pf our legacy hs (pt_peer t)"
proof -
  have "\<exists>st. pt_peer t = p\<lparr>pc_stream := st\<rparr>"
  proof (cases "\<exists>peer. pc_state p = Established \<and> pc_substrate_id p = Some peer")
    case True
    then obtain peer st r where e: "pc_state p = Established" "pc_substrate_id p = Some peer"
      and read: "read_fed_frame (fe_mac env) (fe_transient env) (pc_stream p)
        (derive_federation_session_key (fe_sha env) our peer) = (st, r)"
      by fastforce
    then have "pt_peer t = p\<lparr>pc_stream := st\<rparr> \<or>
        (\<exists>m. serve_request pf env (derive_federation_session_key (fe_sha env) our peer) d peer m
          (p\<lparr>pc_stream := st\<rparr>) = (Ok t :: (peer_turn, 'e) result))"
      using assms(1,2)
      by (auto simp: request_turn_def idle_turn_def drop_turn_def Let_def split: result.splits option.splits if_splits)
    then show ?thesis
      using serve_request_ok [OF _ assms(2)] by fastforce
  next
    case False
    then have "t = idle_turn p"
      using assms(1) by (auto simp: request_turn_def split: peer_state.splits option.splits)
    then show ?thesis
      by (intro exI [of _ "pc_stream p"]) (simp add: idle_turn_def)
  qed
  then show ?thesis
    using p by auto
qed

lemma pass_Ok:
  assumes "pass turn fs = Ok (fs', evs)"
  obtains ts where "traverse turn (fs_peers fs) = Ok ts" "evs = concat (map pt_events ts)"
    "fs_peers fs' = sweep ts" "fs_accept_legacy_peers fs' = fs_accept_legacy_peers fs"
  using assms by (auto simp: pass_def and_then_Ok_iff)

lemma traverse_source: "traverse f xs = Ok ys \<Longrightarrow> y \<in> set ys \<Longrightarrow> \<exists>x\<in>set xs. f x = Ok y"
  by (induction xs arbitrary: ys) auto

lemma pass_peers:
  assumes "pass turn fs = Ok (fs', evs)" and "q \<in> set (fs_peers fs')"
  obtains p t where "p \<in> set (fs_peers fs)" "turn p = Ok t" "\<not> pt_remove t" "q = pt_peer t"
  using assms(1)
proof (rule pass_Ok)
  fix ts
  assume ts: "traverse turn (fs_peers fs) = Ok ts" and "fs_peers fs' = sweep ts"
  then obtain t where t: "t \<in> set ts" "\<not> pt_remove t" "q = pt_peer t"
    using assms(2) by (auto simp: set_sweep)
  then obtain p where "p \<in> set (fs_peers fs)" "turn p = Ok t"
    using traverse_source [OF ts] by blast
  then show thesis
    using t that by blast
qed

lemma pass_events:
  assumes "pass turn fs = Ok (fs', evs)" and "ev \<in> set evs"
  obtains p t where "p \<in> set (fs_peers fs)" "turn p = Ok t" "ev \<in> set (pt_events t)"
  using assms(1)
proof (rule pass_Ok)
  fix ts
  assume ts: "traverse turn (fs_peers fs) = Ok ts" and "evs = concat (map pt_events ts)"
  then obtain t where t: "t \<in> set ts" "ev \<in> set (pt_events t)"
    using assms(2) by auto
  then obtain p where "p \<in> set (fs_peers fs)" "turn p = Ok t"
    using traverse_source [OF ts] by blast
  then show thesis
    using t that by blast
qed

section \<open>Every run keeps its connections in order\<close>

definition peers_ok :: "platform \<Rightarrow> arr32 \<Rightarrow> bool \<Rightarrow> parsed_fed_hello list \<Rightarrow> federation_state \<Rightarrow> bool" where
  "peers_ok pf our legacy hs fs \<longleftrightarrow> fs_accept_legacy_peers fs = legacy \<and> (\<forall>p\<in>set (fs_peers fs). peer_ok pf our legacy hs p)"

lemma count_egress_fields [simp]:
  "fs_peers (count_egress n fs) = fs_peers fs"
  "fs_accept_legacy_peers (count_egress n fs) = fs_accept_legacy_peers fs"
  by (simp_all add: count_egress_def)

lemma peers_ok_count [simp]: "peers_ok pf our legacy hs (count_egress n fs) = peers_ok pf our legacy hs fs"
  by (simp add: peers_ok_def)

lemma peers_ok_more: "peers_ok pf our legacy hs fs \<Longrightarrow> peers_ok pf our legacy (hs @ hs') fs"
  by (simp add: peers_ok_def peer_ok_more)

lemma pin_dialled_ok:
  assumes "peers_ok pf our legacy hs fs" and "hello_trust pf env legacy h = Ok v" and "h \<in> set hs"
  shows "peers_ok pf our legacy hs (fst (pin_dialled our now v h addr st fs))"
  using assms(1,3) hello_trust_Ok(1) [OF assms(2)]
  by (auto simp: pin_dialled_def peers_ok_def peer_ok.simps Let_def split: option.splits)

lemma connect_peer_ok:
  assumes ok: "peers_ok pf our legacy hs fs"
  shows "peers_ok pf our legacy (hs @ answered pf env our dag_tip seed dialled)
    (fst (connect_peer pf env dialled timeout_set now our dag_tip seed fs))"
proof (cases "\<exists>st addr st1 n st2 h v. dialled = Ok (st, addr) \<and> timeout_set = Ok () \<and>
    greet pf env our dag_tip seed st = (st1, Ok n) \<and> read_ack env st1 = (st2, Ok h) \<and>
    hello_trust pf env legacy h = Ok v")
  case True
  then obtain st addr st1 n st2 h v where d: "dialled = Ok (st, addr)" "timeout_set = Ok ()"
    "greet pf env our dag_tip seed st = (st1, Ok n)" "read_ack env st1 = (st2, Ok h)"
    and trust: "hello_trust pf env legacy h = Ok v"
    by blast
  have "answered pf env our dag_tip seed dialled = [h]"
    by (simp add: answered_def d)
  moreover have "fst (connect_peer pf env dialled timeout_set now our dag_tip seed fs) =
      fst (pin_dialled our now v h addr st2 (count_egress n fs))"
    using ok trust by (simp add: connect_peer_def d peers_ok_def split: prod.split)
  ultimately show ?thesis
    using pin_dialled_ok [OF _ trust, of our "hs @ [h]"] peers_ok_more [OF ok] by simp
next
  case False
  then have "fst (connect_peer pf env dialled timeout_set now our dag_tip seed fs) = fs \<or>
      (\<exists>n. fst (connect_peer pf env dialled timeout_set now our dag_tip seed fs) = count_egress n fs)"
    using ok by (auto simp: connect_peer_def peers_ok_def Let_def split: result.splits prod.splits)
  then show ?thesis
    using peers_ok_more [OF ok] by auto
qed

lemma heard_on:
  "p \<in> set (fs_peers fs) \<Longrightarrow> pc_state p = AwaitingHello \<Longrightarrow> hello_on env (pc_stream p) = Some h \<Longrightarrow> h \<in> set (heard env fs)"
  unfolding heard_def by (auto simp: List.map_filter_def image_iff intro!: bexI [of _ p])

lemma progress_peers_Ok:
  assumes "progress_peers pf env our dag_tip seed d revoked fs = (Ok (fs', evs) :: (_, 'e) result)"
  obtains ack fs1 evs1 evs2
    where "progress_awaiting_hello_peers pf env our dag_tip seed fs = (Ok (fs1, evs1) :: (_, 'e) result)"
      "pass (hello_turn pf env (fs_accept_legacy_peers fs) our ack) fs = (Ok (fs1, evs1) :: (_, 'e) result)"
      "pass (request_turn pf env our d revoked) fs1 = (Ok (fs', evs2) :: (_, 'e) result)" "evs = evs1 @ evs2"
  using assms by (auto simp: progress_peers_def progress_awaiting_hello_peers_def Let_def split: prod.splits)

lemma progress_peers_ok:
  assumes "progress_peers pf env our dag_tip seed d revoked fs = (Ok (fs', evs) :: (_, 'e) result)" and ok: "peers_ok pf our legacy hs fs"
  shows "peers_ok pf our legacy (hs @ heard env fs) fs'"
proof -
  obtain ack fs1 evs1 evs2
    where 1: "pass (hello_turn pf env (fs_accept_legacy_peers fs) our ack) fs = (Ok (fs1, evs1) :: (_, 'e) result)"
      and 2: "pass (request_turn pf env our d revoked) fs1 = (Ok (fs', evs2) :: (_, 'e) result)"
    using progress_peers_Ok [OF assms(1)] by metis
  have legacy: "fs_accept_legacy_peers fs = legacy"
    using ok by (simp add: peers_ok_def)
  have "peer_ok pf our legacy (hs @ heard env fs) q" if "q \<in> set (fs_peers fs1)" for q
    using pass_peers [OF 1 that]
  proof cases
    case (1 p t)
    then show ?thesis
      using ok heard_on [OF 1(1)] peer_ok_more unfolding legacy peers_ok_def
      by (auto intro!: hello_turn_ok [of pf env legacy our ack p t])
  qed
  then have "peer_ok pf our legacy (hs @ heard env fs) q" if "q \<in> set (fs_peers fs')" for q
    using pass_peers [OF 2 that] request_turn_ok by metis
  then show ?thesis
    using legacy pass_Ok [OF 1] pass_Ok [OF 2] unfolding peers_ok_def by metis
qed

lemma pull_peers_ok:
  assumes "peers_ok pf our legacy hs fs"
  shows "peers_ok pf our legacy hs (fst (pull_events_from_peer env timeout_set peer since our k fs))"
proof (cases "find_established_peer peer fs")
  case (Some i)
  then have "i < length (fs_peers fs)"
    by (simp add: find_established_peer_def position_Some)
  then have "peers_ok pf our legacy hs (f\<lparr>fs_peers := (fs_peers fs)[i := (fs_peers fs ! i)\<lparr>pc_stream := st\<rparr>]\<rparr>)"
    if "f = fs \<or> (\<exists>n. f = count_egress n fs)" for f st
    using assms that by (auto simp: peers_ok_def dest!: set_update_subset_insert [THEN subsetD])
  then show ?thesis
    using assms by (auto simp: pull_events_from_peer_def Some Let_def split: result.splits prod.splits)
qed (use assms in \<open>simp add: pull_events_from_peer_def\<close>)

lemma fed_run_ok: "fed_run pf env our legacy hs fs \<Longrightarrow> peers_ok pf our legacy hs fs"
proof (induction rule: fed_run.induct)
  case born
  then show ?case
    by (simp add: peers_ok_def new_federation_state_def)
next
  case (listen hs fs addr bound resolved now)
  then show ?case
    by (auto simp: peers_ok_def open_listener_def Let_def split: result.splits)
next
  case (accept hs fs queue broken now)
  then show ?case
    by (auto simp: peers_ok_def accept_pending_def accepted_peer_def peer_ok.simps)
next
  case (dial hs fs dag_tip seed dialled timeout_set now)
  from dial.IH show ?case
    by (rule connect_peer_ok)
next
  case (poll hs fs dag_tip seed d revoked fs' evs)
  from poll.hyps(2) poll.IH show ?case
    by (rule progress_peers_ok)
next
  case (pull hs fs timeout_set peer since k)
  from pull.IH show ?case
    by (rule pull_peers_ok)
qed (simp_all add: peers_ok_def close_listener_def drain_bytes_egressed_def)

text \<open>
  C8. Established means vouched for. However the listener, the dials, the polls and the pulls are
  interleaved and whatever arrives on the sockets, every established connection belongs to a peer
  that sent a hello for the identity it is kept under; that identity is not ours; and the key it is
  pinned under verified a signature over that very hello, or no key is pinned and the substrate was
  started to accept legacy peers. A connection that failed is never kept.
\<close>

theorem established_means_vouched_for:
  assumes "fed_run pf env our legacy hs fs" and "p \<in> set (fs_peers fs)"
  shows "pc_state p \<noteq> Failed \<and>
    (pc_state p = AwaitingHello \<longrightarrow> pc_substrate_id p = None \<and> pc_signer_pubkey p = None) \<and>
    (pc_state p = Established \<longrightarrow>
      (\<exists>h\<in>set hs. pc_substrate_id p = Some (fh_peer_substrate_id h) \<and> fh_peer_substrate_id h \<noteq> our \<and>
        (case pc_signer_pubkey p of Some pk \<Rightarrow> hello_signed_by pf pk h | None \<Rightarrow> legacy)))"
  using fed_run_ok [OF assms(1)] assms(2)
  by (cases "pc_state p") (auto simp: peers_ok_def peer_ok.simps)

section \<open>A peer that is dialled\<close>

lemma hello_fits:
  assumes "length ty \<le> 30"
  shows "length (frame_of mac key (new_message ty rid (build_fed_hello_payload our dag_tip signer sig))) \<le> MAX_FRAME_BODY_SIZE"
proof -
  let ?m = "new_message ty rid (build_fed_hello_payload our dag_tip signer sig)"
  have p: "length (encode_into (VMap (msg_payload ?m))) \<le> 600"
    unfolding new_message_def build_fed_hello_payload_def message.simps event_bytes_def [symmetric]
    by (rule order.trans [OF length_event_fields]; cases dag_tip; cases signer; cases sig) (simp_all add: optional_def)
  have "length (encode_into (message_value ?m)) \<le> 900"
    unfolding message_value_def event_bytes_def [symmetric]
    by (rule order.trans [OF length_event_bytes])
      (use p assms length_field [of "VUint (msg_version ?m)"] length_field [of "VUint rid"] length_field [of "VString ty"]
       in \<open>simp add: new_message_def\<close>)
  then show ?thesis
    by (simp add: frame_of_def MAX_FRAME_BODY_SIZE_def)
qed

lemma parse_built_hello:
  assumes "signer = None \<longleftrightarrow> sig = None"
  shows "parse_fed_hello_payload (build_fed_hello_payload our dag_tip signer sig) =
    Ok \<lparr>fh_peer_substrate_id = our, fh_peer_dag_tip = dag_tip, fh_protocol_version = FEDERATION_PROTOCOL_VERSION,
      fh_signer_pubkey = signer, fh_hello_signature = sig\<rparr>"
  using assms unfolding parse_fed_hello_payload_def build_fed_hello_payload_def sized_field_def opt_uint_def
  by (cases dag_tip; cases signer; cases sig) (simp_all add: optional_def bt_get_of)

lemma wf_hello: "str_ok ty \<Longrightarrow> wf_message (new_message ty rid (build_fed_hello_payload our dag_tip signer sig))"
proof -
  have "wf_value (VMap (build_fed_hello_payload our dag_tip signer sig))"
    unfolding build_fed_hello_payload_def by (rule wf_VMap_of) (auto simp: optional_def split: option.splits)
  then show "str_ok ty \<Longrightarrow> ?thesis"
    by (simp add: wf_message_def new_message_def)
qed

lemma read_fed_message:
  assumes "length (frame_of mac (arr32_bytes key) m) \<le> MAX_FRAME_BODY_SIZE" and "wf_message m"
    and "msg_version m = PROTOCOL_VERSION"
    and "rx st = [Chunk (u32_bytes (word_of_nat (length (frame_of mac (arr32_bytes key) m))) @ frame_of mac (arr32_bytes key) m)]"
  shows "\<exists>es. read_fed_frame mac transient st key = (st\<lparr>rx := es\<rparr>, Ok (Some m))"
proof -
  let ?f = "frame_of mac (arr32_bytes key) m"
  have "encode_frame_body mac m (arr32_bytes key) = Ok ?f"
    by (rule encode_frame_of) simp
  moreover have "length ?f < 2 ^ 63"
    using assms(1) by (simp add: MAX_FRAME_BODY_SIZE_def)
  ultimately have decoded: "decode_frame_body mac ?f (arr32_bytes key) = Ok m"
    by (rule decode_frame_round_trip [OF assms(2,3)])
  have "fst (read_frame (rx st)) = Ok (Some ?f)"
    using read_frame_reads_as [of "rx st"] parse_frame_exact [OF assms(1), of "[]"] by (simp add: assms(4) reads_as_def)
  then obtain es where "read_frame (rx st) = (Ok (Some ?f), es)"
    by (metis prod.collapse)
  then show ?thesis
    by (intro exI [of _ es]) (simp add: read_fed_frame_def decoded)
qed

lemma write_fed_message:
  assumes "length (frame_of mac (arr32_bytes key) m) \<le> MAX_FRAME_BODY_SIZE" and "room (tx st) = None"
    and "flush_failure (tx st) = None"
  shows "\<exists>w n. write_fed_frame mac st m key = (st\<lparr>tx := w\<rparr>, Ok n)"
proof -
  have "encode_frame_body mac m (arr32_bytes key) = Ok (frame_of mac (arr32_bytes key) m)"
    by (rule encode_frame_of) simp
  then show ?thesis
    using assms by (auto simp: write_fed_frame_def write_frame_unlimited)
qed

definition hello_answer :: message where
  "hello_answer = new_message FED_HELLO_ACK 1 (build_fed_hello_payload 7 None (Some 2) (Some 3))"

definition stream_with :: "message \<Rightarrow> tcp_stream" where
  "stream_with m = open_stream\<lparr>rx :=
     [Chunk (u32_bytes (word_of_nat (length (frame_of zero_mac (arr32_bytes 5) m))) @ frame_of zero_mac (arr32_bytes 5) m)]\<rparr>"

definition dialled_state :: federation_state where
  "dialled_state = fst (connect_peer chain_platform plain_env (Ok (stream_with hello_answer, ''peer'')) (Ok ()) 0 1 None None
     (new_federation_state False))"

lemma plain_env_fields [simp]:
  "federation_bootstrap_key (fe_sha plain_env) = 5" "derive_federation_session_key (fe_sha plain_env) a b = 5"
  "fe_mac plain_env = zero_mac"
  by (simp_all add: federation_bootstrap_key_def derive_federation_session_key_def plain_env_def)

lemma dialled_peer:
  obtains p where "p \<in> set (fs_peers dialled_state)" "pc_state p = Established" "pc_signer_pubkey p = Some 2"
proof -
  have first: "length (frame_of zero_mac (arr32_bytes 5) (new_message FED_HELLO 1 (build_fed_hello_payload 1 None None None)))
      \<le> MAX_FRAME_BODY_SIZE"
    by (rule hello_fits) (simp add: FED_HELLO_def)
  obtain w n where "write_fed_frame zero_mac (stream_with hello_answer)
      (new_message FED_HELLO 1 (build_fed_hello_payload 1 None None None)) 5 = ((stream_with hello_answer)\<lparr>tx := w\<rparr>, Ok n)"
    using write_fed_message [OF first, of "stream_with hello_answer"] by (auto simp: stream_with_def open_stream_def)
  then have sent: "greet chain_platform plain_env 1 None None (stream_with hello_answer) =
      ((stream_with hello_answer)\<lparr>tx := w\<rparr>, Ok n)"
    by (simp add: greet_def sign_fed_hello_if_available_def)
  let ?h = "\<lparr>fh_peer_substrate_id = 7, fh_peer_dag_tip = None, fh_protocol_version = FEDERATION_PROTOCOL_VERSION,
      fh_signer_pubkey = Some 2, fh_hello_signature = Some 3\<rparr> :: parsed_fed_hello"
  have fits: "length (frame_of zero_mac (arr32_bytes 5) hello_answer) \<le> MAX_FRAME_BODY_SIZE"
    unfolding hello_answer_def by (rule hello_fits) (simp add: FED_HELLO_ACK_def)
  have wf: "wf_message hello_answer" "msg_version hello_answer = PROTOCOL_VERSION"
    unfolding hello_answer_def by (simp_all add: wf_hello FED_HELLO_ACK_def) (simp add: new_message_def)
  obtain es where "read_fed_frame zero_mac (fe_transient plain_env) ((stream_with hello_answer)\<lparr>tx := w\<rparr>) 5 =
      ((stream_with hello_answer)\<lparr>tx := w\<rparr>\<lparr>rx := es\<rparr>, Ok (Some hello_answer))"
    using read_fed_message [OF fits wf, of "(stream_with hello_answer)\<lparr>tx := w\<rparr>" "fe_transient plain_env"]
    by (auto simp: stream_with_def)
  then obtain st where "read_ack plain_env ((stream_with hello_answer)\<lparr>tx := w\<rparr>) = (st, Ok ?h)"
    by (auto simp: read_ack_def hello_answer_def new_message_def parse_built_hello)
  moreover have "hello_trust chain_platform plain_env False ?h = Ok True"
    by (simp add: hello_trust_def verify_fed_hello_signature_def check_with_def chain_platform_def)
  ultimately have "fs_peers dialled_state =
      [\<lparr>pc_stream = st, pc_state = Established, pc_substrate_id = Some 7, pc_signer_pubkey = Some 2,
        pc_remote_addr = ''peer'', pc_opened_at = 0\<rparr>]"
    by (simp add: dialled_state_def connect_peer_def sent new_federation_state_def pin_dialled_def verified_signer_def
        count_egress_def Let_def)
  then show thesis
    using that by (metis list.set_intros(1) peer_connection.select_convs(2,4))
qed

lemma established_means_vouched_for_witness:
  "\<exists>p\<in>set (fs_peers dialled_state). pc_state p = Established \<and> (\<exists>h. pc_substrate_id p = Some (fh_peer_substrate_id h) \<and>
     fh_peer_substrate_id h \<noteq> 1 \<and> hello_signed_by chain_platform 2 h)"
proof -
  obtain p where p: "p \<in> set (fs_peers dialled_state)" "pc_state p = Established" "pc_signer_pubkey p = Some 2"
    by (rule dialled_peer)
  have "fed_run chain_platform plain_env 1 False
      ([] @ answered chain_platform plain_env 1 None None (Ok (stream_with hello_answer, ''peer''))) dialled_state"
    unfolding dialled_state_def by (rule fed_run.dial) (rule fed_run.born)
  from established_means_vouched_for [OF this p(1)] show ?thesis
    using p by auto
qed

end
