(* ===== verification/Federation_Paging.thy ===== *)
theory Federation_Paging
  imports Federation_Safety
begin

text \<open>
  What the answers to a peer's requests give it: only runs of the log, nothing once it is revoked,
  and, page after page, the whole log once.
\<close>

section \<open>One page\<close>

lemma skip_until_nth:
  assumes "distinct (map node_hash ns)" and "i < length ns"
  shows "skip_until (node_hash (ns ! i)) ns = drop (Suc i) ns"
  using assms
proof (induction ns arbitrary: i)
  case (Cons n ns)
  show ?case
  proof (cases i)
    case (Suc j)
    then have "node_hash (ns ! j) \<noteq> node_hash n"
      using Cons.prems by (metis distinct.simps(2) image_eqI length_Cons list.simps(9) nth_mem set_map Suc_less_eq)
    then show ?thesis
      using Cons Suc by simp
  qed simp
qed simp

lemma skip_until_suffix: "\<exists>pre. ns = pre @ skip_until h ns"
proof (induction ns)
  case (Cons n ns)
  then show ?case
    by (metis append_Cons append_Nil skip_until.simps(2))
qed simp

lemma skip_until_unknown: "h \<notin> node_hash ` set ns \<Longrightarrow> skip_until h ns = []"
  by (induction ns) auto

definition event_hash :: "platform \<Rightarrow> event_for_federation \<Rightarrow> arr32" where
  "event_hash pf e = merkle_hash (pf_hash pf) (ev_parent_hashes e) (ev_content e)"

lemma event_hash_node:
  assumes "dag_inv (pf_hash pf) d" and "n \<in> set (iter_in_insertion_order d)"
  shows "event_hash pf (event_of_node n) = node_hash n"
proof -
  obtain h where "(h, n) \<in> set (nodes d)"
    using assms iter_nodes by fastforce
  then show ?thesis
    using dag_inv_node [OF assms(1)] dag_get_Some_iff [OF assms(1)] by (simp add: event_hash_def event_of_node_def)
qed

lemma enumerate_run:
  obtains pre suf where "map event_of_node (iter_in_insertion_order d) = pre @ enumerate_events_for_federation d since k @ suf"
proof -
  let ?ns = "iter_in_insertion_order d"
  obtain pre where "?ns = pre @ (case since of None \<Rightarrow> ?ns | Some h \<Rightarrow> skip_until h ?ns)"
    using skip_until_suffix [of ?ns] by (cases since) auto
  then have "map event_of_node ?ns = map event_of_node pre @ enumerate_events_for_federation d since k @
      map event_of_node (drop k (case since of None \<Rightarrow> ?ns | Some h \<Rightarrow> skip_until h ?ns))"
    unfolding enumerate_events_for_federation_def Let_def by (metis append_take_drop_id map_append)
  then show thesis
    by (rule that)
qed

lemma parse_request_bound:
  "parse_request_events_since_payload m = Ok (since, k) \<Longrightarrow> k \<le> FED_EVENT_BATCH_MAX_EVENTS"
  by (auto simp: parse_request_events_since_payload_def)

lemma request_turn_sent:
  assumes "request_turn pf env our d revoked p = (Ok t :: (peer_turn, 'e) result)" and "PollEventsSent peer hashes \<in> set (pt_events t)"
  shows "pc_state p = Established \<and> pc_substrate_id p = Some peer \<and> peer \<notin> set revoked \<and>
    (\<exists>since k. k \<le> 100 \<and> hashes = map (event_hash pf) (enumerate_events_for_federation d since k))"
proof -
  have served: "q = peer \<and> (\<exists>since k. k \<le> 100 \<and> hashes = map (event_hash pf) (enumerate_events_for_federation d since k))"
    if serve: "serve_request pf env key d q m p' = (Ok t :: (peer_turn, 'e) result)" for key q m p'
  proof (cases "parse_request_events_since_payload (msg_payload m)")
    case (Ok x)
    then obtain since k where x: "x = (since, k)" and "k \<le> FED_EVENT_BATCH_MAX_EVENTS"
      using parse_request_bound by (metis surj_pair)
    then have "unat k \<le> 100"
      by (simp add: FED_EVENT_BATCH_MAX_EVENTS_def word_le_nat_alt)
    moreover have "q = peer \<and> hashes = map (event_hash pf) (enumerate_events_for_federation d since (unat k))"
      using serve assms(2)
      by (auto simp: serve_request_def Ok x Let_def idle_turn_def drop_turn_def failed_read_def event_hash_def
          split: result.splits prod.splits)
    ultimately show ?thesis
      by blast
  qed (use serve assms(2) in \<open>auto simp: serve_request_def idle_turn_def failed_read_def\<close>)
  show ?thesis
  proof (cases "\<exists>q. pc_state p = Established \<and> pc_substrate_id p = Some q")
    case True
    then obtain q st r where e: "pc_state p = Established" "pc_substrate_id p = Some q"
      and read: "read_fed_frame (fe_mac env) (fe_transient env) (pc_stream p)
        (derive_federation_session_key (fe_sha env) our q) = (st, r)"
      by fastforce
    then have "q \<notin> set revoked \<and> (\<exists>key m p'. serve_request pf env key d q m p' = (Ok t :: (peer_turn, 'e) result))"
      using assms
      by (auto simp: request_turn_def idle_turn_def drop_turn_def failed_read_def Let_def
          split: result.splits option.splits if_splits)
    then show ?thesis
      using served e by fastforce
  next
    case False
    then show ?thesis
      using assms by (auto simp: request_turn_def idle_turn_def split: peer_state.splits option.splits)
  qed
qed

lemma hello_turn_sends_none:
  assumes "hello_turn pf env legacy our ack p = (Ok t :: (peer_turn, 'e) result)"
  shows "PollEventsSent peer hashes \<notin> set (pt_events t)"
proof
  assume sent: "PollEventsSent peer hashes \<in> set (pt_events t)"
  have "PollEventsSent peer hashes \<notin> set (pt_events t)" if "answer_hello pf env legacy our ack rid h q = (Ok t :: (peer_turn, 'e) result)" for rid h q
    using that
    by (auto simp: answer_hello_def acknowledge_def idle_turn_def drop_turn_def failed_read_def Let_def
        split: if_splits result.splits prod.splits)
  then show False
    using assms sent
    by (auto simp: hello_turn_def idle_turn_def drop_turn_def failed_read_def Let_def
        split: if_splits result.splits prod.splits option.splits)
qed

text \<open>
  C23. A peer is sent a run of the log, or nothing. In a poll, events go only to a connection that is
  established, or becomes so in this poll, for a peer that is not revoked; the batch is at most a
  hundred events, and the hashes that the poll reports for it are a contiguous run of the log's node
  hashes in insertion order.
\<close>

theorem peers_get_runs_of_the_log:
  assumes "progress_peers pf env our dag_tip seed d revoked fs = (Ok (fs', evs) :: (_, 'e) result)"
    and "PollEventsSent peer hashes \<in> set evs" and "dag_inv (pf_hash pf) d"
  shows "peer \<notin> set revoked \<and> length hashes \<le> 100 \<and>
    (\<exists>pre suf. map node_hash (iter_in_insertion_order d) = pre @ hashes @ suf) \<and>
    (\<exists>p fs1 evs1. progress_awaiting_hello_peers pf env our dag_tip seed fs = (Ok (fs1, evs1) :: (_, 'e) result) \<and> p \<in> set (fs_peers fs1) \<and>
       pc_state p = Established \<and> pc_substrate_id p = Some peer)"
proof -
  obtain ack fs1 evs1 evs2
    where hello: "progress_awaiting_hello_peers pf env our dag_tip seed fs = (Ok (fs1, evs1) :: (_, 'e) result)"
      and 1: "pass (hello_turn pf env (fs_accept_legacy_peers fs) our ack) fs = (Ok (fs1, evs1) :: (_, 'e) result)"
      and 2: "pass (request_turn pf env our d revoked) fs1 = (Ok (fs', evs2) :: (_, 'e) result)"
      and evs: "evs = evs1 @ evs2"
    using progress_peers_Ok [OF assms(1)] by metis
  have "PollEventsSent peer hashes \<notin> set evs1"
    using pass_events [OF 1] hello_turn_sends_none by metis
  then have "PollEventsSent peer hashes \<in> set evs2"
    using assms(2) evs by simp
  then obtain p t where p: "p \<in> set (fs_peers fs1)"
    and turn: "request_turn pf env our d revoked p = (Ok t :: (peer_turn, 'e) result)"
    "PollEventsSent peer hashes \<in> set (pt_events t)"
    using pass_events [OF 2] by metis
  obtain since k where k: "k \<le> 100" and hashes: "hashes = map (event_hash pf) (enumerate_events_for_federation d since k)"
    using request_turn_sent [OF turn] by blast
  obtain pre suf where "map event_of_node (iter_in_insertion_order d) = pre @ enumerate_events_for_federation d since k @ suf"
    by (rule enumerate_run)
  then have "map (event_hash pf) (map event_of_node (iter_in_insertion_order d)) =
      map (event_hash pf) pre @ hashes @ map (event_hash pf) suf"
    by (simp add: hashes)
  moreover have "map (event_hash pf) (map event_of_node (iter_in_insertion_order d)) =
      map node_hash (iter_in_insertion_order d)"
    using event_hash_node [OF assms(3)] by simp
  moreover have "length hashes \<le> 100"
    using k by (simp add: hashes enumerate_events_for_federation_def Let_def)
  ultimately show ?thesis
    using request_turn_sent [OF turn] hello p by metis
qed

section \<open>Page after page\<close>

text \<open>
  A peer that asks again with the hash of the last event it got, until a batch is marked as the
  last one; \<open>f\<close> is how many requests it makes.
\<close>

fun pull_pages :: "platform \<Rightarrow> dag \<Rightarrow> nat \<Rightarrow> nat \<Rightarrow> arr32 option \<Rightarrow> event_for_federation list \<times> bool" where
  "pull_pages pf d k 0 since = ([], False)"
| "pull_pages pf d k (Suc f) since =
     (let evs = enumerate_events_for_federation d since k in
      if length evs < k then (evs, True)
      else (let (rest, done) = pull_pages pf d k f (Some (event_hash pf (last evs))) in (evs @ rest, done)))"

lemma pull_pages_from:
  assumes "dag_inv (pf_hash pf) d" and "0 < k" and "ns = iter_in_insertion_order d" and "i \<le> length ns"
    and "since = (if i = 0 then None else Some (node_hash (ns ! (i - 1))))"
  shows "pull_pages pf d k f since =
    (if (length ns - i) div k < f then (map event_of_node (drop i ns), True)
     else (map event_of_node (take (f * k) (drop i ns)), False))"
  using assms(4,5)
proof (induction f arbitrary: i since)
  case (Suc f)
  have "distinct (map node_hash ns)"
    using iter_distinct [OF assms(1)] assms(3) by simp
  then have page: "enumerate_events_for_federation d since k = map event_of_node (take k (drop i ns))"
    using Suc.prems skip_until_nth [of ns "i - 1"]
    by (simp add: enumerate_events_for_federation_def assms(3) [symmetric] Let_def)
  show ?case
  proof (cases "length ns - i < k")
    case True
    then show ?thesis
      by (simp add: page)
  next
    case False
    then have full: "length (take k (drop i ns)) = k" and i: "i + k \<le> length ns"
      using Suc.prems(1) by simp_all
    have "take k (drop i ns) \<noteq> []"
      using full assms(2) by auto
    then have "last (take k (drop i ns)) = ns ! (i + k - 1)"
      using full assms(2) i by (simp add: last_conv_nth)
    moreover have "ns ! (i + k - 1) \<in> set ns"
      using i assms(2) by simp
    ultimately have next_since: "event_hash pf (last (map event_of_node (take k (drop i ns)))) = node_hash (ns ! (i + k - 1))"
      using event_hash_node [OF assms(1)] \<open>take k (drop i ns) \<noteq> []\<close> assms(3) by (simp add: last_map)
    have "(length ns - i) div k = Suc ((length ns - (i + k)) div k)"
      using False assms(2) by (metis diff_diff_left div_if not_less_iff_gr_or_eq nat_neq_iff)
    moreover have "pull_pages pf d k f (Some (node_hash (ns ! (i + k - 1)))) =
        (if (length ns - (i + k)) div k < f then (map event_of_node (drop (i + k) ns), True)
         else (map event_of_node (take (f * k) (drop (i + k) ns)), False))"
      using i assms(2) by (intro Suc.IH) auto
    moreover have "take k (drop i ns) @ drop (i + k) ns = drop i ns"
      by (metis append_take_drop_id drop_drop add.commute)
    moreover have "take (Suc f * k) (drop i ns) = take k (drop i ns) @ take (f * k) (drop (i + k) ns)"
      by (simp add: take_add add.commute)
    ultimately show ?thesis
      using full by (simp add: page next_since flip: map_append)
  qed
qed simp


section \<open>A peer that asks\<close>

definition small_dag :: dag where
  "small_dag = fst (insert_node (pf_hash chain_platform) [] ''immune:x'' 2 [1] dag_new)"

lemma small_dag_inv: "dag_inv (pf_hash chain_platform) small_dag"
  unfolding small_dag_def by (rule dag_inv_insert) (simp add: dag_inv_def dag_new_def)

lemma small_dag_node:
  obtains n where "iter_in_insertion_order small_dag = [n]" "node_hash n = 0" "event_of_node n = small_event"
proof -
  have "\<exists>n. iter_in_insertion_order small_dag = [n] \<and> node_hash n = 0 \<and> event_of_node n = small_event"
    by (simp add: small_dag_def insert_node_def check_parents_def dag_new_def iter_in_insertion_order_def dag_get_def
        List.map_filter_simps event_of_node_def small_event_def)
  then show thesis
    using that by blast
qed

definition asking_peer :: peer_connection where
  "asking_peer = \<lparr>pc_stream = stream_with (new_message FED_REQUEST_EVENTS_SINCE 4 (build_request_events_since_payload None 100)),
     pc_state = Established, pc_substrate_id = Some 7, pc_signer_pubkey = Some 2, pc_remote_addr = [], pc_opened_at = 0\<rparr>"


definition asked :: message where
  "asked = new_message FED_REQUEST_EVENTS_SINCE 4 (build_request_events_since_payload None 100)"

lemma asked_turn:
  "\<exists>t. request_turn chain_platform plain_env 1 small_dag [] asking_peer = (Ok t :: (peer_turn, 'e) result) \<and> pt_events t = [PollEventsSent 7 [0]]"
proof (rule small_dag_node)
  fix n
  assume n: "iter_in_insertion_order small_dag = [n]" "node_hash n = 0" "event_of_node n = small_event"
  have fits: "length (frame_of zero_mac (arr32_bytes 5) asked) \<le> MAX_FRAME_BODY_SIZE"
  proof -
    have p: "length (encode_into (VMap (msg_payload asked))) \<le> 100"
      unfolding asked_def new_message_def build_request_events_since_payload_def message.simps event_bytes_def [symmetric]
      by (rule order.trans [OF length_event_fields]) (simp_all add: optional_def)
    have "length (encode_into (message_value asked)) \<le> 900"
      unfolding message_value_def event_bytes_def [symmetric]
      by (rule order.trans [OF length_event_bytes])
        (use p length_field [of "VUint (msg_version asked)"] length_field [of "VUint (request_id asked)"]
           length_field [of "VString (message_type asked)"]
         in \<open>simp add: asked_def new_message_def FED_REQUEST_EVENTS_SINCE_def\<close>)
    then show ?thesis
      by (simp add: frame_of_def MAX_FRAME_BODY_SIZE_def)
  qed
  have wf: "wf_message asked" "msg_version asked = PROTOCOL_VERSION"
  proof -
    have "wf_value (VMap (build_request_events_since_payload None 100))"
      unfolding build_request_events_since_payload_def by (rule wf_VMap_of) (auto simp: optional_def)
    then show "wf_message asked" "msg_version asked = PROTOCOL_VERSION"
      by (simp_all add: wf_message_def asked_def new_message_def FED_REQUEST_EVENTS_SINCE_def)
  qed
  obtain es where read: "read_fed_frame zero_mac (fe_transient plain_env) (stream_with asked) 5 =
      ((stream_with asked)\<lparr>rx := es\<rparr>, Ok (Some asked))"
    using read_fed_message [OF fits wf, of "stream_with asked" "fe_transient plain_env"] by (auto simp: stream_with_def)
  have fits': "length (frame_of zero_mac (arr32_bytes 5) small_batch) \<le> MAX_FRAME_BODY_SIZE"
    using small_frame [of "arr32_bytes 5"] by (simp add: MAX_FRAME_BODY_SIZE_def)
  obtain w k where sent: "write_fed_frame zero_mac ((stream_with asked)\<lparr>rx := es\<rparr>) small_batch 5 =
      ((stream_with asked)\<lparr>rx := es\<rparr>\<lparr>tx := w\<rparr>, Ok k)"
    using write_fed_message [OF fits', of "(stream_with asked)\<lparr>rx := es\<rparr>"] by (auto simp: stream_with_def open_stream_def)
  have req: "parse_request_events_since_payload (msg_payload asked) = Ok (None, 100)"
    by (simp add: asked_def new_message_def build_request_events_since_payload_def parse_request_events_since_payload_def
        sized_field_def uint_or_def optional_def bt_get_of FED_EVENT_BATCH_MAX_EVENTS_def)
  have evs: "enumerate_events_for_federation small_dag None 100 = [small_event]"
    by (simp add: enumerate_events_for_federation_def n)
  have hash: "merkle_hash (pf_hash chain_platform) (ev_parent_hashes small_event) (ev_content small_event) = 0"
    by (simp add: small_event_def)
  have asks: "message_type asked = FED_REQUEST_EVENTS_SINCE" "request_id asked = 4"
    by (simp_all add: asked_def new_message_def)
  let ?p = "asking_peer\<lparr>pc_stream := (stream_with asked)\<lparr>rx := es\<rparr>\<rparr>"
  have "serve_request chain_platform plain_env 5 small_dag 7 asked ?p = (Ok ((idle_turn
      (?p\<lparr>pc_stream := (stream_with asked)\<lparr>rx := es\<rparr>\<lparr>tx := w\<rparr>\<rparr>))\<lparr>pt_egress := k, pt_sent := 1,
        pt_events := [PollEventsSent 7 [0]]\<rparr>) :: (peer_turn, 'e) result)"
    using sent by (simp add: serve_request_def req evs hash asks small_batch_def Let_def)
  moreover have "request_turn chain_platform plain_env 1 small_dag [] asking_peer =
      (serve_request chain_platform plain_env 5 small_dag 7 asked ?p :: (peer_turn, 'e) result)"
    using read asks by (simp add: request_turn_def asking_peer_def asked_def [symmetric] Let_def)
  ultimately show ?thesis
    by simp
qed

lemma peers_get_runs_of_the_log_witness:
  "\<exists>fs' evs. progress_peers chain_platform plain_env 1 None None small_dag []
      ((new_federation_state False)\<lparr>fs_peers := [asking_peer]\<rparr>) =
        (Ok (fs', evs) :: (federation_state \<times> poll_peer_event list, substrate_error) result) \<and>
     PollEventsSent 7 [0] \<in> set evs \<and> (\<exists>pre suf. map node_hash (iter_in_insertion_order small_dag) = pre @ [0] @ suf)"
proof -
  let ?fs = "(new_federation_state False)\<lparr>fs_peers := [asking_peer]\<rparr>"
  obtain t where t: "request_turn chain_platform plain_env 1 small_dag [] asking_peer = (Ok t :: (peer_turn, substrate_error) result)"
    "pt_events t = [PollEventsSent 7 [0]]"
    using asked_turn by blast
  have "hello_turn chain_platform plain_env False 1 ack asking_peer =
      (Ok (idle_turn asking_peer) :: (peer_turn, substrate_error) result)" for ack
    by (simp add: hello_turn_def asking_peer_def)
  moreover have "sweep [idle_turn asking_peer] = [asking_peer]"
    by (simp add: sweep_def marked_def idle_turn_def)
  ultimately obtain fs' where run: "progress_peers chain_platform plain_env 1 None None small_dag [] ?fs =
      (Ok (fs', [PollEventsSent 7 [0]]) :: (federation_state \<times> poll_peer_event list, substrate_error) result)"
    by (simp add: progress_peers_def progress_awaiting_hello_peers_def sign_fed_hello_if_available_def pass_def
        new_federation_state_def t, simp add: idle_turn_def)
  have "PollEventsSent 7 [0] \<in> set [PollEventsSent 7 [0]]"
    by simp
  from peers_get_runs_of_the_log [OF run this small_dag_inv] show ?thesis
    using run by auto
qed

end
