(* ===== verification/Federation_Envelopes.thy ===== *)
theory Federation_Envelopes
  imports Federation_Paging
begin

text \<open>
  What a pull may leave in the log, stated apart from the recursive check: an event is vouched for
  when its own type and the type at every layer inside it may cross, and it has no more layers than
  an event may have.
\<close>

section \<open>Events whose every layer may cross\<close>

definition is_envelope :: "string \<Rightarrow> bool" where
  "is_envelope ty \<longleftrightarrow> starts_with ty NODE_TYPE_FEDERATION_RECEIVED_PREFIX"

definition envelope_holds :: "bytes \<Rightarrow> string \<Rightarrow> bytes \<Rightarrow> bool" where
  "envelope_holds c ty inner \<longleftrightarrow> (\<exists>m. decode c = Ok (VMap m) \<and>
     bt_get m ''peer_event_node_type'' = Some (VString ty) \<and>
     bt_get m ''peer_event_content_canonical_bytes'' = Some (VBytes inner))"

inductive vouched :: "nat \<Rightarrow> string \<Rightarrow> bytes \<Rightarrow> bool" where
  bare: "is_federation_safe_node_type ty \<Longrightarrow> \<not> is_envelope ty \<Longrightarrow> vouched k ty c"
| layer: "is_federation_safe_node_type ty \<Longrightarrow> is_envelope ty \<Longrightarrow> envelope_holds c inner_type inner \<Longrightarrow>
    vouched k inner_type inner \<Longrightarrow> vouched (Suc k) ty c"

lemma vouched_safe: "vouched k ty c \<Longrightarrow> is_federation_safe_node_type ty"
  by (erule vouched.cases) simp_all

lemma vouched_envelope:
  "is_envelope ty \<Longrightarrow> vouched k ty c \<longleftrightarrow> is_federation_safe_node_type ty \<and>
    (\<exists>j ity inner. k = Suc j \<and> envelope_holds c ity inner \<and> vouched j ity inner)"
  by (subst vouched.simps) auto

lemma unwrap_Ok_iff: "unwrap c k = Ok (ty, inner) \<longleftrightarrow> envelope_holds c ty inner"
  by (auto simp: unwrap_def envelope_holds_def map_get_string_def map_get_bytes_def
      split: result.splits Value.splits option.splits)

lemma envelope_holds_one: "envelope_holds c a b \<Longrightarrow> envelope_holds c x y \<Longrightarrow> a = x \<and> b = y"
  by (auto simp: envelope_holds_def)

lemma validate_iff_vouched:
  assumes "is_federation_safe_node_type ty" and "k \<le> MAX_FEDERATION_RECURSION_DEPTH"
  shows "validate_federation_inner ty c k = Ok () \<longleftrightarrow> vouched (MAX_FEDERATION_RECURSION_DEPTH - k) ty c"
  using assms
proof (induction ty c k rule: validate_federation_inner.induct)
  case (1 ty c k)
  show ?case
  proof (cases "is_envelope ty")
    case False
    then show ?thesis
      using 1 by (subst validate_federation_inner.simps) (simp add: is_envelope_def vouched.bare)
  next
    case True
    then have v: "validate_federation_inner ty c k = Ok () \<longleftrightarrow> (\<exists>ity inner. envelope_holds c ity inner \<and>
        is_federation_safe_node_type ity \<and> validate_federation_inner ity inner (k + 1) = Ok ())"
      using 1(3) unwrap_Ok_iff [of c k]
      by (subst validate_federation_inner.simps)
        (auto simp: is_envelope_def dest: envelope_holds_one split: result.splits)
    show ?thesis
    proof (cases "k = MAX_FEDERATION_RECURSION_DEPTH")
      case last: True
      have "validate_federation_inner ity inner (k + 1) \<noteq> Ok ()" for ity inner
        by (subst validate_federation_inner.simps) (simp add: last)
      moreover have "\<not> vouched 0 ty c"
        using True by (simp add: vouched_envelope)
      ultimately show ?thesis
        using v last by simp
    next
      case False
      then obtain j where j: "MAX_FEDERATION_RECURSION_DEPTH - k = Suc j" "MAX_FEDERATION_RECURSION_DEPTH - Suc k = j"
        using 1(3) by (metis Suc_diff_Suc le_neq_implies_less)
      have step: "validate_federation_inner ity inner (k + 1) = Ok () \<longleftrightarrow> vouched j ity inner"
        if "envelope_holds c ity inner" "is_federation_safe_node_type ity" for ity inner
        using 1(1) [of "(ity, inner)" ity inner] that True False 1(3) unwrap_Ok_iff [of c k]
        by (simp add: is_envelope_def j)
      have "vouched (Suc j) ty c \<longleftrightarrow> (\<exists>ity inner. envelope_holds c ity inner \<and> vouched j ity inner)"
        using True 1(2) by (simp add: vouched_envelope)
      then show ?thesis
        using v step j vouched_safe by metis
    qed
  qed
qed

lemma judge_iff_vouched: "judge e = Ok Accepted \<longleftrightarrow> vouched MAX_FEDERATION_RECURSION_DEPTH (ev_node_type e) (ev_content e)"
proof (cases "is_federation_safe_node_type (ev_node_type e)")
  case True
  then show ?thesis
    using validate_iff_vouched [OF True, of 0 "ev_content e"] by (auto simp: judge_def split: result.splits)
qed (auto simp: judge_def dest: vouched_safe)

section \<open>What a pull adds to the log\<close>

definition adds :: "platform \<Rightarrow> (dag_node \<Rightarrow> bool) \<Rightarrow> 'a action \<Rightarrow> bool" where
  "adds pf P m \<longleftrightarrow> (\<forall>s. server_inv pf s \<longrightarrow> server_inv pf (fst (m s)) \<and>
     (\<exists>ns. iter_in_insertion_order (ss_dag (fst (m s))) = iter_in_insertion_order (ss_dag s) @ ns \<and> (\<forall>n\<in>set ns. P n)))"

named_theorems adds_intros

lemma adds_of_grows:
  assumes "grows_by pf (\<lambda>_. ()) T m" and "\<And>n. T (node_type n) \<Longrightarrow> P n"
  shows "adds pf P m"
  using assms unfolding adds_def grows_by_def extends_def by metis

lemma adds_same:
  assumes "\<And>s. ss_dag (fst (m s)) = ss_dag s" and "\<And>s. ss_cultivation_state (fst (m s)) = ss_cultivation_state s"
  shows "adds pf P m"
  using assms by (simp add: adds_def server_inv_def)

lemma adds_return [adds_intros]: "adds pf P (return_act a)"
  by (rule adds_same) (simp_all add: return_act_def)

lemma adds_lift [adds_intros]: "adds pf P (lift_act r)"
  by (rule adds_same) (simp_all add: lift_act_def)

lemma adds_on_federation [adds_intros]: "adds pf P (on_federation f)"
  by (rule adds_same) (simp_all add: on_federation_def split: prod.split)

lemma adds_trans:
  assumes "server_inv pf s" and "adds pf P m" and "\<And>a. m s = (fst (m s), Ok a) \<Longrightarrow> adds pf P (f a)"
  shows "server_inv pf (fst (bind_act m f s)) \<and>
    (\<exists>ns. iter_in_insertion_order (ss_dag (fst (bind_act m f s))) = iter_in_insertion_order (ss_dag s) @ ns \<and>
      (\<forall>n\<in>set ns. P n))"
proof -
  obtain s1 r where ms: "m s = (s1, r)"
    by (cases "m s")
  obtain ns where 1: "server_inv pf s1" "iter_in_insertion_order (ss_dag s1) = iter_in_insertion_order (ss_dag s) @ ns"
    "\<forall>n\<in>set ns. P n"
    using assms(1,2) ms unfolding adds_def by (metis fst_conv)
  show ?thesis
  proof (cases r)
    case (Ok a)
    then obtain ns' where "server_inv pf (fst (f a s1))"
      "iter_in_insertion_order (ss_dag (fst (f a s1))) = iter_in_insertion_order (ss_dag s1) @ ns'" "\<forall>n\<in>set ns'. P n"
      using assms(3) [of a] 1(1) ms unfolding adds_def by (metis fst_conv)
    then show ?thesis
      using 1(2,3) by (simp add: bind_act_def ms Ok) blast
  qed (use 1 in \<open>auto simp: bind_act_def ms\<close>)
qed

lemma adds_bind [adds_intros]:
  assumes "adds pf P m" and "\<And>a. adds pf P (f a)"
  shows "adds pf P (bind_act m f)"
proof -
  have "server_inv pf (fst (bind_act m f s)) \<and>
      (\<exists>ns. iter_in_insertion_order (ss_dag (fst (bind_act m f s))) = iter_in_insertion_order (ss_dag s) @ ns \<and>
        (\<forall>n\<in>set ns. P n))" if "server_inv pf s" for s
    using that assms(1) by (rule adds_trans) (rule assms(2))
  then show ?thesis
    unfolding adds_def by simp
qed

lemma adds_lifted: "(\<And>a. r = Ok a \<Longrightarrow> adds pf P (f a)) \<Longrightarrow> adds pf P (bind_act (lift_act r) f)"
  by (cases r) (simp_all add: adds_def bind_act_def lift_act_def)

lemma adds_ignore [adds_intros]: "adds pf P m \<Longrightarrow> adds pf P (ignore_act m)"
  by (simp add: adds_def)

definition pulled :: "platform \<Rightarrow> arr32 \<Rightarrow> dag_node \<Rightarrow> bool" where
  "pulled pf peer n \<longleftrightarrow> starts_with (node_type n) ''immune:'' \<or> node_type n = NODE_TYPE_FEDERATION_EVENTS_RECEIVED \<or>
     (\<exists>e. node_type n = wrapper_type peer \<and> content n = wrapper_bytes pf peer e \<and>
        vouched MAX_FEDERATION_RECURSION_DEPTH (ev_node_type e) (ev_content e))"

lemma adds_signal [adds_intros]: "adds pf (pulled pf peer) (emit_immune_sporocarp pf now det name ev)"
  by (rule adds_of_grows [where T = "\<lambda>ty. starts_with ty ''immune:''"])
    (rule grows_intros, simp_all add: starts_with_def pulled_def)

lemma adds_mark [adds_intros]:
  "adds pf (pulled pf peer) (emit_substrate_event pf NODE_TYPE_FEDERATION_EVENTS_RECEIVED c)"
  by (rule adds_of_grows [where T = "\<lambda>ty. ty = NODE_TYPE_FEDERATION_EVENTS_RECEIVED"])
    (rule grows_intros, simp_all add: pulled_def)

lemma wrapper_not_family: "\<not> is_cultivation_family_node_type (wrapper_type peer)"
  by (simp add: wrapper_type_def is_cultivation_family_node_type_def starts_with_def NODE_TYPE_BET_RETIRED_PREFIX_def
      NODE_TYPE_CULTIVATION_RECOVERED_PREFIX_def NODE_TYPE_CULTIVATION_ORPHANED_PREFIX_def
      NODE_TYPE_SUCCESSION_COMPLETED_PREFIX_def)

lemma adds_wrapper:
  assumes "vouched MAX_FEDERATION_RECURSION_DEPTH (ev_node_type e) (ev_content e)"
  shows "adds pf (pulled pf peer)
    (\<lambda>s. insert_act pf what (tip_parents (ss_dag s)) (wrapper_type peer) (ss_cycle_counter s) (wrapper_bytes pf peer e) s)"
  unfolding adds_def
proof (intro allI impI)
  fix s
  assume inv: "server_inv pf s"
  let ?m = "insert_act pf what (tip_parents (ss_dag s)) (wrapper_type peer) (ss_cycle_counter s) (wrapper_bytes pf peer e)"
  from inv order.refl wrapper_not_family [of peer] show "server_inv pf (fst (?m s)) \<and>
      (\<exists>ns. iter_in_insertion_order (ss_dag (fst (?m s))) = iter_in_insertion_order (ss_dag s) @ ns \<and>
        (\<forall>n\<in>set ns. pulled pf peer n))"
  proof (cases rule: insert_act_cases [where what = what and cyc = "ss_cycle_counter s" and c = "wrapper_bytes pf peer e"])
    case (logged s' n)
    have "pulled pf peer n"
      using assms logged(2) by (auto simp: pulled_def node_over_def)
    then show ?thesis
      using logged(1,3,5) by simp
  qed (use inv in simp)
qed

lemma adds_wrappers:
  "\<forall>e\<in>set es. vouched MAX_FEDERATION_RECURSION_DEPTH (ev_node_type e) (ev_content e) \<Longrightarrow>
    adds pf (pulled pf peer) (ingest_wrappers pf peer es)"
  by (induction es) (auto intro!: adds_intros adds_wrapper)

lemma adds_unless_none [adds_intros]: "adds pf (pulled pf peer) (signal_unless_none pf observed det name xs evidence)"
  unfolding signal_unless_none_def by (auto intro: adds_intros)

lemma adds_refusals [adds_intros]: "adds pf (pulled pf peer) (signal_refusals pf clk peer js)"
  unfolding signal_refusals_def Let_def by (intro adds_intros)

lemma traverse_zip: "traverse f xs = Ok ys \<Longrightarrow> j \<in> set (zip xs ys) \<Longrightarrow> f (fst j) = Ok (snd j)"
  by (induction xs arbitrary: ys) auto

lemma adds_take_in: "adds pf (pulled pf peer) (take_in pf clk stamp peer evs)"
  unfolding take_in_def
proof (rule adds_lifted)
  fix vs
  assume vs: "traverse judge evs = (Ok vs :: (verdict list, substrate_error) result)"
  have "\<forall>e\<in>set (map fst (filter (\<lambda>j. snd j = Accepted) (zip evs vs))).
      vouched MAX_FEDERATION_RECURSION_DEPTH (ev_node_type e) (ev_content e)"
    using traverse_zip [OF vs] judge_iff_vouched by fastforce
  moreover have "adds pf (pulled pf peer) (mark_received pf stamp peer hashes)" for hashes
    unfolding mark_received_def by (auto intro: adds_intros)
  ultimately show "adds pf (pulled pf peer) (bind_act (signal_refusals pf clk peer (zip evs vs)) (\<lambda>_.
     bind_act (ingest_wrappers pf peer (map fst (filter (\<lambda>j. snd j = Accepted) (zip evs vs)))) (\<lambda>hashes.
     bind_act (on_federation (\<lambda>fs. (fs\<lparr>fs_events_received_total :=
       sat_add (fs_events_received_total fs) (word_of_nat (length evs))\<rparr>, Ok ()))) (\<lambda>_.
     bind_act (mark_received pf stamp peer hashes) (\<lambda>mark. return_act (hashes, mark))))))"
    by (intro adds_intros adds_wrappers)
qed

lemma adds_pull_from: "adds pf (pulled pf peer) (pull_from pf env timeout_set clk stamp request peer)"
  unfolding adds_def
proof (intro allI impI)
  fix s
  assume inv: "server_inv pf s"
  have grown: "server_inv pf (fst (m s1)) \<and>
      (\<exists>ns. iter_in_insertion_order (ss_dag (fst (m s1))) = iter_in_insertion_order (ss_dag s) @ ns \<and> (\<forall>n\<in>set ns. pulled pf peer n))"
    if "adds pf (pulled pf peer) m" "ss_dag s1 = ss_dag s" "ss_cultivation_state s1 = ss_cultivation_state s"
    for m :: "message option action" and s1
    using that inv unfolding adds_def server_inv_def by metis
  have refusals: "adds pf (pulled pf peer) (refuse_revoked pf observed peer request)"
    "adds pf (pulled pf peer) (refuse_oversized pf observed peer request what)" for observed what
    unfolding refuse_revoked_def refuse_oversized_def by (intro adds_intros)+
  have batch: "adds pf (pulled pf peer) (receive_batch pf clk stamp peer request b)" for b
    unfolding receive_batch_def by (cases b) (auto intro!: adds_intros adds_take_in)
  obtain s1 r where pull: "on_federation (pull_events_from_peer env timeout_set peer
      (opt_arr32 (msg_payload request) ''since_node_hash'') (substrate_id s)
      (uint_or FED_EVENT_BATCH_MAX_EVENTS (msg_payload request) ''max_events'')) s = (s1, r)"
    by fastforce
  then have same: "ss_dag s1 = ss_dag s" "ss_cultivation_state s1 = ss_cultivation_state s"
    by (auto simp: on_federation_def split: prod.splits)
  have "\<exists>m s1. pull_from pf env timeout_set clk stamp request peer s = m s1 \<and> adds pf (pulled pf peer) m \<and>
      ss_dag s1 = ss_dag s \<and> ss_cultivation_state s1 = ss_cultivation_state s"
  proof (cases "peer \<in> set (ss_revoked_peers s)")
    case True
    then show ?thesis
      using refusals(1) by (auto simp: pull_from_def)
  next
    case False
    show ?thesis
    proof (cases r)
      case (Ok b)
      then show ?thesis
        using False same batch [of b] by (auto simp: pull_from_def pull)
    next
      case (Err e)
      have failed: "adds pf (pulled pf peer) (lift_act (Err e) :: message option action)"
        by (rule adds_intros)
      show ?thesis
      proof (cases "\<exists>what. e = SubProtocol what \<and> contains_str what ''FED_EVENT_MAX_CONTENT_BYTES''")
        case True
        then obtain what where "e = SubProtocol what" "contains_str what ''FED_EVENT_MAX_CONTENT_BYTES''"
          by blast
        then have "pull_from pf env timeout_set clk stamp request peer s = refuse_oversized pf (clk 0) peer request what s1"
          using False Err by (simp add: pull_from_def pull)
        then show ?thesis
          using refusals(2) same by blast
      next
        case 2: False
        then have "pull_from pf env timeout_set clk stamp request peer s = lift_act (Err e) s1"
          using False Err by (cases e) (simp_all add: pull_from_def pull lift_act_def)
        then show ?thesis
          using failed same by blast
      qed
    next
      case (Abort x)
      have "adds pf (pulled pf peer) (lift_act (Abort x) :: message option action)"
        by (rule adds_intros)
      moreover have "pull_from pf env timeout_set clk stamp request peer s = lift_act (Abort x) s1"
        using False Abort by (simp add: pull_from_def pull lift_act_def)
      ultimately show ?thesis
        using same by blast
    qed
  qed
  then show "server_inv pf (fst (pull_from pf env timeout_set clk stamp request peer s)) \<and>
      (\<exists>ns. iter_in_insertion_order (ss_dag (fst (pull_from pf env timeout_set clk stamp request peer s))) =
        iter_in_insertion_order (ss_dag s) @ ns \<and> (\<forall>n\<in>set ns. pulled pf peer n))"
    using grown by metis
qed

section \<open>What is stored\<close>

text \<open>
  C3. A pull stores only what was vouched for. Whatever a peer answers, a pull keeps the state's
  invariant and adds to the log only immune signals, the mark that events were received, and
  envelopes of our own, in which we name the peer that we asked and which hold an event whose every
  layer has a type that may cross, within five layers; and nothing but a signal when that peer is revoked.
\<close>

theorem pull_stores_only_vouched:
  assumes "server_inv pf s"
    and "handle_federation_pull_events_from_peer pf env timeout_set clk stamp request s = (s', r)"
  shows "server_inv pf s' \<and> (\<exists>ns. iter_in_insertion_order (ss_dag s') = iter_in_insertion_order (ss_dag s) @ ns \<and>
    (\<forall>n\<in>set ns. starts_with (node_type n) ''immune:'' \<or>
       (\<exists>peer. opt_arr32 (msg_payload request) ''peer_substrate_id'' = Some peer \<and> peer \<notin> set (ss_revoked_peers s) \<and>
         (node_type n = NODE_TYPE_FEDERATION_EVENTS_RECEIVED \<or>
          (\<exists>e. node_type n = wrapper_type peer \<and> content n = wrapper_bytes pf peer e \<and>
             vouched 5 (ev_node_type e) (ev_content e))))))"
proof (cases "opt_arr32 (msg_payload request) ''peer_substrate_id''")
  case None
  then show ?thesis
    using assms
    by (auto simp: handle_federation_pull_events_from_peer_def bind_act_def lift_act_def)
next
  case (Some peer)
  then have s': "s' = fst (pull_from pf env timeout_set clk stamp request peer s)"
    using assms(2)
    by (simp add: handle_federation_pull_events_from_peer_def bind_act_def lift_act_def)
  show ?thesis
  proof (cases "peer \<in> set (ss_revoked_peers s)")
    case True
    have "grows_by pf (\<lambda>_. ()) (\<lambda>ty. starts_with ty ''immune:'') (refuse_revoked pf (clk 0) peer request)"
      unfolding refuse_revoked_def by (intro grows_intros) (simp_all add: starts_with_def)
    then have "adds pf (\<lambda>n. starts_with (node_type n) ''immune:'') (refuse_revoked pf (clk 0) peer request)"
      by (rule adds_of_grows)
    moreover have "s' = fst (refuse_revoked pf (clk 0) peer request s)"
      using True by (simp add: s' pull_from_def)
    ultimately show ?thesis
      using assms(1) unfolding adds_def by blast
  next
    case False
    obtain ns where "server_inv pf s'" "iter_in_insertion_order (ss_dag s') = iter_in_insertion_order (ss_dag s) @ ns"
      "\<forall>n\<in>set ns. pulled pf peer n"
      using adds_pull_from [of pf peer env timeout_set clk stamp request] assms(1) unfolding adds_def s' by blast
    then show ?thesis
      using Some False unfolding pulled_def MAX_FEDERATION_RECURSION_DEPTH_def by blast
  qed
qed

section \<open>Relays\<close>

text \<open>What a substrate that stored an event serves for it: its envelope, with its own parents and cycle.\<close>

record hop =
  hop_from :: arr32
  hop_parents :: "arr32 list"
  hop_cycle :: u64

definition relay :: "platform \<Rightarrow> hop \<Rightarrow> event_for_federation \<Rightarrow> event_for_federation" where
  "relay pf h e = \<lparr>ev_parent_hashes = hop_parents h, ev_node_type = wrapper_type (hop_from h),
     ev_created_at_cycle = hop_cycle h, ev_content = wrapper_bytes pf (hop_from h) e\<rparr>"

lemma relay_stored:
  "event_of_node (node_over H ps (wrapper_type peer) cyc (wrapper_bytes pf peer e)) =
    relay pf \<lparr>hop_from = peer, hop_parents = ps, hop_cycle = cyc\<rparr> e"
  by (simp add: event_of_node_def node_over_def relay_def)

lemma wrapper_type_crosses: "is_federation_safe_node_type (wrapper_type peer)" "is_envelope (wrapper_type peer)"
  by (simp_all add: wrapper_type_def is_federation_safe_node_type_def FEDERATION_SAFE_PREFIXES_def starts_with_def
      is_envelope_def NODE_TYPE_FEDERATION_RECEIVED_PREFIX_def)

lemma str_ok_hex_first_8 [wf_intros]: "str_ok (hex_first_8_bytes h)"
proof -
  have "of_char (hex_digit n) < (128 :: nat)" if "n < 16" for n
    using that by (simp add: of_char_hex_digit)
  moreover have "unat (b :: u8) div 16 < 16" "unat b mod 16 < 16" for b
    using unsigned_less [of b, where ?'a = nat] by simp_all
  ultimately have "ascii (hex_byte b)" for b
    by (simp add: ascii_def hex_byte_def)
  then have "ascii (concat (map hex_byte bs))" for bs
    by (induction bs) (auto simp: ascii_def)
  then show ?thesis
    unfolding hex_first_8_bytes_def by (intro ascii_str_ok)
qed

lemma unwrap_wrapper:
  assumes "str_ok (ev_node_type e)" and "length (wrapper_bytes pf peer e) < 2 ^ 63"
  shows "unwrap (wrapper_bytes pf peer e) k = Ok (ev_node_type e, ev_content e)"
proof -
  have "envelope_holds (wrapper_bytes pf peer e) (ev_node_type e) (ev_content e)"
    using assms unfolding envelope_holds_def wrapper_bytes_def
    by (subst decode_event) (auto simp: event_ok_def arr32_array_def bt_get_of)
  then show ?thesis
    by (simp add: unwrap_Ok_iff)
qed

lemma validate_relays:
  assumes "\<not> is_envelope (ev_node_type e)" and "is_federation_safe_node_type (ev_node_type e)"
    and "str_ok (ev_node_type e)" and "k \<le> 6"
    and "\<forall>i. length (ev_content (foldr (relay pf) (drop i hops) e)) < 2 ^ 63"
  shows "validate_federation_inner (ev_node_type (foldr (relay pf) hops e)) (ev_content (foldr (relay pf) hops e)) k =
    (if k + length hops \<le> 5 then Ok () else Err (DepthExceeded 6))"
  using assms(4,5)
proof (induction hops arbitrary: k)
  case Nil
  then show ?case
    using assms(1,2) by (subst validate_federation_inner.simps)
      (simp add: is_envelope_def MAX_FEDERATION_RECURSION_DEPTH_def)
next
  case (Cons h hops)
  let ?e = "foldr (relay pf) hops e"
  have small: "\<forall>i. length (ev_content (foldr (relay pf) (drop i hops) e)) < 2 ^ 63"
    using Cons.prems(2) by (metis drop_Suc_Cons)
  have "length (wrapper_bytes pf (hop_from h) ?e) < 2 ^ 63"
    using Cons.prems(2) [rule_format, of 0] by (simp add: relay_def)
  moreover have "str_ok (ev_node_type ?e)" and "is_federation_safe_node_type (ev_node_type ?e)"
    using assms(2,3) wrapper_type_crosses(1)
    by (cases hops; auto simp: relay_def wrapper_type_def intro!: str_ok_hex_first_8)+
  ultimately have inner: "unwrap (wrapper_bytes pf (hop_from h) ?e) k = Ok (ev_node_type ?e, ev_content ?e)"
    "is_federation_safe_node_type (ev_node_type ?e)"
    by (simp_all add: unwrap_wrapper)
  show ?case
  proof (cases "k = 6")
    case False
    then have k: "k \<le> 5"
      using Cons.prems(1) by simp
    have "validate_federation_inner (ev_node_type ?e) (ev_content ?e) (k + 1) =
        (if k + 1 + length hops \<le> 5 then Ok () else Err (DepthExceeded 6))"
      using k small by (intro Cons.IH) simp
    then show ?thesis
      using k inner wrapper_type_crosses(2) by (subst validate_federation_inner.simps)
        (simp add: is_envelope_def MAX_FEDERATION_RECURSION_DEPTH_def relay_def)
  qed (subst validate_federation_inner.simps, simp add: MAX_FEDERATION_RECURSION_DEPTH_def)
qed

text \<open>
  C26. An event travels five relays. An event of a type that may cross, stored in an envelope and
  served again by one substrate after another, is accepted by the next one as long as at most five
  of them have wrapped it, and is refused as too deep by all from the sixth envelope on.
\<close>

theorem five_relays:
  assumes "is_federation_safe_node_type (ev_node_type e)" and "\<not> is_envelope (ev_node_type e)"
    and "str_ok (ev_node_type e)" and "\<forall>i. length (ev_content (foldr (relay pf) (drop i hops) e)) < 2 ^ 63"
  shows "judge (foldr (relay pf) hops e) =
    Ok (if length hops \<le> 5 then Accepted else Recursive (DepthExceeded 6))"
proof -
  have "is_federation_safe_node_type (ev_node_type (foldr (relay pf) hops e))"
    using assms(1) wrapper_type_crosses(1) by (cases hops) (simp_all add: relay_def)
  then show ?thesis
    using validate_relays [OF assms(2,1,3) _ assms(4), of 0] by (simp add: judge_def)
qed

section \<open>Examples\<close>

definition pulling_state :: server_state where
  "pulling_state = blank_state\<lparr>ss_federation := (new_federation_state False)\<lparr>fs_peers :=
     [\<lparr>pc_stream = stream_with small_batch, pc_state = Established, pc_substrate_id = Some 8, pc_signer_pubkey = Some 2,
       pc_remote_addr = [], pc_opened_at = 0\<rparr>]\<rparr>\<rparr>"

definition pull_request :: message where
  "pull_request = new_message ''federation_pull_events_from_peer'' 3 (bt_of [(''peer_substrate_id'', VBytes (arr32_bytes 8))])"

lemma pull_stores_only_vouched_witness:
  "\<exists>ns. iter_in_insertion_order (ss_dag (fst (handle_federation_pull_events_from_peer chain_platform plain_env (Ok ())
      (\<lambda>_. 0) 0 pull_request pulling_state))) = iter_in_insertion_order (ss_dag pulling_state) @ ns \<and>
    (\<forall>n\<in>set ns. starts_with (node_type n) ''immune:'' \<or> node_type n = NODE_TYPE_FEDERATION_EVENTS_RECEIVED \<or>
      (\<exists>e. content n = wrapper_bytes chain_platform 8 e \<and> vouched 5 (ev_node_type e) (ev_content e)))"
proof -
  have inv: "server_inv chain_platform pulling_state"
    using server_inv_blank [of chain_platform] by (simp add: pulling_state_def server_inv_def)
  have peer: "opt_arr32 (msg_payload pull_request) ''peer_substrate_id'' = Some 8"
    by (simp add: pull_request_def new_message_def opt_arr32_def opt_bytes_def bytes_arr32_def bt_get_of)
  show ?thesis
    using pull_stores_only_vouched [OF inv prod.collapse [symmetric],
        of plain_env "Ok ()" "\<lambda>_. 0" 0 pull_request] peer
    by auto
qed

definition plain_hop :: hop where
  "plain_hop = \<lparr>hop_from = 7, hop_parents = [], hop_cycle = 3\<rparr>"

lemma relayed_size:
  "length (ev_content (foldr (relay pf) (replicate n plain_hop) small_event)) \<le> 1000 * Suc n"
proof (induction n)
  case (Suc n)
  let ?e = "foldr (relay pf) (replicate n plain_hop) small_event"
  have "length (hex_first_8_bytes 7) \<le> 16"
    by (simp add: hex_first_8_bytes_def length_concat comp_def sum_list_triv)
  then have "length (ev_node_type ?e) \<le> 50" and "ev_parent_hashes ?e = []"
    by (cases n; simp add: relay_def wrapper_type_def plain_hop_def small_event_def)+
  moreover have "length (wrapper_bytes pf 7 ?e) \<le> 400 + length (ev_node_type ?e) + length (ev_content ?e) +
      43 * length (ev_parent_hashes ?e)"
    unfolding wrapper_bytes_def
    by (rule order.trans [OF length_event_fields]) (simp_all add: arr32_array_def comp_def sum_list_triv list_all_iff)
  moreover have "ev_content (foldr (relay pf) (replicate (Suc n) plain_hop) small_event) = wrapper_bytes pf 7 ?e"
    by (simp add: relay_def plain_hop_def)
  ultimately show ?case
    using Suc.IH by simp
qed (simp add: small_event_def)

lemma five_relays_witness:
  "judge (foldr (relay chain_platform) (replicate 5 plain_hop) small_event) = (Ok Accepted :: (verdict, unit) result) \<and>
   judge (foldr (relay chain_platform) (replicate 6 plain_hop) small_event) =
     (Ok (Recursive (DepthExceeded 6)) :: (verdict, unit) result)"
proof -
  have small: "length (ev_content (foldr (relay chain_platform) (drop i (replicate n plain_hop)) small_event)) < 2 ^ 63"
    if "n \<le> 6" for i n
    using relayed_size [of chain_platform "n - i"] that by simp
  have "is_federation_safe_node_type (ev_node_type small_event)" "\<not> is_envelope (ev_node_type small_event)"
    "str_ok (ev_node_type small_event)"
    by (simp_all add: small_event_def is_federation_safe_node_type_def FEDERATION_SAFE_PREFIXES_def starts_with_def
        is_envelope_def NODE_TYPE_FEDERATION_RECEIVED_PREFIX_def)
  then show ?thesis
    using five_relays [of small_event chain_platform "replicate 5 plain_hop"]
      five_relays [of small_event chain_platform "replicate 6 plain_hop"] small by simp
qed

end
