(* ===== verification/Integrity.thy ===== *)
theory Integrity
  imports Advance
begin

text \<open>
  The integrity checks that a substrate runs at boot and on request, \<^verbatim>\<open>substrate/src/integrity.rs\<close>:
  its identity, its counter against the log, the hashes of the log, the rendering of what it wrote
  itself, its state against the state that the log derives, parts that vanished without a tombstone,
  the uniqueness of its birth, and its counter against the advances logged. Decoding a body of the
  log can panic, so a check is a result. The outcomes of saving to disk are arguments.
\<close>

section \<open>Results\<close>

record integrity_check_result =
  ic_check_id :: string
  ic_passed :: bool
  ic_evidence :: string
  ic_witness_inputs :: bytes
  ic_tier :: string

definition tier_1_result :: "string \<Rightarrow> bool \<Rightarrow> string \<Rightarrow> (string \<times> Value) list \<Rightarrow> integrity_check_result" where
  "tier_1_result check_id passed evidence inputs =
     \<lparr>ic_check_id = check_id, ic_passed = passed, ic_evidence = evidence,
      ic_witness_inputs = event_bytes inputs, ic_tier = ''tier_1''\<rparr>"

definition genesis_time_unix_ns :: "server_state \<Rightarrow> i64" where
  "genesis_time_unix_ns s = (case ss_genesis_time s of Some t \<Rightarrow> t | None \<Rightarrow> 0)"

definition le_sign :: string where
  "le_sign = [CHR 0xE2, CHR 0x89, CHR 0xA4]"

definition log_of :: "server_state \<Rightarrow> dag_node list" where
  "log_of s = iter_in_insertion_order (ss_dag s)"

definition tip_witness :: "server_state \<Rightarrow> Value" where
  "tip_witness s = VBytes (case tip (ss_dag s) of Some t \<Rightarrow> arr32_bytes t | None \<Rightarrow> [])"

section \<open>Identity, counter and hashes\<close>

definition check_substrate_id :: "server_state \<Rightarrow> integrity_check_result" where
  "check_substrate_id s =
     (let zero = (substrate_id s = 0) in
      tier_1_result ''substrate_id_well_formed'' (\<not> zero)
        (if zero then ''manifest.substrate_id is all zeros (genesis bug or tamper)'' else ''ok'')
        [(''substrate_id'', VBytes (arr32_bytes (substrate_id s)))])"

definition max_dag_cycle :: "server_state \<Rightarrow> u64" where
  "max_dag_cycle s = fold max (map created_at_cycle (log_of s)) 0"

definition check_cycle_monotonic :: "server_state \<Rightarrow> integrity_check_result" where
  "check_cycle_monotonic s =
     (let top = max_dag_cycle s; monotonic = (top \<le> ss_cycle_counter s) in
      tier_1_result ''cycle_counter_monotonic'' monotonic
        (''manifest.cycle_counter='' @ u64_str (ss_cycle_counter s) @
         (if monotonic then '' >= max(DAG.at_cycle)='' @ u64_str top
          else '' < max(DAG.at_cycle)='' @ u64_str top @ '' (manifest may have rolled back)''))
        [(''manifest_cycle_counter'', VUint (ss_cycle_counter s)), (''max_dag_at_cycle'', VUint top)])"

definition check_dag_verify :: "platform \<Rightarrow> server_state \<Rightarrow> (integrity_check_result, 'e) result" where
  "check_dag_verify pf s =
     (let report = (\<lambda>passed evidence. Ok (tier_1_result ''dag_verify_all'' passed evidence
            [(''node_count'', VUint (word_of_nat (node_count (ss_dag s)))), (''dag_tip_hash'', tip_witness s)]))
      in case verify_all (pf_hash pf) (ss_dag s) of
           Ok _ \<Rightarrow> report True (''ok (all '' @ decimal (node_count (ss_dag s)) @ '' nodes pass hash recomputation)'')
         | Err e \<Rightarrow> report False (''dag_verify_all failed: '' @ dag_display e)
         | Abort x \<Rightarrow> Abort x)"

section \<open>Rendering\<close>

definition is_substrate_generated :: "dag_node \<Rightarrow> bool" where
  "is_substrate_generated n \<longleftrightarrow> \<not> starts_with (node_type n) ''mutation:''"

text \<open>Why a node's content is not what its rendering again would be, \<open>None\<close> when it is.\<close>

definition render_drift :: "dag_node \<Rightarrow> (string option, 'e) result" where
  "render_drift n =
     (case decode (content n) of
        Ok v \<Rightarrow>
          (case encode v of
             Ok b \<Rightarrow>
               Ok (if b = content n then None
                   else Some (''node '' @ to_hex (node_hash n) @ '' (type '' @ str_debug (node_type n) @
                     '') round-trips to different bytes (original '' @ decimal (length (content n)) @
                     '' bytes, re-encoded '' @ decimal (length b) @ '' bytes)''))
           | Err e \<Rightarrow> Ok (Some (''node '' @ to_hex (node_hash n) @ '' re-encode failed: '' @ cb_display e))
           | Abort x \<Rightarrow> Abort x)
      | Err e \<Rightarrow> Ok (Some (''node '' @ to_hex (node_hash n) @ '' decode failed: '' @ cb_display e))
      | Abort x \<Rightarrow> Abort x)"

text \<open>The number of nodes that drift and the first of them.\<close>

definition count_drift :: "dag_node list \<Rightarrow> (nat \<times> string option, 'e) result" where
  "count_drift ns =
     try_fold (\<lambda>n (k, first).
       and_then (render_drift n) (\<lambda>r.
         Ok (case r of
               None \<Rightarrow> (k, first)
             | Some why \<Rightarrow> (Suc k, case first of None \<Rightarrow> Some why | Some f \<Rightarrow> Some f)))) ns (0, None)"

definition check_render_drift :: "server_state \<Rightarrow> (integrity_check_result, 'e) result" where
  "check_render_drift s =
     (let own = filter is_substrate_generated (log_of s) in
      and_then (count_drift own) (\<lambda>(drift, example).
        Ok (tier_1_result ''canonical_bytes_render_drift'' (drift = 0)
          (if drift = 0
           then ''ok (all '' @ decimal (length own) @ '' substrate-generated DAG nodes round-trip cleanly; '' @
             ''mutation:* content is operator-opaque and skipped)''
           else case example of
             Some e \<Rightarrow> e
           | None \<Rightarrow> decimal drift @ '' nodes drift; no specific example captured'')
          [(''substrate_generated_count'', VUint (word_of_nat (length own))),
           (''drift_count'', VUint (word_of_nat drift)), (''dag_tip_hash'', tip_witness s)])))"

section \<open>The state against the log\<close>

fun derived_display :: "derived_state_error \<Rightarrow> string" where
  "derived_display (EventDecode ty reason) =
     ''event content decode failed for node_type='' @ ty @ '': '' @ reason"
| "derived_display (EventField ty field reason) =
     ''event field error for node_type='' @ ty @ '': '' @ field @ '': '' @ reason"
| "derived_display MultipleGenesis = ''genesis_event seen multiple times in DAG''"

fun opt_debug :: "u64 option \<Rightarrow> string" where
  "opt_debug (Some c) = ''Some('' @ u64_str c @ '')''"
| "opt_debug None = ''None''"

definition divergences :: "derived_state \<Rightarrow> server_state \<Rightarrow> string list" where
  "divergences d s =
     (case ds_substrate_id d of
        Some i \<Rightarrow>
          if i \<noteq> substrate_id s
          then [''substrate_id mismatch: live='' @ to_hex (substrate_id s) @ '', derived='' @ to_hex i] else []
      | None \<Rightarrow> []) @
     (case ds_genesis_time d of
        Some t \<Rightarrow>
          if t \<noteq> genesis_time_unix_ns s
          then [''genesis_time_unix_ns mismatch: live='' @ decimal_i64 (genesis_time_unix_ns s) @
            '', derived='' @ decimal_i64 t] else []
      | None \<Rightarrow> []) @
     (if (0 < ds_cycle_counter d \<or> ds_substrate_id d \<noteq> None) \<and> ds_cycle_counter d \<noteq> ss_cycle_counter s
      then [''cycle_counter mismatch: live='' @ u64_str (ss_cycle_counter s) @
        '', derived='' @ u64_str (ds_cycle_counter d)] else []) @
     (if ds_last_absorbed_cycle d \<noteq> ss_last_absorbed_cycle s \<and> ds_last_absorbed_cycle d \<noteq> None
      then [''last_absorbed_cycle mismatch: live='' @ opt_debug (ss_last_absorbed_cycle s) @
        '', derived='' @ opt_debug (ds_last_absorbed_cycle d)] else [])"

definition check_substrate_state_orphans :: "server_state \<Rightarrow> (bool \<times> string, 'e) result" where
  "check_substrate_state_orphans s =
     (case from_dag (ss_dag s) of
        Err e \<Rightarrow> Ok (False, ''DerivedState::from_dag failed: '' @ derived_display e @ '' (likely event encoding bug)'')
      | Abort x \<Rightarrow> Abort x
      | Ok d \<Rightarrow>
          Ok (case divergences d s of
                [] \<Rightarrow> (True, ''ok (Rust-side identity / metabolic-position state fully derivable from DAG)'')
              | [e] \<Rightarrow> (False, e)
              | e # es \<Rightarrow> (False, decimal (Suc (length es)) @ '' orphan(s) detected. First: '' @ e)))"

definition check_orphans :: "server_state \<Rightarrow> (integrity_check_result, 'e) result" where
  "check_orphans s =
     and_then (check_substrate_state_orphans s) (\<lambda>(passed, evidence).
       Ok (tier_1_result ''substrate_state_orphan_detected'' passed evidence
         [(''substrate_id'', VBytes (arr32_bytes (substrate_id s))),
          (''manifest_cycle_counter'', VUint (ss_cycle_counter s)),
          (''dag_node_count'', VUint (word_of_nat (node_count (ss_dag s))))]))"

section \<open>Silent mortality\<close>

definition silent_deaths :: "server_state \<Rightarrow> arr32 list \<Rightarrow> dag_node list" where
  "silent_deaths s tombstoned =
     (let ns = log_of s; cycle = ss_cycle_counter s in
      if ORPHAN_GRACE_CYCLES < cycle
      then filter (\<lambda>n. \<not> sat_sub cycle ORPHAN_GRACE_CYCLES < created_at_cycle n \<and>
             \<not> starts_with (node_type n) NODE_TYPE_INTERNAL_MORTALITY_EVENT_PREFIX \<and>
             \<not> is_p10_invariant_protected (node_type n) \<and> tip (ss_dag s) \<noteq> Some (node_hash n) \<and>
             node_hash n \<notin> referenced_hashes ns \<and> node_hash n \<notin> set tombstoned) ns
      else [])"

definition silent_evidence :: "server_state \<Rightarrow> arr32 list \<Rightarrow> dag_node list \<Rightarrow> string" where
  "silent_evidence s tombstoned deaths =
     (case deaths of
        [] \<Rightarrow> ''ok (cycle '' @ u64_str (ss_cycle_counter s) @ ''; all graph-orphans past '' @
          u64_str ORPHAN_GRACE_CYCLES @ ''-cycle grace have internal_mortality tombstones '' @ em_dash @
          '' no silent prune detected; '' @ decimal (length tombstoned) @ '' tombstones in DAG)''
      | n # _ \<Rightarrow> decimal (length deaths) @ '' silent prune(s) detected '' @ em_dash @
          '' orphan parts past grace with NO internal_mortality_event tombstone. Example: node_type='' @
          str_debug (node_type n) @ '' hash='' @ to_hex (node_hash n) @ '' created_at_cycle='' @
          u64_str (created_at_cycle n))"

definition check_silent_internal_mortality :: "server_state \<Rightarrow> (integrity_check_result, 'e) result" where
  "check_silent_internal_mortality s =
     and_then (collect_already_tombstoned s) (\<lambda>tombstoned.
       let deaths = silent_deaths s tombstoned in
       Ok (tier_1_result ''silent_internal_mortality'' (deaths = []) (silent_evidence s tombstoned deaths)
         ([(''violation_count'', VUint (word_of_nat (length deaths))),
           (''current_cycle'', VUint (ss_cycle_counter s)), (''grace_cycles'', VUint ORPHAN_GRACE_CYCLES)] @
          (case deaths of
             [] \<Rightarrow> []
           | n # _ \<Rightarrow> [(''first_violation_hash'', VBytes (arr32_bytes (node_hash n))),
               (''first_violation_node_type'', VString (node_type n))]))))"

section \<open>Births and advances\<close>

definition check_genesis_event_uniqueness :: "server_state \<Rightarrow> integrity_check_result" where
  "check_genesis_event_uniqueness s =
     (let births = filter (\<lambda>n. starts_with (node_type n) NODE_TYPE_GENESIS_PREFIX) (log_of s);
          k = length births in
      tier_1_result ''genesis_event_uniqueness'' (k \<le> 1)
        (if k \<le> 1 then ''ok ('' @ decimal k @ '' genesis_event:* in DAG)''
         else ''DAG contains '' @ decimal k @ '' genesis_event:* nodes; expected '' @ le_sign @ '' 1 (P06 '' @
           section_sign @ ''3.5 root-of-causal-chain uniqueness violated)'')
        [(''genesis_event_count'', VUint (word_of_nat k)),
         (''first_genesis_event_hash'', VString (case births of [] \<Rightarrow> [] | n # _ \<Rightarrow> to_hex (node_hash n)))])"

definition decode_cycle_advanced_span :: "dag_node \<Rightarrow> (u64 option, 'e) result" where
  "decode_cycle_advanced_span n = decode_with (\<lambda>m.
     Option.bind (opt_uint m ''prior_cycle'') (\<lambda>prior.
     Option.bind (opt_uint m ''new_cycle'') (\<lambda>new. Some (sat_sub new prior)))) (content n)"

definition add_span :: "dag_node \<Rightarrow> u64 \<Rightarrow> (u64, 'e) result" where
  "add_span n acc =
     (if node_type n \<noteq> NODE_TYPE_CYCLE_ADVANCED then Ok acc
      else and_then (decode_cycle_advanced_span n) (\<lambda>r.
        Ok (sat_add acc (case r of Some k \<Rightarrow> k | None \<Rightarrow> 1))))"

definition advance_span_sum :: "dag_node list \<Rightarrow> (u64, 'e) result" where
  "advance_span_sum ns = try_fold add_span ns 0"

definition abs_diff :: "u64 \<Rightarrow> u64 \<Rightarrow> u64" where
  "abs_diff a b = (if a \<le> b then b - a else a - b)"

definition check_manifest_cycle_vs_dag_advance_count :: "server_state \<Rightarrow> (integrity_check_result, 'e) result" where
  "check_manifest_cycle_vs_dag_advance_count s =
     and_then (advance_span_sum (log_of s)) (\<lambda>total.
       let counter = ss_cycle_counter s; diff = abs_diff counter total; passed = (diff \<le> 1) in
       Ok (tier_1_result ''manifest_cycle_vs_dag_advance_count'' passed
         (if passed
          then ''ok (manifest_cycle_counter='' @ u64_str counter @ '', dag_cycle_advanced_span_sum='' @
            u64_str total @ '')''
          else ''manifest_cycle_counter='' @ u64_str counter @ '' but DAG cycle_advanced spans sum to '' @
            u64_str total @ '' (diff='' @ u64_str diff @ '', exceeds tolerance 1; either manifest mutated '' @
            ''without DAG emission or DAG truncated)'')
         [(''manifest_cycle_counter'', VUint counter), (''dag_cycle_advanced_span_sum'', VUint total)]))"

definition run_integrity_checks :: "platform \<Rightarrow> server_state \<Rightarrow> (integrity_check_result list, 'e) result" where
  "run_integrity_checks pf s =
     and_then (check_dag_verify pf s) (\<lambda>hashes.
     and_then (check_render_drift s) (\<lambda>drift.
     and_then (check_orphans s) (\<lambda>orphans.
     and_then (check_silent_internal_mortality s) (\<lambda>silent.
     and_then (check_manifest_cycle_vs_dag_advance_count s) (\<lambda>advances.
       Ok [check_substrate_id s, check_cycle_monotonic s, hashes, drift, orphans, silent,
           check_genesis_event_uniqueness s, advances])))))"

section \<open>Witnesses and the request\<close>

text \<open>One result, unless it has no inputs or the cycle already has a witness of the check.\<close>

definition emit_witness ::
    "platform \<Rightarrow> i64 \<Rightarrow> u64 \<Rightarrow> string list \<Rightarrow> integrity_check_result \<Rightarrow> u64 \<Rightarrow> u64 action" where
  "emit_witness pf now cycle witnessed r k =
     (if ic_witness_inputs r = [] \<or> ic_check_id r \<in> set witnessed then return_act k
      else bind_act (tried_act (emit_substrate_event pf (invariant_witness_node_type (ic_check_id r))
             (encode_invariant_witness (ic_check_id r) (ic_tier r) cycle now (ic_witness_inputs r))))
             (\<lambda>ok. return_act (if ok then k + 1 else k)))"

fun emit_witnesses ::
    "platform \<Rightarrow> i64 \<Rightarrow> u64 \<Rightarrow> string list \<Rightarrow> integrity_check_result list \<Rightarrow> u64 \<Rightarrow> u64 action" where
  "emit_witnesses pf now cycle witnessed [] k = return_act k"
| "emit_witnesses pf now cycle witnessed (r # rs) k =
     bind_act (emit_witness pf now cycle witnessed r k) (emit_witnesses pf now cycle witnessed rs)"

definition already_witnessed :: "server_state \<Rightarrow> string list" where
  "already_witnessed s =
     List.map_filter (\<lambda>n. strip_prefix NODE_TYPE_INVARIANT_WITNESS_PREFIX (node_type n))
       (filter (\<lambda>n. created_at_cycle n = ss_cycle_counter s) (log_of s))"

definition emit_invariant_witnesses ::
    "platform \<Rightarrow> i64 \<Rightarrow> integrity_check_result list \<Rightarrow> u64 action" where
  "emit_invariant_witnesses pf now results s =
     emit_witnesses pf now (ss_cycle_counter s) (already_witnessed s) results 0 s"

definition detector_of :: "string \<Rightarrow> string \<times> string" where
  "detector_of check =
     (if check = ''canonical_bytes_render_drift''
      then (''C18_canonical_bytes_render_drift'', ''canonical_bytes_render_drift'')
      else if check = ''substrate_state_orphan_detected''
      then (''C32_substrate_state_orphan_detected'', ''substrate_state_orphan_detected'')
      else if check = ''silent_internal_mortality''
      then (''C55_silent_internal_mortality'', ''silent_internal_mortality'')
      else if check = ''genesis_event_uniqueness''
      then (''C57_genesis_event_non_unique'', ''genesis_event_non_unique'')
      else if check = ''manifest_cycle_vs_dag_advance_count''
      then (''C59_manifest_cycle_vs_dag_advance_mismatch'', ''manifest_cycle_vs_dag_advance_mismatch'')
      else (''C9_cold_resume_invariant_failure'', ''cold_resume_invariant_failure ('' @ check @ '')''))"

fun report_failures :: "platform \<Rightarrow> (string \<Rightarrow> i64) \<Rightarrow> integrity_check_result list \<Rightarrow> u64 \<Rightarrow> u64 action" where
  "report_failures pf now [] k = return_act k"
| "report_failures pf now (r # rs) k =
     (if ic_passed r then report_failures pf now rs k
      else bind_act (tried_act (emit_immune_sporocarp pf (now (ic_check_id r)) (fst (detector_of (ic_check_id r)))
             (snd (detector_of (ic_check_id r)))
             (''ad-hoc integrity check failed: '' @ ic_check_id r @ '' '' @ em_dash @ '' '' @ ic_evidence r)))
             (\<lambda>ok. report_failures pf now rs (if ok then k + 1 else k)))"

definition MSG_RUN_IMMUNE_CHECK_RESPONSE :: string where
  "MSG_RUN_IMMUNE_CHECK_RESPONSE = ''run_immune_check_response''"

definition check_value :: "integrity_check_result \<Rightarrow> Value" where
  "check_value r = VMap (bt_of [(''check_id'', VString (ic_check_id r)), (''passed'', VBool (ic_passed r)),
     (''evidence'', VString (ic_evidence r))])"

definition handle_run_immune_check ::
    "platform \<Rightarrow> (string \<Rightarrow> i64) \<Rightarrow> i64 \<Rightarrow> (unit, substrate_error) result \<Rightarrow> (unit, substrate_error) result \<Rightarrow>
      message \<Rightarrow> message option action" where
  "handle_run_immune_check pf now witness_now saved_reports saved_witnesses request s0 =
     bind_act (lift_act (run_integrity_checks pf s0)) (\<lambda>results.
     bind_act (report_failures pf now results 0) (\<lambda>emitted.
     bind_act (if 0 < emitted then lift_act saved_reports else return_act ()) (\<lambda>_.
     bind_act (emit_invariant_witnesses pf witness_now results) (\<lambda>witnesses.
     bind_act (if 0 < witnesses then lift_act saved_witnesses else return_act ()) (\<lambda>_.
       return_act (response MSG_RUN_IMMUNE_CHECK_RESPONSE request
         [(''total_checks'', VUint (word_of_nat (length results))),
          (''failed_checks'', VUint (word_of_nat (length (filter (\<lambda>r. \<not> ic_passed r) results)))),
          (''immune_events_emitted'', VUint emitted), (''checks'', VArray (map check_value results))])))))) s0"

end
