(* ===== verification/Autonomous.thy ===== *)
theory Autonomous
  imports Federation_Handlers Integrity
begin

text \<open>
  The autonomous tick of an idle substrate, \<^verbatim>\<open>substrate/src/server/autonomous.rs\<close>, with the health
  counters it polls (\<^verbatim>\<open>python_call_health.rs\<close>, \<^verbatim>\<open>persistence_health.rs\<close>): self-driven
  cycles, summarised while nothing can happen, the watch over the worker, the clock, the disk and a
  migration, and a round of the federation. Writing to disk has an outcome that is an argument, and
  the observatory's snapshot is left out.
\<close>

section \<open>Health counters\<close>

record call_health =
  ch_slow_calls :: u64
  ch_largest_ms :: u64
  ch_pending :: bool

definition DEFAULT_SLOW_CALL_THRESHOLD_MS :: u64 where
  "DEFAULT_SLOW_CALL_THRESHOLD_MS = 30000"

text \<open>An override is the number that an environment variable holds, if it holds one.\<close>

definition slow_call_threshold :: "u64 option \<Rightarrow> u64" where
  "slow_call_threshold override = (case override of Some ms \<Rightarrow> ms | None \<Rightarrow> DEFAULT_SLOW_CALL_THRESHOLD_MS)"

definition python_op_timeout :: "u64 option \<Rightarrow> string \<Rightarrow> u64" where
  "python_op_timeout override ty =
     (case override of
        Some ms \<Rightarrow> if 0 < ms then ms
          else if ty \<in> {''register_axis'', ''perturb'', ''perturb_axis_from_raw_material'', ''snapshot''} then 30000 else 60000
      | None \<Rightarrow>
          if ty \<in> {''register_axis'', ''perturb'', ''perturb_axis_from_raw_material'', ''snapshot''} then 30000 else 60000)"

definition record_call_duration :: "u64 option \<Rightarrow> u64 \<Rightarrow> call_health \<Rightarrow> call_health" where
  "record_call_duration override ms c =
     (let c1 = c\<lparr>ch_largest_ms := max ms (ch_largest_ms c)\<rparr> in
      if slow_call_threshold override < ms
      then c1\<lparr>ch_slow_calls := ch_slow_calls c1 + 1, ch_pending := True\<rparr> else c1)"

text \<open>The counters, and whether C65 is due; asking withdraws it.\<close>

definition take_python_call_health_observation :: "call_health \<Rightarrow> call_health \<times> bool" where
  "take_python_call_health_observation c = (c\<lparr>ch_pending := False\<rparr>, ch_pending c)"

record save_health =
  sh_consecutive :: u64
  sh_lifetime :: u64
  sh_emitted :: bool

definition C64_EMISSION_THRESHOLD :: u64 where
  "C64_EMISSION_THRESHOLD = 1"

definition record_save_failure :: "save_health \<Rightarrow> save_health" where
  "record_save_failure h = h\<lparr>sh_consecutive := sh_consecutive h + 1, sh_lifetime := sh_lifetime h + 1\<rparr>"

definition record_save_success_and_clear_emission :: "save_health \<Rightarrow> save_health" where
  "record_save_success_and_clear_emission h = h\<lparr>sh_consecutive := 0, sh_emitted := False\<rparr>"

definition take_persistence_health_observation :: "save_health \<Rightarrow> save_health \<times> bool" where
  "take_persistence_health_observation h =
     (if C64_EMISSION_THRESHOLD \<le> sh_consecutive h \<and> \<not> sh_emitted h then (h\<lparr>sh_emitted := True\<rparr>, True)
      else (h, False))"

section \<open>Self-driven cycles\<close>

definition SELF_DRIVEN_BATCH_MAX :: u64 where
  "SELF_DRIVEN_BATCH_MAX = 9"

definition is_provably_inert_for_batch :: "server_state \<Rightarrow> bool" where
  "is_provably_inert_for_batch s \<longleftrightarrow> \<not> is_archived s \<and> ss_migration_candidate s = None \<and>
     ss_axis_register_count s = 0 \<and> fs_listener (ss_federation s) = None \<and> fs_peers (ss_federation s) = []"

definition set_pending :: "u64 \<Rightarrow> unit action" where
  "set_pending k = modify_act (\<lambda>s. s\<lparr>ss_pending_noop_cycles := k\<rparr>)"

text \<open>The counter moves to \<open>new\<close> and the log is told.\<close>

definition advance_counter :: "platform \<Rightarrow> u64 \<Rightarrow> unit action" where
  "advance_counter pf new s =
     ignore_act (emit_substrate_event pf NODE_TYPE_CYCLE_ADVANCED (encode_cycle_advanced (ss_cycle_counter s) new))
       (s\<lparr>ss_cycle_counter := new\<rparr>)"

definition flush_pending_self_driven :: "platform \<Rightarrow> (unit, substrate_error) result \<Rightarrow> unit action" where
  "flush_pending_self_driven pf saved s =
     (if ss_pending_noop_cycles s = 0 \<or> is_archived s then set_pending 0 s
      else bind_act (advance_counter pf (sat_add (ss_cycle_counter s) (ss_pending_noop_cycles s))) (\<lambda>_.
           bind_act (set_pending 0) (\<lambda>_. lift_act saved)) s)"

definition self_driven_request :: "server_state \<Rightarrow> message" where
  "self_driven_request s = new_message MSG_ADVANCE 0 (bt_of [(''current_cycle'', VUint (ss_cycle_counter s))])"

text \<open>
  The outcomes of a real cycle that come from outside: the clock, the cycle's time, the worker's answers
  and the writes to disk (of the worker's state after a migration's end, and of everything).
\<close>

record 'f cycle_input =
  ci_now :: "string \<Rightarrow> i64"
  ci_elapsed_ms :: nat
  ci_advance :: "'f advance_call option"
  ci_worker :: worker
  ci_saved_worker :: "(unit, substrate_error) result"
  ci_saved :: "(unit, substrate_error) result"

definition execute_self_driven_cycle_advance ::
    "platform \<Rightarrow> ('f \<Rightarrow> string) \<Rightarrow> 'f cycle_input \<Rightarrow> unit action" where
  "execute_self_driven_cycle_advance pf repr ci s0 =
     bind_act (handle_advance pf repr (ci_now ci) (ci_elapsed_ms ci) (ci_advance ci) (self_driven_request s0)) (\<lambda>answer.
     bind_act (\<lambda>s. advance_counter pf (sat_add (ss_cycle_counter s) 1) s) (\<lambda>_.
     bind_act (case answer of
         Some m \<Rightarrow> ignore_act (run_migration_step pf (ci_now ci) (ci_worker ci) (ci_saved_worker ci) m)
       | None \<Rightarrow> return_act ()) (\<lambda>_.
       lift_act (ci_saved ci)))) s0"

definition self_driven_step ::
    "platform \<Rightarrow> ('f \<Rightarrow> string) \<Rightarrow> bool \<Rightarrow> (unit, substrate_error) result \<Rightarrow> 'f cycle_input \<Rightarrow> unit action" where
  "self_driven_step pf repr enabled flushed ci s =
     (if enabled \<and> ss_handshake_complete s \<and> \<not> is_archived s
      then
        let next_post = sat_add (sat_add (ss_cycle_counter s) (ss_pending_noop_cycles s)) 1 in
        if is_provably_inert_for_batch s \<and> ss_pending_noop_cycles s + 1 < SELF_DRIVEN_BATCH_MAX \<and>
          \<not> should_run_prune_scan next_post
        then set_pending (ss_pending_noop_cycles s + 1) s
        else bind_act (ignore_act (flush_pending_self_driven pf flushed)) (\<lambda>_.
             ignore_act (execute_self_driven_cycle_advance pf repr ci)) s
      else return_act () s)"

section \<open>What a tick watches\<close>

definition slow_call_evidence :: "u64 \<Rightarrow> u64 \<Rightarrow> string" where
  "slow_call_evidence calls largest =
     ''Python worker had at least one slow call in recent history: lifetime_slow_call_count='' @ u64_str calls @
     '' (cumulative), largest_call_duration_ms='' @ u64_str largest @
     '' (>= MYCO_PYTHON_SLOW_CALL_THRESHOLD_MS, default 30000). This is a precursor to deadlock; operators '' @
     ''should investigate Python worker state. Substrate continues because the slow call eventually '' @
     ''returned, but ongoing slowness suggests resource pressure.''"

definition watch_calls :: "platform \<Rightarrow> (string \<Rightarrow> i64) \<Rightarrow> call_health \<Rightarrow> unit action" where
  "watch_calls pf now c s =
     (if ss_handshake_complete s \<and> snd (take_python_call_health_observation c)
      then ignore_act (emit_immune_sporocarp pf (now ''C65_python_worker_slow_call'') ''C65_python_worker_slow_call''
        ''python_worker_slow_call'' (slow_call_evidence (ch_slow_calls c) (ch_largest_ms c))) s
      else return_act () s)"

definition C66_MIGRATION_WINDOW_EXCEEDED :: string where
  "C66_MIGRATION_WINDOW_EXCEEDED = ''C66_schema_migration_window_exceeded''"

definition C66_WINDOW_EXCEEDED_COOLDOWN_CYCLES :: u64 where
  "C66_WINDOW_EXCEEDED_COOLDOWN_CYCLES = 100"

definition window_evidence :: "candidate_state \<Rightarrow> u64 \<Rightarrow> string" where
  "window_evidence c cycle =
     ''schema migration (op='' @ op_name c @ '') exceeded its dual-validation window: started_at_cycle='' @
     u64_str (started_at_cycle c) @ '', window='' @ u64_str (dual_validation_window_cycles c) @ '', grace='' @
     u64_str DEFAULT_MIGRATION_GRACE_CYCLES @ '', current_cycle='' @ u64_str cycle @ '' (elapsed '' @
     u64_str (sat_sub cycle (started_at_cycle c)) @ '' > window+grace '' @
     u64_str (sat_add (dual_validation_window_cycles c) DEFAULT_MIGRATION_GRACE_CYCLES) @
     ''); forcing rollback per P03 '' @ section_sign @ ''10.4 so the candidate cannot linger. Most likely '' @
     ''cause: substrate restarted mid-window or the operator stopped driving cycles.''"

definition window_reason :: "candidate_state \<Rightarrow> u64 \<Rightarrow> string" where
  "window_reason c cycle =
     ''C66 window exceeded (elapsed '' @ u64_str (sat_sub cycle (started_at_cycle c)) @ '' > window+grace '' @
     u64_str (sat_add (dual_validation_window_cycles c) DEFAULT_MIGRATION_GRACE_CYCLES) @ '')''"

definition force_rollback ::
    "platform \<Rightarrow> (string \<Rightarrow> i64) \<Rightarrow> worker \<Rightarrow> (unit, substrate_error) result \<Rightarrow> candidate_state \<Rightarrow> u64 \<Rightarrow>
      unit action" where
  "force_rollback pf now worker saved c cycle =
     bind_act (ignore_act (emit_immune_sporocarp pf (now C66_MIGRATION_WINDOW_EXCEEDED) C66_MIGRATION_WINDOW_EXCEEDED
       ''schema_migration_window_exceeded'' (window_evidence c cycle))) (\<lambda>_.
     bind_act (modify_act (\<lambda>s. s\<lparr>ss_last_window_exceeded := Some cycle\<rparr>)) (\<lambda>_.
     or_else_act (force_migration_rollback pf now worker saved (op_name c) (window_reason c cycle)) (\<lambda>e.
       step_failed_signal pf now (''C66 forced rollback (op='' @ op_name c @ '') failed: '' @ substrate_display e))))"

definition watch_migration ::
    "platform \<Rightarrow> (string \<Rightarrow> i64) \<Rightarrow> worker \<Rightarrow> (unit, substrate_error) result \<Rightarrow> unit action" where
  "watch_migration pf now worker saved s =
     (case ss_migration_candidate s of
        None \<Rightarrow> return_act () s
      | Some c \<Rightarrow>
          (let cycle = ss_cycle_counter s in
           if ss_handshake_complete s \<and> phase c = Validating \<and>
             window_exceeded c cycle DEFAULT_MIGRATION_GRACE_CYCLES \<and>
             \<not> on_debounce (ss_last_window_exceeded s) C66_WINDOW_EXCEEDED_COOLDOWN_CYCLES cycle
           then force_rollback pf now worker saved c cycle s
           else return_act () s))"

definition save_evidence :: "save_health \<Rightarrow> string" where
  "save_evidence h =
     ''substrate state_dir persistence is failing: consecutive_failures='' @ u64_str (sh_consecutive h) @
     '' (since last success), lifetime_failures='' @ u64_str (sh_lifetime h) @ '' total. State_dir may be '' @
     ''read-only, disk full, or permissions revoked. Substrate continues with in-memory state but '' @
     ''mutations are not durable until recovery.''"

definition watch_disk :: "platform \<Rightarrow> (string \<Rightarrow> i64) \<Rightarrow> save_health \<Rightarrow> unit action" where
  "watch_disk pf now h s =
     (if ss_handshake_complete s \<and> snd (take_persistence_health_observation h)
      then ignore_act (emit_immune_sporocarp pf (now ''C64_persistence_unavailable'') ''C64_persistence_unavailable''
        ''persistence_unavailable'' (save_evidence h)) s
      else return_act () s)"

text \<open>\<open>ms\<close> prints nanoseconds as milliseconds with three decimals.\<close>

definition skew_evidence :: "(i64 \<Rightarrow> string) \<Rightarrow> skew_observation \<Rightarrow> string" where
  "skew_evidence ms ob =
     ''wall-clock backward-jump detected: '' @ u64_str (detection_count_since_last_take ob) @
     '' skew events since last observation, largest jump = '' @ decimal_i64 (largest_backward_jump_ns ob) @
     '' ns ('' @ ms (largest_backward_jump_ns ob) @ '' ms). Substrate'' @ [CHR 0x27] @
     ''s monotonic_unix_ns helper compensated; downstream rate-limits + nonce expiries remain protected. '' @
     ''Operator should investigate host clock-sync configuration.''"

definition watch_clock :: "platform \<Rightarrow> (i64 \<Rightarrow> string) \<Rightarrow> (string \<Rightarrow> i64) \<Rightarrow> unit action" where
  "watch_clock pf ms now s =
     (if ss_handshake_complete s
      then
        let (c, ob) = take_skew_observation (ss_clock s); s1 = s\<lparr>ss_clock := c\<rparr> in
        if 0 < detection_count_since_last_take ob
        then ignore_act (emit_immune_sporocarp pf (now ''C63_wall_clock_skew_detected'') ''C63_wall_clock_skew_detected''
          ''wall_clock_skew_detected'' (skew_evidence ms ob)) s1
        else return_act () s1
      else return_act () s)"

definition worker_death_evidence :: string where
  "worker_death_evidence =
     ''Python worker child process has exited (try_wait returned exit status); subsequent operator calls '' @
     ''will fail with bridge errors. Substrate transitions to python_unavailable state.''"

text \<open>The worker's process, if there is one: whether it lives, or that nobody could tell.\<close>

definition watch_worker :: "platform \<Rightarrow> (string \<Rightarrow> i64) \<Rightarrow> bool option option \<Rightarrow> unit action" where
  "watch_worker pf now worker s =
     (if ss_handshake_complete s \<and> \<not> ss_worker_death_logged s \<and> worker = Some (Some False)
      then bind_act (ignore_act (emit_immune_sporocarp pf (now ''C60_python_worker_unexpected_exit'')
             ''C60_python_worker_unexpected_exit'' ''python_worker_unexpected_exit'' worker_death_evidence)) (\<lambda>_.
           modify_act (\<lambda>s. s\<lparr>ss_worker_death_logged := True\<rparr>)) s
      else return_act () s)"

section \<open>A tick\<close>

definition tick_words :: poll_wording where
  "tick_words =
     \<lparr>pw_self = ''inbound peer claimed our own substrate_id (autonomous tick)'',
      pw_frame = ''autonomous tick frame read failure: '', pw_version = '' (autonomous tick)'',
      pw_blocked = (\<lambda>peer addr.
        ''federation_egress_blocked: outbound FED_EVENT_BATCH to peer '' @ to_hex peer @
        '' (remote='' @ addr @ '') suppressed pre-emission '' @ em_dash @
        '' peer is on the owner-revocation list (L1/GOVERNANCE '' @ section_sign @ ''5.2, autonomous tick)'')\<rparr>"

definition tick_federation ::
    "platform \<Rightarrow> federation_env \<Rightarrow> (tcp_stream \<times> string) list \<Rightarrow> string option \<Rightarrow> i64 \<Rightarrow> i64 \<Rightarrow> (nat \<Rightarrow> i64 \<times> i64) \<Rightarrow>
      unit action" where
  "tick_federation pf env queue broken opened now clk s =
     (if fs_listener (ss_federation s) = None \<and> fs_peers (ss_federation s) = [] then return_act () s
      else bind_act (on_federation (accept_pending queue broken opened)) (\<lambda>_.
           bind_act (progress_all pf env) (\<lambda>evs.
             record_poll_events pf tick_words (substrate_id s) now clk evs)) s)"

record 'f tick_input =
  ti_self_driven :: bool
  ti_flushed :: "(unit, substrate_error) result"
  ti_cycle :: "'f cycle_input"
  ti_calls :: call_health
  ti_saves :: save_health
  ti_worker_alive :: "bool option option"
  ti_queue :: "(tcp_stream \<times> string) list"
  ti_broken :: "string option"
  ti_opened :: i64
  ti_time :: i64
  ti_readings :: "nat \<Rightarrow> i64 \<times> i64"

definition do_autonomous_tick ::
    "platform \<Rightarrow> federation_env \<Rightarrow> ('f \<Rightarrow> string) \<Rightarrow> (i64 \<Rightarrow> string) \<Rightarrow> 'f tick_input \<Rightarrow> unit action" where
  "do_autonomous_tick pf env repr ms ti =
     (let ci = ti_cycle ti; now = ci_now ci in
      bind_act (self_driven_step pf repr (ti_self_driven ti) (ti_flushed ti) ci) (\<lambda>_.
      bind_act (watch_calls pf now (ti_calls ti)) (\<lambda>_.
      bind_act (watch_migration pf now (ci_worker ci) (ci_saved_worker ci)) (\<lambda>_.
      bind_act (watch_disk pf now (ti_saves ti)) (\<lambda>_.
      bind_act (watch_clock pf ms now) (\<lambda>_.
      bind_act (watch_worker pf now (ti_worker_alive ti)) (\<lambda>_.
        tick_federation pf env (ti_queue ti) (ti_broken ti) (ti_opened ti) (ti_time ti) (ti_readings ti))))))))"

end
