(* ===== verification/Coherence.thy ===== *)
theory Coherence
  imports Autonomous Absorption
begin

text \<open>
  The counter against the log over a substrate's life: requests, self-driven cycles and the idle
  cycles that are only counted until a flush. What the integrity checks compare stays equal, and
  counting idle cycles never steps over a cycle that must scan.
\<close>

section \<open>The spans in the log\<close>

definition steady :: "string \<Rightarrow> bool" where
  "steady ty \<longleftrightarrow> ty \<noteq> NODE_TYPE_CYCLE_ADVANCED"

definition logged_cycles :: "server_state \<Rightarrow> (u64, substrate_error) result" where
  "logged_cycles s = advance_span_sum (log_of s)"

lemma decode_advanced_span [simp]:
  "node_type n = ty \<Longrightarrow> content n = encode_cycle_advanced p q \<Longrightarrow>
    decode_cycle_advanced_span n = Ok (Some (sat_sub q p))"
proof -
  have "event_ok [(''prior_cycle'', VUint p), (''new_cycle'', VUint q)]"
    by (rule event_okI) simp_all
  then show "content n = encode_cycle_advanced p q \<Longrightarrow> ?thesis"
    by (simp add: decode_cycle_advanced_span_def encode_cycle_advanced_def decode_with_encoded bt_get_of opt_uint_def)
qed

lemma span_sum_steady:
  assumes "\<forall>n\<in>set ns. steady (node_type n)"
  shows "advance_span_sum (xs @ ns) = (advance_span_sum xs :: (u64, 'e) result)"
proof -
  have "try_fold add_span ns a = (Ok a :: (u64, 'e) result)" for a
    using assms by (induction ns) (simp_all add: steady_def add_span_def)
  then show ?thesis
    unfolding advance_span_sum_def try_fold_append by (cases "try_fold add_span xs 0 :: (u64, 'e) result") simp_all
qed

lemma sat_add_diff: "p \<le> q \<Longrightarrow> sat_add p (sat_sub q p) = q" for p q :: u64
  using unat_bound [of q] by (simp add: word_unat_eq_iff unat_sat_add unat_sat_sub word_le_nat_alt)

lemma span_sum_advance:
  assumes "advance_span_sum xs = (Ok p :: (u64, 'e) result)" and "p \<le> q"
    and "node_type n = NODE_TYPE_CYCLE_ADVANCED" and "content n = encode_cycle_advanced p q"
  shows "advance_span_sum (xs @ [n]) = (Ok q :: (u64, 'e) result)"
  using assms(1) unfolding advance_span_sum_def try_fold_append
  by (simp add: add_span_def assms(3) decode_advanced_span [OF assms(3,4)] sat_add_diff [OF assms(2)]
      del: and_then_Ok_iff)

section \<open>Coherence\<close>

text \<open>No cycle in the pending span is one that must scan.\<close>

definition batch_ok :: "server_state \<Rightarrow> bool" where
  "batch_ok s \<longleftrightarrow> ss_pending_noop_cycles s < SELF_DRIVEN_BATCH_MAX \<and>
     (\<forall>k. 0 < k \<and> k \<le> ss_pending_noop_cycles s \<longrightarrow> \<not> should_run_prune_scan (sat_add (ss_cycle_counter s) k))"

definition coherent :: "platform \<Rightarrow> server_state \<Rightarrow> bool" where
  "coherent pf s \<longleftrightarrow> server_inv pf s \<and> logged_cycles s = Ok (ss_cycle_counter s) \<and> batch_ok s \<and>
     (\<forall>n\<in>set (log_of s). node_type n = NODE_TYPE_CYCLE_ADVANCED \<longrightarrow> created_at_cycle n \<le> ss_cycle_counter s)"

text \<open>The log has the event of the counter's last move, which it could refuse only over a hash collision.\<close>

definition told :: "server_state \<Rightarrow> bool" where
  "told s \<longleftrightarrow> (\<exists>n\<in>set (log_of s). node_type n = NODE_TYPE_CYCLE_ADVANCED \<and> created_at_cycle n = ss_cycle_counter s)"

lemma coherent_extends:
  assumes "coherent pf s" and "extends pf ss_pending_noop_cycles steady s s'"
  shows "coherent pf s'"
proof -
  obtain ns where ns: "log_of s' = log_of s @ ns" "\<forall>n\<in>set ns. steady (node_type n)"
    and same: "ss_pending_noop_cycles s' = ss_pending_noop_cycles s" "ss_cycle_counter s' = ss_cycle_counter s"
      "server_inv pf s'"
    using assms(2) by (auto simp: extends_def log_of_def)
  then show ?thesis
    using assms(1) span_sum_steady [where 'e = substrate_error, OF ns(2), of "log_of s"]
    by (auto simp: coherent_def logged_cycles_def batch_ok_def steady_def)
qed

lemma told_extends:
  "extends pf ss_pending_noop_cycles steady s s' \<Longrightarrow> told s' \<Longrightarrow> told s"
  by (auto simp: told_def extends_def log_of_def steady_def)

text \<open>The counter moves on with nothing pending, or with exactly what was pending.\<close>

lemma coherent_advance:
  assumes c: "coherent pf s" and up: "ss_cycle_counter s \<le> new"
    and run: "advance_counter pf new s = (s', r)" and t: "told s' \<or> new = ss_cycle_counter s"
  shows "server_inv pf s' \<and> logged_cycles s' = Ok new \<and> ss_cycle_counter s' = new \<and>
    ss_pending_noop_cycles s' = ss_pending_noop_cycles s \<and>
    (\<forall>n\<in>set (log_of s'). node_type n = NODE_TYPE_CYCLE_ADVANCED \<longrightarrow> created_at_cycle n \<le> new)"
proof -
  let ?s = "s\<lparr>ss_cycle_counter := new\<rparr>"
  let ?c = "encode_cycle_advanced (ss_cycle_counter s) new"
  have inv: "server_inv pf ?s"
    using c by (simp add: coherent_def server_inv_def)
  have log: "log_of ?s = log_of s"
    by (simp add: log_of_def)
  have old: "\<forall>n\<in>set (log_of s). node_type n = NODE_TYPE_CYCLE_ADVANCED \<longrightarrow> created_at_cycle n \<le> ss_cycle_counter s"
    and sum: "advance_span_sum (log_of s) = (Ok (ss_cycle_counter s) :: (u64, substrate_error) result)"
    using c by (simp_all add: coherent_def logged_cycles_def)
  have view: "ss_pending_noop_cycles (fst (emit_substrate_event pf NODE_TYPE_CYCLE_ADVANCED ?c ?s)) = ss_pending_noop_cycles ?s"
    by (rule view_emit(1)) (simp add: ignores_log_def)
  from inv show ?thesis
  proof (cases rule: emit_cases [where ty = NODE_TYPE_CYCLE_ADVANCED and c = ?c])
    case (failed e)
    then have s': "s' = ?s"
      using run by (simp add: advance_counter_def ignore_act_def)
    then have "new = ss_cycle_counter s"
      using t old up by (auto simp: told_def log)
    then show ?thesis
      using inv old sum by (simp add: s' log logged_cycles_def)
  next
    case (logged s1)
    let ?n = "logged_node (pf_hash pf) (ss_dag ?s) NODE_TYPE_CYCLE_ADVANCED (ss_cycle_counter ?s) ?c"
    have s': "s' = s1"
      using run logged(1) by (simp add: advance_counter_def ignore_act_def)
    have new: "log_of s' = log_of s @ [?n]"
      using logged(5) by (simp add: s' log_of_def)
    have "advance_span_sum (log_of s @ [?n]) = (Ok new :: (u64, substrate_error) result)"
      by (rule span_sum_advance [OF sum up]) (simp_all add: logged_node_def)
    then show ?thesis
      using logged(2,3) view old up unfolding logged_cycles_def new
      by (auto simp: s' logged(1) same_identity_def logged_node_def)
  qed
qed

lemma batch_ok_none: "ss_pending_noop_cycles s = 0 \<Longrightarrow> batch_ok s"
  by (auto simp: batch_ok_def SELF_DRIVEN_BATCH_MAX_def word_neq_0_conv [symmetric] simp del: word_neq_0_conv)

lemma coherent_flush:
  assumes c: "coherent pf s" and run: "flush_pending_self_driven pf saved s = (s', r)"
    and t: "told s' \<or> ss_cycle_counter s' = ss_cycle_counter s"
  shows "coherent pf s' \<and> ss_pending_noop_cycles s' = 0"
proof (cases "ss_pending_noop_cycles s = 0 \<or> is_archived s")
  case True
  then have s': "s' = s\<lparr>ss_pending_noop_cycles := 0\<rparr>"
    using run by (simp add: flush_pending_self_driven_def set_pending_def modify_act_def)
  then show ?thesis
    using c batch_ok_none [of s'] by (simp add: coherent_def server_inv_def logged_cycles_def log_of_def)
next
  case False
  let ?new = "sat_add (ss_cycle_counter s) (ss_pending_noop_cycles s)"
  obtain s1 r1 where 1: "advance_counter pf ?new s = (s1, r1)"
    by (cases "advance_counter pf ?new s")
  have up: "ss_cycle_counter s \<le> ?new"
    using unat_bound [of "ss_cycle_counter s"] by (simp add: word_le_nat_alt unat_sat_add)
  have not_err: "r1 \<noteq> Err e" for e
    using 1 by (auto simp: advance_counter_def ignore_act_def split: prod.splits result.splits)
  have not_abort: "r1 \<noteq> Abort x" for x
  proof -
    have inv: "server_inv pf (s\<lparr>ss_cycle_counter := ?new\<rparr>)"
      using c by (simp add: coherent_def server_inv_def)
    then show ?thesis
      by (cases rule: emit_cases [where ty = NODE_TYPE_CYCLE_ADVANCED and c = "encode_cycle_advanced (ss_cycle_counter s) ?new"])
        (use 1 in \<open>auto simp: advance_counter_def ignore_act_def\<close>)
  qed
  obtain u where r1: "r1 = Ok u"
    using not_err not_abort by (cases r1) auto
  have s': "s' = s1\<lparr>ss_pending_noop_cycles := 0\<rparr>"
    using run False 1 r1
    by (simp add: flush_pending_self_driven_def bind_act_def set_pending_def modify_act_def lift_act_def)
  have "told s1 \<or> ?new = ss_cycle_counter s"
    using t 1 by (auto simp: s' told_def log_of_def advance_counter_def ignore_act_def emit_substrate_event_def
        split: prod.splits result.splits if_splits)
  from coherent_advance [OF c up 1 this] show ?thesis
    using batch_ok_none [of s'] by (simp add: s' coherent_def server_inv_def logged_cycles_def log_of_def)
qed

section \<open>Work that does not move the counter\<close>

definition steadily :: "platform \<Rightarrow> 'a action \<Rightarrow> bool" where
  "steadily pf m \<longleftrightarrow> grows_by pf ss_pending_noop_cycles steady m"

lemma ignores_log_pending [simp]: "ignores_log ss_pending_noop_cycles"
  by (simp add: ignores_log_def)

lemma steadily_unrelated: "unrelated pf m \<Longrightarrow> steadily pf m"
  unfolding unrelated_def steadily_def grows_by_def extends_def
  by (auto simp: quiet_def gradient_type_def steady_def cycle_marks_def)

lemma steadily_combine:
  "steadily pf (return_act a)" "steadily pf (lift_act r)"
  "steadily pf m \<Longrightarrow> steadily pf (ignore_act m)"
  "steadily pf m \<Longrightarrow> (\<And>a. steadily pf (f a)) \<Longrightarrow> steadily pf (bind_act m f)"
  unfolding steadily_def by (simp_all add: grows_intros)

lemma steadily_state: "(\<And>s. \<exists>m. m s = a s \<and> steadily pf m) \<Longrightarrow> steadily pf a"
  unfolding steadily_def by (rule grows_cong) blast

lemma steadily_insert:
  "(\<And>s. set (tip_parents (ss_dag s)) \<subseteq> set (ps s)) \<Longrightarrow> steady ty \<Longrightarrow> \<not> is_cultivation_family_node_type ty \<Longrightarrow>
    steadily pf (\<lambda>s. insert_act pf what (ps s) ty cyc (c s) s)"
  unfolding steadily_def by (intro grows_insert) auto

lemma steady_types: "steady (''absorption_event:cycle_'' @ x)" "steady (''raw_material:'' @ x)"
  by (simp_all add: steady_def NODE_TYPE_CYCLE_ADVANCED_def)

lemma steadily_absorb: "steadily pf (absorb_raw pf post pending)"
proof (rule steadily_state)
  fix s :: server_state
  let ?m = "bind_act (\<lambda>s. insert_act pf ''absorption_event DAG insert'' (push_parents pending (tip_parents (ss_dag s)))
        (''absorption_event:cycle_'' @ u64_str post) post (event_bytes (absorption_fields post pending)) s) (\<lambda>h.
      bind_act (modify_act (\<lambda>s1. s1\<lparr>ss_last_absorbed_cycle := Some (latest_of (ss_dag s) pending)\<rparr>)) (\<lambda>_.
        return_act (Some h)))"
  have "steadily pf (modify_act (\<lambda>s1. s1\<lparr>ss_last_absorbed_cycle := Some (latest_of (ss_dag s) pending)\<rparr>))"
    unfolding steadily_def by (rule grows_modify) simp_all
  then have "steadily pf ?m"
    by (intro steadily_combine steadily_insert steady_types not_family_types) auto
  moreover have "?m s = absorb_raw pf post pending s" if "pending \<noteq> []"
    using that by (simp add: absorb_raw_def bind_act_def)
  moreover have "steadily pf (return_act None)"
    by (rule steadily_combine)
  ultimately show "\<exists>m. m s = absorb_raw pf post pending s \<and> steadily pf m"
    by (cases "pending = []") (auto simp: absorb_raw_def)
qed

lemma steadily_commit: "steadily pf (commit_cycle pf repr now elapsed_ms post pending ar cr request)"
proof -
  let ?rest = "\<lambda>fields. bind_act (prune_step pf now post) (\<lambda>pruned. bind_act (backlog_step pf now elapsed_ms) (\<lambda>_.
      bind_act (apply_hunger_and_emit pf (now C74_INGESTION_STARVATION_DETECTOR_ID) post) (\<lambda>_.
        return_act (response MSG_ADVANCE_RESPONSE request
          (fields @ pruned @ [(''cycle_duration_ms'', VUint (word_of_nat elapsed_ms))])))))"
  have rest: "steadily pf (?rest fields)" for fields
    by (intro steadily_unrelated unrelated_combine unrelated_prune_step unrelated_backlog unrelated_hunger)
  have "steadily pf (\<lambda>s. ?rest (fields s) s)" for fields
    by (rule steadily_state) (use rest in blast)
  then show ?thesis
    unfolding commit_cycle_def Let_def
    by (auto intro!: steadily_combine steadily_absorb steadily_unrelated [OF unrelated_sporocarps] split: prod.splits)
qed

lemma steadily_advance: "steadily pf (handle_advance pf repr now elapsed_ms python request)"
proof (rule steadily_state)
  fix s
  show "\<exists>m. m s = handle_advance pf repr now elapsed_ms python request s \<and> steadily pf m"
  proof (cases python)
    case None
    then show ?thesis
      by (intro exI [of _ "lift_act (Err not_connected)"]) (simp add: handle_advance_def lift_act_def steadily_combine)
  next
    case (Some call)
    obtain eng post report r where run: "run_cycle (advance_context (verify_all (pf_hash pf) (ss_dag s))
        (pending_absorption s) (recent_breaches s) call) (ss_cycle_engine s, ss_cycle_counter s, None) = ((eng, post, report), r)"
      by (metis prod.collapse)
    let ?eng = "modify_act (\<lambda>s. s\<lparr>ss_cycle_engine := eng\<rparr>)"
    have e: "steadily pf ?eng"
      unfolding steadily_def by (rule grows_modify) simp_all
    have put: "bind_act ?eng (\<lambda>_. m) s = m (s\<lparr>ss_cycle_engine := eng\<rparr>)" for m :: "message option action"
      by (simp add: bind_act_def modify_act_def)
    have fail: "steadily pf (bind_act ?eng (\<lambda>_. bind_act (step_failed_signal pf now ev) (\<lambda>_. lift_act (Err x) :: message option action)))" for ev x
      by (intro steadily_combine e steadily_unrelated [OF unrelated_signal(3)])
    have commit: "steadily pf (bind_act ?eng (\<lambda>_. commit_cycle pf repr now elapsed_ms post (pending_absorption s) ar cr request))" for ar cr
      by (intro steadily_combine e steadily_commit)
    have stop: "steadily pf (bind_act ?eng (\<lambda>_. lift_act (Abort x) :: message option action))" for x
      by (intro steadily_combine e)
    show ?thesis
    proof (cases r)
      case (Ok cr)
      show ?thesis
      proof (cases "report_committed cr")
        case True
        let ?ar = "case report of Some ar \<Rightarrow> ar | None \<Rightarrow> no_report"
        show ?thesis
          by (rule exI, rule conjI [OF _ commit [of ?ar cr]]) (simp add: put handle_advance_def Some run Ok True)
      next
        case False
        show ?thesis
          by (rule exI, rule conjI [OF _ fail]) (simp add: put handle_advance_def Some run Ok False)
      qed
    next
      case (Err x)
      show ?thesis
        by (rule exI, rule conjI [OF _ fail]) (simp add: put handle_advance_def Some run Err)
    next
      case (Abort x)
      show ?thesis
        by (rule exI, rule conjI [OF _ stop [of x]]) (simp add: put handle_advance_def Some run Abort lift_act_def)
    qed
  qed
qed

lemma steadily_intake: "steadily pf (handle_ingest_raw_material pf order request)"
proof (rule steadily_state)
  fix s
  let ?refused = "\<lambda>e. lift_act (Err e) :: message option action"
  show "\<exists>m. m s = handle_ingest_raw_material pf order request s \<and> steadily pf m"
  proof (cases "refuses_intake s \<or> (\<forall>kb. read_intake request \<noteq> Ok kb)")
    case True
    have "handle_ingest_raw_material pf order request s = lift_act (snd (handle_ingest_raw_material pf order request s)) s"
      using True by (cases "read_intake request") (auto simp: handle_ingest_raw_material_def lift_act_def)
    then show ?thesis
      using steadily_combine(2) by metis
  next
    case False
    then obtain kind bs where read: "\<not> refuses_intake s" "read_intake request = Ok (kind, bs)"
      by auto
    let ?f = "\<lambda>h s. (s, Ok (deposited MSG_INGEST_RAW_MATERIAL_RESPONSE request h s))"
    let ?m = "\<lambda>t. insert_act pf ''raw_material DAG insert'' (tip_parents (ss_dag t)) (''raw_material:'' @ kind)
        (ss_cycle_counter s) (event_bytes (intake_fields request kind bs)) t"
    have "handle_ingest_raw_material pf order request s = bind_act (insert_act pf ''raw_material DAG insert''
        (tip_parents (ss_dag s)) (''raw_material:'' @ kind) (ss_cycle_counter s)
        (event_bytes (intake_fields request kind bs))) ?f s"
      unfolding handle_ingest_raw_material_def read(2) using read(1) by simp
    then have eq: "bind_act ?m ?f s = handle_ingest_raw_material pf order request s"
      by (simp add: bind_act_def)
    have "steadily pf (bind_act ?m ?f)"
      unfolding steadily_def
      by (intro grows_bind grows_read grows_insert steady_types not_family_types) simp_all
    then show ?thesis
      using eq by blast
  qed
qed

lemma coherent_steadily:
  assumes c: "coherent pf s" and "steadily pf m"
  shows "coherent pf (fst (m s))"
  by (rule coherent_extends [OF c]) (use assms in \<open>simp add: steadily_def grows_by_def coherent_def\<close>)

lemma steadily_extends: "server_inv pf s \<Longrightarrow> steadily pf m \<Longrightarrow> extends pf ss_pending_noop_cycles steady s (fst (m s))"
  by (simp add: steadily_def grows_by_def)

section \<open>Cycles\<close>

lemma bump_cycle_advance: "bump_cycle pf s = advance_counter pf (sat_add (ss_cycle_counter s) 1) s"
  by (simp add: bump_cycle_def advance_counter_def Let_def)

lemma bump_cycle_fun: "(\<lambda>s. advance_counter pf (sat_add (ss_cycle_counter s) 1) s) = bump_cycle pf"
  by (rule ext) (simp add: bump_cycle_advance)

lemma sat_add_up: "a \<le> sat_add a b" for a b :: u64
  using unat_bound [of a] by (simp add: word_le_nat_alt unat_sat_add)

text \<open>A cycle: its work, the counter, and what follows the counter.\<close>

lemma coherent_cycle:
  assumes c: "coherent pf s" and none: "ss_pending_noop_cycles s = 0"
    and work: "steadily pf m" and rest: "\<And>a. steadily pf (rest a)"
    and run: "bind_act m (\<lambda>a. bind_act (bump_cycle pf) (\<lambda>_. rest a)) s = (s', r)"
    and t: "told s' \<or> ss_cycle_counter s' = ss_cycle_counter s"
  shows "coherent pf s'"
proof -
  obtain s1 r1 where 1: "m s = (s1, r1)"
    by (cases "m s")
  have inv: "server_inv pf s"
    using c by (simp add: coherent_def)
  have c1: "coherent pf s1" and none1: "ss_pending_noop_cycles s1 = 0"
    and same: "ss_cycle_counter s1 = ss_cycle_counter s"
    using coherent_steadily [OF c work] steadily_extends [OF inv work] none by (simp_all add: 1 extends_def)
  show ?thesis
  proof (cases r1)
    case (Ok a)
    obtain s2 r2 where 2: "advance_counter pf (sat_add (ss_cycle_counter s1) 1) s1 = (s2, r2)"
      by (cases "advance_counter pf (sat_add (ss_cycle_counter s1) 1) s1")
    have last: "s' = s2 \<or> s' = fst (rest a s2)"
      using run 1 Ok 2 by (auto simp: bind_act_def bump_cycle_advance split: result.splits)
    have inv2: "server_inv pf s2"
    proof -
      have "server_inv pf (s1\<lparr>ss_cycle_counter := sat_add (ss_cycle_counter s1) 1\<rparr>)"
        using c1 by (simp add: coherent_def server_inv_def)
      then show ?thesis
        by (cases rule: emit_cases [where ty = NODE_TYPE_CYCLE_ADVANCED and
              c = "encode_cycle_advanced (ss_cycle_counter s1) (sat_add (ss_cycle_counter s1) 1)"])
          (use 2 c1 in \<open>auto simp: advance_counter_def ignore_act_def coherent_def server_inv_def\<close>)
    qed
    have later: "told s2 \<or> ss_cycle_counter s2 = ss_cycle_counter s"
    proof (cases "s' = s2")
      case False
      then have "extends pf ss_pending_noop_cycles steady s2 s'"
        using last steadily_extends [OF inv2 rest [of a]] by simp
      then show ?thesis
        using t told_extends by (auto simp: extends_def)
    qed (use t in simp)
    have "ss_cycle_counter s2 = sat_add (ss_cycle_counter s1) 1"
      using 2 view_emit(1) [of ss_cycle_counter pf NODE_TYPE_CYCLE_ADVANCED]
      by (auto simp: advance_counter_def ignore_act_def ignores_log_def emit_substrate_event_def
          split: prod.splits result.splits if_splits)
    then have "told s2 \<or> sat_add (ss_cycle_counter s1) 1 = ss_cycle_counter s1"
      using later same by auto
    from coherent_advance [OF c1 sat_add_up 2 this] have "coherent pf s2"
      using none1 batch_ok_none [of s2] by (simp add: coherent_def)
    then show ?thesis
      using last coherent_steadily [OF _ rest] by auto
  next
    case (Err e)
    then show ?thesis
      using run 1 c1 by (auto simp: bind_act_def)
  next
    case (Abort x)
    then show ?thesis
      using run 1 c1 by (auto simp: bind_act_def)
  qed
qed

lemma coherent_dispatch:
  assumes "coherent pf s" and "ss_pending_noop_cycles s = 0"
    and "dispatch_advance pf repr now elapsed_ms advance python saved request s = (s', r)"
    and "told s' \<or> ss_cycle_counter s' = ss_cycle_counter s"
  shows "coherent pf s'"
proof (cases "is_archived s")
  case False
  let ?rest = "\<lambda>answer. bind_act (case answer of
      Some m \<Rightarrow> ignore_act (run_migration_step pf now python saved m) | None \<Rightarrow> return_act ()) (\<lambda>_. return_act answer)"
  have rest: "steadily pf (?rest answer)" for answer
    by (cases answer) (auto intro!: steadily_unrelated unrelated_combine unrelated_migration)
  have run: "bind_act (handle_advance pf repr now elapsed_ms advance request)
      (\<lambda>answer. bind_act (bump_cycle pf) (\<lambda>_. ?rest answer)) s = (s', r)"
    using assms(3) False by (simp add: dispatch_advance_def)
  show ?thesis
    by (rule coherent_cycle [where rest = ?rest, OF assms(1,2) steadily_advance rest run assms(4)])
qed (use assms in \<open>auto simp: dispatch_advance_def\<close>)

lemma coherent_execute:
  assumes "coherent pf s" and "ss_pending_noop_cycles s = 0"
    and "execute_self_driven_cycle_advance pf repr ci s = (s', r)"
    and "told s' \<or> ss_cycle_counter s' = ss_cycle_counter s"
  shows "coherent pf s'"
proof -
  let ?rest = "\<lambda>answer. bind_act (case answer of
      Some m \<Rightarrow> ignore_act (run_migration_step pf (ci_now ci) (ci_worker ci) (ci_saved_worker ci) m)
    | None \<Rightarrow> return_act ()) (\<lambda>_. lift_act (ci_saved ci))"
  have rest: "steadily pf (?rest answer)" for answer
    by (cases answer) (auto intro!: steadily_unrelated unrelated_combine unrelated_migration)
  have run: "bind_act (handle_advance pf repr (ci_now ci) (ci_elapsed_ms ci) (ci_advance ci) (self_driven_request s))
      (\<lambda>answer. bind_act (bump_cycle pf) (\<lambda>_. ?rest answer)) s = (s', r)"
    using assms(3) unfolding execute_self_driven_cycle_advance_def bump_cycle_fun .
  show ?thesis
    by (rule coherent_cycle [where rest = ?rest, OF assms(1,2) steadily_advance rest run assms(4)])
qed

lemma coherent_pending:
  assumes c: "coherent pf s" and small: "ss_pending_noop_cycles s + 1 < SELF_DRIVEN_BATCH_MAX"
    and due: "\<not> should_run_prune_scan (sat_add (sat_add (ss_cycle_counter s) (ss_pending_noop_cycles s)) 1)"
  shows "coherent pf (s\<lparr>ss_pending_noop_cycles := ss_pending_noop_cycles s + 1\<rparr>)"
proof -
  let ?p = "ss_pending_noop_cycles s"
  have old: "?p < SELF_DRIVEN_BATCH_MAX"
    and quiet: "\<And>k. 0 < k \<Longrightarrow> k \<le> ?p \<Longrightarrow> \<not> should_run_prune_scan (sat_add (ss_cycle_counter s) k)"
    using c by (simp_all add: coherent_def batch_ok_def)
  have succ: "unat (?p + 1) = unat ?p + 1"
    using old by (simp add: SELF_DRIVEN_BATCH_MAX_def word_less_nat_alt unat_word_ariths)
  have "sat_add (sat_add (ss_cycle_counter s) ?p) 1 = sat_add (ss_cycle_counter s) (?p + 1)"
    by (simp add: word_unat_eq_iff unat_sat_add succ)
  moreover have "k \<le> ?p \<or> k = ?p + 1" if "k \<le> ?p + 1" for k
    using that by (auto simp: word_le_nat_alt word_unat_eq_iff succ)
  ultimately have "\<not> should_run_prune_scan (sat_add (ss_cycle_counter s) k)" if "0 < k" "k \<le> ?p + 1" for k
    using that quiet due by metis
  then show ?thesis
    using c small by (simp add: coherent_def batch_ok_def server_inv_def logged_cycles_def log_of_def)
qed

text \<open>The tick only counts; and the log took the events of the counter's moves from \<open>s\<close> to \<open>s'\<close>.\<close>

definition counts_only :: "server_state \<Rightarrow> bool" where
  "counts_only s \<longleftrightarrow> is_provably_inert_for_batch s \<and> ss_pending_noop_cycles s + 1 < SELF_DRIVEN_BATCH_MAX \<and>
     \<not> should_run_prune_scan (sat_add (sat_add (ss_cycle_counter s) (ss_pending_noop_cycles s)) 1)"

definition tells :: "server_state \<Rightarrow> server_state \<Rightarrow> bool" where
  "tells s s' \<longleftrightarrow> told s' \<or> ss_cycle_counter s' = ss_cycle_counter s"

lemma coherent_tick:
  assumes c: "coherent pf s" and run: "self_driven_step pf repr enabled flushed ci s = (s', r)"
    and tells: "counts_only s \<or> (let s1 = fst (flush_pending_self_driven pf flushed s) in tells s s1 \<and> tells s1 s')"
  shows "coherent pf s'"
proof (cases "enabled \<and> ss_handshake_complete s \<and> \<not> is_archived s")
  case True
  show ?thesis
  proof (cases "counts_only s")
    case batch: True
    then have "s' = s\<lparr>ss_pending_noop_cycles := ss_pending_noop_cycles s + 1\<rparr>"
      using run True by (simp add: self_driven_step_def Let_def set_pending_def modify_act_def counts_only_def)
    then show ?thesis
      using coherent_pending [OF c] batch by (simp add: counts_only_def)
  next
    case False
    obtain s1 r1 where 1: "flush_pending_self_driven pf flushed s = (s1, r1)"
      by (cases "flush_pending_self_driven pf flushed s")
    have step: "bind_act (ignore_act (flush_pending_self_driven pf flushed)) (\<lambda>_.
        ignore_act (execute_self_driven_cycle_advance pf repr ci)) s = (s', r)"
      using run True False unfolding self_driven_step_def Let_def counts_only_def by simp
    obtain s2 r2 where 2: "execute_self_driven_cycle_advance pf repr ci s1 = (s2, r2)"
      by (cases "execute_self_driven_cycle_advance pf repr ci s1")
    have s': "s' = s1 \<or> s' = s2"
      using step 1 2 by (auto simp: bind_act_def ignore_act_def split: result.splits)
    have t: "tells s s1" "tells s1 s'"
      using tells False by (simp_all add: 1)
    then have "coherent pf s1" "ss_pending_noop_cycles s1 = 0"
      using coherent_flush [OF c 1] by (simp_all add: tells_def)
    then show ?thesis
      using s' t coherent_execute [OF _ _ 2] by (auto simp: tells_def)
  qed
next
  case False
  have "self_driven_step pf repr enabled flushed ci s = return_act () s"
    unfolding self_driven_step_def if_not_P [OF False] ..
  then show ?thesis
    using run c by (simp add: return_act_def)
qed

section \<open>A life\<close>

text \<open>
  A substrate from an empty log on. \<open>worked\<close> is any work that neither moves the counter nor writes
  \<^verbatim>\<open>cycle_advanced\<close> (\<open>steadily_intake\<close> and the lemmas about \<open>steadily\<close> are such work). A request
  flushes what is pending before it is dispatched.
\<close>

inductive living :: "platform \<Rightarrow> ('f \<Rightarrow> string) \<Rightarrow> server_state \<Rightarrow> bool"
  for pf :: platform and repr :: "'f \<Rightarrow> string" where
  born: "living pf repr s"
    if "server_inv pf s" "log_of s = []" "ss_cycle_counter s = 0" "ss_pending_noop_cycles s = 0"
| worked: "living pf repr s'"
    if "living pf repr s" "extends pf ss_pending_noop_cycles steady s s'"
| flushed: "living pf repr s'"
    if "living pf repr s" "flush_pending_self_driven pf saved s = (s', r)" "tells s s'"
| requested: "living pf repr s'"
    if "living pf repr s" "flush_pending_self_driven pf saved s = (s1, Ok ())" "tells s s1"
      "dispatch_advance pf repr now elapsed_ms advance python stored request s1 = (s', r)" "tells s1 s'"
| ticked: "living pf repr s'"
    if "living pf repr s" "self_driven_step pf repr enabled kept ci s = (s', r)"
      "counts_only s \<or> (let s1 = fst (flush_pending_self_driven pf kept s) in tells s s1 \<and> tells s1 s')"

lemma living_coherent: "living pf repr s \<Longrightarrow> coherent pf s"
proof (induction rule: living.induct)
  case (born s)
  then show ?case
    using batch_ok_none [of s] by (simp add: coherent_def logged_cycles_def advance_span_sum_def)
next
  case (worked s s')
  then show ?case
    by (blast intro: coherent_extends)
next
  case (flushed s saved s' r)
  then show ?case
    using coherent_flush unfolding tells_def by blast
next
  case (requested s saved s1 now elapsed_ms advance python stored request s' r)
  then have "coherent pf s1" "ss_pending_noop_cycles s1 = 0"
    using coherent_flush [OF requested(6,2)] by (auto simp: tells_def)
  then show ?case
    using coherent_dispatch [OF _ _ requested(4)] requested(5) by (simp add: tells_def)
next
  case (ticked s enabled kept ci s' r)
  then show ?case
    using coherent_tick by blast
qed

lemma check_ids:
  "check_render_drift s = Ok r1 \<Longrightarrow> ic_check_id r1 = ''canonical_bytes_render_drift''"
  "check_orphans s = Ok r2 \<Longrightarrow> ic_check_id r2 = ''substrate_state_orphan_detected''"
  "check_silent_internal_mortality s = Ok r3 \<Longrightarrow> ic_check_id r3 = ''silent_internal_mortality''"
  "ic_check_id (check_substrate_id s) = ''substrate_id_well_formed''"
  "ic_check_id (check_cycle_monotonic s) = ''cycle_counter_monotonic''"
  "ic_check_id (check_genesis_event_uniqueness s) = ''genesis_event_uniqueness''"
  by (auto simp: check_render_drift_def check_orphans_def check_silent_internal_mortality_def check_substrate_id_def
      check_cycle_monotonic_def check_genesis_event_uniqueness_def tier_1_result_def Let_def split: prod.splits)

lemma run_checks_Ok:
  assumes "run_integrity_checks pf s = (Ok results :: (_, 'e) result)"
  obtains hashes drift orphans silent advances
  where "check_dag_verify pf s = (Ok hashes :: (_, 'e) result)" "check_render_drift s = (Ok drift :: (_, 'e) result)"
    "check_orphans s = (Ok orphans :: (_, 'e) result)"
    "check_silent_internal_mortality s = (Ok silent :: (_, 'e) result)"
    "check_manifest_cycle_vs_dag_advance_count s = (Ok advances :: (_, 'e) result)"
    "results = [check_substrate_id s, check_cycle_monotonic s, hashes, drift, orphans, silent,
      check_genesis_event_uniqueness s, advances]"
  using assms unfolding run_integrity_checks_def and_then_Ok_iff by auto

text \<open>
  C4. Idle cycles that are only counted are accounted for. Over any interleaving of requests, flushes,
  self-driven cycles and counted ones, in which the log took the events of the counter's moves, the
  spans in the log add up to the counter, so that the integrity checks of the hashes and of the counter
  pass; at most eight cycles are pending, and none of them is one at which the prune scan must run.
\<close>

theorem counted_cycles_accounted:
  assumes "living pf repr s"
  shows "logged_cycles s = Ok (ss_cycle_counter s) \<and>
    (\<forall>results. run_integrity_checks pf s = (Ok results :: (_, substrate_error) result) \<longrightarrow>
      (\<forall>r\<in>set results. ic_check_id r \<in> {''dag_verify_all'', ''manifest_cycle_vs_dag_advance_count''} \<longrightarrow> ic_passed r)) \<and>
    ss_pending_noop_cycles s < SELF_DRIVEN_BATCH_MAX \<and>
    (\<forall>k. 0 < k \<and> k \<le> ss_pending_noop_cycles s \<longrightarrow> \<not> should_run_prune_scan (sat_add (ss_cycle_counter s) k))"
proof -
  have c: "coherent pf s"
    by (rule living_coherent [OF assms])
  then have v: "verify_all (pf_hash pf) (ss_dag s) = Ok ()" and l: "logged_cycles s = Ok (ss_cycle_counter s)"
    by (simp_all add: coherent_def server_inv_def verify_all_Ok)
  have "ic_passed r" if "run_integrity_checks pf s = (Ok results :: (_, substrate_error) result)" "r \<in> set results"
    "ic_check_id r \<in> {''dag_verify_all'', ''manifest_cycle_vs_dag_advance_count''}" for results r
    using that(1)
  proof (rule run_checks_Ok)
    fix hashes drift orphans silent advances :: integrity_check_result
    assume ok: "check_dag_verify pf s = (Ok hashes :: (_, substrate_error) result)"
      "check_render_drift s = (Ok drift :: (_, substrate_error) result)"
      "check_orphans s = (Ok orphans :: (_, substrate_error) result)"
      "check_silent_internal_mortality s = (Ok silent :: (_, substrate_error) result)"
      "check_manifest_cycle_vs_dag_advance_count s = (Ok advances :: (_, substrate_error) result)"
      "results = [check_substrate_id s, check_cycle_monotonic s, hashes, drift, orphans, silent,
        check_genesis_event_uniqueness s, advances]"
    then have "r = hashes \<or> r = advances"
      using that(2,3) check_ids(1) [OF ok(2)] check_ids(2) [OF ok(3)] check_ids(3) [OF ok(4)] check_ids(4-6) [of s]
      by auto
    moreover have "ic_passed hashes" "ic_passed advances"
      using ok(1,5) v l by (auto simp: check_dag_verify_def check_manifest_cycle_vs_dag_advance_count_def
          tier_1_result_def Let_def logged_cycles_def abs_diff_def)
    ultimately show ?thesis
      by auto
  qed
  then show ?thesis
    using c by (auto simp: coherent_def batch_ok_def)
qed

definition idle_state :: server_state where
  "idle_state = blank_state\<lparr>ss_handshake_complete := True\<rparr>"

definition idle_input :: "unit cycle_input" where
  "idle_input = \<lparr>ci_now = (\<lambda>_. 0), ci_elapsed_ms = 0, ci_advance = None, ci_worker = None,
     ci_saved_worker = Ok (), ci_saved = Ok ()\<rparr>"

lemma idle_counts:
  "counts_only idle_state"
  "self_driven_step chain_platform repr True kept idle_input idle_state = (idle_state\<lparr>ss_pending_noop_cycles := 1\<rparr>, Ok ())"
  by (simp_all add: counts_only_def self_driven_step_def idle_state_def blank_state_def is_archived_def Let_def
      is_provably_inert_for_batch_def new_federation_state_def SELF_DRIVEN_BATCH_MAX_def should_run_prune_scan_def
      PRUNE_SCAN_DEEP_CYCLE_INTERVAL_def sat_add_def set_pending_def modify_act_def)

lemma idle_flush:
  obtains s' where "flush_pending_self_driven chain_platform (Ok ()) (idle_state\<lparr>ss_pending_noop_cycles := 1\<rparr>) = (s', Ok ())"
    "ss_cycle_counter s' = 1" "told s'"
proof -
  let ?n = "\<lparr>node_hash = 0, parent_hashes = [], node_type = NODE_TYPE_CYCLE_ADVANCED, created_at_cycle = 1,
    content = encode_cycle_advanced 0 1\<rparr> :: dag_node"
  let ?s = "idle_state\<lparr>ss_cycle_counter := 1, ss_dag := \<lparr>nodes = [(0, ?n)], insertion_order = [0], tip = Some 0\<rparr>\<rparr>"
  have plain: "\<not> is_cultivation_family_node_type NODE_TYPE_CYCLE_ADVANCED" "NODE_TYPE_CYCLE_ADVANCED \<noteq> []"
    by (simp_all add: is_cultivation_family_node_type_def starts_with_def NODE_TYPE_CYCLE_ADVANCED_def
        NODE_TYPE_BET_RETIRED_PREFIX_def NODE_TYPE_CULTIVATION_RECOVERED_PREFIX_def
        NODE_TYPE_CULTIVATION_ORPHANED_PREFIX_def NODE_TYPE_SUCCESSION_COMPLETED_PREFIX_def)
  have "flush_pending_self_driven chain_platform (Ok ()) (idle_state\<lparr>ss_pending_noop_cycles := 1\<rparr>) = (?s, Ok ())"
    by (simp add: flush_pending_self_driven_def idle_state_def blank_state_def is_archived_def advance_counter_def
        sat_add_def emit_substrate_event_def insert_node_def tip_parents_def dag_new_def check_parents_def dag_get_def
        Let_def plain ignore_act_def bind_act_def set_pending_def modify_act_def lift_act_def)
  moreover have "told ?s"
    by (simp add: told_def log_of_def iter_in_insertion_order_def dag_get_def List.map_filter_simps)
  ultimately show thesis
    using that by simp
qed

lemma counted_cycles_accounted_witness:
  "\<exists>s. living chain_platform (\<lambda>_ :: unit. []) s \<and> ss_cycle_counter s = 1 \<and> logged_cycles s = Ok 1"
proof -
  have "living chain_platform (\<lambda>_ :: unit. []) idle_state"
    using server_inv_blank [of chain_platform]
    by (intro born) (simp_all add: idle_state_def blank_state_def server_inv_def log_of_def iter_in_insertion_order_def
        dag_new_def List.map_filter_simps)
  then have l: "living chain_platform (\<lambda>_ :: unit. []) (idle_state\<lparr>ss_pending_noop_cycles := 1\<rparr>)"
    by (rule ticked [OF _ idle_counts(2)]) (simp add: idle_counts)
  obtain s' where s': "flush_pending_self_driven chain_platform (Ok ()) (idle_state\<lparr>ss_pending_noop_cycles := 1\<rparr>) = (s', Ok ())"
      "ss_cycle_counter s' = 1" "told s'"
    by (rule idle_flush)
  have "living chain_platform (\<lambda>_ :: unit. []) s'"
    by (rule flushed [OF l s'(1)]) (simp add: tells_def s'(3))
  then show ?thesis
    using counted_cycles_accounted [of chain_platform "\<lambda>_ :: unit. []" s'] s'(2) by auto
qed

end
