(* ===== verification/Submit_Mutation.thy ===== *)
theory Submit_Mutation
  imports Intake_Rules
begin

text \<open>
  A mutation that the operator submits, \<^verbatim>\<open>substrate/src/attestation.rs\<close>: the two kinds refused at the
  skin, the worker's classification, what the substrate checks itself before it believes the worker,
  the node that records the mutation, and its effects. The worker is a function or missing; floats
  are the texts that denote them, \<open>parse\<close> giving the text that a weight is rendered as.
\<close>

section \<open>Refused at the skin\<close>

definition MSG_SUBMIT_MUTATION :: string where
  "MSG_SUBMIT_MUTATION = ''submit_mutation''"

definition MSG_SUBMIT_MUTATION_RESPONSE :: string where
  "MSG_SUBMIT_MUTATION_RESPONSE = ''submit_mutation_response''"

definition preserve_all_evidence :: "string \<Rightarrow> string" where
  "preserve_all_evidence ty =
     ''cultivator-attempted preserve-all mutation rejected at skin: mutation_type='' @ str_debug ty @
     ''; COV04 '' @ section_sign @ ''3.7 + '' @ section_sign @ ''5.6 + P07 '' @ section_sign @
     ''3.4 enforced; substrate MUST NOT disable internal mortality discipline at cultivator request''"

definition preserve_all_reason :: "string \<Rightarrow> string" where
  "preserve_all_reason ty =
     ''C56: mutation_type '' @ str_debug ty @
     '' matches forbidden preserve-all pattern; cultivator request violates COV04''"

definition orphan_evidence :: "string \<Rightarrow> string" where
  "orphan_evidence ty =
     ''cultivator-attempted cultivation_orphaned suppression rejected at skin: mutation_type='' @ str_debug ty @
     ''; COV06 '' @ section_sign @ ''5.5 + L1/GOVERNANCE '' @ section_sign @ ''3.2.C + P07 '' @ section_sign @
     ''4 enforced; cultivation_orphaned MUST NOT be suppressed by cultivator pressure''"

definition orphan_reason :: "string \<Rightarrow> string" where
  "orphan_reason ty =
     ''C69: mutation_type '' @ str_debug ty @
     '' attempts to suppress a due cultivation_orphaned; cultivator request violates COV06 '' @ section_sign @ ''5.5''"

definition covenant_violation :: "message \<Rightarrow> string \<Rightarrow> string \<Rightarrow> message option" where
  "covenant_violation request ty reason =
     response MSG_SUBMIT_MUTATION_RESPONSE request
       [(''accepted'', VBool False), (''classification'', VString ''covenant_violation''),
        (''rejection_reason'', VString reason), (''mutation_type'', VString ty)]"

definition refuse_at_skin ::
    "platform \<Rightarrow> i64 \<Rightarrow> message \<Rightarrow> string \<Rightarrow> string \<Rightarrow> string \<Rightarrow> string \<Rightarrow> string \<Rightarrow> message option action" where
  "refuse_at_skin pf t request ty did name evidence reason =
     bind_act (ignore_act (emit_immune_sporocarp pf t did name evidence))
       (\<lambda>_. return_act (covenant_violation request ty reason))"

section \<open>What the worker answers\<close>

record classified =
  cl_classification :: string
  cl_accepted :: bool
  cl_reason :: string
  cl_content :: bytes
  cl_type :: string
  cl_attempted :: bool
  cl_succeeded :: bool
  cl_failure :: string
  cl_op :: string
  cl_summary :: string
  cl_migration :: bool
  cl_built :: bool

definition read_classified :: "vmap \<Rightarrow> classified" where
  "read_classified m =
     \<lparr>cl_classification = text_field m ''classification'' [], cl_accepted = flag_field m ''accepted'',
      cl_reason = text_field m ''rejection_reason'' [],
      cl_content = (case opt_bytes m ''content_canonical_bytes'' of Some b \<Rightarrow> b | None \<Rightarrow> []),
      cl_type = text_field m ''mutation_type'' [], cl_attempted = flag_field m ''schema_apply_attempted'',
      cl_succeeded = flag_field m ''schema_apply_succeeded'',
      cl_failure = text_field m ''schema_apply_failure_reason'' [], cl_op = text_field m ''schema_apply_op'' [],
      cl_summary = text_field m ''schema_apply_summary'' [], cl_migration = flag_field m ''migration_mode'',
      cl_built = flag_field m ''candidate_built''\<rparr>"

definition ask_classifier :: "worker \<Rightarrow> message \<Rightarrow> (classified, substrate_error) result" where
  "ask_classifier python request =
     and_then (ok_or not_connected python) (\<lambda>call.
     and_then (map_err SubBridge (call MSG_SUBMIT_MUTATION (msg_payload request))) (\<lambda>r.
       if message_type r \<noteq> MSG_SUBMIT_MUTATION_RESPONSE
       then Err (SubProtocol (''expected submit_mutation_response; got '' @ message_type r))
       else Ok (read_classified (msg_payload r))))"

section \<open>What the substrate checks itself\<close>

text \<open>What an accepted mutation of one of the three local kinds will do, or nothing.\<close>

datatype staged =
    NothingStaged
  | StatusStaged string "string option"
  | ObjectiveStaged "string owner_objective"
  | CompressionStaged string "arr32 list" bytes arr32

text \<open>A refusal by the substrate leaves an immune signal, the reason replacing the worker's.\<close>

type_synonym ruling = "string + staged"

definition overrule :: "platform \<Rightarrow> i64 \<Rightarrow> string \<Rightarrow> string \<Rightarrow> string \<Rightarrow> string \<Rightarrow> ruling action" where
  "overrule pf t did name evidence reason =
     bind_act (ignore_act (emit_immune_sporocarp pf t did name evidence)) (\<lambda>_. return_act (Inl reason))"

definition invalid :: "platform \<Rightarrow> i64 \<Rightarrow> string \<Rightarrow> string \<Rightarrow> ruling action" where
  "invalid pf t = overrule pf t ''C5_attestation_invalid'' ''attestation_invalid''"

definition check_in_flight :: "platform \<Rightarrow> i64 \<Rightarrow> candidate_state \<Rightarrow> ruling action" where
  "check_in_flight pf t c =
     (let reason = ''a schema migration is already in flight (op='' @ op_name c @
        ''); the MVP allows only one two-phase migration at a time '' @ em_dash @
        '' abort it (abort_migration) or let its dual-validation window complete before starting another''
      in overrule pf t ''C14_untyped_mutation_blocked'' ''schema_migration_already_in_flight'' reason reason)"

definition check_status :: "platform \<Rightarrow> i64 \<Rightarrow> bytes \<Rightarrow> ruling action" where
  "check_status pf t bs =
     bind_act (lift_act (decode_map bs)) (\<lambda>r. case r of
       None \<Rightarrow> invalid pf t ''backup_encryption_status_decode_failed''
         ''set_backup_encryption_status: content canonical-bytes decode failed''
     | Some m \<Rightarrow> (case opt_string m ''status'' of
         None \<Rightarrow> invalid pf t ''backup_encryption_status_missing''
           ''set_backup_encryption_status: status field missing or not String''
       | Some status \<Rightarrow>
           if status \<in> set BACKUP_ENCRYPTION_STATUS_VALID_VALUES
           then return_act (Inr (StatusStaged status (opt_string m ''key_id'')))
           else invalid pf t ''backup_encryption_status_unknown_value''
             (''set_backup_encryption_status: unknown status '' @ str_debug status @ ''; allowed: ['' @
              comma_separated (map str_debug BACKUP_ENCRYPTION_STATUS_VALID_VALUES) @ '']'')))"

definition check_objective ::
    "platform \<Rightarrow> (string \<Rightarrow> string option) \<Rightarrow> (string \<Rightarrow> bool) \<Rightarrow> i64 \<Rightarrow> bytes \<Rightarrow> ruling action" where
  "check_objective pf parse weight_ok t bs =
     bind_act (lift_act (decode_owner_objective parse weight_ok bs)) (\<lambda>r. case r of
       None \<Rightarrow> invalid pf t ''owner_objective_decode_failed''
         ''owner_objective_declaration canonical-bytes decode failed''
     | Some ob \<Rightarrow>
         if weights ob = []
         then invalid pf t ''owner_objective_empty_weights''
           ''owner_objective_declaration: weights array MUST be non-empty''
         else return_act (Inr (ObjectiveStaged ob)))"

text \<open>The first of the targets that a compression may not touch, with the reason.\<close>

definition target_violation :: "dag \<Rightarrow> u64 \<Rightarrow> string \<Rightarrow> arr32 \<Rightarrow> string option" where
  "target_violation d current rule_id h =
     (let invs = seed_compression_invariant_set in
      case find (\<lambda>n. node_hash n = h) (iter_in_insertion_order d) of
        None \<Rightarrow> Some ''compression witness references node hash not present in DAG''
      | Some n \<Rightarrow>
          if node_type_in_invariant_set (node_type n) invs
          then Some (''compression targets invariant-set node_type='' @ node_type n @
                 '' (rule_id='' @ rule_id @ '')'')
          else let age = sat_sub current (created_at_cycle n) in
            if age < recent_cycles_floor invs
            then Some (''compression targets node from cycle '' @ u64_str (created_at_cycle n) @
                   '' (age '' @ u64_str age @ '' < floor '' @ u64_str (recent_cycles_floor invs) @ '')'')
            else None)"

fun first_violation :: "dag \<Rightarrow> u64 \<Rightarrow> string \<Rightarrow> arr32 list \<Rightarrow> string option" where
  "first_violation d current rule_id [] = None"
| "first_violation d current rule_id (h # hs) =
     (case target_violation d current rule_id h of
        Some reason \<Rightarrow> Some reason | None \<Rightarrow> first_violation d current rule_id hs)"

definition check_compression :: "platform \<Rightarrow> i64 \<Rightarrow> bytes \<Rightarrow> ruling action" where
  "check_compression pf t bs s =
     bind_act (lift_act (decode_compression_witness_minimal bs)) (\<lambda>r. case r of
       None \<Rightarrow> invalid pf t ''compression_witness_decode_failed'' ''compression witness canonical-bytes decode failed''
     | Some (rule_id, hashes, summary, dag_tip) \<Rightarrow>
         (case first_violation (ss_dag s) (ss_cycle_counter s) rule_id hashes of
            Some reason \<Rightarrow> overrule pf t ''C51_compression_invariant_corruption'' ''compression_invariant_corruption''
              reason (''P10.b compression_invariant_corruption: '' @ reason)
          | None \<Rightarrow> return_act (Inr (CompressionStaged rule_id hashes summary dag_tip)))) s"

definition rule_on ::
    "platform \<Rightarrow> (string \<Rightarrow> string option) \<Rightarrow> (string \<Rightarrow> bool) \<Rightarrow> i64 \<Rightarrow> classified \<Rightarrow> ruling action" where
  "rule_on pf parse weight_ok t cl s =
     (if \<not> cl_accepted cl then return_act (Inl (cl_reason cl))
      else case (cl_migration cl, ss_migration_candidate s) of
        (True, Some c) \<Rightarrow> check_in_flight pf t c
      | _ \<Rightarrow>
          if cl_type cl = ''set_backup_encryption_status'' then check_status pf t (cl_content cl)
          else if cl_type cl = ''owner_objective_declaration''
          then check_objective pf parse weight_ok t (cl_content cl)
          else if cl_type cl = ''compression'' then check_compression pf t (cl_content cl)
          else return_act (Inr NothingStaged)) s"

section \<open>Recording the mutation\<close>

text \<open>A node of the current cycle over the tip.\<close>

definition log_node :: "platform \<Rightarrow> string \<Rightarrow> string \<Rightarrow> bytes \<Rightarrow> arr32 action" where
  "log_node pf what ty c s = insert_act pf what (tip_parents (ss_dag s)) ty (ss_cycle_counter s) c s"

definition refusal_detector :: "string \<Rightarrow> string \<times> string" where
  "refusal_detector classification =
     (if classification = ''untyped'' then (''C14_untyped_mutation_blocked'', ''untyped_mutation_blocked'')
      else if classification = ''contract_identity_level'' then (''C5_attestation_invalid'', ''attestation_invalid'')
      else (''C_unknown'', ''unknown_breach''))"

definition record_mutation :: "platform \<Rightarrow> i64 \<Rightarrow> classified \<Rightarrow> ruling \<Rightarrow> arr32 option action" where
  "record_mutation pf t cl v = (case v of
     Inr _ \<Rightarrow> bind_act (log_node pf ''mutation DAG insert'' (''mutation:'' @ cl_type cl) (cl_content cl))
       (\<lambda>h. return_act (Some h))
   | Inl reason \<Rightarrow> bind_act (ignore_act (case refusal_detector (cl_classification cl) of (did, name) \<Rightarrow>
         emit_immune_sporocarp pf t did name (''mutation_type='' @ cl_type cl @ ''; classification='' @
           cl_classification cl @ ''; reason='' @ reason)))
       (\<lambda>_. return_act None))"

section \<open>Its effects\<close>

text \<open>The effects of the three local kinds; a compression answers with the hash of its event.\<close>

definition apply_staged :: "platform \<Rightarrow> ruling \<Rightarrow> arr32 option action" where
  "apply_staged pf v s = (case v of
     Inr (StatusStaged status key_id) \<Rightarrow>
       bind_act (log_node pf ''backup_encryption_status_declared DAG insert''
           (backup_encryption_status_declared_node_type status)
           (encode_backup_encryption_status_declared status key_id (ss_cycle_counter s))) (\<lambda>_.
       bind_act (modify_act (\<lambda>s. s\<lparr>ss_backup_encryption_status := Some status\<rparr>)) (\<lambda>_. return_act None))
   | Inr (ObjectiveStaged ob) \<Rightarrow>
       bind_act (log_node pf ''owner_objective_declared DAG insert''
           (NODE_TYPE_OWNER_OBJECTIVE_DECLARED_PREFIX @ objective_id ob)
           (encode_owner_objective_declared (objective_id ob) (objective_declared_at_cycle ob)
              (word_of_nat (length (weights ob))))) (\<lambda>_.
       bind_act (modify_act (\<lambda>s. s\<lparr>ss_owner_objective := Some ob\<rparr>)) (\<lambda>_. return_act None))
   | Inr (CompressionStaged rule_id hashes summary dag_tip) \<Rightarrow>
       bind_act (log_node pf ''compression event DAG insert'' (compression_event_node_type rule_id)
           (encode_compression_event rule_id hashes summary dag_tip (ss_cycle_counter s)))
         (\<lambda>h. return_act (Some h))
   | _ \<Rightarrow> return_act None) s"

definition evolution_fields :: "classified \<Rightarrow> (string \<times> Value) list" where
  "evolution_fields cl =
     [(''op'', VString (cl_op cl)), (''succeeded'', VBool (cl_succeeded cl)), (''summary'', VString (cl_summary cl))] @
     (if cl_succeeded cl then [] else [(''failure_reason'', VString (cl_failure cl))])"

text \<open>The outcome of applying a schema change is logged whatever the ruling was.\<close>

definition record_evolution :: "platform \<Rightarrow> classified \<Rightarrow> arr32 option action" where
  "record_evolution pf cl =
     (if cl_attempted cl
      then bind_act (log_node pf ''evolution event DAG insert''
          ((if cl_succeeded cl then ''evolution_succeeded:'' else ''evolution_failed:'') @ cl_op cl)
          (event_bytes (evolution_fields cl))) (\<lambda>h. return_act (Some h))
      else return_act None)"

definition start_migration :: "platform \<Rightarrow> nat option \<Rightarrow> classified \<Rightarrow> arr32 action" where
  "start_migration pf since_epoch cl s =
     (let window = DEFAULT_DUAL_VALIDATION_WINDOW_CYCLES; cycle = ss_cycle_counter s;
          c = enter_validating cycle (candidate_new since_epoch (cl_content cl) (cl_op cl) cycle window)
      in bind_act (modify_act (\<lambda>s. s\<lparr>ss_migration_candidate := Some c\<rparr>)) (\<lambda>_.
         log_node pf ''schema_migration_started DAG insert'' (schema_migration_started_node_type (cl_op cl))
           (encode_schema_migration_started (cl_op cl) (cl_content cl) cycle window (started_at_unix_ns c))) s)"

definition migration_failure :: "classified \<Rightarrow> string" where
  "migration_failure cl =
     (if cl_failure cl = [] then ''migration candidate construction failed (apply-to-copy error)'' else cl_failure cl)"

definition build_failed :: "platform \<Rightarrow> classified \<Rightarrow> arr32 action" where
  "build_failed pf cl s =
     bind_act (log_node pf ''schema_migration_rolled_back DAG insert''
         (schema_migration_rolled_back_node_type (cl_op cl))
         (encode_schema_migration_rolled_back (cl_op cl) (migration_failure cl) (ss_cycle_counter s))) (\<lambda>h.
     bind_act (log_node pf ''legacy evolution_failed DAG insert'' (''evolution_failed:'' @ cl_op cl)
         (event_bytes [(''op'', VString (cl_op cl)), (''succeeded'', VBool False),
            (''summary'', VString ''two-phase migration candidate build failed''),
            (''failure_reason'', VString (migration_failure cl))])) (\<lambda>_.
       return_act h)) s"

text \<open>The hashes of the two events that a migration may leave, at most one of them.\<close>

definition open_migration ::
    "platform \<Rightarrow> nat option \<Rightarrow> classified \<Rightarrow> ruling \<Rightarrow> (arr32 option \<times> arr32 option) action" where
  "open_migration pf since_epoch cl v =
     (if \<not> isl v \<and> cl_migration cl
      then if cl_built cl then bind_act (start_migration pf since_epoch cl) (\<lambda>h. return_act (Some h, None))
           else bind_act (build_failed pf cl) (\<lambda>h. return_act (None, Some h))
      else return_act (None, None))"

definition operator_abort_reason :: string where
  "operator_abort_reason = ''operator-initiated abort_migration (CI mutation)''"

definition abort_on_request ::
    "platform \<Rightarrow> (string \<Rightarrow> i64) \<Rightarrow> worker \<Rightarrow> (unit, substrate_error) result \<Rightarrow> classified \<Rightarrow> ruling \<Rightarrow> unit action" where
  "abort_on_request pf now python saved cl v s =
     (if \<not> isl v \<and> cl_type cl = ''abort_migration''
      then case ss_migration_candidate s of
          None \<Rightarrow> return_act ()
        | Some c \<Rightarrow> or_else_act
            (force_migration_rollback pf now python saved (op_name c) operator_abort_reason)
            (\<lambda>e. step_failed_signal pf now
               (''operator abort_migration (op='' @ op_name c @ '') failed: '' @ substrate_display e))
      else return_act ()) s"

definition hash_field :: "string \<Rightarrow> arr32 option \<Rightarrow> (string \<times> Value) list" where
  "hash_field k h = (case h of Some h \<Rightarrow> [(k, VBytes (arr32_bytes h))] | None \<Rightarrow> [])"

definition mutation_fields ::
    "classified \<Rightarrow> ruling \<Rightarrow> arr32 option \<Rightarrow> arr32 option \<Rightarrow> arr32 option \<Rightarrow> arr32 option \<times> arr32 option \<Rightarrow>
      (string \<times> Value) list" where
  "mutation_fields cl v node compression evolution migration =
     [(''classification'', VString (cl_classification cl)), (''accepted'', VBool (\<not> isl v)),
      (''rejection_reason'', VString (case v of Inl reason \<Rightarrow> reason | Inr _ \<Rightarrow> cl_reason cl)),
      (''mutation_type'', VString (cl_type cl))] @
     hash_field ''dag_node_hash'' node @
     [(''schema_apply_attempted'', VBool (cl_attempted cl)), (''schema_apply_succeeded'', VBool (cl_succeeded cl)),
      (''schema_apply_failure_reason'', VString (cl_failure cl)), (''schema_apply_op'', VString (cl_op cl)),
      (''schema_apply_summary'', VString (cl_summary cl))] @
     hash_field ''evolution_event_hash'' evolution @ hash_field ''compression_event_hash'' compression @
     [(''migration_mode'', VBool (cl_migration cl)), (''candidate_built'', VBool (cl_built cl))] @
     hash_field ''schema_migration_started_event_hash'' (fst migration) @
     hash_field ''schema_migration_rolled_back_event_hash'' (snd migration)"

text \<open>
  \<open>t1\<close> and \<open>t2\<close> are what the system clock reads for the first and the second signal, \<open>now\<close> for those
  of an abort, \<open>since_epoch\<close> for a new candidate.
\<close>

definition carry_out ::
    "platform \<Rightarrow> (string \<Rightarrow> string option) \<Rightarrow> (string \<Rightarrow> bool) \<Rightarrow> i64 \<Rightarrow> i64 \<Rightarrow> (string \<Rightarrow> i64) \<Rightarrow> nat option \<Rightarrow>
      worker \<Rightarrow> (unit, substrate_error) result \<Rightarrow> message \<Rightarrow> classified \<Rightarrow> message option action" where
  "carry_out pf parse weight_ok t1 t2 now since_epoch python saved request cl =
     bind_act (rule_on pf parse weight_ok t1 cl) (\<lambda>v.
     bind_act (record_mutation pf t2 cl v) (\<lambda>node.
     bind_act (apply_staged pf v) (\<lambda>compression.
     bind_act (record_evolution pf cl) (\<lambda>evolution.
     bind_act (open_migration pf since_epoch cl v) (\<lambda>migration.
     bind_act (abort_on_request pf now python saved cl v) (\<lambda>_.
       return_act (response MSG_SUBMIT_MUTATION_RESPONSE request
         (mutation_fields cl v node compression evolution migration))))))))"

definition handle_submit_mutation ::
    "platform \<Rightarrow> (string \<Rightarrow> string option) \<Rightarrow> (string \<Rightarrow> bool) \<Rightarrow> i64 \<Rightarrow> i64 \<Rightarrow> (string \<Rightarrow> i64) \<Rightarrow> nat option \<Rightarrow>
      worker \<Rightarrow> (unit, substrate_error) result \<Rightarrow> message \<Rightarrow> message option action" where
  "handle_submit_mutation pf parse weight_ok t1 t2 now since_epoch python saved request =
     (let ty = text_field (msg_payload request) ''mutation_type'' [] in
      if is_cultivator_preserve_all_attempt ty
      then refuse_at_skin pf t1 request ty ''C56_cultivator_preserve_all_attempted''
        ''cultivator_preserve_all_attempted'' (preserve_all_evidence ty) (preserve_all_reason ty)
      else if is_cultivation_orphaned_suppression_attempt ty
      then refuse_at_skin pf t1 request ty ''C69_cultivation_orphaned_suppression_attempted''
        ''cultivation_orphaned_suppression_attempted'' (orphan_evidence ty) (orphan_reason ty)
      else bind_act (lift_act (ask_classifier python request))
        (carry_out pf parse weight_ok t1 t2 now since_epoch python saved request))"

end
