(* ===== verification/Mutation_Rules.thy ===== *)
theory Mutation_Rules
  imports Submit_Mutation
begin

text \<open>
  What a submitted mutation can do: a compression touches nothing that is protected or recent, one
  migration is in flight at a time, and an answer says \<^emph>\<open>accepted\<close> exactly when the mutation is in
  the log.
\<close>

section \<open>Runs of actions\<close>

definition runs :: "'a action \<Rightarrow> server_state \<Rightarrow> (('a, substrate_error) result \<Rightarrow> server_state \<Rightarrow> bool) \<Rightarrow> bool" where
  "runs m s Q \<longleftrightarrow> Q (snd (m s)) (fst (m s))"

lemma runs_bind:
  assumes "runs m s R" and "\<And>a s1. R (Ok a) s1 \<Longrightarrow> runs (f a) s1 Q"
    and "\<And>e s1. R (Err e) s1 \<Longrightarrow> Q (Err e) s1" and "\<And>x s1. R (Abort x) s1 \<Longrightarrow> Q (Abort x) s1"
  shows "runs (bind_act m f) s Q"
  using assms by (cases "m s"; cases "snd (m s)") (auto simp: runs_def bind_act_def)

lemma runs_return [simp]: "runs (return_act a) s Q \<longleftrightarrow> Q (Ok a) s"
  by (simp add: runs_def return_act_def)

lemma runs_lift [simp]: "runs (lift_act r) s Q \<longleftrightarrow> Q r s"
  by (simp add: runs_def lift_act_def)

lemma runs_mono: "runs m s R \<Longrightarrow> (\<And>r s'. R r s' \<Longrightarrow> Q r s') \<Longrightarrow> runs m s Q"
  by (simp add: runs_def)

lemma runs_grows: "grows_by pf view T m \<Longrightarrow> server_inv pf s \<Longrightarrow> runs m s (\<lambda>_. extends pf view T s)"
  by (simp add: runs_def grows_by_def)

lemma extends_view: "extends pf view T s s' \<Longrightarrow> view s' = view s"
  by (simp add: extends_def)

lemma extends_mono:
  "extends pf view T s s' \<Longrightarrow> (\<And>x. T x \<Longrightarrow> T' x) \<Longrightarrow> extends pf view T' s s'"
  by (auto simp: extends_def)

section \<open>The types that a mutation may write\<close>

definition immune_type :: "string \<Rightarrow> bool" where
  "immune_type ty \<longleftrightarrow> starts_with ty ''immune:''"

definition evolution_type :: "string \<Rightarrow> bool" where
  "evolution_type ty \<longleftrightarrow> starts_with ty ''evolution_succeeded:'' \<or> starts_with ty ''evolution_failed:''"

definition plain_type :: "string \<Rightarrow> bool" where
  "plain_type ty \<longleftrightarrow> \<not> starts_with ty NODE_TYPE_COMPRESSION_EVENT_PREFIX"

definition mutation_type :: "string \<Rightarrow> bool" where
  "mutation_type ty \<longleftrightarrow> starts_with ty ''mutation:''"

lemmas mutation_prefixes = NODE_TYPE_COMPRESSION_EVENT_PREFIX_def compression_event_node_type_def
  backup_encryption_status_declared_node_type_def NODE_TYPE_BACKUP_ENCRYPTION_STATUS_DECLARED_PREFIX_def
  NODE_TYPE_OWNER_OBJECTIVE_DECLARED_PREFIX_def schema_migration_started_node_type_def
  NODE_TYPE_SCHEMA_MIGRATION_STARTED_PREFIX_def schema_migration_rolled_back_node_type_def
  NODE_TYPE_SCHEMA_MIGRATION_ROLLED_BACK_PREFIX_def

lemma mutation_not_family [simp]:
  "\<not> is_cultivation_family_node_type (''mutation:'' @ x)"
  "\<not> is_cultivation_family_node_type (''evolution_succeeded:'' @ x)"
  "\<not> is_cultivation_family_node_type (''evolution_failed:'' @ x)"
  "\<not> is_cultivation_family_node_type (compression_event_node_type x)"
  "\<not> is_cultivation_family_node_type (backup_encryption_status_declared_node_type x)"
  "\<not> is_cultivation_family_node_type (NODE_TYPE_OWNER_OBJECTIVE_DECLARED_PREFIX @ x)"
  "\<not> is_cultivation_family_node_type (schema_migration_started_node_type x)"
  "\<not> is_cultivation_family_node_type (schema_migration_rolled_back_node_type x)"
  by (simp_all add: is_cultivation_family_node_type_def starts_with_def NODE_TYPE_BET_RETIRED_PREFIX_def
      NODE_TYPE_CULTIVATION_RECOVERED_PREFIX_def NODE_TYPE_CULTIVATION_ORPHANED_PREFIX_def
      NODE_TYPE_SUCCESSION_COMPLETED_PREFIX_def mutation_prefixes)

lemma plain_types [simp]:
  "plain_type (''immune:'' @ x)" "plain_type (''mutation:'' @ x)"
  "plain_type (''evolution_succeeded:'' @ x)" "plain_type (''evolution_failed:'' @ x)"
  "plain_type (backup_encryption_status_declared_node_type x)"
  "plain_type (NODE_TYPE_OWNER_OBJECTIVE_DECLARED_PREFIX @ x)"
  "plain_type (schema_migration_started_node_type x)" "plain_type (schema_migration_rolled_back_node_type x)"
  by (simp_all add: plain_type_def starts_with_def mutation_prefixes)

lemma immune_types [simp]: "immune_type (''immune:'' @ x)" "\<not> immune_type (''mutation:'' @ x)"
  by (simp_all add: immune_type_def starts_with_def)

lemma evolution_types [simp]:
  "evolution_type (''evolution_succeeded:'' @ x)" "evolution_type (''evolution_failed:'' @ x)"
  by (simp_all add: evolution_type_def starts_with_def)

text \<open>What of the state an emission leaves alone and a mutation may declare.\<close>

definition declared :: "server_state \<Rightarrow> candidate_state option \<times> string option \<times> string owner_objective option" where
  "declared s = (ss_migration_candidate s, ss_backup_encryption_status s, ss_owner_objective s)"

lemma declared_ignores [simp]: "ignores_log declared"
  by (simp add: ignores_log_def declared_def)

lemma unit_ignores [simp]: "ignores_log (\<lambda>_. ())"
  by (simp add: ignores_log_def)

section \<open>Each stage\<close>

lemma grows_log_node [grows_intros]:
  assumes "ignores_log view" and "T ty" and "\<not> is_cultivation_family_node_type ty"
  shows "grows_by pf view T (log_node pf what ty c)"
  unfolding grows_by_def log_node_def by (intro allI impI extends_insert order.refl assms)

lemma log_node_cases:
  assumes "server_inv pf s" and "\<not> is_cultivation_family_node_type ty"
  obtains (failed) e where "log_node pf what ty c s = (s, Err e)"
  | (logged) s' n where "log_node pf what ty c s = (s', Ok (node_hash n))"
      "n = node_over (pf_hash pf) (tip_parents (ss_dag s)) ty (ss_cycle_counter s) c" "server_inv pf s'"
      "s' = s\<lparr>ss_dag := ss_dag s'\<rparr>"
      "iter_in_insertion_order (ss_dag s') = iter_in_insertion_order (ss_dag s) @ [n]"
  using assms by (cases rule: insert_act_cases [OF assms(1) order.refl assms(2), where what = what and
        cyc = "ss_cycle_counter s" and c = c]) (use that in \<open>auto simp: log_node_def\<close>)

lemma grows_overrule [grows_intros]: "ignores_log view \<Longrightarrow> T (''immune:'' @ did) \<Longrightarrow>
    grows_by pf view T (overrule pf t did name ev reason)"
  unfolding overrule_def by (intro grows_intros)

text \<open>A target that a compression may name.\<close>

definition spared :: "dag \<Rightarrow> u64 \<Rightarrow> arr32 \<Rightarrow> bool" where
  "spared d current h \<longleftrightarrow> (\<exists>n\<in>set (iter_in_insertion_order d). node_hash n = h \<and>
     \<not> node_type_in_invariant_set (node_type n) seed_compression_invariant_set \<and>
     unat (created_at_cycle n) + 1000 \<le> unat current)"

lemma target_violation_None:
  assumes "target_violation d current rule_id h = None"
  shows "spared d current h"
proof -
  obtain n where n: "find (\<lambda>n. node_hash n = h) (iter_in_insertion_order d) = Some n"
    and ok: "\<not> node_type_in_invariant_set (node_type n) seed_compression_invariant_set"
      "\<not> sat_sub current (created_at_cycle n) < 1000"
    using assms by (auto simp: target_violation_def Let_def seed_compression_invariant_set_def
        split: option.splits if_splits)
  have "n \<in> set (iter_in_insertion_order d)" "node_hash n = h"
    using n by (auto simp: find_Some_iff)
  moreover have "unat (created_at_cycle n) + 1000 \<le> unat current"
    using ok(2) by (auto simp: word_less_nat_alt unat_sat_sub split: if_splits)
  ultimately show ?thesis
    using ok(1) unfolding spared_def by blast
qed

lemma first_violation_None: "first_violation d current rule_id hs = None \<Longrightarrow> h \<in> set hs \<Longrightarrow> spared d current h"
  by (induction hs) (auto split: option.splits intro: target_violation_None)


lemma result_ok_not_Err [simp]: "result_ok r \<noteq> Err e"
  by (cases r) simp_all

text \<open>What was staged may be done: the targets of a compression are spared.\<close>

fun staged_ok :: "server_state \<Rightarrow> staged \<Rightarrow> bool" where
  "staged_ok s (CompressionStaged rule_id hs summary dag_tip) \<longleftrightarrow>
     (\<forall>h\<in>set hs. spared (ss_dag s) (ss_cycle_counter s) h)"
| "staged_ok s _ \<longleftrightarrow> True"

definition ruled :: "platform \<Rightarrow> classified \<Rightarrow> server_state \<Rightarrow> (ruling, substrate_error) result \<Rightarrow> server_state \<Rightarrow> bool" where
  "ruled pf cl s r s1 \<longleftrightarrow> extends pf declared immune_type s s1 \<and> (\<forall>e. r \<noteq> Err e) \<and>
     (\<forall>v. r = Ok (Inr v) \<longrightarrow> s1 = s \<and> cl_accepted cl \<and> staged_ok s v \<and>
        (cl_migration cl \<longrightarrow> ss_migration_candidate s = None))"

lemma runs_signal:
  "server_inv pf s \<Longrightarrow> runs (ignore_act (emit_immune_sporocarp pf t did name ev)) s
     (\<lambda>r s1. extends pf declared immune_type s s1 \<and> (\<forall>e. r \<noteq> Err e))"
  using grows_immune [of declared immune_type did pf t name ev]
  by (auto simp: runs_def grows_by_def ignore_act_def immune_type_def starts_with_def
      split: prod.splits result.splits)

lemma signal_Ok: "server_inv pf s \<Longrightarrow> snd (ignore_act (emit_immune_sporocarp pf t did name ev) s) = Ok ()"
  using only_logs_immune [of "\<lambda>_. ()" "\<lambda>_. True" did pf t name ev] unfolding only_logs_def by fastforce

lemma runs_overrule:
  "server_inv pf s \<Longrightarrow> runs (overrule pf t did name ev reason) s (ruled pf cl s)"
  unfolding overrule_def
  by (rule runs_bind [OF runs_signal]) (auto simp: ruled_def)

lemma runs_rule_on:
  assumes inv: "server_inv pf s"
  shows "runs (rule_on pf parse weight_ok t cl) s (ruled pf cl s)"
proof -
  have refl: "extends pf declared immune_type s s"
    using inv by (rule extends_refl)
  have staged: "ruled pf cl s (Ok (Inr v)) s"
    if "cl_accepted cl" "staged_ok s v" "cl_migration cl \<longrightarrow> ss_migration_candidate s = None" for v
    using that refl by (simp add: ruled_def)
  have step: "runs (bind_act (lift_act d) f) s (ruled pf cl s)"
    if "\<And>a. d = Ok a \<Longrightarrow> runs (f a) s (ruled pf cl s)" "\<And>e. d \<noteq> Err e" for d and f :: "'x \<Rightarrow> ruling action"
    using that refl by (cases d) (auto simp: runs_def bind_act_def lift_act_def ruled_def)
  have quiet: "(decode_with f bs :: (_, substrate_error) result) \<noteq> Err e" "(decode_map bs :: (_, substrate_error) result) \<noteq> Err e"
    for f :: "vmap \<Rightarrow> 'x option" and bs e
    by (auto simp: decode_with_def decode_map_def and_then_Err_iff)
  have status: "runs (check_status pf t bs) s (ruled pf cl s)"
    if "cl_accepted cl" "cl_migration cl \<longrightarrow> ss_migration_candidate s = None" for bs
    unfolding check_status_def invalid_def
    by (rule step) (use that quiet in \<open>auto intro: runs_overrule [OF inv] staged split: option.split\<close>)
  have objective: "runs (check_objective pf parse weight_ok t bs) s (ruled pf cl s)"
    if "cl_accepted cl" "cl_migration cl \<longrightarrow> ss_migration_candidate s = None" for bs
    unfolding check_objective_def invalid_def decode_owner_objective_def
    by (rule step) (use that quiet in \<open>auto intro: runs_overrule [OF inv] staged split: option.split\<close>)
  have compression: "runs (check_compression pf t bs) s (ruled pf cl s)"
    if "cl_accepted cl" "cl_migration cl \<longrightarrow> ss_migration_candidate s = None" for bs
  proof -
    let ?F = "\<lambda>r. case r of
        None \<Rightarrow> invalid pf t ''compression_witness_decode_failed'' ''compression witness canonical-bytes decode failed''
      | Some (rule_id, hashes, summary, dag_tip) \<Rightarrow>
          (case first_violation (ss_dag s) (ss_cycle_counter s) rule_id hashes of
             Some reason \<Rightarrow> overrule pf t ''C51_compression_invariant_corruption'' ''compression_invariant_corruption''
               reason (''P10.b compression_invariant_corruption: '' @ reason)
           | None \<Rightarrow> return_act (Inr (CompressionStaged rule_id hashes summary dag_tip)))"
    have "runs (?F r) s (ruled pf cl s)" for r
    proof (cases r)
      case None
      then show ?thesis
        using runs_overrule [OF inv] by (simp add: invalid_def)
    next
      case (Some w)
      obtain rule_id hashes summary dag_tip where w: "w = (rule_id, hashes, summary, dag_tip)"
        by (cases w)
      show ?thesis
      proof (cases "first_violation (ss_dag s) (ss_cycle_counter s) rule_id hashes")
        case None
        then show ?thesis
          using that first_violation_None [OF None] unfolding \<open>r = Some w\<close> w by (simp add: staged)
      next
        case (Some reason)
        then show ?thesis
          using runs_overrule [OF inv] unfolding \<open>r = Some w\<close> w by simp
      qed
    qed
    moreover have "decode_compression_witness_minimal bs \<noteq> Err e" for e :: substrate_error
      unfolding decode_compression_witness_minimal_def by (rule quiet)
    ultimately have "runs (bind_act (lift_act (decode_compression_witness_minimal bs)) ?F) s (ruled pf cl s)"
      by (rule step)
    then show ?thesis
      unfolding runs_def check_compression_def .
  qed
  show ?thesis
  proof (cases "cl_accepted cl")
    case False
    then show ?thesis
      using refl by (simp add: rule_on_def runs_def return_act_def ruled_def)
  next
    case True
    show ?thesis
    proof (cases "cl_migration cl \<and> ss_migration_candidate s \<noteq> None")
      case True
      then obtain c where "ss_migration_candidate s = Some c"
        by blast
      then show ?thesis
        using runs_overrule [OF inv] True \<open>cl_accepted cl\<close>
        by (simp add: rule_on_def runs_def check_in_flight_def Let_def)
    next
      case False
      then have none: "cl_migration cl \<longrightarrow> ss_migration_candidate s = None"
        by simp
      then have "rule_on pf parse weight_ok t cl s =
          (if cl_type cl = ''set_backup_encryption_status'' then check_status pf t (cl_content cl)
           else if cl_type cl = ''owner_objective_declaration''
           then check_objective pf parse weight_ok t (cl_content cl)
           else if cl_type cl = ''compression'' then check_compression pf t (cl_content cl)
           else return_act (Inr NothingStaged)) s"
        using \<open>cl_accepted cl\<close> by (cases "cl_migration cl") (simp_all add: rule_on_def)
      then show ?thesis
        using status [OF \<open>cl_accepted cl\<close> none] objective [OF \<open>cl_accepted cl\<close> none]
          compression [OF \<open>cl_accepted cl\<close> none] staged [OF \<open>cl_accepted cl\<close> _ none, of NothingStaged]
        unfolding runs_def return_act_def by (simp split: if_split)
    qed
  qed
qed


section \<open>The course of a mutation\<close>

text \<open>The record of a compression names only targets that may be compressed.\<close>

definition sound_record :: "server_state \<Rightarrow> dag_node \<Rightarrow> bool" where
  "sound_record s n \<longleftrightarrow> plain_type (node_type n) \<or>
     (\<exists>rule_id hs summary dag_tip. content n = encode_compression_event rule_id hs summary dag_tip (ss_cycle_counter s) \<and>
        (\<forall>h\<in>set hs. spared (ss_dag s) (ss_cycle_counter s) h))"

text \<open>What the log has gained: for a refused mutation signals and evolution events, for an accepted one its node first.\<close>

fun gained :: "classified \<Rightarrow> ruling \<Rightarrow> dag_node list \<Rightarrow> bool" where
  "gained cl (Inl _) ns \<longleftrightarrow> (\<forall>n\<in>set ns. immune_type (node_type n) \<or> cl_attempted cl \<and> evolution_type (node_type n))"
| "gained cl (Inr _) ns \<longleftrightarrow>
     (\<exists>n ns'. ns = n # ns' \<and> node_type n = ''mutation:'' @ cl_type cl \<and> content n = cl_content cl)"

definition stage :: "platform \<Rightarrow> classified \<Rightarrow> ruling \<Rightarrow> server_state \<Rightarrow> server_state \<Rightarrow> bool" where
  "stage pf cl v s s1 \<longleftrightarrow> server_inv pf s1 \<and> ss_cycle_counter s1 = ss_cycle_counter s \<and>
     (\<exists>ns. iter_in_insertion_order (ss_dag s1) = iter_in_insertion_order (ss_dag s) @ ns \<and>
        gained cl v ns \<and> (\<forall>n\<in>set ns. sound_record s n))"

text \<open>The types that a stage may add to what is there.\<close>

definition may_add :: "classified \<Rightarrow> ruling \<Rightarrow> string \<Rightarrow> bool" where
  "may_add cl v ty \<longleftrightarrow> plain_type ty \<and> (isl v \<longrightarrow> immune_type ty \<or> cl_attempted cl \<and> evolution_type ty)"

lemma stage_extends:
  assumes "stage pf cl v s s1" and "extends pf view (may_add cl v) s1 s2"
  shows "stage pf cl v s s2"
proof -
  obtain ns ms where ns: "iter_in_insertion_order (ss_dag s1) = iter_in_insertion_order (ss_dag s) @ ns"
      "gained cl v ns" "\<forall>n\<in>set ns. sound_record s n"
    and ms: "iter_in_insertion_order (ss_dag s2) = iter_in_insertion_order (ss_dag s1) @ ms"
      "\<forall>n\<in>set ms. may_add cl v (node_type n)"
    using assms unfolding stage_def extends_def by blast
  have "gained cl v (ns @ ms)"
    using ns(2) ms(2) by (cases v) (auto simp: may_add_def)
  moreover have "\<forall>n\<in>set (ns @ ms). sound_record s n"
    using ns(3) ms(2) by (auto simp: may_add_def sound_record_def)
  moreover have "iter_in_insertion_order (ss_dag s2) = iter_in_insertion_order (ss_dag s) @ (ns @ ms)"
    using ns(1) ms(1) by simp
  ultimately show ?thesis
    using assms unfolding stage_def extends_def by metis
qed

lemma may_add_immune: "immune_type ty \<Longrightarrow> may_add cl v ty"
  by (cases ty) (auto simp: may_add_def plain_type_def immune_type_def starts_with_def mutation_prefixes)

lemma stage_refused:
  assumes "extends pf view immune_type s s1"
  shows "stage pf cl (Inl reason) s s1"
  using assms may_add_immune by (force simp: stage_def extends_def sound_record_def may_add_def)

lemma runs_record_mutation:
  assumes inv: "server_inv pf s1" and v: "\<And>x. v = Inr x \<Longrightarrow> s1 = s"
    and e: "extends pf declared immune_type s s1"
  shows "runs (record_mutation pf t cl v) s1 (\<lambda>r s2. declared s2 = declared s \<and>
    (case r of Err e \<Rightarrow> s2 = s | _ \<Rightarrow> stage pf cl v s s2))"
proof (cases v)
  case (Inl reason)
  have "runs (ignore_act (case refusal_detector (cl_classification cl) of (did, name) \<Rightarrow>
      emit_immune_sporocarp pf t did name ev)) s1
      (\<lambda>r s2. extends pf declared immune_type s1 s2 \<and> (\<forall>e. r \<noteq> Err e))" for ev
    using runs_signal [OF inv] by (simp split: prod.split)
  then show ?thesis
    unfolding record_mutation_def Inl sum.case
  proof (rule runs_bind)
    fix a s2
    assume "extends pf declared immune_type s1 s2 \<and> (\<forall>e. Ok a \<noteq> Err e)"
    then have "extends pf declared immune_type s s2"
      using extends_trans [OF e] by blast
    then show "runs (return_act None) s2 (\<lambda>r s2. declared s2 = declared s \<and>
        (case r of Err e \<Rightarrow> s2 = s | _ \<Rightarrow> stage pf cl (Inl reason) s s2))"
      using stage_refused extends_view by fastforce
  next
    fix x s2
    assume "extends pf declared immune_type s1 s2 \<and> (\<forall>e. Abort x \<noteq> Err e)"
    then have "extends pf declared immune_type s s2"
      using extends_trans [OF e] by blast
    then show "declared s2 = declared s \<and> (case Abort x of Err e \<Rightarrow> s2 = s | _ \<Rightarrow> stage pf cl (Inl reason) s s2)"
      using stage_refused extends_view by fastforce
  qed simp
next
  case (Inr x)
  let ?ty = "''mutation:'' @ cl_type cl"
  have s1: "s1 = s"
    using v [OF Inr] .
  have "runs (log_node pf ''mutation DAG insert'' ?ty (cl_content cl)) s1
    (\<lambda>r s2. declared s2 = declared s \<and> (case r of Err e \<Rightarrow> s2 = s | _ \<Rightarrow> stage pf cl v s s2))"
    using inv mutation_not_family(1) [of "cl_type cl"]
  proof (cases rule: log_node_cases [where what = "''mutation DAG insert''" and c = "cl_content cl"])
    case (logged s2 n)
    have "declared s2 = declared s" "ss_cycle_counter s2 = ss_cycle_counter s"
      by (subst logged(4), simp add: s1 declared_def)+
    moreover have "stage pf cl v s s2"
      unfolding stage_def using logged(3,5) calculation(2)
      by (intro conjI exI [of _ "[n]"])
        (simp_all add: Inr s1 logged(2) node_over_def sound_record_def plain_type_def starts_with_def mutation_prefixes)
    ultimately show ?thesis
      unfolding runs_def logged(1) by simp
  qed (simp add: runs_def s1)
  then show ?thesis
    unfolding record_mutation_def Inr sum.case by (rule runs_bind) auto
qed


lemma stage_node:
  assumes st: "stage pf cl (Inr x) s s2" and inv: "server_inv pf s3" and cyc: "ss_cycle_counter s3 = ss_cycle_counter s2"
    and log: "iter_in_insertion_order (ss_dag s3) = iter_in_insertion_order (ss_dag s2) @ [n]" and n: "sound_record s n"
  shows "stage pf cl (Inr x) s s3"
proof -
  obtain m ns where ns: "iter_in_insertion_order (ss_dag s2) = iter_in_insertion_order (ss_dag s) @ m # ns"
      "node_type m = ''mutation:'' @ cl_type cl" "content m = cl_content cl" "\<forall>n\<in>set (m # ns). sound_record s n"
    using st by (auto simp: stage_def)
  then have "gained cl (Inr x) (m # ns @ [n])"
    by simp
  then show ?thesis
    using st inv cyc log n ns unfolding stage_def
    by (intro conjI exI [of _ "m # ns @ [n]"]) auto
qed

lemma candidate_ignores [simp]: "ignores_log ss_migration_candidate"
  by (simp add: ignores_log_def)

lemma may_add_plain: "plain_type ty \<Longrightarrow> may_add cl (Inr x) ty"
  by (simp add: may_add_def)

lemma stage_grows:
  assumes "stage pf cl v s s2" and "grows_by pf view (may_add cl v) m"
  shows "runs m s2 (\<lambda>_ s3. stage pf cl v s s3 \<and> view s3 = view s2)"
proof -
  have "extends pf view (may_add cl v) s2 (fst (m s2))"
    using assms by (auto simp: stage_def grows_by_def)
  then show ?thesis
    using stage_extends [OF assms(1)] by (simp add: runs_def extends_def)
qed

lemma runs_apply_staged:
  assumes st: "stage pf cl v s s2" and ok: "\<And>x. v = Inr x \<Longrightarrow> staged_ok s x"
  shows "runs (apply_staged pf v) s2 (\<lambda>_ s3. stage pf cl v s s3 \<and>
    ss_migration_candidate s3 = ss_migration_candidate s2 \<and> (isl v \<longrightarrow> s3 = s2))"
proof (cases v)
  case (Inl reason)
  then show ?thesis
    using st by (simp add: apply_staged_def runs_def return_act_def)
next
  case (Inr x)
  have quiet: ?thesis if "apply_staged pf v s2 = m s2" "grows_by pf ss_migration_candidate (may_add cl v) m" for m
    using stage_grows [OF st that(2)] unfolding runs_def that(1) by (simp add: Inr)
  show ?thesis
  proof (cases x)
    case NothingStaged
    then show ?thesis
      by (intro quiet [of "return_act None"]) (simp_all add: apply_staged_def Inr grows_return)
  next
    case (StatusStaged status key_id)
    show ?thesis
      by (rule quiet, simp add: apply_staged_def Inr StatusStaged)
        (intro grows_intros grows_modify may_add_plain plain_types mutation_not_family; simp add: Inr may_add_plain)
  next
    case (ObjectiveStaged ob)
    show ?thesis
      by (rule quiet, simp add: apply_staged_def Inr ObjectiveStaged)
        (intro grows_intros grows_modify may_add_plain plain_types mutation_not_family; simp add: Inr may_add_plain)
  next
    case (CompressionStaged rule_id hs summary dag_tip)
    let ?c = "encode_compression_event rule_id hs summary dag_tip (ss_cycle_counter s2)"
    have inv: "server_inv pf s2" and cyc: "ss_cycle_counter s2 = ss_cycle_counter s"
      using st by (simp_all add: stage_def)
    have "runs (log_node pf ''compression event DAG insert'' (compression_event_node_type rule_id) ?c) s2
      (\<lambda>_ s3. stage pf cl v s s3 \<and> ss_migration_candidate s3 = ss_migration_candidate s2)"
      using inv mutation_not_family(4) [of rule_id]
    proof (cases rule: log_node_cases [where what = "''compression event DAG insert''" and c = ?c])
      case (failed e)
      then show ?thesis
        using st by (simp add: runs_def)
    next
      case (logged s3 n)
      have "ss_cycle_counter s3 = ss_cycle_counter s2" "ss_migration_candidate s3 = ss_migration_candidate s2"
        by (subst logged(4), simp)+
      moreover have "content n = encode_compression_event rule_id hs summary dag_tip (ss_cycle_counter s)"
        by (simp add: logged(2) node_over_def cyc)
      then have "sound_record s n"
        using ok [OF Inr] unfolding sound_record_def CompressionStaged staged_ok.simps by blast
      ultimately show ?thesis
        using stage_node [OF st [unfolded Inr] logged(3) _ logged(5)] by (simp add: runs_def logged(1) Inr)
    qed
    then have "runs (bind_act (log_node pf ''compression event DAG insert'' (compression_event_node_type rule_id) ?c)
        (\<lambda>h. return_act (Some h))) s2
      (\<lambda>_ s3. stage pf cl v s s3 \<and> ss_migration_candidate s3 = ss_migration_candidate s2 \<and> (isl v \<longrightarrow> s3 = s2))"
      by (rule runs_bind) (simp_all add: Inr)
    then show ?thesis
      by (simp add: runs_def apply_staged_def Inr CompressionStaged)
  qed
qed

lemma grows_record_evolution: "grows_by pf declared (may_add cl v) (record_evolution pf cl)"
proof (cases "cl_attempted cl")
  case True
  have "may_add cl v ((if cl_succeeded cl then ''evolution_succeeded:'' else ''evolution_failed:'') @ cl_op cl)"
    using True by (simp add: may_add_def plain_type_def evolution_type_def starts_with_def mutation_prefixes)
  moreover have "\<not> is_cultivation_family_node_type
      ((if cl_succeeded cl then ''evolution_succeeded:'' else ''evolution_failed:'') @ cl_op cl)"
    using mutation_not_family(2,3) [of "cl_op cl"] by (cases "cl_succeeded cl") auto
  ultimately show ?thesis
    using True unfolding record_evolution_def by (simp only: if_True) (intro grows_intros declared_ignores)
qed (simp add: record_evolution_def grows_return)


lemma view_log_node: "ignores_log view \<Longrightarrow> view (fst (log_node pf what ty c s)) = view s"
  by (simp add: log_node_def view_insert)

text \<open>The candidate of a migration that a mutation opens.\<close>

definition opened :: "nat option \<Rightarrow> classified \<Rightarrow> server_state \<Rightarrow> candidate_state" where
  "opened since_epoch cl s = enter_validating (ss_cycle_counter s)
     (candidate_new since_epoch (cl_content cl) (cl_op cl) (ss_cycle_counter s) DEFAULT_DUAL_VALIDATION_WINDOW_CYCLES)"

definition opens :: "classified \<Rightarrow> ruling \<Rightarrow> bool" where
  "opens cl v \<longleftrightarrow> \<not> isl v \<and> cl_migration cl \<and> cl_built cl"

lemma grows_start_migration: "grows_by pf (\<lambda>_. ()) plain_type (start_migration pf since_epoch cl)"
proof (rule grows_cong)
  fix s
  show "\<exists>m. m s = start_migration pf since_epoch cl s \<and> grows_by pf (\<lambda>_. ()) plain_type m"
    unfolding start_migration_def Let_def
    by (rule exI, rule conjI, rule HOL.refl)
      (intro grows_intros grows_modify unit_ignores plain_types mutation_not_family; simp)
qed

lemma grows_build_failed: "grows_by pf declared plain_type (build_failed pf cl)"
proof (rule grows_cong)
  fix s
  show "\<exists>m. m s = build_failed pf cl s \<and> grows_by pf declared plain_type m"
    unfolding build_failed_def
    by (rule exI, rule conjI, rule HOL.refl)
      (intro grows_intros declared_ignores plain_types mutation_not_family)
qed

lemma stage_candidate:
  assumes st: "stage pf cl (Inr x) s s2" and m: "grows_by pf (\<lambda>_. ()) plain_type m"
  shows "stage pf cl (Inr x) s (fst (m s2))"
proof -
  have "extends pf (\<lambda>_. ()) plain_type s2 (fst (m s2))"
    using st m by (auto simp: stage_def grows_by_def)
  then show ?thesis
    by (rule stage_extends [OF st extends_mono]) (simp add: may_add_plain)
qed

lemma grows_unit: "grows_by pf view T m \<Longrightarrow> grows_by pf (\<lambda>_. ()) T m"
  by (auto simp: grows_by_def extends_def)

lemma runs_open_migration:
  assumes st: "stage pf cl v s s2"
  shows "runs (open_migration pf since_epoch cl v) s2 (\<lambda>_ s3. stage pf cl v s s3 \<and>
    (if opens cl v then ss_migration_candidate s3 = Some (opened since_epoch cl s) else declared s3 = declared s2))"
    (is "runs _ _ (\<lambda>_ s3. ?Q s3)")
proof (cases "\<not> isl v \<and> cl_migration cl")
  case True
  then obtain x where v: "v = Inr x"
    by (cases v) auto
  have cyc: "ss_cycle_counter s2 = ss_cycle_counter s" and inv: "server_inv pf s2"
    using st by (simp_all add: stage_def)
  show ?thesis
  proof (cases "cl_built cl")
    case built: True
    have "ss_migration_candidate (fst (start_migration pf since_epoch cl s2)) = Some (opened since_epoch cl s)"
      using cyc by (simp add: start_migration_def Let_def bind_act_def modify_act_def view_log_node opened_def)
    then have "runs (start_migration pf since_epoch cl) s2 (\<lambda>_ s3. ?Q s3)"
      using stage_candidate [OF st [unfolded v] grows_start_migration] True built
      by (simp add: runs_def opens_def v)
    then have "runs (bind_act (start_migration pf since_epoch cl) (\<lambda>h. return_act (Some h, None))) s2 (\<lambda>_ s3. ?Q s3)"
      by (rule runs_bind) simp_all
    then show ?thesis
      using True built by (simp add: open_migration_def)
  next
    case False
    have "declared (fst (build_failed pf cl s2)) = declared s2"
      using grows_build_failed inv by (simp add: grows_by_def extends_def)
    then have "runs (build_failed pf cl) s2 (\<lambda>_ s3. ?Q s3)"
      using stage_candidate [OF st [unfolded v] grows_unit [OF grows_build_failed]] False
      by (simp add: runs_def opens_def v)
    then have "runs (bind_act (build_failed pf cl) (\<lambda>h. return_act (None, Some h))) s2 (\<lambda>_ s3. ?Q s3)"
      by (rule runs_bind) simp_all
    then show ?thesis
      using True False by (simp add: open_migration_def)
  qed
next
  case False
  then show ?thesis
    using st by (auto simp: open_migration_def opens_def)
qed

text \<open>An action that leaves the candidate or drops it.\<close>

definition only_forgets :: "'a action \<Rightarrow> bool" where
  "only_forgets m \<longleftrightarrow> (\<forall>s. ss_migration_candidate (fst (m s)) \<in> {ss_migration_candidate s, None})"

lemma only_forgets_bind:
  assumes "only_forgets m" and "\<And>a. only_forgets (f a)"
  shows "only_forgets (bind_act m f)"
  unfolding only_forgets_def
proof
  fix s
  show "ss_migration_candidate (fst (bind_act m f s)) \<in> {ss_migration_candidate s, None}"
  proof (cases "m s")
    case (Pair s1 r)
    then have "ss_migration_candidate s1 \<in> {ss_migration_candidate s, None}"
      using assms(1) unfolding only_forgets_def by (metis fst_conv)
    moreover have "ss_migration_candidate (fst (f a s1)) \<in> {ss_migration_candidate s1, None}" for a
      using assms(2) unfolding only_forgets_def by blast
    then have "ss_migration_candidate (fst (f a s1)) \<in> {ss_migration_candidate s, None}" for a
      using calculation by (metis empty_iff insert_iff)
    ultimately show ?thesis
      by (cases r) (simp_all add: bind_act_def Pair)
  qed
qed

lemma only_forgets_or_else:
  assumes "only_forgets m" and "\<And>e. only_forgets (h e)"
  shows "only_forgets (or_else_act m h)"
  unfolding only_forgets_def
proof
  fix s
  show "ss_migration_candidate (fst (or_else_act m h s)) \<in> {ss_migration_candidate s, None}"
  proof (cases "m s")
    case (Pair s1 r)
    then have m: "ss_migration_candidate s1 \<in> {ss_migration_candidate s, None}"
      using assms(1) unfolding only_forgets_def by (metis fst_conv)
    have "ss_migration_candidate (fst (h e s1)) \<in> {ss_migration_candidate s1, None}" for e
      using assms(2) unfolding only_forgets_def by blast
    then have "ss_migration_candidate (fst (h e s1)) \<in> {ss_migration_candidate s, None}" for e
      using m by (metis empty_iff insert_iff)
    then show ?thesis
      using m by (cases r) (simp_all add: or_else_act_def Pair)
  qed
qed

lemma only_forgets_simple:
  "only_forgets (return_act a)" "only_forgets (lift_act r)" "only_forgets forget_candidate"
  "only_forgets (ignore_act (emit_substrate_event pf ty c))"
  "only_forgets (ignore_act (emit_immune_sporocarp pf t did name ev))"
  by (simp_all add: only_forgets_def return_act_def lift_act_def forget_candidate_def modify_act_def view_emit)

lemma rolling_back:
  "only_forgets (roll_back pf now python saved what opn reason current)"
  "grows_by pf (\<lambda>_. ()) plain_type (roll_back pf now python saved what opn reason current)"
proof -
  have signal: "grows_by pf (\<lambda>_. ()) plain_type (step_failed_signal pf now ev)" for ev
    unfolding step_failed_signal_def by (intro grows_intros unit_ignores plain_types)
  have tell: "only_forgets (tell_worker pf now python ty what)"
      "grows_by pf (\<lambda>_. ()) plain_type (tell_worker pf now python ty what)" for ty
    unfolding tell_worker_def
    by (cases "send_migration_terminal python ty"; simp add: only_forgets_simple step_failed_signal_def)
      (cases "send_migration_terminal python ty"; simp add: grows_return grows_lift signal)
  show "only_forgets (roll_back pf now python saved what opn reason current)"
    unfolding roll_back_def emit_legacy_evolution_event_def
    by (intro only_forgets_bind only_forgets_simple tell)
  have "plain_type ((if False then ''evolution_succeeded:'' else ''evolution_failed:'') @ opn)"
    by (simp add: plain_type_def starts_with_def mutation_prefixes)
  then show "grows_by pf (\<lambda>_. ()) plain_type (roll_back pf now python saved what opn reason current)"
    unfolding roll_back_def emit_legacy_evolution_event_def forget_candidate_def
    by (intro grows_intros grows_modify unit_ignores plain_types tell; simp)
qed


lemma runs_abort_on_request:
  assumes st: "stage pf cl v s s2"
  shows "runs (abort_on_request pf now python saved cl v) s2 (\<lambda>_ s3. stage pf cl v s s3 \<and>
    (if \<not> isl v \<and> cl_type cl = ''abort_migration''
     then ss_migration_candidate s3 \<in> {ss_migration_candidate s2, None} else s3 = s2))"
proof (cases "\<not> isl v \<and> cl_type cl = ''abort_migration''")
  case True
  then obtain x where v: "v = Inr x"
    by (cases v) auto
  show ?thesis
  proof (cases "ss_migration_candidate s2")
    case None
    then show ?thesis
      using st by (simp add: abort_on_request_def runs_def return_act_def)
  next
    case (Some c)
    let ?m = "or_else_act (roll_back pf now python saved (''force_migration_rollback abort_migration (op='' @ op_name c @
        '') failed: '') (op_name c) operator_abort_reason (ss_cycle_counter s2))
      (\<lambda>e. step_failed_signal pf now (''operator abort_migration (op='' @ op_name c @ '') failed: '' @ substrate_display e))"
    have run: "abort_on_request pf now python saved cl v s2 = ?m s2"
      using True Some by (simp add: abort_on_request_def force_migration_rollback_def or_else_act_def)
    have "grows_by pf (\<lambda>_. ()) plain_type ?m"
      unfolding step_failed_signal_def by (intro grows_intros rolling_back(2) unit_ignores plain_types)
    then have "stage pf cl v s (fst (?m s2))"
      unfolding v by (rule stage_candidate [OF st [unfolded v]])
    moreover have "only_forgets ?m"
      unfolding step_failed_signal_def by (intro only_forgets_or_else rolling_back(1) only_forgets_simple)
    ultimately show ?thesis
      using True unfolding runs_def run by (simp add: only_forgets_def)
  qed
next
  case False
  then show ?thesis
    using st by (auto simp: abort_on_request_def runs_def return_act_def)
qed

definition sound_log :: "platform \<Rightarrow> server_state \<Rightarrow> server_state \<Rightarrow> bool" where
  "sound_log pf s s' \<longleftrightarrow> server_inv pf s' \<and>
     (\<exists>ns. iter_in_insertion_order (ss_dag s') = iter_in_insertion_order (ss_dag s) @ ns \<and>
        (\<forall>n\<in>set ns. sound_record s n))"

lemma sound_immune: "extends pf view immune_type s s' \<Longrightarrow> sound_log pf s s'"
  using may_add_immune [of _ undefined "Inr undefined"] unfolding sound_log_def extends_def sound_record_def may_add_def
  by blast

lemma stage_sound: "stage pf cl v s s1 \<Longrightarrow> sound_log pf s s1"
  unfolding stage_def sound_log_def by blast

text \<open>What the whole of it does, whether it answers, fails or panics.\<close>

definition course ::
    "platform \<Rightarrow> nat option \<Rightarrow> message \<Rightarrow> classified \<Rightarrow> server_state \<Rightarrow>
      (message option, substrate_error) result \<Rightarrow> server_state \<Rightarrow> bool" where
  "course pf since_epoch request cl s r s' \<longleftrightarrow>
     sound_log pf s s' \<and>
     (ss_migration_candidate s' = ss_migration_candidate s \<or>
        cl_accepted cl \<and> cl_type cl = ''abort_migration'' \<and> ss_migration_candidate s' = None \<or>
        cl_accepted cl \<and> cl_migration cl \<and> cl_built cl \<and> ss_migration_candidate s = None \<and>
          ss_migration_candidate s' = Some (opened since_epoch cl s)) \<and>
     (\<forall>a. r = Ok a \<longrightarrow> (\<exists>v node compression evolution migration.
        a = response MSG_SUBMIT_MUTATION_RESPONSE request (mutation_fields cl v node compression evolution migration) \<and>
        stage pf cl v s s' \<and> (isl v \<longrightarrow> declared s' = declared s) \<and> (\<not> isl v \<longrightarrow> cl_accepted cl)))"

text \<open>Where it may stand between two stages: the state so far, and whether the candidate was touched.\<close>

definition midway ::
    "platform \<Rightarrow> classified \<Rightarrow> ruling \<Rightarrow> server_state \<Rightarrow> server_state \<Rightarrow> bool" where
  "midway pf cl v s s1 \<longleftrightarrow> stage pf cl v s s1 \<and> (isl v \<longrightarrow> declared s1 = declared s) \<and>
     ss_migration_candidate s1 = ss_migration_candidate s \<and>
     (\<not> isl v \<longrightarrow> cl_accepted cl \<and> (cl_migration cl \<longrightarrow> ss_migration_candidate s = None))"

lemma midway_course:
  assumes "midway pf cl v s s1" and "\<And>a. r \<noteq> Ok a"
  shows "course pf since_epoch request cl s r s1"
  unfolding course_def using assms(2) assms(1) [unfolded midway_def] stage_sound [of pf cl v s s1] by simp

lemma runs_midway:
  assumes "runs m s1 (\<lambda>_ s2. midway pf cl v s s2)"
    and "\<And>a s2. midway pf cl v s s2 \<Longrightarrow> runs (f a) s2 (course pf since_epoch request cl s)"
  shows "runs (bind_act m f) s1 (course pf since_epoch request cl s)"
  using assms(1) by (rule runs_bind) (use assms(2) midway_course in auto)

lemma midway_apply_staged:
  "midway pf cl v s s1 \<Longrightarrow> (\<And>x. v = Inr x \<Longrightarrow> staged_ok s x) \<Longrightarrow>
    runs (apply_staged pf v) s1 (\<lambda>_ s2. midway pf cl v s s2)"
  unfolding midway_def by (rule runs_mono [OF runs_apply_staged]) auto

lemma midway_evolution:
  "midway pf cl v s s1 \<Longrightarrow> runs (record_evolution pf cl) s1 (\<lambda>_ s2. midway pf cl v s s2)"
  unfolding midway_def by (rule runs_mono [OF stage_grows [OF _ grows_record_evolution]]) (auto simp: declared_def)

text \<open>The two last stages, which alone may touch the candidate.\<close>

lemma runs_last_stages:
  assumes m: "midway pf cl v s s1"
  shows "runs (bind_act (open_migration pf since_epoch cl v) (\<lambda>migration.
      bind_act (abort_on_request pf now python saved cl v) (\<lambda>_. return_act (response MSG_SUBMIT_MUTATION_RESPONSE request
        (mutation_fields cl v node compression evolution migration))))) s1 (course pf since_epoch request cl s)"
proof -
  let ?moved = "\<lambda>s'. ss_migration_candidate s' = ss_migration_candidate s \<or>
      cl_accepted cl \<and> cl_type cl = ''abort_migration'' \<and> ss_migration_candidate s' = None \<or>
      cl_accepted cl \<and> cl_migration cl \<and> cl_built cl \<and> ss_migration_candidate s = None \<and>
        ss_migration_candidate s' = Some (opened since_epoch cl s)"
  let ?R = "\<lambda>s'. stage pf cl v s s' \<and> ?moved s' \<and> (isl v \<longrightarrow> declared s' = declared s) \<and> (\<not> isl v \<longrightarrow> cl_accepted cl)"
  have failing: "course pf since_epoch request cl s r s'" if "?R s'" "\<And>a. r \<noteq> Ok a" for r s'
    unfolding course_def using that stage_sound [of pf cl v s s'] by simp
  have answering: "course pf since_epoch request cl s (Ok (response MSG_SUBMIT_MUTATION_RESPONSE request
      (mutation_fields cl v node compression evolution migration))) s'" if "?R s'" for migration s'
    unfolding course_def using that stage_sound by (intro conjI) blast+
  have opened_R: "runs (open_migration pf since_epoch cl v) s1 (\<lambda>_ s2. ?R s2)"
    using m unfolding midway_def
    by (intro runs_mono [OF runs_open_migration]) (auto simp: opens_def declared_def split: if_splits)
  have aborted_R: "runs (abort_on_request pf now python saved cl v) s2 (\<lambda>_ s3. ?R s3)" if "?R s2" for s2
    using that by (intro runs_mono [OF runs_abort_on_request [of pf cl v s s2]]) (auto split: if_splits)
  show ?thesis
  proof (rule runs_bind [OF opened_R])
    fix migration s2
    assume "?R s2"
    then show "runs (bind_act (abort_on_request pf now python saved cl v) (\<lambda>_. return_act
        (response MSG_SUBMIT_MUTATION_RESPONSE request (mutation_fields cl v node compression evolution migration)))) s2
        (course pf since_epoch request cl s)"
    proof (rule runs_bind [OF aborted_R])
      fix u s3
      assume "?R s3"
      then show "runs (return_act (response MSG_SUBMIT_MUTATION_RESPONSE request
          (mutation_fields cl v node compression evolution migration))) s3 (course pf since_epoch request cl s)"
        unfolding runs_return by (rule answering)
    qed (rule failing; simp)+
  qed (rule failing; simp)+
qed

lemma runs_carry_out:
  assumes inv: "server_inv pf s"
  shows "runs (carry_out pf parse weight_ok t1 t2 now since_epoch python saved request cl) s
    (course pf since_epoch request cl s)"
  unfolding carry_out_def
proof (rule runs_bind [OF runs_rule_on [OF inv]])
  fix v s1
  assume ruled: "ruled pf cl s (Ok v) s1"
  have inv1: "server_inv pf s1" and e: "extends pf declared immune_type s s1"
    using ruled by (simp_all add: ruled_def extends_def)
  have accepted: "\<not> isl v \<longrightarrow> cl_accepted cl \<and> (cl_migration cl \<longrightarrow> ss_migration_candidate s = None)"
    using ruled by (cases v) (auto simp: ruled_def)
  have ok: "staged_ok s x" "s1 = s" if "v = Inr x" for x
    using ruled that by (auto simp: ruled_def)
  note tail = runs_midway [OF midway_apply_staged runs_midway [OF midway_evolution runs_last_stages]]
  show "runs (bind_act (record_mutation pf t2 cl v) (\<lambda>node. bind_act (apply_staged pf v) (\<lambda>compression.
      bind_act (record_evolution pf cl) (\<lambda>evolution. bind_act (open_migration pf since_epoch cl v) (\<lambda>migration.
      bind_act (abort_on_request pf now python saved cl v) (\<lambda>_. return_act (response MSG_SUBMIT_MUTATION_RESPONSE
        request (mutation_fields cl v node compression evolution migration)))))))) s1
      (\<lambda>r. course pf since_epoch request cl s r)"
    by (rule runs_bind [OF runs_record_mutation [OF inv1 ok(2) e]])
      (use accepted ok(1) sound_immune [OF extends_refl [OF inv]] in
        \<open>auto intro!: tail midway_course simp: midway_def declared_def course_def stage_sound\<close>)
qed (auto simp: ruled_def course_def sound_immune declared_def dest: extends_view)


lemma handle_course:
  assumes inv: "server_inv pf s" and run: "handle_submit_mutation pf parse weight_ok t1 t2 now since_epoch python saved request s = (s', r)"
  obtains (skin) ty reason where "extends pf declared immune_type s s'" "r = Ok (covenant_violation request ty reason)"
  | (unanswered) "s' = s" "\<And>a. r \<noteq> Ok a"
  | (answered) cl where "ask_classifier python request = Ok cl" "course pf since_epoch request cl s r s'"
proof -
  let ?ty = "text_field (msg_payload request) ''mutation_type'' []"
  have refused: thesis if "refuse_at_skin pf t1 request ?ty did name ev reason s = (s', r)" for did name ev reason
  proof -
    have "runs (refuse_at_skin pf t1 request ?ty did name ev reason) s
      (\<lambda>r s'. extends pf declared immune_type s s' \<and> (r = Ok (covenant_violation request ?ty reason) \<or> (\<exists>x. r = Abort x)))"
      unfolding refuse_at_skin_def by (rule runs_bind [OF runs_signal [OF inv]]) auto
    moreover have "r \<noteq> Abort x" for x
      using that signal_Ok [OF inv] unfolding refuse_at_skin_def bind_act_def return_act_def
      by (auto split: prod.splits result.splits) (metis result.distinct(3) snd_conv)
    ultimately show ?thesis
      using skin that by (auto simp: runs_def)
  qed
  show thesis
  proof (cases "is_cultivator_preserve_all_attempt ?ty \<or> is_cultivation_orphaned_suppression_attempt ?ty")
    case True
    then show ?thesis
      using run refused by (auto simp: handle_submit_mutation_def Let_def split: if_splits)
  next
    case False
    then have go: "bind_act (lift_act (ask_classifier python request))
        (carry_out pf parse weight_ok t1 t2 now since_epoch python saved request) s = (s', r)"
      using run by (simp add: handle_submit_mutation_def Let_def)
    show ?thesis
    proof (cases "ask_classifier python request")
      case (Ok cl)
      then show ?thesis
        using go runs_carry_out [OF inv, of parse weight_ok t1 t2 now since_epoch python saved request cl]
        by (intro answered) (simp_all add: runs_def bind_act_def lift_act_def)
    qed (use go unanswered in \<open>auto simp: bind_act_def lift_act_def\<close>)
  qed
qed


section \<open>The rules\<close>


definition migration_answer :: "string \<Rightarrow> vmap \<Rightarrow> (message, bridge_error) result" where
  "migration_answer ty payload = Ok (new_message MSG_SUBMIT_MUTATION_RESPONSE 1 (bt_of
     [(''classification'', VString ''contract_identity_level''), (''accepted'', VBool True),
      (''mutation_type'', VString ''schema_evolution''), (''migration_mode'', VBool True),
      (''candidate_built'', VBool True)]))"

definition plain_submission :: message where
  "plain_submission = new_message MSG_SUBMIT_MUTATION 1 empty_payload"


text \<open>
  C35. One migration at a time. A submission leaves the migration in flight as it is, except that an
  accepted \<^verbatim>\<open>abort_migration\<close> may end it, and that, when none is in flight, an accepted migration whose
  candidate the worker built opens one: in validation, from the current cycle, over the default window.
\<close>

theorem one_migration_at_a_time:
  assumes "server_inv pf s"
    and "handle_submit_mutation pf parse weight_ok t1 t2 now since_epoch python saved request s = (s', r)"
  shows "ss_migration_candidate s' = ss_migration_candidate s \<or>
    (\<exists>cl. ask_classifier python request = Ok cl \<and> cl_accepted cl \<and>
      (cl_type cl = ''abort_migration'' \<and> ss_migration_candidate s' = None \<or>
       cl_migration cl \<and> cl_built cl \<and> ss_migration_candidate s = None \<and>
         (\<exists>c. ss_migration_candidate s' = Some c \<and> phase c = Validating \<and> op_name c = cl_op cl \<and>
            schema_diff_canonical_bytes c = cl_content cl \<and> started_at_cycle c = ss_cycle_counter s \<and>
            dual_validation_window_cycles c = 100)))"
  using assms
proof (cases rule: handle_course)
  case (skin ty reason)
  then have "declared s' = declared s"
    by (simp add: extends_def)
  then show ?thesis
    by (simp add: declared_def)
next
  case (answered cl)
  then show ?thesis
    unfolding course_def
    by (auto simp: opened_def enter_validating_def candidate_new_def DEFAULT_DUAL_VALIDATION_WINDOW_CYCLES_def)
qed simp

lemma one_migration_at_a_time_witness:
  "ss_migration_candidate (fst (handle_submit_mutation chain_platform Some (\<lambda>_. True) 0 0 (\<lambda>_. 0) None
     (Some migration_answer) (Ok ()) plain_submission migrating)) = ss_migration_candidate migrating"
proof -
  have inv: "server_inv chain_platform migrating"
    using server_inv_blank by (simp add: server_inv_def migrating_def)
  obtain s' r where run: "handle_submit_mutation chain_platform Some (\<lambda>_. True) 0 0 (\<lambda>_. 0) None (Some migration_answer)
      (Ok ()) plain_submission migrating = (s', r)"
    by fastforce
  have "cl_type cl \<noteq> ''abort_migration''" if "ask_classifier (Some migration_answer) plain_submission = Ok cl" for cl
    using that by (auto simp: ask_classifier_def migration_answer_def new_message_def read_classified_def text_field_def
        bt_get_of)
  moreover have "ss_migration_candidate migrating \<noteq> None"
    by (simp add: migrating_def)
  ultimately show ?thesis
    using one_migration_at_a_time [OF inv run] run by auto
qed

text \<open>
  C6. An answer is honest about acceptance. When it says that the mutation was accepted, the worker
  accepted it and the first node that the log gained is the mutation, with the content that the worker
  answered; when it does not, no migration, no backup status and no objective changed, and the log gained
  immune signals only, and the outcome of a schema change if the worker reports that it attempted one.
\<close>

theorem acceptance_is_honest:
  assumes "server_inv pf s"
    and "handle_submit_mutation pf parse weight_ok t1 t2 now since_epoch python saved request s = (s', Ok (Some m))"
  shows "\<exists>ns. iter_in_insertion_order (ss_dag s') = iter_in_insertion_order (ss_dag s) @ ns \<and>
    (if flag_field (msg_payload m) ''accepted''
     then \<exists>cl n ns'. ask_classifier python request = Ok cl \<and> cl_accepted cl \<and> ns = n # ns' \<and>
       node_type n = ''mutation:'' @ cl_type cl \<and> content n = cl_content cl
     else ss_migration_candidate s' = ss_migration_candidate s \<and>
       ss_backup_encryption_status s' = ss_backup_encryption_status s \<and>
       ss_owner_objective s' = ss_owner_objective s \<and>
       (\<forall>n\<in>set ns. starts_with (node_type n) ''immune:'' \<or>
          (\<exists>cl. ask_classifier python request = Ok cl \<and> cl_attempted cl) \<and>
          (starts_with (node_type n) ''evolution_succeeded:'' \<or> starts_with (node_type n) ''evolution_failed:'')))"
  using assms
proof (cases rule: handle_course)
  case (skin ty reason)
  then have "\<not> flag_field (msg_payload m) ''accepted''"
    by (simp add: covenant_violation_def response_def new_message_def flag_field_def bt_get_of)
  then show ?thesis
    using skin(1) by (auto simp: extends_def declared_def immune_type_def)
next
  case (answered cl)
  from answered(2) have "\<exists>v node compression evolution migration.
      Some m = response MSG_SUBMIT_MUTATION_RESPONSE request (mutation_fields cl v node compression evolution migration) \<and>
      stage pf cl v s s' \<and> (isl v \<longrightarrow> declared s' = declared s) \<and> (\<not> isl v \<longrightarrow> cl_accepted cl)"
    unfolding course_def by simp
  then obtain v node compression evolution migration where
    m: "Some m = response MSG_SUBMIT_MUTATION_RESPONSE request (mutation_fields cl v node compression evolution migration)"
    and st: "stage pf cl v s s'" and v: "isl v \<longrightarrow> declared s' = declared s" "\<not> isl v \<longrightarrow> cl_accepted cl"
    by blast
  have "flag_field (msg_payload m) ''accepted'' \<longleftrightarrow> \<not> isl v"
    using m by (auto simp: response_def new_message_def flag_field_def bt_get_of mutation_fields_def hash_field_def
        split: option.split)
  then show ?thesis
    using st v answered(1) unfolding stage_def
    by (cases v) (auto simp: declared_def immune_type_def evolution_type_def)
next
  case unanswered
  then show ?thesis
    by blast
qed

definition greedy_submission :: message where
  "greedy_submission = new_message MSG_SUBMIT_MUTATION 2 (bt_of [(''mutation_type'', VString ''never_prune'')])"

lemma acceptance_is_honest_witness:
  "\<exists>s' m. handle_submit_mutation chain_platform Some (\<lambda>_. True) 0 0 (\<lambda>_. 0) None None (Ok ()) greedy_submission
     blank_state = (s', Ok (Some m)) \<and> \<not> flag_field (msg_payload m) ''accepted'' \<and>
     list_all (\<lambda>n. starts_with (node_type n) ''immune:'') (iter_in_insertion_order (ss_dag s'))"
proof -
  let ?reply = "covenant_violation greedy_submission ''never_prune'' (preserve_all_reason ''never_prune'')"
  obtain m where m: "?reply = Some m" and refused: "\<not> flag_field (msg_payload m) ''accepted''"
    by (simp add: covenant_violation_def response_def new_message_def flag_field_def bt_get_of)
  have ty: "text_field (msg_payload greedy_submission) ''mutation_type'' [] = ''never_prune''"
    by (simp add: greedy_submission_def new_message_def text_field_def bt_get_of)
  have "is_cultivator_preserve_all_attempt ''never_prune''"
    by (simp add: is_cultivator_preserve_all_attempt_def FORBIDDEN_PRESERVE_ALL_MUTATION_TYPES_def)
  then have "\<exists>did name ev. handle_submit_mutation chain_platform Some (\<lambda>_. True) 0 0 (\<lambda>_. 0) None None (Ok ())
      greedy_submission blank_state =
      bind_act (ignore_act (emit_immune_sporocarp chain_platform 0 did name ev)) (\<lambda>_. return_act ?reply) blank_state"
    unfolding handle_submit_mutation_def Let_def ty refuse_at_skin_def by auto
  then have "snd (handle_submit_mutation chain_platform Some (\<lambda>_. True) 0 0 (\<lambda>_. 0) None None (Ok ())
      greedy_submission blank_state) = Ok (Some m)"
    using signal_Ok [OF server_inv_blank] m by (auto simp: bind_act_def return_act_def split: prod.split result.split)
      (metis result.distinct(1,3) snd_conv)+
  then obtain s' where run: "handle_submit_mutation chain_platform Some (\<lambda>_. True) 0 0 (\<lambda>_. 0) None None (Ok ())
      greedy_submission blank_state = (s', Ok (Some m))"
    by (metis prod.collapse)
  have "iter_in_insertion_order (ss_dag blank_state) = []"
    by (simp add: blank_state_def dag_new_def iter_in_insertion_order_def)
  moreover have "ask_classifier None greedy_submission \<noteq> Ok cl" for cl
    by (simp add: ask_classifier_def)
  ultimately show ?thesis
    using acceptance_is_honest [OF server_inv_blank run] refused run by (auto simp: list_all_iff)
qed

end
