(* ===== verification/Dag_Query.thy ===== *)
theory Dag_Query
  imports Intake_Rules
begin

text \<open>
  The operator's questions about the log, \<^verbatim>\<open>substrate/src/dag_query.rs\<close>: the recent nodes, one node
  by its hash, the index of the plates that are still standing, the intent that the worker computes,
  everything logged since a tip, and the immune events. They change nothing, except that an unknown
  tip is an immune signal.
\<close>

section \<open>Nodes as values\<close>

definition node_fields :: "dag_node \<Rightarrow> (string \<times> Value) list" where
  "node_fields n =
     [(''hash'', VBytes (arr32_bytes (node_hash n))), (''parent_hashes'', hash_values (parent_hashes n)),
      (''at_cycle'', VUint (created_at_cycle n)), (''node_type'', VString (node_type n))]"

definition node_value :: "dag_node \<Rightarrow> Value" where
  "node_value n = VMap (bt_of (node_fields n @ [(''content_canonical_bytes'', VBytes (content n))]))"

definition requested_count :: "message \<Rightarrow> u64" where
  "requested_count request =
     (case opt_uint (msg_payload request) ''count'' of Some n \<Rightarrow> n | None \<Rightarrow> 50)"

text \<open>\<^verbatim>\<open>all_nodes[start..]\<close> with a \<^verbatim>\<open>saturating_sub\<close>: the last \<open>count\<close> of a list, all of it if it is shorter.\<close>

definition most_recent :: "u64 \<Rightarrow> 'a list \<Rightarrow> 'a list" where
  "most_recent k xs = drop (length xs - unat k) xs"

section \<open>Recent nodes\<close>

definition MSG_QUERY_RECENT_NODES_RESPONSE :: string where
  "MSG_QUERY_RECENT_NODES_RESPONSE = ''query_recent_nodes_response''"

definition wanted_nodes :: "message \<Rightarrow> dag \<Rightarrow> dag_node list" where
  "wanted_nodes request d =
     filter (\<lambda>n. case opt_string (msg_payload request) ''node_type_prefix'' of
         Some p \<Rightarrow> starts_with (node_type n) p | None \<Rightarrow> True)
       (iter_in_insertion_order d)"

definition handle_query_recent_nodes :: "message \<Rightarrow> message option action" where
  "handle_query_recent_nodes request s =
     (let d = ss_dag s; all_nodes = wanted_nodes request d;
          recent = map node_value (most_recent (requested_count request) all_nodes)
      in (s, Ok (response MSG_QUERY_RECENT_NODES_RESPONSE request
           ([(''total_dag_size'', VUint (word_of_nat (node_count d))),
             (''filtered_total'', VUint (word_of_nat (length all_nodes))),
             (''returned_count'', VUint (word_of_nat (length recent))), (''nodes'', VArray recent)] @
            (case tip d of Some t \<Rightarrow> [(''dag_tip'', VBytes (arr32_bytes t))] | None \<Rightarrow> [])))))"

section \<open>One node\<close>

definition MSG_READ_NODE_BY_HASH_RESPONSE :: string where
  "MSG_READ_NODE_BY_HASH_RESPONSE = ''read_node_by_hash_response''"

definition handle_read_node_by_hash :: "message \<Rightarrow> message option action" where
  "handle_read_node_by_hash request s =
     (case opt_arr32 (msg_payload request) ''node_hash'' of
        None \<Rightarrow> (s, Err (SubProtocol ''read_node_by_hash: node_hash must be 32 Bytes''))
      | Some h \<Rightarrow> (s, Ok (response MSG_READ_NODE_BY_HASH_RESPONSE request
          (case dag_get (ss_dag s) h of
             Some n \<Rightarrow> [(''found'', VBool True)] @ node_fields n @ [(''content_canonical_bytes'', VBytes (content n))]
           | None \<Rightarrow> [(''found'', VBool False)]))))"

section \<open>The plates that stand\<close>

text \<open>A plate's line in the index: its hash, its label and its value.\<close>

type_synonym plate_line = "arr32 \<times> string \<times> u64 option"

definition MSG_LIST_PLATES_RESPONSE :: string where
  "MSG_LIST_PLATES_RESPONSE = ''list_plates_response''"

text \<open>The value and the superseded hashes that a body declares; what does not decode declares neither.\<close>

definition plate_body :: "dag_node \<Rightarrow> (u64 option \<times> arr32 list, 'e) result" where
  "plate_body n = and_then (decode_map (content n)) (\<lambda>r. Ok (case r of
     None \<Rightarrow> (None, [])
   | Some m \<Rightarrow> (opt_uint m ''value'',
       case opt_array m ''supersedes'' of Some items \<Rightarrow> List.map_filter read_hash items | None \<Rightarrow> [])))"

definition is_plate :: "dag_node \<Rightarrow> bool" where
  "is_plate n \<longleftrightarrow> starts_with (node_type n) FORGED_UNDERSTANDING_NODE_TYPE_PREFIX"

definition read_line :: "dag_node \<Rightarrow> (plate_line \<times> arr32 list, 'e) result" where
  "read_line n = and_then (plate_body n) (\<lambda>(v, hs).
     Ok ((node_hash n, drop (length FORGED_UNDERSTANDING_NODE_TYPE_PREFIX) (node_type n), v), hs))"

definition plate_lines :: "dag \<Rightarrow> ((plate_line \<times> arr32 list) list, 'e) result" where
  "plate_lines d = traverse read_line (filter is_plate (iter_in_insertion_order d))"

fun line_worth :: "plate_line \<Rightarrow> u64" where
  "line_worth (h, label, v) = (case v of Some v \<Rightarrow> v | None \<Rightarrow> 0)"

text \<open>Those that no plate supersedes, the most valued first, those of equal value in the order of the log.\<close>

definition live_lines :: "(plate_line \<times> arr32 list) list \<Rightarrow> plate_line list" where
  "live_lines ls =
     (let superseded = set (concat (map snd ls)) in
      sort_key (\<lambda>l. - uint (line_worth l)) (filter (\<lambda>l. fst l \<notin> superseded) (map fst ls)))"

fun line_value :: "plate_line \<Rightarrow> Value" where
  "line_value (h, label, v) = VMap (bt_of
     ([(''hash'', VBytes (arr32_bytes h)), (''label'', VString label)] @
      (case v of Some v \<Rightarrow> [(''value'', VUint v)] | None \<Rightarrow> [])))"

definition handle_list_plates :: "message \<Rightarrow> message option action" where
  "handle_list_plates request s =
     (s, and_then (plate_lines (ss_dag s)) (\<lambda>ls.
        Ok (response MSG_LIST_PLATES_RESPONSE request
          [(''total_plates'', VUint (word_of_nat (length ls))),
           (''live_plates'', VUint (word_of_nat (length (live_lines ls)))),
           (''plates'', VArray (map line_value (live_lines ls)))])))"

section \<open>Intent\<close>

definition MSG_COMPUTE_INTENT :: string where
  "MSG_COMPUTE_INTENT = ''compute_intent''"

definition MSG_COMPUTE_INTENT_RESPONSE :: string where
  "MSG_COMPUTE_INTENT_RESPONSE = ''compute_intent_response''"

definition empty_intent_response :: "message \<Rightarrow> message option" where
  "empty_intent_response request = response MSG_COMPUTE_INTENT_RESPONSE request
     [(''cold_start'', VBool True), (''neighborhood_node_count'', VUint 0), (''full_set_node_count'', VUint 0),
      (''cluster_count'', VUint 0), (''clusters'', VArray [])]"

definition intent_pivot :: "message \<Rightarrow> dag \<Rightarrow> arr32 option" where
  "intent_pivot request d =
     (case opt_arr32 (msg_payload request) ''pivot_hash'' of Some h \<Rightarrow> Some h | None \<Rightarrow> tip d)"

definition intent_question :: "message \<Rightarrow> dag \<Rightarrow> arr32 \<Rightarrow> vmap" where
  "intent_question request d pivot =
     compute_intent_payload pivot
       (case opt_uint (msg_payload request) ''radius_cycles'' of Some n \<Rightarrow> n | None \<Rightarrow> 10)
       (map (\<lambda>n. VMap (bt_of (node_fields n))) (iter_in_insertion_order d))"

definition handle_compute_intent :: "worker \<Rightarrow> message \<Rightarrow> message option action" where
  "handle_compute_intent python request s =
     (s, and_then (ok_or not_connected python) (\<lambda>_.
        case intent_pivot request (ss_dag s) of
          None \<Rightarrow> Ok (empty_intent_response request)
        | Some pivot \<Rightarrow>
            and_then (ask_worker python MSG_COMPUTE_INTENT (intent_question request (ss_dag s) pivot)
                MSG_COMPUTE_INTENT_RESPONSE)
              (\<lambda>r. Ok (Some (new_message MSG_COMPUTE_INTENT_RESPONSE (request_id request) (msg_payload r))))))"

section \<open>Everything since a tip\<close>

definition MSG_ENUMERATE_DAG_SINCE_RESPONSE :: string where
  "MSG_ENUMERATE_DAG_SINCE_RESPONSE = ''enumerate_dag_since_response''"

definition prev_tip_field :: "message \<Rightarrow> (arr32 option, substrate_error) result" where
  "prev_tip_field request =
     (case opt_bytes (msg_payload request) ''prev_tip'' of
        None \<Rightarrow> Ok None
      | Some b \<Rightarrow> (case bytes_arr32 b of
          Some h \<Rightarrow> Ok (Some h)
        | None \<Rightarrow> Err (SubProtocol (''enumerate_dag_since: prev_tip must be 32 bytes; got '' @ decimal (length b)))))"

definition unknown_tip_evidence :: "arr32 \<Rightarrow> string" where
  "unknown_tip_evidence t =
     ''enumerate_dag_since called with unknown prev_tip '' @ to_hex t @
     '' (substrate has no record of this tip; possible desync or forge attempt)''"

definition missing_evidence :: "arr32 \<Rightarrow> string" where
  "missing_evidence h =
     ''enumerate_dag_since: enumeration listed hash '' @ to_hex h @
     '' but state.dag.get returned None (DAG internal inconsistency)''"

definition enumeration_unclosed :: "platform \<Rightarrow> i64 \<Rightarrow> string \<Rightarrow> string \<Rightarrow> message option action" where
  "enumeration_unclosed pf now evidence prefix =
     bind_act (ignore_act (emit_immune_sporocarp pf now ''C6_dag_enumeration_unclosed'' ''dag_enumeration_unclosed'' evidence))
       (\<lambda>_. lift_act (Err (SubProtocol (prefix @ evidence))))"

definition enumerated :: "message \<Rightarrow> arr32 option \<Rightarrow> dag_node list \<Rightarrow> dag \<Rightarrow> message option" where
  "enumerated request prev ns d =
     response MSG_ENUMERATE_DAG_SINCE_RESPONSE request
       ((case tip d of Some t \<Rightarrow> [(''current_tip'', VBytes (arr32_bytes t))] | None \<Rightarrow> []) @
        [(''total_dag_size'', VUint (word_of_nat (node_count d))),
         (''enumerated_count'', VUint (word_of_nat (length ns)))] @
        (case prev of Some t \<Rightarrow> [(''prev_tip'', VBytes (arr32_bytes t))] | None \<Rightarrow> []) @
        [(''nodes'', VArray (map node_value ns))])"

definition handle_enumerate_dag_since :: "platform \<Rightarrow> i64 \<Rightarrow> message \<Rightarrow> message option action" where
  "handle_enumerate_dag_since pf now request s =
     bind_act (lift_act (prev_tip_field request)) (\<lambda>prev.
       case enumerate_since (ss_dag s) prev of
         Err (UnknownPrevTip t) \<Rightarrow> enumeration_unclosed pf now (unknown_tip_evidence t) ''enumerate_dag_since: ''
       | Err e \<Rightarrow> lift_act (Err (SubProtocol (''enumerate_dag_since failed: '' @ dag_display e)))
       | Abort x \<Rightarrow> lift_act (Abort x)
       | Ok hs \<Rightarrow>
           (case find (\<lambda>h. dag_get (ss_dag s) h = None) hs of
              Some h \<Rightarrow> enumeration_unclosed pf now (missing_evidence h) []
            | None \<Rightarrow> return_act (enumerated request prev (List.map_filter (dag_get (ss_dag s)) hs) (ss_dag s)))) s"

section \<open>Immune events\<close>

definition MSG_QUERY_IMMUNE_EVENTS_RESPONSE :: string where
  "MSG_QUERY_IMMUNE_EVENTS_RESPONSE = ''query_immune_events_response''"

definition immune_value :: "dag_node \<Rightarrow> Value" where
  "immune_value n = VMap (bt_of
     [(''hash'', VBytes (arr32_bytes (node_hash n))), (''node_type'', VString (node_type n)),
      (''at_cycle'', VUint (created_at_cycle n)), (''content_canonical_bytes'', VBytes (content n))])"

definition handle_query_immune_events :: "message \<Rightarrow> message option action" where
  "handle_query_immune_events request s =
     (let immune = filter (\<lambda>n. starts_with (node_type n) ''immune:'') (iter_in_insertion_order (ss_dag s));
          recent = map immune_value (most_recent (requested_count request) immune)
      in (s, Ok (response MSG_QUERY_IMMUNE_EVENTS_RESPONSE request
           [(''total_immune_count'', VUint (word_of_nat (length immune))),
            (''returned_count'', VUint (word_of_nat (length recent))), (''events'', VArray recent)])))"

end
