(* ===== verification/Query_Rules.thy ===== *)
theory Query_Rules
  imports Dag_Query
begin

text \<open>
  What the operator's questions tell: enumerations join to the whole log, and the index of the plates
  follows the deposits.
\<close>

section \<open>Enumerations\<close>

text \<open>The hashes of a part of the log lead to its nodes.\<close>

lemma nodes_of_hashes:
  assumes inv: "dag_inv H d" and ns: "set ns \<subseteq> set (iter_in_insertion_order d)"
  shows "List.map_filter (dag_get d) (map node_hash ns) = ns"
    and "find (\<lambda>h. dag_get d h = None) (map node_hash ns) = None"
proof -
  have get: "dag_get d (node_hash n) = Some n" if "n \<in> set ns" for n
  proof -
    have "n \<in> snd ` set (nodes d)"
      using that ns unfolding iter_nodes [OF inv] by auto
    then obtain k where "(k, n) \<in> set (nodes d)"
      by (elim imageE) (metis prod.collapse)
    then have "dag_get d k = Some n"
      using dag_get_Some_iff [OF inv] by blast
    then show ?thesis
      using dag_inv_node(1) [OF inv] by metis
  qed
  then show "List.map_filter (dag_get d) (map node_hash ns) = ns"
    by (induction ns) (auto simp: List.map_filter_def)
  show "find (\<lambda>h. dag_get d h = None) (map node_hash ns) = None"
    using get by (auto simp: find_None_iff)
qed

lemma order_hashes: "dag_inv H d \<Longrightarrow> insertion_order d = map node_hash (iter_in_insertion_order d)"
  using iter_hashes [of H d] by (simp add: dag_inv_def)

lemma enumerate_since_node:
  assumes inv: "dag_inv H d" and log: "iter_in_insertion_order d = earlier @ n # later"
  shows "enumerate_since d (Some (node_hash n)) = Ok (map node_hash later)"
proof -
  have "distinct (map node_hash earlier @ node_hash n # map node_hash later)"
    using iter_distinct [OF inv] by (simp add: log)
  then have "node_hash n \<notin> set (map node_hash earlier)"
    by simp
  then have "\<forall>x\<in>set (map node_hash earlier). \<not> x = node_hash n"
    by blast
  from position_append_first [OF this HOL.refl, of "map node_hash later"]
  have "Prelude.position (\<lambda>h. h = node_hash n) (insertion_order d) = Some (length earlier)"
    by (simp add: order_hashes [OF inv] log)
  then show ?thesis
    by (simp add: enumerate_since_def order_hashes [OF inv] log)
qed

lemma enumerate_since_unknown:
  "dag_inv H d \<Longrightarrow> \<forall>n\<in>set (iter_in_insertion_order d). node_hash n \<noteq> t \<Longrightarrow>
    enumerate_since d (Some t) = Err (UnknownPrevTip t)"
  by (auto simp: enumerate_since_def order_hashes position_None split: option.split)

lemma answers_nodes:
  assumes inv: "server_inv pf s" and prev: "prev_tip_field request = Ok prev"
    and hs: "enumerate_since (ss_dag s) prev = Ok (map node_hash ns)"
    and ns: "set ns \<subseteq> set (iter_in_insertion_order (ss_dag s))"
  shows "handle_enumerate_dag_since pf now request s = (s, Ok (enumerated request prev ns (ss_dag s)))"
proof -
  have dag: "dag_inv (pf_hash pf) (ss_dag s)"
    using inv by (simp add: server_inv_def)
  show ?thesis
    using nodes_of_hashes [OF dag ns] hs prev
    by (simp add: handle_enumerate_dag_since_def bind_act_def lift_act_def return_act_def)
qed

lemma unclosed_signal:
  assumes "server_inv pf s"
  obtains s' ns where "enumeration_unclosed pf now ev prefix s = (s', Err (SubProtocol (prefix @ ev)))"
    "iter_in_insertion_order (ss_dag s') = iter_in_insertion_order (ss_dag s) @ ns" "length ns \<le> 1"
    "\<forall>n\<in>set ns. node_type n = ''immune:C6_dag_enumeration_unclosed''"
  using assms
proof (cases rule: immune_cases [where now = now and det = "''C6_dag_enumeration_unclosed''" and
      name = "''dag_enumeration_unclosed''" and ev = ev])
  case (logged s' t c n)
  then show ?thesis
    by (intro that [of s' "[n]"])
      (simp_all add: enumeration_unclosed_def bind_act_def ignore_act_def lift_act_def logged_node_def)
qed (use that [where ns = "[]"] in \<open>simp_all add: enumeration_unclosed_def bind_act_def ignore_act_def lift_act_def\<close>)

text \<open>
  An enumeration is exact. From nothing it lists the whole log in order; from a hash in the log
  exactly the nodes behind it, so that the answers of consecutive questions join without a gap or a
  repetition, and the log is left alone. A hash that the log does not hold is an error, which adds at
  most one signal of its own detector.
\<close>

lemma enumeration_exact:
  assumes "server_inv pf s" and "handle_enumerate_dag_since pf now request s = (s', r)"
  shows "case prev_tip_field request of
      Ok None \<Rightarrow> s' = s \<and> r = Ok (enumerated request None (iter_in_insertion_order (ss_dag s)) (ss_dag s))
    | Ok (Some t) \<Rightarrow>
        if \<exists>n\<in>set (iter_in_insertion_order (ss_dag s)). node_hash n = t
        then s' = s \<and> (\<exists>earlier n later. iter_in_insertion_order (ss_dag s) = earlier @ n # later \<and> node_hash n = t \<and>
          r = Ok (enumerated request (Some t) later (ss_dag s)))
        else (\<exists>e. r = Err e) \<and> (\<exists>ns. iter_in_insertion_order (ss_dag s') = iter_in_insertion_order (ss_dag s) @ ns \<and>
          length ns \<le> 1 \<and> (\<forall>n\<in>set ns. node_type n = ''immune:C6_dag_enumeration_unclosed''))
    | Err e \<Rightarrow> s' = s \<and> r = Err e
    | Abort x \<Rightarrow> False"
proof -
  have dag: "dag_inv (pf_hash pf) (ss_dag s)"
    using assms(1) by (simp add: server_inv_def)
  show ?thesis
  proof (cases "prev_tip_field request")
    case (Ok prev)
    show ?thesis
    proof (cases prev)
      case None
      have "enumerate_since (ss_dag s) None = Ok (map node_hash (iter_in_insertion_order (ss_dag s)))"
        by (simp add: enumerate_since_def order_hashes [OF dag])
      then show ?thesis
        using answers_nodes [OF assms(1) Ok [unfolded None]] assms(2) Ok None by fastforce
    next
      case (Some t)
      show ?thesis
      proof (cases "\<exists>n\<in>set (iter_in_insertion_order (ss_dag s)). node_hash n = t")
        case True
        then obtain earlier n later where log: "iter_in_insertion_order (ss_dag s) = earlier @ n # later" "node_hash n = t"
          by (metis split_list)
        then have "handle_enumerate_dag_since pf now request s = (s, Ok (enumerated request (Some t) later (ss_dag s)))"
          using answers_nodes [OF assms(1) Ok [unfolded Some]] enumerate_since_node [OF dag log(1)] by auto
        then show ?thesis
          using True log assms(2) Ok Some by auto
      next
        case False
        then have "handle_enumerate_dag_since pf now request s =
            enumeration_unclosed pf now (unknown_tip_evidence t) ''enumerate_dag_since: '' s"
          using Ok Some enumerate_since_unknown [OF dag]
          by (simp add: handle_enumerate_dag_since_def bind_act_def lift_act_def)
        moreover obtain s1 ns where
          "enumeration_unclosed pf now (unknown_tip_evidence t) ''enumerate_dag_since: '' s =
            (s1, Err (SubProtocol (''enumerate_dag_since: '' @ unknown_tip_evidence t)))"
          "iter_in_insertion_order (ss_dag s1) = iter_in_insertion_order (ss_dag s) @ ns" "length ns \<le> 1"
          "\<forall>n\<in>set ns. node_type n = ''immune:C6_dag_enumeration_unclosed''"
          by (rule unclosed_signal [OF assms(1)])
        ultimately show ?thesis
          using False Ok Some assms(2) by auto
      qed
    qed
  next
    case (Err e)
    then show ?thesis
      using assms(2) by (simp add: handle_enumerate_dag_since_def bind_act_def lift_act_def)
  next
    case (Abort x)
    then show ?thesis
      by (simp add: prev_tip_field_def split: option.splits)
  qed
qed

section \<open>The index of the plates\<close>

text \<open>What a plate declares is what its body carries.\<close>

lemma plate_body_fields:
  assumes "event_ok (plate_fields p cyc)" and "content n = event_bytes (plate_fields p cyc)"
  shows "plate_body n = Ok (plate_value p, plate_supersedes p)"
proof -
  have "List.map_filter read_hash (map (\<lambda>h. VBytes (arr32_bytes h)) hs) = hs" for hs
    by (induction hs) (simp_all add: List.map_filter_simps bytes_arr32_def)
  then show ?thesis
    using decode_event [OF assms(1)] assms(2)
    by (simp add: plate_body_def decode_map_def plate_fields_def opt_uint_def opt_array_def bt_get_of hash_values_def
        split: option.split)
qed

lemma live_lines_set:
  "set (live_lines ls) = {l. l \<in> fst ` set ls \<and> fst l \<notin> set (concat (map snd ls))}"
  by (auto simp: live_lines_def Let_def)

text \<open>The hashes that the plates of a log supersede.\<close>

definition superseded :: "(plate_line \<times> arr32 list) list \<Rightarrow> arr32 set" where
  "superseded ls = set (concat (map snd ls))"

lemma live_lines_sorted: "sorted_wrt (\<lambda>k l. line_worth l \<le> line_worth k) (live_lines ls)"
proof -
  have "sorted (map (\<lambda>l. - uint (line_worth l)) (live_lines ls))"
    unfolding live_lines_def Let_def by (rule sorted_sort_key)
  then show ?thesis
    by (simp add: sorted_map word_le_def)
qed

lemma deposit_logs:
  assumes inv: "server_inv pf s" and run: "handle_deposit_forged_understanding pf request s = (s', Ok a)"
    and read: "read_plate (ss_dag s) request = Ok p"
  obtains n where "iter_in_insertion_order (ss_dag s') = iter_in_insertion_order (ss_dag s) @ [n]" "server_inv pf s'"
    "node_type n = FORGED_UNDERSTANDING_NODE_TYPE_PREFIX @ plate_label p"
    "content n = event_bytes (plate_fields p (ss_cycle_counter s))" "dag_get (ss_dag s) (node_hash n) = None"
proof -
  let ?ps = "push_parents (plate_sources p) (tip_parents (ss_dag s))"
  let ?c = "event_bytes (plate_fields p (ss_cycle_counter s))"
  have answer: "bind_act (insert_act pf ''forged_understanding DAG insert'' ?ps
      (FORGED_UNDERSTANDING_NODE_TYPE_PREFIX @ plate_label p) (ss_cycle_counter s) ?c)
      (\<lambda>h s. (s, Ok (deposited MSG_DEPOSIT_FORGED_UNDERSTANDING_RESPONSE request h s))) s = (s', Ok a)"
    using run unfolding handle_deposit_forged_understanding_def read by simp
  have "set (tip_parents (ss_dag s)) \<subseteq> set ?ps"
    by simp
  from inv this not_family_types(4) [of "plate_label p"] show thesis
  proof (cases rule: insert_act_cases [where what = "''forged_understanding DAG insert''" and
        cyc = "ss_cycle_counter s" and c = ?c])
    case (failed e)
    then show ?thesis
      using answer unfolding bind_act_def failed by auto
  next
    case (logged s1 n)
    have "s' = s1"
      using answer unfolding bind_act_def logged(1) by auto
    then show ?thesis
      using logged by (intro that [of n]) (simp_all add: node_over_def)
  qed
qed

lemma traverse_append:
  "traverse f (xs @ ys) = and_then (traverse f xs) (\<lambda>as. and_then (traverse f ys) (\<lambda>bs. Ok (as @ bs)))"
proof (induction xs)
  case (Cons x xs)
  then show ?case
    by (cases "f x"; cases "traverse f xs"; cases "traverse f ys") simp_all
qed (cases "traverse f ys"; simp)

lemma dag_holds_iff: "dag_inv H d \<Longrightarrow> dag_get d h \<noteq> None \<longleftrightarrow> h \<in> node_hash ` set (iter_in_insertion_order d)"
  using dag_inv_order [of H d] order_hashes [of H d] by auto

text \<open>
  C36. The index follows the deposits. Where no plate supersedes what the log does not hold, a deposit
  that is answered leaves the index of standing plates with exactly those that stood and that it does not
  supersede, and with itself, under its label and value; the most valued come first; and still no plate
  supersedes what the log does not hold.
\<close>

theorem deposit_updates_index:
  assumes "server_inv pf s" and "handle_deposit_forged_understanding pf request s = (s', Ok a)"
    and "read_plate (ss_dag s) request = Ok p" and "event_ok (plate_fields p (ss_cycle_counter s))"
    and "plate_lines (ss_dag s) = (Ok ls :: (_, substrate_error) result)"
    and "\<forall>h\<in>superseded ls. dag_get (ss_dag s) h \<noteq> None"
  shows "\<exists>n ls'. iter_in_insertion_order (ss_dag s') = iter_in_insertion_order (ss_dag s) @ [n] \<and>
    plate_lines (ss_dag s') = (Ok ls' :: (_, substrate_error) result) \<and>
    set (live_lines ls') = insert (node_hash n, plate_label p, plate_value p)
      {l \<in> set (live_lines ls). fst l \<notin> set (plate_supersedes p)} \<and>
    sorted_wrt (\<lambda>k l. line_worth l \<le> line_worth k) (live_lines ls') \<and>
    (\<forall>h\<in>superseded ls'. dag_get (ss_dag s') h \<noteq> None)"
proof -
  obtain n where log: "iter_in_insertion_order (ss_dag s') = iter_in_insertion_order (ss_dag s) @ [n]"
    and inv': "server_inv pf s'" and ty: "node_type n = FORGED_UNDERSTANDING_NODE_TYPE_PREFIX @ plate_label p"
    and body: "content n = event_bytes (plate_fields p (ss_cycle_counter s))"
    and new: "dag_get (ss_dag s) (node_hash n) = None"
    by (rule deposit_logs [OF assms(1-3)])
  let ?line = "((node_hash n, plate_label p, plate_value p), plate_supersedes p)"
  have "read_line n = (Ok ?line :: (_, substrate_error) result)" "is_plate n"
    using plate_body_fields [OF assms(4) body] ty by (simp_all add: read_line_def is_plate_def starts_with_def)
  then have lines: "plate_lines (ss_dag s') = (Ok (ls @ [?line]) :: (_, substrate_error) result)"
    using assms(5) by (simp add: plate_lines_def log traverse_append)
  have cited: "\<forall>h\<in>set (plate_supersedes p). dag_get (ss_dag s) h \<noteq> None"
    using read_plate_Ok(2) [OF assms(3)] by auto
  have "node_hash n \<notin> superseded (ls @ [?line])"
    using assms(6) cited new by (fastforce simp: superseded_def)
  then have "set (live_lines (ls @ [?line])) = insert (fst ?line) {l \<in> set (live_lines ls). fst l \<notin> set (plate_supersedes p)}"
    by (auto simp: live_lines_set superseded_def)
  moreover have "dag_get (ss_dag s') h \<noteq> None" if "dag_get (ss_dag s) h \<noteq> None" for h
    using that dag_holds_iff assms(1) inv' log unfolding server_inv_def by (metis UnI1 image_Un set_append)
  ultimately show ?thesis
    using lines log assms(6) cited live_lines_sorted
    by (intro exI [of _ n] exI [of _ "ls @ [?line]"]) (auto simp: superseded_def)
qed


lemma deposit_updates_index_witness:
  "\<exists>(n :: dag_node) ls'. plate_lines (ss_dag (fst (handle_deposit_forged_understanding chain_platform forge_request fed))) =
      (Ok ls' :: (_, substrate_error) result) \<and> set (live_lines ls') = {(node_hash n, ''l'', None)}"
proof -
  obtain s' a where run: "handle_deposit_forged_understanding chain_platform forge_request fed = (s', Ok a)"
    using forge_answered
    by (cases "handle_deposit_forged_understanding chain_platform forge_request fed";
        cases "snd (handle_deposit_forged_understanding chain_platform forge_request fed)") auto
  have log: "iter_in_insertion_order (ss_dag fed) = [raw_node]"
    by (simp add: fed_def iter_in_insertion_order_def dag_get_def List.map_filter_simps)
  have "\<not> is_plate raw_node"
    by (simp add: is_plate_def raw_node_def starts_with_def FORGED_UNDERSTANDING_NODE_TYPE_PREFIX_def)
  then have lines: "plate_lines (ss_dag fed) = (Ok [] :: (_, substrate_error) result)"
    by (simp add: plate_lines_def log)
  let ?p = "\<lparr>plate_label = ''l'', plate_understanding = [7], plate_sources = [0], plate_value = None,
      plate_confidence = None, plate_supersedes = []\<rparr>"
  have "event_ok (plate_fields ?p cyc)" for cyc
    using length_event_fields [of "plate_fields ?p cyc"]
    by (simp add: event_ok_def plate_fields_def hash_values_def)
  from deposit_updates_index [OF server_inv_fed run forge_read this lines]
  obtain n :: dag_node and ls' where "plate_lines (ss_dag s') = (Ok ls' :: (_, substrate_error) result)"
      "set (live_lines ls') = insert (node_hash n, ''l'', None) {l \<in> set (live_lines []). fst l \<notin> set []}"
    by (auto simp: superseded_def)
  then show ?thesis
    using run by (auto simp: live_lines_def)
qed

end
