(* ===== verification/Worker_Replay.thy ===== *)
theory Worker_Replay
  imports Query_Rules Integrity Snapshot_Boot Bridge_Client
begin

text \<open>
  What the substrate tells its Python worker: the operator's requests that it forwards
  (\<^verbatim>\<open>server/mod.rs\<close> and \<^verbatim>\<open>server/dispatch.rs\<close>), and at a handshake (\<^verbatim>\<open>handshake.rs\<close>) either the
  replay of the log to a worker that starts empty, or the backfill of the log from a worker that
  loaded its own files (\<^verbatim>\<open>persistence_runtime.rs\<close>). A worker is a state \<open>'w\<close> and the functions that
  the client offers on it; durations of calls are left out.
\<close>

section \<open>Forwarded requests\<close>

text \<open>The answer that each of the three forwardable requests expects.\<close>

definition expected_response :: "string \<Rightarrow> string option" where
  "expected_response ty =
     (if ty = MSG_REGISTER_AXIS then Some MSG_REGISTER_AXIS_ACK
      else if ty = MSG_PERTURB then Some MSG_PERTURB_ACK
      else if ty = MSG_SNAPSHOT then Some MSG_SNAPSHOT_RESPONSE
      else None)"

definition forward_message ::
    "(string \<Rightarrow> vmap \<Rightarrow> (message, bridge_error) result) \<Rightarrow> message \<Rightarrow> (message, bridge_error) result" where
  "forward_message call request =
     (case expected_response (message_type request) of
        None \<Rightarrow> Err (BrProtocol (''forward_message: cannot forward '' @ message_type request))
      | Some expected \<Rightarrow>
          and_then (call (message_type request) (msg_payload request)) (\<lambda>r.
            if message_type r \<noteq> expected
            then Err (BrProtocol (''expected '' @ expected @ '' from python; got '' @ message_type r))
            else Ok r))"

definition forward_to_python :: "worker \<Rightarrow> message \<Rightarrow> string \<Rightarrow> (message option, substrate_error) result" where
  "forward_to_python python request expected =
     and_then (ok_or not_connected python) (\<lambda>call.
     and_then (map_err SubBridge (forward_message call request)) (\<lambda>r.
       if message_type r \<noteq> expected
       then Err (SubProtocol (''expected '' @ expected @ '' from python; got '' @ message_type r))
       else Ok (Some (new_message (message_type r) (request_id request) (msg_payload r)))))"

definition count_registration :: "unit action" where
  "count_registration = modify_act (\<lambda>s. s\<lparr>ss_axis_register_count := sat_add (ss_axis_register_count s) 1\<rparr>)"

definition dispatch_register_axis ::
    "platform \<Rightarrow> 'f parse_fn \<Rightarrow> ('f \<Rightarrow> string) \<Rightarrow> i64 \<Rightarrow> worker \<Rightarrow> message \<Rightarrow> message option action" where
  "dispatch_register_axis pf parse repr now python request s0 =
     bind_act (lift_act (is_in_birth_period_quarantine s0)) (\<lambda>q.
       if q then quarantine_block pf now ''register_axis''
       else bind_act (lift_act (forward_to_python python request MSG_REGISTER_AXIS_ACK)) (\<lambda>answer.
         bind_act (case build_axis_registered_event parse request of
             None \<Rightarrow> return_act ()
           | Some ev \<Rightarrow> bind_act (ignore_act (emit_substrate_event pf (axis_registered_node_type (are_name ev))
                 (encode_axis_registered repr ev))) (\<lambda>_. count_registration))
           (\<lambda>_. return_act answer))) s0"

definition dispatch_perturb ::
    "platform \<Rightarrow> 'f parse_fn \<Rightarrow> ('f \<Rightarrow> string) \<Rightarrow> i64 \<Rightarrow> worker \<Rightarrow> message \<Rightarrow> message option action" where
  "dispatch_perturb pf parse repr now python request s0 =
     bind_act (lift_act (is_in_birth_period_quarantine s0)) (\<lambda>q.
       if q then quarantine_block pf now ''perturb''
       else bind_act (lift_act (forward_to_python python request MSG_PERTURB_ACK)) (\<lambda>answer.
         bind_act (case (opt_string (msg_payload request) ''axis_name'',
                         float_field parse (msg_payload request) ''delta_repr'') of
             (Some axis, Some delta) \<Rightarrow> ignore_act (emit_substrate_event pf (axis_perturbed_node_type axis)
               (encode_axis_perturbed repr axis delta))
           | _ \<Rightarrow> return_act ())
           (\<lambda>_. return_act answer))) s0"

definition dispatch_snapshot :: "worker \<Rightarrow> message \<Rightarrow> message option action" where
  "dispatch_snapshot python request = lift_act (forward_to_python python request MSG_SNAPSHOT_RESPONSE)"

definition MSG_QUERY_MIGRATION_PENDING_RESPONSE :: string where
  "MSG_QUERY_MIGRATION_PENDING_RESPONSE = ''query_migration_pending_response''"

definition query_migration_pending :: "message \<Rightarrow> message option action" where
  "query_migration_pending request s =
     (s, Ok (response MSG_QUERY_MIGRATION_PENDING_RESPONSE request
       ((''current_cycle'', VUint (ss_cycle_counter s)) # (case ss_migration_candidate s of
          Some c \<Rightarrow> [(''pending'', VBool True), (''op'', VString (op_name c)),
            (''started_at_cycle'', VUint (started_at_cycle c)), (''window'', VUint (dual_validation_window_cycles c))]
        | None \<Rightarrow> [(''pending'', VBool False), (''op'', VString []), (''started_at_cycle'', VUint 0),
            (''window'', VUint 0)]))))"

section \<open>The replay of the log\<close>

text \<open>What a worker can be told that changes its gradient.\<close>

datatype 'f worker_call =
    CallRegister "'f axis_registered_event"
  | CallPerturb string 'f
  | CallAdvance u64

text \<open>A body's map, with the name under which a replay reports its errors.\<close>

definition replay_map :: "string \<Rightarrow> dag_node \<Rightarrow> (vmap, substrate_error) result" where
  "replay_map what n =
     and_then (map_err (\<lambda>e. SubProtocol (''replay decode '' @ what @ '': '' @ cb_display e)) (decode (content n)))
       (\<lambda>v. case v of VMap m \<Rightarrow> Ok m | _ \<Rightarrow> Err (SubProtocol (''replay '' @ what @ '' content not Map'')))"

definition replay_text :: "string \<Rightarrow> string \<Rightarrow> vmap \<Rightarrow> string \<Rightarrow> (string, substrate_error) result" where
  "replay_text what sep m k =
     map_err (\<lambda>e. SubProtocol (''replay '' @ what @ sep @ k @ '': '' @ cb_display e)) (map_get_string m k)"

definition replay_float ::
    "'f parse_fn \<Rightarrow> string \<Rightarrow> string \<Rightarrow> string \<Rightarrow> ('f, substrate_error) result" where
  "replay_float parse what name text =
     map_err (\<lambda>e. SubProtocol (''replay '' @ what @ '' '' @ name @ '' parse: '' @ e)) (parse text)"

definition replay_registration :: "'f parse_fn \<Rightarrow> string \<Rightarrow> dag_node \<Rightarrow> ('f worker_call, substrate_error) result" where
  "replay_registration parse axis n =
     (let what = ''axis_registered:'' @ axis in
      and_then (replay_map what n) (\<lambda>m.
      and_then (replay_text what '' field '' m ''axis_class'') (\<lambda>cls.
      and_then (replay_text what '' field '' m ''fruiting_threshold_repr'') (\<lambda>t.
      and_then (replay_float parse what ''fruiting_threshold_repr'' t) (\<lambda>threshold.
      and_then (replay_text what '' field '' m ''initial_value_repr'') (\<lambda>t.
      and_then (replay_float parse what ''initial_value_repr'' t) (\<lambda>initial.
      and_then (replay_text what '' field '' m ''decay_rate_per_cycle_repr'') (\<lambda>t.
      and_then (replay_float parse what ''decay_rate_per_cycle_repr'' t) (\<lambda>decay.
      and_then (ok_or (SubProtocol (''replay '' @ what @ '' missing is_mortality_signal'')) (opt_bool m ''is_mortality_signal''))
        (\<lambda>mortality.
      and_then (replay_text what '' field '' m ''update_rule_kind'') (\<lambda>rule.
        Ok (CallRegister \<lparr>are_name = axis, are_axis_class = cls, are_fruiting_threshold = threshold,
          are_initial_value = initial, are_decay_rate_per_cycle = decay, are_is_mortality_signal = mortality,
          are_update_rule_kind = rule\<rparr>))))))))))))"

definition replay_perturbation :: "'f parse_fn \<Rightarrow> string \<Rightarrow> dag_node \<Rightarrow> ('f worker_call, substrate_error) result" where
  "replay_perturbation parse axis n =
     (let what = ''axis_perturbed:'' @ axis in
      and_then (replay_map what n) (\<lambda>m.
      and_then (replay_text what '' '' m ''delta_repr'') (\<lambda>t.
      and_then (replay_float parse what ''delta'' t) (\<lambda>delta. Ok (CallPerturb axis delta)))))"

definition replay_raw_perturbation :: "'f parse_fn \<Rightarrow> dag_node \<Rightarrow> ('f worker_call, substrate_error) result" where
  "replay_raw_perturbation parse n =
     (let what = ''perturb_from_raw'' in
      and_then (replay_map what n) (\<lambda>m.
      and_then (replay_text what '' '' m ''axis_name'') (\<lambda>axis.
      and_then (replay_text what '' '' m ''delta_repr'') (\<lambda>t.
      and_then (replay_float parse what ''delta'' t) (\<lambda>delta. Ok (CallPerturb axis delta))))))"

definition replay_advance :: "dag_node \<Rightarrow> ('f worker_call, substrate_error) result" where
  "replay_advance n =
     and_then (replay_map ''cycle_advanced'' n) (\<lambda>m.
     and_then (ok_or (SubProtocol ''replay cycle_advanced missing new_cycle'') (opt_uint m ''new_cycle''))
       (\<lambda>c. Ok (CallAdvance c)))"

text \<open>The call that a node stands for, if any.\<close>

definition replay_call :: "'f parse_fn \<Rightarrow> dag_node \<Rightarrow> ('f worker_call option, substrate_error) result" where
  "replay_call parse n =
     (let ty = node_type n in
      if starts_with ty NODE_TYPE_AXIS_REGISTERED_PREFIX
      then and_then (replay_registration parse (drop (length NODE_TYPE_AXIS_REGISTERED_PREFIX) ty) n) (\<lambda>c. Ok (Some c))
      else if starts_with ty NODE_TYPE_AXIS_PERTURBED_PREFIX
      then and_then (replay_perturbation parse (drop (length NODE_TYPE_AXIS_PERTURBED_PREFIX) ty) n) (\<lambda>c. Ok (Some c))
      else if starts_with ty ''perturb_from_raw:''
      then and_then (replay_raw_perturbation parse n) (\<lambda>c. Ok (Some c))
      else if ty = NODE_TYPE_CYCLE_ADVANCED then and_then (replay_advance n) (\<lambda>c. Ok (Some c))
      else Ok None)"

text \<open>A worker takes a call in its state and answers; the client's methods are such a function.\<close>

type_synonym ('f, 'w) teller = "'f worker_call \<Rightarrow> 'w \<Rightarrow> 'w \<times> (unit, bridge_error) result"

definition client_teller :: "mac_fn \<Rightarrow> ('f \<Rightarrow> string) \<Rightarrow> 'f parse_fn \<Rightarrow> ('f, bridge_client) teller" where
  "client_teller mac repr parse call c = (case call of
     CallRegister ev \<Rightarrow> register_axis mac repr (are_name ev) (are_axis_class ev) (are_fruiting_threshold ev)
       (are_initial_value ev) (are_decay_rate_per_cycle ev) (are_is_mortality_signal ev) (are_update_rule_kind ev) c
   | CallPerturb axis delta \<Rightarrow> perturb mac repr axis delta c
   | CallAdvance cycle \<Rightarrow> (case advance mac parse cycle c of (c1, r) \<Rightarrow> (c1, and_then r (\<lambda>_. Ok ()))))"

fun replay_nodes ::
    "('f, 'w) teller \<Rightarrow> 'f parse_fn \<Rightarrow> dag_node list \<Rightarrow> 'w \<Rightarrow> 'w \<times> (unit, substrate_error) result" where
  "replay_nodes tell parse [] w = (w, Ok ())"
| "replay_nodes tell parse (n # ns) w =
     (case replay_call parse n of
        Err e \<Rightarrow> (w, Err e)
      | Abort x \<Rightarrow> (w, Abort x)
      | Ok None \<Rightarrow> replay_nodes tell parse ns w
      | Ok (Some c) \<Rightarrow>
          (case tell c w of
             (w1, Ok _) \<Rightarrow> replay_nodes tell parse ns w1
           | (w1, Err e) \<Rightarrow> (w1, Err (SubBridge e))
           | (w1, Abort x) \<Rightarrow> (w1, Abort x)))"

definition replay_python_events_from_dag ::
    "('f, 'w) teller \<Rightarrow> 'f parse_fn \<Rightarrow> dag \<Rightarrow> 'w \<Rightarrow> 'w \<times> (unit, substrate_error) result" where
  "replay_python_events_from_dag tell parse d = replay_nodes tell parse (iter_in_insertion_order d)"

section \<open>The backfill of the log\<close>

definition backfill_genesis :: "platform \<Rightarrow> unit action" where
  "backfill_genesis pf s =
     (if list_ex (\<lambda>n. starts_with (node_type n) NODE_TYPE_GENESIS_PREFIX) (iter_in_insertion_order (ss_dag s))
      then return_act ()
      else ignore_act (emit_substrate_event pf (genesis_event_node_type (substrate_id s))
        (encode_genesis_event (substrate_id s) (genesis_time_unix_ns s) (ss_generation_depth s)))) s"

definition axis_event :: "'f axis_schema_info \<Rightarrow> 'f axis_registered_event" where
  "axis_event ax = \<lparr>are_name = ax_name ax, are_axis_class = ax_class ax,
     are_fruiting_threshold = ax_fruiting_threshold ax, are_initial_value = ax_initial_value ax,
     are_decay_rate_per_cycle = ax_decay_rate_per_cycle ax, are_is_mortality_signal = ax_is_mortality_signal ax,
     are_update_rule_kind = ax_update_rule_kind ax\<rparr>"

text \<open>\<open>diff\<close> is the subtraction of floats and \<open>moved\<close> the test \<^verbatim>\<open>delta != 0.0\<close>.\<close>

definition backfill_axis ::
    "platform \<Rightarrow> ('f \<Rightarrow> string) \<Rightarrow> ('f \<Rightarrow> 'f \<Rightarrow> 'f) \<Rightarrow> ('f \<Rightarrow> bool) \<Rightarrow> 'f axis_schema_info \<Rightarrow> unit action" where
  "backfill_axis pf repr diff moved ax s =
     (let reg = axis_registered_node_type (ax_name ax); delta = diff (ax_current_value ax) (ax_initial_value ax) in
      bind_act (if list_ex (\<lambda>n. node_type n = reg) (iter_in_insertion_order (ss_dag s)) then return_act ()
        else ignore_act (emit_substrate_event pf reg (encode_axis_registered repr (axis_event ax)))) (\<lambda>_.
      if moved delta
      then ignore_act (emit_substrate_event pf (axis_perturbed_node_type (ax_name ax))
        (encode_axis_perturbed repr (ax_name ax) delta))
      else return_act ())) s"

definition backfill_dag_from_python_state ::
    "platform \<Rightarrow> ('f \<Rightarrow> string) \<Rightarrow> ('f \<Rightarrow> 'f \<Rightarrow> 'f) \<Rightarrow> ('f \<Rightarrow> bool) \<Rightarrow>
      ('f axis_schema_info list, bridge_error) result \<Rightarrow> unit action" where
  "backfill_dag_from_python_state pf repr diff moved schemas =
     bind_act (backfill_genesis pf) (\<lambda>_.
     bind_act (lift_act (map_err SubBridge schemas)) (\<lambda>axes.
       each_act (backfill_axis pf repr diff moved) axes))"

section \<open>The handshake\<close>

text \<open>What the client offers to a handshake besides its calls: a spawned worker with its versions, loading, and its schemas.\<close>

record ('f, 'w) python_side =
  py_spawn :: "arr32 \<Rightarrow> ('w \<times> string \<times> string, bridge_error) result"
  py_load :: "bool \<Rightarrow> 'w \<Rightarrow> 'w \<times> (u64 \<times> bool, bridge_error) result"
  py_tell :: "('f, 'w) teller"
  py_schemas :: "'w \<Rightarrow> 'w \<times> ('f axis_schema_info list, bridge_error) result"

definition lift_worker :: "'w \<times> ('a, substrate_error) result \<Rightarrow> ('w \<times> 'a) action" where
  "lift_worker p = lift_act (case p of (w, r) \<Rightarrow> and_then r (\<lambda>a. Ok (w, a)))"

text \<open>A log that does not derive a state counts as one without a genesis.\<close>

definition log_is_authoritative :: "dag \<Rightarrow> (bool, substrate_error) result" where
  "log_is_authoritative d =
     and_then (result_ok (from_dag d)) (\<lambda>r. Ok (case r of Some ds \<Rightarrow> is_post_m21_substrate ds | None \<Rightarrow> False))"

text \<open>The worker that the state keeps is part of the result.\<close>

definition handle_hello ::
    "platform \<Rightarrow> 'f parse_fn \<Rightarrow> ('f \<Rightarrow> string) \<Rightarrow> ('f \<Rightarrow> 'f \<Rightarrow> 'f) \<Rightarrow> ('f \<Rightarrow> bool) \<Rightarrow> ('f, 'w) python_side \<Rightarrow>
      string \<Rightarrow> message \<Rightarrow> ('w \<times> message option) action" where
  "handle_hello pf parse repr diff moved py version request s0 =
     (if ss_handshake_complete s0
      then lift_act (Err (SubHandshake ''hello received after handshake already complete''))
      else bind_act (lift_act (ok_or (SubHandshake ''hello payload missing 32-byte session_secret'')
          (opt_arr32 (msg_payload request) ''session_secret''))) (\<lambda>secret.
        bind_act (modify_act (\<lambda>s. s\<lparr>ss_session_secret := secret\<rparr>)) (\<lambda>_.
        bind_act (lift_act (map_err SubBridge (py_spawn py secret))) (\<lambda>(w0, py_version, kt_version).
        bind_act (lift_act (log_is_authoritative (ss_dag s0))) (\<lambda>post.
        bind_act (lift_worker (case py_load py post w0 of (w, r) \<Rightarrow> (w, map_err SubBridge r))) (\<lambda>(w1, _).
        bind_act (if post then lift_worker (replay_python_events_from_dag (py_tell py) parse (ss_dag s0) w1)
            else case py_schemas py w1 of (w, schemas) \<Rightarrow>
              bind_act (backfill_dag_from_python_state pf repr diff moved schemas) (\<lambda>_. return_act (w, ()))) (\<lambda>(w2, _).
        bind_act (modify_act (\<lambda>s. s\<lparr>ss_handshake_complete := True\<rparr>)) (\<lambda>_ s.
          (s, Ok (w2, response MSG_HELLO_ACK request
            [(''kernel_tropism_version'', VString kt_version), (''python_version'', VString py_version),
             (''substrate_version'', VString version), (''substrate_id'', VBytes (arr32_bytes (substrate_id s))),
             (''persistent_cycle_counter'', VUint (ss_cycle_counter s))]))))))))) ) s0"

end
