(* ===== verification/Worker_Sessions.thy ===== *)
theory Worker_Sessions
  imports Worker_Replay
begin

text \<open>
  A worker after a restart: the hello tells a new worker exactly what the old one was told, in the same
  order, as far as the log took the events of it.
\<close>

section \<open>Calls in the log\<close>

lemma replay_call_other: "\<not> gradient_type (node_type n) \<Longrightarrow> replay_call parse n = Ok None"
  by (simp add: replay_call_def gradient_type_def Let_def)

text \<open>The calls of a log, and telling a worker a list of them until one fails.\<close>

definition logged_calls :: "'f parse_fn \<Rightarrow> dag_node list \<Rightarrow> ('f worker_call list, substrate_error) result" where
  "logged_calls parse ns = and_then (traverse (replay_call parse) ns) (\<lambda>cs. Ok (List.map_filter id cs))"

fun tell_calls :: "('f, 'w) teller \<Rightarrow> 'f worker_call list \<Rightarrow> 'w \<Rightarrow> 'w \<times> (unit, substrate_error) result" where
  "tell_calls tell [] w = (w, Ok ())"
| "tell_calls tell (c # cs) w =
     (case tell c w of
        (w1, Ok _) \<Rightarrow> tell_calls tell cs w1
      | (w1, Err e) \<Rightarrow> (w1, Err (SubBridge e))
      | (w1, Abort x) \<Rightarrow> (w1, Abort x))"

lemma replay_nodes_calls:
  "logged_calls parse ns = Ok cs \<Longrightarrow> replay_nodes tell parse ns w = tell_calls tell cs w"
proof (induction ns arbitrary: cs w)
  case (Cons n ns)
  then obtain c cs' where c: "replay_call parse n = Ok c" and cs': "logged_calls parse ns = Ok cs'"
    and cs: "cs = (case c of None \<Rightarrow> cs' | Some c \<Rightarrow> c # cs')"
    by (auto simp: logged_calls_def List.map_filter_simps split: option.split)
  show ?case
  proof (cases c)
    case (Some call)
    then show ?thesis
      using c cs Cons.IH [OF cs'] by (auto split: prod.split result.split)
  qed (use c cs Cons.IH [OF cs'] in auto)
qed (simp add: logged_calls_def List.map_filter_simps)

lemma logged_calls_append:
  assumes "logged_calls parse ns = Ok cs" and "replay_call parse n = Ok c"
  shows "logged_calls parse (ns @ [n]) = Ok (cs @ (case c of Some c \<Rightarrow> [c] | None \<Rightarrow> []))"
  using assms by (auto simp: logged_calls_def traverse_append List.map_filter_def split: option.split)

lemma logged_calls_others:
  assumes "logged_calls parse ns = Ok cs" and "\<forall>n\<in>set ms. \<not> gradient_type (node_type n)"
  shows "logged_calls parse (ns @ ms) = Ok cs"
  using assms(2)
proof (induction ms rule: rev_induct)
  case (snoc m ms)
  then show ?case
    using logged_calls_append [of parse "ns @ ms" cs m None] by (simp add: replay_call_other)
qed (simp add: assms(1))

section \<open>What each event replays to\<close>

definition axis_fields :: "('f \<Rightarrow> string) \<Rightarrow> 'f axis_registered_event \<Rightarrow> (string \<times> Value) list" where
  "axis_fields repr ev =
     [(''name'', VString (are_name ev)), (''axis_class'', VString (are_axis_class ev)),
      (''fruiting_threshold_repr'', VString (repr (are_fruiting_threshold ev))),
      (''initial_value_repr'', VString (repr (are_initial_value ev))),
      (''decay_rate_per_cycle_repr'', VString (repr (are_decay_rate_per_cycle ev))),
      (''is_mortality_signal'', VBool (are_is_mortality_signal ev)),
      (''update_rule_kind'', VString (are_update_rule_kind ev))]"

lemma replay_registered:
  assumes float: "\<And>x. parse (repr x) = Ok x" and ok: "event_ok (axis_fields repr ev)"
    and n: "node_type n = axis_registered_node_type (are_name ev)" "content n = encode_axis_registered repr ev"
  shows "replay_call parse n = Ok (Some (CallRegister ev))"
proof -
  have "decode (content n) = Ok (VMap (bt_of (axis_fields repr ev)))"
    using decode_event [OF ok] by (simp add: n encode_axis_registered_def axis_fields_def)
  then show ?thesis
    by (simp add: replay_call_def replay_registration_def replay_map_def replay_text_def replay_float_def Let_def n
        axis_registered_node_type_def axis_fields_def map_get_string_def bt_get_of opt_bool_def float)
qed

lemma replay_perturbed:
  assumes float: "\<And>x. parse (repr x) = Ok x"
    and ok: "event_ok [(''axis_name'', VString axis), (''delta_repr'', VString (repr delta))]"
    and n: "node_type n = axis_perturbed_node_type axis" "content n = encode_axis_perturbed repr axis delta"
  shows "replay_call parse n = Ok (Some (CallPerturb axis delta))"
proof -
  have "decode (content n) = Ok (VMap (bt_of [(''axis_name'', VString axis), (''delta_repr'', VString (repr delta))]))"
    using decode_event [OF ok] by (simp add: n encode_axis_perturbed_def)
  moreover have "\<not> starts_with (axis_perturbed_node_type axis) NODE_TYPE_AXIS_REGISTERED_PREFIX"
    by (simp add: axis_perturbed_node_type_def starts_with_def NODE_TYPE_AXIS_REGISTERED_PREFIX_def
        NODE_TYPE_AXIS_PERTURBED_PREFIX_def)
  ultimately show ?thesis
    by (simp add: replay_call_def replay_perturbation_def replay_map_def replay_text_def replay_float_def Let_def n
        axis_perturbed_node_type_def map_get_string_def bt_get_of float)
qed

lemma replay_raw:
  assumes parse: "parse t = Ok delta"
    and ok: "event_ok [(''axis_name'', VString axis), (''delta_repr'', VString t), (''raw_material_hash'', VBytes raw)]"
    and n: "node_type n = ''perturb_from_raw:'' @ axis"
      "content n = event_bytes [(''axis_name'', VString axis), (''delta_repr'', VString t), (''raw_material_hash'', VBytes raw)]"
  shows "replay_call parse n = Ok (Some (CallPerturb axis delta))"
proof -
  have ty: "\<not> starts_with (node_type n) NODE_TYPE_AXIS_REGISTERED_PREFIX"
    "\<not> starts_with (node_type n) NODE_TYPE_AXIS_PERTURBED_PREFIX" "starts_with (node_type n) ''perturb_from_raw:''"
    by (simp_all add: n(1) starts_with_def NODE_TYPE_AXIS_REGISTERED_PREFIX_def NODE_TYPE_AXIS_PERTURBED_PREFIX_def)
  have "decode (content n) = Ok (VMap (bt_of [(''axis_name'', VString axis), (''delta_repr'', VString t),
      (''raw_material_hash'', VBytes raw)]))"
    using decode_event [OF ok] by (simp add: n(2))
  then show ?thesis
    by (simp add: replay_call_def replay_raw_perturbation_def replay_map_def replay_text_def replay_float_def Let_def
        ty map_get_string_def bt_get_of parse)
qed

lemma replay_advanced:
  assumes n: "node_type n = NODE_TYPE_CYCLE_ADVANCED" "content n = encode_cycle_advanced prior new"
  shows "replay_call parse n = Ok (Some (CallAdvance new))"
proof -
  have "event_ok [(''prior_cycle'', VUint prior), (''new_cycle'', VUint new)]"
    using length_event_fields [of "[(''prior_cycle'', VUint prior), (''new_cycle'', VUint new)]"]
    by (simp add: event_ok_def)
  moreover have "\<not> starts_with NODE_TYPE_CYCLE_ADVANCED NODE_TYPE_AXIS_REGISTERED_PREFIX"
    "\<not> starts_with NODE_TYPE_CYCLE_ADVANCED NODE_TYPE_AXIS_PERTURBED_PREFIX"
    "\<not> starts_with NODE_TYPE_CYCLE_ADVANCED ''perturb_from_raw:''"
    by (simp_all add: starts_with_def NODE_TYPE_CYCLE_ADVANCED_def NODE_TYPE_AXIS_REGISTERED_PREFIX_def
        NODE_TYPE_AXIS_PERTURBED_PREFIX_def)
  ultimately show ?thesis
    using decode_event
    by (simp add: replay_call_def replay_advance_def replay_map_def Let_def n encode_cycle_advanced_def bt_get_of opt_uint_def)
qed

section \<open>What the requests leave in the log\<close>

text \<open>The log of \<open>s'\<close> continues that of \<open>s\<close> and gained an event of the type: its emission was not lost.\<close>

definition gained :: "string \<Rightarrow> server_state \<Rightarrow> server_state \<Rightarrow> bool" where
  "gained ty s s' \<longleftrightarrow> (\<exists>ns. iter_in_insertion_order (ss_dag s') = iter_in_insertion_order (ss_dag s) @ ns \<and>
     ty \<in> node_type ` set ns)"

lemma gained_emission:
  assumes "server_inv pf s" and "ignore_act (emit_substrate_event pf ty c) s = (s1, r)" and "gained ty s s1"
  obtains n where "iter_in_insertion_order (ss_dag s1) = iter_in_insertion_order (ss_dag s) @ [n]" "node_type n = ty"
    "content n = c" "server_inv pf s1" "ss_cycle_counter s1 = ss_cycle_counter s"
  using assms(1)
proof (cases rule: emit_cases [where ty = ty and c = c])
  case (failed e)
  then show ?thesis
    using assms(2,3) by (simp add: ignore_act_def gained_def)
next
  case (logged s')
  then show ?thesis
    using assms(2) by (intro that) (auto simp: ignore_act_def logged_node_def same_identity_def)
qed

lemma quarantine_block_not_Ok: "snd (quarantine_block pf now opn s) \<noteq> Ok a"
  by (simp add: quarantine_block_def Let_def bind_act_def lift_act_def split: prod.split result.split)

lemma register_logs:
  assumes inv: "server_inv pf s" and ev: "build_axis_registered_event parse request = Some ev"
    and run: "dispatch_register_axis pf parse repr now python request s = (s', Ok a)"
    and kept: "gained (axis_registered_node_type (are_name ev)) s s'"
  obtains n where "iter_in_insertion_order (ss_dag s') = iter_in_insertion_order (ss_dag s) @ [n]" "server_inv pf s'"
    "node_type n = axis_registered_node_type (are_name ev)" "content n = encode_axis_registered repr ev"
proof -
  let ?emit = "ignore_act (emit_substrate_event pf (axis_registered_node_type (are_name ev)) (encode_axis_registered repr ev))"
  have "\<exists>s1 u. ?emit s = (s1, Ok u) \<and> s' = s1\<lparr>ss_axis_register_count := sat_add (ss_axis_register_count s1) 1\<rparr>"
    using run quarantine_block_not_Ok [of pf now "''register_axis''"]
    unfolding dispatch_register_axis_def ev
    by (auto simp: bind_act_Ok lift_act_def return_act_def count_registration_def modify_act_def split: if_splits)
      (metis snd_conv)+
  then obtain s1 u where 1: "?emit s = (s1, Ok u)"
      "s' = s1\<lparr>ss_axis_register_count := sat_add (ss_axis_register_count s1) 1\<rparr>"
    by blast
  then have "gained (axis_registered_node_type (are_name ev)) s s1"
    using kept by (simp add: gained_def)
  from inv 1(1) this show ?thesis
    by (rule gained_emission) (rule that, auto simp: 1(2) server_inv_def)
qed

lemma perturb_logs:
  assumes inv: "server_inv pf s" and axis: "opt_string (msg_payload request) ''axis_name'' = Some axis"
    and delta: "float_field parse (msg_payload request) ''delta_repr'' = Some delta"
    and run: "dispatch_perturb pf parse repr now python request s = (s', Ok a)"
    and kept: "gained (axis_perturbed_node_type axis) s s'"
  obtains n where "iter_in_insertion_order (ss_dag s') = iter_in_insertion_order (ss_dag s) @ [n]" "server_inv pf s'"
    "node_type n = axis_perturbed_node_type axis" "content n = encode_axis_perturbed repr axis delta"
proof -
  let ?emit = "ignore_act (emit_substrate_event pf (axis_perturbed_node_type axis) (encode_axis_perturbed repr axis delta))"
  have "\<exists>u. ?emit s = (s', Ok u)"
    using run quarantine_block_not_Ok [of pf now "''perturb''"]
    unfolding dispatch_perturb_def axis delta
    by (auto simp: bind_act_Ok lift_act_def return_act_def split: if_splits) (metis snd_conv)+
  then obtain u where "?emit s = (s', Ok u)"
    by blast
  from inv this kept show ?thesis
    by (rule gained_emission) (rule that)
qed

lemma raw_perturb_logs:
  assumes inv: "server_inv pf s" and axis: "opt_string (msg_payload request) ''axis_name'' = Some axis"
    and t: "opt_string (msg_payload request) ''delta_repr'' = Some t"
    and raw: "opt_arr32 (msg_payload request) ''raw_material_hash'' = Some raw"
    and run: "handle_perturb_axis_from_raw_material pf parse repr python request s = (s', Ok a)"
  obtains n where "iter_in_insertion_order (ss_dag s') = iter_in_insertion_order (ss_dag s) @ [n]" "server_inv pf s'"
    "node_type n = ''perturb_from_raw:'' @ axis"
    "content n = event_bytes [(''axis_name'', VString axis), (''delta_repr'', VString t),
       (''raw_material_hash'', VBytes (arr32_bytes raw))]"
proof -
  let ?ps = "case tip (ss_dag s) of Some t \<Rightarrow> if t \<noteq> raw then [t, raw] else [raw] | None \<Rightarrow> [raw]"
  let ?insert = "insert_act pf ''perturb_from_raw DAG insert'' ?ps (''perturb_from_raw:'' @ axis) (ss_cycle_counter s)
      (event_bytes [(''axis_name'', VString axis), (''delta_repr'', VString t),
        (''raw_material_hash'', VBytes (arr32_bytes raw))])"
  have "\<exists>h. ?insert s = (s', Ok h)"
    using run unfolding handle_perturb_axis_from_raw_material_def Let_def axis t raw
    by (auto simp: bind_act_Ok lift_act_def return_act_def)
  then obtain h where ins: "?insert s = (s', Ok h)"
    by blast
  have "set (tip_parents (ss_dag s)) \<subseteq> set ?ps"
    by (auto simp: tip_parents_def split: option.split)
  from inv this not_family_types(5) [of axis] show ?thesis
    by (cases rule: insert_act_cases [where what = "''perturb_from_raw DAG insert''" and cyc = "ss_cycle_counter s"
          and c = "event_bytes [(''axis_name'', VString axis), (''delta_repr'', VString t),
            (''raw_material_hash'', VBytes (arr32_bytes raw))]"])
      (use ins that in \<open>auto simp: node_over_def\<close>)
qed

text \<open>A cycle logs nothing that a replay would tell, but for the event of the cycle itself.\<close>

definition tells_nothing :: "platform \<Rightarrow> 'a action \<Rightarrow> bool" where
  "tells_nothing pf m \<longleftrightarrow> grows_by pf (\<lambda>_. ()) (\<lambda>ty. \<not> gradient_type ty) m"

lemma tells_nothing_unrelated: "unrelated pf m \<Longrightarrow> tells_nothing pf m"
  unfolding unrelated_def tells_nothing_def grows_by_def extends_def by (auto simp: quiet_def)

lemma tells_nothing_bind:
  "tells_nothing pf m \<Longrightarrow> (\<And>a. tells_nothing pf (f a)) \<Longrightarrow> tells_nothing pf (bind_act m f)"
  unfolding tells_nothing_def by (rule grows_bind)

lemma tells_nothing_at:
  assumes "\<And>s. \<exists>m. m s = a s \<and> tells_nothing pf m"
  shows "tells_nothing pf a"
  using assms unfolding tells_nothing_def by (intro grows_cong) blast

lemma tells_nothing_reads: "(\<And>x. tells_nothing pf (f x)) \<Longrightarrow> tells_nothing pf (\<lambda>s. f (g s) s)"
  by (rule tells_nothing_at) blast

lemma tells_nothing_absorb: "tells_nothing pf (absorb_raw pf post pending)"
proof -
  have ty: "\<not> gradient_type (''absorption_event:cycle_'' @ x)" for x
    by (simp add: gradient_type_def starts_with_def NODE_TYPE_AXIS_REGISTERED_PREFIX_def
        NODE_TYPE_AXIS_PERTURBED_PREFIX_def NODE_TYPE_CYCLE_ADVANCED_def)
  let ?insert = "\<lambda>s. insert_act pf ''absorption_event DAG insert'' (push_parents pending (tip_parents (ss_dag s)))
      (''absorption_event:cycle_'' @ u64_str post) post (event_bytes (absorption_fields post pending)) s"
  have insert: "grows_by pf (\<lambda>_. ()) (\<lambda>ty. \<not> gradient_type ty) ?insert"
    by (rule grows_insert, rule ignores_log_unit, simp, rule ty, rule not_family_types)
  show ?thesis
  proof (rule tells_nothing_at)
    fix s :: server_state
    let ?m = "bind_act ?insert (\<lambda>h.
        bind_act (modify_act (\<lambda>s1. s1\<lparr>ss_last_absorbed_cycle := Some (latest_of (ss_dag s) pending)\<rparr>)) (\<lambda>_.
          return_act (Some h)))"
    have "tells_nothing pf ?m"
      unfolding tells_nothing_def by (intro grows_bind insert grows_modify grows_return) simp_all
    moreover have "pending \<noteq> [] \<Longrightarrow> ?m s = absorb_raw pf post pending s"
      by (simp add: absorb_raw_def bind_act_def)
    moreover have "pending = [] \<Longrightarrow> absorb_raw pf post pending s = return_act None s"
      by (simp add: absorb_raw_def)
    moreover have "tells_nothing pf (return_act None :: arr32 option action)"
      unfolding tells_nothing_def by (rule grows_return)
    ultimately show "\<exists>m. m s = absorb_raw pf post pending s \<and> tells_nothing pf m"
      by (cases "pending = []") (blast intro: exI [of _ ?m] exI [of _ "return_act None"] dest: sym)+
  qed
qed

lemma tells_nothing_commit: "tells_nothing pf (commit_cycle pf repr now elapsed_ms post pending ar cr request)"
proof -
  have rest: "tells_nothing pf (bind_act (prune_step pf now post) (\<lambda>pruned. bind_act (backlog_step pf now elapsed_ms) (\<lambda>_.
      bind_act (apply_hunger_and_emit pf (now C74_INGESTION_STARVATION_DETECTOR_ID) post) (\<lambda>_. return_act (g pruned)))))"
    for g :: "(string \<times> Value) list \<Rightarrow> message option"
    by (intro tells_nothing_unrelated unrelated_combine unrelated_prune_step unrelated_backlog unrelated_hunger)
  have absorb: "tells_nothing pf (bind_act (absorb_raw pf post pending) (\<lambda>absorption s.
      let fields = advance_fields repr post ar cr hashes proposals absorption (ss_dag s) in
      bind_act (prune_step pf now post) (\<lambda>pruned. bind_act (backlog_step pf now elapsed_ms) (\<lambda>_.
      bind_act (apply_hunger_and_emit pf (now C74_INGESTION_STARVATION_DETECTOR_ID) post) (\<lambda>_.
        return_act (response MSG_ADVANCE_RESPONSE request
          (fields @ pruned @ [(''cycle_duration_ms'', VUint (word_of_nat elapsed_ms))]))))) s))" for hashes proposals
    unfolding Let_def
    by (rule tells_nothing_bind [OF tells_nothing_absorb], rule tells_nothing_reads [where g = ss_dag], rule rest)
  show ?thesis
    unfolding commit_cycle_def
    by (rule tells_nothing_bind [OF tells_nothing_unrelated [OF unrelated_sporocarps]])
      (use absorb in \<open>simp add: Let_def split: prod.split\<close>)
qed

lemma handle_advance_quiet:
  assumes "server_inv pf s" and "handle_advance pf repr now elapsed_ms (Some call) request s = (s', Ok a)"
  shows "extends pf (\<lambda>_. ()) (\<lambda>ty. \<not> gradient_type ty) s s'" and "ss_cycle_counter s \<noteq> - 1"
    and "\<exists>r. call (ss_cycle_counter s + 1) = Ok r"
proof -
  let ?ctx = "advance_context (verify_all (pf_hash pf) (ss_dag s)) (pending_absorption s) (recent_breaches s) call"
  obtain eng post report r where run: "run_cycle ?ctx (ss_cycle_engine s, ss_cycle_counter s, None) = ((eng, post, report), r)"
    by (metis prod.collapse)
  have failed: "snd (bind_act m (\<lambda>_. lift_act (Err e)) t) \<noteq> Ok b" for m :: "unit action" and e t and b :: "message option"
    by (simp add: bind_act_def lift_act_def split: prod.split result.split)
  obtain cr ar where ok: "r = Ok cr" and commit: "commit_cycle pf repr now elapsed_ms post (pending_absorption s) ar cr request
      (s\<lparr>ss_cycle_engine := eng\<rparr>) = (s', Ok a)"
    using assms(2) failed unfolding handle_advance_def Let_def by (auto simp: run split: result.splits if_splits) (metis snd_conv)+
  have inv: "server_inv pf (s\<lparr>ss_cycle_engine := eng\<rparr>)"
    using assms(1) by (simp add: server_inv_def)
  from grows_byD [OF tells_nothing_commit [unfolded tells_nothing_def] inv commit]
  show "extends pf (\<lambda>_. ()) (\<lambda>ty. \<not> gradient_type ty) s s'"
    by (simp add: extends_def)
  show "ss_cycle_counter s \<noteq> - 1" "\<exists>r. call (ss_cycle_counter s + 1) = Ok r"
    using run ok
    by (cases "verify_all (pf_hash pf) (ss_dag s)"; cases "call (ss_cycle_counter s + 1)";
        auto simp: run_cycle_def run_steps_def advance_context_def advance_step_def Let_def split: if_splits)+
qed

lemma sat_add_room: "c \<noteq> - 1 \<Longrightarrow> sat_add c 1 = c + 1" for c :: u64
  using unat_bound [of c] word_unat_eq_iff [of c "- 1"]
  by (simp add: sat_add_def unsigned_minus_1_eq_mask mask_eq_exp_minus_1)

lemma advance_logs:
  assumes inv: "server_inv pf s" and kept: "gained NODE_TYPE_CYCLE_ADVANCED s s'"
    and run: "dispatch_advance pf repr now elapsed_ms (Some call) python saved request s = (s', Ok a)"
  obtains ms n ks where
    "iter_in_insertion_order (ss_dag s') = iter_in_insertion_order (ss_dag s) @ ms @ n # ks" "server_inv pf s'"
    "\<forall>m\<in>set (ms @ ks). \<not> gradient_type (node_type m)" "node_type n = NODE_TYPE_CYCLE_ADVANCED"
    "content n = encode_cycle_advanced (ss_cycle_counter s) (ss_cycle_counter s + 1)"
proof -
  obtain s1 answer where 1: "handle_advance pf repr now elapsed_ms (Some call) request s = (s1, Ok answer)"
    and rest: "bind_act (bump_cycle pf) (\<lambda>_. bind_act (case answer of
        Some m \<Rightarrow> ignore_act (run_migration_step pf now python saved m) | None \<Rightarrow> return_act ()) (\<lambda>_. return_act answer)) s1
      = (s', Ok a)"
    using run by (auto simp: dispatch_advance_def bind_act_Ok split: if_splits)
  have cycle: "extends pf (\<lambda>_. ()) (\<lambda>ty. \<not> gradient_type ty) s s1" and room: "ss_cycle_counter s \<noteq> - 1"
    using handle_advance_quiet [OF inv 1] by simp_all
  then obtain ms where ms: "iter_in_insertion_order (ss_dag s1) = iter_in_insertion_order (ss_dag s) @ ms"
      "\<forall>m\<in>set ms. \<not> gradient_type (node_type m)"
    and s1: "server_inv pf s1" "ss_cycle_counter s1 = ss_cycle_counter s"
    by (auto simp: extends_def)
  let ?t = "s1\<lparr>ss_cycle_counter := ss_cycle_counter s + 1\<rparr>"
  let ?c = "encode_cycle_advanced (ss_cycle_counter s) (ss_cycle_counter s + 1)"
  have bump: "bump_cycle pf s1 = ignore_act (emit_substrate_event pf NODE_TYPE_CYCLE_ADVANCED ?c) ?t"
    by (simp add: bump_cycle_def Let_def s1(2) sat_add_room [OF room])
  obtain s2 u where 2: "bump_cycle pf s1 = (s2, Ok u)" and tail: "bind_act (case answer of
        Some m \<Rightarrow> ignore_act (run_migration_step pf now python saved m) | None \<Rightarrow> return_act ()) (\<lambda>_. return_act answer) s2
      = (s', Ok a)"
    using rest unfolding bind_act_Ok [of "bump_cycle pf"] by blast
  have after: "\<exists>ks. iter_in_insertion_order (ss_dag s') = iter_in_insertion_order (ss_dag s2) @ ks \<and>
      (\<forall>m\<in>set ks. \<not> gradient_type (node_type m)) \<and> server_inv pf s'" if "server_inv pf s2"
  proof -
    have "tells_nothing pf (bind_act (case answer of
        Some m \<Rightarrow> ignore_act (run_migration_step pf now python saved m) | None \<Rightarrow> return_act ()) (\<lambda>_. return_act answer))"
      by (rule tells_nothing_unrelated) (auto intro!: unrelated_combine unrelated_migration split: option.split)
    from grows_byD [OF this [unfolded tells_nothing_def] that tail] show ?thesis
      by (auto simp: extends_def)
  qed
  have t: "server_inv pf ?t"
    using s1(1) by (simp add: server_inv_def)
  then show ?thesis
  proof (cases rule: emit_cases [where ty = NODE_TYPE_CYCLE_ADVANCED and c = ?c])
    case (failed e)
    then have "s2 = ?t"
      using 2 by (simp add: bump ignore_act_def)
    moreover have "gradient_type NODE_TYPE_CYCLE_ADVANCED"
      by (simp add: gradient_type_def)
    ultimately show ?thesis
      using kept after t ms by (auto simp: gained_def) metis+
  next
    case (logged s3)
    then have s2: "s2 = s3"
      using 2 by (simp add: bump ignore_act_def)
    obtain ks where "iter_in_insertion_order (ss_dag s') = iter_in_insertion_order (ss_dag s3) @ ks" "server_inv pf s'"
        "\<forall>m\<in>set ks. \<not> gradient_type (node_type m)"
      using after logged(2) unfolding s2 by blast
    then show ?thesis
      using logged(5) ms
      by (intro that [of ms "logged_node (pf_hash pf) (ss_dag ?t) NODE_TYPE_CYCLE_ADVANCED (ss_cycle_counter ?t) ?c" ks])
        (auto simp: logged_node_def)
  qed
qed

section \<open>Sessions\<close>

text \<open>
  A session from a log without calls on, with what its worker was told: the answered requests that
  register or perturb an axis, the answered cycles, each with its event in the log; and between them
  anything that logs no such event.
\<close>

inductive worker_session :: "platform \<Rightarrow> 'f parse_fn \<Rightarrow> ('f \<Rightarrow> string) \<Rightarrow> 'f worker_call list \<Rightarrow> server_state \<Rightarrow> bool"
  for pf :: platform and parse :: "'f parse_fn" and repr :: "'f \<Rightarrow> string" where
  untold: "worker_session pf parse repr [] s"
    if "server_inv pf s" "\<forall>n\<in>set (iter_in_insertion_order (ss_dag s)). \<not> gradient_type (node_type n)"
| registered: "worker_session pf parse repr (cs @ [CallRegister ev]) s'"
    if "worker_session pf parse repr cs s" "build_axis_registered_event parse request = Some ev"
      "event_ok (axis_fields repr ev)" "dispatch_register_axis pf parse repr now python request s = (s', Ok a)"
      "gained (axis_registered_node_type (are_name ev)) s s'"
| perturbed: "worker_session pf parse repr (cs @ [CallPerturb axis delta]) s'"
    if "worker_session pf parse repr cs s" "opt_string (msg_payload request) ''axis_name'' = Some axis"
      "float_field parse (msg_payload request) ''delta_repr'' = Some delta"
      "event_ok [(''axis_name'', VString axis), (''delta_repr'', VString (repr delta))]"
      "dispatch_perturb pf parse repr now python request s = (s', Ok a)" "gained (axis_perturbed_node_type axis) s s'"
| perturbed_from_raw: "worker_session pf parse repr (cs @ [CallPerturb axis delta]) s'"
    if "worker_session pf parse repr cs s" "opt_string (msg_payload request) ''axis_name'' = Some axis"
      "opt_string (msg_payload request) ''delta_repr'' = Some t" "parse t = Ok delta"
      "opt_arr32 (msg_payload request) ''raw_material_hash'' = Some raw"
      "event_ok [(''axis_name'', VString axis), (''delta_repr'', VString t), (''raw_material_hash'', VBytes (arr32_bytes raw))]"
      "handle_perturb_axis_from_raw_material pf parse repr python request s = (s', Ok a)"
| cycled_on: "worker_session pf parse repr (cs @ [CallAdvance (ss_cycle_counter s + 1)]) s'"
    if "worker_session pf parse repr cs s"
      "dispatch_advance pf repr now elapsed_ms (Some call) python saved request s = (s', Ok a)"
      "gained NODE_TYPE_CYCLE_ADVANCED s s'"
| between: "worker_session pf parse repr cs s'"
    if "worker_session pf parse repr cs s" "extends pf (\<lambda>_. ()) (\<lambda>ty. \<not> gradient_type ty) s s'"

lemma logged_calls_none: "\<forall>n\<in>set ns. \<not> gradient_type (node_type n) \<Longrightarrow> logged_calls parse ns = Ok []"
  using logged_calls_others [of parse "[]" "[]" ns] by (simp add: logged_calls_def List.map_filter_simps)

lemma session_logged:
  assumes float: "\<And>x. parse (repr x) = Ok x" and "worker_session pf parse repr cs s"
  shows "server_inv pf s \<and> logged_calls parse (iter_in_insertion_order (ss_dag s)) = Ok cs"
  using assms(2)
proof (induction rule: worker_session.induct)
  case (untold s)
  then show ?case
    by (simp add: logged_calls_none)
next
  case (registered cs s request ev now python s' a)
  then have inv: "server_inv pf s" and cs: "logged_calls parse (iter_in_insertion_order (ss_dag s)) = Ok cs"
    by simp_all
  from inv registered(2,4,5) obtain n where
    "iter_in_insertion_order (ss_dag s') = iter_in_insertion_order (ss_dag s) @ [n]" "server_inv pf s'"
    "node_type n = axis_registered_node_type (are_name ev)" "content n = encode_axis_registered repr ev"
    by (rule register_logs)
  then show ?case
    using logged_calls_append [OF cs replay_registered [OF float registered(3)]] by simp
next
  case (perturbed cs s request axis delta now python s' a)
  then have inv: "server_inv pf s" and cs: "logged_calls parse (iter_in_insertion_order (ss_dag s)) = Ok cs"
    by simp_all
  from inv perturbed(2,3,5,6) obtain n where
    "iter_in_insertion_order (ss_dag s') = iter_in_insertion_order (ss_dag s) @ [n]" "server_inv pf s'"
    "node_type n = axis_perturbed_node_type axis" "content n = encode_axis_perturbed repr axis delta"
    by (rule perturb_logs)
  then show ?case
    using logged_calls_append [OF cs replay_perturbed [OF float perturbed(4)]] by simp
next
  case (perturbed_from_raw cs s request axis t delta raw python s' a)
  then have inv: "server_inv pf s" and cs: "logged_calls parse (iter_in_insertion_order (ss_dag s)) = Ok cs"
    by simp_all
  from inv perturbed_from_raw(2,3,5,7) obtain n where
    log: "iter_in_insertion_order (ss_dag s') = iter_in_insertion_order (ss_dag s) @ [n]" "server_inv pf s'"
    and n: "node_type n = ''perturb_from_raw:'' @ axis" "content n = event_bytes [(''axis_name'', VString axis),
      (''delta_repr'', VString t), (''raw_material_hash'', VBytes (arr32_bytes raw))]"
    by (rule raw_perturb_logs)
  have "replay_call parse n = Ok (Some (CallPerturb axis delta))"
    by (rule replay_raw [where raw = "arr32_bytes raw" and t = t]) (fact perturbed_from_raw(4,6) n)+
  then show ?case
    using logged_calls_append [OF cs] log by simp
next
  case (cycled_on cs s now elapsed_ms call python saved request s' a)
  then have inv: "server_inv pf s" and cs: "logged_calls parse (iter_in_insertion_order (ss_dag s)) = Ok cs"
    by simp_all
  from inv cycled_on(3,2) obtain ms n ks where
    log: "iter_in_insertion_order (ss_dag s') = iter_in_insertion_order (ss_dag s) @ ms @ n # ks" and inv': "server_inv pf s'"
    and others: "\<forall>m\<in>set (ms @ ks). \<not> gradient_type (node_type m)"
    and n: "node_type n = NODE_TYPE_CYCLE_ADVANCED" "content n = encode_cycle_advanced (ss_cycle_counter s) (ss_cycle_counter s + 1)"
    by (rule advance_logs)
  have "logged_calls parse (iter_in_insertion_order (ss_dag s) @ ms) = Ok cs"
    by (rule logged_calls_others [OF cs]) (use others in simp)
  from logged_calls_append [OF this replay_advanced [OF n]]
  have "logged_calls parse (iter_in_insertion_order (ss_dag s) @ ms @ [n]) = Ok (cs @ [CallAdvance (ss_cycle_counter s + 1)])"
    by simp
  from logged_calls_others [OF this, of ks] show ?case
    using log inv' others by simp
next
  case (between cs s s')
  then show ?case
    using logged_calls_others by (fastforce simp: extends_def)
qed

section \<open>The restart\<close>

text \<open>
  C5. A restart tells the new worker what the old one was told. Over any session of requests and
  cycles, when the substrate starts again over the log that the session left and an operator says hello,
  the worker that it spawns and that loads nothing is told exactly the registrations, perturbations and
  cycles of the session, in their order; the hello is answered when the worker takes them all, and
  otherwise fails with the worker's error and leaves the handshake open.
\<close>

theorem restart_tells_the_session:
  assumes "worker_session pf parse repr cs s" and "\<And>x. parse (repr x) = Ok x"
    and "ss_dag s2 = ss_dag s" and "log_is_authoritative (ss_dag s) = Ok True" and "\<not> ss_handshake_complete s2"
    and "opt_arr32 (msg_payload request) ''session_secret'' = Some secret"
    and "py_spawn py secret = Ok (w0, py_version, kt_version)" and "py_load py True w0 = (w1, Ok l)"
    and "handle_hello pf parse repr diff moved py version request s2 = (s3, r)"
  shows "ss_dag s3 = ss_dag s \<and> (case tell_calls (py_tell py) cs w1 of
      (w2, Ok _) \<Rightarrow> ss_handshake_complete s3 \<and> (\<exists>m. r = Ok (w2, Some m))
    | (_, Err e) \<Rightarrow> \<not> ss_handshake_complete s3 \<and> r = Err e
    | (_, Abort x) \<Rightarrow> \<not> ss_handshake_complete s3 \<and> r = Abort x)"
proof -
  have "replay_python_events_from_dag (py_tell py) parse (ss_dag s) w1 = tell_calls (py_tell py) cs w1"
    unfolding replay_python_events_from_dag_def
    by (rule replay_nodes_calls) (use session_logged [OF assms(2,1)] in simp)
  then show ?thesis
    using assms(3-9)
    by (cases "snd (tell_calls (py_tell py) cs w1)")
      (auto simp: handle_hello_def bind_act_def lift_act_def modify_act_def lift_worker_def response_def split: prod.splits)
qed

text \<open>A newborn's log, the request that perturbs an axis, and a worker that keeps what it is told.\<close>

definition birth_node :: dag_node where
  "birth_node = \<lparr>node_hash = 0, parent_hashes = [], node_type = genesis_event_node_type 7, created_at_cycle = 0,
     content = encode_genesis_event 7 0 0\<rparr>"

definition perturbed_node :: dag_node where
  "perturbed_node = \<lparr>node_hash = 1, parent_hashes = [0], node_type = axis_perturbed_node_type ''a'', created_at_cycle = 0,
     content = encode_axis_perturbed (\<lambda>_. ''0'') ''a'' ()\<rparr>"

definition born :: server_state where
  "born = blank_state\<lparr>ss_dag := \<lparr>nodes = [(0, birth_node)], insertion_order = [0], tip = Some 0\<rparr>\<rparr>"

definition told :: server_state where
  "told = born\<lparr>ss_dag := \<lparr>nodes = [(0, birth_node), (1, perturbed_node)], insertion_order = [0, 1], tip = Some 1\<rparr>\<rparr>"

definition nudge :: message where
  "nudge = new_message MSG_PERTURB 3 (bt_of [(''axis_name'', VString ''a''), (''delta_repr'', VString ''0'')])"

definition hello :: message where
  "hello = new_message ''hello'' 4 (bt_of [(''session_secret'', VBytes (arr32_bytes 9))])"

definition diary :: "(unit, unit worker_call list) python_side" where
  "diary = \<lparr>py_spawn = (\<lambda>_. Ok ([], ''3'', ''1'')), py_load = (\<lambda>_ w. (w, Ok (0, True))),
     py_tell = (\<lambda>c w. (w @ [c], Ok ())), py_schemas = (\<lambda>w. (w, Ok []))\<rparr>"

lemma log_types:
  "genesis_event_node_type 7 \<noteq> []" "axis_perturbed_node_type x \<noteq> []"
  "\<not> is_cultivation_family_node_type (genesis_event_node_type sid)"
  "\<not> is_cultivation_family_node_type (axis_perturbed_node_type x)"
  "\<not> gradient_type (genesis_event_node_type sid)"
  by (simp_all add: is_cultivation_family_node_type_def starts_with_def NODE_TYPE_BET_RETIRED_PREFIX_def
      NODE_TYPE_CULTIVATION_RECOVERED_PREFIX_def NODE_TYPE_CULTIVATION_ORPHANED_PREFIX_def
      NODE_TYPE_SUCCESSION_COMPLETED_PREFIX_def genesis_event_node_type_def NODE_TYPE_GENESIS_PREFIX_def
      axis_perturbed_node_type_def NODE_TYPE_AXIS_PERTURBED_PREFIX_def NODE_TYPE_AXIS_REGISTERED_PREFIX_def
      gradient_type_def NODE_TYPE_CYCLE_ADVANCED_def)

lemma born_inv: "server_inv chain_platform born" "iter_in_insertion_order (ss_dag born) = [birth_node]"
proof -
  have "emit_substrate_event chain_platform (genesis_event_node_type 7) (encode_genesis_event 7 0 0) blank_state = (born, Ok 0)"
    using log_types by (simp add: emit_substrate_event_def insert_node_def blank_state_def dag_new_def tip_parents_def
        check_parents_def dag_get_def Let_def born_def birth_node_def)
  with server_inv_blank [of chain_platform] show "server_inv chain_platform born"
    by (cases rule: emit_cases [where ty = "genesis_event_node_type 7" and c = "encode_genesis_event 7 0 0"]) auto
  show "iter_in_insertion_order (ss_dag born) = [birth_node]"
    by (simp add: born_def iter_in_insertion_order_def dag_get_def List.map_filter_simps)
qed

lemma told_log: "iter_in_insertion_order (ss_dag told) = [birth_node, perturbed_node]"
  by (simp add: told_def iter_in_insertion_order_def dag_get_def List.map_filter_simps)

lemma told_run:
  "\<exists>a. dispatch_perturb chain_platform (\<lambda>_. Ok ()) (\<lambda>_. ''0'') 0 (Some (\<lambda>_ _. Ok (new_message MSG_PERTURB_ACK 3 [])))
     nudge born = (told, Ok a)"
proof -
  have emit: "emit_substrate_event chain_platform (axis_perturbed_node_type ''a'') (encode_axis_perturbed (\<lambda>_. ''0'') ''a'' ()) born
      = (told, Ok 1)"
    using log_types by (subst chain_emit [of _ 0]) (simp_all add: born_def told_def perturbed_node_def dag_get_def blank_state_def)
  have "is_in_birth_period_quarantine born = (Ok False :: (_, substrate_error) result)"
    by (simp add: is_in_birth_period_quarantine_def current_quarantine_state_def born_inv birth_node_def quarantine_step_def
        genesis_event_node_type_def NODE_TYPE_GENESIS_PREFIX_def starts_with_def
        NODE_TYPE_BIRTH_PERIOD_QUARANTINE_ENTERED_def NODE_TYPE_BIRTH_PERIOD_QUARANTINE_LIFTED_def)
  moreover have "forward_to_python (Some (\<lambda>_ _. Ok (new_message MSG_PERTURB_ACK 3 []))) nudge MSG_PERTURB_ACK =
      Ok (Some (new_message MSG_PERTURB_ACK 3 []))"
    by (simp add: forward_to_python_def forward_message_def expected_response_def nudge_def new_message_def
        MSG_PERTURB_def MSG_REGISTER_AXIS_def)
  ultimately show ?thesis
    using emit by (simp add: dispatch_perturb_def bind_act_def lift_act_def return_act_def ignore_act_def nudge_def new_message_def
        bt_get_of opt_string_def float_field_def)
qed

lemma told_session: "worker_session chain_platform (\<lambda>_. Ok ()) (\<lambda>_. ''0'') [CallPerturb ''a'' ()] told"
proof -
  have "worker_session chain_platform (\<lambda>_. Ok ()) (\<lambda>_. ''0'') [] born"
    by (rule worker_session.untold [OF born_inv(1)]) (simp add: born_inv(2) birth_node_def log_types)
  moreover have "event_ok [(''axis_name'', VString ''a''), (''delta_repr'', VString ''0'')]"
    by (rule event_okI) simp_all
  moreover have "gained (axis_perturbed_node_type ''a'') born told"
    by (simp add: gained_def born_inv told_log perturbed_node_def)
  ultimately show ?thesis
    using worker_session.perturbed [where cs = "[]" and axis = "''a''" and request = nudge] told_run
    by (fastforce simp: nudge_def new_message_def bt_get_of opt_string_def float_field_def)
qed

lemma told_authoritative: "log_is_authoritative (ss_dag told) = Ok True"
proof -
  let ?es = "[Genesis 7 0 0, Unrelated (axis_perturbed_node_type ''a'') (content perturbed_node)]"
  have "list_all2 encodes (iter_in_insertion_order (ss_dag told)) ?es"
    by (simp add: told_log encodes_def birth_node_def perturbed_node_def)
  moreover have "list_all event_fits ?es"
    by (simp add: tracked_def type_defs axis_perturbed_node_type_def NODE_TYPE_AXIS_PERTURBED_PREFIX_def)
  ultimately have "from_dag (ss_dag told) = Ok (derived_empty\<lparr>ds_substrate_id := Some 7, ds_genesis_time := Some 0\<rparr>)"
    using replay_encoded [of "iter_in_insertion_order (ss_dag told)" ?es "Some (ss_dag told)" derived_empty]
    by (simp add: from_dag_def derived_empty_def)
  then show ?thesis
    by (simp add: log_is_authoritative_def is_post_m21_substrate_def)
qed

lemma restart_tells_the_session_witness:
  "\<exists>s3 m. handle_hello chain_platform (\<lambda>_. Ok ()) (\<lambda>_. ''0'') (\<lambda>_ _. ()) (\<lambda>_. False) diary ''1'' hello told =
     (s3, Ok ([CallPerturb ''a'' ()], Some m)) \<and> ss_handshake_complete s3"
proof -
  obtain s3 r where run: "handle_hello chain_platform (\<lambda>_. Ok ()) (\<lambda>_. ''0'') (\<lambda>_ _. ()) (\<lambda>_. False) diary ''1'' hello told =
      (s3, r)"
    by fastforce
  have "\<not> ss_handshake_complete told" "opt_arr32 (msg_payload hello) ''session_secret'' = Some 9"
    by (simp_all add: told_def born_def blank_state_def hello_def new_message_def opt_arr32_def opt_bytes_def bt_get_of bytes_arr32_def)
  from restart_tells_the_session [OF told_session _ HOL.refl told_authoritative this _ _ run]
  show ?thesis
    using run by (simp add: diary_def)
qed

end
