(* ===== verification/Spec2Isabelle.thy ===== *)
theory Spec2Isabelle
  imports Active_Prefix Cold_Resume Dag_Codec Ssot Spore Migration Envelope Surface Handshake Wal
    Bridge_Client Snapshot_Boot Consensus Prune_Safety Events_Attested Intake_Rules
    Federation_Envelopes Coherence Mutation_Rules Worker_Sessions
begin

text \<open>
  A verification development for the Rust kernel of the Myco substrate (\<^verbatim>\<open>kernel/\<close>) and the
  core of its server (\<^verbatim>\<open>substrate/\<close>).

  \<^bold>\<open>The program.\<close> A substrate is a long-lived process with an append-only causal DAG, an appetite
  gradient advanced by a Python worker, and a skin through which operators and peers reach it. The
  kernel crates hold its rules: \<^verbatim>\<open>shared\<close> (serialisation and hashing), \<^verbatim>\<open>continuity\<close> (the
  metabolic cycle, dormancy, the write-ahead log, cold resume), \<^verbatim>\<open>schema\<close> (the DAG, the
  registered fields, spores, migrations), \<^verbatim>\<open>skin\<close> (intake, output, the operator handshake) and
  \<^verbatim>\<open>bridge\<close> (the pipe to the worker). The \<^verbatim>\<open>substrate\<close> crate is the server: its log is the
  DAG, every event is a node, its state is derived from the log, and its requests, its peers' votes
  and its own scans append to it.

  \<^bold>\<open>Theories and sources.\<close>
  \<^item> \<open>Prelude\<close>: machine integers, Rust's \<^verbatim>\<open>Result\<close> with panics, big-endian bytes, UTF-8, and
    the locales \<open>guarded_machine\<close>, \<open>terminating_machine\<close> and \<open>codec\<close> that several
    components interpret.
  \<^item> \<open>Ordered_Map\<close>: \<^verbatim>\<open>BTreeMap<String, V>\<close> and its interface \<open>dictionary\<close>.
  \<^item> \<open>Canonical_Bytes\<close>: \<^verbatim>\<open>kernel/shared/src/canonical_bytes.rs\<close>; the decoder works on the
    whole buffer and a cursor as the code does.
  \<^item> \<open>Crypto\<close>: \<^verbatim>\<open>crypto.rs\<close>, \<^verbatim>\<open>sealed_derive.rs\<close>; \<open>Active_Prefix\<close>:
    \<^verbatim>\<open>active_prefix.rs\<close>.
  \<^item> \<open>Cycle\<close>, \<open>Dormancy\<close>, \<open>Quarantine\<close>, \<open>Cold_Resume\<close>, \<open>Wal\<close>: the files of
    those names in \<^verbatim>\<open>kernel/continuity/src\<close>.
  \<^item> \<open>Dag\<close> and \<open>Dag_Codec\<close>: \<^verbatim>\<open>kernel/schema/src/dag.rs\<close>; \<open>Ssot\<close>: \<^verbatim>\<open>ssot.rs\<close>
    and \<^verbatim>\<open>validation.rs\<close>; \<open>Spore\<close>, \<open>Migration\<close>: the files of those names.
  \<^item> \<open>Envelope\<close>, \<open>Surface\<close> (with \<^verbatim>\<open>egress_enforce.rs\<close> and \<^verbatim>\<open>output_gate.rs\<close>) and
    \<open>Handshake\<close>: \<^verbatim>\<open>kernel/skin/src\<close>.
  \<^item> \<open>Framing\<close>, \<open>Bridge_Protocol\<close>, \<open>Bridge_Client\<close>: \<^verbatim>\<open>kernel/bridge/rust/src\<close>.
  \<^item> \<open>Events_Core\<close>, \<open>Events_Federation\<close>, \<open>Events_Consensus\<close>, \<open>Events_Attested\<close>: the
    encoders and decoders of \<^verbatim>\<open>substrate/src/events\<close>.
  \<^item> \<open>Derived_State\<close>, \<open>Event_Log\<close>: the replay of \<^verbatim>\<open>derived_state.rs\<close> and the abstract effects it
    computes; \<open>Snapshot_Boot\<close>: \<^verbatim>\<open>persistence/snapshot.rs\<close>, the snapshot codecs and the boot that
    uses them.
  \<^item> \<open>Server_State\<close>, \<open>Immune\<close>, \<open>Cultivation\<close>: the server's state, its two ways of appending an event
    (\<^verbatim>\<open>server/mod.rs\<close>), and the requests of \<^verbatim>\<open>cultivation.rs\<close> and \<^verbatim>\<open>lifecycle.rs\<close>, written
    with \<open>bind_act\<close> as actions on the state.
  \<^item> \<open>Consensus\<close>: \<^verbatim>\<open>consensus.rs\<close>; \<open>Wall_Clock\<close>: \<^verbatim>\<open>wall_clock.rs\<close>, as interleaved atomic steps.
  \<^item> \<open>Prune\<close> and \<open>Prune_Safety\<close>: \<^verbatim>\<open>prune.rs\<close>, and what its scan does to a log.
  \<^item> \<open>Log_Actions\<close>: the actions that append to the log, and what a sequence of them keeps.
  \<^item> \<open>Saturation\<close>: the cost of a cycle and the stages of \<^verbatim>\<open>observatory.rs\<close>.
  \<^item> \<open>Ingest\<close>, \<open>Advance\<close>: \<^verbatim>\<open>ingest.rs\<close> (intake, hunger, the cycle, the steps of a migration) and
    the \<^verbatim>\<open>ADVANCE\<close> arm of \<^verbatim>\<open>server/dispatch.rs\<close>; \<open>Absorption\<close> and \<open>Intake_Rules\<close>: what
    they do over whole runs.
  \<^item> \<open>Submit_Mutation\<close>: the mutations of \<^verbatim>\<open>attestation.rs\<close>, and in \<open>Mutation_Rules\<close> what a
    submission can change; \<open>Dag_Query\<close>: the questions of \<^verbatim>\<open>dag_query.rs\<close>, and in \<open>Query_Rules\<close>
    what their answers tell.
  \<^item> \<open>Worker_Replay\<close>: the requests that \<^verbatim>\<open>server/mod.rs\<close> and \<^verbatim>\<open>server/dispatch.rs\<close> forward to the
    worker, the replay and the backfill of \<^verbatim>\<open>persistence_runtime.rs\<close> and the hello of
    \<^verbatim>\<open>handshake.rs\<close>; \<open>Worker_Sessions\<close>: a restart against the session before it.
  \<^item> \<open>Federation_Protocol\<close>: \<^verbatim>\<open>federation/protocol.rs\<close>, \<^verbatim>\<open>transport.rs\<close> and the state of
    \<^verbatim>\<open>federation/mod.rs\<close> (the field \<open>ss_federation\<close> of the server's state); \<open>Federation\<close>: the
    operations of \<^verbatim>\<open>mod.rs\<close>; \<open>Federation_Handlers\<close> and \<open>Federation_Pull\<close>: the requests of
    \<^verbatim>\<open>federation/handlers.rs\<close>. A TCP stream is what its reads will meet and what was written to
    it, so two substrates are joined by giving one the other's output. What follows from them is in
    \<open>Federation_Wire\<close> (one batch), \<open>Federation_Safety\<close> (who gets established),
    \<open>Federation_Paging\<close> (what a peer receives) and \<open>Federation_Envelopes\<close> (what a pull stores).
  \<^item> \<open>Integrity\<close>: the checks of \<^verbatim>\<open>integrity.rs\<close>; \<open>Autonomous\<close>: the tick of an idle substrate in
    \<^verbatim>\<open>server/autonomous.rs\<close> with \<^verbatim>\<open>python_call_health.rs\<close> and \<^verbatim>\<open>persistence_health.rs\<close>;
    \<open>Coherence\<close>: the counter against the log over requests and ticks together.

  \<^bold>\<open>How code becomes definitions.\<close> A struct is a record, an enum a datatype with its
  constructors, a function a definition of its name. A method that mutates takes the state and
  returns it updated beside its result; a trait object is a function or a record of functions; a
  \<^verbatim>\<open>HashMap\<close> is an association list without repeated keys whose order stands for the
  unspecified iteration order; the clock, BLAKE3, SHA-256, HMAC, Ed25519 and the operating system
  are arguments. Unsigned integers keep their width. Error texts keep the fixed part of their
  format, and the interpolated values where a test or a caller could see a difference. A panic is
  \<open>Abort Panicked\<close>.

  \<^bold>\<open>What the lemmas show.\<close>
  \<^item> Codecs: every persisted or sent form is read back as it was, within the allocation bound of
    \<^verbatim>\<open>2^63\<close> bytes, and determines what it came from; hence the hash and HMAC bindings, each
    under the hypothesis that the function does not collide on the two inputs at hand.
  \<^item> State machines (dormancy, write-ahead log, DAG, handshake): an invariant of every run from the
    initial state, operations that fail change nothing, destroyed stays destroyed. Dormancy refines
    an abstract lifecycle relation.
  \<^item> Exactness: validation, surface construction, routing, the migration window and the quarantine
    window are characterised by what they accept, not only bounded.
  \<^item> The bridge: reading is independent of chunking, what is sent arrives in order, altered frames
    are refused, a response belongs to one call, and a timeout disables the client.
  \<^item> The derived state: replaying a log computes the abstract effects of its events, and a boot from
    a snapshot with the replay of the tail equals the full replay.
  \<^item> The server: every request keeps the log well formed and the memoized cultivation state coherent;
    a quorum gate lets through only what a quorum signed; a scan adds tombstones of old, unprotected
    parts and nothing else, none of them twice.
  \<^item> Metabolism: the stage of saturation is a function of the history of over-budget cycles, and so
    is the refusal of intake; every raw material is absorbed exactly once; a migration ends with its
    window.
  \<^item> Mutations: an answer says that a mutation was accepted exactly when it was recorded, a refused
    one leaves signals and perhaps the outcome of a schema change, a compression names only nodes that
    are old enough and unprotected, and one migration is in flight at a time.
  \<^item> The worker: after a restart a new worker is told exactly what the requests and cycles of the
    session before told the old one, as far as the log took their events.
  \<^item> Queries: enumerations join to the whole log, and the index of plates follows the deposits.
  \<^item> Federation: a connection is kept as established only for a peer that sent an acceptable hello;
    a peer reads only runs of the log, and page after page the whole of it; a pull stores nothing
    but envelopes whose every layer may cross, five layers at most. A batch arrives as it was sent
    or is refused for its size, and an undecodable body of a peer panics.
  \<^item> Self-driven cycles: cycles that are only counted are accounted for, so that the counter and
    the log never disagree, and no cycle that must scan is skipped.

  \<^bold>\<open>Fuel and termination.\<close> Only the decoder takes fuel, one more than the buffer's length;
  \<open>sound_decode_into\<close> shows that it is never used up, as every nested item starts behind a tag.
  Every other loop terminates by structure or by a measure: the varint loop by its value, reading
  by the bytes still to come, the walk over the log's edges by the hashes not yet visited, the judgement of a peer's
  event by the layers it may still open.

  \<^bold>\<open>Not modelled.\<close> The decimal rendering of floats (they are a type parameter with its printer and
  parser), the operating system's files, processes and sockets (what a handler saves to disk for the
  next boot is left out of it; where a save's success decides what happens next, its outcome is an
  argument), Drop order, and of the \<^verbatim>\<open>substrate\<close> crate reproduction, the observatory's
  statistics over floats and the event loop that calls the parts modelled here. The Python worker, the TypeScript operators and the tests are other
  programs.
\<close>

end
